(* ===== verification/Prelude.thy ===== *)
theory Prelude
  imports Main "HOL-Library.Char_ord" "HOL-Library.List_Lexorder" "HOL-Library.Product_Lexorder"
begin

text \<open>
  Shared vocabulary of the development: the result type of fallible code, tables of rows
  with a primary key (the shape of every SQLite table the program keeps), and the two
  interfaces that the key-value components of the program promise to their clients.
  The rows of a table are a list in insertion order; \<open>row_put\<close> is
  \<open>INSERT ... ON CONFLICT(key) DO UPDATE\<close>, which rewrites the row in place, \<open>row_del\<close> is
  \<open>DELETE ... WHERE\<close>, and \<open>row_get\<close> is a lookup by primary key.
\<close>

named_theorems row_simps "lookup laws of row tables"
named_theorems inv_intros "preservation of component invariants"

section \<open>Results\<close>

type_synonym ('e, 'a) result = "'e + 'a"

definition res_bind :: "('e, 'a) result \<Rightarrow> ('a \<Rightarrow> ('e, 'b) result) \<Rightarrow> ('e, 'b) result" where
  "res_bind r f = (case r of Inl e \<Rightarrow> Inl e | Inr a \<Rightarrow> f a)"

lemma res_bind_simps [simp]:
  "res_bind (Inl e) f = Inl e"
  "res_bind (Inr a) f = f a"
  by (simp_all add: res_bind_def)

definition res_ok :: "('e, 'a) result \<Rightarrow> 'a option" where
  "res_ok r = (case r of Inl e \<Rightarrow> None | Inr a \<Rightarrow> Some a)"

lemma res_ok_simps [simp]:
  "res_ok (Inl e) = None"
  "res_ok (Inr a) = Some a"
  by (simp_all add: res_ok_def)

section \<open>Tables of rows with a primary key\<close>

definition row_get :: "('r \<Rightarrow> 'k) \<Rightarrow> 'k \<Rightarrow> 'r list \<Rightarrow> 'r option" where
  "row_get key k rows = find (\<lambda>r. key r = k) rows"

fun row_put :: "('r \<Rightarrow> 'k) \<Rightarrow> 'r \<Rightarrow> 'r list \<Rightarrow> 'r list" where
  "row_put key r [] = [r]"
| "row_put key r (x # xs) = (if key x = key r then r # xs else x # row_put key r xs)"

definition row_del :: "('r \<Rightarrow> bool) \<Rightarrow> 'r list \<Rightarrow> 'r list" where
  "row_del P rows = filter (\<lambda>r. \<not> P r) rows"

definition keys_ok :: "('r \<Rightarrow> 'k) \<Rightarrow> 'r list \<Rightarrow> bool" where
  "keys_ok key rows = distinct (map key rows)"

lemma row_get_Nil [simp]: "row_get key k [] = None"
  by (simp add: row_get_def)

lemma row_get_Cons [simp]:
  "row_get key k (r # rows) = (if key r = k then Some r else row_get key k rows)"
  by (simp add: row_get_def)

lemma row_get_put [row_simps]:
  "row_get key k (row_put key r rows) = (if k = key r then Some r else row_get key k rows)"
  by (induction rows) auto

lemma row_get_Some_iff:
  assumes "keys_ok key rows"
  shows "row_get key k rows = Some r \<longleftrightarrow> r \<in> set rows \<and> key r = k"
  using assms by (induction rows) (auto simp: keys_ok_def)

lemma row_get_SomeD: "row_get key k rows = Some r \<Longrightarrow> r \<in> set rows \<and> key r = k"
  by (auto simp: row_get_def find_Some_iff)

lemma row_get_None_iff: "row_get key k rows = None \<longleftrightarrow> k \<notin> key ` set rows"
  by (induction rows) auto

lemma row_get_del [row_simps]:
  assumes "\<And>r. r \<in> set rows \<Longrightarrow> P r = Q (key r)"
  shows "row_get key k (row_del P rows) = (if Q k then None else row_get key k rows)"
  using assms by (induction rows) (auto simp: row_del_def)

lemma set_row_put:
  "keys_ok key rows \<Longrightarrow>
     set (row_put key r rows) = insert r {x \<in> set rows. key x \<noteq> key r}"
  by (induction rows) (auto simp: keys_ok_def rev_image_eqI)

lemma keys_row_put: "key ` set (row_put key r rows) = insert (key r) (key ` set rows)"
  by (induction rows) auto

lemma keys_ok_Nil [simp, inv_intros]: "keys_ok key []"
  by (simp add: keys_ok_def)

lemma keys_ok_put [inv_intros]: "keys_ok key rows \<Longrightarrow> keys_ok key (row_put key r rows)"
proof (induction rows)
  case (Cons x xs)
  then show ?case
    using keys_row_put [of key r xs] by (auto simp: keys_ok_def simp flip: set_map)
qed (simp add: keys_ok_def)

lemma keys_ok_del [inv_intros]: "keys_ok key rows \<Longrightarrow> keys_ok key (row_del P rows)"
  by (simp add: keys_ok_def row_del_def distinct_map_filter)

lemma keys_ok_map [inv_intros]:
  "keys_ok key rows \<Longrightarrow> (\<And>r. key (f r) = key r) \<Longrightarrow> keys_ok key (map f rows)"
  by (simp add: keys_ok_def o_def)

lemma row_get_map [row_simps]:
  "(\<And>r. key (f r) = key r) \<Longrightarrow> row_get key k (map f rows) = map_option f (row_get key k rows)"
  by (induction rows) auto

lemma row_put_noop_keys: "key r \<in> key ` set rows \<Longrightarrow> map key (row_put key r rows) = map key rows"
  by (induction rows) auto

lemma row_get_filter:
  "keys_ok key rows \<Longrightarrow> row_get key k (filter P rows) =
     (case row_get key k rows of None \<Rightarrow> None | Some r \<Rightarrow> if P r then Some r else None)"
proof (induction rows)
  case (Cons r rows)
  have "row_get key (key r) (filter P rows) = None"
    using Cons.prems by (auto simp: keys_ok_def row_get_None_iff)
  then show ?case using Cons by (auto simp: keys_ok_def)
qed simp

lemma filter_key_single:
  assumes "keys_ok key rows" and "r \<in> set rows"
  shows "filter (\<lambda>x. key x = key r) rows = [r]"
  using assms
proof (induction rows)
  case (Cons y ys)
  then show ?case
  proof (cases "y = r")
    case True
    then have "key r \<notin> key ` set ys" using Cons.prems(1) by (simp add: keys_ok_def)
    then have "filter (\<lambda>x. key x = key r) ys = []" unfolding filter_empty_conv by (metis image_eqI)
    then show ?thesis using True by simp
  next
    case False
    then have "r \<in> set ys" "key y \<noteq> key r" using Cons.prems by (auto simp: keys_ok_def)
    then show ?thesis using Cons.IH Cons.prems(1) by (simp add: keys_ok_def)
  qed
qed simp

lemma length_row_del_less: "x \<in> set rows \<Longrightarrow> P x \<Longrightarrow> length (row_del P rows) < length rows"
  unfolding row_del_def by (rule length_filter_less) auto

lemma length_row_del: "length (row_del P rows) \<le> length rows"
  by (simp add: row_del_def)

lemma length_row_put:
  "length (row_put key r rows) = (if key r \<in> key ` set rows then length rows else Suc (length rows))"
  by (induction rows) auto

section \<open>Interfaces of the key-value components\<close>

text \<open>
  What a store promises to the code that uses it: a lookup after an insertion returns the
  inserted value, and no other key is disturbed. \<open>inv\<close> is the invariant of the provider
  (for a table, that its primary key is unique).
\<close>

locale kv_store =
  fixes get :: "'s \<Rightarrow> 'k \<Rightarrow> 'v option"
    and put :: "'k \<Rightarrow> 'v \<Rightarrow> 's \<Rightarrow> 's"
    and inv :: "'s \<Rightarrow> bool"
  assumes get_put: "inv s \<Longrightarrow> get (put k v s) k' = (if k' = k then Some v else get s k')"
    and inv_put: "inv s \<Longrightarrow> inv (put k v s)"
begin

lemma get_put_same: "inv s \<Longrightarrow> get (put k v s) k = Some v"
  by (simp add: get_put)

lemma get_put_other: "inv s \<Longrightarrow> k' \<noteq> k \<Longrightarrow> get (put k v s) k' = get s k'"
  by (simp add: get_put)

lemma put_overwrites: "inv s \<Longrightarrow> get (put k v (put k w s)) = get (put k v s)"
  by (simp add: get_put inv_put fun_eq_iff)

lemma put_commutes:
  "inv s \<Longrightarrow> k \<noteq> k' \<Longrightarrow> get (put k v (put k' w s)) = get (put k' w (put k v s))"
  by (auto simp add: get_put inv_put fun_eq_iff)

lemma inv_fold_put: "inv s \<Longrightarrow> inv (fold (\<lambda>(k, v). put k v) kvs s)"
  by (induction kvs arbitrary: s) (auto simp: inv_put)

text \<open>A batch of insertions: the last write to a key wins.\<close>

lemma get_fold_put:
  "inv s \<Longrightarrow> get (fold (\<lambda>(k, v). put k v) kvs s) k =
     (case map_of (rev kvs) k of None \<Rightarrow> get s k | Some v \<Rightarrow> Some v)"
  by (induction kvs arbitrary: s)
    (auto simp: inv_put get_put map_add_def split: option.splits)

end

locale kv_table = kv_store +
  fixes del :: "'a \<Rightarrow> 'b \<Rightarrow> 'b"
  assumes get_del: "inv s \<Longrightarrow> get (del k s) k' = (if k' = k then None else get s k')"
    and inv_del: "inv s \<Longrightarrow> inv (del k s)"
begin

lemma get_del_put: "inv s \<Longrightarrow> get (del k (put k v s)) = get (del k s)"
  by (auto simp: get_del get_put inv_put fun_eq_iff)

lemma get_del_idem: "inv s \<Longrightarrow> get (del k (del k s)) = get (del k s)"
  by (auto simp: get_del inv_del fun_eq_iff)

lemma get_del_fresh: "inv s \<Longrightarrow> get s k = None \<Longrightarrow> get (del k s) = get s"
  by (auto simp: get_del fun_eq_iff)

end

section \<open>Machine arithmetic used across the components\<close>

definition sat_sub :: "nat \<Rightarrow> nat \<Rightarrow> nat" where
  "sat_sub a b = a - b"

definition u32_max :: nat where
  "u32_max = 2 ^ 32 - 1"

definition u64_max :: nat where
  "u64_max = 2 ^ 64 - 1"

definition sat_add_u32 :: "nat \<Rightarrow> nat \<Rightarrow> nat" where
  "sat_add_u32 a b = min (a + b) u32_max"

definition sat_add_u64 :: "nat \<Rightarrow> nat \<Rightarrow> nat" where
  "sat_add_u64 a b = min (a + b) u64_max"

definition sat_mul_u64 :: "nat \<Rightarrow> nat \<Rightarrow> nat" where
  "sat_mul_u64 a b = min (a * b) u64_max"

lemma sat_add_u64_le: "sat_add_u64 a b \<le> u64_max"
  by (simp add: sat_add_u64_def)

lemma sat_add_u32_le: "sat_add_u32 a b \<le> u32_max"
  by (simp add: sat_add_u32_def)

text \<open>Rust's \<open>u64::div_ceil\<close>; it panics on a zero divisor.\<close>

definition div_ceil :: "nat \<Rightarrow> nat \<Rightarrow> nat option" where
  "div_ceil a b = (if b = 0 then None else Some ((a + b - 1) div b))"

lemma div_ceil_SomeD: "div_ceil a b = Some c \<Longrightarrow> 0 < b \<and> a \<le> c * b \<and> (0 < a \<longrightarrow> (c - 1) * b < a)"
proof -
  assume *: "div_ceil a b = Some c"
  then have b: "0 < b" and c: "c = (a + b - 1) div b"
    by (auto simp: div_ceil_def split: if_splits)
  have eq: "c * b + (a + b - 1) mod b = a + b - 1"
    unfolding c by simp
  have lt: "(a + b - 1) mod b < b" using b by simp
  from eq lt b have 1: "a \<le> c * b" by linarith
  have 2: "(c - 1) * b < a" if "0 < a"
  proof (cases c)
    case 0
    then show ?thesis using that by simp
  next
    case (Suc d)
    then have "d * b + b \<le> a + b - 1" using eq by simp
    then show ?thesis using Suc that b by simp
  qed
  show ?thesis using b 1 2 by blast
qed

section \<open>Lists\<close>

text \<open>Rust's \<open>Vec::swap_remove\<close>: \<open>None\<close> is its out-of-bounds panic.\<close>

definition swap_remove :: "nat \<Rightarrow> 'a list \<Rightarrow> ('a \<times> 'a list) option" where
  "swap_remove pos xs =
     (if pos < length xs then Some (xs ! pos, butlast (xs[pos := last xs])) else None)"

lemma swap_remove_length:
  "swap_remove pos xs = Some (x, ys) \<Longrightarrow> length xs = Suc (length ys)"
  by (auto simp: swap_remove_def split: if_splits)

lemma swap_remove_nth:
  assumes "swap_remove pos xs = Some (x, ys)" and "i < length ys"
  shows "ys ! i = (if i = pos then last xs else xs ! i)"
  using assms by (auto simp: swap_remove_def nth_butlast split: if_splits)

end
