(* ===== verification/SyncTypes.thy ===== *)
theory SyncTypes
  imports RustStr
begin

text \<open>
  The data of the client sync engine (crates/sarca-sync/src/types.rs): bindings between a
  local folder and a storage of the server, the status a pass publishes for each binding,
  and the changelog and snapshot answers of the server.
  A \<open>Uuid\<close> is represented by its canonical text, which is also how the index stores it;
  \<open>i64\<close> sizes, times and cursors are integers.
\<close>

type_synonym uuid = string

definition nil_uuid :: uuid where
  "nil_uuid = ''00000000-0000-0000-0000-000000000000''"

datatype binding_mode = Sync | AutoUpload | FolderUpload

definition is_upload_only :: "binding_mode \<Rightarrow> bool" where
  "is_upload_only m = (case m of Sync \<Rightarrow> False | AutoUpload \<Rightarrow> True | FolderUpload \<Rightarrow> True)"

record binding =
  b_id :: string
  b_storage_id :: uuid
  b_remote_root :: string
  b_local_path :: string
  b_mode :: binding_mode
  b_enabled :: bool

record sync_status =
  ss_binding_id :: string
  ss_cursor :: int
  ss_last_error :: "string option"
  ss_uploading :: nat
  ss_downloading :: nat
  ss_conflicts :: nat
  ss_scanned :: nat
  ss_pending :: nat
  ss_already_synced :: nat
  ss_failed :: nat
  ss_deferred :: nat
  ss_relaying :: nat

definition scan_counters :: "nat \<Rightarrow> nat \<Rightarrow> nat \<times> nat \<times> nat" where
  "scan_counters scanned pending = (scanned, pending, sat_sub scanned pending)"

record changelog_event =
  ev_id :: int
  ev_storage_id :: uuid
  ev_file_id :: "uuid option"
  ev_path :: string
  ev_op :: string
  ev_size :: "int option"
  ev_is_file :: bool
  ev_content_hash :: "string option"

record changelog_response =
  cr_events :: "changelog_event list"
  cr_next_cursor :: int
  cr_has_more :: bool

record snapshot_entry =
  se_file_id :: uuid
  se_path :: string
  se_size :: int
  se_is_file :: bool
  se_content_hash :: "string option"

record snapshot_response =
  sr_files :: "snapshot_entry list"
  sr_cursor :: int

text \<open>
  The order in which a pass visits the modes (the \<open>sort_by_key\<close> of
  \<open>tick_filtered_scoped\<close>): upload-only bindings first.
\<close>

definition mode_rank :: "binding_mode \<Rightarrow> nat" where
  "mode_rank m = (case m of AutoUpload \<Rightarrow> 0 | FolderUpload \<Rightarrow> 0 | Sync \<Rightarrow> 1)"

lemma mode_rank_upload_only: "mode_rank m = 0 \<longleftrightarrow> is_upload_only m"
  by (cases m) (simp_all add: mode_rank_def is_upload_only_def)

lemma scan_counters_sum:
  "pending \<le> scanned \<Longrightarrow> scan_counters scanned pending = (s, p, a) \<Longrightarrow> p + a = s"
  by (auto simp: scan_counters_def sat_sub_def)

end
