(* ===== verification/LocalIndex.thy ===== *)
theory LocalIndex
  imports SyncTypes
begin

text \<open>
  The client's SQLite index (crates/sarca-sync/src/index.rs): four tables keyed as the
  \<open>PRIMARY KEY\<close>s of \<open>migrate\<close> say, and one definition per statement the code runs.
  The index operations are the successful executions of their statements: an I/O failure
  of SQLite itself is not modelled, a domain error (\<open>binding not found\<close>) is.
\<close>

section \<open>Tables\<close>

record binding_row =
  br_id :: string
  br_storage_id :: string
  br_remote_root :: string
  br_local_path :: string
  br_mode :: string
  br_enabled :: int
  br_cursor :: int

record entry_row =
  er_binding :: string
  er_path :: string
  er_size :: int
  er_mtime_ms :: int
  er_content_hash :: "string option"
  er_remote_file_id :: "string option"
  er_last_cursor :: int

record conflict_row =
  cf_binding :: string
  cf_path :: string
  cf_local_hash :: "string option"
  cf_remote_hash :: "string option"

record failure_row =
  fr_binding :: string
  fr_path :: string
  fr_fail_count :: int
  fr_next_attempt_ms :: int
  fr_last_error :: "string option"

record local_index =
  ix_bindings :: "binding_row list"
  ix_entries :: "entry_row list"
  ix_conflicts :: "conflict_row list"
  ix_failures :: "failure_row list"

record index_entry =
  ie_path :: string
  ie_size :: int
  ie_mtime_ms :: int
  ie_content_hash :: "string option"
  ie_remote_file_id :: "uuid option"
  ie_last_cursor :: int

record upload_failure =
  uf_path :: string
  uf_fail_count :: int
  uf_next_attempt_ms :: int
  uf_last_error :: "string option"

definition er_key :: "entry_row \<Rightarrow> string \<times> string" where
  "er_key r = (er_binding r, er_path r)"

definition cf_key :: "conflict_row \<Rightarrow> string \<times> string" where
  "cf_key r = (cf_binding r, cf_path r)"

definition fr_key :: "failure_row \<Rightarrow> string \<times> string" where
  "fr_key r = (fr_binding r, fr_path r)"

text \<open>A freshly migrated database.\<close>

definition empty_index :: local_index where
  "empty_index = \<lparr>ix_bindings = [], ix_entries = [], ix_conflicts = [], ix_failures = []\<rparr>"

section \<open>Bindings\<close>

definition mode_str :: "binding_mode \<Rightarrow> string" where
  "mode_str m = (case m of Sync \<Rightarrow> ''sync'' | AutoUpload \<Rightarrow> ''auto_upload''
     | FolderUpload \<Rightarrow> ''folder_upload'')"

definition parse_mode :: "string \<Rightarrow> binding_mode" where
  "parse_mode s =
     (if s = ''auto_upload'' then AutoUpload
      else if s = ''folder_upload'' then FolderUpload
      else Sync)"

definition upsert_binding :: "binding \<Rightarrow> local_index \<Rightarrow> local_index" where
  "upsert_binding b ix =
     (let cursor = (case row_get br_id (b_id b) (ix_bindings ix) of
                      None \<Rightarrow> 0 | Some r \<Rightarrow> br_cursor r)
      in ix\<lparr>ix_bindings := row_put br_id
           \<lparr>br_id = b_id b, br_storage_id = b_storage_id b, br_remote_root = b_remote_root b,
            br_local_path = b_local_path b, br_mode = mode_str (b_mode b),
            br_enabled = (if b_enabled b then 1 else 0), br_cursor = cursor\<rparr>
           (ix_bindings ix)\<rparr>)"

definition binding_of_row :: "binding_row \<Rightarrow> binding" where
  "binding_of_row r =
     \<lparr>b_id = br_id r, b_storage_id = br_storage_id r, b_remote_root = br_remote_root r,
      b_local_path = br_local_path r, b_mode = parse_mode (br_mode r),
      b_enabled = (br_enabled r \<noteq> 0)\<rparr>"

definition list_bindings :: "local_index \<Rightarrow> binding list" where
  "list_bindings ix = map binding_of_row (sort_key br_id (ix_bindings ix))"

definition remove_binding :: "string \<Rightarrow> local_index \<Rightarrow> local_index" where
  "remove_binding i ix =
     (let ix = ix\<lparr>ix_entries := row_del (\<lambda>r. er_binding r = i) (ix_entries ix)\<rparr>;
          ix = ix\<lparr>ix_conflicts := row_del (\<lambda>r. cf_binding r = i) (ix_conflicts ix)\<rparr>;
          ix = ix\<lparr>ix_failures := row_del (\<lambda>r. fr_binding r = i) (ix_failures ix)\<rparr>
      in ix\<lparr>ix_bindings := row_del (\<lambda>r. br_id r = i) (ix_bindings ix)\<rparr>)"

definition set_binding_enabled ::
  "string \<Rightarrow> bool \<Rightarrow> local_index \<Rightarrow> (string, local_index) result" where
  "set_binding_enabled i enabled ix =
     (let n = length (filter (\<lambda>r. br_id r = i) (ix_bindings ix));
          ix' = ix\<lparr>ix_bindings := map (\<lambda>r. if br_id r = i
                    then r\<lparr>br_enabled := (if enabled then 1 else 0)\<rparr> else r) (ix_bindings ix)\<rparr>
      in if n = 0 then Inl (''binding not found: '' @ i) else Inr ix')"

definition get_cursor :: "string \<Rightarrow> local_index \<Rightarrow> int" where
  "get_cursor i ix =
     (case row_get br_id i (ix_bindings ix) of None \<Rightarrow> 0 | Some r \<Rightarrow> br_cursor r)"

definition set_cursor :: "string \<Rightarrow> int \<Rightarrow> local_index \<Rightarrow> local_index" where
  "set_cursor i cursor ix =
     ix\<lparr>ix_bindings := map (\<lambda>r. if br_id r = i then r\<lparr>br_cursor := cursor\<rparr> else r)
          (ix_bindings ix)\<rparr>"

section \<open>Entries\<close>

definition get_entry :: "string \<Rightarrow> string \<Rightarrow> local_index \<Rightarrow> index_entry option" where
  "get_entry b p ix =
     map_option (\<lambda>r. \<lparr>ie_path = er_path r, ie_size = er_size r, ie_mtime_ms = er_mtime_ms r,
        ie_content_hash = er_content_hash r, ie_remote_file_id = er_remote_file_id r,
        ie_last_cursor = er_last_cursor r\<rparr>)
       (row_get er_key (b, p) (ix_entries ix))"

definition upsert_entry :: "string \<Rightarrow> index_entry \<Rightarrow> local_index \<Rightarrow> local_index" where
  "upsert_entry b e ix =
     ix\<lparr>ix_entries := row_put er_key
          \<lparr>er_binding = b, er_path = ie_path e, er_size = ie_size e,
           er_mtime_ms = ie_mtime_ms e, er_content_hash = ie_content_hash e,
           er_remote_file_id = ie_remote_file_id e, er_last_cursor = ie_last_cursor e\<rparr>
          (ix_entries ix)\<rparr>"

definition delete_entry :: "string \<Rightarrow> string \<Rightarrow> local_index \<Rightarrow> local_index" where
  "delete_entry b p ix =
     ix\<lparr>ix_entries := row_del (\<lambda>r. er_binding r = b \<and> er_path r = p) (ix_entries ix)\<rparr>"

definition list_entry_paths :: "string \<Rightarrow> local_index \<Rightarrow> string list" where
  "list_entry_paths b ix = map er_path (filter (\<lambda>r. er_binding r = b) (ix_entries ix))"

section \<open>Conflicts\<close>

definition add_conflict ::
  "string \<Rightarrow> string \<Rightarrow> string option \<Rightarrow> string option \<Rightarrow> local_index \<Rightarrow> local_index" where
  "add_conflict b p local_hash remote_hash ix =
     ix\<lparr>ix_conflicts := row_put cf_key
          \<lparr>cf_binding = b, cf_path = p, cf_local_hash = local_hash,
           cf_remote_hash = remote_hash\<rparr> (ix_conflicts ix)\<rparr>"

definition clear_conflict :: "string \<Rightarrow> string \<Rightarrow> local_index \<Rightarrow> local_index" where
  "clear_conflict b p ix =
     ix\<lparr>ix_conflicts := row_del (\<lambda>r. cf_binding r = b \<and> cf_path r = p) (ix_conflicts ix)\<rparr>"

definition conflict_count :: "string \<Rightarrow> local_index \<Rightarrow> nat" where
  "conflict_count b ix = length (filter (\<lambda>r. cf_binding r = b) (ix_conflicts ix))"

section \<open>Upload failures and their retry deadlines\<close>

definition failure_of_row :: "failure_row \<Rightarrow> upload_failure" where
  "failure_of_row r =
     \<lparr>uf_path = fr_path r, uf_fail_count = fr_fail_count r,
      uf_next_attempt_ms = fr_next_attempt_ms r, uf_last_error = fr_last_error r\<rparr>"

definition get_upload_failure ::
  "string \<Rightarrow> string \<Rightarrow> local_index \<Rightarrow> upload_failure option" where
  "get_upload_failure b p ix =
     map_option failure_of_row (row_get fr_key (b, p) (ix_failures ix))"

definition set_upload_failure ::
  "string \<Rightarrow> string \<Rightarrow> int \<Rightarrow> int \<Rightarrow> string \<Rightarrow> local_index \<Rightarrow> local_index" where
  "set_upload_failure b p fail_count next_attempt_ms last_error ix =
     ix\<lparr>ix_failures := row_put fr_key
          \<lparr>fr_binding = b, fr_path = p, fr_fail_count = fail_count,
           fr_next_attempt_ms = next_attempt_ms, fr_last_error = Some last_error\<rparr>
          (ix_failures ix)\<rparr>"

definition clear_upload_failure :: "string \<Rightarrow> string \<Rightarrow> local_index \<Rightarrow> local_index" where
  "clear_upload_failure b p ix =
     ix\<lparr>ix_failures := row_del (\<lambda>r. fr_binding r = b \<and> fr_path r = p) (ix_failures ix)\<rparr>"

definition load_upload_backoff :: "string \<Rightarrow> local_index \<Rightarrow> (string \<Rightarrow> int option)" where
  "load_upload_backoff b ix =
     fold (\<lambda>r m. m(fr_path r \<mapsto> fr_next_attempt_ms r))
       (filter (\<lambda>r. fr_binding r = b) (ix_failures ix)) Map.empty"

text \<open>Returns the number of rows deleted, with the new index.\<close>

definition clear_upload_backoff :: "string \<Rightarrow> local_index \<Rightarrow> nat \<times> local_index" where
  "clear_upload_backoff b ix =
     (length (filter (\<lambda>r. fr_binding r = b) (ix_failures ix)),
      ix\<lparr>ix_failures := row_del (\<lambda>r. fr_binding r = b) (ix_failures ix)\<rparr>)"

definition upload_failure_count :: "string \<Rightarrow> local_index \<Rightarrow> nat" where
  "upload_failure_count b ix = length (filter (\<lambda>r. fr_binding r = b) (ix_failures ix))"

definition list_upload_failures :: "string \<Rightarrow> nat \<Rightarrow> local_index \<Rightarrow> upload_failure list" where
  "list_upload_failures b limit ix =
     map failure_of_row
       (take limit (sort_key (\<lambda>r. (- fr_fail_count r, fr_path r))
          (filter (\<lambda>r. fr_binding r = b) (ix_failures ix))))"

section \<open>The invariant: primary keys are unique\<close>

definition index_inv :: "local_index \<Rightarrow> bool" where
  "index_inv ix \<longleftrightarrow>
     keys_ok br_id (ix_bindings ix) \<and> keys_ok er_key (ix_entries ix) \<and>
     keys_ok cf_key (ix_conflicts ix) \<and> keys_ok fr_key (ix_failures ix)"

lemma index_inv_empty [inv_intros]: "index_inv empty_index"
  by (simp add: index_inv_def empty_index_def)

lemma index_inv_upsert_binding [inv_intros]: "index_inv ix \<Longrightarrow> index_inv (upsert_binding b ix)"
  by (simp add: index_inv_def upsert_binding_def Let_def keys_ok_put)

lemma index_inv_remove_binding [inv_intros]: "index_inv ix \<Longrightarrow> index_inv (remove_binding i ix)"
  by (simp add: index_inv_def remove_binding_def Let_def keys_ok_del)

lemma index_inv_set_cursor [inv_intros]: "index_inv ix \<Longrightarrow> index_inv (set_cursor i c ix)"
  by (simp add: index_inv_def set_cursor_def keys_ok_map)

lemma index_inv_set_binding_enabled [inv_intros]:
  "set_binding_enabled i e ix = Inr ix' \<Longrightarrow> index_inv ix \<Longrightarrow> index_inv ix'"
  by (auto simp: index_inv_def set_binding_enabled_def Let_def split: if_splits
      intro!: keys_ok_map)

lemma index_inv_upsert_entry [inv_intros]: "index_inv ix \<Longrightarrow> index_inv (upsert_entry b e ix)"
  by (simp add: index_inv_def upsert_entry_def keys_ok_put)

lemma index_inv_delete_entry [inv_intros]: "index_inv ix \<Longrightarrow> index_inv (delete_entry b p ix)"
  by (simp add: index_inv_def delete_entry_def keys_ok_del)

lemma index_inv_add_conflict [inv_intros]:
  "index_inv ix \<Longrightarrow> index_inv (add_conflict b p lh rh ix)"
  by (simp add: index_inv_def add_conflict_def keys_ok_put)

lemma index_inv_clear_conflict [inv_intros]: "index_inv ix \<Longrightarrow> index_inv (clear_conflict b p ix)"
  by (simp add: index_inv_def clear_conflict_def keys_ok_del)

lemma index_inv_set_upload_failure [inv_intros]:
  "index_inv ix \<Longrightarrow> index_inv (set_upload_failure b p fc nx er ix)"
  by (simp add: index_inv_def set_upload_failure_def keys_ok_put)

lemma index_inv_clear_upload_failure [inv_intros]:
  "index_inv ix \<Longrightarrow> index_inv (clear_upload_failure b p ix)"
  by (simp add: index_inv_def clear_upload_failure_def keys_ok_del)

lemma index_inv_clear_upload_backoff [inv_intros]:
  "index_inv ix \<Longrightarrow> index_inv (snd (clear_upload_backoff b ix))"
  by (simp add: index_inv_def clear_upload_backoff_def keys_ok_del)

section \<open>Lookup laws\<close>

named_theorems index_simps "what each index operation does to each lookup"

lemma get_entry_upsert [index_simps]:
  "get_entry b p (upsert_entry b' e ix) =
     (if b = b' \<and> p = ie_path e then Some e else get_entry b p ix)"
  by (auto simp: get_entry_def upsert_entry_def row_get_put er_key_def)

lemma row_get_er_del:
  "row_get er_key (b, p) (row_del (\<lambda>r. er_binding r = b' \<and> er_path r = p') rows) =
     (if b = b' \<and> p = p' then None else row_get er_key (b, p) rows)"
  by (subst row_get_del [where Q = "\<lambda>(x, y). x = b' \<and> y = p'"]) (auto simp: er_key_def)

lemma get_entry_delete [index_simps]:
  "get_entry b p (delete_entry b' p' ix) =
     (if b = b' \<and> p = p' then None else get_entry b p ix)"
  by (simp add: get_entry_def delete_entry_def row_get_er_del)

lemma row_get_er_del_binding:
  "row_get er_key (b, p) (row_del (\<lambda>r. er_binding r = i) rows) =
     (if b = i then None else row_get er_key (b, p) rows)"
  by (subst row_get_del [where Q = "\<lambda>(x, y). x = i"]) (auto simp: er_key_def)

lemma get_entry_remove_binding [index_simps]:
  "get_entry b p (remove_binding i ix) = (if b = i then None else get_entry b p ix)"
  by (simp add: get_entry_def remove_binding_def Let_def row_get_er_del_binding)

lemma get_entry_frame [index_simps]:
  "get_entry b p (upsert_binding bd ix) = get_entry b p ix"
  "get_entry b p (set_cursor i c ix) = get_entry b p ix"
  "get_entry b p (add_conflict b' p' lh rh ix) = get_entry b p ix"
  "get_entry b p (clear_conflict b' p' ix) = get_entry b p ix"
  "get_entry b p (set_upload_failure b' p' fc nx er ix) = get_entry b p ix"
  "get_entry b p (clear_upload_failure b' p' ix) = get_entry b p ix"
  "get_entry b p (snd (clear_upload_backoff b' ix)) = get_entry b p ix"
  by (simp_all add: get_entry_def upsert_binding_def set_cursor_def add_conflict_def
      clear_conflict_def set_upload_failure_def clear_upload_failure_def
      clear_upload_backoff_def Let_def)

lemma get_entry_set_binding_enabled [index_simps]:
  "set_binding_enabled i e ix = Inr ix' \<Longrightarrow> get_entry b p ix' = get_entry b p ix"
  by (auto simp: set_binding_enabled_def get_entry_def Let_def split: if_splits)

lemma get_upload_failure_set [index_simps]:
  "get_upload_failure b p (set_upload_failure b' p' fc nx er ix) =
     (if b = b' \<and> p = p'
      then Some \<lparr>uf_path = p', uf_fail_count = fc, uf_next_attempt_ms = nx, uf_last_error = Some er\<rparr>
      else get_upload_failure b p ix)"
  by (auto simp: get_upload_failure_def set_upload_failure_def row_get_put fr_key_def
      failure_of_row_def)

lemma row_get_fr_del:
  "row_get fr_key (b, p) (row_del (\<lambda>r. fr_binding r = b' \<and> fr_path r = p') rows) =
     (if b = b' \<and> p = p' then None else row_get fr_key (b, p) rows)"
  by (subst row_get_del [where Q = "\<lambda>(x, y). x = b' \<and> y = p'"]) (auto simp: fr_key_def)

lemma get_upload_failure_clear [index_simps]:
  "get_upload_failure b p (clear_upload_failure b' p' ix) =
     (if b = b' \<and> p = p' then None else get_upload_failure b p ix)"
  by (simp add: get_upload_failure_def clear_upload_failure_def row_get_fr_del)

lemma row_get_fr_del_binding:
  "row_get fr_key (b, p) (row_del (\<lambda>r. fr_binding r = i) rows) =
     (if b = i then None else row_get fr_key (b, p) rows)"
  by (subst row_get_del [where Q = "\<lambda>(x, y). x = i"]) (auto simp: fr_key_def)

lemma get_upload_failure_remove_binding [index_simps]:
  "get_upload_failure b p (remove_binding i ix) =
     (if b = i then None else get_upload_failure b p ix)"
  by (simp add: get_upload_failure_def remove_binding_def Let_def row_get_fr_del_binding)

lemma get_upload_failure_clear_backoff [index_simps]:
  "get_upload_failure b p (snd (clear_upload_backoff b' ix)) =
     (if b = b' then None else get_upload_failure b p ix)"
  by (simp add: get_upload_failure_def clear_upload_backoff_def row_get_fr_del_binding)

lemma get_upload_failure_frame [index_simps]:
  "get_upload_failure b p (upsert_binding bd ix) = get_upload_failure b p ix"
  "get_upload_failure b p (set_cursor i c ix) = get_upload_failure b p ix"
  "get_upload_failure b p (add_conflict b' p' lh rh ix) = get_upload_failure b p ix"
  "get_upload_failure b p (clear_conflict b' p' ix) = get_upload_failure b p ix"
  "get_upload_failure b p (upsert_entry b' e ix) = get_upload_failure b p ix"
  "get_upload_failure b p (delete_entry b' p' ix) = get_upload_failure b p ix"
  by (simp_all add: get_upload_failure_def upsert_binding_def set_cursor_def add_conflict_def
      clear_conflict_def upsert_entry_def delete_entry_def Let_def)

lemma get_cursor_upsert_binding [index_simps]:
  "get_cursor i (upsert_binding b ix) = get_cursor i ix"
  by (simp add: get_cursor_def upsert_binding_def Let_def row_get_put split: option.splits)

lemma get_cursor_set [index_simps]:
  "get_cursor i (set_cursor j c ix) =
     (if i = j \<and> i \<in> br_id ` set (ix_bindings ix) then c else get_cursor i ix)"
  by (auto simp: get_cursor_def set_cursor_def row_get_map row_get_None_iff
      dest!: row_get_SomeD split: option.splits)

lemma get_cursor_frame [index_simps]:
  "get_cursor i (upsert_entry b' e ix) = get_cursor i ix"
  "get_cursor i (delete_entry b' p' ix) = get_cursor i ix"
  "get_cursor i (add_conflict b' p' lh rh ix) = get_cursor i ix"
  "get_cursor i (clear_conflict b' p' ix) = get_cursor i ix"
  "get_cursor i (set_upload_failure b' p' fc nx er ix) = get_cursor i ix"
  "get_cursor i (clear_upload_failure b' p' ix) = get_cursor i ix"
  by (simp_all add: get_cursor_def upsert_entry_def delete_entry_def add_conflict_def
      clear_conflict_def set_upload_failure_def clear_upload_failure_def)

lemma ix_bindings_frame [index_simps]:
  "ix_bindings (upsert_entry b' e ix) = ix_bindings ix"
  "ix_bindings (delete_entry b' p' ix) = ix_bindings ix"
  "ix_bindings (add_conflict b' p' lh rh ix) = ix_bindings ix"
  "ix_bindings (clear_conflict b' p' ix) = ix_bindings ix"
  "ix_bindings (set_upload_failure b' p' fc nx er ix) = ix_bindings ix"
  "ix_bindings (clear_upload_failure b' p' ix) = ix_bindings ix"
  by (simp_all add: upsert_entry_def delete_entry_def add_conflict_def
      clear_conflict_def set_upload_failure_def clear_upload_failure_def)

lemma parse_mode_str [simp]: "parse_mode (mode_str m) = m"
  by (cases m) (simp_all add: parse_mode_def mode_str_def)

lemma set_list_bindings: "set (list_bindings ix) = binding_of_row ` set (ix_bindings ix)"
  by (simp add: list_bindings_def)

lemma b_id_binding_of_row [simp]: "b_id (binding_of_row r) = br_id r"
  by (simp add: binding_of_row_def)

section \<open>The tables as stores\<close>

text \<open>
  The entry table and the failure table meet the store contract of the prelude; their
  values are the columns beside the key.
\<close>

type_synonym entry_cols = "int \<times> int \<times> string option \<times> uuid option \<times> int"

definition mk_entry :: "string \<Rightarrow> entry_cols \<Rightarrow> index_entry" where
  "mk_entry p v = (case v of (sz, mtime, hash, remote, cursor) \<Rightarrow>
     \<lparr>ie_path = p, ie_size = sz, ie_mtime_ms = mtime, ie_content_hash = hash,
      ie_remote_file_id = remote, ie_last_cursor = cursor\<rparr>)"

definition entry_cols_of :: "index_entry \<Rightarrow> entry_cols" where
  "entry_cols_of e = (ie_size e, ie_mtime_ms e, ie_content_hash e, ie_remote_file_id e,
     ie_last_cursor e)"

lemma entry_cols_of_mk [simp]: "entry_cols_of (mk_entry p v) = v"
  by (simp add: entry_cols_of_def mk_entry_def split: prod.splits)

lemma ie_path_mk [simp]: "ie_path (mk_entry p v) = p"
  by (simp add: mk_entry_def split: prod.splits)

interpretation entries: kv_table
  "\<lambda>ix (b, p). map_option entry_cols_of (get_entry b p ix)"
  "\<lambda>(b, p) v. upsert_entry b (mk_entry p v)"
  index_inv
  "\<lambda>(b, p). delete_entry b p"
  by unfold_locales (auto simp: index_simps inv_intros split: if_splits)

interpretation failures: kv_table
  "\<lambda>ix (b, p). map_option (\<lambda>f. (uf_fail_count f, uf_next_attempt_ms f, the (uf_last_error f)))
     (get_upload_failure b p ix)"
  "\<lambda>(b, p) (fc, nx, er). set_upload_failure b p fc nx er"
  index_inv
  "\<lambda>(b, p). clear_upload_failure b p"
  by unfold_locales (auto simp: index_simps inv_intros split: if_splits)

section \<open>The retry deadlines\<close>

lemma fold_backoff:
  "keys_ok fr_key rows \<Longrightarrow> (\<And>r. r \<in> set rows \<Longrightarrow> fr_binding r = b) \<Longrightarrow>
   fold (\<lambda>r m. m(fr_path r \<mapsto> fr_next_attempt_ms r)) rows m p =
     (case row_get fr_key (b, p) rows of
        Some r \<Rightarrow> Some (fr_next_attempt_ms r) | None \<Rightarrow> m p)"
proof (induction rows arbitrary: m)
  case (Cons r rows)
  have ok: "keys_ok fr_key rows" and fresh: "row_get fr_key (fr_key r) rows = None"
    using Cons.prems(1) by (auto simp: keys_ok_def row_get_None_iff)
  have key: "fr_key r = (b, fr_path r)" using Cons.prems(2) by (simp add: fr_key_def)
  have IH: "fold (\<lambda>r m. m(fr_path r \<mapsto> fr_next_attempt_ms r)) rows m' p =
     (case row_get fr_key (b, p) rows of
        Some r \<Rightarrow> Some (fr_next_attempt_ms r) | None \<Rightarrow> m' p)" for m'
    using Cons.prems(2) by (intro Cons.IH [OF ok]) simp
  show ?case
    unfolding fold_simps IH using fresh by (cases "p = fr_path r") (simp_all add: key split: option.splits)
qed simp

lemma row_get_fr_filter:
  "row_get fr_key (b, p) (filter (\<lambda>r. fr_binding r = b) rows) = row_get fr_key (b, p) rows"
  by (induction rows) (auto simp: fr_key_def)

text \<open>The map read once per scan answers exactly as one query per candidate would.\<close>

lemma load_upload_backoff_eq:
  assumes "index_inv ix"
  shows "load_upload_backoff b ix p = map_option uf_next_attempt_ms (get_upload_failure b p ix)"
proof -
  have "keys_ok fr_key (filter (\<lambda>r. fr_binding r = b) (ix_failures ix))"
    using assms keys_ok_del [of fr_key "ix_failures ix" "\<lambda>r. fr_binding r \<noteq> b"]
    by (simp add: index_inv_def row_del_def)
  then show ?thesis
    unfolding load_upload_backoff_def get_upload_failure_def
    by (subst fold_backoff [where b = b])
      (auto simp: row_get_fr_filter failure_of_row_def split: option.splits)
qed

lemma sorted_take_drop:
  assumes "sorted (map f xs)" and "x \<in> set (take n xs)" and "y \<in> set (drop n xs)"
  shows "f x \<le> f y"
proof -
  have "sorted (map f (take n xs) @ map f (drop n xs))"
    using assms(1) by (simp flip: map_append)
  then show ?thesis using assms(2,3) by (auto simp: sorted_append)
qed

lemma list_upload_failures_length:
  "length (list_upload_failures b limit ix) = min limit (upload_failure_count b ix)"
  by (simp add: list_upload_failures_def upload_failure_count_def)

section \<open>Properties of the index\<close>

lemma set_list_bindings_upsert:
  assumes "index_inv ix"
  shows "set (list_bindings (upsert_binding b ix)) =
           insert b {b' \<in> set (list_bindings ix). b_id b' \<noteq> b_id b}"
proof -
  let ?r = "\<lparr>br_id = b_id b, br_storage_id = b_storage_id b, br_remote_root = b_remote_root b,
            br_local_path = b_local_path b, br_mode = mode_str (b_mode b),
            br_enabled = (if b_enabled b then 1 else 0), br_cursor = get_cursor (b_id b) ix\<rparr>"
  have rows: "ix_bindings (upsert_binding b ix) = row_put br_id ?r (ix_bindings ix)"
    by (simp add: upsert_binding_def get_cursor_def)
  have ok: "keys_ok br_id (ix_bindings ix)" using assms by (simp add: index_inv_def)
  have "binding_of_row ?r = b" by (simp add: binding_of_row_def)
  then show ?thesis unfolding set_list_bindings rows set_row_put [OF ok] by auto
qed

text \<open>
  Upserting a binding makes the listing contain exactly that binding under its id,
  whatever was there before, keeps every other binding, and never moves a changelog
  cursor: re-saving a binding does not make it re-bootstrap.
\<close>

theorem upsert_binding_correct:
  assumes "index_inv ix"
  shows "set (list_bindings (upsert_binding b ix)) =
           insert b {b' \<in> set (list_bindings ix). b_id b' \<noteq> b_id b}
         \<and> (\<forall>i. get_cursor i (upsert_binding b ix) = get_cursor i ix)
         \<and> distinct (map b_id (list_bindings (upsert_binding b ix)))"
proof -
  have "map b_id (list_bindings ix') = map br_id (sort_key br_id (ix_bindings ix'))" for ix'
    by (simp add: list_bindings_def o_def)
  moreover have "distinct (map br_id (sort_key br_id rows))" if "keys_ok br_id rows" for rows
    using that by (simp add: keys_ok_def distinct_map)
  moreover have "keys_ok br_id (ix_bindings (upsert_binding b ix))"
    using index_inv_upsert_binding [OF assms] by (simp add: index_inv_def)
  ultimately show ?thesis
    using set_list_bindings_upsert [OF assms] by (simp add: get_cursor_upsert_binding)
qed

definition sample_binding :: "string \<Rightarrow> binding_mode \<Rightarrow> binding" where
  "sample_binding i m = \<lparr>b_id = i, b_storage_id = nil_uuid, b_remote_root = ''Camera'',
     b_local_path = ''/home/u/Pictures'', b_mode = m, b_enabled = True\<rparr>"

theorem upsert_binding_correct_witness:
  "index_inv (upsert_binding (sample_binding ''a'' Sync) empty_index) \<and>
   set (list_bindings (upsert_binding (sample_binding ''b'' AutoUpload)
          (upsert_binding (sample_binding ''a'' Sync) empty_index))) =
     {sample_binding ''a'' Sync, sample_binding ''b'' AutoUpload}"
proof -
  have inv: "index_inv (upsert_binding (sample_binding ''a'' Sync) empty_index)"
    by (intro inv_intros)
  have one: "set (list_bindings (upsert_binding (sample_binding ''a'' Sync) empty_index)) =
      {sample_binding ''a'' Sync}"
    by (auto simp: set_list_bindings upsert_binding_def binding_of_row_def sample_binding_def
        empty_index_def)
  have "set (list_bindings (upsert_binding (sample_binding ''b'' AutoUpload)
          (upsert_binding (sample_binding ''a'' Sync) empty_index))) =
      insert (sample_binding ''b'' AutoUpload)
        {b' \<in> {sample_binding ''a'' Sync}. b_id b' \<noteq> b_id (sample_binding ''b'' AutoUpload)}"
    using upsert_binding_correct [OF inv, of "sample_binding ''b'' AutoUpload"]
    unfolding one by blast
  also have "\<dots> = {sample_binding ''a'' Sync, sample_binding ''b'' AutoUpload}"
    by (auto simp: sample_binding_def)
  finally show ?thesis using inv by blast
qed

text \<open>
  The failure listing shows the worst offenders first: it has at most \<open>limit\<close> rows, its
  failure counts never increase, and no row it leaves out has failed more often than one
  it shows.
\<close>

theorem list_upload_failures_worst_first:
  "length (list_upload_failures b limit ix) = min limit (upload_failure_count b ix)
   \<and> sorted_wrt (\<lambda>f g. uf_fail_count f \<ge> uf_fail_count g) (list_upload_failures b limit ix)
   \<and> (\<forall>f \<in> set (list_upload_failures b limit ix).
        \<forall>g \<in> set (list_upload_failures b (upload_failure_count b ix) ix)
             - set (list_upload_failures b limit ix).
          uf_fail_count f \<ge> uf_fail_count g)"
proof -
  define rows where
    "rows = sort_key (\<lambda>r. (- fr_fail_count r, fr_path r))
       (filter (\<lambda>r. fr_binding r = b) (ix_failures ix))"
  have srt: "sorted (map (\<lambda>r. (- fr_fail_count r, fr_path r)) rows)"
    unfolding rows_def by simp
  have shown: "list_upload_failures b n ix = map failure_of_row (take n rows)" for n
    by (simp add: list_upload_failures_def rows_def)
  have len: "length rows = upload_failure_count b ix"
    by (simp add: rows_def upload_failure_count_def)
  have cnt: "uf_fail_count (failure_of_row r) = fr_fail_count r" for r
    by (simp add: failure_of_row_def)
  have "sorted_wrt (\<lambda>r s. (- fr_fail_count r, fr_path r) \<le> (- fr_fail_count s, fr_path s)) rows"
    using srt by (simp add: sorted_map)
  then have "sorted_wrt (\<lambda>r s. fr_fail_count r \<ge> fr_fail_count s) rows"
    by (rule sorted_wrt_mono_rel [rotated]) (auto simp: less_eq_prod_def)
  then have 1: "sorted_wrt (\<lambda>f g. uf_fail_count f \<ge> uf_fail_count g)
      (list_upload_failures b limit ix)"
    by (simp add: shown sorted_wrt_map cnt sorted_wrt_take)
  have 2: "uf_fail_count f \<ge> uf_fail_count g"
    if "f \<in> set (list_upload_failures b limit ix)"
      and "g \<in> set (map failure_of_row rows) - set (list_upload_failures b limit ix)" for f g
  proof -
    note fg = that
    obtain r where r: "r \<in> set (take limit rows)" "f = failure_of_row r"
      using fg(1) by (auto simp: shown)
    obtain s where s: "s \<in> set rows" "g = failure_of_row s" "s \<notin> set (take limit rows)"
      using fg(2) by (auto simp: shown)
    then have "s \<in> set (drop limit rows)"
      by (metis UnE append_take_drop_id set_append)
    from sorted_take_drop [OF srt r(1) this] show ?thesis
      by (auto simp: less_eq_prod_def r(2) s(2) cnt)
  qed
  have all: "list_upload_failures b (upload_failure_count b ix) ix = map failure_of_row rows"
    by (simp add: shown len [symmetric])
  show ?thesis using 1 2 by (simp add: list_upload_failures_length all)
qed

theorem list_upload_failures_worst_first_witness:
  "let ix = set_upload_failure ''b'' ''x'' 3 10 ''e'' (set_upload_failure ''b'' ''y'' 1 5 ''e'' empty_index)
   in length (list_upload_failures ''b'' 1 ix) = 1 \<and>
      sorted_wrt (\<lambda>f g. uf_fail_count f \<ge> uf_fail_count g) (list_upload_failures ''b'' 2 ix)"
  using list_upload_failures_worst_first [of "''b''" 1
      "set_upload_failure ''b'' ''x'' 3 10 ''e'' (set_upload_failure ''b'' ''y'' 1 5 ''e'' empty_index)"]
    list_upload_failures_worst_first [of "''b''" 2
      "set_upload_failure ''b'' ''x'' 3 10 ''e'' (set_upload_failure ''b'' ''y'' 1 5 ''e'' empty_index)"]
  by (simp add: upload_failure_count_def set_upload_failure_def fr_key_def empty_index_def)

end
