(* ===== verification/TransferQueue.thy ===== *)
theory TransferQueue
  imports RustStr "HOL-Library.Multiset"
begin

text \<open>
  The in-memory transfer queue behind the Sync panel (crates/sarca-sync/src/transfer.rs).
  Waiting items live in a vector with two position indexes (by id and by file), so that
  enqueuing and promoting cost no scan; removal is \<open>swap_remove\<close> plus a patch of the moved
  item's index entries. \<open>None\<close> is the out-of-bounds panic of \<open>swap_remove\<close>; the
  development proves that no operation panics and that the indexes stay exact.
  Ids are \<open>Uuid::new_v4\<close> strings and times are the wall clock: both are arguments.
\<close>

definition max_done :: nat where
  "max_done = 100"

definition snapshot_items_cap :: nat where
  "snapshot_items_cap = 200"

datatype transfer_direction = Upload | Download

datatype transfer_status = Active | Waiting | Done

record transfer_item =
  ti_id :: string
  ti_binding_id :: string
  ti_direction :: transfer_direction
  ti_path :: string
  ti_name :: string
  ti_size :: "int option"
  ti_status :: transfer_status
  ti_updated_at_ms :: int

record transfer_queue_snapshot =
  qs_uploading :: nat
  qs_downloading :: nat
  qs_items :: "transfer_item list"

record upload_in_flight =
  uif_name :: string
  uif_sent :: nat
  uif_size :: nat

record upload_progress_snapshot =
  ups_completed :: nat
  ups_completed_bytes :: nat
  ups_remaining :: nat
  ups_remaining_bytes :: nat
  ups_current :: "upload_in_flight list"

type_synonym waiting_key = "string \<times> transfer_direction \<times> string \<times> string"

record transfer_queue =
  tq_active :: "transfer_item list"
  tq_waiting :: "transfer_item list"
  tq_by_id :: "string \<Rightarrow> nat option"
  tq_by_key :: "waiting_key \<Rightarrow> nat option"
  tq_done :: "transfer_item list"
  tq_meters :: "string \<Rightarrow> nat option"
  tq_uploads_completed :: nat
  tq_upload_bytes_completed :: nat

definition empty_queue :: transfer_queue where
  "empty_queue = \<lparr>tq_active = [], tq_waiting = [], tq_by_id = Map.empty,
     tq_by_key = Map.empty, tq_done = [], tq_meters = Map.empty, tq_uploads_completed = 0,
     tq_upload_bytes_completed = 0\<rparr>"

definition split_path :: "string \<Rightarrow> string \<times> string" where
  "split_path relative =
     (let relative = trim_matches CHR ''/'' relative in
      case rsplit_once CHR ''/'' relative of
        Some (p, n) \<Rightarrow> (p, n)
      | None \<Rightarrow> ([], relative))"

definition key_of :: "transfer_item \<Rightarrow> waiting_key" where
  "key_of i = (ti_binding_id i, ti_direction i, ti_path i, ti_name i)"

section \<open>The waiting vector and its indexes\<close>

definition waiting_remove_at ::
  "nat \<Rightarrow> transfer_queue \<Rightarrow> (transfer_item \<times> transfer_queue) option" where
  "waiting_remove_at pos q =
     (case swap_remove pos (tq_waiting q) of
        None \<Rightarrow> None
      | Some (removed, waiting) \<Rightarrow>
          let by_id = (tq_by_id q)(ti_id removed := None);
              by_key = (tq_by_key q)(key_of removed := None);
              (by_id, by_key) =
                (if pos < length waiting
                 then (by_id(ti_id (waiting ! pos) \<mapsto> pos), by_key(key_of (waiting ! pos) \<mapsto> pos))
                 else (by_id, by_key))
          in Some (removed, q\<lparr>tq_waiting := waiting, tq_by_id := by_id, tq_by_key := by_key\<rparr>))"

definition waiting_remove_by_key ::
  "waiting_key \<Rightarrow> transfer_queue \<Rightarrow> (transfer_item option \<times> transfer_queue) option" where
  "waiting_remove_by_key k q =
     (case tq_by_key q k of
        None \<Rightarrow> Some (None, q)
      | Some pos \<Rightarrow> map_option (\<lambda>(i, q). (Some i, q)) (waiting_remove_at pos q))"

definition waiting_remove_by_id ::
  "string \<Rightarrow> transfer_queue \<Rightarrow> (transfer_item option \<times> transfer_queue) option" where
  "waiting_remove_by_id i q =
     (case tq_by_id q i of
        None \<Rightarrow> Some (None, q)
      | Some pos \<Rightarrow> map_option (\<lambda>(i, q). (Some i, q)) (waiting_remove_at pos q))"

definition waiting_push :: "transfer_item \<Rightarrow> transfer_queue \<Rightarrow> transfer_queue" where
  "waiting_push item q =
     (let pos = length (tq_waiting q) in
      q\<lparr>tq_by_id := (tq_by_id q)(ti_id item \<mapsto> pos),
        tq_by_key := (tq_by_key q)(key_of item \<mapsto> pos),
        tq_waiting := tq_waiting q @ [item]\<rparr>)"

section \<open>Operations\<close>

definition retain_other ::
  "string \<Rightarrow> transfer_direction \<Rightarrow> string \<Rightarrow> string \<Rightarrow> transfer_item list \<Rightarrow> transfer_item list" where
  "retain_other b d p n items =
     filter (\<lambda>i. \<not> (ti_binding_id i = b \<and> ti_direction i = d \<and> ti_path i = p \<and> ti_name i = n))
       items"

definition begin_transfer ::
  "string \<Rightarrow> transfer_direction \<Rightarrow> string \<Rightarrow> int option \<Rightarrow> string \<Rightarrow> int \<Rightarrow>
     transfer_queue \<Rightarrow> (string \<times> transfer_queue) option" where
  "begin_transfer b d relative_path sz tid now q =
     (let (p, n) = split_path relative_path;
          q = q\<lparr>tq_active := retain_other b d p n (tq_active q)\<rparr>
      in case waiting_remove_by_key (b, d, p, n) q of
           None \<Rightarrow> None
         | Some (_, q) \<Rightarrow>
             Some (tid, q\<lparr>tq_active := tq_active q @
               [\<lparr>ti_id = tid, ti_binding_id = b, ti_direction = d, ti_path = p, ti_name = n,
                 ti_size = sz, ti_status = Active, ti_updated_at_ms = now\<rparr>]\<rparr>))"

definition enqueue_waiting ::
  "string \<Rightarrow> transfer_direction \<Rightarrow> string \<Rightarrow> int option \<Rightarrow> string \<Rightarrow> int \<Rightarrow>
     transfer_queue \<Rightarrow> (string \<times> transfer_queue) option" where
  "enqueue_waiting b d relative_path sz tid now q =
     (let (p, n) = split_path relative_path;
          q = q\<lparr>tq_active := retain_other b d p n (tq_active q)\<rparr>
      in case waiting_remove_by_key (b, d, p, n) q of
           None \<Rightarrow> None
         | Some (_, q) \<Rightarrow>
             Some (tid, waiting_push
               \<lparr>ti_id = tid, ti_binding_id = b, ti_direction = d, ti_path = p, ti_name = n,
                ti_size = sz, ti_status = Waiting, ti_updated_at_ms = now\<rparr> q))"

definition promote :: "string \<Rightarrow> int \<Rightarrow> transfer_queue \<Rightarrow> (bool \<times> transfer_queue) option" where
  "promote tid now q =
     (case waiting_remove_by_id tid q of
        None \<Rightarrow> None
      | Some (None, q) \<Rightarrow> Some (False, q)
      | Some (Some item, q) \<Rightarrow>
          Some (True, q\<lparr>tq_active := tq_active q @
            [item\<lparr>ti_status := Active, ti_updated_at_ms := now\<rparr>]\<rparr>))"

text \<open>The first element that satisfies \<open>P\<close>, and the list without it (\<open>position\<close> and \<open>remove\<close>).\<close>

fun take_first :: "('a \<Rightarrow> bool) \<Rightarrow> 'a list \<Rightarrow> ('a \<times> 'a list) option" where
  "take_first P [] = None"
| "take_first P (x # xs) =
     (if P x then Some (x, xs) else map_option (\<lambda>(y, ys). (y, x # ys)) (take_first P xs))"

definition take_active_or_waiting ::
  "string \<Rightarrow> transfer_queue \<Rightarrow> (transfer_item option \<times> transfer_queue) option" where
  "take_active_or_waiting tid q =
     (case take_first (\<lambda>i. ti_id i = tid) (tq_active q) of
        Some (item, active) \<Rightarrow> Some (Some item, q\<lparr>tq_active := active\<rparr>)
      | None \<Rightarrow> waiting_remove_by_id tid q)"

definition push_done :: "transfer_item \<Rightarrow> transfer_queue \<Rightarrow> transfer_queue" where
  "push_done item q = q\<lparr>tq_done := take max_done (item # tq_done q)\<rparr>"

text \<open>\<open>size.unwrap_or(0).max(0) as u64\<close>\<close>

definition item_bytes :: "transfer_item \<Rightarrow> nat" where
  "item_bytes i = nat (max (case ti_size i of None \<Rightarrow> 0 | Some n \<Rightarrow> n) 0)"

definition complete :: "string \<Rightarrow> int \<Rightarrow> transfer_queue \<Rightarrow> transfer_queue option" where
  "complete tid now q =
     (let q = q\<lparr>tq_meters := (tq_meters q)(tid := None)\<rparr> in
      case take_active_or_waiting tid q of
        None \<Rightarrow> None
      | Some (None, q) \<Rightarrow> Some q
      | Some (Some item, q) \<Rightarrow>
          let q = (if ti_direction item = Upload
                   then q\<lparr>tq_uploads_completed := tq_uploads_completed q + 1,
                          tq_upload_bytes_completed := tq_upload_bytes_completed q + item_bytes item\<rparr>
                   else q)
          in Some (push_done (item\<lparr>ti_status := Done, ti_updated_at_ms := now\<rparr>) q))"

definition abandon :: "string \<Rightarrow> transfer_queue \<Rightarrow> transfer_queue option" where
  "abandon tid q =
     (let q = q\<lparr>tq_meters := (tq_meters q)(tid := None)\<rparr>;
          q = q\<lparr>tq_active := filter (\<lambda>i. ti_id i \<noteq> tid) (tq_active q)\<rparr>
      in map_option snd (waiting_remove_by_id tid q))"

definition rebuild_index :: "('a \<Rightarrow> 'k) \<Rightarrow> 'a list \<Rightarrow> ('k \<Rightarrow> nat option)" where
  "rebuild_index f items = fold (\<lambda>(pos, i) m. m(f i \<mapsto> pos)) (enumerate 0 items) Map.empty"

definition clear_binding :: "string \<Rightarrow> transfer_queue \<Rightarrow> transfer_queue" where
  "clear_binding b q =
     (let active = filter (\<lambda>i. ti_binding_id i \<noteq> b) (tq_active q);
          waiting = filter (\<lambda>i. ti_binding_id i \<noteq> b) (tq_waiting q);
          meters = (\<lambda>tid. if tid \<in> ti_id ` set active then tq_meters q tid else None)
      in q\<lparr>tq_active := active, tq_waiting := waiting, tq_meters := meters,
           tq_by_id := rebuild_index ti_id waiting, tq_by_key := rebuild_index key_of waiting\<rparr>)"

definition count_direction :: "transfer_direction \<Rightarrow> transfer_queue \<Rightarrow> nat" where
  "count_direction d q =
     length (filter (\<lambda>i. ti_direction i = d) (tq_active q @ tq_waiting q))"

definition snapshot :: "transfer_queue \<Rightarrow> transfer_queue_snapshot" where
  "snapshot q =
     (let items = take snapshot_items_cap (tq_active q);
          remaining = sat_sub snapshot_items_cap (length items);
          items = items @ take remaining (tq_waiting q);
          items = items @ tq_done q
      in \<lparr>qs_uploading = count_direction Upload q, qs_downloading = count_direction Download q,
          qs_items = items\<rparr>)"

text \<open>The counter of an active transfer, created at zero; \<open>meter_add\<close> is the uploader's \<open>fetch_add\<close>.\<close>

definition meter :: "string \<Rightarrow> transfer_queue \<Rightarrow> nat \<times> transfer_queue" where
  "meter tid q =
     (case tq_meters q tid of
        Some n \<Rightarrow> (n, q)
      | None \<Rightarrow> (0, q\<lparr>tq_meters := (tq_meters q)(tid \<mapsto> 0)\<rparr>))"

definition upload_progress :: "transfer_queue \<Rightarrow> upload_progress_snapshot" where
  "upload_progress q =
     (let uploads = filter (\<lambda>i. ti_direction i = Upload) (tq_active q @ tq_waiting q);
          current = List.map_filter
            (\<lambda>i. case tq_meters q (ti_id i) of
                    None \<Rightarrow> None
                  | Some sent \<Rightarrow> Some \<lparr>uif_name = ti_name i, uif_sent = sent, uif_size = item_bytes i\<rparr>)
            (filter (\<lambda>i. ti_direction i = Upload) (tq_active q))
      in \<lparr>ups_completed = tq_uploads_completed q,
          ups_completed_bytes = tq_upload_bytes_completed q,
          ups_remaining = length uploads,
          ups_remaining_bytes = sum_list (map item_bytes uploads),
          ups_current = current\<rparr>)"

section \<open>Position indexes\<close>

definition index_exact :: "('a \<Rightarrow> 'k) \<Rightarrow> ('k \<Rightarrow> nat option) \<Rightarrow> 'a list \<Rightarrow> bool" where
  "index_exact f m xs \<longleftrightarrow> (\<forall>k pos. m k = Some pos \<longleftrightarrow> pos < length xs \<and> f (xs ! pos) = k)"

lemma index_exact_Nil [simp]: "index_exact f Map.empty []"
  by (simp add: index_exact_def)

lemma index_exactD:
  "index_exact f m xs \<Longrightarrow> m k = Some pos \<Longrightarrow> pos < length xs \<and> f (xs ! pos) = k"
  by (simp add: index_exact_def)

lemma index_exact_nth: "index_exact f m xs \<Longrightarrow> i < length xs \<Longrightarrow> m (f (xs ! i)) = Some i"
  by (simp add: index_exact_def)

lemma index_exact_distinct:
  assumes "index_exact f m xs"
  shows "distinct (map f xs)"
  unfolding distinct_conv_nth
proof (intro allI impI)
  fix i j assume "i < length (map f xs)" "j < length (map f xs)" "i \<noteq> j"
  then show "map f xs ! i \<noteq> map f xs ! j"
    using index_exact_nth [OF assms, of i] index_exact_nth [OF assms, of j] by auto
qed

lemma index_exact_None:
  assumes "index_exact f m xs"
  shows "m k = None \<longleftrightarrow> k \<notin> f ` set xs"
proof
  assume "m k = None"
  then show "k \<notin> f ` set xs"
    using assms by (auto simp: in_set_conv_nth index_exact_nth)
next
  assume "k \<notin> f ` set xs"
  then show "m k = None"
    using index_exactD [OF assms] by (metis image_eqI not_None_eq nth_mem)
qed

lemma index_exact_push:
  assumes "index_exact f m xs" and "f x \<notin> f ` set xs"
  shows "index_exact f (m(f x \<mapsto> length xs)) (xs @ [x])"
proof -
  have old: "f (xs ! pos) \<noteq> f x" if "pos < length xs" for pos
    using assms(2) nth_mem [OF that] by (metis image_eqI)
  show ?thesis
    using assms(1) old unfolding index_exact_def by (auto simp: nth_append less_Suc_eq)
qed

lemma index_exact_swap_remove:
  assumes ok: "index_exact f m xs" and sr: "swap_remove pos xs = Some (x, ys)"
  shows "index_exact f
    (if pos < length ys then (m(f x := None))(f (ys ! pos) \<mapsto> pos) else m(f x := None)) ys"
proof -
  have pos: "pos < length xs" and x: "x = xs ! pos"
    using sr by (auto simp: swap_remove_def split: if_splits)
  have len: "length xs = Suc (length ys)" using sr by (rule swap_remove_length)
  have ne: "xs \<noteq> []" using pos by auto
  have nth: "ys ! i = (if i = pos then xs ! length ys else xs ! i)" if "i < length ys" for i
    using swap_remove_nth [OF sr that] len last_conv_nth [OF ne] by auto
  have inj: "f (xs ! i) = f (xs ! j) \<longleftrightarrow> i = j" if "i < length xs" "j < length xs" for i j
    using index_exact_nth [OF ok that(1)] index_exact_nth [OF ok that(2)]
    by (metis option.inject)
  have mm: "m k = Some i \<longleftrightarrow> i < length xs \<and> f (xs ! i) = k" for k i
    using ok by (simp add: index_exact_def)
  show ?thesis
  proof (cases "pos < length ys")
    case True
    then show ?thesis
      unfolding index_exact_def using len pos x nth inj mm
      by (auto simp: less_Suc_eq split: if_splits)
  next
    case False
    then have "pos = length ys" using pos len by simp
    then show ?thesis
      unfolding index_exact_def using len pos x nth inj mm
      by (auto simp: less_Suc_eq split: if_splits)
  qed
qed

lemma swap_remove_mset:
  assumes "swap_remove pos xs = Some (x, ys)"
  shows "mset xs = add_mset x (mset ys)"
proof -
  have pos: "pos < length xs" and x: "x = xs ! pos" and ys: "ys = butlast (xs[pos := last xs])"
    using assms by (auto simp: swap_remove_def split: if_splits)
  have ne: "xs[pos := last xs] \<noteq> []" using pos by auto
  have lst: "last (xs[pos := last xs]) = last xs"
    using pos last_list_update [of xs pos "last xs"] by (cases "xs = []") auto
  have "mset (xs[pos := last xs]) = add_mset (last xs) (mset xs - {#xs ! pos#})"
    using pos by (simp add: mset_update)
  moreover have "mset (xs[pos := last xs]) = add_mset (last xs) (mset ys)"
    using append_butlast_last_id [OF ne] unfolding ys lst
    by (metis mset_append union_mset_add_mset_right mset.simps add.right_neutral)
  ultimately have "mset ys = mset xs - {#x#}" by (simp add: x)
  then show ?thesis using pos x by (simp add: nth_mem_mset)
qed

lemma index_exact_rebuild:
  assumes "distinct (map f xs)"
  shows "index_exact f (rebuild_index f xs) xs"
  using assms
proof (induction xs rule: rev_induct)
  case Nil
  then show ?case by (simp add: rebuild_index_def)
next
  case (snoc x xs)
  then have IH: "index_exact f (rebuild_index f xs) xs" by simp
  have "rebuild_index f (xs @ [x]) = (rebuild_index f xs)(f x \<mapsto> length xs)"
    by (simp add: rebuild_index_def enumerate_append_eq)
  moreover have "f x \<notin> f ` set xs" using snoc.prems by simp
  ultimately show ?case using index_exact_push [OF IH] by metis
qed

section \<open>The invariant\<close>

definition live_items :: "transfer_queue \<Rightarrow> transfer_item list" where
  "live_items q = tq_active q @ tq_waiting q"

definition tq_inv :: "transfer_queue \<Rightarrow> bool" where
  "tq_inv q \<longleftrightarrow>
     index_exact ti_id (tq_by_id q) (tq_waiting q) \<and>
     index_exact key_of (tq_by_key q) (tq_waiting q) \<and>
     distinct (map ti_id (live_items q)) \<and> distinct (map key_of (live_items q)) \<and>
     (\<forall>i \<in> set (tq_active q). ti_status i = Active) \<and>
     (\<forall>i \<in> set (tq_waiting q). ti_status i = Waiting) \<and>
     (\<forall>i \<in> set (tq_done q). ti_status i = Done) \<and> length (tq_done q) \<le> max_done"

lemma tq_inv_empty [inv_intros]: "tq_inv empty_queue"
  by (simp add: tq_inv_def empty_queue_def live_items_def)

text \<open>Everything but the waiting vector and its indexes.\<close>

definition same_but_waiting :: "transfer_queue \<Rightarrow> transfer_queue \<Rightarrow> bool" where
  "same_but_waiting q q' \<longleftrightarrow>
     tq_active q' = tq_active q \<and> tq_done q' = tq_done q \<and> tq_meters q' = tq_meters q \<and>
     tq_uploads_completed q' = tq_uploads_completed q \<and>
     tq_upload_bytes_completed q' = tq_upload_bytes_completed q"

lemma waiting_remove_at_ok:
  assumes inv: "tq_inv q" and pos: "pos < length (tq_waiting q)"
  shows "\<exists>q'. waiting_remove_at pos q = Some (tq_waiting q ! pos, q') \<and> tq_inv q' \<and>
           same_but_waiting q q' \<and>
           mset (tq_waiting q) = add_mset (tq_waiting q ! pos) (mset (tq_waiting q'))"
proof -
  let ?i = "tq_waiting q ! pos"
  obtain w where sr: "swap_remove pos (tq_waiting q) = Some (?i, w)"
    using pos by (simp add: swap_remove_def)
  define q' where "q' = q\<lparr>tq_waiting := w,
      tq_by_id := (if pos < length w then ((tq_by_id q)(ti_id ?i := None))(ti_id (w ! pos) \<mapsto> pos)
                   else (tq_by_id q)(ti_id ?i := None)),
      tq_by_key := (if pos < length w then ((tq_by_key q)(key_of ?i := None))(key_of (w ! pos) \<mapsto> pos)
                    else (tq_by_key q)(key_of ?i := None))\<rparr>"
  have eq: "waiting_remove_at pos q = Some (?i, q')"
    by (simp add: waiting_remove_at_def sr q'_def Let_def)
  have ms: "mset (tq_waiting q) = add_mset ?i (mset w)" by (rule swap_remove_mset [OF sr])
  have st: "set (tq_waiting q) = insert ?i (set w)"
    using ms by (metis set_mset_add_mset_insert set_mset_mset)
  have d: "distinct (map f (tq_active q @ ?i # w))"
    if "distinct (map f (live_items q))" for f :: "transfer_item \<Rightarrow> 'z"
  proof -
    have "mset (map f (live_items q)) = mset (map f (tq_active q @ ?i # w))"
      by (simp add: live_items_def ms)
    then show ?thesis using that mset_eq_imp_distinct_iff by blast
  qed
  have "tq_inv q'"
    using inv d [of ti_id] d [of key_of] st
      index_exact_swap_remove [OF _ sr, of ti_id "tq_by_id q"]
      index_exact_swap_remove [OF _ sr, of key_of "tq_by_key q"]
    by (auto simp: tq_inv_def q'_def live_items_def)
  then show ?thesis using eq ms by (auto simp: q'_def same_but_waiting_def)
qed

lemma waiting_remove_by_key_ok:
  assumes inv: "tq_inv q"
  shows "\<exists>r q'. waiting_remove_by_key k q = Some (r, q') \<and> tq_inv q' \<and> same_but_waiting q q' \<and>
           set (tq_waiting q') = {i \<in> set (tq_waiting q). key_of i \<noteq> k}"
proof (cases "tq_by_key q k")
  case None
  then have "k \<notin> key_of ` set (tq_waiting q)"
    using inv index_exact_None by (metis tq_inv_def)
  then have "set (tq_waiting q) = {i \<in> set (tq_waiting q). key_of i \<noteq> k}" by auto
  then show ?thesis
    using inv None by (auto simp: waiting_remove_by_key_def same_but_waiting_def)
next
  case (Some pos)
  then have pos: "pos < length (tq_waiting q)" and k: "key_of (tq_waiting q ! pos) = k"
    using inv index_exactD by (metis tq_inv_def)+
  obtain q' where q': "waiting_remove_at pos q = Some (tq_waiting q ! pos, q')" "tq_inv q'"
      "same_but_waiting q q'"
      "mset (tq_waiting q) = add_mset (tq_waiting q ! pos) (mset (tq_waiting q'))"
    using waiting_remove_at_ok [OF inv pos] by blast
  have "distinct (map key_of (tq_waiting q))"
    using inv index_exact_distinct by (metis tq_inv_def)
  then have "distinct (map key_of (tq_waiting q ! pos # tq_waiting q'))"
    using q'(4) by (metis mset.simps(2) mset_eq_imp_distinct_iff mset_map)
  moreover have "set (tq_waiting q) = insert (tq_waiting q ! pos) (set (tq_waiting q'))"
    using q'(4) by (metis set_mset_add_mset_insert set_mset_mset)
  ultimately have "set (tq_waiting q') = {i \<in> set (tq_waiting q). key_of i \<noteq> k}"
    using k by (auto simp: image_iff)
  then show ?thesis
    using Some q' by (auto simp: waiting_remove_by_key_def)
qed

lemma waiting_remove_by_id_ok:
  assumes inv: "tq_inv q"
  shows "\<exists>r q'. waiting_remove_by_id t q = Some (r, q') \<and> tq_inv q' \<and> same_but_waiting q q' \<and>
           set (tq_waiting q') = {i \<in> set (tq_waiting q). ti_id i \<noteq> t} \<and>
           (case r of None \<Rightarrow> q' = q \<and> t \<notin> ti_id ` set (tq_waiting q)
            | Some i \<Rightarrow> i \<in> set (tq_waiting q) \<and> ti_id i = t \<and>
                mset (tq_waiting q) = add_mset i (mset (tq_waiting q')))"
proof (cases "tq_by_id q t")
  case None
  then have "t \<notin> ti_id ` set (tq_waiting q)"
    using inv index_exact_None by (metis tq_inv_def)
  moreover from this have "set (tq_waiting q) = {i \<in> set (tq_waiting q). ti_id i \<noteq> t}" by auto
  ultimately show ?thesis
    using inv None by (auto simp: waiting_remove_by_id_def same_but_waiting_def)
next
  case (Some pos)
  then have pos: "pos < length (tq_waiting q)" and t: "ti_id (tq_waiting q ! pos) = t"
    using inv index_exactD by (metis tq_inv_def)+
  obtain q' where q': "waiting_remove_at pos q = Some (tq_waiting q ! pos, q')" "tq_inv q'"
      "same_but_waiting q q'"
      "mset (tq_waiting q) = add_mset (tq_waiting q ! pos) (mset (tq_waiting q'))"
    using waiting_remove_at_ok [OF inv pos] by blast
  have "distinct (map ti_id (tq_waiting q))"
    using inv index_exact_distinct by (metis tq_inv_def)
  then have "distinct (map ti_id (tq_waiting q ! pos # tq_waiting q'))"
    using q'(4) by (metis mset.simps(2) mset_eq_imp_distinct_iff mset_map)
  moreover have "set (tq_waiting q) = insert (tq_waiting q ! pos) (set (tq_waiting q'))"
    using q'(4) by (metis set_mset_add_mset_insert set_mset_mset)
  ultimately have "set (tq_waiting q') = {i \<in> set (tq_waiting q). ti_id i \<noteq> t}"
    using t by (auto simp: image_iff)
  then show ?thesis
    using Some q' pos t by (auto simp: waiting_remove_by_id_def)
qed


section \<open>What each operation does to the live transfers\<close>

lemma distinct_map_filter_append:
  "distinct (map f (filter P xs @ ys)) \<longleftrightarrow>
     distinct (map f (filter P xs)) \<and> distinct (map f ys) \<and>
     f ` {x \<in> set xs. P x} \<inter> f ` set ys = {}"
  by auto

lemma tq_inv_update_active:
  assumes "tq_inv q" and "distinct (map ti_id (active @ tq_waiting q))"
    and "distinct (map key_of (active @ tq_waiting q))"
    and "\<forall>i \<in> set active. ti_status i = Active"
  shows "tq_inv (q\<lparr>tq_active := active\<rparr>)"
  using assms by (simp add: tq_inv_def live_items_def)

lemma tq_inv_filter_active:
  "tq_inv q \<Longrightarrow> tq_inv (q\<lparr>tq_active := filter P (tq_active q)\<rparr>)"
  by (rule tq_inv_update_active)
    (auto simp: tq_inv_def live_items_def distinct_map_filter)

lemma tq_inv_meters [simp]: "tq_inv (q\<lparr>tq_meters := m\<rparr>) = tq_inv q"
  by (simp add: tq_inv_def live_items_def)

lemma tq_inv_counts [simp]:
  "tq_inv (q\<lparr>tq_uploads_completed := n\<rparr>) = tq_inv q"
  "tq_inv (q\<lparr>tq_upload_bytes_completed := n\<rparr>) = tq_inv q"
  by (simp_all add: tq_inv_def live_items_def)

lemma live_meters [simp]: "live_items (q\<lparr>tq_meters := m\<rparr>) = live_items q"
  by (simp add: live_items_def)

lemma live_counts [simp]:
  "live_items (q\<lparr>tq_uploads_completed := n\<rparr>) = live_items q"
  "live_items (q\<lparr>tq_upload_bytes_completed := n\<rparr>) = live_items q"
  by (simp_all add: live_items_def)

lemma retain_other_key:
  "retain_other b d p n items = filter (\<lambda>i. key_of i \<noteq> (b, d, p, n)) items"
  by (simp add: retain_other_def key_of_def)

text \<open>The common first half of \<open>begin\<close> and \<open>enqueue_waiting\<close>: no live item has this key any more.\<close>

lemma evict_key_ok:
  assumes "tq_inv q"
  shows "\<exists>r q'. waiting_remove_by_key (b, d, p, n)
             (q\<lparr>tq_active := retain_other b d p n (tq_active q)\<rparr>) = Some (r, q') \<and> tq_inv q' \<and>
           set (live_items q') = {i \<in> set (live_items q). key_of i \<noteq> (b, d, p, n)} \<and>
           tq_done q' = tq_done q \<and> tq_meters q' = tq_meters q"
proof -
  let ?q = "q\<lparr>tq_active := retain_other b d p n (tq_active q)\<rparr>"
  have "tq_inv ?q" unfolding retain_other_key by (rule tq_inv_filter_active [OF assms])
  from waiting_remove_by_key_ok [OF this, of "(b, d, p, n)"] obtain r q' where
    "waiting_remove_by_key (b, d, p, n) ?q = Some (r, q')" "tq_inv q'" "same_but_waiting ?q q'"
    "set (tq_waiting q') = {i \<in> set (tq_waiting ?q). key_of i \<noteq> (b, d, p, n)}"
    by blast
  then show ?thesis
    by (auto simp: live_items_def same_but_waiting_def retain_other_key)
qed

lemma begin_transfer_ok:
  assumes inv: "tq_inv q" and fresh: "t \<notin> ti_id ` set (live_items q)"
    and sp: "split_path rel = (p, n)"
  shows "\<exists>q'. begin_transfer b d rel sz t now q = Some (t, q') \<and> tq_inv q' \<and>
           set (live_items q') =
             insert \<lparr>ti_id = t, ti_binding_id = b, ti_direction = d, ti_path = p, ti_name = n,
               ti_size = sz, ti_status = Active, ti_updated_at_ms = now\<rparr>
               {i \<in> set (live_items q). key_of i \<noteq> (b, d, p, n)} \<and>
           tq_done q' = tq_done q \<and> tq_meters q' = tq_meters q"
proof -
  let ?i = "\<lparr>ti_id = t, ti_binding_id = b, ti_direction = d, ti_path = p, ti_name = n,
               ti_size = sz, ti_status = Active, ti_updated_at_ms = now\<rparr>"
  obtain r q1 where q1: "waiting_remove_by_key (b, d, p, n)
             (q\<lparr>tq_active := retain_other b d p n (tq_active q)\<rparr>) = Some (r, q1)" "tq_inv q1"
      "set (live_items q1) = {i \<in> set (live_items q). key_of i \<noteq> (b, d, p, n)}"
      "tq_done q1 = tq_done q" "tq_meters q1 = tq_meters q"
    using evict_key_ok [OF inv] by blast
  have k: "key_of ?i = (b, d, p, n)" by (simp add: key_of_def)
  have "ti_id ?i \<notin> ti_id ` set (live_items q1)" using fresh q1(3) by auto
  moreover have "key_of ?i \<notin> key_of ` set (live_items q1)" unfolding k q1(3) by auto
  ultimately have "tq_inv (q1\<lparr>tq_active := tq_active q1 @ [?i]\<rparr>)"
    using q1(2) by (intro tq_inv_update_active) (auto simp: tq_inv_def live_items_def)
  then show ?thesis
    using q1 by (auto simp: begin_transfer_def sp live_items_def)
qed

lemma tq_inv_push:
  assumes "tq_inv q" and "ti_id i \<notin> ti_id ` set (live_items q)"
    and "key_of i \<notin> key_of ` set (live_items q)" and "ti_status i = Waiting"
  shows "tq_inv (waiting_push i q)"
  using assms
  by (auto simp: tq_inv_def waiting_push_def live_items_def Let_def image_Un
      intro!: index_exact_push)

lemma enqueue_waiting_ok:
  assumes inv: "tq_inv q" and fresh: "t \<notin> ti_id ` set (live_items q)"
    and sp: "split_path rel = (p, n)"
  shows "\<exists>q'. enqueue_waiting b d rel sz t now q = Some (t, q') \<and> tq_inv q' \<and>
           set (live_items q') =
             insert \<lparr>ti_id = t, ti_binding_id = b, ti_direction = d, ti_path = p, ti_name = n,
               ti_size = sz, ti_status = Waiting, ti_updated_at_ms = now\<rparr>
               {i \<in> set (live_items q). key_of i \<noteq> (b, d, p, n)} \<and>
           tq_done q' = tq_done q \<and> tq_meters q' = tq_meters q"
proof -
  let ?i = "\<lparr>ti_id = t, ti_binding_id = b, ti_direction = d, ti_path = p, ti_name = n,
               ti_size = sz, ti_status = Waiting, ti_updated_at_ms = now\<rparr>"
  obtain r q1 where q1: "waiting_remove_by_key (b, d, p, n)
             (q\<lparr>tq_active := retain_other b d p n (tq_active q)\<rparr>) = Some (r, q1)" "tq_inv q1"
      "set (live_items q1) = {i \<in> set (live_items q). key_of i \<noteq> (b, d, p, n)}"
      "tq_done q1 = tq_done q" "tq_meters q1 = tq_meters q"
    using evict_key_ok [OF inv] by blast
  have k: "key_of ?i = (b, d, p, n)" by (simp add: key_of_def)
  have "ti_id ?i \<notin> ti_id ` set (live_items q1)" using fresh q1(3) by auto
  moreover have "key_of ?i \<notin> key_of ` set (live_items q1)" unfolding k q1(3) by auto
  ultimately have "tq_inv (waiting_push ?i q1)" by (intro tq_inv_push [OF q1(2)]) simp_all
  then show ?thesis
    using q1 by (auto simp: enqueue_waiting_def sp live_items_def waiting_push_def Let_def)
qed

lemma image_replace:
  assumes "x \<in> S" and "f y = f x"
  shows "f ` insert y (S - {x}) = f ` S"
proof
  show "f ` insert y (S - {x}) \<subseteq> f ` S" using assms by auto
  show "f ` S \<subseteq> f ` insert y (S - {x})"
  proof
    fix w assume "w \<in> f ` S"
    then obtain z where "z \<in> S" "w = f z" by blast
    then show "w \<in> f ` insert y (S - {x})" using assms by (cases "z = x") auto
  qed
qed

lemma promote_ok:
  assumes inv: "tq_inv q"
  shows "\<exists>q' ok. promote t now q = Some (ok, q') \<and> tq_inv q' \<and>
           (ok \<longleftrightarrow> t \<in> ti_id ` set (tq_waiting q)) \<and>
           (\<lambda>i. (ti_id i, key_of i)) ` set (live_items q') =
             (\<lambda>i. (ti_id i, key_of i)) ` set (live_items q) \<and>
           (ok \<longrightarrow> t \<in> ti_id ` set (tq_active q')) \<and>
           tq_done q' = tq_done q \<and> tq_meters q' = tq_meters q"
proof -
  obtain r q1 where q1: "waiting_remove_by_id t q = Some (r, q1)" "tq_inv q1"
      "same_but_waiting q q1" "set (tq_waiting q1) = {i \<in> set (tq_waiting q). ti_id i \<noteq> t}"
      "case r of None \<Rightarrow> q1 = q \<and> t \<notin> ti_id ` set (tq_waiting q)
            | Some i \<Rightarrow> i \<in> set (tq_waiting q) \<and> ti_id i = t \<and>
                mset (tq_waiting q) = add_mset i (mset (tq_waiting q1))"
    using waiting_remove_by_id_ok [OF inv, of t] by blast
  show ?thesis
  proof (cases r)
    case None
    then show ?thesis using q1 by (auto simp: promote_def same_but_waiting_def)
  next
    case (Some i)
    let ?i = "i\<lparr>ti_status := Active, ti_updated_at_ms := now\<rparr>"
    have i: "i \<in> set (tq_waiting q)" "ti_id i = t" using q1(5) Some by auto
    have keys: "ti_id ?i = ti_id i" "key_of ?i = key_of i" by (simp_all add: key_of_def)
    have dst: "distinct (map ti_id (live_items q))" "distinct (map key_of (live_items q))"
      using inv by (simp_all add: tq_inv_def)
    have only: "j = i" if "j \<in> set (live_items q)" "ti_id j = t \<or> key_of j = key_of i" for j
      using that i dst unfolding live_items_def distinct_map inj_on_def
      by (metis Un_iff set_append)
    have live1: "set (live_items q1) = set (live_items q) - {i}"
    proof -
      have "i \<notin> set (tq_active q)" using i dst(1) by (auto simp: live_items_def)
      then show ?thesis
        using q1(3,4) i only by (auto simp: live_items_def same_but_waiting_def)
    qed
    have fresh: "ti_id ?i \<notin> ti_id ` set (live_items q1)" "key_of ?i \<notin> key_of ` set (live_items q1)"
      using only i unfolding live1 keys by auto
    then have "tq_inv (q1\<lparr>tq_active := tq_active q1 @ [?i]\<rparr>)"
      using q1(2) by (intro tq_inv_update_active) (auto simp: tq_inv_def live_items_def)
    moreover have "set (live_items (q1\<lparr>tq_active := tq_active q1 @ [?i]\<rparr>)) =
        insert ?i (set (live_items q) - {i})"
      using live1 by (auto simp: live_items_def)
    moreover have "(\<lambda>i. (ti_id i, key_of i)) ` insert ?i (set (live_items q) - {i}) =
        (\<lambda>i. (ti_id i, key_of i)) ` set (live_items q)"
      by (rule image_replace) (use i keys in \<open>simp_all add: live_items_def\<close>)
    moreover have "promote t now q = Some (True, q1\<lparr>tq_active := tq_active q1 @ [?i]\<rparr>)"
      using q1(1) Some by (simp add: promote_def)
    moreover have "t \<in> ti_id ` set (tq_waiting q)" using i by blast
    ultimately show ?thesis
      using q1(3) i(2)
      by (intro exI [of _ "q1\<lparr>tq_active := tq_active q1 @ [?i]\<rparr>"] exI [of _ True])
        (simp add: same_but_waiting_def)
  qed
qed


lemma take_first_None: "take_first P xs = None \<longleftrightarrow> (\<forall>x \<in> set xs. \<not> P x)"
  by (induction xs) auto

lemma take_first_Some:
  "take_first P xs = Some (x, ys) \<Longrightarrow> P x \<and> mset xs = add_mset x (mset ys)"
  by (induction xs arbitrary: ys) (auto split: if_splits)

lemma distinct_mset_remove:
  assumes "distinct (map f xs)" and "mset xs = add_mset x (mset ys)"
  shows "distinct (map f ys)" and "set ys = {i \<in> set xs. f i \<noteq> f x}"
    and "\<And>i. i \<in> set xs \<Longrightarrow> f i = f x \<Longrightarrow> i = x"
proof -
  have "distinct (map f (x # ys))"
    using assms by (metis mset.simps(2) mset_eq_imp_distinct_iff mset_map)
  moreover have st: "set xs = insert x (set ys)"
    using assms(2) by (metis set_mset_add_mset_insert set_mset_mset)
  ultimately show "distinct (map f ys)" and "set ys = {i \<in> set xs. f i \<noteq> f x}"
    and "\<And>i. i \<in> set xs \<Longrightarrow> f i = f x \<Longrightarrow> i = x"
    by (auto simp: image_iff)
qed

text \<open>Taking a live item out by its id, from whichever list holds it.\<close>

lemma take_active_or_waiting_ok:
  assumes inv: "tq_inv q"
  shows "\<exists>r q'. take_active_or_waiting t q = Some (r, q') \<and> tq_inv q' \<and>
           tq_done q' = tq_done q \<and> tq_meters q' = tq_meters q \<and>
           tq_uploads_completed q' = tq_uploads_completed q \<and>
           tq_upload_bytes_completed q' = tq_upload_bytes_completed q \<and>
           (case r of None \<Rightarrow> q' = q \<and> t \<notin> ti_id ` set (live_items q)
            | Some i \<Rightarrow> ti_id i = t \<and> mset (live_items q) = add_mset i (mset (live_items q')))"
proof (cases "take_first (\<lambda>i. ti_id i = t) (tq_active q)")
  case None
  then have na: "t \<notin> ti_id ` set (tq_active q)" by (auto simp: take_first_None)
  obtain r q1 where q1: "waiting_remove_by_id t q = Some (r, q1)" "tq_inv q1"
      "same_but_waiting q q1"
      "case r of None \<Rightarrow> q1 = q \<and> t \<notin> ti_id ` set (tq_waiting q)
            | Some i \<Rightarrow> i \<in> set (tq_waiting q) \<and> ti_id i = t \<and>
                mset (tq_waiting q) = add_mset i (mset (tq_waiting q1))"
    using waiting_remove_by_id_ok [OF inv, of t] by blast
  show ?thesis
    using None q1 na
    by (auto simp: take_active_or_waiting_def same_but_waiting_def live_items_def
        split: option.splits)
next
  case (Some p)
  obtain i active where p: "p = (i, active)" by (cases p)
  have i: "ti_id i = t" and ms: "mset (tq_active q) = add_mset i (mset active)"
    using take_first_Some [OF Some [unfolded p]] by simp_all
  have ms': "mset (live_items q) = add_mset i (mset (active @ tq_waiting q))"
    by (simp add: live_items_def ms)
  have "set active \<subseteq> set (tq_active q)"
    using ms by (metis set_mset_add_mset_insert set_mset_mset subset_insertI)
  then have "tq_inv (q\<lparr>tq_active := active\<rparr>)"
    using inv distinct_mset_remove(1) [OF _ ms', of ti_id] distinct_mset_remove(1) [OF _ ms', of key_of]
    by (intro tq_inv_update_active [OF inv]) (simp_all add: tq_inv_def subset_iff)
  then show ?thesis
    using Some p i ms' by (auto simp: take_active_or_waiting_def live_items_def)
qed

lemma tq_inv_push_done:
  "tq_inv q \<Longrightarrow> ti_status i = Done \<Longrightarrow> tq_inv (push_done i q)"
  by (auto simp: tq_inv_def push_done_def live_items_def dest!: in_set_takeD)

lemma live_push_done [simp]: "live_items (push_done i q) = live_items q"
  by (simp add: push_done_def live_items_def)

lemma complete_ok:
  assumes inv: "tq_inv q"
  shows "\<exists>q'. complete t now q = Some q' \<and> tq_inv q' \<and>
           tq_meters q' = (tq_meters q)(t := None) \<and>
           (if t \<in> ti_id ` set (live_items q)
            then \<exists>i. ti_id i = t \<and> mset (live_items q) = add_mset i (mset (live_items q')) \<and>
              tq_done q' = take max_done (i\<lparr>ti_status := Done, ti_updated_at_ms := now\<rparr> # tq_done q) \<and>
              tq_uploads_completed q' =
                tq_uploads_completed q + (if ti_direction i = Upload then 1 else 0) \<and>
              tq_upload_bytes_completed q' =
                tq_upload_bytes_completed q + (if ti_direction i = Upload then item_bytes i else 0)
            else live_items q' = live_items q \<and> tq_done q' = tq_done q \<and>
              tq_uploads_completed q' = tq_uploads_completed q \<and>
              tq_upload_bytes_completed q' = tq_upload_bytes_completed q)"
proof -
  let ?q = "q\<lparr>tq_meters := (tq_meters q)(t := None)\<rparr>"
  have "tq_inv ?q" using inv by simp
  from take_active_or_waiting_ok [OF this, of t] obtain r q1 where
    take: "take_active_or_waiting t ?q = Some (r, q1) \<and> tq_inv q1 \<and>
      tq_done q1 = tq_done ?q \<and> tq_meters q1 = tq_meters ?q \<and>
      tq_uploads_completed q1 = tq_uploads_completed ?q \<and>
      tq_upload_bytes_completed q1 = tq_upload_bytes_completed ?q \<and>
      (case r of None \<Rightarrow> q1 = ?q \<and> t \<notin> ti_id ` set (live_items ?q)
       | Some i \<Rightarrow> ti_id i = t \<and> mset (live_items ?q) = add_mset i (mset (live_items q1)))"
    by blast
  then have q1: "take_active_or_waiting t ?q = Some (r, q1)" "tq_inv q1" "tq_done q1 = tq_done q"
      "tq_meters q1 = (tq_meters q)(t := None)"
      "tq_uploads_completed q1 = tq_uploads_completed q"
      "tq_upload_bytes_completed q1 = tq_upload_bytes_completed q"
    and r: "case r of None \<Rightarrow> q1 = ?q \<and> t \<notin> ti_id ` set (live_items q)
            | Some i \<Rightarrow> ti_id i = t \<and> mset (live_items q) = add_mset i (mset (live_items q1))"
    by (simp_all split: option.splits)
  show ?thesis
  proof (cases r)
    case None
    then show ?thesis using q1 r by (auto simp: complete_def)
  next
    case (Some i)
    then have ms: "mset (live_items q) = add_mset i (mset (live_items q1))" and t: "ti_id i = t"
      using r by auto
    have mem: "t \<in> ti_id ` set (live_items q)"
      using ms t by (metis imageI insertI1 set_mset_add_mset_insert set_mset_mset)
    define q2 where "q2 = (if ti_direction i = Upload
        then q1\<lparr>tq_uploads_completed := tq_uploads_completed q1 + 1,
                tq_upload_bytes_completed := tq_upload_bytes_completed q1 + item_bytes i\<rparr>
        else q1)"
    have "complete t now q = Some (push_done (i\<lparr>ti_status := Done, ti_updated_at_ms := now\<rparr>) q2)"
      using q1(1) Some by (simp add: complete_def q2_def)
    moreover have "tq_inv q2" using q1(2) by (simp add: q2_def)
    moreover have "live_items q2 = live_items q1" by (simp add: q2_def)
    ultimately show ?thesis
      using mem ms t q1(3-6) tq_inv_push_done [of q2 "i\<lparr>ti_status := Done, ti_updated_at_ms := now\<rparr>"]
      by (auto simp: push_done_def q2_def live_items_def)
  qed
qed

lemma abandon_ok:
  assumes inv: "tq_inv q"
  shows "\<exists>q'. abandon t q = Some q' \<and> tq_inv q' \<and>
           set (live_items q') = {i \<in> set (live_items q). ti_id i \<noteq> t} \<and>
           tq_meters q' = (tq_meters q)(t := None) \<and> tq_done q' = tq_done q"
proof -
  let ?q = "q\<lparr>tq_meters := (tq_meters q)(t := None),
              tq_active := filter (\<lambda>i. ti_id i \<noteq> t) (tq_active q)\<rparr>"
  have "tq_inv ?q"
    using tq_inv_filter_active [of "q\<lparr>tq_meters := (tq_meters q)(t := None)\<rparr>"] inv by simp
  from waiting_remove_by_id_ok [OF this, of t] show ?thesis
    by (auto simp: abandon_def live_items_def same_but_waiting_def)
qed

lemma clear_binding_ok:
  assumes inv: "tq_inv q"
  shows "tq_inv (clear_binding b q) \<and>
           set (live_items (clear_binding b q)) = {i \<in> set (live_items q). ti_binding_id i \<noteq> b} \<and>
           tq_done (clear_binding b q) = tq_done q \<and>
           dom (tq_meters (clear_binding b q)) \<subseteq> ti_id ` set (tq_active (clear_binding b q))"
proof -
  have "distinct (map f (filter P (tq_active q) @ filter P (tq_waiting q)))"
    if "distinct (map f (live_items q))" for f :: "transfer_item \<Rightarrow> 'z" and P
    using that by (auto simp: live_items_def distinct_map_filter)
  then show ?thesis
    using inv
    by (auto simp: tq_inv_def clear_binding_def live_items_def Let_def distinct_map_filter
        dom_def intro!: index_exact_rebuild split: if_splits)
qed


section \<open>The contract the sync engine relies on\<close>

text \<open>
  The engine sees the board as a set of live slots, each an id and the file it stands for.
  Every operation returns (no panic), keeps the invariant, and changes the slots exactly as
  its law says.
\<close>

locale transfer_board =
  fixes inv :: "'q \<Rightarrow> bool"
    and live :: "'q \<Rightarrow> ('i \<times> 'k) set"
    and file_of :: "'a \<Rightarrow> 'k"
    and enqueue :: "'a \<Rightarrow> 'i \<Rightarrow> 'q \<Rightarrow> 'q option"
    and start :: "'a \<Rightarrow> 'i \<Rightarrow> 'q \<Rightarrow> 'q option"
    and promoted :: "'i \<Rightarrow> 'q \<Rightarrow> (bool \<times> 'q) option"
    and finish :: "'i \<Rightarrow> 'q \<Rightarrow> 'q option"
    and drop_slot :: "'i \<Rightarrow> 'q \<Rightarrow> 'q option"
  assumes live_file: "inv q \<Longrightarrow> (i, k) \<in> live q \<Longrightarrow> (j, k) \<in> live q \<Longrightarrow> i = j"
    and enqueue_law: "inv q \<Longrightarrow> i \<notin> fst ` live q \<Longrightarrow>
      \<exists>q'. enqueue a i q = Some q' \<and> inv q' \<and>
        live q' = insert (i, file_of a) {x \<in> live q. snd x \<noteq> file_of a}"
    and start_law: "inv q \<Longrightarrow> i \<notin> fst ` live q \<Longrightarrow>
      \<exists>q'. start a i q = Some q' \<and> inv q' \<and>
        live q' = insert (i, file_of a) {x \<in> live q. snd x \<noteq> file_of a}"
    and promote_law: "inv q \<Longrightarrow> \<exists>q' ok. promoted i q = Some (ok, q') \<and> inv q' \<and> live q' = live q"
    and finish_law: "inv q \<Longrightarrow>
      \<exists>q'. finish i q = Some q' \<and> inv q' \<and> live q' = {x \<in> live q. fst x \<noteq> i}"
    and drop_law: "inv q \<Longrightarrow>
      \<exists>q'. drop_slot i q = Some q' \<and> inv q' \<and> live q' = {x \<in> live q. fst x \<noteq> i}"
begin

lemma enqueue_then_drop:
  assumes "inv q" and "i \<notin> fst ` live q"
  shows "\<exists>q1 q2. enqueue a i q = Some q1 \<and> drop_slot i q1 = Some q2 \<and> inv q2 \<and>
           live q2 = {x \<in> live q. snd x \<noteq> file_of a}"
proof -
  obtain q1 where q1: "enqueue a i q = Some q1" "inv q1"
      "live q1 = insert (i, file_of a) {x \<in> live q. snd x \<noteq> file_of a}"
    using enqueue_law [OF assms] by blast
  obtain q2 where q2: "drop_slot i q1 = Some q2" "inv q2" "live q2 = {x \<in> live q1. fst x \<noteq> i}"
    using drop_law [OF q1(2)] by blast
  have "live q2 = {x \<in> live q. snd x \<noteq> file_of a}"
    using assms(2) by (auto simp: q2(3) q1(3) image_iff)
  then show ?thesis using q1 q2 by blast
qed

lemma enqueue_promote_finish:
  assumes "inv q" and "i \<notin> fst ` live q"
  shows "\<exists>q1 ok q2 q3. enqueue a i q = Some q1 \<and> promoted i q1 = Some (ok, q2) \<and>
           finish i q2 = Some q3 \<and> inv q3 \<and> live q3 = {x \<in> live q. snd x \<noteq> file_of a}"
proof -
  obtain q1 where q1: "enqueue a i q = Some q1" "inv q1"
      "live q1 = insert (i, file_of a) {x \<in> live q. snd x \<noteq> file_of a}"
    using enqueue_law [OF assms] by blast
  obtain q2 ok where q2: "promoted i q1 = Some (ok, q2)" "inv q2" "live q2 = live q1"
    using promote_law [OF q1(2)] by blast
  obtain q3 where q3: "finish i q2 = Some q3" "inv q3" "live q3 = {x \<in> live q2. fst x \<noteq> i}"
    using finish_law [OF q2(2)] by blast
  have "live q3 = {x \<in> live q. snd x \<noteq> file_of a}"
    using assms(2) by (auto simp: q3(3) q2(3) q1(3) image_iff)
  then show ?thesis using q1 q2 q3 by blast
qed

text \<open>Re-enqueuing a file replaces its slot: the file never has two.\<close>

lemma enqueue_replaces:
  assumes "inv q" and "i \<notin> fst ` live q" and "j \<notin> fst ` live q" and "i \<noteq> j"
    and "file_of a = file_of a'"
  shows "\<exists>q1 q2. enqueue a i q = Some q1 \<and> enqueue a' j q1 = Some q2 \<and> inv q2 \<and>
           live q2 = insert (j, file_of a) {x \<in> live q. snd x \<noteq> file_of a}"
proof -
  obtain q1 where q1: "enqueue a i q = Some q1" "inv q1"
      "live q1 = insert (i, file_of a) {x \<in> live q. snd x \<noteq> file_of a}"
    using enqueue_law [OF assms(1,2)] by blast
  have "j \<notin> fst ` live q1" using assms(3,4) by (auto simp: q1(3) image_iff)
  then obtain q2 where q2: "enqueue a' j q1 = Some q2" "inv q2"
      "live q2 = insert (j, file_of a') {x \<in> live q1. snd x \<noteq> file_of a'}"
    using enqueue_law [OF q1(2)] by blast
  have "live q2 = insert (j, file_of a) {x \<in> live q. snd x \<noteq> file_of a}"
    using assms(5) by (auto simp: q2(3) q1(3))
  then show ?thesis using q1 q2 by blast
qed

end

type_synonym file_args = "string \<times> transfer_direction \<times> string \<times> int option \<times> int"

definition file_key :: "file_args \<Rightarrow> waiting_key" where
  "file_key a = (case a of (b, d, rel, _, _) \<Rightarrow>
     (b, d, fst (split_path rel), snd (split_path rel)))"

definition live_slots :: "transfer_queue \<Rightarrow> (string \<times> waiting_key) set" where
  "live_slots q = (\<lambda>i. (ti_id i, key_of i)) ` set (live_items q)"

lemma fst_live_slots: "fst ` live_slots q = ti_id ` set (live_items q)"
  by (simp add: live_slots_def image_image)

lemma live_slots_filter_id:
  assumes "set (live_items q') = {i \<in> set (live_items q). ti_id i \<noteq> t}"
  shows "live_slots q' = {x \<in> live_slots q. fst x \<noteq> t}"
  unfolding live_slots_def assms by force

lemma live_slots_replace:
  assumes "set (live_items q') = insert i {j \<in> set (live_items q). key_of j \<noteq> k}"
    and "key_of i = k"
  shows "live_slots q' = insert (ti_id i, k) {x \<in> live_slots q. snd x \<noteq> k}"
proof -
  have "live_slots q' = insert (ti_id i, key_of i)
      ((\<lambda>j. (ti_id j, key_of j)) ` {j \<in> set (live_items q). key_of j \<noteq> k})"
    unfolding live_slots_def assms(1) by (rule image_insert)
  also have "(\<lambda>j. (ti_id j, key_of j)) ` {j \<in> set (live_items q). key_of j \<noteq> k} =
      {x \<in> live_slots q. snd x \<noteq> k}"
    unfolding live_slots_def by force
  finally show ?thesis using assms(2) by simp
qed

lemma live_slots_file:
  assumes "tq_inv q" and "(i, k) \<in> live_slots q" and "(j, k) \<in> live_slots q"
  shows "i = j"
proof -
  have "inj_on key_of (set (live_items q))"
    using assms(1) by (simp add: tq_inv_def distinct_map)
  then show ?thesis using assms(2,3) by (auto simp: live_slots_def dest: inj_onD)
qed

lemma complete_slots:
  assumes inv: "tq_inv q"
  shows "\<exists>q'. complete t now q = Some q' \<and> tq_inv q' \<and>
           live_slots q' = {x \<in> live_slots q. fst x \<noteq> t}"
proof (cases "t \<in> ti_id ` set (live_items q)")
  case True
  then obtain q' i where q': "complete t now q = Some q'" "tq_inv q'" "ti_id i = t"
      "mset (live_items q) = add_mset i (mset (live_items q'))"
    using complete_ok [OF inv, of t now] by (simp only: if_True) blast
  have "distinct (map ti_id (live_items q))" using inv by (simp add: tq_inv_def)
  from distinct_mset_remove(2) [OF this q'(4)] live_slots_filter_id q' show ?thesis
    by blast
next
  case False
  then obtain q' where q': "complete t now q = Some q'" "tq_inv q'"
      "live_items q' = live_items q"
    using complete_ok [OF inv, of t now] by (simp only: if_False) blast
  have "fst x \<noteq> t" if "x \<in> live_slots q" for x
    using that False fst_live_slots by (metis imageI)
  then have "live_slots q' = {x \<in> live_slots q. fst x \<noteq> t}"
    unfolding live_slots_def q'(3) by blast
  then show ?thesis using q' by blast
qed

interpretation board: transfer_board tq_inv live_slots file_key
  "\<lambda>(b, d, rel, sz, now) t q. map_option snd (enqueue_waiting b d rel sz t now q)"
  "\<lambda>(b, d, rel, sz, now) t q. map_option snd (begin_transfer b d rel sz t now q)"
  "\<lambda>t q. promote t 0 q"
  "\<lambda>t q. complete t 0 q"
  abandon
proof (unfold_locales, goal_cases)
  case (1 q i k j)
  then show ?case using live_slots_file by blast
next
  case (2 q i a)
  obtain b d rel sz now where a: "a = (b, d, rel, sz, now)" by (cases a)
  obtain p n where sp: "split_path rel = (p, n)" by (cases "split_path rel")
  have "i \<notin> ti_id ` set (live_items q)" using 2(2) by (simp add: fst_live_slots)
  from enqueue_waiting_ok [OF 2(1) this sp, of b d sz now] obtain q' where
    q': "enqueue_waiting b d rel sz i now q = Some (i, q')" "tq_inv q'"
    and live: "set (live_items q') = insert \<lparr>ti_id = i, ti_binding_id = b, ti_direction = d,
        ti_path = p, ti_name = n, ti_size = sz, ti_status = Waiting, ti_updated_at_ms = now\<rparr>
        {j \<in> set (live_items q). key_of j \<noteq> (b, d, p, n)}"
    by blast
  have "live_slots q' = insert (i, file_key a) {x \<in> live_slots q. snd x \<noteq> file_key a}"
    using live_slots_replace [OF live] by (simp add: key_of_def file_key_def a sp)
  then show ?case using q' by (simp add: a)
next
  case (3 q i a)
  obtain b d rel sz now where a: "a = (b, d, rel, sz, now)" by (cases a)
  obtain p n where sp: "split_path rel = (p, n)" by (cases "split_path rel")
  have "i \<notin> ti_id ` set (live_items q)" using 3(2) by (simp add: fst_live_slots)
  from begin_transfer_ok [OF 3(1) this sp, of b d sz now] obtain q' where
    q': "begin_transfer b d rel sz i now q = Some (i, q')" "tq_inv q'"
    and live: "set (live_items q') = insert \<lparr>ti_id = i, ti_binding_id = b, ti_direction = d,
        ti_path = p, ti_name = n, ti_size = sz, ti_status = Active, ti_updated_at_ms = now\<rparr>
        {j \<in> set (live_items q). key_of j \<noteq> (b, d, p, n)}"
    by blast
  have "live_slots q' = insert (i, file_key a) {x \<in> live_slots q. snd x \<noteq> file_key a}"
    using live_slots_replace [OF live] by (simp add: key_of_def file_key_def a sp)
  then show ?case using q' by (simp add: a)
next
  case (4 q i)
  then show ?case using promote_ok [OF 4, of i 0] by (auto simp: live_slots_def)
next
  case (5 q i)
  then show ?case by (rule complete_slots)
next
  case (6 q i)
  then show ?case using abandon_ok [OF 6, of i] live_slots_filter_id by blast
qed


section \<open>Runs of the queue\<close>

datatype queue_op =
    QBegin file_args string
  | QEnqueue file_args string
  | QPromote string int
  | QComplete string int
  | QAbandon string
  | QClear string
  | QMeter string

fun queue_step :: "queue_op \<Rightarrow> transfer_queue \<Rightarrow> transfer_queue option" where
  "queue_step (QBegin (b, d, rel, sz, now) t) q = map_option snd (begin_transfer b d rel sz t now q)"
| "queue_step (QEnqueue (b, d, rel, sz, now) t) q =
     map_option snd (enqueue_waiting b d rel sz t now q)"
| "queue_step (QPromote t now) q = map_option snd (promote t now q)"
| "queue_step (QComplete t now) q = complete t now q"
| "queue_step (QAbandon t) q = abandon t q"
| "queue_step (QClear b) q = Some (clear_binding b q)"
| "queue_step (QMeter t) q = Some (snd (meter t q))"

fun queue_run :: "queue_op list \<Rightarrow> transfer_queue \<Rightarrow> transfer_queue option" where
  "queue_run [] q = Some q"
| "queue_run (x # xs) q = (case queue_step x q of None \<Rightarrow> None | Some q \<Rightarrow> queue_run xs q)"

text \<open>The ids a run hands out (each the value of one \<open>Uuid::new_v4\<close>).\<close>

fun new_ids :: "queue_op list \<Rightarrow> string list" where
  "new_ids [] = []"
| "new_ids (QBegin a t # xs) = t # new_ids xs"
| "new_ids (QEnqueue a t # xs) = t # new_ids xs"
| "new_ids (_ # xs) = new_ids xs"

definition live_ids :: "transfer_queue \<Rightarrow> string set" where
  "live_ids q = fst ` live_slots q"

lemma live_ids_alt: "live_ids q = ti_id ` set (live_items q)"
  by (simp add: live_ids_def fst_live_slots)

lemma meter_frame: "tq_inv (snd (meter t q)) = tq_inv q \<and> live_items (snd (meter t q)) = live_items q"
  by (auto simp: meter_def split: option.splits)

lemma complete_slots_now:
  assumes "tq_inv q"
  shows "\<exists>q'. complete t now q = Some q' \<and> tq_inv q' \<and> live_ids q' \<subseteq> live_ids q"
  using complete_slots [OF assms, of t now] by (auto simp: live_ids_def)

lemma queue_step_ok:
  assumes inv: "tq_inv q" and fresh: "set (new_ids [x]) \<inter> live_ids q = {}"
  shows "\<exists>q'. queue_step x q = Some q' \<and> tq_inv q' \<and> live_ids q' \<subseteq> live_ids q \<union> set (new_ids [x])"
proof (cases x)
  case (QBegin a t)
  obtain b d rel sz now where a: "a = (b, d, rel, sz, now)" by (cases a)
  have "t \<notin> fst ` live_slots q" using fresh QBegin by (simp add: live_ids_def)
  from board.start_law [OF inv this, of a] show ?thesis
    unfolding QBegin a live_ids_def by auto
next
  case (QEnqueue a t)
  obtain b d rel sz now where a: "a = (b, d, rel, sz, now)" by (cases a)
  have "t \<notin> fst ` live_slots q" using fresh QEnqueue by (simp add: live_ids_def)
  from board.enqueue_law [OF inv this, of a] show ?thesis
    unfolding QEnqueue a live_ids_def by auto
next
  case (QPromote t now)
  obtain q' ok where "promote t now q = Some (ok, q')" "tq_inv q'" "live_slots q' = live_slots q"
    using promote_ok [OF inv, of t now] unfolding live_slots_def by blast
  then show ?thesis by (simp add: QPromote live_ids_def)
next
  case (QComplete t now)
  then show ?thesis using complete_slots_now [OF inv, of t now] by auto
next
  case (QAbandon t)
  then show ?thesis using board.drop_law [OF inv, of t] by (auto simp: live_ids_def)
next
  case (QClear b)
  then show ?thesis using clear_binding_ok [OF inv, of b] by (auto simp: live_ids_alt)
next
  case (QMeter t)
  then show ?thesis using meter_frame [of t q] inv by (simp add: live_ids_alt)
qed

lemma queue_run_ok:
  assumes "tq_inv q" and "distinct (new_ids ops)" and "set (new_ids ops) \<inter> live_ids q = {}"
  shows "\<exists>q'. queue_run ops q = Some q' \<and> tq_inv q'"
  using assms
proof (induction ops arbitrary: q)
  case (Cons x xs)
  have split_ids: "new_ids (x # xs) = new_ids [x] @ new_ids xs" by (cases x) auto
  then obtain q1 where q1: "queue_step x q = Some q1" "tq_inv q1"
      "live_ids q1 \<subseteq> live_ids q \<union> set (new_ids [x])"
    using queue_step_ok [OF Cons.prems(1), of x] Cons.prems(3) by auto
  have "set (new_ids xs) \<inter> live_ids q1 = {}"
    using q1(3) Cons.prems(2,3) unfolding split_ids by auto
  then show ?case
    using Cons.IH [OF q1(2)] Cons.prems(2) q1(1) unfolding split_ids by auto
qed simp

section \<open>Properties of the queue\<close>

text \<open>
  C13. Whatever the engine does with the queue, in any order and with ids it has never seen
  or already dropped, no operation panics (every indexed removal is in bounds), no file has
  two live transfers in one direction, and the list of finished transfers stays within its cap.
\<close>

theorem transfer_queue_safe:
  assumes "distinct (new_ids ops)"
  shows "\<exists>q. queue_run ops empty_queue = Some q \<and> tq_inv q \<and>
           inj_on key_of (set (live_items q)) \<and> length (tq_done q) \<le> max_done"
proof -
  have "live_ids empty_queue = {}"
    by (simp add: live_ids_alt live_items_def empty_queue_def)
  then obtain q where "queue_run ops empty_queue = Some q" "tq_inv q"
    using queue_run_ok [OF tq_inv_empty assms] by auto
  then show ?thesis by (auto simp: tq_inv_def distinct_map)
qed

definition sample_ops :: "queue_op list" where
  "sample_ops =
     [QEnqueue (''cam'', Upload, ''2024/a.jpg'', Some 30, 1) ''t1'',
      QEnqueue (''cam'', Upload, ''2024/b.jpg'', Some 12, 2) ''t2'',
      QPromote ''t1'' 3, QMeter ''t1'', QBegin (''docs'', Download, ''x.bin'', None, 4) ''t3'',
      QEnqueue (''cam'', Upload, ''2024/a.jpg'', Some 31, 5) ''t4'', QAbandon ''t2'']"

lemma sample_ops_ids: "distinct (new_ids sample_ops)"
  by (simp add: sample_ops_def)

theorem transfer_queue_safe_witness:
  "distinct (new_ids sample_ops) \<and>
   (\<exists>q. queue_run sample_ops empty_queue = Some q \<and> tq_inv q \<and>
      inj_on key_of (set (live_items q)) \<and> length (tq_done q) \<le> max_done)"
  using transfer_queue_safe [OF sample_ops_ids] sample_ops_ids by blast

lemma sample_run: "\<exists>q. queue_run sample_ops empty_queue = Some q \<and> tq_inv q"
  by (rule queue_run_ok [OF tq_inv_empty sample_ops_ids])
    (simp add: live_ids_alt live_items_def empty_queue_def)

text \<open>
  Finishing a transfer conserves the progress display: files and bytes leave the
  "remaining" totals exactly as they enter the "completed" ones, so a progress bar over
  both never jumps, whichever transfer finishes.
\<close>

theorem complete_conserves_progress:
  assumes "tq_inv q"
  shows "\<exists>q'. complete t now q = Some q' \<and>
     ups_completed (upload_progress q') + ups_remaining (upload_progress q') =
       ups_completed (upload_progress q) + ups_remaining (upload_progress q) \<and>
     ups_completed_bytes (upload_progress q') + ups_remaining_bytes (upload_progress q') =
       ups_completed_bytes (upload_progress q) + ups_remaining_bytes (upload_progress q)"
proof -
  let ?up = "\<lambda>i. ti_direction i = Upload"
  have up: "ups_completed (upload_progress q) = tq_uploads_completed q"
    "ups_completed_bytes (upload_progress q) = tq_upload_bytes_completed q"
    "ups_remaining (upload_progress q) = size (filter_mset ?up (mset (live_items q)))"
    "ups_remaining_bytes (upload_progress q) =
       sum_mset (image_mset item_bytes (filter_mset ?up (mset (live_items q))))" for q
    by (simp_all add: upload_progress_def live_items_def Let_def size_mset sum_mset_sum_list
        flip: mset_filter mset_map)
  show ?thesis
  proof (cases "t \<in> ti_id ` set (live_items q)")
    case True
    then obtain q' i where q': "complete t now q = Some q'"
        "mset (live_items q) = add_mset i (mset (live_items q'))"
        "tq_uploads_completed q' = tq_uploads_completed q + (if ?up i then 1 else 0)"
        "tq_upload_bytes_completed q' =
           tq_upload_bytes_completed q + (if ?up i then item_bytes i else 0)"
      using complete_ok [OF assms, of t now] by (simp only: if_True) blast
    then show ?thesis by (simp add: up)
  next
    case False
    then show ?thesis
      using complete_ok [OF assms, of t now] by (auto simp: up)
  qed
qed

theorem complete_conserves_progress_witness:
  "\<exists>q q'. queue_run sample_ops empty_queue = Some q \<and> complete ''t4'' 9 q = Some q' \<and>
     ups_completed (upload_progress q') + ups_remaining (upload_progress q') =
       ups_completed (upload_progress q) + ups_remaining (upload_progress q)"
proof -
  obtain q where "queue_run sample_ops empty_queue = Some q" "tq_inv q" using sample_run by blast
  then show ?thesis using complete_conserves_progress [of q "''t4''" 9] by blast
qed

text \<open>
  What the panel is sent is bounded however long the queue is, and its two counters are
  exact: they count every unfinished transfer, also those the capped list leaves out.
\<close>

theorem snapshot_bounded_and_exact:
  assumes "tq_inv q"
  shows "length (qs_items (snapshot q)) \<le> snapshot_items_cap + max_done
         \<and> qs_uploading (snapshot q) + qs_downloading (snapshot q) = length (live_items q)
         \<and> (length (live_items q) \<le> snapshot_items_cap \<longrightarrow>
              qs_items (snapshot q) = live_items q @ tq_done q)"
proof -
  have "length (filter (\<lambda>i. ti_direction i = Upload) xs) +
      length (filter (\<lambda>i. ti_direction i = Download) xs) = length xs" for xs
    by (induction xs) (auto intro: transfer_direction.exhaust)
  from this [of "tq_active q @ tq_waiting q"] have
    "count_direction Upload q + count_direction Download q = length (live_items q)"
    by (simp only: count_direction_def live_items_def)
  moreover have "length (tq_done q) \<le> max_done" using assms by (simp add: tq_inv_def)
  ultimately show ?thesis
    by (auto simp: snapshot_def live_items_def sat_sub_def Let_def)
qed

theorem snapshot_bounded_and_exact_witness:
  "\<exists>q. queue_run sample_ops empty_queue = Some q \<and>
     length (qs_items (snapshot q)) \<le> snapshot_items_cap + max_done"
proof -
  obtain q where "queue_run sample_ops empty_queue = Some q" "tq_inv q" using sample_run by blast
  then show ?thesis using snapshot_bounded_and_exact [of q] by blast
qed

text \<open>
  The life of an upload slot: a file enqueued under a fresh id can be promoted and
  finished, and afterwards neither it nor any earlier slot of the same file is live, while
  every other file's slot is untouched.
\<close>

theorem upload_slot_lifecycle:
  assumes "tq_inv q" and "t \<notin> fst ` live_slots q"
  shows "\<exists>q1 ok q2 q3. map_option snd (enqueue_waiting b d rel sz t now q) = Some q1 \<and>
           promote t 0 q1 = Some (ok, q2) \<and> complete t 0 q2 = Some q3 \<and> tq_inv q3 \<and>
           live_slots q3 = {x \<in> live_slots q. snd x \<noteq> file_key (b, d, rel, sz, now)}"
  using board.enqueue_promote_finish [OF assms, of "(b, d, rel, sz, now)"] by simp

theorem upload_slot_lifecycle_witness:
  "\<exists>q1 ok q2 q3.
     map_option snd (enqueue_waiting ''cam'' Upload ''2024/a.jpg'' (Some 30) ''t1'' 1 empty_queue)
       = Some q1 \<and>
     promote ''t1'' 0 q1 = Some (ok, q2) \<and> complete ''t1'' 0 q2 = Some q3 \<and> tq_inv q3"
proof -
  have "''t1'' \<notin> fst ` live_slots empty_queue"
    by (simp add: live_slots_def live_items_def empty_queue_def)
  from upload_slot_lifecycle [OF tq_inv_empty this] show ?thesis by blast
qed

end
