(* ===== verification/RemotePaths.thy ===== *)
theory RemotePaths
  imports SyncTypes
begin

text \<open>
  Path arithmetic of the client: mapping a remote path of the server below a binding's
  remote root to a path below the local folder and back (the last functions of
  crates/sarca-sync/src/engine.rs), the name of a conflict copy, and the media filter and
  DCIM prefix of crates/sarca-sync/src/candidate.rs.
  Local paths are Unix paths: \<open>path_join\<close> is \<open>PathBuf::join\<close>, which drops the base when its
  argument is absolute.
\<close>

section \<open>Paths of the standard library\<close>

definition path_join :: "string \<Rightarrow> string \<Rightarrow> string" where
  "path_join base rel =
     (if starts_with ''/'' rel then rel
      else if base = [] \<or> last base = CHR ''/'' then base @ rel
      else base @ CHR ''/'' # rel)"

text \<open>\<open>Path::file_stem\<close> and \<open>Path::extension\<close> of a file name.\<close>

definition split_file_at_dot :: "string \<Rightarrow> string \<times> string option" where
  "split_file_at_dot name =
     (if name = ''..'' then (name, None)
      else case rsplit_once CHR ''.'' name of
             None \<Rightarrow> (name, None)
           | Some (before, after) \<Rightarrow> if before = [] then (name, None) else (before, Some after))"

definition file_stem :: "string \<Rightarrow> string" where
  "file_stem name = fst (split_file_at_dot name)"

definition file_extension :: "string \<Rightarrow> string option" where
  "file_extension name = snd (split_file_at_dot name)"

section \<open>Remote root and local root\<close>

definition strip_remote_root :: "string \<Rightarrow> string \<Rightarrow> string option" where
  "strip_remote_root path remote_root =
     (let path = trim_start_matches CHR ''/'' path in
      if list_ex (\<lambda>seg. seg = ''..'' \<or> seg = ''.'') (split_on CHR ''/'' path)
         \<or> CHR 0x5C \<in> set path \<or> second_char_is CHR '':'' path
      then None
      else
        let root = trim_matches CHR ''/'' (trim remote_root) in
        if root = [] then Some (trim_end_matches CHR ''/'' path)
        else
          let pre = root @ ''/'' in
          if path = root \<or> path = root @ ''/'' then Some []
          else map_option (trim_end_matches CHR ''/'') (strip_prefix pre path))"

definition join_remote :: "string \<Rightarrow> string \<Rightarrow> string" where
  "join_remote remote_root rel =
     (let root = trim_matches CHR ''/'' (trim remote_root);
          rel = trim_matches CHR ''/'' rel
      in if root = [] then rel
         else if rel = [] then root
         else root @ CHR ''/'' # rel)"

definition split_parent_name :: "string \<Rightarrow> string \<times> string" where
  "split_parent_name rel =
     (case rsplit_once CHR ''/'' rel of Some (p, n) \<Rightarrow> (p, n) | None \<Rightarrow> ([], rel))"

text \<open>\<open>conflict_path\<close> of a parent directory and a file name.\<close>

definition conflict_path :: "string \<Rightarrow> string \<Rightarrow> string" where
  "conflict_path parent name =
     (let stem = file_stem name;
          new_name = (case file_extension name of
             Some e \<Rightarrow> stem @ '' (conflict).'' @ e
           | None \<Rightarrow> stem @ '' (conflict)'')
      in path_join parent new_name)"

section \<open>The camera folder\<close>

definition strip_dcim_prefix :: "string \<Rightarrow> string" where
  "strip_dcim_prefix relative_path =
     (let r = trim_matches CHR ''/'' (trim relative_path) in
      case strip_prefix ''DCIM/'' r of
        Some rest \<Rightarrow> trim_matches CHR ''/'' rest
      | None \<Rightarrow> if r = ''DCIM'' then [] else r)"

definition media_extensions :: "string list" where
  "media_extensions =
     [''jpg'', ''jpeg'', ''png'', ''gif'', ''webp'', ''heic'', ''heif'', ''tif'', ''tiff'',
      ''bmp'', ''avif'', ''mp4'', ''mov'', ''m4v'', ''mkv'', ''webm'', ''avi'', ''3gp'', ''3gpp'']"

definition is_media_file :: "string \<Rightarrow> bool" where
  "is_media_file name =
     (case file_extension name of
        None \<Rightarrow> False
      | Some ext \<Rightarrow> List.member media_extensions (to_ascii_lowercase ext))"

section \<open>What stripping the remote root guarantees\<close>

abbreviation safe_segments :: "string \<Rightarrow> bool" where
  "safe_segments p \<equiv> ''..'' \<notin> set (split_on CHR ''/'' p) \<and> ''.'' \<notin> set (split_on CHR ''/'' p)"

lemma split_on_suffix_segments:
  "set (split_on c b) \<subseteq> set (split_on c (a @ c # b))"
  by (simp add: split_on_append_any)

lemma split_on_prefix_segments:
  "c \<notin> set b \<Longrightarrow> set (split_on c a) \<subseteq> set (split_on c (a @ c # b))"
  by (simp add: split_on_append_any)

lemma split_on_repeated:
  assumes "set t \<subseteq> {c}"
  shows "set (split_on c a) \<subseteq> set (split_on c (a @ t))"
proof (cases t)
  case (Cons x xs)
  then show ?thesis using assms by (simp add: split_on_append_any)
qed simp

lemma trim_end_segments:
  "set (split_on c (trim_end_matches c s)) \<subseteq> set (split_on c s)"
proof -
  obtain t where t: "s = trim_end_matches c s @ t" "set t \<subseteq> {c}"
    using trim_end_matches_append by blast
  show ?thesis using split_on_repeated [OF t(2), of "trim_end_matches c s"] t(1) by simp
qed

lemma strip_remote_root_cases:
  assumes "strip_remote_root path root = Some rel"
  obtains p where "p = trim_start_matches CHR ''/'' path" "safe_segments p"
    "CHR 0x5C \<notin> set p" "\<not> second_char_is CHR '':'' p"
    "rel = [] \<or> rel = trim_end_matches CHR ''/'' p
     \<or> (\<exists>s. p = trim_matches CHR ''/'' (trim root) @ CHR ''/'' # s \<and> rel = trim_end_matches CHR ''/'' s)"
proof -
  let ?p = "trim_start_matches CHR ''/'' path" and ?r = "trim_matches CHR ''/'' (trim root)"
  have guard: "\<not> (list_ex (\<lambda>seg. seg = ''..'' \<or> seg = ''.'') (split_on CHR ''/'' ?p)
         \<or> CHR 0x5C \<in> set ?p \<or> second_char_is CHR '':'' ?p)"
  proof
    assume "list_ex (\<lambda>seg. seg = ''..'' \<or> seg = ''.'') (split_on CHR ''/'' ?p)
         \<or> CHR 0x5C \<in> set ?p \<or> second_char_is CHR '':'' ?p"
    then have "strip_remote_root path root = None"
      by (simp only: strip_remote_root_def Let_def if_True)
    then show False using assms by simp
  qed
  have "rel = [] \<or> rel = trim_end_matches CHR ''/'' ?p
     \<or> (\<exists>s. ?p = ?r @ CHR ''/'' # s \<and> rel = trim_end_matches CHR ''/'' s)"
    using assms guard unfolding strip_remote_root_def Let_def
    by (auto simp: strip_prefix_Some_iff split: if_splits)
  moreover have "safe_segments ?p" using guard by (auto simp: list_ex_iff)
  ultimately show ?thesis using that [of ?p] guard by blast
qed

lemma trim_end_matches_backslash: "x \<notin> set s \<Longrightarrow> x \<notin> set (trim_end_matches c s)"
  using trim_end_matches_set by blast

lemma strip_remote_root_segments:
  assumes "strip_remote_root path root = Some rel"
  shows "safe_segments rel \<and> CHR 0x5C \<notin> set rel \<and> (rel \<noteq> [] \<longrightarrow> last rel \<noteq> CHR ''/'')"
proof -
  obtain p where p: "safe_segments p" "CHR 0x5C \<notin> set p"
    "rel = [] \<or> rel = trim_end_matches CHR ''/'' p
     \<or> (\<exists>s. p = trim_matches CHR ''/'' (trim root) @ CHR ''/'' # s \<and> rel = trim_end_matches CHR ''/'' s)"
    using strip_remote_root_cases [OF assms] by metis
  then consider (empty) "rel = []"
    | (some) s where "rel = trim_end_matches CHR ''/'' s" "set (split_on CHR ''/'' s) \<subseteq> set (split_on CHR ''/'' p)"
        "set s \<subseteq> set p"
    by (metis order_refl set_append set_subset_Cons split_on_suffix_segments sup.coboundedI2)
  then show ?thesis
  proof cases
    case empty
    then show ?thesis by simp
  next
    case some
    then have "set (split_on CHR ''/'' rel) \<subseteq> set (split_on CHR ''/'' p)"
      using trim_end_segments by blast
    moreover have "rel \<noteq> [] \<longrightarrow> last rel \<noteq> CHR ''/''"
      using some(1) trim_end_matches_last by blast
    moreover have "CHR 0x5C \<notin> set rel"
      using some(1,3) p(2) trim_end_matches_backslash by blast
    ultimately show ?thesis using p(1) by blast
  qed
qed

text \<open>
  A remote path that is mapped below the local folder never climbs out of it by its
  segments: the result has no \<open>..\<close> or \<open>.\<close> segment, no backslash and no trailing slash.
\<close>

theorem strip_remote_root_no_dotdot:
  assumes "strip_remote_root path root = Some rel"
  shows "safe_segments rel \<and> CHR 0x5C \<notin> set rel \<and> (rel \<noteq> [] \<longrightarrow> last rel \<noteq> CHR ''/'')"
  using assms by (rule strip_remote_root_segments)

theorem strip_remote_root_no_dotdot_witness:
  "strip_remote_root ''/Camera/2024/a.jpg/'' ''Camera'' = Some ''2024/a.jpg'' \<and>
   safe_segments ''2024/a.jpg''"
proof -
  have h: "strip_remote_root ''/Camera/2024/a.jpg/'' ''Camera'' = Some ''2024/a.jpg''"
    by code_simp
  show ?thesis using h strip_remote_root_no_dotdot [OF h] by blast
qed

text \<open>
  The guard is not enough for a binding with a remote root: an empty segment after the
  root survives as a leading slash, the result is absolute, and joining it onto the local
  folder leaves that folder altogether. Without a remote root the result is never absolute.
\<close>

theorem strip_remote_root_absolute_escape:
  "strip_remote_root ''docs//etc/passwd'' ''docs'' = Some ''/etc/passwd''
   \<and> path_join ''/home/u/sync'' ''/etc/passwd'' = ''/etc/passwd''
   \<and> (strip_remote_root path [] = Some rel \<longrightarrow> \<not> starts_with ''/'' rel)"
proof -
  have 1: "strip_remote_root ''docs//etc/passwd'' ''docs'' = Some ''/etc/passwd''" by code_simp
  have 2: "path_join ''/home/u/sync'' ''/etc/passwd'' = ''/etc/passwd''" by code_simp
  have 3: "\<not> starts_with ''/'' rel" if r: "strip_remote_root path [] = Some rel"
  proof
    assume "starts_with ''/'' rel"
    then obtain r where rel: "rel = CHR ''/'' # r" by (auto simp: starts_with_iff)
    have "trim_matches CHR ''/'' (trim []) = []" by code_simp
    then have "rel = trim_end_matches CHR ''/'' (trim_start_matches CHR ''/'' path)"
      using r by (auto simp: strip_remote_root_def Let_def split: if_splits)
    then have "rel = trim_matches CHR ''/'' path" by (simp add: trim_matches_def)
    moreover have "rel \<noteq> []" and "hd rel = CHR ''/''" using rel by simp_all
    ultimately show False using trim_matches_hd [of "CHR ''/''" path] by simp
  qed
  show ?thesis using 1 2 3 by blast
qed

theorem strip_remote_root_absolute_escape_witness:
  "strip_remote_root ''//a.txt'' [] = Some ''a.txt'' \<and> \<not> starts_with ''/'' ''a.txt''"
proof -
  have h: "strip_remote_root ''//a.txt'' [] = Some ''a.txt''" by code_simp
  show ?thesis using h strip_remote_root_absolute_escape [of "''//a.txt''" "''a.txt''"] by blast
qed

lemma trim_start_matches_join:
  "r \<noteq> [] \<Longrightarrow> hd r \<noteq> c \<Longrightarrow> trim_start_matches c (r @ s) = r @ s"
  by (cases r) (auto simp: trim_start_matches_def)

text \<open>
  C35. Uploading to a remote path and later receiving that path in the changelog leads back
  to the same local file: stripping the root undoes joining it, for every relative path
  the client accepts.
\<close>

theorem strip_join_roundtrip:
  assumes "rel \<noteq> []" and "trim_matches CHR ''/'' rel = rel"
    and "safe_segments (join_remote root rel)" and "CHR 0x5C \<notin> set (join_remote root rel)"
    and "\<not> second_char_is CHR '':'' (join_remote root rel)"
  shows "strip_remote_root (join_remote root rel) root = Some rel"
proof -
  let ?r = "trim_matches CHR ''/'' (trim root)" and ?j = "join_remote root rel"
  have hd: "hd rel \<noteq> CHR ''/''" and lst: "last rel \<noteq> CHR ''/''"
    using trim_matches_hd [of "CHR ''/''" rel] trim_matches_last [of "CHR ''/''" rel] assms(1,2)
    by auto
  have te: "trim_end_matches CHR ''/'' rel = rel"
    using lst by (intro trim_end_matches_id) simp
  have guard: "\<not> (list_ex (\<lambda>seg. seg = ''..'' \<or> seg = ''.'') (split_on CHR ''/'' ?j)
         \<or> CHR 0x5C \<in> set ?j \<or> second_char_is CHR '':'' ?j)"
    using assms(3-5) by (auto simp: list_ex_iff)
  show ?thesis
  proof (cases "?r = []")
    case True
    then have j: "?j = rel" using assms(2) by (simp add: join_remote_def Let_def)
    have "trim_start_matches CHR ''/'' rel = rel" using hd by (intro trim_start_matches_id) simp
    then show ?thesis
      using guard True te unfolding strip_remote_root_def Let_def j by simp
  next
    case False
    then have j: "?j = ?r @ CHR ''/'' # rel"
      using assms(1,2) by (simp add: join_remote_def Let_def)
    have ts: "trim_start_matches CHR ''/'' ?j = ?j"
      unfolding j using trim_matches_hd [OF False] by (intro trim_start_matches_join False)
    have ne: "?j \<noteq> ?r" "?j \<noteq> ?r @ ''/''" unfolding j using assms(1) by simp_all
    have sp: "strip_prefix (?r @ ''/'') ?j = Some rel" by (simp add: strip_prefix_Some_iff j)
    show ?thesis
      unfolding strip_remote_root_def Let_def ts using guard False ne sp te by simp
  qed
qed

theorem strip_join_roundtrip_witness:
  "strip_remote_root (join_remote ''/Camera/'' ''2024/a.jpg'') ''/Camera/'' = Some ''2024/a.jpg''"
proof -
  have j: "join_remote ''/Camera/'' ''2024/a.jpg'' = ''Camera/2024/a.jpg''" by code_simp
  have "trim_matches CHR ''/'' ''2024/a.jpg'' = ''2024/a.jpg''" by code_simp
  moreover have "safe_segments (join_remote ''/Camera/'' ''2024/a.jpg'')" unfolding j by code_simp
  moreover have "CHR 0x5C \<notin> set (join_remote ''/Camera/'' ''2024/a.jpg'')" unfolding j by code_simp
  moreover have "\<not> second_char_is CHR '':'' (join_remote ''/Camera/'' ''2024/a.jpg'')"
    unfolding j by code_simp
  ultimately show ?thesis by (intro strip_join_roundtrip) simp_all
qed

section \<open>Conflict copies\<close>

lemma split_file_at_dot_parts:
  assumes "split_file_at_dot name = (stem, ext)"
  shows "(ext = None \<and> stem = name) \<or> (\<exists>e. ext = Some e \<and> name = stem @ CHR ''.'' # e \<and> stem \<noteq> [] \<and> CHR ''.'' \<notin> set e)"
  using assms by (auto simp: split_file_at_dot_def dest: rsplit_once_SomeD split: if_splits option.splits)

lemma conflict_name_extension:
  assumes "file_extension name = Some e"
  shows "file_extension (file_stem name @ '' (conflict).'' @ e) = Some e"
proof -
  obtain stem where s: "split_file_at_dot name = (stem, Some e)"
    using assms by (cases "split_file_at_dot name") (simp add: file_extension_def)
  then have st: "file_stem name = stem" by (simp add: file_stem_def)
  have e: "CHR ''.'' \<notin> set e" using split_file_at_dot_parts [OF s] by auto
  have eq: "stem @ '' (conflict).'' @ e = (stem @ '' (conflict)'') @ CHR ''.'' # e" by simp
  have ne: "(stem @ '' (conflict)'') @ CHR ''.'' # e \<noteq> ''..''" by (cases stem) auto
  show ?thesis
    unfolding st eq file_extension_def split_file_at_dot_def
    using ne rsplit_once_append [OF e, of "stem @ '' (conflict)''"] by simp
qed

lemma conflict_name_no_extension:
  assumes "file_extension name = None" and "name \<noteq> ''..''"
  shows "file_extension (file_stem name @ '' (conflict)'') = None \<and> file_stem name = name"
proof (cases "rsplit_once CHR ''.'' name")
  case None
  then have "CHR ''.'' \<notin> set name" by (simp add: rsplit_once_None_iff)
  then have "rsplit_once CHR ''.'' (name @ '' (conflict)'') = None"
    by (simp add: rsplit_once_None_iff)
  then show ?thesis
    using assms(2) None by (simp add: file_extension_def file_stem_def split_file_at_dot_def)
next
  case (Some p)
  obtain before after where p: "p = (before, after)" by (cases p)
  have b: "before = []" and st: "file_stem name = name"
    using assms Some p
    by (auto simp: file_extension_def file_stem_def split_file_at_dot_def split: if_splits)
  have name: "name = CHR ''.'' # after" "CHR ''.'' \<notin> set after"
    using rsplit_once_SomeD [OF Some [unfolded p]] b by auto
  then have "rsplit_once CHR ''.'' (name @ '' (conflict)'') = Some ([], after @ '' (conflict)'')"
    using rsplit_once_append [of "CHR ''.''" "after @ '' (conflict)''" "[]"] by simp
  then have "file_extension (name @ '' (conflict)'') = None"
    using name(1) by (simp add: file_extension_def split_file_at_dot_def)
  then show ?thesis by (simp add: st)
qed

text \<open>
  Keeping both versions of a file loses neither: the conflict copy lies beside the file
  under another name, with the same extension.
\<close>

theorem conflict_path_fresh:
  assumes "name \<noteq> ''..''" and "CHR ''/'' \<notin> set name"
  shows "\<exists>new. conflict_path parent name = path_join parent new \<and> new \<noteq> name \<and>
           CHR ''/'' \<notin> set new \<and> file_extension new = file_extension name"
proof (cases "file_extension name")
  case None
  let ?new = "file_stem name @ '' (conflict)''"
  have "file_extension ?new = None" and "?new \<noteq> name" and "CHR ''/'' \<notin> set ?new"
    using conflict_name_no_extension [OF None assms(1)] assms(2) by auto
  then show ?thesis
    using None by (intro exI [of _ ?new]) (simp add: conflict_path_def)
next
  case (Some e)
  let ?new = "file_stem name @ '' (conflict).'' @ e"
  have "split_file_at_dot name = (file_stem name, Some e)"
    using Some by (simp add: file_stem_def file_extension_def prod_eq_iff)
  from split_file_at_dot_parts [OF this] have name: "name = file_stem name @ CHR ''.'' # e"
    by simp
  have "set (file_stem name @ CHR ''.'' # e) = set name" using name by (rule arg_cong [symmetric])
  then have "CHR ''/'' \<notin> set (file_stem name @ CHR ''.'' # e)" using assms(2) by simp
  then have "CHR ''/'' \<notin> set ?new" by simp
  moreover have "?new \<noteq> name" proof
    assume "?new = name"
    from this name have "?new = file_stem name @ CHR ''.'' # e" by (rule trans)
    then show False by simp
  qed
  ultimately show ?thesis
    using Some conflict_name_extension [OF Some]
    by (intro exI [of _ ?new]) (simp add: conflict_path_def)
qed

theorem conflict_path_fresh_witness:
  "conflict_path ''/home/u'' ''foo.tar.gz'' = ''/home/u/foo.tar (conflict).gz'' \<and>
   (\<exists>new. conflict_path ''/home/u'' ''foo.tar.gz'' = path_join ''/home/u'' new \<and>
      new \<noteq> ''foo.tar.gz'' \<and> file_extension new = file_extension ''foo.tar.gz'')"
proof -
  have "conflict_path ''/home/u'' ''foo.tar.gz'' = ''/home/u/foo.tar (conflict).gz''" by code_simp
  moreover have "''foo.tar.gz'' \<noteq> ''..''" "CHR ''/'' \<notin> set ''foo.tar.gz''" by simp_all
  ultimately show ?thesis using conflict_path_fresh [of "''foo.tar.gz''" "''/home/u''"] by metis
qed

end
