(* ===== verification/BindingScheduler.thy ===== *)
theory BindingScheduler
  imports Prelude
begin

text \<open>
  The per-binding scheduler (crates/sarca-sync/src/scheduler.rs) as a state machine.
  A run is one call of \<open>BindingScheduler::run\<close>: it claims its binding in the in-flight map
  or is refused at once, queues for a permit of the shared semaphore, runs the closure,
  returns the permit and drops the guard that releases the claim. The steps of concurrent
  runs interleave freely; unwinding and cancellation are steps too, because the guard and
  the permit are released by \<open>Drop\<close> on every exit path.
\<close>

section \<open>State\<close>

datatype run_phase =
    Queued string    \<comment> \<open>claimed, waiting for a permit\<close>
  | Running string   \<comment> \<open>holding a permit, inside the closure\<close>
  | Leaving string   \<comment> \<open>permit returned, guard not dropped yet\<close>

fun phase_binding :: "run_phase \<Rightarrow> string" where
  "phase_binding (Queued b) = b"
| "phase_binding (Running b) = b"
| "phase_binding (Leaving b) = b"

record scheduler =
  sc_in_flight :: "string set"
  sc_slots :: nat
  sc_runs :: "nat \<Rightarrow> run_phase option"

definition scheduler_new :: "nat \<Rightarrow> scheduler" where
  "scheduler_new max_concurrent =
     \<lparr>sc_in_flight = {}, sc_slots = max max_concurrent 1, sc_runs = Map.empty\<rparr>"

text \<open>The critical section at the start of \<open>run\<close>; \<open>False\<close> is the early \<open>return None\<close>.\<close>

definition claim :: "nat \<Rightarrow> string \<Rightarrow> scheduler \<Rightarrow> bool \<times> scheduler" where
  "claim t b s =
     (if b \<in> sc_in_flight s then (False, s)
      else (True, s\<lparr>sc_in_flight := insert b (sc_in_flight s),
                    sc_runs := (sc_runs s)(t \<mapsto> Queued b)\<rparr>))"

text \<open>\<open>InFlightGuard::drop\<close>, run at the end of a call.\<close>

definition drop_guard :: "nat \<Rightarrow> string \<Rightarrow> scheduler \<Rightarrow> scheduler" where
  "drop_guard t b s =
     s\<lparr>sc_in_flight := sc_in_flight s - {b}, sc_runs := (sc_runs s)(t := None)\<rparr>"

inductive sched_step :: "scheduler \<Rightarrow> scheduler \<Rightarrow> bool" where
  refused: "sc_runs s t = None \<Longrightarrow> claim t b s = (False, s') \<Longrightarrow> sched_step s s'"
| claimed: "sc_runs s t = None \<Longrightarrow> claim t b s = (True, s') \<Longrightarrow> sched_step s s'"
| acquire: "sc_runs s t = Some (Queued b) \<Longrightarrow> 0 < sc_slots s \<Longrightarrow>
    sched_step s (s\<lparr>sc_slots := sc_slots s - 1, sc_runs := (sc_runs s)(t \<mapsto> Running b)\<rparr>)"
| drop_permit: "sc_runs s t = Some (Running b) \<Longrightarrow>
    sched_step s (s\<lparr>sc_slots := sc_slots s + 1, sc_runs := (sc_runs s)(t \<mapsto> Leaving b)\<rparr>)"
| leave: "sc_runs s t = Some (Leaving b) \<Longrightarrow> sched_step s (drop_guard t b s)"
| abandon_queue: "sc_runs s t = Some (Queued b) \<Longrightarrow> sched_step s (drop_guard t b s)"

inductive_cases sched_stepE: "sched_step s s'"

inductive sched_reachable :: "nat \<Rightarrow> scheduler \<Rightarrow> bool" for n where
  start: "sched_reachable n (scheduler_new n)"
| step: "sched_reachable n s \<Longrightarrow> sched_step s s' \<Longrightarrow> sched_reachable n s'"

section \<open>Invariant\<close>

definition running :: "scheduler \<Rightarrow> nat set" where
  "running s = {t. \<exists>b. sc_runs s t = Some (Running b)}"

text \<open>The binding each live run has claimed.\<close>

definition holds :: "scheduler \<Rightarrow> nat \<Rightarrow> string option" where
  "holds s = (\<lambda>t. map_option phase_binding (sc_runs s t))"

definition sched_inv :: "nat \<Rightarrow> scheduler \<Rightarrow> bool" where
  "sched_inv n s \<longleftrightarrow>
     finite (dom (sc_runs s)) \<and> sc_in_flight s = ran (holds s) \<and>
     (\<forall>t u b. holds s t = Some b \<longrightarrow> holds s u = Some b \<longrightarrow> t = u) \<and>
     card (running s) + sc_slots s = max n 1"

lemma sched_inv_new [inv_intros]: "sched_inv n (scheduler_new n)"
  by (simp add: sched_inv_def scheduler_new_def running_def holds_def)

lemma running_subset: "running s \<subseteq> dom (sc_runs s)"
  by (auto simp: running_def)

lemma finite_running: "sched_inv n s \<Longrightarrow> finite (running s)"
  using finite_subset [OF running_subset] by (auto simp: sched_inv_def)

text \<open>Moving one run from a phase to another phase of the same binding.\<close>

lemma sched_inv_move:
  assumes inv: "sched_inv n s" and t: "sc_runs s t = Some p"
    and p: "phase_binding p' = phase_binding p"
    and card: "card (running (s\<lparr>sc_slots := k, sc_runs := (sc_runs s)(t \<mapsto> p')\<rparr>)) + k = max n 1"
  shows "sched_inv n (s\<lparr>sc_slots := k, sc_runs := (sc_runs s)(t \<mapsto> p')\<rparr>)"
proof -
  have "holds (s\<lparr>sc_slots := k, sc_runs := (sc_runs s)(t \<mapsto> p')\<rparr>) = holds s"
    using t p by (auto simp: holds_def)
  then show ?thesis using inv card by (simp add: sched_inv_def)
qed

lemma sched_inv_drop_guard:
  assumes inv: "sched_inv n s" and t: "sc_runs s t = Some p" and p: "phase_binding p = b"
    and idle: "t \<notin> running s"
  shows "sched_inv n (drop_guard t b s)"
proof -
  have ht: "holds s t = Some b" using t p by (simp add: holds_def)
  have uniq: "u = t" if "holds s u = Some b" for u
    using inv ht that unfolding sched_inv_def by blast
  have h: "holds (drop_guard t b s) = (holds s)(t := None)"
    by (auto simp: holds_def drop_guard_def)
  have "ran ((holds s)(t := None)) = ran (holds s) - {b}"
  proof (intro set_eqI iffI)
    fix c assume "c \<in> ran ((holds s)(t := None))"
    then obtain a where "a \<noteq> t" "holds s a = Some c"
      unfolding ran_def by (auto split: if_splits)
    then show "c \<in> ran (holds s) - {b}" using uniq by (auto intro: ranI)
  next
    fix c assume "c \<in> ran (holds s) - {b}"
    then obtain a where "holds s a = Some c" "c \<noteq> b" unfolding ran_def by blast
    then have "((holds s)(t := None)) a = Some c" using ht by auto
    then show "c \<in> ran ((holds s)(t := None))" by (rule ranI)
  qed
  then have "sc_in_flight (drop_guard t b s) = ran (holds (drop_guard t b s))"
    using inv unfolding h by (simp add: sched_inv_def drop_guard_def)
  moreover have "running (drop_guard t b s) = running s"
    using idle by (auto simp: running_def drop_guard_def)
  then have "card (running (drop_guard t b s)) + sc_slots (drop_guard t b s) = max n 1"
    using inv by (simp add: sched_inv_def drop_guard_def)
  moreover have "x = y" if "holds (drop_guard t b s) x = Some c" "holds (drop_guard t b s) y = Some c"
    for x y c
    using inv that unfolding h sched_inv_def by (auto split: if_splits)
  moreover have "finite (dom (sc_runs (drop_guard t b s)))"
    using inv by (simp add: sched_inv_def drop_guard_def)
  ultimately show ?thesis unfolding sched_inv_def by blast
qed

lemma sched_step_inv: "sched_step s s' \<Longrightarrow> sched_inv n s \<Longrightarrow> sched_inv n s'"
proof (induction rule: sched_step.induct)
  case (refused s t b s')
  then show ?case by (auto simp: claim_def split: if_splits)
next
  case (claimed s t b s')
  then have b: "b \<notin> sc_in_flight s"
    and s': "s' = s\<lparr>sc_in_flight := insert b (sc_in_flight s),
                    sc_runs := (sc_runs s)(t \<mapsto> Queued b)\<rparr>"
    by (auto simp: claim_def split: if_splits)
  have "running s' = running s" using claimed.hyps(1) by (auto simp: running_def s')
  moreover have h: "holds s' = (holds s)(t \<mapsto> b)" by (auto simp: holds_def s')
  moreover have "holds s u \<noteq> Some b" for u
    using b claimed.prems by (auto simp: sched_inv_def intro: ranI)
  moreover have "ran (holds s') = insert b (ran (holds s))"
    unfolding h using claimed.hyps(1) by (intro ran_map_upd) (simp add: holds_def)
  moreover have "b \<noteq> c" if "holds s u = Some c" for u c
    using that calculation(3) by auto
  ultimately show ?case
    using claimed.prems by (auto simp: sched_inv_def s')
next
  case (acquire s t b)
  let ?s = "s\<lparr>sc_slots := sc_slots s - 1, sc_runs := (sc_runs s)(t \<mapsto> Running b)\<rparr>"
  have "running ?s = insert t (running s)" by (auto simp: running_def)
  moreover have "t \<notin> running s" using acquire.hyps(1) by (auto simp: running_def)
  ultimately have "card (running ?s) + (sc_slots s - 1) = max n 1"
    using acquire finite_running [OF acquire.prems] by (auto simp: sched_inv_def)
  then show ?case
    using acquire by (intro sched_inv_move [where p = "Queued b"]) simp_all
next
  case (drop_permit s t b)
  let ?s = "s\<lparr>sc_slots := sc_slots s + 1, sc_runs := (sc_runs s)(t \<mapsto> Leaving b)\<rparr>"
  have "running s = insert t (running ?s)" and "t \<notin> running ?s"
    using drop_permit.hyps by (auto simp: running_def)
  moreover have "finite (running ?s)"
    using finite_running [OF drop_permit.prems] calculation(1) by (metis finite_insert)
  ultimately have "card (running ?s) + (sc_slots s + 1) = max n 1"
    using drop_permit.prems by (auto simp: sched_inv_def)
  then show ?case
    using drop_permit by (intro sched_inv_move [where p = "Running b"]) simp_all
next
  case (leave s t b)
  then show ?case by (intro sched_inv_drop_guard [where p = "Leaving b"]) (auto simp: running_def)
next
  case (abandon_queue s t b)
  then show ?case by (intro sched_inv_drop_guard [where p = "Queued b"]) (auto simp: running_def)
qed

lemma sched_reachable_inv: "sched_reachable n s \<Longrightarrow> sched_inv n s"
  by (induction rule: sched_reachable.induct) (auto intro: sched_inv_new sched_step_inv)

section \<open>Properties\<close>

text \<open>
  C23. In every reachable state a binding has at most one run in flight, at most
  \<open>max_concurrent\<close> closures run at once, and a claim is refused only while another run of
  that same binding is alive: once its last run has ended, by any exit path, the binding is
  accepted again and all permits are back.
\<close>

theorem scheduler_exclusive_and_leak_free:
  assumes "sched_reachable n s"
  shows "(\<forall>t u b. holds s t = Some b \<longrightarrow> holds s u = Some b \<longrightarrow> t = u)
         \<and> card (running s) \<le> max n 1
         \<and> (\<forall>t b. fst (claim t b s) \<longleftrightarrow> (\<forall>u. holds s u \<noteq> Some b))
         \<and> (dom (sc_runs s) = {} \<longrightarrow> s = scheduler_new n)"
proof -
  have inv: "sched_inv n s" by (rule sched_reachable_inv [OF assms])
  have 1: "card (running s) \<le> max n 1" using inv by (auto simp: sched_inv_def)
  have 2: "fst (claim t b s) \<longleftrightarrow> (\<forall>u. holds s u \<noteq> Some b)" for t b
    using inv by (auto simp: claim_def sched_inv_def ran_def)
  have 3: "s = scheduler_new n" if d: "dom (sc_runs s) = {}"
  proof -
    have "sc_runs s = Map.empty" using d by auto
    moreover from this have "running s = {}" by (simp add: running_def)
    ultimately show ?thesis using inv by (simp add: sched_inv_def scheduler_new_def holds_def)
  qed
  show ?thesis using inv 1 2 3 unfolding sched_inv_def by blast
qed

definition sample_sched :: scheduler where
  "sample_sched = (scheduler_new 2)\<lparr>sc_in_flight := {''cam''}, sc_slots := 1,
     sc_runs := [0 \<mapsto> Running ''cam'']\<rparr>"

lemma sample_sched_reachable: "sched_reachable 2 sample_sched"
proof -
  let ?s = "(scheduler_new 2)\<lparr>sc_in_flight := {''cam''}, sc_runs := [0 \<mapsto> Queued ''cam'']\<rparr>"
  have "sched_step (scheduler_new 2) ?s"
    by (rule sched_step.claimed [of _ 0 "''cam''"]) (simp_all add: claim_def scheduler_new_def)
  then have "sched_reachable 2 ?s" by (rule sched_reachable.step [OF sched_reachable.start])
  moreover have "sched_step ?s sample_sched"
    using sched_step.acquire [of ?s 0 "''cam''"] by (simp add: sample_sched_def scheduler_new_def)
  ultimately show ?thesis by (rule sched_reachable.step)
qed

theorem scheduler_exclusive_and_leak_free_witness:
  "sched_reachable 2 sample_sched \<and> card (running sample_sched) \<le> 2 \<and>
   \<not> fst (claim 1 ''cam'' sample_sched) \<and> fst (claim 1 ''docs'' sample_sched)"
  using scheduler_exclusive_and_leak_free [OF sample_sched_reachable] sample_sched_reachable
  by (auto simp: sample_sched_def claim_def)

end
