(* ===== verification/Pinning.thy ===== *)
theory Pinning
  imports RustStr
begin

text \<open>
  Trust on first use (crates/sarca-sync/src/pinning.rs) and the file-backed store of pinned
  keys behind it (client/src-tauri/src/pin_store.rs). A pin is the 32 bytes of a SHA-256
  digest. The web PKI verifier, the certificate parser with its digest, and the base-16
  codec are third-party: they are arguments. The trait \<open>PinStore\<close> is the interface between
  the two parts, stated as a locale and discharged for the file store.
\<close>

type_synonym pin = string

datatype tls_error =
    GeneralError string
  | KeyChanged string      \<comment> \<open>server key for the host changed since it was first trusted\<close>

section \<open>The verifier\<close>

definition verify_server_cert ::
  "('c \<Rightarrow> string \<Rightarrow> (tls_error, unit) result) \<Rightarrow> ('c \<Rightarrow> (tls_error, pin) result) \<Rightarrow>
   ('s \<Rightarrow> string \<Rightarrow> pin option) \<Rightarrow> (string \<Rightarrow> pin \<Rightarrow> 's \<Rightarrow> 's) \<Rightarrow>
   'c \<Rightarrow> string \<Rightarrow> 's \<Rightarrow> (tls_error, unit) result \<times> 's" where
  "verify_server_cert webpki spki_pin get put cert host store =
     (case webpki cert host of
        Inr verified \<Rightarrow> (Inr verified, store)
      | Inl webpki_err \<Rightarrow>
          (case spki_pin cert of
             Inl e \<Rightarrow> (Inl e, store)
           | Inr p \<Rightarrow>
               (case get store host of
                  Some known \<Rightarrow> if known = p then (Inr (), store)
                                 else (Inl (KeyChanged host), store)
                | None \<Rightarrow> (Inr (), put host p store))))"

text \<open>A sequence of handshakes: the answers given, and the store they leave.\<close>

fun handshakes ::
  "('c \<Rightarrow> string \<Rightarrow> (tls_error, unit) result) \<Rightarrow> ('c \<Rightarrow> (tls_error, pin) result) \<Rightarrow>
   ('s \<Rightarrow> string \<Rightarrow> pin option) \<Rightarrow> (string \<Rightarrow> pin \<Rightarrow> 's \<Rightarrow> 's) \<Rightarrow>
   ('c \<times> string) list \<Rightarrow> 's \<Rightarrow> ('c \<times> string \<times> (tls_error, unit) result) list \<times> 's" where
  "handshakes w k get put [] st = ([], st)"
| "handshakes w k get put ((c, h) # xs) st =
     (let (r, st) = verify_server_cert w k get put c h st;
          (rs, st) = handshakes w k get put xs st
      in ((c, h, r) # rs, st))"

section \<open>The store interface\<close>

locale pin_store =
  fixes get :: "'s \<Rightarrow> string \<Rightarrow> pin option"
    and put :: "string \<Rightarrow> pin \<Rightarrow> 's \<Rightarrow> 's"
    and inv :: "'s \<Rightarrow> bool"
  assumes get_put: "inv s \<Longrightarrow> length p = 32 \<Longrightarrow>
      get (put h p s) h' = (if h' = h then Some p else get s h')"
    and inv_put: "inv s \<Longrightarrow> length p = 32 \<Longrightarrow> inv (put h p s)"
begin

text \<open>One handshake: what it may do to the store, and what an acceptance means.\<close>

lemma verify_step:
  assumes "inv st" and "\<forall>c p. k c = Inr p \<longrightarrow> length p = 32"
    and "verify_server_cert w k get put c h st = (r, st')"
  shows "inv st' \<and> (\<forall>g q. get st g = Some q \<longrightarrow> get st' g = Some q) \<and>
           (r = Inr () \<longrightarrow> w c h = Inr () \<or> (\<exists>p. k c = Inr p \<and> get st' h = Some p)) \<and>
           (r \<noteq> Inr () \<longrightarrow> st' = st)"
  using assms
  by (auto simp: verify_server_cert_def get_put inv_put split: sum.splits option.splits if_splits)

lemma handshakes_step:
  assumes "inv st" and "\<forall>c p. k c = Inr p \<longrightarrow> length p = 32"
    and "handshakes w k get put xs st = (rs, st')"
  shows "inv st' \<and> (\<forall>g q. get st g = Some q \<longrightarrow> get st' g = Some q) \<and>
           (\<forall>c h. (c, h, Inr ()) \<in> set rs \<longrightarrow>
              w c h = Inr () \<or> (\<exists>p. k c = Inr p \<and> get st' h = Some p))"
  using assms(1,3)
proof (induction xs arbitrary: st rs)
  case (Cons x xs)
  obtain c h where x: "x = (c, h)" by (cases x)
  obtain r st1 where v: "verify_server_cert w k get put c h st = (r, st1)"
    by (cases "verify_server_cert w k get put c h st")
  obtain rs' st2 where t: "handshakes w k get put xs st1 = (rs', st2)"
    by (cases "handshakes w k get put xs st1")
  have eq: "rs = (c, h, r) # rs'" "st' = st2" using Cons.prems(2) by (auto simp: x v t)
  have one: "inv st1 \<and> (\<forall>g q. get st g = Some q \<longrightarrow> get st1 g = Some q) \<and>
           (r = Inr () \<longrightarrow> w c h = Inr () \<or> (\<exists>p. k c = Inr p \<and> get st1 h = Some p))"
    using verify_step [OF Cons.prems(1) assms(2) v] by blast
  from Cons.IH [of st1 rs'] t one have rest: "inv st2 \<and>
      (\<forall>g q. get st1 g = Some q \<longrightarrow> get st2 g = Some q) \<and>
      (\<forall>c h. (c, h, Inr ()) \<in> set rs' \<longrightarrow>
         w c h = Inr () \<or> (\<exists>p. k c = Inr p \<and> get st2 h = Some p))"
    by (simp add: eq(2))
  show ?case unfolding eq using one rest by (auto simp: x)
qed simp

end

section \<open>The file-backed store\<close>

record file_pin_store =
  fps_pins :: "string \<Rightarrow> string option"
  fps_poisoned :: bool
  fps_disk :: "(string \<Rightarrow> string option) option"

text \<open>\<open>new\<close>: an unreadable or unparseable file is an empty map.\<close>

definition file_pins_new :: "(string \<Rightarrow> string option) option \<Rightarrow> file_pin_store" where
  "file_pins_new disk =
     \<lparr>fps_pins = (case disk of None \<Rightarrow> Map.empty | Some m \<Rightarrow> m), fps_poisoned = False,
      fps_disk = disk\<rparr>"

definition decode_pin :: "(string \<Rightarrow> string option) \<Rightarrow> string \<Rightarrow> pin option" where
  "decode_pin hex_decode hex =
     (case hex_decode hex of
        None \<Rightarrow> None
      | Some bytes \<Rightarrow> if length bytes = 32 then Some bytes else None)"

definition file_pins_get ::
  "(string \<Rightarrow> string option) \<Rightarrow> file_pin_store \<Rightarrow> string \<Rightarrow> pin option" where
  "file_pins_get hex_decode st host =
     (if fps_poisoned st then None
      else case fps_pins st host of None \<Rightarrow> None | Some hex \<Rightarrow> decode_pin hex_decode hex)"

definition file_pins_persist :: "(string \<Rightarrow> string option) \<Rightarrow> file_pin_store \<Rightarrow> file_pin_store" where
  "file_pins_persist pins st = st\<lparr>fps_disk := Some pins\<rparr>"

definition file_pins_put ::
  "(pin \<Rightarrow> string) \<Rightarrow> string \<Rightarrow> pin \<Rightarrow> file_pin_store \<Rightarrow> file_pin_store" where
  "file_pins_put hex_encode host p st =
     (if fps_poisoned st then st
      else
        let st = st\<lparr>fps_pins := (fps_pins st)(host \<mapsto> hex_encode p)\<rparr>;
            snapshot = fps_pins st
        in file_pins_persist snapshot st)"

text \<open>The lock is healthy and the file mirrors the map.\<close>

definition file_pins_inv :: "file_pin_store \<Rightarrow> bool" where
  "file_pins_inv st \<longleftrightarrow> \<not> fps_poisoned st \<and> (fps_disk st = None \<longrightarrow> fps_pins st = Map.empty)
     \<and> (\<forall>m. fps_disk st = Some m \<longrightarrow> m = fps_pins st)"

lemma file_pins_inv_new [inv_intros]: "file_pins_inv (file_pins_new disk)"
  by (cases disk) (simp_all add: file_pins_inv_def file_pins_new_def)

lemma file_pin_store_laws:
  assumes "\<And>p. length p = 32 \<Longrightarrow> dec (enc p) = Some p"
  shows "pin_store (file_pins_get dec) (file_pins_put enc) file_pins_inv"
  by unfold_locales
    (auto simp: file_pins_get_def file_pins_put_def file_pins_persist_def file_pins_inv_def
      decode_pin_def assms Let_def)

section \<open>Base 16\<close>

text \<open>The codec the store is run with: two lower-case digits for each byte.\<close>

definition hex_digit :: "nat \<Rightarrow> char" where
  "hex_digit n = (if n < 10 then char_of (48 + n) else char_of (87 + n))"

definition hex_value :: "char \<Rightarrow> nat option" where
  "hex_value c = (let n = (of_char c :: nat) in
     if 48 \<le> n \<and> n \<le> 57 then Some (n - 48)
     else if 97 \<le> n \<and> n \<le> 102 then Some (n - 87)
     else if 65 \<le> n \<and> n \<le> 70 then Some (n - 55)
     else None)"

fun hex_encode :: "string \<Rightarrow> string" where
  "hex_encode [] = []"
| "hex_encode (c # cs) =
     (let n = (of_char c :: nat) in hex_digit (n div 16) # hex_digit (n mod 16) # hex_encode cs)"

fun hex_decode :: "string \<Rightarrow> string option" where
  "hex_decode [] = Some []"
| "hex_decode [_] = None"
| "hex_decode (a # b # cs) =
     (case (hex_value a, hex_value b, hex_decode cs) of
        (Some h, Some l, Some bs) \<Rightarrow> Some (char_of (h * 16 + l) # bs)
      | _ \<Rightarrow> None)"

lemma hex_value_digit: "n < 16 \<Longrightarrow> hex_value (hex_digit n) = Some n"
  by (auto simp: hex_value_def hex_digit_def Let_def)

lemma hex_decode_encode: "hex_decode (hex_encode s) = Some s"
proof (induction s)
  case (Cons c cs)
  have "(of_char c :: nat) < 256" by simp
  then have "of_char c div 16 < (16 :: nat)" by (intro less_mult_imp_div_less) simp
  moreover have "of_char c mod 16 < (16 :: nat)" by simp
  ultimately show ?case using Cons.IH by (simp add: Let_def hex_value_digit)
qed simp

interpretation file_pins: pin_store "file_pins_get hex_decode" "file_pins_put hex_encode" file_pins_inv
  by (rule file_pin_store_laws) (rule hex_decode_encode)

section \<open>Properties\<close>

text \<open>
  C28. Trust on first use holds for good: once a host has a pinned key, no sequence of
  handshakes, with any hosts and any certificates, changes it; and every handshake that is
  accepted had a valid web PKI chain or presented exactly the key that is pinned for its
  host afterwards. A changed key is never accepted and never recorded.
\<close>

theorem pinned_key_is_final:
  assumes "file_pins_inv st" and "\<forall>c p. spki c = Inr p \<longrightarrow> length p = 32"
    and "handshakes webpki spki (file_pins_get hex_decode) (file_pins_put hex_encode) xs st = (rs, st')"
  shows "(\<forall>h p. file_pins_get hex_decode st h = Some p \<longrightarrow> file_pins_get hex_decode st' h = Some p)
         \<and> (\<forall>c h. (c, h, Inr ()) \<in> set rs \<longrightarrow>
              webpki c h = Inr () \<or>
              (\<exists>p. spki c = Inr p \<and> file_pins_get hex_decode st' h = Some p))
         \<and> file_pins_inv st'"
  using file_pins.handshakes_step [OF assms] by blast

definition sample_spki :: "nat \<Rightarrow> (tls_error, pin) result" where
  "sample_spki n = Inr (replicate 32 (char_of n))"

theorem pinned_key_is_final_witness:
  "let st = file_pins_new None;
       (rs, st') = handshakes (\<lambda>_ _. Inl (GeneralError ''name mismatch'')) sample_spki
         (file_pins_get hex_decode) (file_pins_put hex_encode)
         [(7, ''lan''), (9, ''lan''), (7, ''lan'')] st
   in map (\<lambda>(c, h, r). r) rs = [Inr (), Inl (KeyChanged ''lan''), Inr ()] \<and> file_pins_inv st'"
proof -
  let ?w = "\<lambda>(_ :: nat) (_ :: string). Inl (GeneralError ''name mismatch'')"
  let ?run = "handshakes ?w sample_spki (file_pins_get hex_decode) (file_pins_put hex_encode)
     [(7, ''lan''), (9, ''lan''), (7, ''lan'')] (file_pins_new None)"
  obtain rs st' where run: "?run = (rs, st')" by (cases ?run)
  have len: "\<forall>c p. sample_spki c = Inr p \<longrightarrow> length p = 32" by (auto simp: sample_spki_def)
  have inv: "file_pins_inv st'"
    using pinned_key_is_final [OF file_pins_inv_new len run] by blast
  have dec: "decode_pin hex_decode (hex_encode (replicate 32 (char_of n))) =
      Some (replicate 32 (char_of n))" for n :: nat
    by (simp add: decode_pin_def hex_decode_encode)
  have ne: "replicate 32 (CHR 0x07) \<noteq> replicate 32 (CHR 0x09)" by (simp add: replicate_eq_replicate)
  have "map (\<lambda>(c, h, r). r) (fst ?run) = [Inr (), Inl (KeyChanged ''lan''), Inr ()]"
    using ne dec [of 7]
    by (simp add: verify_server_cert_def sample_spki_def file_pins_get_def file_pins_put_def
        file_pins_persist_def file_pins_new_def Let_def replicate_eq_replicate)
  then show ?thesis using run inv by simp
qed

end
