(* ===== verification/FsScan.thy ===== *)
theory FsScan
  imports RemotePaths SyncTypes
begin

text \<open>
  Discovery of upload candidates on disk (\<open>collect_fs_candidates\<close> of
  crates/sarca-sync/src/candidate.rs and \<open>FsMediaSource\<close> of media_source.rs). A path is the
  list of its components. The operating system and the directory walker are third-party:
  one record holds the answers they give during a scan, every call fallible, and the walk
  is the sequence of entries (or errors) the walker yields.
\<close>

type_synonym fs_path = "string list"

datatype file_kind = RegularFile | Directory | Symlink

record walk_entry =
  we_path :: fs_path
  we_kind :: file_kind

record file_meta =
  fm_len :: int
  fm_modified :: "int option"    \<comment> \<open>milliseconds; \<open>None\<close> where the platform has no time\<close>

record fs_view =
  fs_exists :: "fs_path \<Rightarrow> bool"
  fs_create_dir_all :: "fs_path \<Rightarrow> (string, unit) result"
  fs_canonicalize :: "fs_path \<Rightarrow> (string, fs_path) result"
  fs_is_file :: "fs_path \<Rightarrow> bool"
  fs_metadata :: "fs_path \<Rightarrow> (string, file_meta) result"
  fs_walk :: "fs_path \<Rightarrow> (string, walk_entry) result list"

record local_candidate =
  lc_relative_path :: string
  lc_absolute_path :: string
  lc_size :: int
  lc_mtime_ms :: int
  lc_ephemeral :: bool
  lc_source_uri :: "string option"

definition render_path :: "fs_path \<Rightarrow> string" where
  "render_path p = CHR ''/'' # join_with (CHR ''/'') p"

text \<open>\<open>Path::strip_prefix\<close> and \<open>Path::starts_with\<close> compare whole components.\<close>

fun path_strip_prefix :: "fs_path \<Rightarrow> fs_path \<Rightarrow> fs_path option" where
  "path_strip_prefix [] p = Some p"
| "path_strip_prefix (r # rs) [] = None"
| "path_strip_prefix (r # rs) (c # cs) = (if r = c then path_strip_prefix rs cs else None)"

definition path_starts_with :: "fs_path \<Rightarrow> fs_path \<Rightarrow> bool" where
  "path_starts_with p root \<longleftrightarrow> path_strip_prefix root p \<noteq> None"

definition slashes :: "string \<Rightarrow> string" where
  "slashes s = map (\<lambda>c. if c = CHR 0x5C then CHR ''/'' else c) s"

section \<open>The scan\<close>

text \<open>Whether an entry counts as a file, and the error it adds to the count.\<close>

definition entry_is_file :: "fs_view \<Rightarrow> fs_path option \<Rightarrow> walk_entry \<Rightarrow> bool \<times> nat" where
  "entry_is_file fs real_root e =
     (if we_kind e = Symlink then
        (case fs_canonicalize fs (we_path e) of
           Inr target \<Rightarrow>
             (case real_root of
                Some r \<Rightarrow> if path_starts_with target r then (fs_is_file fs target, 0)
                          else (False, 0)
              | None \<Rightarrow> (False, 0))
         | Inl _ \<Rightarrow> (False, 1))
      else (we_kind e = RegularFile, 0))"

text \<open>One turn of the loop: the candidate the entry gives, and the errors it adds.\<close>

definition scan_entry ::
  "fs_view \<Rightarrow> fs_path \<Rightarrow> fs_path option \<Rightarrow> bool \<Rightarrow> (string, walk_entry) result \<Rightarrow>
   local_candidate option \<times> nat" where
  "scan_entry fs root real_root media_only entry =
     (case entry of
        Inl _ \<Rightarrow> (None, 1)
      | Inr e \<Rightarrow>
          let path = we_path e;
              (is_file, errs) = entry_is_file fs real_root e
          in if \<not> is_file then (None, errs)
             else if media_only \<and> \<not> is_media_file (if path = [] then [] else last path) then (None, errs)
             else
               (case path_strip_prefix root path of
                  None \<Rightarrow> (None, errs)
                | Some rel_os \<Rightarrow>
                    let rel = slashes (join_with (CHR ''/'') rel_os)
                    in if rel = [] then (None, errs)
                       else
                         (case fs_metadata fs path of
                            Inl _ \<Rightarrow> (None, errs + 1)
                          | Inr m \<Rightarrow>
                              (Some \<lparr>lc_relative_path = rel, lc_absolute_path = render_path path,
                                 lc_size = fm_len m,
                                 lc_mtime_ms = (case fm_modified m of None \<Rightarrow> 0 | Some t \<Rightarrow> t),
                                 lc_ephemeral = False, lc_source_uri = None\<rparr>, errs))))"

fun scan_entries ::
  "fs_view \<Rightarrow> fs_path \<Rightarrow> fs_path option \<Rightarrow> bool \<Rightarrow> (string, walk_entry) result list \<Rightarrow>
   local_candidate list \<Rightarrow> nat \<Rightarrow> local_candidate list \<times> nat" where
  "scan_entries fs root rr mo [] out errs = (out, errs)"
| "scan_entries fs root rr mo (e # es) out errs =
     (let (c, n) = scan_entry fs root rr mo e
      in scan_entries fs root rr mo es
           (case c of None \<Rightarrow> out | Some c \<Rightarrow> out @ [c]) (errs + n))"

datatype scan_error =
    RecreateFailed string     \<comment> \<open>recreate local folder\<close>
  | WalkFailed nat            \<comment> \<open>failed to walk: this many errors, 0 files found\<close>

definition collect_fs_candidates ::
  "fs_view \<Rightarrow> fs_path \<Rightarrow> bool \<Rightarrow> (scan_error, local_candidate list) result" where
  "collect_fs_candidates fs root media_only =
     res_bind (if fs_exists fs root then Inr ()
               else case fs_create_dir_all fs root of Inl e \<Rightarrow> Inl (RecreateFailed e) | Inr _ \<Rightarrow> Inr ())
       (\<lambda>_.
          let real_root = res_ok (fs_canonicalize fs root);
              (out, walk_errors) = scan_entries fs root real_root media_only (fs_walk fs root) [] 0
          in if out = [] \<and> 0 < walk_errors then Inl (WalkFailed walk_errors) else Inr out)"

text \<open>\<open>FsMediaSource::list_candidates\<close>, and the default \<open>materialize\<close>.\<close>

definition fs_list_candidates ::
  "fs_view \<Rightarrow> (string \<Rightarrow> fs_path) \<Rightarrow> binding \<Rightarrow> (scan_error, local_candidate list) result" where
  "fs_list_candidates fs to_path b =
     collect_fs_candidates fs (to_path (b_local_path b)) (b_mode b = AutoUpload)"

definition materialize_default :: "local_candidate \<Rightarrow> string \<times> bool" where
  "materialize_default c = (lc_absolute_path c, lc_ephemeral c)"

section \<open>What a scan returns\<close>

lemma path_strip_prefix_Some: "path_strip_prefix root p = Some rel \<longleftrightarrow> p = root @ rel"
  by (induction root p rule: path_strip_prefix.induct) auto

lemma path_starts_with_iff: "path_starts_with p root \<longleftrightarrow> (\<exists>rel. p = root @ rel)"
  unfolding path_starts_with_def by (metis option.exhaust option.distinct(1) path_strip_prefix_Some)

text \<open>The loop with its accumulators is a filter of the walk and a sum of the errors.\<close>

lemma scan_entries_eq:
  "scan_entries fs root rr mo es out n =
     (out @ List.map_filter (fst \<circ> scan_entry fs root rr mo) es,
      n + sum_list (map (snd \<circ> scan_entry fs root rr mo) es))"
  by (induction es arbitrary: out n)
    (auto simp: List.map_filter_simps split: prod.splits option.splits)

text \<open>When an entry may be uploaded at all.\<close>

definition uploadable :: "fs_view \<Rightarrow> fs_path \<Rightarrow> walk_entry \<Rightarrow> bool" where
  "uploadable fs root e \<longleftrightarrow>
     (we_kind e = RegularFile \<or>
      (we_kind e = Symlink \<and>
       (\<exists>r rel. fs_canonicalize fs root = Inr r \<and> fs_canonicalize fs (we_path e) = Inr (r @ rel) \<and>
                fs_is_file fs (r @ rel))))"

lemma entry_is_file_iff:
  "fst (entry_is_file fs (res_ok (fs_canonicalize fs root)) e) \<longleftrightarrow> uploadable fs root e"
  by (cases "we_kind e"; cases "fs_canonicalize fs root"; cases "fs_canonicalize fs (we_path e)")
    (auto simp: entry_is_file_def uploadable_def path_starts_with_iff)

lemma scan_entry_SomeD:
  assumes "fst (scan_entry fs root (res_ok (fs_canonicalize fs root)) mo x) = Some c"
  obtains e rel m where "x = Inr e" "uploadable fs root e" "we_path e = root @ rel"
    "mo \<longrightarrow> is_media_file (if we_path e = [] then [] else last (we_path e))"
    "fs_metadata fs (we_path e) = Inr m" "lc_size c = fm_len m"
    "lc_relative_path c = slashes (join_with (CHR ''/'') rel)" "lc_relative_path c \<noteq> []"
    "lc_absolute_path c = render_path (root @ rel)" "\<not> lc_ephemeral c"
proof -
  from assms obtain e where x: "x = Inr e"
    by (cases x) (auto simp: scan_entry_def)
  let ?p = "entry_is_file fs (res_ok (fs_canonicalize fs root)) e"
  have f: "fst ?p" and mo: "mo \<longrightarrow> is_media_file (if we_path e = [] then [] else last (we_path e))"
    using assms by (auto simp: x scan_entry_def Let_def split: prod.splits if_splits)
  from assms f mo obtain rel where rel: "path_strip_prefix root (we_path e) = Some rel"
    by (cases "path_strip_prefix root (we_path e)")
      (auto simp: x scan_entry_def Let_def split: prod.splits if_splits)
  from assms f mo rel obtain m where m: "fs_metadata fs (we_path e) = Inr m"
    by (cases "fs_metadata fs (we_path e)")
      (auto simp: x scan_entry_def Let_def split: prod.splits if_splits)
  from assms f mo rel m have
    "slashes (join_with (CHR ''/'') rel) \<noteq> []"
    "c = \<lparr>lc_relative_path = slashes (join_with (CHR ''/'') rel), lc_absolute_path = render_path (we_path e),
       lc_size = fm_len m, lc_mtime_ms = (case fm_modified m of None \<Rightarrow> 0 | Some t \<Rightarrow> t),
       lc_ephemeral = False, lc_source_uri = None\<rparr>"
    by (auto simp: x scan_entry_def Let_def split: prod.splits if_splits)
  with that [OF x _ _ mo m] f rel show thesis
    by (simp add: entry_is_file_iff path_strip_prefix_Some)
qed

text \<open>
  The scan never leaves the binding root: every candidate it returns is an entry of the
  walk under the root with a non-empty relative path, its size is the one the system
  reported, and the entry is a regular file or a symbolic link whose resolved target is a
  file inside the resolved root. An escaping link, and any link under a root that does not
  resolve, is never offered for upload; a media-only scan offers media files only.
\<close>

theorem scan_confined_to_root:
  assumes "collect_fs_candidates fs root media_only = Inr out" and "c \<in> set out"
  shows "\<exists>e rel m. Inr e \<in> set (fs_walk fs root) \<and> uploadable fs root e \<and> we_path e = root @ rel \<and>
           (media_only \<longrightarrow> is_media_file (if we_path e = [] then [] else last (we_path e))) \<and>
           fs_metadata fs (root @ rel) = Inr m \<and> lc_size c = fm_len m \<and>
           lc_relative_path c = slashes (join_with (CHR ''/'') rel) \<and> lc_relative_path c \<noteq> [] \<and>
           lc_absolute_path c = render_path (root @ rel)"
proof -
  let ?f = "scan_entry fs root (res_ok (fs_canonicalize fs root)) media_only"
  have "out = List.map_filter (fst \<circ> ?f) (fs_walk fs root)"
    using assms(1)
    by (auto simp: collect_fs_candidates_def scan_entries_eq res_bind_def Let_def split: sum.splits if_splits)
  with assms(2) obtain x where "x \<in> set (fs_walk fs root)" "fst (?f x) = Some c"
    by (auto simp: List.map_filter_def)
  then show ?thesis by (elim scan_entry_SomeD) metis
qed

definition sample_fs :: fs_view where
  "sample_fs = \<lparr>fs_exists = (\<lambda>_. True), fs_create_dir_all = (\<lambda>_. Inr ()),
     fs_canonicalize = (\<lambda>p. if p = [''r'', ''evil''] then Inr [''ssh'', ''key'']
                             else if p = [''r'', ''good''] then Inr [''r'', ''a.jpg''] else Inr p),
     fs_is_file = (\<lambda>_. True),
     fs_metadata = (\<lambda>_. Inr \<lparr>fm_len = 5, fm_modified = None\<rparr>),
     fs_walk = (\<lambda>r. [Inr \<lparr>we_path = r, we_kind = Directory\<rparr>, Inl ''denied'',
        Inr \<lparr>we_path = r @ [''evil''], we_kind = Symlink\<rparr>,
        Inr \<lparr>we_path = r @ [''good''], we_kind = Symlink\<rparr>,
        Inr \<lparr>we_path = r @ [''a.jpg''], we_kind = RegularFile\<rparr>])\<rparr>"

lemma sample_scan:
  "collect_fs_candidates sample_fs [''r''] False =
     Inr (map (\<lambda>n. \<lparr>lc_relative_path = n, lc_absolute_path = ''/r/'' @ n, lc_size = 5,
        lc_mtime_ms = 0, lc_ephemeral = False, lc_source_uri = None\<rparr>) [''good'', ''a.jpg''])"
  by code_simp

theorem scan_confined_to_root_witness:
  "\<exists>e rel. Inr e \<in> set (fs_walk sample_fs [''r'']) \<and> uploadable sample_fs [''r''] e \<and>
     we_path e = [''r''] @ rel \<and> slashes (join_with (CHR ''/'') rel) = ''good''"
proof -
  let ?c = "\<lparr>lc_relative_path = ''good'', lc_absolute_path = ''/r/good'', lc_size = 5,
        lc_mtime_ms = 0, lc_ephemeral = False, lc_source_uri = None\<rparr>"
  have "?c \<in> set (map (\<lambda>n. \<lparr>lc_relative_path = n, lc_absolute_path = ''/r/'' @ n, lc_size = 5,
        lc_mtime_ms = 0, lc_ephemeral = False, lc_source_uri = None\<rparr>) [''good'', ''a.jpg''])" by simp
  from scan_confined_to_root [OF sample_scan this] show ?thesis by auto
qed

text \<open>
  One bad entry never costs the others: after the root is there, the result is the
  candidates of the readable entries in walk order, whatever errors lie between them, and
  the scan as a whole fails exactly when it found no file and met at least one error.
\<close>

theorem scan_skips_bad_entries:
  assumes "fs_exists fs root \<or> fs_create_dir_all fs root = Inr ()"
  shows "let f = scan_entry fs root (res_ok (fs_canonicalize fs root)) media_only;
             found = List.map_filter (fst \<circ> f) (fs_walk fs root);
             errs = sum_list (map (snd \<circ> f) (fs_walk fs root))
         in collect_fs_candidates fs root media_only =
              (if found = [] \<and> 0 < errs then Inl (WalkFailed errs) else Inr found)"
  using assms
  by (auto simp: collect_fs_candidates_def scan_entries_eq Let_def)

theorem scan_skips_bad_entries_witness:
  "collect_fs_candidates (sample_fs\<lparr>fs_walk := (\<lambda>_. [Inl ''denied''])\<rparr>) [''r''] True =
     Inl (WalkFailed 1)"
  using scan_skips_bad_entries [of "sample_fs\<lparr>fs_walk := (\<lambda>_. [Inl ''denied''])\<rparr>" "[''r'']" True]
  by (simp add: sample_fs_def scan_entry_def List.map_filter_simps)

end
