(* ===== verification/UploadProtocol.thy ===== *)
theory UploadProtocol
  imports RustStr
begin

text \<open>
  The upload protocol of the client (crates/sarca-sync/src/api.rs): error values and what
  they say about the next file (\<open>failure_scope\<close>), the NDJSON progress stream a server answers
  an upload with (\<open>drain_upload_progress\<close>), the watchdog on the request body
  (\<open>upload_stalled\<close>, \<open>send_upload\<close>), and the upload call with its HTTP/3 fallback.
  The HTTP client and the JSON parser are third-party: the first is the sequence of timed
  events it delivers, the second a function argument. Times are milliseconds, and the code
  between two events takes none. Bodies are byte lists.
\<close>

section \<open>Errors and what they implicate\<close>

record reqwest_error =
  re_timeout :: bool
  re_connect :: bool
  re_request :: bool
  re_status :: "nat option"

text \<open>The links of an \<open>anyhow\<close> chain, outermost first; \<open>Context\<close> is an added message.\<close>

datatype cause =
    Context string
  | ServerBusy
  | HttpStatusError nat string
  | Reqwest reqwest_error
  | UploadStalled nat
  | TransferReadStalled nat
  | TransferTruncated
  | TransferTimedOut string
  | OtherCause string

type_synonym api_error = "cause list"

datatype fail_scope = FileScope | LinkScope | BusyScope

definition scope_for_status :: "nat \<Rightarrow> fail_scope" where
  "scope_for_status status =
     (if status = 401 \<or> status = 403 then LinkScope
      else if status = 408 \<or> status = 425 \<or> status = 429 then LinkScope
      else if 500 \<le> status then LinkScope
      else FileScope)"

fun failure_scope :: "api_error \<Rightarrow> fail_scope" where
  "failure_scope [] = FileScope"
| "failure_scope (cause # rest) =
     (case cause of
        ServerBusy \<Rightarrow> BusyScope
      | TransferReadStalled _ \<Rightarrow> LinkScope
      | TransferTruncated \<Rightarrow> LinkScope
      | HttpStatusError status _ \<Rightarrow> scope_for_status status
      | Reqwest e \<Rightarrow>
          (case re_status e of Some status \<Rightarrow> scope_for_status status | None \<Rightarrow> LinkScope)
      | UploadStalled _ \<Rightarrow> LinkScope
      | TransferTimedOut _ \<Rightarrow> LinkScope
      | Context _ \<Rightarrow> failure_scope rest
      | OtherCause _ \<Rightarrow> failure_scope rest)"

definition describe_transfer_error :: "string \<Rightarrow> reqwest_error \<Rightarrow> api_error" where
  "describe_transfer_error action err =
     (if re_timeout err then [TransferTimedOut action]
      else [Context (action @ '' failed''), Reqwest err])"

section \<open>Budgets\<close>

definition read_idle_timeout :: nat where "read_idle_timeout = 45 * 1000"
definition upload_stall_timeout :: nat where "upload_stall_timeout = 120 * 1000"
definition upload_stall_poll :: nat where "upload_stall_poll = 5 * 1000"
definition relay_confirm_grace :: nat where "relay_confirm_grace = 90 * 1000"
definition transfer_min_timeout :: nat where "transfer_min_timeout = 10 * 60"
definition transfer_max_timeout :: nat where "transfer_max_timeout = 6 * 60 * 60"
definition transfer_min_bytes_per_sec :: nat where "transfer_min_bytes_per_sec = 32 * 1024"

text \<open>Seconds for a transfer of so many bytes; \<open>clamp\<close> is Rust's \<open>Ord::clamp\<close>.\<close>

definition transfer_timeout :: "nat \<Rightarrow> nat" where
  "transfer_timeout bytes =
     (let by_size = bytes div transfer_min_bytes_per_sec
      in if by_size < transfer_min_timeout then transfer_min_timeout
         else if transfer_max_timeout < by_size then transfer_max_timeout
         else by_size)"

section \<open>NDJSON lines\<close>

datatype json =
    JNull
  | JBool bool
  | JNum string
  | JStr string
  | JArr "json list"
  | JObj "(string \<times> json) list"

definition json_get_str :: "json \<Rightarrow> string \<Rightarrow> string option" where
  "json_get_str v key =
     (case v of
        JObj kvs \<Rightarrow> (case map_of kvs key of Some (JStr s) \<Rightarrow> Some s | _ \<Rightarrow> None)
      | _ \<Rightarrow> None)"

text \<open>\<open>str::from_utf8\<close>: the well-formed byte sequences (surrogates and overlong forms are not).\<close>

abbreviation byte_in :: "nat \<Rightarrow> nat \<Rightarrow> char \<Rightarrow> bool" where
  "byte_in lo hi c \<equiv> lo \<le> (of_char c :: nat) \<and> (of_char c :: nat) \<le> hi"

fun utf8_valid :: "string \<Rightarrow> bool" where
  "utf8_valid [] = True"
| "utf8_valid (a # rest) =
     (if byte_in 0 0x7F a then utf8_valid rest
      else if byte_in 0xC2 0xDF a then
        (case rest of b # r \<Rightarrow> byte_in 0x80 0xBF b \<and> utf8_valid r | _ \<Rightarrow> False)
      else if byte_in 0xE0 0xEF a then
        (case rest of
           b # c # r \<Rightarrow>
             byte_in (if byte_in 0xE0 0xE0 a then 0xA0 else 0x80)
                     (if byte_in 0xED 0xED a then 0x9F else 0xBF) b \<and>
             byte_in 0x80 0xBF c \<and> utf8_valid r
         | _ \<Rightarrow> False)
      else if byte_in 0xF0 0xF4 a then
        (case rest of
           b # c # d # r \<Rightarrow>
             byte_in (if byte_in 0xF0 0xF0 a then 0x90 else 0x80)
                     (if byte_in 0xF4 0xF4 a then 0x8F else 0xBF) b \<and>
             byte_in 0x80 0xBF c \<and> byte_in 0x80 0xBF d \<and> utf8_valid r
         | _ \<Rightarrow> False)
      else False)"

definition ndjson_phase_is :: "(string \<Rightarrow> json option) \<Rightarrow> string \<Rightarrow> string \<Rightarrow> bool" where
  "ndjson_phase_is parse line phase =
     (if utf8_valid line then
        (case parse (trim line) of
           Some ev \<Rightarrow> (case json_get_str ev ''phase'' of Some p \<Rightarrow> p = phase | None \<Rightarrow> False)
         | None \<Rightarrow> False)
      else False)"

fun ndjson_error_lines :: "(string \<Rightarrow> json option) \<Rightarrow> string list \<Rightarrow> string option" where
  "ndjson_error_lines parse [] = None"
| "ndjson_error_lines parse (line # rest) =
     (if \<not> utf8_valid line then ndjson_error_lines parse rest
      else let line = trim line in
        if line = [] then ndjson_error_lines parse rest
        else
          (case parse line of
             None \<Rightarrow> ndjson_error_lines parse rest
           | Some ev \<Rightarrow>
               if json_get_str ev ''phase'' = Some ''error''
               then Some (case json_get_str ev ''message'' of Some m \<Rightarrow> m | None \<Rightarrow> ''Upload failed'')
               else ndjson_error_lines parse rest))"

definition ndjson_error_message :: "(string \<Rightarrow> json option) \<Rightarrow> string \<Rightarrow> string option" where
  "ndjson_error_message parse body = ndjson_error_lines parse (split_on (CHR 0x0A) body)"

section \<open>The progress stream\<close>

datatype upload_outcome = Stored | HandedOff

datatype body_event = Chunk string | BodyError reqwest_error | EndOfBody

record drain_state =
  dr_pending :: string
  dr_failure :: "string option"
  dr_spooled_at :: "nat option"
  dr_done :: bool

definition drain_start :: drain_state where
  "drain_start = \<lparr>dr_pending = [], dr_failure = None, dr_spooled_at = None, dr_done = False\<rparr>"

text \<open>\<open>pending.drain(..=nl)\<close> up to and with the first newline.\<close>

fun take_line :: "string \<Rightarrow> (string \<times> string) option" where
  "take_line [] = None"
| "take_line (c # cs) =
     (if c = CHR 0x0A then Some ([c], cs)
      else map_option (\<lambda>(l, r). (c # l, r)) (take_line cs))"

lemma take_line_shorter: "take_line s = Some (l, r) \<Longrightarrow> length r < length s"
  by (induction s arbitrary: l) (auto split: if_splits)

definition drain_line :: "(string \<Rightarrow> json option) \<Rightarrow> nat \<Rightarrow> string \<Rightarrow> drain_state \<Rightarrow> drain_state" where
  "drain_line parse now line st =
     (let st = (if dr_failure st = None then st\<lparr>dr_failure := ndjson_error_message parse line\<rparr> else st);
          st = (if dr_spooled_at st = None \<and> ndjson_phase_is parse line ''spooled''
                then st\<lparr>dr_spooled_at := Some now\<rparr> else st)
      in if ndjson_phase_is parse line ''done'' then st\<lparr>dr_done := True\<rparr> else st)"

lemma drain_line_pending [simp]: "dr_pending (drain_line parse now line st) = dr_pending st"
  by (simp add: drain_line_def Let_def)

text \<open>The inner \<open>while let\<close>; \<open>True\<close> is its early return for \<open>in_progress\<close>.\<close>

function drain_lines :: "(string \<Rightarrow> json option) \<Rightarrow> nat \<Rightarrow> drain_state \<Rightarrow> bool \<times> drain_state" where
  "drain_lines parse now st =
     (case take_line (dr_pending st) of
        None \<Rightarrow> (False, st)
      | Some (line, rest) \<Rightarrow>
          let st = st\<lparr>dr_pending := rest\<rparr>
          in if ndjson_phase_is parse line ''in_progress'' then (True, st)
             else drain_lines parse now (drain_line parse now line st))"
  by auto
termination
  by (relation "measure (\<lambda>(_, _, st). length (dr_pending st))") (auto dest: take_line_shorter)

declare drain_lines.simps [simp del]

text \<open>What follows the loop once the body has ended.\<close>

definition drain_verdict :: "(string \<Rightarrow> json option) \<Rightarrow> drain_state \<Rightarrow> (api_error, upload_outcome) result" where
  "drain_verdict parse st =
     (let failure = (if dr_failure st = None then ndjson_error_message parse (dr_pending st)
                     else dr_failure st);
          done_seen = (dr_done st \<or>
             (dr_pending st \<noteq> [] \<and> ndjson_phase_is parse (dr_pending st) ''done''))
      in case failure of
           Some msg \<Rightarrow> Inl [OtherCause (''upload failed: '' @ msg)]
         | None \<Rightarrow>
             if done_seen then Inr Stored
             else if dr_spooled_at st \<noteq> None then Inr HandedOff
             else Inl [TransferTruncated])"

text \<open>
  The outer loop. The stream is the list of what it yields, each with the time after the
  previous one; a stream that is exhausted without an end stays silent for ever. The second
  component of the answer is the time of the return.
\<close>

definition drain_wait :: "nat \<Rightarrow> nat \<Rightarrow> drain_state \<Rightarrow> nat" where
  "drain_wait grace now st =
     (case dr_spooled_at st of
        None \<Rightarrow> read_idle_timeout
      | Some at \<Rightarrow> min read_idle_timeout (grace - (now - at)))"

definition drain_timeout :: "nat \<Rightarrow> nat \<Rightarrow> drain_state \<Rightarrow> (api_error, upload_outcome) result" where
  "drain_timeout grace now st =
     (case dr_spooled_at st of
        Some at \<Rightarrow> if grace \<le> now - at then Inr HandedOff
                   else Inl [TransferReadStalled read_idle_timeout]
      | None \<Rightarrow> Inl [TransferReadStalled read_idle_timeout])"

fun drain_loop ::
  "(string \<Rightarrow> json option) \<Rightarrow> nat \<Rightarrow> nat \<Rightarrow> drain_state \<Rightarrow> (nat \<times> body_event) list \<Rightarrow>
   (api_error, upload_outcome) result \<times> nat" where
  "drain_loop parse grace now st [] =
     (if (case dr_spooled_at st of Some at \<Rightarrow> grace - (now - at) = 0 | None \<Rightarrow> False)
      then (Inr HandedOff, now)
      else let t = now + drain_wait grace now st in (drain_timeout grace t st, t))"
| "drain_loop parse grace now st ((d, ev) # evs) =
     (if (case dr_spooled_at st of Some at \<Rightarrow> grace - (now - at) = 0 | None \<Rightarrow> False)
      then (Inr HandedOff, now)
      else if drain_wait grace now st < d
      then let t = now + drain_wait grace now st in (drain_timeout grace t st, t)
      else
        let now = now + d
        in case ev of
             BodyError e \<Rightarrow> (Inl (describe_transfer_error ''upload'' e), now)
           | EndOfBody \<Rightarrow> (drain_verdict parse st, now)
           | Chunk bytes \<Rightarrow>
               (let (in_progress, st) =
                      drain_lines parse now (st\<lparr>dr_pending := dr_pending st @ bytes\<rparr>)
                in if in_progress then (Inr HandedOff, now)
                   else drain_loop parse grace now st evs))"

definition drain_upload_progress ::
  "(string \<Rightarrow> json option) \<Rightarrow> nat \<Rightarrow> (nat \<times> body_event) list \<Rightarrow>
   (api_error, upload_outcome) result \<times> nat" where
  "drain_upload_progress parse grace evs = drain_loop parse grace 0 drain_start evs"

section \<open>What the stream's answer means\<close>

text \<open>The lines of a body, each with its newline, and the unfinished tail.\<close>

function cut_lines :: "string \<Rightarrow> string list \<times> string" where
  "cut_lines s =
     (case take_line s of
        None \<Rightarrow> ([], s)
      | Some (l, r) \<Rightarrow> let (ls, t) = cut_lines r in (l # ls, t))"
  by auto
termination by (relation "measure length") (auto dest: take_line_shorter)

declare cut_lines.simps [simp del]

lemma take_line_append: "take_line a = Some (l, r) \<Longrightarrow> take_line (a @ b) = Some (l, r @ b)"
  by (induction a arbitrary: l) (auto split: if_splits)

lemma cut_lines_append:
  "cut_lines (a @ b) =
     (let (ls, t) = cut_lines a; (ls', t') = cut_lines (t @ b) in (ls @ ls', t'))"
proof (induction a rule: cut_lines.induct)
  case (1 s)
  show ?case
  proof (cases "take_line s")
    case None
    then show ?thesis by (simp add: cut_lines.simps [of s])
  next
    case (Some p)
    obtain l r where p: "p = (l, r)" by (cases p)
    obtain ls t where r: "cut_lines r = (ls, t)" by (cases "cut_lines r")
    obtain ls' t' where tb: "cut_lines (t @ b) = (ls', t')" by (cases "cut_lines (t @ b)")
    have s: "cut_lines s = (l # ls, t)"
      using Some p r by (simp add: cut_lines.simps [of s])
    have "cut_lines (s @ b) = (let (ls, t) = cut_lines (r @ b) in (l # ls, t))"
      using take_line_append [OF Some [unfolded p]] by (simp add: cut_lines.simps [of "s @ b"])
    also have "cut_lines (r @ b) = (ls @ ls', t')"
      using 1 [OF Some p [symmetric]] r tb by simp
    finally show ?thesis using s tb by simp
  qed
qed

text \<open>The state of the loop once \<open>body\<close> has been received, in terms of its lines alone.\<close>

definition drain_inv ::
  "(string \<Rightarrow> json option) \<Rightarrow> string list \<Rightarrow> string \<Rightarrow> drain_state \<Rightarrow> bool" where
  "drain_inv parse ls tail st \<longleftrightarrow>
     dr_pending st = tail \<and>
     (\<forall>l \<in> set ls. \<not> ndjson_phase_is parse l ''in_progress'') \<and>
     (dr_failure st = None \<longleftrightarrow> (\<forall>l \<in> set ls. ndjson_error_message parse l = None)) \<and>
     (dr_spooled_at st \<noteq> None \<longleftrightarrow> (\<exists>l \<in> set ls. ndjson_phase_is parse l ''spooled'')) \<and>
     (dr_done st \<longleftrightarrow> (\<exists>l \<in> set ls. ndjson_phase_is parse l ''done''))"

lemma drain_inv_start: "drain_inv parse [] [] drain_start"
  by (simp add: drain_inv_def drain_start_def)

lemma drain_inv_line:
  assumes "drain_inv parse ls t st" and "\<not> ndjson_phase_is parse l ''in_progress''"
  shows "drain_inv parse (ls @ [l]) r (drain_line parse now l (st\<lparr>dr_pending := r\<rparr>))"
  using assms by (auto simp: drain_inv_def drain_line_def Let_def)

lemma drain_lines_inv:
  assumes "drain_inv parse ls s st" and "drain_lines parse now st = (stop, st')"
  shows "if stop then \<exists>l \<in> set (fst (cut_lines s)). ndjson_phase_is parse l ''in_progress''
         else drain_inv parse (ls @ fst (cut_lines s)) (snd (cut_lines s)) st'"
  using assms
proof (induction parse now st arbitrary: ls s rule: drain_lines.induct)
  case (1 parse now st)
  have s: "dr_pending st = s" using "1.prems"(1) by (simp add: drain_inv_def)
  show ?case
  proof (cases "take_line s")
    case None
    then show ?thesis
      using "1.prems" s by (auto simp: drain_lines.simps [of _ _ st] cut_lines.simps [of s])
  next
    case (Some p)
    obtain l r where p: "p = (l, r)" by (cases p)
    have cut: "cut_lines s = (l # fst (cut_lines r), snd (cut_lines r))"
      using Some p by (simp add: cut_lines.simps [of s] case_prod_beta)
    show ?thesis
    proof (cases "ndjson_phase_is parse l ''in_progress''")
      case True
      then show ?thesis
        using "1.prems"(2) s Some p cut by (auto simp: drain_lines.simps [of _ _ st])
    next
      case False
      let ?st = "drain_line parse now l (st\<lparr>dr_pending := r\<rparr>)"
      have inv: "drain_inv parse (ls @ [l]) r ?st"
        using drain_inv_line [OF "1.prems"(1) False] .
      have run: "drain_lines parse now ?st = (stop, st')"
        using "1.prems"(2) s Some p False by (simp add: drain_lines.simps [of _ _ st])
      have take: "take_line (dr_pending st) = Some p" using Some s by simp
      from "1.IH" [OF take p [symmetric] refl False inv run] show ?thesis
        by (cases stop) (simp_all add: cut)
    qed
  qed
qed

text \<open>The bytes a stream has delivered, up to its first event that is not data.\<close>

fun received :: "(nat \<times> body_event) list \<Rightarrow> string" where
  "received ((d, Chunk b) # evs) = b @ received evs"
| "received _ = []"

text \<open>
  One run of the loop from any point of the stream: what an answer says about the complete
  lines \<open>ls\<close> seen so far and the bytes still to come.
\<close>

definition all_lines :: "string \<Rightarrow> string list" where
  "all_lines body = (let (ls, t) = cut_lines body in ls @ [t])"

lemma all_lines_of: "cut_lines body = (ls, t) \<Longrightarrow> all_lines body = ls @ [t]"
  by (simp add: all_lines_def)

lemma cut_lines_tail: "take_line (snd (cut_lines s)) = None"
proof (induction s rule: cut_lines.induct)
  case (1 s)
  then show ?case
    by (cases "take_line s") (auto simp: cut_lines.simps [of s] split: prod.splits)
qed

lemma cut_lines_none: "take_line t = None \<Longrightarrow> cut_lines t = ([], t)"
  by (simp add: cut_lines.simps [of t])

lemma drain_verdict_Stored:
  assumes "drain_inv parse ls t st" and "drain_verdict parse st = Inr Stored"
  shows "(\<forall>l \<in> set (ls @ [t]). ndjson_error_message parse l = None) \<and>
         (\<exists>l \<in> set (ls @ [t]). ndjson_phase_is parse l ''done'')"
  using assms
  by (auto simp: drain_verdict_def drain_inv_def Let_def split: option.splits if_splits)

lemma drain_verdict_HandedOff:
  assumes "drain_inv parse ls t st" and "drain_verdict parse st = Inr HandedOff"
  shows "\<exists>l \<in> set ls. ndjson_phase_is parse l ''spooled''"
  using assms
  by (auto simp: drain_verdict_def drain_inv_def Let_def split: option.splits if_splits)

lemma drain_verdict_error:
  assumes "drain_inv parse ls t st" and "drain_verdict parse st = Inl e"
  shows "failure_scope e = LinkScope \<and> (\<forall>l \<in> set ls. \<not> ndjson_phase_is parse l ''spooled'') \<or>
         (\<exists>l \<in> set (ls @ [t]). ndjson_error_message parse l \<noteq> None)"
  using assms
  by (auto simp: drain_verdict_def drain_inv_def Let_def split: option.splits if_splits)

text \<open>
  One run of the loop from any point of the stream: \<open>ls\<close> and \<open>t\<close> are the lines seen so far
  and the unfinished tail; \<open>body\<close> is everything once the rest has arrived.
\<close>

lemma drain_loop_run:
  assumes "drain_inv parse ls t st" and "take_line t = None"
    and "drain_loop parse grace now st evs = (r, now')" and "cut_lines (t @ received evs) = (ls', t')"
  shows "(r = Inr Stored \<longrightarrow>
            (\<forall>l \<in> set (ls @ ls' @ [t']). ndjson_error_message parse l = None) \<and>
            (\<exists>l \<in> set (ls @ ls' @ [t']). ndjson_phase_is parse l ''done'') \<and>
            (\<exists>d. (d, EndOfBody) \<in> set evs)) \<and>
         (r = Inr HandedOff \<longrightarrow>
            (\<exists>l \<in> set (ls @ ls'). ndjson_phase_is parse l ''spooled'' \<or>
                                   ndjson_phase_is parse l ''in_progress'')) \<and>
         (\<forall>e. r = Inl e \<longrightarrow> failure_scope e = LinkScope \<or>
            (\<exists>l \<in> set (ls @ ls' @ [t']). ndjson_error_message parse l \<noteq> None) \<or>
            (\<exists>d b n. (d, BodyError b) \<in> set evs \<and> re_status b = Some n))"
  using assms
proof (induction evs arbitrary: ls t st now ls' t')
  case Nil
  then show ?case
    by (auto simp: drain_inv_def drain_timeout_def Let_def split: option.splits if_splits)
next
  case (Cons x evs)
  obtain d ev where x: "x = (d, ev)" by (cases x)
  let ?late = "case dr_spooled_at st of Some at \<Rightarrow> grace - (now - at) = 0 | None \<Rightarrow> False"
  let ?now = "now + d"
  show ?case
  proof (cases "?late \<or> drain_wait grace now st < d")
    case True
    then show ?thesis using Cons.prems x
      by (auto simp: drain_inv_def drain_timeout_def Let_def split: option.splits if_splits)
  next
    case go: False
    then have step: "drain_loop parse grace now st (x # evs) =
        (case ev of
             BodyError e \<Rightarrow> (Inl (describe_transfer_error ''upload'' e), ?now)
           | EndOfBody \<Rightarrow> (drain_verdict parse st, ?now)
           | Chunk bytes \<Rightarrow>
               (let (in_progress, st) =
                      drain_lines parse ?now (st\<lparr>dr_pending := dr_pending st @ bytes\<rparr>)
                in if in_progress then (Inr HandedOff, ?now)
                   else drain_loop parse grace ?now st evs))"
      unfolding x by (simp only: drain_loop.simps Let_def de_Morgan_disj if_False)
    show ?thesis
    proof (cases ev)
      case (BodyError e)
      have r: "r = Inl (describe_transfer_error ''upload'' e)"
        using Cons.prems(3) unfolding step by (simp add: BodyError)
      have "(d, BodyError e) \<in> set (x # evs)" by (simp add: x BodyError)
      then have "\<exists>d b n. (d, BodyError b) \<in> set (x # evs) \<and> re_status b = Some n"
        if "re_status e = Some n" for n using that by blast
      moreover have "failure_scope (describe_transfer_error ''upload'' e) = LinkScope"
        if "re_status e = None" using that by (simp add: describe_transfer_error_def)
      ultimately show ?thesis unfolding r by (cases "re_status e") blast+
    next
      case EndOfBody
      have v: "drain_verdict parse st = r"
        using Cons.prems(3) unfolding step by (simp add: EndOfBody)
      have eq: "ls' = []" "t' = t"
        using Cons.prems(4) cut_lines_none [OF Cons.prems(2)] by (simp_all add: x EndOfBody)
      have mem: "\<exists>d. (d, EndOfBody) \<in> set (x # evs)" by (auto simp: x EndOfBody)
      show ?thesis
        using drain_verdict_Stored [OF Cons.prems(1)] drain_verdict_HandedOff [OF Cons.prems(1)]
          drain_verdict_error [OF Cons.prems(1)] mem
        unfolding eq append_Nil append_Nil2 v by blast
    next
      case (Chunk b)
      let ?st = "st\<lparr>dr_pending := dr_pending st @ b\<rparr>"
      obtain stop st' where dl: "drain_lines parse ?now ?st = (stop, st')"
        by (cases "drain_lines parse ?now ?st")
      obtain l1 t1 where c1: "cut_lines (t @ b) = (l1, t1)" by (cases "cut_lines (t @ b)")
      obtain l2 t2 where c2: "cut_lines (t1 @ received evs) = (l2, t2)"
        by (cases "cut_lines (t1 @ received evs)")
      have ls': "ls' = l1 @ l2" "t' = t2"
        using Cons.prems(4) cut_lines_append [of "t @ b" "received evs"] c1 c2
        by (auto simp: x Chunk)
      have inv: "drain_inv parse ls (t @ b) ?st"
        using Cons.prems(1) by (auto simp: drain_inv_def)
      from drain_lines_inv [OF inv dl] c1 have
        stop: "if stop then \<exists>l \<in> set l1. ndjson_phase_is parse l ''in_progress''
               else drain_inv parse (ls @ l1) t1 st'" by (cases stop) simp_all
      show ?thesis
      proof (cases stop)
        case True
        have "r = Inr HandedOff"
          using Cons.prems(3) True unfolding step by (simp add: Chunk dl)
        then show ?thesis using stop True by (auto simp: ls')
      next
        case False
        have run: "drain_loop parse grace ?now st' evs = (r, now')"
          using Cons.prems(3) False unfolding step by (simp add: Chunk dl)
        have tl: "take_line t1 = None" using cut_lines_tail [of "t @ b"] c1 by simp
        have inv': "drain_inv parse (ls @ l1) t1 st'" using stop False by simp
        have mono: "ev' \<in> set evs \<Longrightarrow> ev' \<in> set (x # evs)" for ev' by simp
        from Cons.IH [OF inv' tl run c2] show ?thesis
          unfolding ls' append_assoc using mono by blast
      qed
    qed
  qed
qed

lemma drain_line_spooled:
  "dr_spooled_at (drain_line parse now l st) =
     (if dr_spooled_at st = None \<and> ndjson_phase_is parse l ''spooled'' then Some now
      else dr_spooled_at st)"
  by (simp add: drain_line_def Let_def)

lemma drain_lines_spooled:
  assumes "drain_lines parse now st = (stop, st')"
  shows "(\<forall>s. dr_spooled_at st = Some s \<longrightarrow> dr_spooled_at st' = Some s) \<and>
         (dr_spooled_at st = None \<longrightarrow> dr_spooled_at st' = None \<or> dr_spooled_at st' = Some now)"
  using assms
proof (induction parse now st rule: drain_lines.induct)
  case (1 parse now st)
  show ?case
  proof (cases "take_line (dr_pending st)")
    case None
    then show ?thesis using "1.prems" by (simp add: drain_lines.simps [of _ _ st])
  next
    case (Some p)
    obtain l r where p: "p = (l, r)" by (cases p)
    show ?thesis
    proof (cases "ndjson_phase_is parse l ''in_progress''")
      case True
      then show ?thesis using "1.prems" Some p by (auto simp: drain_lines.simps [of _ _ st])
    next
      case False
      have run: "drain_lines parse now (drain_line parse now l (st\<lparr>dr_pending := r\<rparr>)) = (stop, st')"
        using "1.prems" Some p False by (simp add: drain_lines.simps [of _ _ st])
      from "1.IH" [OF Some p [symmetric] refl False run] show ?thesis
        by (simp add: drain_line_spooled split: if_splits)
    qed
  qed
qed

text \<open>Once the file is spooled, the answer comes within the grace.\<close>

lemma drain_loop_grace:
  assumes "dr_spooled_at st = Some s" and "s \<le> now" and "now \<le> s + grace"
  shows "snd (drain_loop parse grace now st evs) \<le> s + grace"
  using assms
proof (induction parse grace now st evs rule: drain_loop.induct)
  case (1 parse grace now st)
  then show ?case by (auto simp: drain_wait_def Let_def)
next
  case (2 parse grace now st d ev evs)
  show ?case
  proof (cases "grace - (now - s) = 0 \<or> drain_wait grace now st < d")
    case True
    then show ?thesis using "2.prems" by (auto simp: drain_wait_def Let_def)
  next
    case False
    then have now: "now + d \<le> s + grace" using "2.prems" by (auto simp: drain_wait_def)
    show ?thesis
    proof (cases ev)
      case (Chunk b)
      let ?st = "st\<lparr>dr_pending := dr_pending st @ b\<rparr>"
      obtain stop st' where dl: "drain_lines parse (now + d) ?st = (stop, st')"
        by (cases "drain_lines parse (now + d) ?st")
      have sp: "dr_spooled_at st' = Some s" using drain_lines_spooled [OF dl] "2.prems" by simp
      have "snd (drain_loop parse grace (now + d) st' evs) \<le> s + grace" if "\<not> stop"
        using "2.IH" [OF _ _ refl Chunk dl [symmetric] refl _ sp] that False now "2.prems" by auto
      then show ?thesis using now False "2.prems" dl by (auto simp: Chunk Let_def)
    qed (use now False "2.prems" in \<open>auto simp: Let_def\<close>)
  qed
qed

lemma drain_loop_time:
  "(case dr_spooled_at st of None \<Rightarrow> True | Some s \<Rightarrow> s \<le> now) \<Longrightarrow>
   snd (drain_loop parse grace now st evs) \<le> now + sum_list (map fst evs) + read_idle_timeout"
proof (induction parse grace now st evs rule: drain_loop.induct)
  case (1 parse grace now st)
  then show ?case by (auto simp: drain_wait_def Let_def split: option.splits)
next
  case (2 parse grace now st d ev evs)
  have w: "drain_wait grace now st \<le> read_idle_timeout"
    by (simp add: drain_wait_def split: option.splits)
  let ?late = "case dr_spooled_at st of Some at \<Rightarrow> grace - (now - at) = 0 | None \<Rightarrow> False"
  show ?case
  proof (cases "?late \<or> drain_wait grace now st < d")
    case True
    then show ?thesis using w by (auto simp: Let_def split: if_splits)
  next
    case False
    show ?thesis
    proof (cases ev)
      case (Chunk b)
      let ?st = "st\<lparr>dr_pending := dr_pending st @ b\<rparr>"
      obtain stop st' where dl: "drain_lines parse (now + d) ?st = (stop, st')"
        by (cases "drain_lines parse (now + d) ?st")
      have sp: "case dr_spooled_at st' of None \<Rightarrow> True | Some s \<Rightarrow> s \<le> now + d"
        using drain_lines_spooled [OF dl] "2.prems" by (auto split: option.splits)
      have "snd (drain_loop parse grace (now + d) st' evs) \<le>
              now + d + sum_list (map fst evs) + read_idle_timeout" if "\<not> stop"
        using "2.IH" [OF _ _ refl Chunk dl [symmetric] refl _ sp] that False by auto
      then show ?thesis using False dl by (auto simp: Chunk Let_def split: option.splits)
    qed (use False in \<open>auto simp: Let_def split: option.splits\<close>)
  qed
qed

text \<open>If the first events bring the \<open>spooled\<close> line, the answer is due a grace after them.\<close>

lemma drain_loop_spooled_time:
  assumes "drain_inv parse ls t st" and "case dr_spooled_at st of None \<Rightarrow> True | Some s \<Rightarrow> s \<le> now \<and> now \<le> s + grace"
    and "list_all (\<lambda>(d, ev). \<exists>b. ev = Chunk b) evs1"
    and "\<exists>l \<in> set (ls @ fst (cut_lines (t @ received evs1))). ndjson_phase_is parse l ''spooled''"
    and "take_line t = None"
  shows "snd (drain_loop parse grace now st (evs1 @ evs2)) \<le> now + sum_list (map fst evs1) + grace"
  using assms
proof (induction evs1 arbitrary: ls t st now)
  case Nil
  then have "dr_spooled_at st \<noteq> None" by (auto simp: drain_inv_def cut_lines_none)
  then obtain s where s: "dr_spooled_at st = Some s" by blast
  with Nil have "snd (drain_loop parse grace now st evs2) \<le> s + grace"
    by (intro drain_loop_grace) simp_all
  then show ?case using Nil s by simp
next
  case (Cons x evs1)
  obtain d b where x: "x = (d, Chunk b)" using Cons.prems(3) by (cases x) auto
  let ?late = "case dr_spooled_at st of Some at \<Rightarrow> grace - (now - at) = 0 | None \<Rightarrow> False"
  show ?case
  proof (cases "?late \<or> drain_wait grace now st < d")
    case True
    then show ?thesis by (auto simp: x Let_def split: if_splits)
  next
    case False
    let ?st = "st\<lparr>dr_pending := dr_pending st @ b\<rparr>"
    obtain stop st' where dl: "drain_lines parse (now + d) ?st = (stop, st')"
      by (cases "drain_lines parse (now + d) ?st")
    obtain l1 t1 where c1: "cut_lines (t @ b) = (l1, t1)" by (cases "cut_lines (t @ b)")
    have inv: "drain_inv parse ls (t @ b) ?st"
      using Cons.prems(1) by (auto simp: drain_inv_def)
    have sp: "case dr_spooled_at st' of None \<Rightarrow> True | Some s \<Rightarrow> s \<le> now + d \<and> now + d \<le> s + grace"
      using drain_lines_spooled [OF dl] Cons.prems(2) False
      by (auto simp: drain_wait_def split: option.splits)
    have more: "\<exists>l \<in> set ((ls @ l1) @ fst (cut_lines (t1 @ received evs1))). ndjson_phase_is parse l ''spooled''"
      using Cons.prems(4) cut_lines_append [of "t @ b" "received evs1"] c1
      by (auto simp: x split: prod.splits)
    have tl: "take_line t1 = None" using cut_lines_tail [of "t @ b"] c1 by simp
    have "snd (drain_loop parse grace (now + d) st' (evs1 @ evs2)) \<le>
            now + d + sum_list (map fst evs1) + grace" if "\<not> stop"
      using Cons.IH [of "ls @ l1" t1 st' "now + d"] drain_lines_inv [OF inv dl] c1 that sp more tl
        Cons.prems(3) by simp
    then show ?thesis using False dl by (auto simp: x Let_def split: option.splits)
  qed
qed

section \<open>Properties of the stream\<close>

text \<open>
  C27. An upload is called \<open>Stored\<close> only on the server's word: however the body was cut into
  chunks and timed, the stream then ended cleanly, one of its lines has phase \<open>done\<close>, and
  none is an error line. \<open>HandedOff\<close> is answered only after a \<open>spooled\<close> or \<open>in_progress\<close>
  line. A failure blames the file only when the server sent an error line (the transport's
  body errors carry no status).
\<close>

theorem stored_only_on_servers_word:
  assumes "drain_upload_progress parse grace evs = (r, t)"
    and "\<forall>d b. (d, BodyError b) \<in> set evs \<longrightarrow> re_status b = None"
  shows "(r = Inr Stored \<longrightarrow>
            (\<exists>d. (d, EndOfBody) \<in> set evs) \<and>
            (\<exists>l \<in> set (all_lines (received evs)). ndjson_phase_is parse l ''done'') \<and>
            (\<forall>l \<in> set (all_lines (received evs)). ndjson_error_message parse l = None)) \<and>
         (r = Inr HandedOff \<longrightarrow>
            (\<exists>l \<in> set (fst (cut_lines (received evs))).
               ndjson_phase_is parse l ''spooled'' \<or> ndjson_phase_is parse l ''in_progress'')) \<and>
         (\<forall>e. r = Inl e \<longrightarrow> failure_scope e = LinkScope \<or>
            (\<exists>l \<in> set (all_lines (received evs)). ndjson_error_message parse l \<noteq> None))"
proof -
  obtain ls tail where c: "cut_lines (received evs) = (ls, tail)" by (cases "cut_lines (received evs)")
  have "drain_loop parse grace 0 drain_start evs = (r, t)"
    using assms(1) by (simp add: drain_upload_progress_def)
  moreover have "cut_lines ([] @ received evs) = (ls, tail)" using c by simp
  moreover have "take_line [] = None" by simp
  ultimately show ?thesis
    using drain_loop_run [OF drain_inv_start, where grace = grace and now = 0 and evs = evs and r = r and now' = t
        and ls' = ls and t' = tail and parse = parse] assms(2)
    unfolding all_lines_of [OF c] c fst_conv append_Nil by fastforce
qed

definition sample_json :: "string \<Rightarrow> json option" where
  "sample_json s =
     (if s = ''spooled'' \<or> s = ''done'' \<or> s = ''error'' then Some (JObj [(''phase'', JStr s)]) else None)"

lemma sample_lines:
  "\<not> ndjson_phase_is sample_json (''spooled'' @ [CHR 0x0A]) ''in_progress''"
  "ndjson_phase_is sample_json (''spooled'' @ [CHR 0x0A]) ''spooled''"
  "\<not> ndjson_phase_is sample_json (''spooled'' @ [CHR 0x0A]) ''done''"
  "ndjson_error_message sample_json (''spooled'' @ [CHR 0x0A]) = None"
  "ndjson_phase_is sample_json ''done'' ''done''"
  "ndjson_error_message sample_json ''done'' = None"
  by code_simp+

theorem stored_only_on_servers_word_witness:
  "let evs = [(10, Chunk ''spoo''), (20, Chunk (''led'' @ [CHR 0x0A] @ ''done'')), (5, EndOfBody)]
   in drain_upload_progress sample_json 90000 evs = (Inr Stored, 35) \<and>
      (\<exists>l \<in> set (all_lines (received evs)). ndjson_phase_is sample_json l ''done'')"
proof -
  let ?evs = "[(10, Chunk ''spoo''), (20, Chunk (''led'' @ [CHR 0x0A] @ ''done'')), (5, EndOfBody)]"
  have run: "drain_upload_progress sample_json 90000 ?evs = (Inr Stored, 35)"
    by (simp add: drain_upload_progress_def drain_start_def drain_wait_def read_idle_timeout_def
        drain_lines.simps drain_line_def drain_verdict_def Let_def sample_lines [simplified])
  have "\<forall>d b. (d, BodyError b) \<in> set ?evs \<longrightarrow> re_status b = None" by simp
  from stored_only_on_servers_word [OF run this] run show ?thesis unfolding Let_def by blast
qed

lemma drain_time_bounds:
  shows "snd (drain_upload_progress parse grace evs) \<le> sum_list (map fst evs) + read_idle_timeout"
    and "list_all (\<lambda>(d, ev). \<exists>b. ev = Chunk b) evs1 \<Longrightarrow>
         \<exists>l \<in> set (fst (cut_lines (received evs1))). ndjson_phase_is parse l ''spooled'' \<Longrightarrow>
         snd (drain_upload_progress parse grace (evs1 @ evs2)) \<le> sum_list (map fst evs1) + grace"
proof -
  show "snd (drain_upload_progress parse grace evs) \<le> sum_list (map fst evs) + read_idle_timeout"
    using drain_loop_time [where st = drain_start and now = 0 and evs = evs]
    by (simp add: drain_upload_progress_def drain_start_def)
  assume "list_all (\<lambda>(d, ev). \<exists>b. ev = Chunk b) evs1"
    and "\<exists>l \<in> set (fst (cut_lines (received evs1))). ndjson_phase_is parse l ''spooled''"
  then show "snd (drain_upload_progress parse grace (evs1 @ evs2)) \<le> sum_list (map fst evs1) + grace"
    using drain_loop_spooled_time [OF drain_inv_start, where now = 0 and grace = grace and ?evs1.0 = evs1 and ?evs2.0 = evs2]
    by (simp add: drain_upload_progress_def drain_start_def)
qed

text \<open>
  C36. The client never waits on a silent server: every answer comes within the idle budget
  after the stream's last event, and once the \<open>spooled\<close> line has arrived, within the grace
  after it, whatever the server does next.
\<close>

theorem drain_always_returns_in_time:
  "snd (drain_upload_progress parse grace evs) \<le> sum_list (map fst evs) + read_idle_timeout \<and>
   (list_all (\<lambda>(d, ev). \<exists>b. ev = Chunk b) evs1 \<longrightarrow>
    (\<exists>l \<in> set (fst (cut_lines (received evs1))). ndjson_phase_is parse l ''spooled'') \<longrightarrow>
    snd (drain_upload_progress parse grace (evs1 @ evs2)) \<le> sum_list (map fst evs1) + grace)"
  using drain_time_bounds by blast

theorem drain_always_returns_in_time_witness:
  "snd (drain_upload_progress sample_json 90000
     ([(10, Chunk (''spooled'' @ [CHR 0x0A]))] @ [(40000, Chunk ''x''), (40000, Chunk ''x''), (40000, Chunk ''x'')]))
     \<le> 10 + 90000"
proof -
  have "list_all (\<lambda>(d, ev). \<exists>b. ev = Chunk b) [(10 :: nat, Chunk (''spooled'' @ [CHR 0x0A]))]" by simp
  moreover have "fst (cut_lines (received [(10, Chunk (''spooled'' @ [CHR 0x0A]))])) = [''spooled'' @ [CHR 0x0A]]"
    by code_simp
  moreover have "ndjson_phase_is sample_json (''spooled'' @ [CHR 0x0A]) ''spooled''" by code_simp
  ultimately show ?thesis
    using drain_always_returns_in_time
      [where ?evs1.0 = "[(10, Chunk (''spooled'' @ [CHR 0x0A]))]" and parse = sample_json and grace = 90000 and
          ?evs2.0 = "[(40000, Chunk ''x''), (40000, Chunk ''x''), (40000, Chunk ''x'')]"] by simp
qed

section \<open>Sending the body\<close>

record upload_progress =
  up_sent :: nat
  up_last_ms :: nat
  up_body_complete :: bool

definition upload_progress_new :: upload_progress where
  "upload_progress_new = \<lparr>up_sent = 0, up_last_ms = 0, up_body_complete = False\<rparr>"

definition note_sent :: "nat \<Rightarrow> nat \<Rightarrow> upload_progress \<Rightarrow> upload_progress" where
  "note_sent now bytes p = p\<lparr>up_sent := up_sent p + bytes, up_last_ms := now\<rparr>"

definition note_body_complete :: "upload_progress \<Rightarrow> upload_progress" where
  "note_body_complete p = p\<lparr>up_body_complete := True\<rparr>"

definition sent_any :: "upload_progress \<Rightarrow> bool" where
  "sent_any p \<longleftrightarrow> 0 < up_sent p"

definition upload_idle :: "nat \<Rightarrow> upload_progress \<Rightarrow> nat" where
  "upload_idle now p = now - up_last_ms p"

text \<open>What the connection does with a request, each event with the time after the last one.\<close>

datatype 'r send_event = BodyChunk nat | BodyComplete | Answer "(reqwest_error, 'r) result"

datatype 'r send_result = SendOk 'r | SendTransport reqwest_error | SendStalled nat

text \<open>
  The watchdog (\<open>upload_stalled\<close>) wakes at every multiple of \<open>poll\<close>; this is the first wake-up
  from \<open>now\<close> on at which the body has been idle for the budget.
\<close>

definition stall_time :: "nat \<Rightarrow> nat \<Rightarrow> nat \<Rightarrow> upload_progress \<Rightarrow> nat" where
  "stall_time stall poll now p = poll * ((max now (up_last_ms p + stall) + poll - 1) div poll)"

text \<open>
  The biased race of the request against the watchdog. \<open>None\<close> is a request that is never
  answered although its body is complete: the watchdog is silent then.
\<close>

fun send_upload ::
  "nat \<Rightarrow> nat \<Rightarrow> nat \<Rightarrow> upload_progress \<Rightarrow> (nat \<times> 'r send_event) list \<Rightarrow>
   'r send_result option \<times> upload_progress \<times> nat" where
  "send_upload stall poll now p [] =
     (if up_body_complete p then (None, p, now)
      else (Some (SendStalled stall), p, stall_time stall poll now p))"
| "send_upload stall poll now p ((d, ev) # evs) =
     (if \<not> up_body_complete p \<and> stall_time stall poll now p < now + d
      then (Some (SendStalled stall), p, stall_time stall poll now p)
      else
        let now = now + d
        in case ev of
             Answer (Inr resp) \<Rightarrow> (Some (SendOk resp), p, now)
           | Answer (Inl e) \<Rightarrow> (Some (SendTransport e), p, now)
           | BodyChunk n \<Rightarrow> send_upload stall poll now (note_sent now n p) evs
           | BodyComplete \<Rightarrow> send_upload stall poll now (note_body_complete p) evs)"

definition send_error_report :: "'r send_result \<Rightarrow> api_error" where
  "send_error_report r =
     (case r of
        SendTransport e \<Rightarrow> describe_transfer_error ''upload'' e
      | SendStalled after \<Rightarrow> [UploadStalled after]
      | SendOk _ \<Rightarrow> [])"

section \<open>The upload call\<close>

datatype version = HTTP_3 | HTTP_11

definition preferred_request_version :: "bool \<Rightarrow> string \<Rightarrow> version" where
  "preferred_request_version http3_preferred url =
     (if http3_preferred \<and> starts_with ''https://'' url then HTTP_3 else HTTP_11)"

definition should_fallback_from_h3 :: "bool \<Rightarrow> string \<Rightarrow> version \<Rightarrow> reqwest_error \<Rightarrow> bool" where
  "should_fallback_from_h3 http3_preferred url attempted err \<longleftrightarrow>
     http3_preferred \<and> starts_with ''https://'' url \<and> attempted = HTTP_3 \<and>
     (re_connect err \<or> re_timeout err \<or> re_request err)"

text \<open>A request that has no body to lose: the fallback always runs it again over TCP.\<close>

definition send_preferring_h3 ::
  "bool \<Rightarrow> string \<Rightarrow> (version \<Rightarrow> (reqwest_error, 'r) result) \<Rightarrow>
   (reqwest_error, 'r) result \<times> version list" where
  "send_preferring_h3 http3_preferred url send =
     (if preferred_request_version http3_preferred url = HTTP_3 then
        (case send HTTP_3 of
           Inr resp \<Rightarrow> (Inr resp, [HTTP_3])
         | Inl err \<Rightarrow>
             if should_fallback_from_h3 http3_preferred url HTTP_3 err
             then (send HTTP_11, [HTTP_3, HTTP_11])
             else (Inl err, [HTTP_3]))
      else (send HTTP_11, [HTTP_11]))"

record response =
  rs_status :: nat
  rs_busy_header :: bool
  rs_text :: string
  rs_body :: "(nat \<times> body_event) list"

text \<open>The text fields of the multipart form, in the order they are added; the file follows \<open>filename\<close>.\<close>

definition upload_form ::
  "string \<Rightarrow> string \<Rightarrow> int option \<Rightarrow> string option \<Rightarrow> (string \<times> string) list" where
  "upload_form parent_path filename mtime_ms content_hash =
     [(''path'', parent_path), (''filename'', filename)] @
     (case mtime_ms of Some ms \<Rightarrow> [(''mtime'', show_int ms)] | None \<Rightarrow> []) @
     (case content_hash of Some h \<Rightarrow> [(''content_hash'', h)] | None \<Rightarrow> []) @
     [(''on_conflict'', ''replace'')]"

text \<open>
  The surroundings of one call: opening the local file for an attempt, and what the connection
  does with the attempt of that number, over that version, for a body of that length with
  that total deadline.
\<close>

record upload_env =
  ue_open :: "nat \<Rightarrow> (string, nat) result"
  ue_connection :: "nat \<Rightarrow> version \<Rightarrow> nat \<Rightarrow> nat \<Rightarrow> (nat \<times> response send_event) list"

definition attempt_upload ::
  "upload_env \<Rightarrow> nat \<Rightarrow> version \<Rightarrow>
   (api_error, response send_result option \<times> upload_progress) result" where
  "attempt_upload env i v =
     (case ue_open env i of
        Inl e \<Rightarrow> Inl [OtherCause e]
      | Inr len \<Rightarrow>
          let (r, p, t) = send_upload upload_stall_timeout upload_stall_poll 0 upload_progress_new
                (ue_connection env i v len (transfer_timeout len))
          in Inr (r, p))"

definition read_upload_response ::
  "(string \<Rightarrow> json option) \<Rightarrow> response \<Rightarrow> (api_error, upload_outcome) result" where
  "read_upload_response parse resp =
     (if \<not> (200 \<le> rs_status resp \<and> rs_status resp < 300) then
        if rs_status resp = 503 \<and> rs_busy_header resp
        then Inl [Context ''upload failed'', ServerBusy]
        else Inl [Context ''upload failed'', HttpStatusError (rs_status resp) (rs_text resp)]
      else fst (drain_upload_progress parse relay_confirm_grace (rs_body resp)))"

text \<open>
  The whole call, with the attempts it made and how far the body of each got. \<open>None\<close> is a
  call that does not return because the connection never answers.
\<close>

definition upload_file_metered ::
  "bool \<Rightarrow> (string \<Rightarrow> json option) \<Rightarrow> upload_env \<Rightarrow> string \<Rightarrow> string \<Rightarrow>
   (api_error, upload_outcome) result option \<times> (version \<times> nat) list" where
  "upload_file_metered http3_preferred parse env access_token url =
     (if trim access_token = [] then (Some (Inl [OtherCause ''Not authenticated'']), [])
      else
        let v = preferred_request_version http3_preferred url
        in case attempt_upload env 0 v of
             Inl e \<Rightarrow> (Some (Inl e), [])
           | Inr (None, p) \<Rightarrow> (None, [(v, up_sent p)])
           | Inr (Some (SendOk resp), p) \<Rightarrow>
               (Some (read_upload_response parse resp), [(v, up_sent p)])
           | Inr (Some (SendStalled a), p) \<Rightarrow>
               (Some (Inl [UploadStalled a]), [(v, up_sent p)])
           | Inr (Some (SendTransport err), p) \<Rightarrow>
               if should_fallback_from_h3 http3_preferred url v err \<and> \<not> sent_any p then
                 (case attempt_upload env 1 HTTP_11 of
                    Inl e \<Rightarrow> (Some (Inl e), [(v, up_sent p)])
                  | Inr (None, q) \<Rightarrow> (None, [(v, up_sent p), (HTTP_11, up_sent q)])
                  | Inr (Some (SendOk resp), q) \<Rightarrow>
                      (Some (read_upload_response parse resp),
                       [(v, up_sent p), (HTTP_11, up_sent q)])
                  | Inr (Some r, q) \<Rightarrow>
                      (Some (Inl (send_error_report r)), [(v, up_sent p), (HTTP_11, up_sent q)]))
               else (Some (Inl (describe_transfer_error ''upload'' err)), [(v, up_sent p)]))"

section \<open>Properties of the call\<close>

lemma stall_time_bounds:
  assumes "0 < poll" and "now \<le> up_last_ms p + stall"
  shows "up_last_ms p + stall \<le> stall_time stall poll now p \<and>
         stall_time stall poll now p < up_last_ms p + stall + poll"
proof -
  let ?x = "up_last_ms p + stall"
  have t: "stall_time stall poll now p = poll * ((?x + poll - 1) div poll)"
    using assms(2) by (simp add: stall_time_def max_def)
  have "poll * ((?x + poll - 1) div poll) + (?x + poll - 1) mod poll = ?x + poll - 1"
    by (simp add: mult.commute)
  moreover have "(?x + poll - 1) mod poll < poll" using assms(1) by simp
  ultimately show ?thesis unfolding t using assms(1) by linarith
qed

lemma send_upload_stalled:
  assumes "0 < poll" and "up_body_complete p \<or> up_last_ms p = now"
    and "send_upload stall poll now p evs = (Some (SendStalled a), q, t)"
  shows "a = stall \<and> \<not> up_body_complete q \<and> up_last_ms q + stall \<le> t \<and>
         t < up_last_ms q + stall + poll"
  using assms
proof (induction stall poll now p evs rule: send_upload.induct)
  case (1 stall poll now p)
  then show ?case using stall_time_bounds [of poll now p stall] by (auto split: if_splits)
next
  case (2 stall poll now p d ev evs)
  show ?case
  proof (cases "\<not> up_body_complete p \<and> stall_time stall poll now p < now + d")
    case True
    then show ?thesis using "2.prems" stall_time_bounds [of poll now p stall] by auto
  next
    case False
    show ?thesis
    proof (cases ev)
      case (BodyChunk n)
      have "send_upload stall poll (now + d) (note_sent (now + d) n p) evs = (Some (SendStalled a), q, t)"
        using "2.prems"(3) False BodyChunk by (simp add: Let_def split: if_splits)
      then show ?thesis
        using "2.IH"(1) [OF False refl BodyChunk "2.prems"(1)] by (simp add: note_sent_def)
    next
      case BodyComplete
      have "send_upload stall poll (now + d) (note_body_complete p) evs = (Some (SendStalled a), q, t)"
        using "2.prems"(3) False BodyComplete by (simp add: Let_def split: if_splits)
      then show ?thesis
        using "2.IH"(2) [OF False refl BodyComplete "2.prems"(1)] by (simp add: note_body_complete_def)
    next
      case (Answer r)
      then show ?thesis using "2.prems"(3) False
        by (cases r) (auto simp: Let_def split: if_splits)
    qed
  qed
qed

lemma send_upload_gap:
  assumes "0 < poll" and "\<not> up_body_complete p" and "up_last_ms p = now"
    and "list_all (\<lambda>(d, ev). \<exists>n. ev = BodyChunk n) pre" and "stall + poll \<le> gap"
  shows "\<exists>q t. send_upload stall poll now p (pre @ (gap, ev) # post) = (Some (SendStalled stall), q, t)"
  using assms(2-4)
proof (induction pre arbitrary: now p)
  case Nil
  then show ?case using stall_time_bounds [of poll now p stall] assms(1,5) by simp
next
  case (Cons x pre)
  then obtain d n where x: "x = (d, BodyChunk n)" by (cases x) auto
  from Cons.IH [of "note_sent (now + d) n p" "now + d"] Cons.prems show ?case
    by (simp add: x note_sent_def Let_def)
qed

lemma upload_watchdog_bounds:
  shows "send_upload upload_stall_timeout upload_stall_poll 0 upload_progress_new evs =
           (Some (SendStalled a), q, t) \<Longrightarrow>
         \<not> up_body_complete q \<and> up_last_ms q + 120000 \<le> t \<and> t < up_last_ms q + 125000"
    and "list_all (\<lambda>(d, ev). \<exists>n. ev = BodyChunk n) pre \<Longrightarrow> 125000 \<le> gap \<Longrightarrow>
         \<exists>q t. send_upload upload_stall_timeout upload_stall_poll 0 upload_progress_new
                  (pre @ (gap, ev) # post) = (Some (SendStalled 120000), q, t)"
proof -
  show "send_upload upload_stall_timeout upload_stall_poll 0 upload_progress_new evs =
           (Some (SendStalled a), q, t) \<Longrightarrow>
         \<not> up_body_complete q \<and> up_last_ms q + 120000 \<le> t \<and> t < up_last_ms q + 125000"
    using send_upload_stalled [of upload_stall_poll upload_progress_new 0 upload_stall_timeout evs a q t]
    by (simp add: upload_progress_new_def upload_stall_timeout_def upload_stall_poll_def)
  show "list_all (\<lambda>(d, ev). \<exists>n. ev = BodyChunk n) pre \<Longrightarrow> 125000 \<le> gap \<Longrightarrow>
         \<exists>q t. send_upload upload_stall_timeout upload_stall_poll 0 upload_progress_new
                  (pre @ (gap, ev) # post) = (Some (SendStalled 120000), q, t)"
    using send_upload_gap [of upload_stall_poll upload_progress_new 0 pre upload_stall_timeout gap ev post]
    by (simp add: upload_progress_new_def upload_stall_timeout_def upload_stall_poll_def)
qed

text \<open>
  The watchdog on an upload: it gives up only while the body is unfinished, after at least
  two minutes in which the connection took nothing and at most five seconds later; and a
  connection that takes nothing for that long before the body is through is always given up.
\<close>

theorem upload_watchdog_exact:
  "(send_upload upload_stall_timeout upload_stall_poll 0 upload_progress_new evs =
      (Some (SendStalled a), q, t) \<longrightarrow>
    \<not> up_body_complete q \<and> up_last_ms q + 120000 \<le> t \<and> t < up_last_ms q + 125000) \<and>
   (list_all (\<lambda>(d, ev). \<exists>n. ev = BodyChunk n) pre \<longrightarrow> 125000 \<le> gap \<longrightarrow>
    (\<exists>q t. send_upload upload_stall_timeout upload_stall_poll 0 upload_progress_new
             (pre @ (gap, ev) # post) = (Some (SendStalled 120000), q, t)))"
  using upload_watchdog_bounds(1) [of evs a q t] upload_watchdog_bounds(2) [of pre gap ev post] by blast

theorem upload_watchdog_exact_witness:
  "\<exists>q t. send_upload upload_stall_timeout upload_stall_poll 0 upload_progress_new
       ([(50, BodyChunk 100)] @ (130000, BodyComplete) # [(5, Answer (Inr ()))]) =
     (Some (SendStalled 120000), q, t) \<and> up_last_ms q + 120000 \<le> t"
proof -
  let ?evs = "[(50, BodyChunk 100)] @ (130000, BodyComplete) # [(5, Answer (Inr ()))]"
  obtain q t where run: "send_upload upload_stall_timeout upload_stall_poll 0 upload_progress_new ?evs =
      (Some (SendStalled 120000), q, t)"
    using upload_watchdog_exact [THEN conjunct2, rule_format,
        of "[(50, BodyChunk 100)]" 130000 BodyComplete "[(5, Answer (Inr ()))]"]
    by auto
  from upload_watchdog_exact [THEN conjunct1, rule_format, OF run] show ?thesis
    using run by blast
qed

text \<open>
  A file is never pushed twice by one call: a second attempt is made only over TCP, after
  an HTTP/3 attempt that failed with no byte handed over, and there is no third. The call
  answers \<open>busy\<close> only for a 503 that carries the server's own header, so a gateway's 503
  stops the batch instead.
\<close>

theorem upload_never_sent_twice:
  assumes "upload_file_metered h3 parse env token url = (r, tries)"
  shows "length tries \<le> 2 \<and> sum_list (butlast (map snd tries)) = 0 \<and>
         (length tries = 2 \<longrightarrow> h3 \<and> map fst tries = [HTTP_3, HTTP_11])"
  using assms
  by (auto simp: upload_file_metered_def Let_def should_fallback_from_h3_def sent_any_def
      split: if_splits sum.splits option.splits send_result.splits prod.splits)

definition sample_env :: upload_env where
  "sample_env = \<lparr>ue_open = (\<lambda>_. Inr 7), ue_connection = (\<lambda>i v len deadline.
     if v = HTTP_3
     then [(10, Answer (Inl \<lparr>re_timeout = False, re_connect = True, re_request = False, re_status = None\<rparr>))]
     else [(3, BodyChunk len), (1, BodyComplete),
           (9, Answer (Inr \<lparr>rs_status = 503, rs_busy_header = True, rs_text = [], rs_body = []\<rparr>))])\<rparr>"

lemma sample_upload_run:
  "upload_file_metered True (\<lambda>_. None) sample_env ''t'' ''https://x'' =
     (Some (Inl [Context ''upload failed'', ServerBusy]), [(HTTP_3, 0), (HTTP_11, 7)])"
proof -
  have "trim ''t'' \<noteq> []" by code_simp
  moreover have "starts_with ''https://'' ''https://x''" by code_simp
  ultimately show ?thesis
    by (simp add: upload_file_metered_def preferred_request_version_def should_fallback_from_h3_def
        attempt_upload_def sample_env_def stall_time_def upload_progress_new_def note_sent_def
        upload_stall_timeout_def upload_stall_poll_def note_body_complete_def sent_any_def
        read_upload_response_def Let_def)
qed

theorem upload_never_sent_twice_witness:
  "sum_list (butlast (map snd [(HTTP_3, 0), (HTTP_11, 7 :: nat)])) = 0 \<and>
   snd (upload_file_metered True (\<lambda>_. None) sample_env ''t'' ''https://x'') = [(HTTP_3, 0), (HTTP_11, 7)]"
  using upload_never_sent_twice [OF sample_upload_run] sample_upload_run by simp

lemma scope_for_status_not_busy [simp]: "scope_for_status s \<noteq> BusyScope"
  by (simp add: scope_for_status_def)

lemma transfer_error_not_busy [simp]: "failure_scope (describe_transfer_error a x) \<noteq> BusyScope"
  by (simp add: describe_transfer_error_def split: option.splits)

lemma send_error_not_busy [simp]: "failure_scope (send_error_report r) \<noteq> BusyScope"
  by (simp add: send_error_report_def split: send_result.splits)

lemma drain_verdict_not_busy: "drain_verdict parse st = Inl e \<Longrightarrow> failure_scope e \<noteq> BusyScope"
  by (auto simp: drain_verdict_def Let_def split: option.splits if_splits)

lemma drain_loop_not_busy:
  "drain_loop parse grace now st evs = (Inl e, t) \<Longrightarrow> failure_scope e \<noteq> BusyScope"
proof (induction parse grace now st evs rule: drain_loop.induct)
  case (1 parse grace now st)
  then show ?case
    by (auto simp: drain_timeout_def Let_def split: option.splits if_splits)
next
  case (2 parse grace now st d ev evs)
  show ?case
  proof (cases ev)
    case (Chunk b)
    obtain stop st' where dl: "drain_lines parse (now + d) (st\<lparr>dr_pending := dr_pending st @ b\<rparr>) = (stop, st')"
      by (cases "drain_lines parse (now + d) (st\<lparr>dr_pending := dr_pending st @ b\<rparr>)")
    show ?thesis
    proof (cases "(case dr_spooled_at st of Some at \<Rightarrow> grace - (now - at) = 0 | None \<Rightarrow> False) \<or>
                  drain_wait grace now st < d \<or> stop")
      case True
      then show ?thesis using "2.prems" dl
        by (auto simp: drain_timeout_def Chunk Let_def split: option.splits if_splits)
    next
      case False
      then have "drain_loop parse grace (now + d) st' evs = (Inl e, t)"
        using "2.prems" dl by (auto simp: Chunk Let_def split: option.splits if_splits)
      then show ?thesis using "2.IH" [OF _ _ refl Chunk dl [symmetric] refl] False by blast
    qed
  qed (use "2.prems" drain_verdict_not_busy in
        \<open>auto simp: drain_timeout_def Let_def split: option.splits if_splits\<close>)
qed

text \<open>
  Only the server's own answer is \<open>Busy\<close>: a call that fails in that scope received a 503
  with the server's busy header. Everything else that says nothing about the file (a stalled
  body, an unreachable server, a gateway's 5xx) is a failure of the link.
\<close>

theorem busy_only_from_server:
  assumes "upload_file_metered h3 parse env token url = (Some (Inl e), tries)"
    and "failure_scope e = BusyScope"
  shows "\<exists>i v p resp. attempt_upload env i v = Inr (Some (SendOk resp), p) \<and>
           rs_status resp = 503 \<and> rs_busy_header resp"
proof -
  have verdict: "rs_status resp = 503 \<and> rs_busy_header resp"
    if "read_upload_response parse resp = Inl e" for resp
  proof (rule ccontr)
    assume no: "\<not> (rs_status resp = 503 \<and> rs_busy_header resp)"
    have "failure_scope e \<noteq> BusyScope"
      using that no drain_loop_not_busy [of parse relay_confirm_grace 0 drain_start "rs_body resp" e]
      by (cases "drain_upload_progress parse relay_confirm_grace (rs_body resp)")
        (auto simp: read_upload_response_def drain_upload_progress_def split: if_splits)
    then show False using assms(2) by contradiction
  qed
  have early: "attempt_upload env i v = Inl e' \<Longrightarrow> failure_scope e' \<noteq> BusyScope" for i v e'
    by (auto simp: attempt_upload_def Let_def split: sum.splits prod.splits)
  show ?thesis
    using assms transfer_error_not_busy [of "''upload''"] send_error_not_busy early
    by (auto simp: upload_file_metered_def Let_def
        split: if_splits sum.splits option.splits send_result.splits prod.splits)
      (blast dest: verdict)+
qed

theorem busy_only_from_server_witness:
  "\<exists>i v p resp. attempt_upload sample_env i v = Inr (Some (SendOk resp), p) \<and>
     rs_status resp = 503 \<and> rs_busy_header resp"
  using busy_only_from_server [OF sample_upload_run] by simp
end
