(* ===== verification/EngineMonad.thy ===== *)
theory EngineMonad
  imports Prelude
begin

text \<open>
  The shape of the engine's asynchronous code: a function of the state that may return early
  with an error (Rust's \<open>?\<close>) and keeps the state it has reached. \<open>em_keeps R m\<close> says that \<open>m\<close>
  relates every state to the one it leaves, however it returns; for a relation that is
  reflexive and transitive the locale \<open>step_preorder\<close> carries it through the combinators.
\<close>

type_synonym ('s, 'e, 'a) em = "'s \<Rightarrow> ('e, 'a) result \<times> 's"

definition em_return :: "'a \<Rightarrow> ('s, 'e, 'a) em" where
  "em_return a = (\<lambda>s. (Inr a, s))"

definition em_throw :: "'e \<Rightarrow> ('s, 'e, 'a) em" where
  "em_throw e = (\<lambda>s. (Inl e, s))"

definition em_bind :: "('s, 'e, 'a) em \<Rightarrow> ('a \<Rightarrow> ('s, 'e, 'b) em) \<Rightarrow> ('s, 'e, 'b) em" where
  "em_bind m f = (\<lambda>s. case m s of (Inl e, s) \<Rightarrow> (Inl e, s) | (Inr a, s) \<Rightarrow> f a s)"

definition em_then :: "('s, 'e, 'a) em \<Rightarrow> ('s, 'e, 'b) em \<Rightarrow> ('s, 'e, 'b) em" where
  "em_then m n = em_bind m (\<lambda>_. n)"

text \<open>The result of \<open>m\<close> as a value, an error included: what a \<open>match\<close> on it inspects.\<close>

definition em_attempt :: "('s, 'e, 'a) em \<Rightarrow> ('s, 'e, ('e, 'a) result) em" where
  "em_attempt m = (\<lambda>s. case m s of (r, s) \<Rightarrow> (Inr r, s))"

definition em_gets :: "('s \<Rightarrow> 'a) \<Rightarrow> ('s, 'e, 'a) em" where
  "em_gets f = (\<lambda>s. (Inr (f s), s))"

definition em_modify :: "('s \<Rightarrow> 's) \<Rightarrow> ('s, 'e, unit) em" where
  "em_modify f = (\<lambda>s. (Inr (), f s))"

definition em_when :: "bool \<Rightarrow> ('s, 'e, unit) em \<Rightarrow> ('s, 'e, unit) em" where
  "em_when b m = (if b then m else em_return ())"

fun em_each :: "('a \<Rightarrow> ('s, 'e, unit) em) \<Rightarrow> 'a list \<Rightarrow> ('s, 'e, unit) em" where
  "em_each f [] = em_return ()"
| "em_each f (x # xs) = em_then (f x) (em_each f xs)"

fun em_map :: "('a \<Rightarrow> ('s, 'e, 'b) em) \<Rightarrow> 'a list \<Rightarrow> ('s, 'e, 'b list) em" where
  "em_map f [] = em_return []"
| "em_map f (x # xs) = em_bind (f x) (\<lambda>y. em_bind (em_map f xs) (\<lambda>ys. em_return (y # ys)))"

named_theorems em_defs "the combinators unfolded"

declare em_return_def [em_defs] em_throw_def [em_defs] em_bind_def [em_defs]
  em_then_def [em_defs] em_attempt_def [em_defs] em_gets_def [em_defs]
  em_modify_def [em_defs] em_when_def [em_defs]

lemma em_run_simps [simp]:
  "em_return a s = (Inr a, s)"
  "em_throw e s = (Inl e, s)"
  "em_gets f s = (Inr (f s), s)"
  "em_modify g s = (Inr (), g s)"
  by (simp_all add: em_defs)

lemma em_bind_run:
  "em_bind m f s = (case m s of (Inl e, t) \<Rightarrow> (Inl e, t) | (Inr a, t) \<Rightarrow> f a t)"
  by (simp add: em_bind_def)

lemma em_bind_return [simp]: "em_bind (em_return a) f = f a"
  by (simp add: em_defs)

lemma em_bind_gets: "em_bind (em_gets g) f s = f (g s) s"
  by (simp add: em_defs)

lemma em_bind_assoc: "em_bind (em_bind m f) g = em_bind m (\<lambda>a. em_bind (f a) g)"
  by (rule ext) (auto simp: em_bind_def split: prod.splits sum.splits)

text \<open>Elimination of a run, one combinator at a time.\<close>

lemma em_bindE:
  assumes "em_bind m f s = (r, t)"
  obtains (stop) e where "m s = (Inl e, t)" "r = Inl e"
    | (go) a u where "m s = (Inr a, u)" "f a u = (r, t)"
  using assms by (auto simp: em_bind_def split: prod.splits sum.splits)

lemma em_thenE:
  assumes "em_then m n s = (r, t)"
  obtains (stop) e where "m s = (Inl e, t)" "r = Inl e"
    | (go) a u where "m s = (Inr a, u)" "n u = (r, t)"
  using assms by (auto simp: em_then_def em_bind_def split: prod.splits sum.splits)

lemma em_whenE:
  assumes "em_when b m s = (r, t)"
  obtains (no) "\<not> b" "r = Inr ()" "t = s" | (yes) "b" "m s = (r, t)"
  using assms by (auto simp: em_when_def split: if_splits)

lemma em_attemptE:
  assumes "em_attempt m s = (r, t)"
  obtains a where "r = Inr a" "m s = (a, t)"
  using assms by (auto simp: em_attempt_def split: prod.splits)

lemma em_returnE:
  assumes "em_return a s = (r, t)"
  obtains "r = Inr a" "t = s"
  using assms that unfolding em_return_def by blast

lemma em_throwE:
  assumes "em_throw e s = (r, t)"
  obtains "r = Inl e" "t = s"
  using assms that unfolding em_throw_def by blast

lemma em_getsE:
  assumes "em_gets f s = (r, t)"
  obtains "r = Inr (f s)" "t = s"
  using assms that unfolding em_gets_def by blast

lemma em_modifyE:
  assumes "em_modify f s = (r, t)"
  obtains "r = Inr ()" "t = f s"
  using assms that unfolding em_modify_def by blast

lemmas em_elims = em_bindE em_thenE em_whenE em_attemptE em_returnE em_throwE em_getsE em_modifyE

section \<open>Relations kept by every step\<close>

definition em_keeps :: "('s \<Rightarrow> 's \<Rightarrow> bool) \<Rightarrow> ('s, 'e, 'a) em \<Rightarrow> bool" where
  "em_keeps R m \<longleftrightarrow> (\<forall>s. R s (snd (m s)))"

lemma em_keepsD: "em_keeps R m \<Longrightarrow> m s = (r, t) \<Longrightarrow> R s t"
  unfolding em_keeps_def by (metis snd_conv)

lemma em_keepsI: "(\<And>s r t. m s = (r, t) \<Longrightarrow> R s t) \<Longrightarrow> em_keeps R m"
  unfolding em_keeps_def by (metis prod.collapse)

named_theorems em_keeps_rules "syntax-directed rules for em_keeps"

locale step_preorder =
  fixes R :: "'s \<Rightarrow> 's \<Rightarrow> bool"
  assumes refl: "R s s"
    and trans: "R s t \<Longrightarrow> R t u \<Longrightarrow> R s u"
begin

lemma keeps_return: "em_keeps R (em_return a)"
  by (simp add: em_keeps_def refl)

lemma keeps_throw: "em_keeps R (em_throw e)"
  by (simp add: em_keeps_def refl)

lemma keeps_gets: "em_keeps R (em_gets f)"
  by (simp add: em_keeps_def refl)

lemma keeps_modify: "(\<And>s. R s (f s)) \<Longrightarrow> em_keeps R (em_modify f)"
  by (simp add: em_keeps_def)

lemma keeps_bind: "em_keeps R m \<Longrightarrow> (\<And>a. em_keeps R (f a)) \<Longrightarrow> em_keeps R (em_bind m f)"
  unfolding em_keeps_def em_bind_def
  by (auto split: prod.splits sum.splits) (metis snd_conv trans)+

lemma keeps_then: "em_keeps R m \<Longrightarrow> em_keeps R n \<Longrightarrow> em_keeps R (em_then m n)"
  by (simp add: em_then_def keeps_bind)

lemma keeps_attempt: "em_keeps R m \<Longrightarrow> em_keeps R (em_attempt m)"
  by (auto simp: em_keeps_def em_attempt_def split: prod.splits) (metis snd_conv)

lemma keeps_when: "em_keeps R m \<Longrightarrow> em_keeps R (em_when b m)"
  by (simp add: em_when_def keeps_return)

lemma keeps_each: "(\<And>x. x \<in> set xs \<Longrightarrow> em_keeps R (f x)) \<Longrightarrow> em_keeps R (em_each f xs)"
  by (induction xs) (auto intro: keeps_return keeps_then)

lemma keeps_map: "(\<And>x. x \<in> set xs \<Longrightarrow> em_keeps R (f x)) \<Longrightarrow> em_keeps R (em_map f xs)"
  by (induction xs) (auto intro: keeps_return keeps_bind)

lemma keeps_if: "em_keeps R m \<Longrightarrow> em_keeps R n \<Longrightarrow> em_keeps R (if b then m else n)"
  by simp

lemma keeps_case_option:
  "em_keeps R m \<Longrightarrow> (\<And>x. em_keeps R (f x)) \<Longrightarrow> em_keeps R (case z of None \<Rightarrow> m | Some x \<Rightarrow> f x)"
  by (simp split: option.splits)

lemma keeps_case_sum:
  "(\<And>e. em_keeps R (f e)) \<Longrightarrow> (\<And>x. em_keeps R (g x)) \<Longrightarrow>
     em_keeps R (case z of Inl e \<Rightarrow> f e | Inr x \<Rightarrow> g x)"
  by (simp split: sum.splits)

lemma keeps_case_prod: "(\<And>x y. em_keeps R (f x y)) \<Longrightarrow> em_keeps R (case z of (x, y) \<Rightarrow> f x y)"
  by (simp split: prod.splits)

lemmas keeps = keeps_return keeps_throw keeps_gets keeps_bind keeps_then keeps_attempt keeps_when
  keeps_each keeps_map keeps_if keeps_case_option keeps_case_sum keeps_case_prod

end

text \<open>Equality of any view of the state is such a relation.\<close>

lemma step_preorder_view: "step_preorder (\<lambda>s t. v s = v t)"
  by unfold_locales auto

lemma step_preorder_conj:
  "step_preorder R \<Longrightarrow> step_preorder S \<Longrightarrow> step_preorder (\<lambda>s t. R s t \<and> S s t)"
  unfolding step_preorder_def by blast

end
