(* ===== verification/SyncCore.thy ===== *)
theory SyncCore
  imports EngineMonad LocalIndex TransferQueue RemotePaths FsScan UploadProtocol
begin

text \<open>
  The state and the surroundings of the sync engine (crates/sarca-sync/src/engine.rs), and
  the helpers its passes share. The engine reaches the server, the clock, the id generator,
  the disk and the gallery; one record holds the answers they give. Every call is numbered,
  and an answer may depend on the number, so nothing is assumed to stay the same between two
  calls. What the engine does to the outside is recorded in a trace, which only the theorems
  read. A panic of the transfer queue (an index out of bounds) is an error of its own.
\<close>

section \<open>State\<close>

record remote_file_status =
  rf_size :: int
  rf_is_uploaded :: bool
  rf_content_hash :: "string option"
  rf_is_relaying :: "bool option"

definition still_relaying :: "remote_file_status \<Rightarrow> bool" where
  "still_relaying r \<longleftrightarrow> \<not> rf_is_uploaded r \<and> (case rf_is_relaying r of None \<Rightarrow> True | Some b \<Rightarrow> b)"

datatype conflict_choice = KeepLocal | KeepRemote | KeepBoth

datatype push_outcome = PushStored | PushHandedOff | PushSkipped | PushRelaying

text \<open>What one attempt of the upload batch came to, as the batch sees it.\<close>

datatype verdict = Sent push_outcome | FileRefused string | LinkDown string | ServerIsBusy

datatype event =
    RemoteFileAsked uuid string "(api_error, remote_file_status option) result"
  | FolderCreated uuid string string "(api_error, unit) result"
  | Hashed string "(api_error, string) result"
  | Uploaded uuid string string string int string "(api_error, upload_outcome) result"
  | Downloaded uuid string string "(api_error, unit) result"
  | FileRemoved string
  | DirRemoved string
  | DirCreated string
  | FileRenamed string string
  | ConflictAsked string conflict_choice
  | Attempted string verdict

record engine_world =
  ew_index :: local_index
  ew_queue :: transfer_queue
  ew_statuses :: "sync_status list"
  ew_known_dirs :: "(string \<times> string) set"
  ew_step :: nat
  ew_trace :: "event list"

datatype engine_error = Failed api_error | Panicked

type_synonym 'a engine = "(engine_world, engine_error, 'a) em"

record storage_summary =
  sg_id :: uuid
  sg_name :: string

record engine_env =
  en_list_candidates :: "nat \<Rightarrow> binding \<Rightarrow> (api_error, local_candidate list) result"
  en_materialize :: "nat \<Rightarrow> local_candidate \<Rightarrow> (api_error, string \<times> bool) result"
  en_sha256_file :: "nat \<Rightarrow> string \<Rightarrow> (api_error, string) result"
  en_remote_file :: "nat \<Rightarrow> uuid \<Rightarrow> string \<Rightarrow> (api_error, remote_file_status option) result"
  en_create_folder :: "nat \<Rightarrow> uuid \<Rightarrow> string \<Rightarrow> string \<Rightarrow> (api_error, unit) result"
  en_upload :: "nat \<Rightarrow> uuid \<Rightarrow> string \<Rightarrow> string \<Rightarrow> string \<Rightarrow> int \<Rightarrow> string \<Rightarrow>
     (api_error, upload_outcome) result"
  en_download_to :: "nat \<Rightarrow> uuid \<Rightarrow> string \<Rightarrow> string \<Rightarrow> (api_error, unit) result"
  en_snapshot :: "nat \<Rightarrow> uuid \<Rightarrow> (api_error, snapshot_response) result"
  en_changelog :: "nat \<Rightarrow> uuid \<Rightarrow> int \<Rightarrow> nat \<Rightarrow> (api_error, changelog_response) result"
  en_list_storages :: "nat \<Rightarrow> (api_error, storage_summary list) result"
  en_ask :: "nat \<Rightarrow> string \<Rightarrow> string \<Rightarrow> string option \<Rightarrow> string option \<Rightarrow> conflict_choice"
  en_exists :: "nat \<Rightarrow> string \<Rightarrow> bool"
  en_is_dir :: "nat \<Rightarrow> string \<Rightarrow> bool"
  en_metadata :: "nat \<Rightarrow> string \<Rightarrow> (api_error, file_meta) result"
  en_now_ms :: "nat \<Rightarrow> int"
  en_new_id :: "nat \<Rightarrow> string"
  en_show :: "api_error \<Rightarrow> string"          \<comment> \<open>\<open>to_string\<close>\<close>
  en_show_chain :: "api_error \<Rightarrow> string"    \<comment> \<open>the alternate form, with the causes\<close>

text \<open>A call: its answer, one more step, and its event in the trace.\<close>

definition em_ask :: "(nat \<Rightarrow> 'a) \<Rightarrow> 'a engine" where
  "em_ask f = (\<lambda>w. (Inr (f (ew_step w)), w\<lparr>ew_step := Suc (ew_step w)\<rparr>))"

definition em_log :: "event \<Rightarrow> unit engine" where
  "em_log e = em_modify (\<lambda>w. w\<lparr>ew_trace := ew_trace w @ [e]\<rparr>)"

definition em_call :: "(nat \<Rightarrow> 'a) \<Rightarrow> ('a \<Rightarrow> event) \<Rightarrow> 'a engine" where
  "em_call f ev = em_bind (em_ask f) (\<lambda>a. em_then (em_log (ev a)) (em_return a))"

text \<open>The \<open>?\<close> operator on the result of a call.\<close>

definition em_try :: "(api_error, 'a) result \<Rightarrow> 'a engine" where
  "em_try r = (case r of Inl e \<Rightarrow> em_throw (Failed e) | Inr a \<Rightarrow> em_return a)"

definition em_index :: "(local_index \<Rightarrow> local_index) \<Rightarrow> unit engine" where
  "em_index f = em_modify (\<lambda>w. w\<lparr>ew_index := f (ew_index w)\<rparr>)"

definition em_queue :: "(transfer_queue \<Rightarrow> ('a \<times> transfer_queue) option) \<Rightarrow> 'a engine" where
  "em_queue f = (\<lambda>w. case f (ew_queue w) of
       None \<Rightarrow> (Inl Panicked, w)
     | Some (a, q) \<Rightarrow> (Inr a, w\<lparr>ew_queue := q\<rparr>))"

text \<open>\<open>iter_mut().find(..)\<close> and an update in place: the first match only, nothing when there is none.\<close>

fun update_first :: "('a \<Rightarrow> bool) \<Rightarrow> ('a \<Rightarrow> 'a) \<Rightarrow> 'a list \<Rightarrow> 'a list" where
  "update_first P f [] = []"
| "update_first P f (x # xs) = (if P x then f x # xs else x # update_first P f xs)"

section \<open>The retry ladder\<close>

definition upload_parallelism :: nat where "upload_parallelism = 1"

definition upload_backoff_table :: "int list" where
  "upload_backoff_table = [60000, 300000, 1800000, 3600000, 21600000]"

definition max_consecutive_upload_failures :: nat where "max_consecutive_upload_failures = 10"

definition upload_backoff_ms :: "int \<Rightarrow> int" where
  "upload_backoff_ms fail_count =
     (let rung = nat (max fail_count 1) - 1
      in upload_backoff_table ! min rung (length upload_backoff_table - 1))"

definition note_upload_failure :: "engine_env \<Rightarrow> string \<Rightarrow> string \<Rightarrow> string \<Rightarrow> unit engine" where
  "note_upload_failure env binding_id relative_path err =
     em_bind (em_gets (\<lambda>w. get_upload_failure binding_id relative_path (ew_index w))) (\<lambda>previous.
       let fail_count = (case previous of None \<Rightarrow> 0 | Some f \<Rightarrow> uf_fail_count f) + 1
       in em_bind (em_ask (en_now_ms env)) (\<lambda>now.
            em_index (set_upload_failure binding_id relative_path fail_count
              (now + upload_backoff_ms fail_count) err)))"

section \<open>Choosing what to upload\<close>

definition needs_upload :: "local_index \<Rightarrow> string \<Rightarrow> (string \<Rightarrow> int option) \<Rightarrow> int \<Rightarrow> local_candidate \<Rightarrow> bool" where
  "needs_upload ix binding_id backoff now c \<longleftrightarrow>
     (case get_entry binding_id (lc_relative_path c) ix of
        None \<Rightarrow> True
      | Some e \<Rightarrow> ie_size e \<noteq> lc_size c \<or> ie_mtime_ms e \<noteq> lc_mtime_ms c) \<and>
     \<not> (case backoff (lc_relative_path c) of None \<Rightarrow> False | Some next \<Rightarrow> now < next)"

definition filter_pending_candidates ::
  "local_index \<Rightarrow> string \<Rightarrow> int \<Rightarrow> local_candidate list \<Rightarrow> local_candidate list" where
  "filter_pending_candidates ix binding_id now candidates =
     filter (needs_upload ix binding_id (load_upload_backoff binding_id ix) now) candidates"

fun enqueue_all ::
  "(nat \<Rightarrow> string) \<Rightarrow> (nat \<Rightarrow> int) \<Rightarrow> string \<Rightarrow> nat \<Rightarrow> local_candidate list \<Rightarrow> transfer_queue \<Rightarrow>
   ((local_candidate \<times> string) list \<times> transfer_queue) option" where
  "enqueue_all new_id clock binding_id n [] q = Some ([], q)"
| "enqueue_all new_id clock binding_id n (c # cs) q =
     (case enqueue_waiting binding_id Upload (lc_relative_path c) (Some (lc_size c)) (new_id n) (clock n) q of
        None \<Rightarrow> None
      | Some (tid, q) \<Rightarrow>
          (case enqueue_all new_id clock binding_id (Suc n) cs q of
             None \<Rightarrow> None
           | Some (rest, q) \<Rightarrow> Some ((c, tid) # rest, q)))"

definition select_pending_uploads ::
  "local_index \<Rightarrow> (nat \<Rightarrow> string) \<Rightarrow> (nat \<Rightarrow> int) \<Rightarrow> string \<Rightarrow> nat \<Rightarrow> local_candidate list \<Rightarrow>
   transfer_queue \<Rightarrow> ((local_candidate \<times> string) list \<times> transfer_queue) option" where
  "select_pending_uploads ix new_id clock binding_id n candidates q =
     enqueue_all new_id clock binding_id n (filter_pending_candidates ix binding_id (clock n) candidates) q"

section \<open>Transfers\<close>

definition transfer_begin ::
  "engine_env \<Rightarrow> string \<Rightarrow> transfer_direction \<Rightarrow> string \<Rightarrow> int option \<Rightarrow> string engine" where
  "transfer_begin env binding_id d rel sz =
     em_bind (em_ask (\<lambda>n. (en_new_id env n, en_now_ms env n))) (\<lambda>(tid, now).
       em_queue (begin_transfer binding_id d rel sz tid now))"

definition transfer_complete :: "engine_env \<Rightarrow> string \<Rightarrow> unit engine" where
  "transfer_complete env tid =
     em_bind (em_ask (en_now_ms env)) (\<lambda>now.
       em_queue (\<lambda>q. map_option (Pair ()) (complete tid now q)))"

definition transfer_abandon :: "string \<Rightarrow> unit engine" where
  "transfer_abandon tid = em_queue (\<lambda>q. map_option (Pair ()) (abandon tid q))"

definition transfer_promote ::
  "engine_env \<Rightarrow> string \<Rightarrow> string \<Rightarrow> transfer_direction \<Rightarrow> string \<Rightarrow> int option \<Rightarrow> string engine" where
  "transfer_promote env waiting_id binding_id d rel sz =
     em_bind (em_ask (en_now_ms env)) (\<lambda>now.
     em_bind (em_queue (promote waiting_id now)) (\<lambda>found.
       if found then em_return waiting_id
       else em_bind (em_ask (\<lambda>n. (en_new_id env n, en_now_ms env n))) (\<lambda>(tid, now).
              em_queue (begin_transfer binding_id d rel sz tid now))))"

section \<open>Remote folders\<close>

definition forget_remote_dirs :: "string \<Rightarrow> unit engine" where
  "forget_remote_dirs binding_id =
     em_modify (\<lambda>w. w\<lparr>ew_known_dirs := {k \<in> ew_known_dirs w. fst k \<noteq> binding_id}\<rparr>)"

text \<open>The loop over the segments; \<open>built\<close> is the path so far. It never returns an error.\<close>

fun ensure_segments :: "engine_env \<Rightarrow> binding \<Rightarrow> string \<Rightarrow> string list \<Rightarrow> unit engine" where
  "ensure_segments env b built [] = em_return ()"
| "ensure_segments env b built (part # parts) =
     (let folder_parent = (if built = [] then trim_matches CHR ''/'' (b_remote_root b)
                           else join_remote (b_remote_root b) built);
          next_path = (if built = [] then part else built @ ''/'' @ part);
          key = (b_id b, next_path)
      in em_bind (em_gets (\<lambda>w. key \<in> ew_known_dirs w)) (\<lambda>known.
           if known then ensure_segments env b next_path parts
           else em_bind (em_call (\<lambda>n. en_create_folder env n (b_storage_id b) folder_parent part)
                          (FolderCreated (b_storage_id b) folder_parent part)) (\<lambda>r.
                  em_then (em_when (r = Inr ())
                            (em_modify (\<lambda>w. w\<lparr>ew_known_dirs := insert key (ew_known_dirs w)\<rparr>)))
                    (ensure_segments env b next_path parts))))"

definition ensure_remote_parents :: "engine_env \<Rightarrow> binding \<Rightarrow> string \<Rightarrow> unit engine" where
  "ensure_remote_parents env b parent =
     (if parent = [] then em_return ()
      else ensure_segments env b [] (filter (\<lambda>p. p \<noteq> []) (split_on CHR ''/'' parent)))"

lemma em_bind_ask: "em_bind (em_ask f) g w = g (f (ew_step w)) (w\<lparr>ew_step := Suc (ew_step w)\<rparr>)"
  by (simp add: em_bind_def em_ask_def)

lemma em_bind_try:
  "em_bind (em_try (Inr a)) g = g a"
  "em_bind (em_try (Inl e)) g = em_throw (Failed e)"
  by (simp_all add: em_bind_def em_try_def em_throw_def em_return_def)

section \<open>Frames: what each helper leaves alone\<close>

text \<open>Only the queue and the step counter move.\<close>

definition only_queue :: "engine_world \<Rightarrow> engine_world \<Rightarrow> bool" where
  "only_queue w w' \<longleftrightarrow>
     ew_index w' = ew_index w \<and> ew_statuses w' = ew_statuses w \<and>
     ew_known_dirs w' = ew_known_dirs w \<and> ew_trace w' = ew_trace w"

text \<open>The index and the statuses stay, and the trace grows.\<close>

definition keeps_index :: "engine_world \<Rightarrow> engine_world \<Rightarrow> bool" where
  "keeps_index w w' \<longleftrightarrow>
     ew_index w' = ew_index w \<and> ew_statuses w' = ew_statuses w \<and>
     (\<exists>evs. ew_trace w' = ew_trace w @ evs)"

lemma only_queue_keeps_index: "only_queue w w' \<Longrightarrow> keeps_index w w'"
  by (simp add: only_queue_def keeps_index_def)

interpretation queue_frame: step_preorder only_queue
  by unfold_locales (auto simp: only_queue_def)

interpretation index_frame: step_preorder keeps_index
  by unfold_locales (auto simp: keeps_index_def)

lemma only_queue_ask [em_keeps_rules]: "em_keeps only_queue (em_ask f)"
  by (simp add: em_keeps_def em_ask_def only_queue_def)

lemma only_queue_em_queue [em_keeps_rules]: "em_keeps only_queue (em_queue f)"
  by (auto simp: em_keeps_def em_queue_def only_queue_def split: option.splits)

lemma only_queue_transfers [em_keeps_rules]:
  "em_keeps only_queue (transfer_begin env i d rel sz)"
  "em_keeps only_queue (transfer_complete env tid)"
  "em_keeps only_queue (transfer_abandon tid)"
  "em_keeps only_queue (transfer_promote env wid i d rel sz)"
  unfolding transfer_begin_def transfer_complete_def transfer_abandon_def transfer_promote_def
  by (intro queue_frame.keeps em_keeps_rules)+

lemma keeps_index_only_queue: "em_keeps only_queue m \<Longrightarrow> em_keeps keeps_index m"
  by (simp add: em_keeps_def only_queue_keeps_index)

lemma keeps_index_log [em_keeps_rules]: "em_keeps keeps_index (em_log e)"
  by (simp add: em_keeps_def em_log_def keeps_index_def)

lemma keeps_index_call [em_keeps_rules]: "em_keeps keeps_index (em_call f ev)"
  unfolding em_call_def
  by (intro index_frame.keeps keeps_index_only_queue [OF only_queue_ask] em_keeps_rules)

lemma keeps_index_forget [em_keeps_rules]: "em_keeps keeps_index (forget_remote_dirs i)"
  by (simp add: em_keeps_def forget_remote_dirs_def keeps_index_def)

lemma keeps_index_segments: "em_keeps keeps_index (ensure_segments env b built parts)"
proof (induction parts arbitrary: built)
  case (Cons part parts)
  have "em_keeps keeps_index
     (em_modify (\<lambda>w. w\<lparr>ew_known_dirs := insert k (ew_known_dirs w)\<rparr>))" for k
    by (rule index_frame.keeps_modify) (simp add: keeps_index_def)
  then show ?case
    unfolding ensure_segments.simps Let_def
    by (intro index_frame.keeps keeps_index_call Cons.IH)
qed (simp add: index_frame.keeps)

lemma keeps_index_parents [em_keeps_rules]: "em_keeps keeps_index (ensure_remote_parents env b parent)"
  by (simp add: ensure_remote_parents_def keeps_index_segments index_frame.keeps)

text \<open>Only events with a given property are added to the trace.\<close>

definition emits :: "(event \<Rightarrow> bool) \<Rightarrow> engine_world \<Rightarrow> engine_world \<Rightarrow> bool" where
  "emits P w w' \<longleftrightarrow> (\<exists>evs. ew_trace w' = ew_trace w @ evs \<and> (\<forall>e \<in> set evs. P e))"

interpretation emitting: step_preorder "emits P" for P
  by unfold_locales (fastforce simp: emits_def)+

lemma emits_only_queue: "em_keeps only_queue m \<Longrightarrow> em_keeps (emits P) m"
  by (simp add: em_keeps_def only_queue_def emits_def)

lemma emits_log: "P e \<Longrightarrow> em_keeps (emits P) (em_log e)"
  by (simp add: em_keeps_def em_log_def emits_def)

lemma emits_index: "em_keeps (emits P) (em_index f)"
  by (simp add: em_keeps_def em_index_def emits_def)

lemma emits_call: "(\<And>a. P (ev a)) \<Longrightarrow> em_keeps (emits P) (em_call f ev)"
  unfolding em_call_def
  by (intro emitting.keeps emits_only_queue [OF only_queue_ask] emits_log)

lemma emits_try: "em_keeps (emits P) (em_try r)"
  unfolding em_try_def by (intro emitting.keeps)

lemmas emits_queue = only_queue_transfers [THEN emits_only_queue] only_queue_ask [THEN emits_only_queue]
  only_queue_em_queue [THEN emits_only_queue]

lemmas emits_rules = emitting.keeps emits_queue emits_log emits_index emits_call emits_try

lemma em_callE:
  assumes "em_call f ev w = (r, w')"
  obtains a where "r = Inr a" "a = f (ew_step w)" "ew_index w' = ew_index w"
    "ew_queue w' = ew_queue w" "ew_statuses w' = ew_statuses w" "ew_known_dirs w' = ew_known_dirs w"
    "ew_step w' = Suc (ew_step w)" "ew_trace w' = ew_trace w @ [ev a]"
  using assms by (auto simp: em_call_def em_defs em_ask_def em_log_def)

section \<open>A concrete engine\<close>

text \<open>The surroundings and the state that the witnesses run in.\<close>

definition sample_engine_env :: engine_env where
  "sample_engine_env = \<lparr>
     en_list_candidates = (\<lambda>n b. Inr []),
     en_materialize = (\<lambda>n c. Inr (lc_absolute_path c, True)),
     en_sha256_file = (\<lambda>n p. Inr ''h1''),
     en_remote_file = (\<lambda>n sid p. Inr None),
     en_create_folder = (\<lambda>n sid p f. Inr ()),
     en_upload = (\<lambda>n sid p f l m h. if f = ''bad.jpg'' then Inl [HttpStatusError 413 ''too large''] else Inr Stored),
     en_download_to = (\<lambda>n sid p l. Inr ()),
     en_snapshot = (\<lambda>n sid. Inr \<lparr>sr_files = [], sr_cursor = 0\<rparr>),
     en_changelog = (\<lambda>n sid c l. Inr \<lparr>cr_events = [], cr_next_cursor = c, cr_has_more = False\<rparr>),
     en_list_storages = (\<lambda>n. Inr []),
     en_ask = (\<lambda>n i p lh rh. KeepBoth),
     en_exists = (\<lambda>n p. False),
     en_is_dir = (\<lambda>n p. False),
     en_metadata = (\<lambda>n p. Inr \<lparr>fm_len = 1, fm_modified = Some 7\<rparr>),
     en_now_ms = (\<lambda>n. 1000 + int n),
     en_new_id = (\<lambda>n. replicate n CHR ''i''),
     en_show = (\<lambda>e. ''error''),
     en_show_chain = (\<lambda>e. ''error'')\<rparr>"

definition sample_world :: engine_world where
  "sample_world = \<lparr>ew_index = empty_index, ew_queue = empty_queue, ew_statuses = [],
     ew_known_dirs = {}, ew_step = 0, ew_trace = []\<rparr>"

definition sample_candidate :: "string \<Rightarrow> local_candidate" where
  "sample_candidate n = \<lparr>lc_relative_path = n, lc_absolute_path = ''/p/'' @ n, lc_size = 5,
     lc_mtime_ms = 9, lc_ephemeral = False, lc_source_uri = None\<rparr>"

end
