(* ===== verification/PushEngine.thy ===== *)
theory PushEngine
  imports SyncCore
begin

text \<open>
  The upload half of the sync engine (\<open>push_one\<close> and \<open>push_local\<close> of
  crates/sarca-sync/src/engine.rs). One attempt uploads one candidate, or finds that it need
  not; a batch attempts the pending candidates in waves of one, and what a failure does to
  the rest of the batch depends on what it implicates. The theorems say when a file is
  recorded as stored, and exactly which files the retry ladder holds after a batch.
\<close>

section \<open>One candidate\<close>

definition remove_ephemeral :: "bool \<Rightarrow> string \<Rightarrow> unit engine" where
  "remove_ephemeral ephemeral path = em_when ephemeral (em_log (FileRemoved path))"

text \<open>The clean-up before an early return with an error.\<close>

definition give_up :: "string \<Rightarrow> bool \<Rightarrow> string \<Rightarrow> api_error \<Rightarrow> 'a engine" where
  "give_up tid ephemeral path e =
     em_then (transfer_abandon tid)
       (em_then (remove_ephemeral ephemeral path) (em_throw (Failed e)))"

definition record_entry ::
  "binding \<Rightarrow> local_candidate \<Rightarrow> string \<Rightarrow> index_entry option \<Rightarrow> unit engine" where
  "record_entry b c hash existing =
     em_index (\<lambda>ix. upsert_entry (b_id b)
       \<lparr>ie_path = lc_relative_path c, ie_size = lc_size c, ie_mtime_ms = lc_mtime_ms c,
        ie_content_hash = Some hash,
        ie_remote_file_id = (case existing of None \<Rightarrow> None | Some e \<Rightarrow> ie_remote_file_id e),
        ie_last_cursor = get_cursor (b_id b) ix\<rparr> ix)"

text \<open>The last part of an attempt: the folders, the bytes, and the record once they are stored.\<close>

definition push_send ::
  "engine_env \<Rightarrow> binding \<Rightarrow> local_candidate \<Rightarrow> index_entry option \<Rightarrow> string \<Rightarrow>
   string \<Rightarrow> string \<Rightarrow> bool \<Rightarrow> push_outcome engine" where
  "push_send env b c existing hash tid path ephemeral =
     (let (parent, filename) = split_parent_name (lc_relative_path c);
          remote_parent = join_remote (b_remote_root b) parent
      in em_then (ensure_remote_parents env b parent)
          (em_then (em_queue (\<lambda>q. Some (meter tid q)))
            (em_bind (em_call
                (\<lambda>n. en_upload env n (b_storage_id b) remote_parent filename path (lc_mtime_ms c) hash)
                (Uploaded (b_storage_id b) remote_parent filename path (lc_mtime_ms c) hash)) (\<lambda>up.
              case up of
                Inl e \<Rightarrow> give_up tid ephemeral path
                  (Context (''upload '' @ path @ [CHR '' '', CHR 0xE2, CHR 0x86, CHR 0x92, CHR '' '']
                     @ remote_parent @ ''/'' @ filename) # e)
              | Inr outcome \<Rightarrow>
                  em_then (transfer_complete env tid)
                   (em_then (remove_ephemeral ephemeral path)
                     (if outcome = HandedOff then em_return PushHandedOff
                      else em_then (record_entry b c hash existing)
                             (em_return PushStored)))))))"

text \<open>Once the hash is known: the two ways in which the file need not be sent.\<close>

definition push_hashed ::
  "engine_env \<Rightarrow> binding \<Rightarrow> local_candidate \<Rightarrow> index_entry option \<Rightarrow> remote_file_status option \<Rightarrow>
   string \<Rightarrow> string \<Rightarrow> string \<Rightarrow> bool \<Rightarrow> push_outcome engine" where
  "push_hashed env b c existing remote hash tid path ephemeral =
     (if (case existing of None \<Rightarrow> None | Some e \<Rightarrow> ie_content_hash e) = Some hash then
        em_then (case existing of
                   None \<Rightarrow> em_return ()
                 | Some e \<Rightarrow> em_index (upsert_entry (b_id b)
                     (e\<lparr>ie_size := lc_size c, ie_mtime_ms := lc_mtime_ms c\<rparr>)))
          (em_then (transfer_complete env tid)
            (em_then (remove_ephemeral ephemeral path) (em_return PushSkipped)))
      else if (case remote of None \<Rightarrow> False
                 | Some r \<Rightarrow> rf_is_uploaded r \<and> rf_content_hash r = Some hash) then
        em_then (record_entry b c hash existing)
          (em_then (transfer_complete env tid)
            (em_then (remove_ephemeral ephemeral path) (em_return PushSkipped)))
      else push_send env b c existing hash tid path ephemeral)"

text \<open>From the preflight on, once the bytes are on disk at \<open>path\<close>.\<close>

definition push_bytes ::
  "engine_env \<Rightarrow> binding \<Rightarrow> local_candidate \<Rightarrow> index_entry option \<Rightarrow> remote_file_status option \<Rightarrow>
   string \<Rightarrow> string \<Rightarrow> bool \<Rightarrow> push_outcome engine" where
  "push_bytes env b c existing remote tid path ephemeral =
     em_bind (em_call (\<lambda>n. en_sha256_file env n path) (Hashed path)) (\<lambda>h.
       case h of
         Inl e \<Rightarrow> give_up tid ephemeral path (Context (''hash '' @ path) # e)
       | Inr hash \<Rightarrow> push_hashed env b c existing remote hash tid path ephemeral)"

definition push_one ::
  "engine_env \<Rightarrow> binding \<Rightarrow> local_candidate \<Rightarrow> string \<Rightarrow> push_outcome engine" where
  "push_one env b c waiting_id =
     (let rel = lc_relative_path c;
          remote_path = join_remote (b_remote_root b) rel
      in em_bind (em_gets (\<lambda>w. get_entry (b_id b) rel (ew_index w))) (\<lambda>existing.
         em_bind (transfer_promote env waiting_id (b_id b) Upload rel (Some (lc_size c))) (\<lambda>tid.
         em_bind (em_call (\<lambda>n. en_remote_file env n (b_storage_id b) remote_path)
                   (RemoteFileAsked (b_storage_id b) remote_path)) (\<lambda>asked.
         let remote = (case asked of Inl _ \<Rightarrow> None | Inr r \<Rightarrow> r)
         in if (case remote of None \<Rightarrow> False
                  | Some r \<Rightarrow> still_relaying r \<and> rf_size r = lc_size c) then
              em_then (transfer_abandon tid)
                (em_then (remove_ephemeral (lc_ephemeral c) (lc_absolute_path c))
                  (em_return PushRelaying))
            else if lc_source_uri c \<noteq> None then
              em_bind (em_ask (\<lambda>n. en_materialize env n c)) (\<lambda>m.
                case m of
                  Inl e \<Rightarrow> em_then (transfer_abandon tid)
                    (em_throw (Failed (Context (''read '' @ rel @ '' from the gallery'') # e)))
                | Inr (path, ephemeral) \<Rightarrow> push_bytes env b c existing remote tid path ephemeral)
            else push_bytes env b c existing remote tid (lc_absolute_path c) (lc_ephemeral c)))))"

section \<open>The batch\<close>

record push_local_result =
  pl_uploaded :: nat
  pl_scanned :: nat
  pl_pending :: nat
  pl_failed :: nat
  pl_first_error :: "string option"
  pl_relaying :: nat

record batch_state =
  bs_uploaded :: nat
  bs_relaying :: nat
  bs_failed :: nat
  bs_busy :: nat
  bs_first_error :: "string option"
  bs_consecutive :: nat
  bs_stop :: bool

definition batch_start :: batch_state where
  "batch_start = \<lparr>bs_uploaded = 0, bs_relaying = 0, bs_failed = 0, bs_busy = 0,
     bs_first_error = None, bs_consecutive = 0, bs_stop = False\<rparr>"

text \<open>The counters and the stop flag after one result.\<close>

definition batch_count :: "verdict \<Rightarrow> batch_state \<Rightarrow> batch_state" where
  "batch_count v bs =
     (case v of
        Sent outcome \<Rightarrow>
          let bs = (if outcome = PushStored \<or> outcome = PushHandedOff
                    then bs\<lparr>bs_uploaded := bs_uploaded bs + 1\<rparr> else bs);
              bs = (if outcome = PushHandedOff \<or> outcome = PushRelaying
                    then bs\<lparr>bs_relaying := bs_relaying bs + 1\<rparr> else bs)
          in bs\<lparr>bs_consecutive := 0\<rparr>
      | ServerIsBusy \<Rightarrow> bs\<lparr>bs_busy := bs_busy bs + 1\<rparr>
      | LinkDown msg \<Rightarrow>
          let bs = (if bs_first_error bs = None then bs\<lparr>bs_first_error := Some msg\<rparr> else bs)
          in bs\<lparr>bs_stop := True\<rparr>
      | FileRefused msg \<Rightarrow>
          let bs = (if bs_first_error bs = None then bs\<lparr>bs_first_error := Some msg\<rparr> else bs);
              bs = bs\<lparr>bs_failed := bs_failed bs + 1, bs_consecutive := bs_consecutive bs + 1\<rparr>
          in if max_consecutive_upload_failures \<le> bs_consecutive bs
             then bs\<lparr>bs_stop := True\<rparr> else bs)"

definition verdict_of :: "engine_env \<Rightarrow> api_error \<Rightarrow> verdict" where
  "verdict_of env e =
     (case failure_scope e of
        BusyScope \<Rightarrow> ServerIsBusy
      | LinkScope \<Rightarrow> LinkDown (en_show_chain env e)
      | FileScope \<Rightarrow> FileRefused (en_show_chain env e))"

text \<open>What one result does to the index and the cache of remote folders.\<close>

definition settle :: "engine_env \<Rightarrow> binding \<Rightarrow> string \<Rightarrow> verdict \<Rightarrow> unit engine" where
  "settle env b rel v =
     em_then (em_log (Attempted rel v))
       (case v of
          Sent _ \<Rightarrow> em_index (clear_upload_failure (b_id b) rel)
        | ServerIsBusy \<Rightarrow> em_return ()
        | LinkDown _ \<Rightarrow> forget_remote_dirs (b_id b)
        | FileRefused msg \<Rightarrow>
            em_then (forget_remote_dirs (b_id b)) (note_upload_failure env (b_id b) rel msg))"

text \<open>Live progress of an upload-only binding, after each wave.\<close>

definition publish_progress :: "binding \<Rightarrow> batch_state \<Rightarrow> unit engine" where
  "publish_progress b bs =
     em_when (is_upload_only (b_mode b))
       (em_modify (\<lambda>w. w\<lparr>ew_statuses := update_first (\<lambda>s. ss_binding_id s = b_id b)
          (\<lambda>s. s\<lparr>ss_uploading := bs_uploaded bs, ss_failed := bs_failed bs,
                 ss_last_error := bs_first_error bs\<rparr>) (ew_statuses w)\<rparr>))"

text \<open>
  The loop. A wave is one candidate (\<open>upload_parallelism\<close>); the answer is the final counters and
  the candidates the batch did not reach.
\<close>

fun push_batch ::
  "engine_env \<Rightarrow> binding \<Rightarrow> batch_state \<Rightarrow> (local_candidate \<times> string) list \<Rightarrow>
   (batch_state \<times> (local_candidate \<times> string) list) engine" where
  "push_batch env b bs [] = em_return (bs, [])"
| "push_batch env b bs ((c, waiting_id) # rest) =
     em_bind (em_attempt (push_one env b c waiting_id)) (\<lambda>r.
       let continue_with = (\<lambda>v.
             let bs = batch_count v bs
             in em_then (settle env b (lc_relative_path c) v)
                  (em_then (publish_progress b bs)
                    (if bs_stop bs then em_return (bs, rest) else push_batch env b bs rest)))
       in case r of
            Inr outcome \<Rightarrow> continue_with (Sent outcome)
          | Inl (Failed e) \<Rightarrow> continue_with (verdict_of env e)
          | Inl Panicked \<Rightarrow> em_throw Panicked)"

text \<open>Temporary copies that the filter did not select are deleted before the batch.\<close>

definition discard_unselected :: "local_candidate list \<Rightarrow> local_candidate list \<Rightarrow> unit engine" where
  "discard_unselected candidates pending_candidates =
     (let selected = lc_absolute_path ` set (filter lc_ephemeral pending_candidates)
      in em_each (\<lambda>c. em_when (lc_ephemeral c \<and> lc_absolute_path c \<notin> selected)
                          (em_log (FileRemoved (lc_absolute_path c)))) candidates)"

text \<open>All pending candidates enter the transfer queue under one lock.\<close>

definition enqueue_pending ::
  "engine_env \<Rightarrow> binding \<Rightarrow> local_candidate list \<Rightarrow> (local_candidate \<times> string) list engine" where
  "enqueue_pending env b pending_candidates =
     em_bind (em_gets ew_step) (\<lambda>n.
     em_bind (em_queue (enqueue_all (en_new_id env) (en_now_ms env) (b_id b) n pending_candidates)) (\<lambda>pending.
     em_then (em_modify (\<lambda>w. w\<lparr>ew_step := n + length pending_candidates\<rparr>)) (em_return pending)))"

text \<open>A stopped batch gives back the slots and the temporary copies it did not use.\<close>

definition release_unattempted :: "(local_candidate \<times> string) list \<Rightarrow> unit engine" where
  "release_unattempted unattempted =
     em_then (em_each (\<lambda>(c, tid). transfer_abandon tid) unattempted)
       (em_each (\<lambda>(c, tid). remove_ephemeral (lc_ephemeral c) (lc_absolute_path c)) unattempted)"

definition push_local :: "engine_env \<Rightarrow> binding \<Rightarrow> push_local_result engine" where
  "push_local env b =
     em_bind (em_ask (\<lambda>n. en_list_candidates env n b)) (\<lambda>listed.
     em_bind (em_try listed) (\<lambda>candidates.
     em_bind (em_ask (en_now_ms env)) (\<lambda>now.
     em_bind (em_gets (\<lambda>w. filter_pending_candidates (ew_index w) (b_id b) now candidates)) (\<lambda>pending_candidates.
     em_then (discard_unselected candidates pending_candidates)
    (em_bind (enqueue_pending env b pending_candidates) (\<lambda>pending.
     em_bind (push_batch env b batch_start pending) (\<lambda>(bs, unattempted).
     em_then (release_unattempted unattempted)
       (em_return
          \<lparr>pl_uploaded = bs_uploaded bs, pl_scanned = length candidates,
           pl_pending = length pending_candidates, pl_failed = bs_failed bs,
           pl_first_error = bs_first_error bs, pl_relaying = bs_relaying bs\<rparr>))))))))"

section \<open>When a file is recorded\<close>

lemma keeps_index_remove [em_keeps_rules]: "em_keeps keeps_index (remove_ephemeral eph path)"
  unfolding remove_ephemeral_def by (intro index_frame.keeps em_keeps_rules)

lemma keeps_index_complete [em_keeps_rules]: "em_keeps keeps_index (transfer_complete env tid)"
  by (intro keeps_index_only_queue em_keeps_rules)

lemma keeps_index_queue [em_keeps_rules]: "em_keeps keeps_index (em_queue f)"
  by (intro keeps_index_only_queue em_keeps_rules)

lemma give_up_run:
  assumes "give_up tid eph path e w = (r, w')"
  shows "keeps_index w w' \<and> (r = Inl (Failed e) \<or> r = Inl Panicked)"
proof -
  have "em_keeps keeps_index (give_up tid eph path e :: 'a engine)"
    unfolding give_up_def by (intro index_frame.keeps em_keeps_rules keeps_index_only_queue)
  moreover have "r = Inl (Failed e) \<or> r = Inl Panicked"
    using assms
    by (auto simp: give_up_def transfer_abandon_def em_queue_def remove_ephemeral_def em_log_def
        em_defs split: option.splits if_splits)
  ultimately show ?thesis using assms by (blast dest: em_keepsD)
qed

text \<open>Completing a transfer and deleting the temporary copy fail only by a panic.\<close>

lemma finish_run:
  assumes "em_then (transfer_complete env tid) (em_then (remove_ephemeral eph path) m) w = (r, w')"
  obtains "keeps_index w w'" "r = Inl Panicked" | u where "keeps_index w u" "m u = (r, w')"
proof -
  have c: "em_keeps keeps_index (transfer_complete env tid)"
    and d: "em_keeps keeps_index (remove_ephemeral eph path)" by (rule em_keeps_rules)+
  have panic: "r = Inl Panicked" if "transfer_complete env tid w = (Inl e, w')" "r = Inl e" for e
    using that by (auto simp: transfer_complete_def em_ask_def em_queue_def em_defs split: option.splits)
  have fine: "remove_ephemeral eph path v = (Inl e, w') \<Longrightarrow> False" for v e
    by (auto simp: remove_ephemeral_def em_log_def em_defs split: if_splits)
  from assms show thesis
  proof (cases rule: em_thenE)
    case (stop e)
    with that(1) panic em_keepsD [OF c stop(1)] show thesis by blast
  next
    case (go a v)
    note v = em_keepsD [OF c go(1)]
    from go(2) show thesis
    proof (cases rule: em_thenE)
      case (stop e)
      with fine show thesis by blast
    next
      case (go a' u)
      from that(2) [OF index_frame.trans [OF v em_keepsD [OF d go(1)]] go(2)] show thesis .
    qed
  qed
qed

text \<open>
  What one attempt may do to the index: nothing, or one entry for its own file with a hash
  for which \<open>ev\<close> holds of the call's events; and which results go with which.
\<close>

definition attempt_ok ::
  "binding \<Rightarrow> local_candidate \<Rightarrow> (string \<Rightarrow> event list \<Rightarrow> bool) \<Rightarrow> engine_world \<Rightarrow>
   (engine_error, push_outcome) result \<Rightarrow> engine_world \<Rightarrow> bool" where
  "attempt_ok b c ev w r w' \<longleftrightarrow>
     ew_statuses w' = ew_statuses w \<and>
     (\<exists>evs. ew_trace w' = ew_trace w @ evs \<and>
       (ew_index w' = ew_index w \<and> r \<noteq> Inr PushStored \<or>
        (\<exists>e hash. ew_index w' = upsert_entry (b_id b) e (ew_index w) \<and>
           ie_path e = lc_relative_path c \<and> ie_content_hash e = Some hash \<and>
           ie_size e = lc_size c \<and> ie_mtime_ms e = lc_mtime_ms c \<and> ev hash evs) \<and>
        (r = Inr PushStored \<or> r = Inr PushSkipped \<or> r = Inl Panicked)))"

lemma attempt_ok_same:
  "keeps_index w w' \<Longrightarrow> r \<noteq> Inr PushStored \<Longrightarrow> attempt_ok b c ev w r w'"
  unfolding keeps_index_def attempt_ok_def by blast

lemma attempt_ok_after:
  assumes "keeps_index w u" and "attempt_ok b c ev u r w'"
    and "\<And>h pre evs. ew_trace u = ew_trace w @ pre \<Longrightarrow> ev h evs \<Longrightarrow> ev' h (pre @ evs)"
  shows "attempt_ok b c ev' w r w'"
proof -
  from assms(1) obtain pre where "ew_trace u = ew_trace w @ pre" "ew_index u = ew_index w"
    "ew_statuses u = ew_statuses w" by (auto simp: keeps_index_def)
  then show ?thesis
    using assms(2) assms(3) [of pre] unfolding attempt_ok_def by (metis append.assoc)
qed

definition uploaded_now :: "binding \<Rightarrow> string \<Rightarrow> event list \<Rightarrow> bool" where
  "uploaded_now b hash evs \<longleftrightarrow>
     (\<exists>parent name path m. Uploaded (b_storage_id b) parent name path m hash (Inr Stored) \<in> set evs)"

lemma record_entry_ok:
  assumes "em_then (record_entry b c hash existing) (em_return out) w = (r, w')" and "ev hash []"
    and "out = PushStored \<or> out = PushSkipped"
  shows "attempt_ok b c ev w r w'"
  using assms by (fastforce simp: attempt_ok_def record_entry_def em_index_def em_defs)

lemma push_send_ok:
  assumes "push_send env b c existing hash tid path eph w = (r, w')"
  shows "attempt_ok b c (\<lambda>h evs. h = hash \<and> uploaded_now b h evs) w r w'"
proof -
  obtain parent filename where pf: "split_parent_name (lc_relative_path c) = (parent, filename)"
    by (cases "split_parent_name (lc_relative_path c)")
  let ?rp = "join_remote (b_remote_root b) parent"
  let ?ev = "\<lambda>h evs. h = hash \<and> uploaded_now b h evs"
  note run = assms [unfolded push_send_def pf Let_def prod.case]
  have k1: "em_keeps keeps_index (ensure_remote_parents env b parent)"
    and k2: "em_keeps keeps_index (em_queue (\<lambda>q. Some (meter tid q)))" by (rule em_keeps_rules)+
  from run show ?thesis
  proof (cases rule: em_thenE)
    case (stop e)
    then show ?thesis using em_keepsD [OF k1 stop(1)] by (simp add: attempt_ok_same)
  next
    case (go a w1)
    note w1 = em_keepsD [OF k1 go(1)]
    from go(2) show ?thesis
    proof (cases rule: em_thenE)
      case (stop e)
      then show ?thesis
        using index_frame.trans [OF w1 em_keepsD [OF k2 stop(1)]] by (simp add: attempt_ok_same)
    next
      case (go a' w2)
      note w2 = index_frame.trans [OF w1 em_keepsD [OF k2 go(1)]]
      from go(2) show ?thesis
      proof (cases rule: em_bindE)
        case (stop e)
        then show ?thesis by (auto elim: em_callE)
      next
        case (go up w3)
        have w3: "keeps_index w w3" and tr: "ew_trace w3 = ew_trace w2 @
            [Uploaded (b_storage_id b) ?rp filename path (lc_mtime_ms c) hash up]"
          using w2 go(1) by (auto simp: keeps_index_def elim!: em_callE)
        show ?thesis
        proof (cases up)
          case (Inl e)
          then show ?thesis using go(2) give_up_run index_frame.trans [OF w3]
            by (fastforce intro: attempt_ok_same)
        next
          case (Inr out)
          from go(2) [unfolded Inr sum.case] show ?thesis
          proof (cases rule: finish_run)
            case 1
            then show ?thesis using index_frame.trans [OF w3] by (simp add: attempt_ok_same)
          next
            case (2 u)
            note u = index_frame.trans [OF w3 2(1)]
            show ?thesis
            proof (cases "out = HandedOff")
              case True
              then show ?thesis using 2(2) u by (auto intro: attempt_ok_same)
            next
              case False
              then have out: "out = Stored" by (cases out) simp_all
              have "attempt_ok b c (\<lambda>h evs. h = hash) u r w'"
                by (rule record_entry_ok [OF 2(2) [unfolded if_not_P [OF False]]]) simp_all
              moreover have "uploaded_now b hash (pre @ evs)"
                if "ew_trace u = ew_trace w @ pre" for pre evs
              proof -
                from w2 obtain p where p: "ew_trace w2 = ew_trace w @ p" by (auto simp: keeps_index_def)
                from 2(1) obtain q where "ew_trace u = ew_trace w3 @ q" by (auto simp: keeps_index_def)
                then have "pre = p @ [Uploaded (b_storage_id b) ?rp filename path (lc_mtime_ms c) hash (Inr Stored)] @ q"
                  using that p tr Inr out by simp
                then show ?thesis unfolding uploaded_now_def by auto
              qed
              ultimately show ?thesis using attempt_ok_after [OF u, of b c "\<lambda>h evs. h = hash" r w' ?ev] by blast
            qed
          qed
        qed
      qed
    qed
  qed
qed

text \<open>Once the hash is known, and from the preflight on.\<close>

definition has_hash :: "index_entry option \<Rightarrow> remote_file_status option \<Rightarrow> string \<Rightarrow> bool" where
  "has_hash existing remote hash \<longleftrightarrow>
     (\<exists>e. existing = Some e \<and> ie_content_hash e = Some hash) \<or>
     (\<exists>r. remote = Some r \<and> rf_is_uploaded r \<and> rf_content_hash r = Some hash)"

lemma skip_ok:
  assumes "em_then m (em_then (transfer_complete env tid) (em_then (remove_ephemeral eph path)
             (em_return PushSkipped))) w = (r, w')"
    and "\<And>r u. m w = (r, u) \<Longrightarrow> \<exists>a. r = Inr a \<and> attempt_ok b c ev w (Inr PushSkipped) u"
    and "\<And>h evs more. ev h evs \<Longrightarrow> ev h (evs @ more)"
  shows "attempt_ok b c ev w r w'"
proof -
  obtain a u where u: "m w = (Inr a, u)" and
    run: "em_then (transfer_complete env tid) (em_then (remove_ephemeral eph path)
             (em_return PushSkipped)) u = (r, w')"
    by (rule em_thenE [OF assms(1)]) (use assms(2) in blast)+
  have ok: "attempt_ok b c ev w (Inr PushSkipped) u" using assms(2) [OF u] by blast
  have fin: "keeps_index u w' \<and> (r = Inl Panicked \<or> r = Inr PushSkipped)"
    using run by (elim finish_run) auto
  then obtain more where "ew_trace w' = ew_trace u @ more" "ew_index w' = ew_index u"
    "ew_statuses w' = ew_statuses u" by (auto simp: keeps_index_def)
  then show ?thesis
    using ok fin assms(3) unfolding attempt_ok_def
    by (metis append.assoc sum.simps(1) sum.simps(4) push_outcome.simps(3))
qed

lemma push_hashed_ok:
  assumes "push_hashed env b c existing remote hash tid path eph w = (r, w')"
    and "\<And>e. existing = Some e \<Longrightarrow> ie_path e = lc_relative_path c"
  shows "attempt_ok b c (\<lambda>h evs. h = hash \<and> (has_hash existing remote h \<or> uploaded_now b h evs)) w r w'"
    (is "attempt_ok b c ?ev w r w'")
proof (cases "(case existing of None \<Rightarrow> None | Some e \<Rightarrow> ie_content_hash e) = Some hash")
  case True
  then obtain e where e: "existing = Some e" "ie_content_hash e = Some hash"
    by (cases existing) auto
  let ?m = "em_index (upsert_entry (b_id b) (e\<lparr>ie_size := lc_size c, ie_mtime_ms := lc_mtime_ms c\<rparr>)) :: unit engine"
  have run: "em_then ?m (em_then (transfer_complete env tid) (em_then (remove_ephemeral eph path)
             (em_return PushSkipped))) w = (r, w')"
    using assms(1) True by (simp add: push_hashed_def e)
  show ?thesis
  proof (rule skip_ok [OF run])
    fix r u assume "?m w = (r, u)"
    then show "\<exists>a. r = Inr a \<and> attempt_ok b c ?ev w (Inr PushSkipped) u"
      using e assms(2) [OF e(1)] unfolding attempt_ok_def has_hash_def
      by (auto simp: em_index_def em_defs intro!: exI [where x = "[]"] exI [where x = "e\<lparr>ie_size := lc_size c, ie_mtime_ms := lc_mtime_ms c\<rparr>"])
  qed (auto simp: uploaded_now_def)
next
  case no: False
  show ?thesis
  proof (cases "case remote of None \<Rightarrow> False | Some r \<Rightarrow> rf_is_uploaded r \<and> rf_content_hash r = Some hash")
    case True
    have run: "em_then (record_entry b c hash existing) (em_then (transfer_complete env tid)
        (em_then (remove_ephemeral eph path) (em_return PushSkipped))) w = (r, w')"
      using assms(1) True no unfolding push_hashed_def by (simp only: if_False if_True)
    show ?thesis
    proof (rule skip_ok [OF run])
      fix r u assume "record_entry b c hash existing w = (r, u)"
      then show "\<exists>a. r = Inr a \<and> attempt_ok b c ?ev w (Inr PushSkipped) u"
        using True unfolding attempt_ok_def has_hash_def
        by (fastforce simp: record_entry_def em_index_def em_defs split: option.splits)
    qed (auto simp: uploaded_now_def)
  next
    case False
    then have "push_send env b c existing hash tid path eph w = (r, w')"
      using assms(1) no unfolding push_hashed_def by (simp only: if_False)
    from attempt_ok_after [OF index_frame.refl push_send_ok [OF this], of ?ev] show ?thesis by auto
  qed
qed

definition hashed_now :: "string \<Rightarrow> event list \<Rightarrow> bool" where
  "hashed_now hash evs \<longleftrightarrow> (\<exists>path. Hashed path (Inr hash) \<in> set evs)"

lemma push_bytes_ok:
  assumes "push_bytes env b c existing remote tid path eph w = (r, w')"
    and "\<And>e. existing = Some e \<Longrightarrow> ie_path e = lc_relative_path c"
  shows "attempt_ok b c
     (\<lambda>h evs. hashed_now h evs \<and> (has_hash existing remote h \<or> uploaded_now b h evs)) w r w'"
  using assms(1) unfolding push_bytes_def
proof (cases rule: em_bindE)
  case (stop e)
  then show ?thesis by (auto elim: em_callE)
next
  case (go h u)
  have u: "keeps_index w u" and tr: "ew_trace u = ew_trace w @ [Hashed path h]"
    using go(1) by (auto simp: keeps_index_def elim!: em_callE)
  show ?thesis
  proof (cases h)
    case (Inl e)
    then show ?thesis using go(2) give_up_run index_frame.trans [OF u]
      by (fastforce intro: attempt_ok_same)
  next
    case (Inr hash)
    have "push_hashed env b c existing remote hash tid path eph u = (r, w')"
      using go(2) Inr by simp
    note ok = push_hashed_ok [OF this assms(2)]
    show ?thesis
      by (rule attempt_ok_after [OF u ok]) (use tr Inr in \<open>auto simp: hashed_now_def uploaded_now_def\<close>)
  qed
qed

text \<open>The whole attempt.\<close>

definition said_stored :: "binding \<Rightarrow> string \<Rightarrow> string \<Rightarrow> event list \<Rightarrow> bool" where
  "said_stored b remote_path hash evs \<longleftrightarrow>
     (\<exists>r. RemoteFileAsked (b_storage_id b) remote_path (Inr (Some r)) \<in> set evs \<and>
          rf_is_uploaded r \<and> rf_content_hash r = Some hash)"

lemma push_one_ok:
  assumes "push_one env b c wid w = (r, w')"
  shows "attempt_ok b c (\<lambda>h evs. hashed_now h evs \<and>
     ((\<exists>e. get_entry (b_id b) (lc_relative_path c) (ew_index w) = Some e \<and> ie_content_hash e = Some h) \<or>
      said_stored b (join_remote (b_remote_root b) (lc_relative_path c)) h evs \<or> uploaded_now b h evs)) w r w'"
    (is "attempt_ok b c ?ev w r w'")
proof -
  let ?rel = "lc_relative_path c"
  let ?rp = "join_remote (b_remote_root b) ?rel"
  define existing where "existing = get_entry (b_id b) ?rel (ew_index w)"
  have path: "ie_path e = ?rel" if "existing = Some e" for e
    using that by (auto simp: existing_def get_entry_def er_key_def dest: row_get_SomeD)
  have q: "em_keeps keeps_index (transfer_promote env wid (b_id b) Upload ?rel (Some (lc_size c)))"
    by (intro keeps_index_only_queue em_keeps_rules)
  have ab: "em_keeps keeps_index (transfer_abandon tid)" for tid
    by (intro keeps_index_only_queue em_keeps_rules)
  have mat: "em_keeps keeps_index (em_ask f)" for f :: "nat \<Rightarrow> 'x"
    by (intro keeps_index_only_queue em_keeps_rules)
  from assms [unfolded push_one_def Let_def em_bind_gets existing_def [symmetric]] show ?thesis
  proof (cases rule: em_bindE)
    case (stop e)
    then show ?thesis using em_keepsD [OF q stop(1)] by (simp add: attempt_ok_same)
  next
    case (go tid w1)
    note w1 = em_keepsD [OF q go(1)]
    from go(2) show ?thesis
    proof (cases rule: em_bindE)
      case (stop e)
      then show ?thesis by (auto elim: em_callE)
    next
      case (go asked w2)
      let ?remote = "case asked of Inl _ \<Rightarrow> None | Inr r \<Rightarrow> r"
      have w2: "keeps_index w w2" and tr: "ew_trace w2 = ew_trace w1 @ [RemoteFileAsked (b_storage_id b) ?rp asked]"
        using w1 go(1) by (auto simp: keeps_index_def elim!: em_callE)
      have bytes: "attempt_ok b c ?ev w r w'"
        if "keeps_index w2 w3" "push_bytes env b c existing ?remote tid p eph w3 = (r, w')" for w3 p eph
      proof -
        have ok: "attempt_ok b c (\<lambda>h evs. hashed_now h evs \<and> (has_hash existing ?remote h \<or> uploaded_now b h evs)) w3 r w'"
          by (rule push_bytes_ok [OF that(2)]) (rule path)
        note w3 = that(1)
        show ?thesis
      proof (rule attempt_ok_after [OF index_frame.trans [OF w2 w3] ok])
        fix h pre evs
        assume tr3: "ew_trace w3 = ew_trace w @ pre"
          and ev: "hashed_now h evs \<and> (has_hash existing ?remote h \<or> uploaded_now b h evs)"
        obtain p1 p2 where "ew_trace w1 = ew_trace w @ p1" "ew_trace w3 = ew_trace w2 @ p2"
          using w1 w3 by (auto simp: keeps_index_def)
        then have pre: "RemoteFileAsked (b_storage_id b) ?rp asked \<in> set pre"
          using tr tr3 by simp
        have "said_stored b ?rp h (pre @ evs)"
          if "\<exists>r. ?remote = Some r \<and> rf_is_uploaded r \<and> rf_content_hash r = Some h"
          using that pre by (cases asked) (auto simp: said_stored_def)
        then show "?ev h (pre @ evs)"
          using ev by (auto simp: has_hash_def existing_def hashed_now_def uploaded_now_def)
      qed
      qed
      show ?thesis
      proof (cases "case ?remote of None \<Rightarrow> False | Some r \<Rightarrow> still_relaying r \<and> rf_size r = lc_size c")
        case True
        have run: "em_then (transfer_abandon tid) (em_then (remove_ephemeral (lc_ephemeral c) (lc_absolute_path c))
            (em_return PushRelaying)) w2 = (r, w')" using go(2) True by simp
        have k: "em_keeps keeps_index (em_then (transfer_abandon tid)
            (em_then (remove_ephemeral (lc_ephemeral c) (lc_absolute_path c)) (em_return PushRelaying)))"
          by (intro index_frame.keeps ab em_keeps_rules)
        have "r \<noteq> Inr PushStored"
          using run by (auto simp: em_then_def em_bind_def split: prod.splits sum.splits)
        then show ?thesis
          by (intro attempt_ok_same index_frame.trans [OF w2 em_keepsD [OF k run]])
      next
        case no: False
        show ?thesis
        proof (cases "lc_source_uri c = None")
          case True
          then show ?thesis using go(2) no bytes [OF index_frame.refl] by simp
        next
          case False
          have "em_bind (em_ask (\<lambda>n. en_materialize env n c)) (\<lambda>m. case m of
               Inl e \<Rightarrow> em_then (transfer_abandon tid)
                    (em_throw (Failed (Context (''read '' @ ?rel @ '' from the gallery'') # e)))
             | Inr (p, eph) \<Rightarrow> push_bytes env b c existing ?remote tid p eph) w2 = (r, w')"
            using go(2) unfolding if_not_P [OF no] if_P [OF False] .
          then show ?thesis
          proof (cases rule: em_bindE)
            case (stop e)
            then show ?thesis by (simp add: em_ask_def)
          next
            case (go m w3)
            note w3 = em_keepsD [OF mat go(1)]
            show ?thesis
            proof (cases m)
              case (Inl e)
              then have "em_then (transfer_abandon tid)
                  (em_throw (Failed (Context (''read '' @ ?rel @ '' from the gallery'') # e))) w3 = (r, w')"
                using go(2) by simp
              then obtain a where "transfer_abandon tid w3 = (a, w')" and r: "r \<noteq> Inr PushStored"
                by (auto simp: em_then_def em_bind_def split: prod.splits sum.splits)
              then have "keeps_index w3 w' \<and> r \<noteq> Inr PushStored"
                using em_keepsD [OF ab] by blast
              then show ?thesis using index_frame.trans [OF w2 index_frame.trans [OF w3]]
                by (blast intro: attempt_ok_same)
            next
              case (Inr pe)
              then show ?thesis using go(2) bytes [OF w3] by (cases pe) simp
            qed
          qed
        qed
      qed
    qed
  qed
qed

section \<open>What a batch does to the retry ladder\<close>

text \<open>The failure count of a file after a sequence of attempts, and how a streak runs.\<close>

definition fail_count_of :: "local_index \<Rightarrow> string \<Rightarrow> string \<Rightarrow> int" where
  "fail_count_of ix i p = (case get_upload_failure i p ix of None \<Rightarrow> 0 | Some f \<Rightarrow> uf_fail_count f)"

fun ladder :: "string \<Rightarrow> (string \<times> verdict) list \<Rightarrow> int \<Rightarrow> int" where
  "ladder p [] n = n"
| "ladder p ((q, v) # atts) n =
     ladder p atts
       (if q \<noteq> p then n
        else case v of Sent _ \<Rightarrow> 0 | FileRefused _ \<Rightarrow> n + 1 | LinkDown _ \<Rightarrow> n | ServerIsBusy \<Rightarrow> n)"

fun streak :: "verdict list \<Rightarrow> nat \<Rightarrow> nat" where
  "streak [] n = n"
| "streak (v # vs) n =
     streak vs (case v of Sent _ \<Rightarrow> 0 | FileRefused _ \<Rightarrow> n + 1 | LinkDown _ \<Rightarrow> n | ServerIsBusy \<Rightarrow> n)"

abbreviation is_link_down :: "verdict \<Rightarrow> bool" where
  "is_link_down v \<equiv> (\<exists>msg. v = LinkDown msg)"

abbreviation implicates_file :: "verdict \<Rightarrow> bool" where
  "implicates_file v \<equiv> (\<exists>msg. v = FileRefused msg) \<or> (\<exists>out. v = Sent out)"

lemma attempt_failures:
  assumes "attempt_ok b c ev w r w'"
  shows "get_upload_failure i p (ew_index w') = get_upload_failure i p (ew_index w)"
  using assms by (auto simp: attempt_ok_def index_simps)

lemma settle_run:
  assumes "settle env b rel v w = (r, w')"
  shows "r = Inr () \<and> ew_queue w' = ew_queue w \<and> ew_statuses w' = ew_statuses w \<and>
     (\<forall>i p. get_entry i p (ew_index w') = get_entry i p (ew_index w)) \<and>
     (\<forall>i p. i \<noteq> b_id b \<or> p \<noteq> rel \<or> \<not> implicates_file v \<longrightarrow>
        get_upload_failure i p (ew_index w') = get_upload_failure i p (ew_index w)) \<and>
     (\<forall>i p. fail_count_of (ew_index w') i p =
        (if i = b_id b then ladder p [(rel, v)] (fail_count_of (ew_index w) i p)
         else fail_count_of (ew_index w) i p)) \<and>
     ew_trace w' = ew_trace w @ [Attempted rel v]"
  using assms
  by (cases v)
    (auto simp: settle_def em_log_def em_index_def forget_remote_dirs_def note_upload_failure_def
      em_ask_def em_defs Let_def index_simps fail_count_of_def)

lemma publish_run:
  "publish_progress b bs w = (r, w') \<Longrightarrow> r = Inr () \<and> ew_index w' = ew_index w \<and>
     ew_queue w' = ew_queue w \<and> ew_trace w' = ew_trace w"
  by (auto simp: publish_progress_def em_defs split: if_splits)

text \<open>The verdict the loop takes from a result that is not a panic.\<close>

definition verdict_of_result :: "engine_env \<Rightarrow> (engine_error, push_outcome) result \<Rightarrow> verdict option" where
  "verdict_of_result env r =
     (case r of Inr out \<Rightarrow> Some (Sent out) | Inl (Failed e) \<Rightarrow> Some (verdict_of env e) | Inl Panicked \<Rightarrow> None)"

lemma push_batch_step:
  assumes "push_batch env b bs ((c, wid) # rest) w = (Inr res, w')"
  obtains r v w1 w2 where "push_one env b c wid w = (r, w1)" "verdict_of_result env r = Some v"
    "em_then (settle env b (lc_relative_path c) v) (publish_progress b (batch_count v bs)) w1 = (Inr (), w2)"
    "if bs_stop (batch_count v bs) then res = (batch_count v bs, rest) \<and> w' = w2
     else push_batch env b (batch_count v bs) rest w2 = (Inr res, w')"
proof -
  obtain r w1 where one: "push_one env b c wid w = (r, w1)" by (cases "push_one env b c wid w")
  have v: "\<exists>v. verdict_of_result env r = Some v \<and>
     em_then (settle env b (lc_relative_path c) v)
       (em_then (publish_progress b (batch_count v bs))
         (if bs_stop (batch_count v bs) then em_return (batch_count v bs, rest)
          else push_batch env b (batch_count v bs) rest)) w1 = (Inr res, w')"
    using assms one
    by (cases r) (auto simp: em_bind_def em_attempt_def verdict_of_result_def Let_def
        split: engine_error.splits)
  then obtain v where v: "verdict_of_result env r = Some v" and
    run: "em_then (settle env b (lc_relative_path c) v)
       (em_then (publish_progress b (batch_count v bs))
         (if bs_stop (batch_count v bs) then em_return (batch_count v bs, rest)
          else push_batch env b (batch_count v bs) rest)) w1 = (Inr res, w')" by blast
  obtain w2 where "em_then (settle env b (lc_relative_path c) v)
      (publish_progress b (batch_count v bs)) w1 = (Inr (), w2)"
    and "if bs_stop (batch_count v bs) then res = (batch_count v bs, rest) \<and> w' = w2
     else push_batch env b (batch_count v bs) rest w2 = (Inr res, w')"
    using run by (auto simp: em_then_def em_bind_def split: prod.splits sum.splits if_splits)
  then show thesis by (rule that [OF one v])
qed

definition batch_run ::
  "binding \<Rightarrow> batch_state \<Rightarrow> (local_candidate \<times> string) list \<Rightarrow> engine_world \<Rightarrow>
   (string \<times> verdict) list \<Rightarrow> batch_state \<times> (local_candidate \<times> string) list \<Rightarrow> engine_world \<Rightarrow> bool" where
  "batch_run b bs pending w atts res w' \<longleftrightarrow>
     length atts \<le> length pending \<and> snd res = drop (length atts) pending \<and>
     map fst atts = map (lc_relative_path \<circ> fst) (take (length atts) pending) \<and>
     fst res = fold (batch_count \<circ> snd) atts bs \<and>
     (length atts < length pending \<longrightarrow> bs_stop (fst res)) \<and>
     (\<forall>k < length atts. k \<noteq> 0 \<longrightarrow> \<not> bs_stop (fold (batch_count \<circ> snd) (take k atts) bs)) \<and>
     (\<forall>i p. (i \<noteq> b_id b \<or> (\<forall>v. (p, v) \<in> set atts \<longrightarrow> \<not> implicates_file v)) \<longrightarrow>
        get_upload_failure i p (ew_index w') = get_upload_failure i p (ew_index w)) \<and>
     (\<forall>p. fail_count_of (ew_index w') (b_id b) p = ladder p atts (fail_count_of (ew_index w) (b_id b) p))"

lemma batch_run_failure_same:
  assumes "batch_run b bs pending w atts res w'"
    and "i \<noteq> b_id b \<or> (\<forall>v. (p, v) \<in> set atts \<longrightarrow> \<not> implicates_file v)"
  shows "get_upload_failure i p (ew_index w') = get_upload_failure i p (ew_index w)"
  using assms unfolding batch_run_def by presburger

lemma batch_run_final: "batch_run b bs pending w atts res w' \<Longrightarrow> fst res = fold (batch_count \<circ> snd) atts bs"
  by (simp add: batch_run_def)

lemma batch_run_stopped:
  "batch_run b bs pending w atts res w' \<Longrightarrow> length atts < length pending \<Longrightarrow> bs_stop (fst res)"
  unfolding batch_run_def by blast

lemma batch_run_ladder:
  "batch_run b bs pending w atts res w' \<Longrightarrow>
   fail_count_of (ew_index w') (b_id b) p = ladder p atts (fail_count_of (ew_index w) (b_id b) p)"
  unfolding batch_run_def by blast

lemma push_batch_run:
  assumes "push_batch env b bs pending w = (Inr res, w')"
  shows "\<exists>atts. batch_run b bs pending w atts res w'"
  using assms
proof (induction pending arbitrary: bs w)
  case Nil
  then have "batch_run b bs [] w [] res w'" by (auto simp: batch_run_def em_return_def)
  then show ?case by blast
next
  case (Cons x rest)
  obtain c wid where x: "x = (c, wid)" by (cases x)
  let ?rel = "lc_relative_path c"
  from push_batch_step [OF Cons.prems [unfolded x]] obtain r v w1 w2 where
    one: "push_one env b c wid w = (r, w1)" and
    st: "em_then (settle env b ?rel v) (publish_progress b (batch_count v bs)) w1 = (Inr (), w2)" and
    cont: "if bs_stop (batch_count v bs) then res = (batch_count v bs, rest) \<and> w' = w2
     else push_batch env b (batch_count v bs) rest w2 = (Inr res, w')" by metis
  obtain a wm where s0: "settle env b ?rel v w1 = (a, wm)" by (cases "settle env b ?rel v w1")
  then have s: "settle env b ?rel v w1 = (Inr (), wm)" using settle_run [OF s0] by simp
  then have p: "publish_progress b (batch_count v bs) wm = (Inr (), w2)"
    using st by (simp add: em_then_def em_bind_def)
  have f1: "get_upload_failure i q (ew_index w1) = get_upload_failure i q (ew_index w)" for i q
    using attempt_failures [OF push_one_ok [OF one]] .
  have f2: "fail_count_of (ew_index w1) i q = fail_count_of (ew_index w) i q" for i q
    by (simp add: fail_count_of_def f1)
  note sr = settle_run [OF s] and pr = publish_run [OF p]
  have head: "fail_count_of (ew_index w2) (b_id b) q = ladder q [(?rel, v)] (fail_count_of (ew_index w) (b_id b) q)"
    and same: "i \<noteq> b_id b \<or> q \<noteq> ?rel \<or> \<not> implicates_file v \<Longrightarrow>
        get_upload_failure i q (ew_index w2) = get_upload_failure i q (ew_index w)" for i q
    using sr pr f1 f2 by simp_all
  show ?case
  proof (cases "bs_stop (batch_count v bs)")
    case True
    then have "batch_run b bs (x # rest) w [(?rel, v)] res w'"
      using cont head same by (auto simp: batch_run_def x)
    then show ?thesis by blast
  next
    case False
    then have "push_batch env b (batch_count v bs) rest w2 = (Inr res, w')" using cont by simp
    from Cons.IH [OF this] obtain atts where ih: "batch_run b (batch_count v bs) rest w2 atts res w'" by blast
    have "batch_run b bs (x # rest) w ((?rel, v) # atts) res w'"
      unfolding batch_run_def
    proof (intro conjI allI impI)
      show "snd res = drop (length ((?rel, v) # atts)) (x # rest)"
        using ih by (simp add: batch_run_def)
      show "map fst ((?rel, v) # atts) = map (lc_relative_path \<circ> fst) (take (length ((?rel, v) # atts)) (x # rest))"
        using ih by (simp add: batch_run_def x)
      show "fst res = fold (batch_count \<circ> snd) ((?rel, v) # atts) bs"
        using ih by (simp add: batch_run_def)
      show "length ((?rel, v) # atts) \<le> length (x # rest)" using ih by (simp add: batch_run_def)
      show "bs_stop (fst res)" if "length ((?rel, v) # atts) < length (x # rest)"
        using ih that by (auto simp: batch_run_def)
      show "\<not> bs_stop (fold (batch_count \<circ> snd) (take k ((?rel, v) # atts)) bs)"
        if "k < length ((?rel, v) # atts)" "k \<noteq> 0" for k
      proof -
        obtain j where j: "k = Suc j" using \<open>k \<noteq> 0\<close> by (cases k) auto
        have "j < length atts \<Longrightarrow> j \<noteq> 0 \<Longrightarrow>
            \<not> bs_stop (fold (batch_count \<circ> snd) (take j atts) (batch_count v bs))"
          using ih unfolding batch_run_def by blast
        then show ?thesis using that(1) False j by (cases "j = 0") simp_all
      qed
      show "get_upload_failure i p (ew_index w') = get_upload_failure i p (ew_index w)"
        if "i \<noteq> b_id b \<or> (\<forall>u. (p, u) \<in> set ((?rel, v) # atts) \<longrightarrow> \<not> implicates_file u)" for i p
      proof -
        have "get_upload_failure i p (ew_index w') = get_upload_failure i p (ew_index w2)"
          using that by (intro batch_run_failure_same [OF ih]) auto
        also have "\<dots> = get_upload_failure i p (ew_index w)"
          using that by (intro same) auto
        finally show ?thesis .
      qed
      show "fail_count_of (ew_index w') (b_id b) p =
          ladder p ((?rel, v) # atts) (fail_count_of (ew_index w) (b_id b) p)" for p
        using batch_run_ladder [OF ih, of p] head [of p] by simp
    qed
    then show ?thesis by blast
  qed
qed

text \<open>The counters and the stop flag from the verdicts alone.\<close>

definition sent_bytes :: "verdict \<Rightarrow> bool" where
  "sent_bytes v \<longleftrightarrow> v = Sent PushStored \<or> v = Sent PushHandedOff"

definition still_outstanding :: "verdict \<Rightarrow> bool" where
  "still_outstanding v \<longleftrightarrow> v = Sent PushHandedOff \<or> v = Sent PushRelaying"

definition refused :: "verdict \<Rightarrow> bool" where
  "refused v \<longleftrightarrow> (\<exists>msg. v = FileRefused msg)"

fun first_message :: "verdict list \<Rightarrow> string option" where
  "first_message [] = None"
| "first_message (v # vs) =
     (case v of FileRefused msg \<Rightarrow> Some msg | LinkDown msg \<Rightarrow> Some msg
      | Sent _ \<Rightarrow> first_message vs | ServerIsBusy \<Rightarrow> first_message vs)"

lemma batch_count_fields:
  "bs_uploaded (batch_count v bs) = bs_uploaded bs + (if sent_bytes v then 1 else 0)"
  "bs_relaying (batch_count v bs) = bs_relaying bs + (if still_outstanding v then 1 else 0)"
  "bs_failed (batch_count v bs) = bs_failed bs + (if refused v then 1 else 0)"
  "bs_consecutive (batch_count v bs) = streak [v] (bs_consecutive bs)"
  "bs_stop (batch_count v bs) \<longleftrightarrow> bs_stop bs \<or> is_link_down v \<or>
     refused v \<and> max_consecutive_upload_failures \<le> streak [v] (bs_consecutive bs)"
  "bs_first_error (batch_count v bs) =
     (if bs_first_error bs = None then first_message [v] else bs_first_error bs)"
  by (cases v; auto simp: batch_count_def Let_def sent_bytes_def still_outstanding_def refused_def)+

lemma batch_fold_fields:
  "bs_uploaded (fold batch_count vs bs) = bs_uploaded bs + length (filter sent_bytes vs)"
  "bs_relaying (fold batch_count vs bs) = bs_relaying bs + length (filter still_outstanding vs)"
  "bs_failed (fold batch_count vs bs) = bs_failed bs + length (filter refused vs)"
  "bs_consecutive (fold batch_count vs bs) = streak vs (bs_consecutive bs)"
  "bs_first_error (fold batch_count vs bs) =
     (if bs_first_error bs = None then first_message vs else bs_first_error bs)"
  by (induction vs arbitrary: bs)
    (auto simp: batch_count_fields split: verdict.splits)

lemma fold_snd: "fold (f \<circ> snd) xs = fold f (map snd xs)"
  by (simp add: fold_map)

lemma batch_run_stop:
  assumes "batch_run b batch_start pending w atts res w'" and "length atts < length pending"
  shows "atts \<noteq> [] \<and> (is_link_down (snd (last atts)) \<or>
     refused (snd (last atts)) \<and> max_consecutive_upload_failures \<le> streak (map snd atts) 0)"
proof -
  have stop: "bs_stop (fold (batch_count \<circ> snd) atts batch_start)"
    using batch_run_stopped [OF assms] batch_run_final [OF assms(1)] by simp
  then have ne: "atts \<noteq> []" by (auto simp: batch_start_def)
  then obtain pre q v where at: "atts = pre @ [(q, v)]"
    by (metis rev_exhaust surj_pair)
  have pre: "\<not> bs_stop (fold (batch_count \<circ> snd) pre batch_start)"
  proof (cases "pre = []")
    case True
    then show ?thesis by (simp add: batch_start_def)
  next
    case False
    have "\<forall>k < length atts. k \<noteq> 0 \<longrightarrow> \<not> bs_stop (fold (batch_count \<circ> snd) (take k atts) batch_start)"
      using assms(1) by (simp add: batch_run_def)
    from this [rule_format, of "length pre"] show ?thesis using False at by simp
  qed
  have streak_app: "streak (us @ vs) n = streak vs (streak us n)" for us vs n
    by (induction us arbitrary: n) simp_all
  have "is_link_down v \<or> refused v \<and> max_consecutive_upload_failures \<le> streak (map snd atts) 0"
    using stop pre
    by (simp add: at batch_count_fields batch_fold_fields fold_snd streak_app batch_start_def del: streak.simps)
  then show ?thesis using ne at by simp
qed

lemma enqueue_all_fst:
  "enqueue_all ids clock i n cs q = Some (pending, q') \<Longrightarrow> map fst pending = cs"
  by (induction cs arbitrary: n q pending q') (auto split: option.splits)

lemma keeps_index_discard [em_keeps_rules]: "em_keeps keeps_index (discard_unselected cs ps)"
  unfolding discard_unselected_def Let_def by (intro index_frame.keeps em_keeps_rules)

lemma keeps_index_release [em_keeps_rules]: "em_keeps keeps_index (release_unattempted us)"
  unfolding release_unattempted_def by (intro index_frame.keeps keeps_index_only_queue em_keeps_rules)

lemma enqueue_pending_run:
  assumes "enqueue_pending env b ps w = (Inr pending, w')"
  shows "map fst pending = ps \<and> keeps_index w w'"
  using assms
  by (auto simp: enqueue_pending_def em_defs em_queue_def keeps_index_def
      dest: enqueue_all_fst split: option.splits)

text \<open>The whole pass around the batch.\<close>

lemma push_local_run:
  assumes "push_local env b w = (Inr res, w')"
  obtains cands pending w1 atts bs rest w2 where
    "en_list_candidates env (ew_step w) b = Inr cands"
    "map fst pending = filter_pending_candidates (ew_index w) (b_id b) (en_now_ms env (Suc (ew_step w))) cands"
    "keeps_index w w1" "batch_run b batch_start pending w1 atts (bs, rest) w2" "keeps_index w2 w'"
    "res = \<lparr>pl_uploaded = bs_uploaded bs, pl_scanned = length cands, pl_pending = length pending,
       pl_failed = bs_failed bs, pl_first_error = bs_first_error bs, pl_relaying = bs_relaying bs\<rparr>"
proof -
  obtain cands where cands: "en_list_candidates env (ew_step w) b = Inr cands"
    using assms by (cases "en_list_candidates env (ew_step w) b")
      (auto simp: push_local_def em_bind_def em_ask_def em_try_def em_throw_def)
  define pend where "pend = filter_pending_candidates (ew_index w) (b_id b) (en_now_ms env (Suc (ew_step w))) cands"
  let ?wa = "w\<lparr>ew_step := Suc (Suc (ew_step w))\<rparr>"
  let ?res = "\<lambda>bs. \<lparr>pl_uploaded = bs_uploaded bs, pl_scanned = length cands,
           pl_pending = length pend, pl_failed = bs_failed bs,
           pl_first_error = bs_first_error bs, pl_relaying = bs_relaying bs\<rparr>"
  have run: "em_then (discard_unselected cands pend) (em_bind (enqueue_pending env b pend) (\<lambda>pending.
     em_bind (push_batch env b batch_start pending) (\<lambda>(bs, unattempted).
     em_then (release_unattempted unattempted) (em_return (?res bs))))) ?wa = (Inr res, w')"
    using assms by (simp add: push_local_def em_bind_ask em_bind_try cands em_bind_gets pend_def)
  from run obtain a wb where wb: "discard_unselected cands pend ?wa = (a, wb)" and
    run: "em_bind (enqueue_pending env b pend) (\<lambda>pending.
     em_bind (push_batch env b batch_start pending) (\<lambda>(bs, unattempted).
     em_then (release_unattempted unattempted) (em_return (?res bs)))) wb = (Inr res, w')"
    by (rule em_thenE) auto
  from run obtain pending wc where wc: "enqueue_pending env b pend wb = (Inr pending, wc)" and
    run: "em_bind (push_batch env b batch_start pending) (\<lambda>(bs, unattempted).
     em_then (release_unattempted unattempted) (em_return (?res bs))) wc = (Inr res, w')"
    by (rule em_bindE) auto
  from run obtain bs rest wd where wd: "push_batch env b batch_start pending wc = (Inr (bs, rest), wd)" and
    run: "em_then (release_unattempted rest) (em_return (?res bs)) wd = (Inr res, w')"
    by (rule em_bindE) (auto split: prod.splits)
  from run have fin: "keeps_index wd w'" "res = ?res bs"
    using em_keepsD [OF keeps_index_release] by (auto simp: em_then_def em_bind_def split: prod.splits sum.splits)
  obtain atts where atts: "batch_run b batch_start pending wc atts (bs, rest) wd"
    using push_batch_run [OF wd] by blast
  have "keeps_index w wc"
    using em_keepsD [OF keeps_index_discard wb] enqueue_pending_run [OF wc] by (auto simp: keeps_index_def)
  moreover have fst: "map fst pending = pend" using enqueue_pending_run [OF wc] by blast
  moreover have "length pend = length pending" using fst by (metis length_map)
  ultimately show thesis
    using that [OF cands _ _ atts fin(1)] fin(2) by (simp add: pend_def)
qed

section \<open>Properties\<close>

text \<open>
  C1. A file is recorded as stored only on evidence: if an attempt changes any entry of the
  index, it is the entry of its own candidate, with the size and time of the candidate and a
  hash that was computed from the bytes on disk during the attempt, and either the index
  already had that hash, or the server answered the preflight that it holds these bytes and
  has finished storing them, or the upload of these bytes was answered \<open>Stored\<close>. An attempt
  that is handed off, still relaying or failed changes nothing, and \<open>Stored\<close> is reported only
  with an entry written.
\<close>

theorem recorded_only_when_confirmed:
  assumes "push_one env b c wid w = (r, w')"
  shows "(\<forall>i p. get_entry i p (ew_index w') \<noteq> get_entry i p (ew_index w) \<longrightarrow>
            i = b_id b \<and> p = lc_relative_path c \<and>
            (\<exists>e hash evs. get_entry i p (ew_index w') = Some e \<and> ie_content_hash e = Some hash \<and>
               ie_size e = lc_size c \<and> ie_mtime_ms e = lc_mtime_ms c \<and>
               ew_trace w' = ew_trace w @ evs \<and> hashed_now hash evs \<and>
               ((\<exists>old. get_entry i p (ew_index w) = Some old \<and> ie_content_hash old = Some hash) \<or>
                said_stored b (join_remote (b_remote_root b) p) hash evs \<or> uploaded_now b hash evs))) \<and>
         (r = Inr PushHandedOff \<or> r = Inr PushRelaying \<or> (\<exists>e. r = Inl (Failed e)) \<longrightarrow>
            ew_index w' = ew_index w) \<and>
         (r = Inr PushStored \<longrightarrow> (\<exists>e. get_entry (b_id b) (lc_relative_path c) (ew_index w') = Some e))"
  using push_one_ok [OF assms] unfolding attempt_ok_def
  by (auto simp: index_simps split: if_splits)

lemma sample_push:
  "fst (push_one sample_engine_env (sample_binding ''b'' FolderUpload) (sample_candidate ''a.jpg'') ''w''
     sample_world) = Inr PushStored"
  by code_simp

theorem recorded_only_when_confirmed_witness:
  "let (r, w') = push_one sample_engine_env (sample_binding ''b'' FolderUpload)
         (sample_candidate ''a.jpg'') ''w'' sample_world
   in r = Inr PushStored \<and>
      (\<exists>e evs. get_entry ''b'' ''a.jpg'' (ew_index w') = Some e \<and> ie_size e = 5 \<and>
         ew_trace w' = ew_trace sample_world @ evs \<and>
         uploaded_now (sample_binding ''b'' FolderUpload) (the (ie_content_hash e)) evs)"
proof -
  let ?b = "sample_binding ''b'' FolderUpload" and ?c = "sample_candidate ''a.jpg''"
  obtain r w' where run: "push_one sample_engine_env ?b ?c ''w'' sample_world = (r, w')"
    by (cases "push_one sample_engine_env ?b ?c ''w'' sample_world")
  have r: "r = Inr PushStored" using sample_push run by simp
  note main = recorded_only_when_confirmed [OF run]
  have none: "get_entry i p (ew_index sample_world) = None" for i p by code_simp
  have tr: "\<not> (\<exists>s. RemoteFileAsked (b_storage_id ?b) q (Inr (Some s)) \<in> set (ew_trace w'))" for q
  proof -
    have "list_all (\<lambda>ev. case ev of RemoteFileAsked _ _ (Inr (Some _)) \<Rightarrow> False | _ \<Rightarrow> True)
        (ew_trace (snd (push_one sample_engine_env ?b ?c ''w'' sample_world)))" by code_simp
    then show ?thesis by (auto simp: run list_all_iff)
  qed
  obtain e where e: "get_entry ''b'' ''a.jpg'' (ew_index w') = Some e"
    using main r by (auto simp: sample_binding_def sample_candidate_def)
  then have ne: "get_entry ''b'' ''a.jpg'' (ew_index w') \<noteq> get_entry ''b'' ''a.jpg'' (ew_index sample_world)"
    by (simp add: none)
  from main [THEN conjunct1, rule_format, OF ne] none [of "''b''" "''a.jpg''"]
  obtain e' hash evs where *: "get_entry ''b'' ''a.jpg'' (ew_index w') = Some e'"
    "ie_content_hash e' = Some hash" "ie_size e' = lc_size ?c" "ew_trace w' = ew_trace sample_world @ evs"
    "said_stored ?b (join_remote (b_remote_root ?b) ''a.jpg'') hash evs \<or> uploaded_now ?b hash evs"
    by auto
  then have "uploaded_now ?b hash evs" using tr by (auto simp: said_stored_def)
  then show ?thesis using * r run by (auto simp: sample_candidate_def)
qed


definition sample_batch_env :: engine_env where
  "sample_batch_env = sample_engine_env
     \<lparr>en_list_candidates := (\<lambda>n b. Inr [sample_candidate ''bad.jpg''])\<rparr>"

lemma sample_batch:
  "fst (push_local sample_batch_env (sample_binding ''b'' FolderUpload) sample_world) =
     Inr \<lparr>pl_uploaded = 0, pl_scanned = 1, pl_pending = 1, pl_failed = 1,
          pl_first_error = Some ''error'', pl_relaying = 0\<rparr>"
  by code_simp


section \<open>The retry deadline\<close>

lemma upload_backoff_ms_table:
  "upload_backoff_ms n =
     (if n \<le> 1 then 60000 else if n = 2 then 300000 else if n = 3 then 1800000
      else if n = 4 then 3600000 else 21600000)"
proof -
  consider "n \<le> 1" | "n = 2" | "n = 3" | "n = 4" | "5 \<le> n" by linarith
  then show ?thesis
  proof cases
    case 5
    then have "min (nat (max n 1) - 1) 4 = 4" by simp
    then show ?thesis using 5 by (simp add: upload_backoff_ms_def upload_backoff_table_def)
  qed (simp_all add: upload_backoff_ms_def upload_backoff_table_def)
qed

text \<open>
  The retry ladder keeps its promise: the delay grows with every refusal in a row, from one
  minute to at most six hours; after a refusal at time \<open>t\<close> the file is left out of every scan
  before its deadline, and a scan at or after the deadline offers it again as long as it is not
  recorded with its present size and time. No file is given up for good.
\<close>

theorem retry_deadline_respected:
  assumes "index_inv (ew_index w)" and "note_upload_failure env i p err w = (r, w')"
    and "n = fail_count_of (ew_index w) i p + 1" and "t = en_now_ms env (ew_step w)"
    and "lc_relative_path c = p"
  shows "60000 \<le> upload_backoff_ms n \<and> upload_backoff_ms n \<le> 21600000 \<and>
     (\<forall>m \<ge> n. upload_backoff_ms n \<le> upload_backoff_ms m) \<and>
     fail_count_of (ew_index w') i p = n \<and>
     (now < t + upload_backoff_ms n \<longrightarrow> filter_pending_candidates (ew_index w') i now [c] = []) \<and>
     (t + upload_backoff_ms n \<le> now \<longrightarrow>
        (\<forall>e. get_entry i p (ew_index w) = Some e \<longrightarrow> ie_size e \<noteq> lc_size c \<or> ie_mtime_ms e \<noteq> lc_mtime_ms c) \<longrightarrow>
        filter_pending_candidates (ew_index w') i now [c] = [c])"
proof -
  let ?ix = "set_upload_failure i p n (t + upload_backoff_ms n) err (ew_index w)"
  have ix: "ew_index w' = ?ix"
    using assms(2) unfolding assms(3,4)
    by (cases "get_upload_failure i p (ew_index w)")
      (auto simp: note_upload_failure_def em_bind_gets em_bind_ask em_index_def em_modify_def
        fail_count_of_def Let_def)
  have inv: "index_inv ?ix" using assms(1) by (simp add: index_inv_def set_upload_failure_def keys_ok_put)
  have deadline: "load_upload_backoff i ?ix p = Some (t + upload_backoff_ms n)"
    using load_upload_backoff_eq [OF inv, of i] by (simp add: index_simps)
  have entry: "get_entry i p ?ix = get_entry i p (ew_index w)" by (simp add: index_simps)
  have mono: "\<forall>m \<ge> n. upload_backoff_ms n \<le> upload_backoff_ms m"
    by (simp add: upload_backoff_ms_table)
  have bounds: "60000 \<le> upload_backoff_ms n" "upload_backoff_ms n \<le> 21600000"
    by (simp_all add: upload_backoff_ms_table)
  have count: "fail_count_of ?ix i p = n" by (simp add: fail_count_of_def index_simps)
  have needs: "needs_upload ?ix i (load_upload_backoff i ?ix) now c \<longleftrightarrow>
     (\<forall>e. get_entry i p (ew_index w) = Some e \<longrightarrow> ie_size e \<noteq> lc_size c \<or> ie_mtime_ms e \<noteq> lc_mtime_ms c) \<and>
     t + upload_backoff_ms n \<le> now"
    by (auto simp: needs_upload_def deadline entry assms(5) split: option.splits)
  show ?thesis
    unfolding ix filter_pending_candidates_def filter.simps needs
    using mono bounds count by simp
qed

theorem retry_deadline_respected_witness:
  "let w' = snd (note_upload_failure sample_engine_env ''b'' ''a.jpg'' ''no'' sample_world)
   in filter_pending_candidates (ew_index w') ''b'' 60999 [sample_candidate ''a.jpg''] = [] \<and>
      filter_pending_candidates (ew_index w') ''b'' 61000 [sample_candidate ''a.jpg''] = [sample_candidate ''a.jpg'']"
proof -
  obtain r w' where run: "note_upload_failure sample_engine_env ''b'' ''a.jpg'' ''no'' sample_world = (r, w')"
    by (cases "note_upload_failure sample_engine_env ''b'' ''a.jpg'' ''no'' sample_world")
  have inv: "index_inv (ew_index sample_world)" by (simp add: sample_world_def index_inv_empty)
  have n: "1 = fail_count_of (ew_index sample_world) ''b'' ''a.jpg'' + 1" by code_simp
  have t: "1000 = en_now_ms sample_engine_env (ew_step sample_world)" by code_simp
  have c: "lc_relative_path (sample_candidate ''a.jpg'') = ''a.jpg''" by code_simp
  have e: "get_entry ''b'' ''a.jpg'' (ew_index sample_world) = None" by code_simp
  have b: "upload_backoff_ms 1 = 60000" by (simp add: upload_backoff_ms_table)
  from retry_deadline_respected [OF inv run n t c] show ?thesis
    using e by (simp add: run b)
qed

section \<open>Remote folders\<close>

text \<open>The remote path of every folder above a file, as the cache names it.\<close>

fun prefixes :: "string \<Rightarrow> string list \<Rightarrow> string list" where
  "prefixes built [] = []"
| "prefixes built (part # parts) =
     (let next_path = (if built = [] then part else built @ ''/'' @ part)
      in next_path # prefixes next_path parts)"

definition folder_calls :: "event list \<Rightarrow> event list" where
  "folder_calls evs = filter (\<lambda>ev. case ev of FolderCreated _ _ _ _ \<Rightarrow> True | _ \<Rightarrow> False) evs"

lemma ensure_segments_run:
  "ensure_segments env b built parts w = (r, w') \<Longrightarrow>
     r = Inr () \<and> ew_index w' = ew_index w \<and> ew_queue w' = ew_queue w \<and>
     ew_known_dirs w \<subseteq> ew_known_dirs w' \<and>
     ew_known_dirs w' \<subseteq> ew_known_dirs w \<union> Pair (b_id b) ` set (prefixes built parts) \<and>
     (\<exists>evs. ew_trace w' = ew_trace w @ evs \<and> folder_calls evs = evs \<and>
        (Pair (b_id b) ` set (prefixes built parts) \<subseteq> ew_known_dirs w \<longrightarrow> evs = []) \<and>
        ((\<forall>sid p f e. FolderCreated sid p f (Inl e) \<notin> set evs) \<longrightarrow>
           Pair (b_id b) ` set (prefixes built parts) \<subseteq> ew_known_dirs w'))"
proof (induction parts arbitrary: built w)
  case Nil
  then show ?case by (auto simp: em_return_def folder_calls_def)
next
  case (Cons part parts)
  define nx where "nx = (if built = [] then part else built @ ''/'' @ part)"
  define fp where "fp = (if built = [] then trim_matches CHR ''/'' (b_remote_root b) else join_remote (b_remote_root b) built)"
  have pre: "prefixes built (part # parts) = nx # prefixes nx parts" by (simp add: nx_def Let_def)
  note prems = Cons.prems [unfolded ensure_segments.simps Let_def em_bind_gets, folded nx_def fp_def]
  let ?key = "(b_id b, nx)"
  show ?case
  proof (cases "?key \<in> ew_known_dirs w")
    case True
    have "ensure_segments env b nx parts w = (r, w')"
      using prems unfolding if_P [OF True] .
    from Cons.IH [OF this] obtain evs where ih: "r = Inr ()" "ew_index w' = ew_index w" "ew_queue w' = ew_queue w"
      "ew_known_dirs w \<subseteq> ew_known_dirs w'"
      "ew_known_dirs w' \<subseteq> ew_known_dirs w \<union> Pair (b_id b) ` set (prefixes nx parts)"
      "ew_trace w' = ew_trace w @ evs" "folder_calls evs = evs"
      "Pair (b_id b) ` set (prefixes nx parts) \<subseteq> ew_known_dirs w \<longrightarrow> evs = []"
      "(\<forall>sid p f e. FolderCreated sid p f (Inl e) \<notin> set evs) \<longrightarrow>
           Pair (b_id b) ` set (prefixes nx parts) \<subseteq> ew_known_dirs w'" by blast
    have "?key \<in> ew_known_dirs w'" using True ih(4) by blast
    then show ?thesis
      unfolding pre using ih by (intro conjI exI [of _ evs]) auto
  next
    case False
    define ans where "ans = en_create_folder env (ew_step w) (b_storage_id b) fp part"
    define w1 where "w1 = w\<lparr>ew_step := Suc (ew_step w), ew_trace := ew_trace w @ [FolderCreated (b_storage_id b) fp part ans],
       ew_known_dirs := (if ans = Inr () then insert ?key (ew_known_dirs w) else ew_known_dirs w)\<rparr>"
    have "em_bind (em_call (\<lambda>n. en_create_folder env n (b_storage_id b) fp part)
            (FolderCreated (b_storage_id b) fp part)) (\<lambda>r.
          em_then (em_when (r = Inr ())
                    (em_modify (\<lambda>w. w\<lparr>ew_known_dirs := insert ?key (ew_known_dirs w)\<rparr>)))
            (ensure_segments env b nx parts)) w = (r, w')"
      using prems unfolding if_not_P [OF False] .
    moreover have "em_call (\<lambda>n. en_create_folder env n (b_storage_id b) fp part)
            (FolderCreated (b_storage_id b) fp part) w =
        (Inr ans, w\<lparr>ew_step := Suc (ew_step w), ew_trace := ew_trace w @ [FolderCreated (b_storage_id b) fp part ans]\<rparr>)"
      by (simp add: em_call_def em_log_def em_defs em_ask_def ans_def)
    ultimately have "ensure_segments env b nx parts w1 = (r, w')"
      unfolding em_bind_run em_then_def w1_def
      by (cases "ans = Inr ()") (simp_all add: em_when_def)
    from Cons.IH [OF this] obtain evs where ih: "r = Inr ()" "ew_index w' = ew_index w1" "ew_queue w' = ew_queue w1"
      "ew_known_dirs w1 \<subseteq> ew_known_dirs w'"
      "ew_known_dirs w' \<subseteq> ew_known_dirs w1 \<union> Pair (b_id b) ` set (prefixes nx parts)"
      "ew_trace w' = ew_trace w1 @ evs" "folder_calls evs = evs"
      "(\<forall>sid p f e. FolderCreated sid p f (Inl e) \<notin> set evs) \<longrightarrow>
           Pair (b_id b) ` set (prefixes nx parts) \<subseteq> ew_known_dirs w'" by blast
    have ok: "ans = Inr ()" if "\<forall>e. ans \<noteq> Inl e" using that by (cases ans) auto
    show ?thesis
    proof (intro conjI exI [of _ "FolderCreated (b_storage_id b) fp part ans # evs"])
      show "Pair (b_id b) ` set (prefixes built (part # parts)) \<subseteq> ew_known_dirs w \<longrightarrow>
          FolderCreated (b_storage_id b) fp part ans # evs = []"
        using False unfolding pre by auto
      show "(\<forall>sid p f e. FolderCreated sid p f (Inl e) \<notin> set (FolderCreated (b_storage_id b) fp part ans # evs)) \<longrightarrow>
           Pair (b_id b) ` set (prefixes built (part # parts)) \<subseteq> ew_known_dirs w'"
      proof
        assume ne: "\<forall>sid p f e. FolderCreated sid p f (Inl e) \<notin> set (FolderCreated (b_storage_id b) fp part ans # evs)"
        then have "ans = Inr ()" by (intro ok) (metis list.set_intros(1))
        then have "?key \<in> ew_known_dirs w'" using ih(4) by (auto simp: w1_def)
        moreover have "Pair (b_id b) ` set (prefixes nx parts) \<subseteq> ew_known_dirs w'"
          using ih(8) ne by auto
        ultimately show "Pair (b_id b) ` set (prefixes built (part # parts)) \<subseteq> ew_known_dirs w'"
          unfolding pre by simp
      qed
    qed (use ih in \<open>auto simp: w1_def folder_calls_def pre simp del: prefixes.simps split: if_splits\<close>)
  qed
qed

lemma ensure_segments_known:
  "Pair (b_id b) ` set (prefixes built parts) \<subseteq> ew_known_dirs w \<Longrightarrow>
     ensure_segments env b built parts w = (Inr (), w)"
  by (induction parts arbitrary: built) (simp_all add: em_return_def em_bind_gets Let_def split: if_splits)

text \<open>
  Remote folders are asked for once: preparing the folders above a file never fails and
  touches neither the index nor the queue; it asks only for folders of this file's path that
  are not known yet, remembers exactly the ones that were answered with success, and once all
  were, preparing the same path again asks the server for nothing.
\<close>

theorem remote_folders_asked_once:
  assumes "ensure_remote_parents env b parent w = (r, w')"
    and "\<forall>sid p f e. FolderCreated sid p f (Inl e) \<notin> set (ew_trace w')"
    and "ensure_remote_parents env' b parent w' = (r2, w'')"
  shows "r = Inr () \<and> ew_index w' = ew_index w \<and> ew_queue w' = ew_queue w \<and>
     ew_known_dirs w \<subseteq> ew_known_dirs w' \<and>
     r2 = Inr () \<and> ew_trace w'' = ew_trace w' \<and> ew_known_dirs w'' = ew_known_dirs w'"
proof (cases "parent = []")
  case True
  then show ?thesis using assms by (auto simp: ensure_remote_parents_def em_return_def)
next
  case False
  let ?parts = "filter (\<lambda>p. p \<noteq> []) (split_on CHR ''/'' parent)"
  have one: "ensure_segments env b [] ?parts w = (r, w')" and two: "ensure_segments env' b [] ?parts w' = (r2, w'')"
    using assms(1,3) False by (simp_all add: ensure_remote_parents_def)
  define X where "X = Pair (b_id b) ` set (prefixes [] ?parts)"
  from ensure_segments_run [OF one, folded X_def] obtain evs where
    f: "r = Inr ()" "ew_index w' = ew_index w" "ew_queue w' = ew_queue w" "ew_known_dirs w \<subseteq> ew_known_dirs w'"
    and tr: "ew_trace w' = ew_trace w @ evs"
    and ok: "(\<forall>sid p f e. FolderCreated sid p f (Inl e) \<notin> set evs) \<longrightarrow> X \<subseteq> ew_known_dirs w'"
    by (elim conjE exE) (rule that)
  have "X \<subseteq> ew_known_dirs w'" using ok assms(2) by (simp add: tr)
  then have "ensure_segments env' b [] ?parts w' = (Inr (), w')"
    unfolding X_def by (rule ensure_segments_known)
  then show ?thesis using two f by simp
qed

theorem remote_folders_asked_once_witness:
  "let b = sample_binding ''b'' FolderUpload;
       w' = snd (ensure_remote_parents sample_engine_env b ''x/y'' sample_world)
   in length (ew_trace w') = 2 \<and>
      ew_trace (snd (ensure_remote_parents sample_engine_env b ''x/y'' w')) = ew_trace w'"
proof -
  let ?b = "sample_binding ''b'' FolderUpload"
  obtain r w' where one: "ensure_remote_parents sample_engine_env ?b ''x/y'' sample_world = (r, w')"
    by (cases "ensure_remote_parents sample_engine_env ?b ''x/y'' sample_world")
  obtain r2 w'' where two: "ensure_remote_parents sample_engine_env ?b ''x/y'' w' = (r2, w'')"
    by (cases "ensure_remote_parents sample_engine_env ?b ''x/y'' w'")
  have tr: "length (ew_trace (snd (ensure_remote_parents sample_engine_env ?b ''x/y'' sample_world))) = 2 \<and>
      list_all (\<lambda>ev. case ev of FolderCreated _ _ _ (Inr _) \<Rightarrow> True | _ \<Rightarrow> False)
        (ew_trace (snd (ensure_remote_parents sample_engine_env ?b ''x/y'' sample_world)))"
    by code_simp
  then have "\<forall>sid p f e. FolderCreated sid p f (Inl e) \<notin> set (ew_trace w')"
    by (auto simp: one list_all_iff)
  from remote_folders_asked_once [OF one this two] tr show ?thesis by (simp add: one two)
qed
end
