(* ===== verification/PullEngine.thy ===== *)
theory PullEngine
  imports SyncCore
begin

text \<open>
  The download half of the sync engine (\<open>bootstrap_snapshot\<close> and \<open>pull_remote\<close> of
  crates/sarca-sync/src/engine.rs): the first pass over a snapshot of the storage, and the
  pages of the changelog after that. The results of \<open>remove_file\<close>, \<open>remove_dir_all\<close>,
  \<open>create_dir_all\<close> and \<open>rename\<close> are dropped by the code, so the trace records that they were
  tried. The loop over the pages has fuel: \<open>None\<close> stands for a loop that goes on.
\<close>

section \<open>One file from the server\<close>

definition em_remove_file :: "string \<Rightarrow> unit engine" where
  "em_remove_file path = em_log (FileRemoved path)"

text \<open>A download, with its slot in the transfer queue; on failure the slot is given back.\<close>

definition fetch :: "engine_env \<Rightarrow> binding \<Rightarrow> string \<Rightarrow> int option \<Rightarrow> string \<Rightarrow> string \<Rightarrow> unit engine" where
  "fetch env b rel sz remote_path local =
     em_bind (transfer_begin env (b_id b) Download rel sz) (\<lambda>tid.
     em_bind (em_call (\<lambda>n. en_download_to env n (b_storage_id b) remote_path local)
               (Downloaded (b_storage_id b) remote_path local)) (\<lambda>dl.
       case dl of
         Inl e \<Rightarrow> em_then (transfer_abandon tid) (em_throw (Failed e))
       | Inr _ \<Rightarrow> transfer_complete env tid))"

text \<open>The hash of the file on disk, when it can be read.\<close>

definition local_hash_of :: "engine_env \<Rightarrow> string \<Rightarrow> string option engine" where
  "local_hash_of env local =
     em_bind (em_call (\<lambda>n. en_sha256_file env n local) (Hashed local)) (\<lambda>h. em_return (res_ok h))"

definition or_else :: "'a option \<Rightarrow> 'a option \<Rightarrow> 'a option" where
  "or_else x y = (case x of None \<Rightarrow> y | Some a \<Rightarrow> Some a)"

definition meta_mtime :: "file_meta \<Rightarrow> int" where
  "meta_mtime m = (case fm_modified m of None \<Rightarrow> 0 | Some t \<Rightarrow> t)"

section \<open>The first pass\<close>

definition bootstrap_file ::
  "engine_env \<Rightarrow> binding \<Rightarrow> int \<Rightarrow> snapshot_entry \<Rightarrow> string \<Rightarrow> string \<Rightarrow> unit engine" where
  "bootstrap_file env b cursor entry rel local =
     em_bind (em_ask (\<lambda>n. en_exists env n local)) (\<lambda>present.
     em_bind (if present then
                em_bind (local_hash_of env local) (\<lambda>local_hash.
                  if local_hash \<noteq> se_content_hash entry \<and> se_content_hash entry \<noteq> None \<and> local_hash \<noteq> None
                  then em_then (em_index (add_conflict (b_id b) rel local_hash (se_content_hash entry)))
                         (em_return True)
                  else em_return False)
              else em_then (fetch env b rel (Some (se_size entry)) (se_path entry) local) (em_return False))
       (\<lambda>conflict.
          if conflict then em_return ()
          else
            em_bind (em_ask (\<lambda>n. en_metadata env n local)) (\<lambda>meta.
            em_bind (em_try meta) (\<lambda>m.
            em_bind (local_hash_of env local) (\<lambda>h.
              em_index (upsert_entry (b_id b)
                \<lparr>ie_path = rel, ie_size = se_size entry, ie_mtime_ms = meta_mtime m,
                 ie_content_hash = or_else h (se_content_hash entry),
                 ie_remote_file_id = Some (se_file_id entry), ie_last_cursor = cursor\<rparr>))))))"

fun bootstrap_entries ::
  "engine_env \<Rightarrow> binding \<Rightarrow> int \<Rightarrow> snapshot_entry list \<Rightarrow> unit engine" where
  "bootstrap_entries env b cursor [] = em_return ()"
| "bootstrap_entries env b cursor (entry # rest) =
     em_then
       (case strip_remote_root (se_path entry) (b_remote_root b) of
          None \<Rightarrow> em_return ()
        | Some rel \<Rightarrow>
            let local = path_join (b_local_path b) rel
            in if se_is_file entry then bootstrap_file env b cursor entry rel local
               else em_log (DirCreated local))
       (bootstrap_entries env b cursor rest)"

definition bootstrap_snapshot :: "engine_env \<Rightarrow> binding \<Rightarrow> int engine" where
  "bootstrap_snapshot env b =
     em_bind (em_ask (\<lambda>n. en_snapshot env n (b_storage_id b))) (\<lambda>r.
     em_bind (em_try r) (\<lambda>snap.
     em_then (bootstrap_entries env b (sr_cursor snap) (sr_files snap))
       (em_then (em_index (set_cursor (b_id b) (sr_cursor snap)))
         (em_return (sr_cursor snap)))))"

section \<open>The changelog\<close>

text \<open>
  \<open>Path::parent\<close> and \<open>Path::file_name\<close>, with the defaults \<open>conflict_path\<close> uses when there is none.
\<close>

definition parent_and_name :: "string \<Rightarrow> string \<times> string" where
  "parent_and_name path =
     (let p = trim_end_matches CHR ''/'' path in
      if p = [] then (''.'', ''file'')
      else case rsplit_once CHR ''/'' p of
        None \<Rightarrow> ([], p)
      | Some (par, name) \<Rightarrow>
          let par = trim_end_matches CHR ''/'' par
          in (if par = [] then ''/'' else par, name))"

definition pull_delete :: "engine_env \<Rightarrow> binding \<Rightarrow> string \<Rightarrow> string \<Rightarrow> unit engine" where
  "pull_delete env b rel local =
     em_bind (em_ask (\<lambda>n. en_exists env n local)) (\<lambda>present.
     em_then
       (em_when present
         (em_bind (em_ask (\<lambda>n. en_is_dir env n local)) (\<lambda>dir.
            if dir then em_log (DirRemoved local) else em_remove_file local)))
       (em_then (em_index (delete_entry (b_id b) rel))
         (em_index (clear_conflict (b_id b) rel))))"

text \<open>The download of an upsert, and the entry it leaves.\<close>

definition pull_download ::
  "engine_env \<Rightarrow> binding \<Rightarrow> changelog_event \<Rightarrow> string \<Rightarrow> string \<Rightarrow> bool engine" where
  "pull_download env b ev rel local =
     em_then (fetch env b rel (ev_size ev) (ev_path ev) local)
      (em_bind (em_ask (\<lambda>n. en_metadata env n local)) (\<lambda>meta.
       em_bind (em_try meta) (\<lambda>m.
       em_bind (local_hash_of env local) (\<lambda>h.
       em_then (em_index (upsert_entry (b_id b)
           \<lparr>ie_path = rel, ie_size = (case ev_size ev of Some n \<Rightarrow> n | None \<Rightarrow> fm_len m),
            ie_mtime_ms = meta_mtime m, ie_content_hash = or_else h (ev_content_hash ev),
            ie_remote_file_id = ev_file_id ev, ie_last_cursor = ev_id ev\<rparr>))
         (em_then (em_index (clear_conflict (b_id b) rel)) (em_return True))))))"

text \<open>A file that is on disk already; the answer \<open>True\<close> is a download.\<close>

definition pull_existing ::
  "engine_env \<Rightarrow> binding \<Rightarrow> changelog_event \<Rightarrow> string \<Rightarrow> string \<Rightarrow> index_entry option \<Rightarrow> bool engine" where
  "pull_existing env b ev rel local existing =
     em_bind (local_hash_of env local) (\<lambda>local_hash.
       if local_hash \<noteq> ev_content_hash ev \<and>
          (case existing of None \<Rightarrow> None | Some e \<Rightarrow> ie_content_hash e) \<noteq> local_hash \<and>
          ev_content_hash ev \<noteq> None
       then
         em_bind (em_call (\<lambda>n. en_ask env n (b_id b) rel local_hash (ev_content_hash ev))
                   (ConflictAsked rel)) (\<lambda>choice.
           case choice of
             KeepLocal \<Rightarrow> em_then (em_index (clear_conflict (b_id b) rel)) (em_return False)
           | KeepBoth \<Rightarrow>
               (let (parent, name) = parent_and_name local
                in em_then (em_log (FileRenamed local (conflict_path parent name)))
                     (pull_download env b ev rel local))
           | KeepRemote \<Rightarrow> pull_download env b ev rel local)
       else if local_hash = ev_content_hash ev then
         em_then (case existing of
                    None \<Rightarrow> em_return ()
                  | Some e \<Rightarrow> em_index (upsert_entry (b_id b)
                      (e\<lparr>ie_remote_file_id := ev_file_id ev, ie_last_cursor := ev_id ev\<rparr>)))
           (em_return False)
       else pull_download env b ev rel local)"

definition pull_event :: "engine_env \<Rightarrow> binding \<Rightarrow> changelog_event \<Rightarrow> bool engine" where
  "pull_event env b ev =
     (case strip_remote_root (ev_path ev) (b_remote_root b) of
        None \<Rightarrow> em_return False
      | Some rel \<Rightarrow>
          let local = path_join (b_local_path b) rel
          in if ev_op ev = ''delete'' then em_then (pull_delete env b rel local) (em_return False)
             else if ev_op ev = ''upsert'' then
               if \<not> ev_is_file ev then em_then (em_log (DirCreated local)) (em_return False)
               else
                 em_bind (em_gets (\<lambda>w. get_entry (b_id b) rel (ew_index w))) (\<lambda>existing.
                 em_bind (em_ask (\<lambda>n. en_exists env n local)) (\<lambda>present.
                   if present then pull_existing env b ev rel local existing
                   else pull_download env b ev rel local))
             else em_return False)"

fun pull_events :: "engine_env \<Rightarrow> binding \<Rightarrow> changelog_event list \<Rightarrow> nat \<Rightarrow> nat engine" where
  "pull_events env b [] downloaded = em_return downloaded"
| "pull_events env b (ev # evs) downloaded =
     em_bind (pull_event env b ev) (\<lambda>got.
       pull_events env b evs (if got then downloaded + 1 else downloaded))"

fun pull_remote ::
  "engine_env \<Rightarrow> binding \<Rightarrow> nat \<Rightarrow> int \<Rightarrow> nat \<Rightarrow> (nat \<times> int) option engine" where
  "pull_remote env b 0 cursor downloaded = em_return None"
| "pull_remote env b (Suc fuel) cursor downloaded =
     em_bind (em_ask (\<lambda>n. en_changelog env n (b_storage_id b) cursor 500)) (\<lambda>r.
     em_bind (em_try r) (\<lambda>page.
     em_bind (pull_events env b (cr_events page) downloaded) (\<lambda>downloaded.
       let cursor = (if cursor < cr_next_cursor page then cr_next_cursor page else cursor)
       in if \<not> cr_has_more page then em_return (Some (downloaded, cursor))
          else pull_remote env b fuel cursor downloaded)))"

section \<open>Where the events of a pass may point\<close>

text \<open>The local paths an event touches.\<close>

fun local_targets :: "event \<Rightarrow> string list" where
  "local_targets (Downloaded _ _ l _) = [l]"
| "local_targets (FileRemoved p) = [p]"
| "local_targets (DirRemoved p) = [p]"
| "local_targets (DirCreated p) = [p]"
| "local_targets (FileRenamed p _) = [p]"
| "local_targets _ = []"

text \<open>Every operation of a pass emits only events that \<open>P\<close> allows for its own paths.\<close>

lemma hash_emits: "(\<And>a. P (Hashed l a)) \<Longrightarrow> em_keeps (emits P) (local_hash_of env l)"
  unfolding local_hash_of_def by (intro emits_rules)

lemma fetch_emits:
  "(\<And>a. P (Downloaded (b_storage_id b) rp l a)) \<Longrightarrow> em_keeps (emits P) (fetch env b rel sz rp l)"
  unfolding fetch_def by (intro emits_rules)

lemma bootstrap_file_emits:
  assumes "\<And>a. P (Hashed l a)" and "\<And>a. P (Downloaded (b_storage_id b) (se_path entry) l a)"
  shows "em_keeps (emits P) (bootstrap_file env b cursor entry rel l)"
  unfolding bootstrap_file_def by (intro emits_rules hash_emits fetch_emits assms)

lemma bootstrap_entries_emits:
  assumes "\<And>l a. P (Hashed l a)"
    and "\<And>entry rel a. entry \<in> set entries \<Longrightarrow> strip_remote_root (se_path entry) (b_remote_root b) = Some rel \<Longrightarrow>
       P (Downloaded (b_storage_id b) (se_path entry) (path_join (b_local_path b) rel) a) \<and>
       P (DirCreated (path_join (b_local_path b) rel))"
  shows "em_keeps (emits P) (bootstrap_entries env b cursor entries)"
  using assms(2)
proof (induction entries)
  case (Cons entry entries)
  have "em_keeps (emits P) (case strip_remote_root (se_path entry) (b_remote_root b) of
          None \<Rightarrow> em_return ()
        | Some rel \<Rightarrow>
            let local = path_join (b_local_path b) rel
            in if se_is_file entry then bootstrap_file env b cursor entry rel local
               else em_log (DirCreated local))"
    using Cons.prems assms(1)
    by (auto simp: Let_def intro!: emits_rules bootstrap_file_emits split: option.split)
  moreover have "em_keeps (emits P) (bootstrap_entries env b cursor entries)"
    by (rule Cons.IH) (use Cons.prems in auto)
  ultimately show ?case unfolding bootstrap_entries.simps by (rule emitting.keeps_then)
qed (simp add: emitting.keeps)

lemma pull_delete_emits:
  "P (FileRemoved l) \<Longrightarrow> P (DirRemoved l) \<Longrightarrow> em_keeps (emits P) (pull_delete env b rel l)"
  unfolding pull_delete_def em_remove_file_def by (intro emits_rules)

lemma pull_download_emits:
  "(\<And>a. P (Hashed l a)) \<Longrightarrow> (\<And>a. P (Downloaded (b_storage_id b) (ev_path ev) l a)) \<Longrightarrow>
     em_keeps (emits P) (pull_download env b ev rel l)"
  unfolding pull_download_def by (intro emits_rules hash_emits fetch_emits)

lemma pull_existing_emits:
  assumes "\<And>a. P (Hashed l a)" and "\<And>a. P (Downloaded (b_storage_id b) (ev_path ev) l a)"
    and "\<And>choice. P (ConflictAsked rel choice)" and "\<And>new. P (FileRenamed l new)"
  shows "em_keeps (emits P) (pull_existing env b ev rel l existing)"
proof -
  have dl: "em_keeps (emits P) (pull_download env b ev rel l)"
    using assms by (intro pull_download_emits)
  then show ?thesis
    unfolding pull_existing_def
    using assms
    by (auto simp: Let_def split: conflict_choice.split prod.split option.split
        intro!: emits_rules hash_emits)
qed

lemma pull_event_emits:
  assumes "\<And>l a. P (Hashed l a)" and "\<And>rel choice. P (ConflictAsked rel choice)"
    and "\<And>rel l. strip_remote_root (ev_path ev) (b_remote_root b) = Some rel \<Longrightarrow>
       l = path_join (b_local_path b) rel \<Longrightarrow>
       (\<forall>a. P (Downloaded (b_storage_id b) (ev_path ev) l a)) \<and> P (DirCreated l) \<and>
       P (FileRemoved l) \<and> P (DirRemoved l) \<and> (\<forall>new. P (FileRenamed l new))"
  shows "em_keeps (emits P) (pull_event env b ev)"
  unfolding pull_event_def
  using assms
  by (auto simp: Let_def split: option.split
      intro!: emits_rules pull_existing_emits pull_download_emits pull_delete_emits)

lemma pull_events_emits:
  assumes "\<And>ev. em_keeps (emits P) (pull_event env b ev)"
  shows "em_keeps (emits P) (pull_events env b evs n)"
  by (induction evs arbitrary: n) (auto intro!: emits_rules assms)

lemma pull_remote_emits:
  assumes "\<And>ev. em_keeps (emits P) (pull_event env b ev)"
  shows "em_keeps (emits P) (pull_remote env b fuel cursor n)"
  by (induction fuel arbitrary: cursor n)
    (auto simp: Let_def intro!: emits_rules pull_events_emits assms)

definition stripped_target :: "binding \<Rightarrow> string \<Rightarrow> bool" where
  "stripped_target b p \<longleftrightarrow>
     (\<exists>remote rel. strip_remote_root remote (b_remote_root b) = Some rel \<and>
        safe_segments rel \<and> p = path_join (b_local_path b) rel)"

lemma stripped_targetI:
  "strip_remote_root remote (b_remote_root b) = Some rel \<Longrightarrow> stripped_target b (path_join (b_local_path b) rel)"
  unfolding stripped_target_def using strip_remote_root_segments by blast


definition sample_pull_env :: "engine_env \<Rightarrow> changelog_event list \<Rightarrow> engine_env" where
  "sample_pull_env env evs = env
     \<lparr>en_changelog := (\<lambda>n sid c l. if c = 0
        then Inr \<lparr>cr_events = evs, cr_next_cursor = 4, cr_has_more = True\<rparr>
        else Inr \<lparr>cr_events = [], cr_next_cursor = c, cr_has_more = False\<rparr>)\<rparr>"

definition sample_event :: "string \<Rightarrow> string \<Rightarrow> string option \<Rightarrow> changelog_event" where
  "sample_event p op h = \<lparr>ev_id = 4, ev_storage_id = nil_uuid, ev_file_id = None, ev_path = p, ev_op = op,
     ev_size = Some 3, ev_is_file = True, ev_content_hash = h\<rparr>"

lemma sample_pull_downloads:
  "list_ex (\<lambda>e. local_targets e = [''/home/u/Pictures/a.jpg''])
     (ew_trace (snd (pull_remote (sample_pull_env sample_engine_env
        [sample_event ''Camera/a.jpg'' ''upsert'' None]) (sample_binding ''b'' Sync) 5 0 0 sample_world)))"
  by code_simp


section \<open>The loop over the changelog\<close>

lemma pull_remote_Suc:
  "pull_remote env b (Suc fuel) cursor n w =
     (let w1 = w\<lparr>ew_step := Suc (ew_step w)\<rparr>
      in case en_changelog env (ew_step w) (b_storage_id b) cursor 500 of
           Inl e \<Rightarrow> (Inl (Failed e), w1)
         | Inr page \<Rightarrow>
             (case pull_events env b (cr_events page) n w1 of
                (Inl e, w2) \<Rightarrow> (Inl e, w2)
              | (Inr m, w2) \<Rightarrow>
                  let c = (if cursor < cr_next_cursor page then cr_next_cursor page else cursor)
                  in if \<not> cr_has_more page then (Inr (Some (m, c)), w2)
                     else pull_remote env b fuel c m w2))"
  unfolding pull_remote.simps em_bind_ask Let_def
  by (auto simp: em_bind_def em_try_def em_return_def em_throw_def split: sum.splits prod.splits)

lemmas pull_remote_splits = sum.splits prod.splits

lemma pull_remote_progress:
  shows "pull_remote env b fuel cursor n w = (Inr (Some (n', cursor')), w') \<Longrightarrow> cursor \<le> cursor'"
    and "(\<And>i c page. en_changelog env i (b_storage_id b) c 500 = Inr page \<Longrightarrow> c \<le> bound \<Longrightarrow>
            cr_next_cursor page \<le> bound \<and> (cr_has_more page \<longrightarrow> c < cr_next_cursor page)) \<Longrightarrow>
         cursor \<le> bound \<Longrightarrow> nat (bound - cursor) < fuel \<Longrightarrow>
         fst (pull_remote env b fuel cursor n w) \<noteq> Inr None"
proof -
  show "pull_remote env b fuel cursor n w = (Inr (Some (n', cursor')), w') \<Longrightarrow> cursor \<le> cursor'"
  proof (induction fuel arbitrary: cursor n w)
    case (Suc fuel)
    then show ?case
      by (fastforce simp: pull_remote_Suc Let_def simp del: pull_remote.simps split: pull_remote_splits if_splits)
  qed (simp add: em_return_def)
next
  assume server: "\<And>i c page. en_changelog env i (b_storage_id b) c 500 = Inr page \<Longrightarrow> c \<le> bound \<Longrightarrow>
            cr_next_cursor page \<le> bound \<and> (cr_has_more page \<longrightarrow> c < cr_next_cursor page)"
  show "cursor \<le> bound \<Longrightarrow> nat (bound - cursor) < fuel \<Longrightarrow> fst (pull_remote env b fuel cursor n w) \<noteq> Inr None"
  proof (induction fuel arbitrary: cursor n w)
    case (Suc fuel)
    show ?case
    proof (cases "en_changelog env (ew_step w) (b_storage_id b) cursor 500")
      case (Inr page)
      note page = server [OF Inr Suc.prems(1)]
      have more: "fst (pull_remote env b fuel (cr_next_cursor page) m w1) \<noteq> Inr None"
        if "cr_has_more page" for m w1
        using page that Suc.prems by (intro Suc.IH) auto
      show ?thesis
        using Inr page more
        by (auto simp: pull_remote_Suc Let_def simp del: pull_remote.simps split: pull_remote_splits)
    qed (simp add: pull_remote_Suc Let_def del: pull_remote.simps)
  qed simp
qed

text \<open>
  C33. Pulling the changelog makes progress and ends: the cursor it returns is never behind the
  one it started from; and against a server whose pages advance the cursor whenever they
  announce more, and whose cursors stay at or below some bound, every pass ends within the
  number of pages left to the bound, with a result or with the error of the call that failed.
\<close>

theorem pull_ends_and_advances:
  "(pull_remote env b fuel cursor n w = (Inr (Some (n', cursor')), w') \<longrightarrow> cursor \<le> cursor') \<and>
   ((\<forall>i c page. en_changelog env i (b_storage_id b) c 500 = Inr page \<longrightarrow> c \<le> bound \<longrightarrow>
       cr_next_cursor page \<le> bound \<and> (cr_has_more page \<longrightarrow> c < cr_next_cursor page)) \<longrightarrow>
    cursor \<le> bound \<longrightarrow> nat (bound - cursor) < fuel \<longrightarrow>
    fst (pull_remote env b fuel cursor n w) \<noteq> Inr None)"
  using pull_remote_progress(1) pull_remote_progress(2) [of env b bound cursor fuel n w] by blast

theorem pull_ends_and_advances_witness:
  "fst (pull_remote (sample_pull_env sample_engine_env []) (sample_binding ''b'' Sync) 9 0 0 sample_world) \<noteq> Inr None"
proof -
  have "\<forall>i c page. en_changelog (sample_pull_env sample_engine_env []) i
      (b_storage_id (sample_binding ''b'' Sync)) c 500 = Inr page \<longrightarrow> c \<le> 8 \<longrightarrow>
      cr_next_cursor page \<le> 8 \<and> (cr_has_more page \<longrightarrow> c < cr_next_cursor page)"
    by (auto simp: sample_pull_env_def split: if_splits)
  then show ?thesis
    using pull_ends_and_advances [where bound = 8 and cursor = 0 and fuel = 9] by simp
qed

section \<open>Conflicts\<close>

lemma pull_download_trace:
  assumes "pull_download env b ev rel l w = (r, w')"
  shows "\<exists>evs. ew_trace w' = ew_trace w @ evs \<and> (\<forall>rel' choice. ConflictAsked rel' choice \<notin> set evs)"
proof -
  have "em_keeps (emits (\<lambda>e. \<forall>rel' choice. e \<noteq> ConflictAsked rel' choice)) (pull_download env b ev rel l)"
    by (intro pull_download_emits) auto
  from em_keepsD [OF this assms] show ?thesis unfolding emits_def by blast
qed

lemma local_hash_run:
  "em_bind (local_hash_of env l) f w =
     f (res_ok (en_sha256_file env (ew_step w) l))
       (w\<lparr>ew_step := Suc (ew_step w), ew_trace := ew_trace w @ [Hashed l (en_sha256_file env (ew_step w) l)]\<rparr>)"
  by (simp add: local_hash_of_def em_call_def em_log_def em_ask_def em_defs)

lemma call_run:
  "em_bind (em_call q mk) f w =
     f (q (ew_step w)) (w\<lparr>ew_step := Suc (ew_step w), ew_trace := ew_trace w @ [mk (q (ew_step w))]\<rparr>)"
  by (simp add: em_call_def em_log_def em_ask_def em_defs)

text \<open>The first step of a download: unless the queue panics, the request is made.\<close>

lemma fetch_run:
  assumes "fetch env b rel sz rp l w = (r, w')"
  shows "r = Inl Panicked \<or> (\<exists>a evs. ew_trace w' = ew_trace w @ Downloaded (b_storage_id b) rp l a # evs)"
  using assms unfolding fetch_def
proof (cases rule: em_bindE)
  case (stop e)
  then show ?thesis
    by (auto simp: transfer_begin_def em_bind_ask em_queue_def split: option.splits)
next
  case (go tid u)
  have u: "ew_trace u = ew_trace w"
    using em_keepsD [OF only_queue_transfers(1) go(1)] by (simp add: only_queue_def)
  define a where "a = en_download_to env (ew_step u) (b_storage_id b) rp l"
  let ?v = "u\<lparr>ew_step := Suc (ew_step u), ew_trace := ew_trace u @ [Downloaded (b_storage_id b) rp l a]\<rparr>"
  have "(case a of Inl e \<Rightarrow> em_then (transfer_abandon tid) (em_throw (Failed e))
         | Inr _ \<Rightarrow> transfer_complete env tid) ?v = (r, w')"
    using go(2) by (simp add: call_run a_def)
  moreover have "em_keeps (emits (\<lambda>_. True)) (case a of Inl e \<Rightarrow> em_then (transfer_abandon tid) (em_throw (Failed e))
         | Inr _ \<Rightarrow> transfer_complete env tid)"
    by (intro emits_rules)
  ultimately have "emits (\<lambda>_. True) ?v w'" by (blast dest: em_keepsD)
  then show ?thesis using u by (auto simp: emits_def)
qed

lemma pull_download_fetches:
  assumes "pull_download env b ev rel l w = (r, w')"
  shows "r = Inl Panicked \<or> (\<exists>a evs. ew_trace w' = ew_trace w @ Downloaded (b_storage_id b) (ev_path ev) l a # evs)"
  using assms unfolding pull_download_def
proof (cases rule: em_thenE)
  case (stop e)
  then show ?thesis using fetch_run [OF stop(1)] by simp
next
  case (go a u)
  have "em_keeps (emits (\<lambda>_. True)) (em_bind (em_ask (\<lambda>n. en_metadata env n l)) (\<lambda>meta.
       em_bind (em_try meta) (\<lambda>m.
       em_bind (local_hash_of env l) (\<lambda>h.
       em_then (em_index (upsert_entry (b_id b)
           \<lparr>ie_path = rel, ie_size = (case ev_size ev of Some n \<Rightarrow> n | None \<Rightarrow> fm_len m),
            ie_mtime_ms = meta_mtime m, ie_content_hash = or_else h (ev_content_hash ev),
            ie_remote_file_id = ev_file_id ev, ie_last_cursor = ev_id ev\<rparr>))
         (em_then (em_index (clear_conflict (b_id b) rel)) (em_return True))))))"
    by (intro emits_rules hash_emits) simp
  then have "emits (\<lambda>_. True) u w'" using go(2) by (blast dest: em_keepsD)
  then show ?thesis using fetch_run [OF go(1)] by (auto simp: emits_def)
qed

lemma pull_upsert_run:
  assumes "strip_remote_root (ev_path ev) (b_remote_root b) = Some rel"
    and "ev_op ev = ''upsert''" and "ev_is_file ev"
    and "l = path_join (b_local_path b) rel" and "en_exists env (ew_step w) l"
  shows "pull_event env b ev w =
     pull_existing env b ev rel l (get_entry (b_id b) rel (ew_index w)) (w\<lparr>ew_step := Suc (ew_step w)\<rparr>)"
  using assms by (simp add: pull_event_def Let_def em_bind_gets em_bind_ask)


text \<open>
  Without the server's hash there is no question: an upsert event that carries no content
  hash replaces a file on disk that was edited since the last pass, and no conflict is asked
  about or recorded.
\<close>

theorem edits_lost_without_remote_hash:
  assumes "strip_remote_root (ev_path ev) (b_remote_root b) = Some rel"
    and "ev_op ev = ''upsert''" and "ev_is_file ev" and "l = path_join (b_local_path b) rel"
    and "en_exists env (ew_step w) l" and "en_sha256_file env (Suc (ew_step w)) l = Inr h"
    and "ev_content_hash ev = None" and "pull_event env b ev w = (r, w')"
  shows "\<exists>evs. ew_trace w' = ew_trace w @ Hashed l (Inr h) # evs \<and>
     (\<forall>rel' choice. ConflictAsked rel' choice \<notin> set evs) \<and>
     (r = Inl Panicked \<or> (\<exists>a. Downloaded (b_storage_id b) (ev_path ev) l a \<in> set evs))"
proof -
  define existing where "existing = get_entry (b_id b) rel (ew_index w)"
  let ?w2 = "w\<lparr>ew_step := Suc (Suc (ew_step w)), ew_trace := ew_trace w @ [Hashed l (Inr h)]\<rparr>"
  have "pull_download env b ev rel l ?w2 = (r, w')"
    using assms(6-8)
    unfolding pull_upsert_run [OF assms(1-5)] pull_existing_def local_hash_run by simp
  from pull_download_fetches [OF this] pull_download_trace [OF this] show ?thesis by (auto, blast)
qed

definition sample_edit_env :: engine_env where
  "sample_edit_env = sample_engine_env\<lparr>en_exists := (\<lambda>n p. True)\<rparr>"

lemma sample_edit_path:
  "strip_remote_root ''Camera/a.jpg'' ''Camera'' = Some ''a.jpg''"
  "path_join ''/home/u/Pictures'' ''a.jpg'' = ''/home/u/Pictures/a.jpg''"
  by code_simp+


theorem edits_lost_without_remote_hash_witness:
  "list_all (\<lambda>e. case e of ConflictAsked _ _ \<Rightarrow> False | _ \<Rightarrow> True)
     (tl (ew_trace (snd (pull_event sample_edit_env (sample_binding ''b'' Sync)
      (sample_event ''Camera/a.jpg'' ''upsert'' None) sample_world))))"
proof -
  let ?b = "sample_binding ''b'' Sync" and ?ev = "sample_event ''Camera/a.jpg'' ''upsert'' None"
  obtain r w' where run: "pull_event sample_edit_env ?b ?ev sample_world = (r, w')"
    by (cases "pull_event sample_edit_env ?b ?ev sample_world")
  have "strip_remote_root (ev_path ?ev) (b_remote_root ?b) = Some ''a.jpg''"
    "ev_op ?ev = ''upsert''" "ev_is_file ?ev" "''/home/u/Pictures/a.jpg'' = path_join (b_local_path ?b) ''a.jpg''"
    "en_exists sample_edit_env (ew_step sample_world) ''/home/u/Pictures/a.jpg''"
    "en_sha256_file sample_edit_env (Suc (ew_step sample_world)) ''/home/u/Pictures/a.jpg'' = Inr ''h1''"
    "ev_content_hash ?ev = None"
    by (simp_all add: sample_event_def sample_binding_def sample_edit_path sample_edit_env_def
        sample_engine_env_def)
  note main = edits_lost_without_remote_hash [OF this run]
  have "ew_trace sample_world = []" by (simp add: sample_world_def)
  then show ?thesis using main by (auto simp: run list_all_iff split: event.splits)
qed
end
