(* ===== verification/SyncEngine.thy ===== *)
theory SyncEngine
  imports PushEngine PullEngine BindingScheduler
begin

text \<open>
  Passes and ticks of the sync engine (crates/sarca-sync/src/engine.rs): one pass of one
  binding, the repair of a binding whose storage is gone, the tick over all bindings with the
  merge of their statuses, and the operations of the user interface. A tick runs its bindings
  concurrently; they share no row of the index, and they are modelled one after the other in
  the order of the tick. Which of them the scheduler skips, because a run of the same binding
  is in flight, is an argument. \<open>None\<close> is a pass whose changelog loop has not ended.
\<close>

datatype tick_scope = FullScope | PullOnly

section \<open>One pass of one binding\<close>

definition no_push :: push_local_result where
  "no_push = \<lparr>pl_uploaded = 0, pl_scanned = 0, pl_pending = 0, pl_failed = 0,
     pl_first_error = None, pl_relaying = 0\<rparr>"

definition sync_binding_scoped ::
  "engine_env \<Rightarrow> nat \<Rightarrow> binding \<Rightarrow> tick_scope \<Rightarrow> sync_status option engine" where
  "sync_binding_scoped env fuel b scope =
     em_bind (em_gets (\<lambda>w. get_cursor (b_id b) (ew_index w))) (\<lambda>cursor.
     em_bind (if cursor = 0 \<and> b_mode b = Sync then bootstrap_snapshot env b else em_return cursor) (\<lambda>cursor.
     em_bind (case scope of FullScope \<Rightarrow> push_local env b | PullOnly \<Rightarrow> em_return no_push) (\<lambda>push.
     let (_, pending, already_synced) = scan_counters (pl_scanned push) (pl_pending push)
     in em_bind
          (if b_mode b = Sync then
             em_bind (pull_remote env b fuel cursor 0) (\<lambda>pulled.
               case pulled of
                 None \<Rightarrow> em_return None
               | Some (downloading, cursor) \<Rightarrow>
                   em_then (em_index (set_cursor (b_id b) cursor))
                     (em_return (Some (downloading, cursor))))
           else em_return (Some (0, cursor)))
          (\<lambda>pulled.
             case pulled of
               None \<Rightarrow> em_return None
             | Some (downloading, cursor) \<Rightarrow>
                 em_gets (\<lambda>w. Some
                   \<lparr>ss_binding_id = b_id b, ss_cursor = cursor, ss_last_error = pl_first_error push,
                    ss_uploading = pl_uploaded push, ss_downloading = downloading,
                    ss_conflicts = conflict_count (b_id b) (ew_index w),
                    ss_scanned = pl_scanned push, ss_pending = pending,
                    ss_already_synced = already_synced, ss_failed = pl_failed push,
                    ss_deferred = upload_failure_count (b_id b) (ew_index w),
                    ss_relaying = pl_relaying push\<rparr>)))))"

text \<open>A storage that was deleted: repoint the binding when exactly one is left.\<close>

definition heal_stale_storage :: "engine_env \<Rightarrow> binding \<Rightarrow> string option engine" where
  "heal_stale_storage env b =
     em_bind (em_ask (en_list_storages env)) (\<lambda>r.
       case r of
         Inl _ \<Rightarrow> em_return None
       | Inr storages \<Rightarrow>
           if list_ex (\<lambda>s. sg_id s = b_storage_id b) storages then em_return None
           else
             (case storages of
                [only] \<Rightarrow>
                  em_then (em_index (upsert_binding (b\<lparr>b_storage_id := sg_id only\<rparr>)))
                    (em_return (Some (''Reconnected to storage '' @ [CHR 0x22] @ sg_name only @ [CHR 0x22])))
              | [] \<Rightarrow> em_return (Some ''Storage no longer exists. Create one to resume auto-upload.'')
              | _ \<Rightarrow> em_return (Some ''Storage no longer exists. Pick a storage again to resume auto-upload.'')))"

text \<open>A status with nothing but the cursor, the conflicts and an error.\<close>

definition bare_status :: "string \<Rightarrow> string option \<Rightarrow> local_index \<Rightarrow> sync_status" where
  "bare_status i err ix =
     \<lparr>ss_binding_id = i, ss_cursor = get_cursor i ix, ss_last_error = err, ss_uploading = 0,
      ss_downloading = 0, ss_conflicts = conflict_count i ix, ss_scanned = 0, ss_pending = 0,
      ss_already_synced = 0, ss_failed = 0, ss_deferred = 0, ss_relaying = 0\<rparr>"

definition put_status :: "sync_status \<Rightarrow> sync_status list \<Rightarrow> sync_status list" where
  "put_status s statuses = row_put ss_binding_id s statuses"

text \<open>What the scheduler runs for a binding it has accepted.\<close>

definition run_binding ::
  "engine_env \<Rightarrow> nat \<Rightarrow> tick_scope \<Rightarrow> binding \<Rightarrow> sync_status option engine" where
  "run_binding env fuel scope b =
     em_then (em_modify (\<lambda>w. w\<lparr>ew_statuses := put_status (bare_status (b_id b) None (ew_index w)) (ew_statuses w)\<rparr>))
      (em_bind (em_attempt (sync_binding_scoped env fuel b scope)) (\<lambda>r.
       em_bind (case r of
                  Inr s \<Rightarrow> em_return s
                | Inl (Failed e) \<Rightarrow>
                    em_gets (\<lambda>w. Some (bare_status (b_id b) (Some (en_show env e)) (ew_index w)))
                | Inl Panicked \<Rightarrow> em_throw Panicked) (\<lambda>status.
         case status of
           None \<Rightarrow> em_return None
         | Some s \<Rightarrow>
             if ss_last_error s = None then em_return (Some s)
             else em_bind (heal_stale_storage env b) (\<lambda>msg.
                    em_return (Some (case msg of None \<Rightarrow> s | Some m \<Rightarrow> s\<lparr>ss_last_error := Some m\<rparr>))))))"

section \<open>Ticks\<close>

definition tick_bindings :: "(binding \<Rightarrow> bool) \<Rightarrow> local_index \<Rightarrow> binding list" where
  "tick_bindings allow ix =
     sort_key (\<lambda>b. mode_rank (b_mode b)) (filter (\<lambda>b. b_enabled b \<and> allow b) (list_bindings ix))"

definition live_status :: "local_index \<Rightarrow> sync_status \<Rightarrow> bool" where
  "live_status ix s \<longleftrightarrow> list_ex (\<lambda>b. b_id b = ss_binding_id s \<and> b_enabled b) (list_bindings ix)"

definition tick_filtered_scoped ::
  "engine_env \<Rightarrow> nat \<Rightarrow> (string \<Rightarrow> bool) \<Rightarrow> (binding \<Rightarrow> bool) \<Rightarrow> tick_scope \<Rightarrow> unit option engine" where
  "tick_filtered_scoped env fuel busy allow scope =
     em_bind (em_gets (\<lambda>w. tick_bindings allow (ew_index w))) (\<lambda>bindings.
     em_bind (em_map (run_binding env fuel scope) (filter (\<lambda>b. \<not> busy (b_id b)) bindings)) (\<lambda>results.
       if list_ex (\<lambda>r. r = None) results then em_return None
       else
         em_then (em_modify (\<lambda>w. w\<lparr>ew_statuses := fold put_status (map the results) (ew_statuses w)\<rparr>))
           (em_then (em_modify (\<lambda>w. w\<lparr>ew_statuses := filter (live_status (ew_index w)) (ew_statuses w)\<rparr>))
             (em_return (Some ())))))"

definition tick_filtered ::
  "engine_env \<Rightarrow> nat \<Rightarrow> (string \<Rightarrow> bool) \<Rightarrow> (binding \<Rightarrow> bool) \<Rightarrow> unit option engine" where
  "tick_filtered env fuel busy allow = tick_filtered_scoped env fuel busy allow FullScope"

definition tick :: "engine_env \<Rightarrow> nat \<Rightarrow> (string \<Rightarrow> bool) \<Rightarrow> unit option engine" where
  "tick env fuel busy = tick_filtered env fuel busy (\<lambda>_. True)"

definition tick_pull_only :: "engine_env \<Rightarrow> nat \<Rightarrow> (string \<Rightarrow> bool) \<Rightarrow> unit option engine" where
  "tick_pull_only env fuel busy =
     tick_filtered_scoped env fuel busy (\<lambda>b. b_mode b = Sync) PullOnly"

definition tick_binding ::
  "engine_env \<Rightarrow> nat \<Rightarrow> (string \<Rightarrow> bool) \<Rightarrow> string \<Rightarrow> (binding \<Rightarrow> bool) \<Rightarrow> unit option engine" where
  "tick_binding env fuel busy i allow = tick_filtered env fuel busy (\<lambda>b. b_id b = i \<and> allow b)"

text \<open>Whether a pull is worth running: the first page of one event for each binding in turn.\<close>

fun remote_has_changes_in :: "engine_env \<Rightarrow> binding list \<Rightarrow> bool engine" where
  "remote_has_changes_in env [] = em_return False"
| "remote_has_changes_in env (b # bs) =
     (if \<not> b_enabled b \<or> b_mode b \<noteq> Sync then remote_has_changes_in env bs
      else
        em_bind (em_gets (\<lambda>w. get_cursor (b_id b) (ew_index w))) (\<lambda>cursor.
          if cursor = 0 then em_return True
          else
            em_bind (em_ask (\<lambda>n. en_changelog env n (b_storage_id b) cursor 1)) (\<lambda>r.
            em_bind (em_try r) (\<lambda>page.
              if cr_events page \<noteq> [] then em_return True else remote_has_changes_in env bs))))"

definition remote_has_changes :: "engine_env \<Rightarrow> bool engine" where
  "remote_has_changes env =
     em_bind (em_gets (\<lambda>w. list_bindings (ew_index w))) (\<lambda>bs. remote_has_changes_in env bs)"

section \<open>Operations of the user interface\<close>

text \<open>
  \<open>try_write\<close>: while a tick holds the lock, the status and the transfers are left for it to
  prune; the two flags say whether the locks were free.
\<close>

definition clear_status :: "bool \<Rightarrow> string \<Rightarrow> unit engine" where
  "clear_status lock_free i =
     em_when lock_free (em_modify (\<lambda>w. w\<lparr>ew_statuses := filter (\<lambda>s. ss_binding_id s \<noteq> i) (ew_statuses w)\<rparr>))"

definition clear_transfers :: "bool \<Rightarrow> string \<Rightarrow> unit engine" where
  "clear_transfers lock_free i =
     em_when lock_free (em_modify (\<lambda>w. w\<lparr>ew_queue := clear_binding i (ew_queue w)\<rparr>))"

definition engine_remove_binding :: "bool \<Rightarrow> bool \<Rightarrow> string \<Rightarrow> unit engine" where
  "engine_remove_binding status_free queue_free i =
     em_then (em_index (remove_binding i))
       (em_then (clear_status status_free i) (clear_transfers queue_free i))"

definition engine_set_binding_enabled :: "bool \<Rightarrow> bool \<Rightarrow> string \<Rightarrow> bool \<Rightarrow> unit engine" where
  "engine_set_binding_enabled status_free queue_free i enabled =
     em_bind (em_gets (\<lambda>w. set_binding_enabled i enabled (ew_index w))) (\<lambda>r.
       case r of
         Inl e \<Rightarrow> em_throw (Failed [OtherCause e])
       | Inr ix \<Rightarrow>
           em_then (em_index (\<lambda>_. ix))
             (em_when (\<not> enabled)
               (em_then (clear_status status_free i) (clear_transfers queue_free i))))"

fun clear_backoffs :: "string list \<Rightarrow> nat \<Rightarrow> local_index \<Rightarrow> nat \<times> local_index" where
  "clear_backoffs [] cleared ix = (cleared, ix)"
| "clear_backoffs (i # is) cleared ix =
     (let (n, ix) = clear_upload_backoff i ix in clear_backoffs is (cleared + n) ix)"

definition retry_failed_uploads :: "string option \<Rightarrow> nat engine" where
  "retry_failed_uploads binding_id =
     em_bind (em_gets (\<lambda>w. case binding_id of
         Some i \<Rightarrow> [i] | None \<Rightarrow> map b_id (list_bindings (ew_index w)))) (\<lambda>ids.
     em_bind (em_gets (\<lambda>w. clear_backoffs ids 0 (ew_index w))) (\<lambda>(cleared, ix).
       em_then (em_index (\<lambda>_. ix)) (em_return cleared)))"

definition set_credentials :: "unit engine" where
  "set_credentials = em_modify (\<lambda>w. w\<lparr>ew_known_dirs := {}\<rparr>)"

section \<open>The frame of a pass\<close>

text \<open>Everything the index, the statuses and the folder cache hold for other bindings.\<close>

definition other_rows ::
  "string \<Rightarrow> local_index \<Rightarrow> binding_row list \<times> entry_row list \<times> conflict_row list \<times> failure_row list" where
  "other_rows i ix =
     (filter (\<lambda>r. br_id r \<noteq> i) (ix_bindings ix), filter (\<lambda>r. er_binding r \<noteq> i) (ix_entries ix),
      filter (\<lambda>r. cf_binding r \<noteq> i) (ix_conflicts ix), filter (\<lambda>r. fr_binding r \<noteq> i) (ix_failures ix))"

text \<open>A binding as the user set it up, without the storage it points to.\<close>

definition binding_head :: "binding_row \<Rightarrow> binding" where
  "binding_head r = (binding_of_row r)\<lparr>b_storage_id := []\<rparr>"

definition index_framed :: "string \<Rightarrow> local_index \<Rightarrow> local_index \<Rightarrow> bool" where
  "index_framed i ix ix' \<longleftrightarrow> other_rows i ix' = other_rows i ix \<and>
     map binding_head (ix_bindings ix') = map binding_head (ix_bindings ix)"

definition pass_frame :: "string \<Rightarrow> (event \<Rightarrow> bool) \<Rightarrow> engine_world \<Rightarrow> engine_world \<Rightarrow> bool" where
  "pass_frame i P w w' \<longleftrightarrow>
     index_framed i (ew_index w) (ew_index w') \<and>
     filter (\<lambda>s. ss_binding_id s \<noteq> i) (ew_statuses w') = filter (\<lambda>s. ss_binding_id s \<noteq> i) (ew_statuses w) \<and>
     {k \<in> ew_known_dirs w'. fst k \<noteq> i} = {k \<in> ew_known_dirs w. fst k \<noteq> i} \<and> emits P w w'"

interpretation passing: step_preorder "pass_frame i P" for i P
proof
  fix s t u
  show "pass_frame i P s s"
    unfolding pass_frame_def index_framed_def using emitting.refl [of P s] by blast
  assume "pass_frame i P s t" and "pass_frame i P t u"
  then show "pass_frame i P s u"
    unfolding pass_frame_def index_framed_def using emitting.trans [of P s t u] by simp
qed

lemma filter_row_put:
  assumes "\<not> Q r" and "\<And>x. key x = key r \<Longrightarrow> \<not> Q x"
  shows "filter Q (row_put key r rows) = filter Q rows"
  using assms by (induction rows) auto

lemma filter_row_del: "(\<And>r. P r \<Longrightarrow> \<not> Q r) \<Longrightarrow> filter Q (row_del P rows) = filter Q rows"
  unfolding row_del_def by (induction rows) auto

lemma filter_map_unchanged:
  "(\<And>r. Q (f r) = Q r) \<Longrightarrow> (\<And>r. Q r \<Longrightarrow> f r = r) \<Longrightarrow> filter Q (map f rows) = filter Q rows"
  by (induction rows) auto

lemma filter_update_first:
  "(\<And>x. P x \<Longrightarrow> \<not> Q x) \<Longrightarrow> (\<And>x. P x \<Longrightarrow> \<not> Q (f x)) \<Longrightarrow>
   filter Q (update_first P f xs) = filter Q xs"
  by (induction xs) auto

lemma index_framed_refl: "index_framed i ix ix"
  by (simp add: index_framed_def)

lemma index_framed_ops:
  "index_framed i ix (upsert_entry i e ix)"
  "index_framed i ix (delete_entry i p ix)"
  "index_framed i ix (add_conflict i p lh rh ix)"
  "index_framed i ix (clear_conflict i p ix)"
  "index_framed i ix (set_upload_failure i p fc nx er ix)"
  "index_framed i ix (clear_upload_failure i p ix)"
  by (simp_all add: index_framed_def other_rows_def upsert_entry_def delete_entry_def
      add_conflict_def clear_conflict_def set_upload_failure_def clear_upload_failure_def)
    (rule filter_row_put filter_row_del; simp add: er_key_def cf_key_def fr_key_def)+

lemma index_framed_set_cursor: "index_framed i ix (set_cursor i c ix)"
proof -
  have "filter (\<lambda>r. br_id r \<noteq> i) (ix_bindings (set_cursor i c ix)) =
      filter (\<lambda>r. br_id r \<noteq> i) (ix_bindings ix)"
    unfolding set_cursor_def by (auto intro: filter_map_unchanged)
  moreover have "map binding_head (ix_bindings (set_cursor i c ix)) = map binding_head (ix_bindings ix)"
    by (simp add: set_cursor_def binding_head_def binding_of_row_def)
  moreover have "ix_entries (set_cursor i c ix) = ix_entries ix"
    "ix_conflicts (set_cursor i c ix) = ix_conflicts ix"
    "ix_failures (set_cursor i c ix) = ix_failures ix"
    by (simp_all add: set_cursor_def)
  ultimately show ?thesis by (simp add: index_framed_def other_rows_def)
qed

lemma pass_only_queue: "em_keeps only_queue m \<Longrightarrow> em_keeps (pass_frame i P) m"
  by (simp add: em_keeps_def only_queue_def pass_frame_def emits_def index_framed_refl)

lemma pass_log: "P e \<Longrightarrow> em_keeps (pass_frame i P) (em_log e)"
  by (simp add: em_keeps_def em_log_def pass_frame_def emits_def index_framed_refl)

lemma pass_call: "(\<And>a. P (ev a)) \<Longrightarrow> em_keeps (pass_frame i P) (em_call f ev)"
  unfolding em_call_def by (intro passing.keeps pass_only_queue [OF only_queue_ask] pass_log)

lemma pass_try: "em_keeps (pass_frame i P) (em_try r)"
  unfolding em_try_def by (intro passing.keeps)

lemma pass_index: "(\<And>ix. index_framed i ix (f ix)) \<Longrightarrow> em_keeps (pass_frame i P) (em_index f)"
  by (simp add: em_keeps_def em_index_def pass_frame_def emits_def)

lemma pass_statuses:
  "(\<And>w. filter (\<lambda>s. ss_binding_id s \<noteq> i) (f w) = filter (\<lambda>s. ss_binding_id s \<noteq> i) (ew_statuses w)) \<Longrightarrow>
   em_keeps (pass_frame i P) (em_modify (\<lambda>w. w\<lparr>ew_statuses := f w\<rparr>))"
  by (simp add: em_keeps_def pass_frame_def emits_def index_framed_refl)

lemma pass_forget: "em_keeps (pass_frame i P) (forget_remote_dirs i)"
  by (auto simp: em_keeps_def forget_remote_dirs_def pass_frame_def emits_def index_framed_refl)

lemmas pass_queue = only_queue_transfers [THEN pass_only_queue] only_queue_ask [THEN pass_only_queue]
  only_queue_em_queue [THEN pass_only_queue]

lemmas pass_rules = passing.keeps pass_queue pass_log pass_call pass_try pass_forget
  pass_index index_framed_ops index_framed_set_cursor

section \<open>What a pass may call\<close>

text \<open>The events of a push and those of a pull; only the former are sent by an upload-only binding.\<close>

fun push_event :: "event \<Rightarrow> bool" where
  "push_event (RemoteFileAsked _ _ _) = True"
| "push_event (FolderCreated _ _ _ _) = True"
| "push_event (Hashed _ _) = True"
| "push_event (Uploaded _ _ _ _ _ _ _) = True"
| "push_event (FileRemoved _) = True"
| "push_event (Attempted _ _) = True"
| "push_event _ = False"

fun pull_side :: "event \<Rightarrow> bool" where
  "pull_side (Hashed _ _) = True"
| "pull_side (Downloaded _ _ _ _) = True"
| "pull_side (FileRemoved _) = True"
| "pull_side (DirRemoved _) = True"
| "pull_side (DirCreated _) = True"
| "pull_side (FileRenamed _ _) = True"
| "pull_side (ConflictAsked _ _) = True"
| "pull_side _ = False"

definition allowed_event :: "tick_scope \<Rightarrow> binding_mode \<Rightarrow> event \<Rightarrow> bool" where
  "allowed_event scope mode e \<longleftrightarrow>
     (scope = FullScope \<and> push_event e) \<or> (mode = Sync \<and> pull_side e)"

locale pushing_pass =
  fixes P :: "event \<Rightarrow> bool"
  assumes pushes: "push_event e \<Longrightarrow> P e"
begin

lemma pass_remove: "em_keeps (pass_frame i P) (remove_ephemeral eph path)"
  unfolding remove_ephemeral_def by (intro pass_rules) (simp add: pushes)

lemma pass_give_up: "em_keeps (pass_frame i P) (give_up tid eph path e)"
  unfolding give_up_def by (intro pass_rules pass_remove)

lemma pass_segments: "em_keeps (pass_frame (b_id b) P) (ensure_segments env b built parts)"
proof (induction parts arbitrary: built)
  case (Cons part parts)
  have "em_keeps (pass_frame (b_id b) P)
     (em_modify (\<lambda>w. w\<lparr>ew_known_dirs := insert (b_id b, p) (ew_known_dirs w)\<rparr>))" for p
    by (auto simp: em_keeps_def pass_frame_def emits_def index_framed_refl)
  then show ?case
    unfolding ensure_segments.simps Let_def by (intro pass_rules Cons.IH) (simp add: pushes)
qed (simp add: passing.keeps)

lemma pass_record: "em_keeps (pass_frame (b_id b) P) (record_entry b c hash existing)"
  unfolding record_entry_def by (intro pass_rules)

lemma pass_send: "em_keeps (pass_frame (b_id b) P) (push_send env b c existing hash tid path eph)"
  unfolding push_send_def ensure_remote_parents_def
  by (auto simp: Let_def split: prod.split
      intro!: pass_rules pass_segments pass_give_up pass_remove pass_record pushes)

lemma pass_hashed: "em_keeps (pass_frame (b_id b) P) (push_hashed env b c existing remote hash tid path eph)"
  unfolding push_hashed_def by (intro pass_rules pass_send pass_remove pass_record)

lemma pass_bytes: "em_keeps (pass_frame (b_id b) P) (push_bytes env b c existing remote tid path eph)"
  unfolding push_bytes_def by (intro pass_rules pass_hashed pass_give_up) (simp add: pushes)

lemma pass_push_one: "em_keeps (pass_frame (b_id b) P) (push_one env b c wid)"
  unfolding push_one_def Let_def by (intro pass_rules pass_bytes pass_remove) (simp_all add: pushes)

lemma pass_settle: "em_keeps (pass_frame (b_id b) P) (settle env b rel v)"
  unfolding settle_def note_upload_failure_def
  by (cases v) (auto simp: Let_def pushes intro!: pass_rules)

lemma pass_publish: "em_keeps (pass_frame (b_id b) P) (publish_progress b bs)"
  unfolding publish_progress_def
  by (intro passing.keeps pass_statuses filter_update_first) simp_all

lemma pass_batch: "em_keeps (pass_frame (b_id b) P) (push_batch env b bs pending)"
proof (induction pending arbitrary: bs)
  case (Cons x rest)
  obtain c wid where x: "x = (c, wid)" by fastforce
  have step: "em_keeps (pass_frame (b_id b) P)
      (em_then (settle env b (lc_relative_path c) v)
        (em_then (publish_progress b (batch_count v bs))
          (if bs_stop (batch_count v bs) then em_return (batch_count v bs, rest)
           else push_batch env b (batch_count v bs) rest)))" for v
    by (intro passing.keeps pass_settle pass_publish Cons.IH)
  have "em_keeps (pass_frame (b_id b) P) (push_batch env b bs ((c, wid) # rest))"
    unfolding push_batch.simps Let_def
  proof (intro passing.keeps_bind passing.keeps_attempt pass_push_one, goal_cases)
    case (1 r)
    show ?case
    proof (cases r)
      case (Inl e)
      then show ?thesis using step by (cases e) (simp_all add: passing.keeps_throw)
    qed (simp add: step)
  qed
  then show ?case unfolding x .
qed (simp add: passing.keeps)

lemma pass_push_local: "em_keeps (pass_frame (b_id b) P) (push_local env b)"
proof -
  have "em_keeps (pass_frame i P) (discard_unselected cs ps)" for i cs ps
    unfolding discard_unselected_def Let_def by (intro pass_rules) (simp add: pushes)
  moreover have "em_keeps (pass_frame i P) (em_modify (\<lambda>w. w\<lparr>ew_step := n\<rparr>))" for i n
    by (simp add: em_keeps_def pass_frame_def emits_def index_framed_refl)
  then have "em_keeps (pass_frame i P) (enqueue_pending env b ps)" for i ps
    unfolding enqueue_pending_def by (intro pass_rules)
  moreover have "em_keeps (pass_frame i P) (release_unattempted us)" for i us
    unfolding release_unattempted_def
    by (intro pass_rules pass_remove)
  ultimately show ?thesis
    unfolding push_local_def by (intro pass_rules pass_batch)
qed

end

locale pulling_pass =
  fixes P :: "event \<Rightarrow> bool"
  assumes pulls: "pull_side e \<Longrightarrow> P e"
begin

lemma pass_fetch: "em_keeps (pass_frame i P) (fetch env b rel sz remote local)"
  unfolding fetch_def by (intro pass_rules) (simp add: pulls)

lemma pass_hash: "em_keeps (pass_frame i P) (local_hash_of env local)"
  unfolding local_hash_of_def by (intro pass_rules) (simp add: pulls)

lemma pass_bootstrap_file: "em_keeps (pass_frame (b_id b) P) (bootstrap_file env b cursor entry rel local)"
  unfolding bootstrap_file_def by (intro pass_rules pass_fetch pass_hash)

lemma pass_bootstrap_entries: "em_keeps (pass_frame (b_id b) P) (bootstrap_entries env b cursor entries)"
proof (induction entries)
  case (Cons entry rest)
  show ?case
    unfolding bootstrap_entries.simps Let_def
    by (intro pass_rules pass_bootstrap_file Cons.IH) (simp add: pulls)
qed (simp only: bootstrap_entries.simps passing.keeps_return)

lemma pass_bootstrap: "em_keeps (pass_frame (b_id b) P) (bootstrap_snapshot env b)"
  unfolding bootstrap_snapshot_def by (intro pass_rules pass_bootstrap_entries)

lemma pass_download: "em_keeps (pass_frame (b_id b) P) (pull_download env b ev rel local)"
  unfolding pull_download_def by (intro pass_rules pass_fetch pass_hash)

lemma pass_existing: "em_keeps (pass_frame (b_id b) P) (pull_existing env b ev rel local existing)"
proof -
  have choice: "em_keeps (pass_frame (b_id b) P)
     (case choice of KeepLocal \<Rightarrow> m | KeepRemote \<Rightarrow> n | KeepBoth \<Rightarrow> k)"
    if "em_keeps (pass_frame (b_id b) P) m" "em_keeps (pass_frame (b_id b) P) n"
      "em_keeps (pass_frame (b_id b) P) k" for choice and m n k :: "bool engine"
    using that by (simp split: conflict_choice.split)
  show ?thesis
    unfolding pull_existing_def Let_def
    by (intro pass_rules choice pass_download pass_hash) (simp_all add: pulls)
qed

lemma pass_pull_delete: "em_keeps (pass_frame (b_id b) P) (pull_delete env b rel local)"
  unfolding pull_delete_def em_remove_file_def by (intro pass_rules) (simp_all add: pulls)

lemma pass_pull_event: "em_keeps (pass_frame (b_id b) P) (pull_event env b ev)"
  unfolding pull_event_def Let_def
  by (intro pass_rules pass_pull_delete pass_existing pass_download) (simp add: pulls)

lemma pass_pull_events: "em_keeps (pass_frame (b_id b) P) (pull_events env b evs n)"
proof (induction evs arbitrary: n)
  case (Cons ev evs)
  show ?case unfolding pull_events.simps by (intro pass_rules pass_pull_event Cons.IH)
qed (simp add: passing.keeps)

lemma pass_pull_remote: "em_keeps (pass_frame (b_id b) P) (pull_remote env b fuel cursor n)"
proof (induction fuel arbitrary: cursor n)
  case (Suc fuel)
  show ?case
    unfolding pull_remote.simps Let_def by (intro pass_rules pass_pull_events Suc.IH)
qed (simp add: passing.keeps)

end

interpretation full_scope: pushing_pass "allowed_event FullScope mode" for mode
  by unfold_locales (simp add: allowed_event_def)

interpretation two_way: pulling_pass "allowed_event scope Sync" for scope
  by unfold_locales (simp add: allowed_event_def)

lemma pass_sync:
  "em_keeps (pass_frame (b_id b) (allowed_event scope (b_mode b))) (sync_binding_scoped env fuel b scope)"
proof -
  have pull: "em_keeps (pass_frame (b_id b) (allowed_event scope (b_mode b)))
      (if b_mode b = Sync then
             em_bind (pull_remote env b fuel cursor 0) (\<lambda>pulled.
               case pulled of
                 None \<Rightarrow> em_return None
               | Some (downloading, cursor) \<Rightarrow>
                   em_then (em_index (set_cursor (b_id b) cursor))
                     (em_return (Some (downloading, cursor))))
           else em_return (Some (0, cursor)))" for cursor
    by (cases "b_mode b = Sync")
      (simp_all only: if_True if_False simp_thms, (intro pass_rules two_way.pass_pull_remote)+)
  have boot: "em_keeps (pass_frame (b_id b) (allowed_event scope (b_mode b)))
      (if cursor = 0 \<and> b_mode b = Sync then bootstrap_snapshot env b else em_return cursor)" for cursor
    by (cases "b_mode b = Sync") (auto intro!: passing.keeps two_way.pass_bootstrap)
  have push: "em_keeps (pass_frame (b_id b) (allowed_event scope (b_mode b)))
      (case scope of FullScope \<Rightarrow> push_local env b | PullOnly \<Rightarrow> em_return no_push)"
    by (cases scope) (simp_all add: passing.keeps full_scope.pass_push_local)
  show ?thesis
    unfolding sync_binding_scoped_def scan_counters_def Let_def
    by (intro pass_rules boot push pull)
qed

lemma sync_status_id:
  assumes "sync_binding_scoped env fuel b scope w = (Inr (Some s), w')"
  shows "ss_binding_id s = b_id b"
  using assms unfolding sync_binding_scoped_def scan_counters_def Let_def
  by (auto elim!: em_bindE em_getsE split: prod.splits option.splits simp: em_return_def)

text \<open>The binding a run was started for, as the index still has it up to the storage.\<close>

definition head_of :: "string \<Rightarrow> local_index \<Rightarrow> binding option" where
  "head_of i ix = row_get b_id i (map binding_head (ix_bindings ix))"

lemma b_id_head [simp]: "b_id (binding_head r) = br_id r"
  by (simp add: binding_head_def)

lemma map_head_put:
  "row_get b_id (br_id r) (map binding_head rows) = Some (binding_head r) \<Longrightarrow>
   map binding_head (row_put br_id r rows) = map binding_head rows"
  by (induction rows) (auto split: if_splits)

lemma index_framed_heal:
  assumes "head_of (b_id b) ix = Some (b\<lparr>b_storage_id := []\<rparr>)"
  shows "index_framed (b_id b) ix (upsert_binding (b\<lparr>b_storage_id := sid\<rparr>) ix)"
proof -
  obtain r where ix: "ix_bindings (upsert_binding (b\<lparr>b_storage_id := sid\<rparr>) ix) = row_put br_id r (ix_bindings ix)"
    and r: "br_id r = b_id b" "binding_head r = b\<lparr>b_storage_id := []\<rparr>"
    unfolding upsert_binding_def Let_def
    by (simp add: binding_head_def binding_of_row_def)
  have "map binding_head (row_put br_id r (ix_bindings ix)) = map binding_head (ix_bindings ix)"
    using assms by (intro map_head_put) (simp add: head_of_def r)
  moreover have "filter (\<lambda>r. br_id r \<noteq> b_id b) (row_put br_id r (ix_bindings ix)) =
      filter (\<lambda>r. br_id r \<noteq> b_id b) (ix_bindings ix)"
    by (rule filter_row_put) (simp_all add: r)
  ultimately show ?thesis
    unfolding index_framed_def other_rows_def ix by (simp add: upsert_binding_def Let_def)
qed

lemma head_framed: "pass_frame i P w w' \<Longrightarrow> head_of j (ew_index w') = head_of j (ew_index w)"
  by (simp add: pass_frame_def index_framed_def head_of_def)

lemma heal_run:
  assumes "heal_stale_storage env b w = (r, w')"
    and "head_of (b_id b) (ew_index w) = Some (b\<lparr>b_storage_id := []\<rparr>)"
  shows "pass_frame (b_id b) P w w' \<and> (\<exists>msg. r = Inr msg)"
proof -
  have "pass_frame (b_id b) P w (w\<lparr>ew_step := n\<rparr>)" for n
    using pass_only_queue [OF only_queue_ask, of "b_id b" P undefined]
    by (simp add: pass_frame_def index_framed_refl emits_def)
  moreover have "pass_frame (b_id b) P w (w\<lparr>ew_step := n,
      ew_index := upsert_binding (b\<lparr>b_storage_id := sid\<rparr>) (ew_index w)\<rparr>)" for n sid
    using index_framed_heal [OF assms(2)] by (simp add: pass_frame_def emits_def)
  ultimately show ?thesis
    using assms(1)
    unfolding heal_stale_storage_def em_bind_ask
    by (auto simp: em_index_def em_then_def em_bind_def split: sum.splits list.splits if_splits)
qed

lemma em_bind_attempt: "m s = (res, t) \<Longrightarrow> em_bind (em_attempt m) f s = f res t"
  by (simp add: em_bind_def em_attempt_def)

lemma run_binding_run:
  assumes run: "run_binding env fuel scope b w = (r, w')"
    and head: "head_of (b_id b) (ew_index w) = Some (b\<lparr>b_storage_id := []\<rparr>)"
  shows "pass_frame (b_id b) (allowed_event scope (b_mode b)) w w' \<and> (\<forall>e. r \<noteq> Inl (Failed e)) \<and>
         (\<forall>s. r = Inr (Some s) \<longrightarrow> ss_binding_id s = b_id b)"
proof -
  let ?F = "pass_frame (b_id b) (allowed_event scope (b_mode b))"
  let ?w0 = "w\<lparr>ew_statuses := put_status (bare_status (b_id b) None (ew_index w)) (ew_statuses w)\<rparr>"
  have seed: "?F w ?w0"
    by (auto simp: pass_frame_def emits_def index_framed_refl put_status_def bare_status_def
        intro!: filter_row_put)
  obtain res w1 where sync: "sync_binding_scoped env fuel b scope ?w0 = (res, w1)" by fastforce
  note w1 = passing.trans [OF seed em_keepsD [OF pass_sync sync]]
  note heal = heal_run [of env b w1 _ _ "allowed_event scope (b_mode b)", OF _ head [folded head_framed [OF w1]]]
  have go: "em_then (em_modify (\<lambda>w. w\<lparr>ew_statuses := put_status (bare_status (b_id b) None (ew_index w)) (ew_statuses w)\<rparr>)) m w
      = m ?w0" for m :: "'a engine"
    by (simp add: em_then_def em_bind_def)
  let ?after = "\<lambda>status. case status of
           None \<Rightarrow> em_return None
         | Some s \<Rightarrow>
             if ss_last_error s = None then em_return (Some s)
             else em_bind (heal_stale_storage env b) (\<lambda>msg.
                    em_return (Some (case msg of None \<Rightarrow> s | Some m \<Rightarrow> s\<lparr>ss_last_error := Some m\<rparr>)))"
  have end_case: "?thesis" if s: "?after status w1 = (r, w')"
    and id: "\<And>s. status = Some s \<Longrightarrow> ss_binding_id s = b_id b" for status
  proof (cases status)
    case None
    then show ?thesis using s w1 by auto
  next
    case (Some st)
    show ?thesis
    proof (cases "ss_last_error st = None")
      case True
      then show ?thesis using s Some w1 id by auto
    next
      case False
      obtain m w2 where h: "heal_stale_storage env b w1 = (m, w2)" by fastforce
      with heal obtain msg where msg: "m = Inr msg" and w2: "?F w1 w2" by blast
      have "r = Inr (Some (case msg of None \<Rightarrow> st | Some m \<Rightarrow> st\<lparr>ss_last_error := Some m\<rparr>))" "w' = w2"
        using s by (simp_all add: Some False h msg em_bind_def)
      then show ?thesis using passing.trans [OF w1 w2] id [OF Some] by (simp split: option.split)
    qed
  qed
  have after: "em_bind (case res of
        Inr s \<Rightarrow> em_return s
      | Inl (Failed e) \<Rightarrow> em_gets (\<lambda>w. Some (bare_status (b_id b) (Some (en_show env e)) (ew_index w)))
      | Inl Panicked \<Rightarrow> em_throw Panicked) ?after w1 = (r, w')"
    using run unfolding run_binding_def go em_bind_attempt [of "sync_binding_scoped env fuel b scope", OF sync] .
  show ?thesis
  proof (cases res)
    case (Inr status)
    then show ?thesis
      using after sync sync_status_id [of env fuel b scope ?w0 _ w1]
      by (intro end_case [of status]) simp_all
  next
    case (Inl e)
    show ?thesis
    proof (cases e)
      case (Failed msg)
      show ?thesis
        using after unfolding Inl Failed sum.case engine_error.case em_bind_gets
        by (rule end_case) (auto simp: bare_status_def)
    next
      case Panicked
      then show ?thesis using after Inl w1 by (auto simp: em_bind_def)
    qed
  qed
qed

section \<open>Ticks\<close>

lemma row_put_keeps: "x \<in> set rows \<Longrightarrow> key x \<noteq> key r \<Longrightarrow> x \<in> set (row_put key r rows)"
  by (induction rows) auto

lemma fold_put_status_keeps:
  "s \<in> set statuses \<Longrightarrow> ss_binding_id s \<notin> ss_binding_id ` set new \<Longrightarrow> s \<in> set (fold put_status new statuses)"
  by (induction new arbitrary: statuses) (auto simp: put_status_def intro: row_put_keeps)

lemma fold_put_status_ids:
  "ss_binding_id ` set (fold put_status new statuses) = ss_binding_id ` set new \<union> ss_binding_id ` set statuses"
  by (induction new arbitrary: statuses) (auto simp: put_status_def keys_row_put)

lemma live_status_heads:
  "live_status ix s \<longleftrightarrow> (\<exists>h \<in> set (map binding_head (ix_bindings ix)). b_id h = ss_binding_id s \<and> b_enabled h)"
  by (auto simp: live_status_def list_ex_iff set_list_bindings binding_head_def)

lemma head_of_listed:
  assumes "index_inv ix" and "b \<in> set (list_bindings ix)"
  shows "head_of (b_id b) ix = Some (b\<lparr>b_storage_id := []\<rparr>)"
proof -
  obtain r where r: "r \<in> set (ix_bindings ix)" "b = binding_of_row r"
    using assms(2) by (auto simp: set_list_bindings)
  have "keys_ok b_id (map binding_head (ix_bindings ix))"
    using assms(1) by (simp add: index_inv_def keys_ok_def o_def)
  then show ?thesis
    unfolding head_of_def using r
    by (subst row_get_Some_iff) (auto simp: binding_head_def)
qed

lemma runs_run:
  assumes "em_map (run_binding env fuel scope) bs w = (r, w')"
    and "\<And>b. b \<in> set bs \<Longrightarrow> head_of (b_id b) (ew_index w) = Some (b\<lparr>b_storage_id := []\<rparr>)"
  shows "(\<forall>e. r \<noteq> Inl (Failed e)) \<and>
     map binding_head (ix_bindings (ew_index w')) = map binding_head (ix_bindings (ew_index w)) \<and>
     (\<forall>s \<in> set (ew_statuses w). ss_binding_id s \<notin> b_id ` set bs \<longrightarrow> s \<in> set (ew_statuses w')) \<and>
     (\<forall>rs. r = Inr rs \<longrightarrow> None \<notin> set rs \<longrightarrow> map (ss_binding_id \<circ> the) rs = map b_id bs)"
  using assms
proof (induction bs arbitrary: w r w')
  case (Cons b bs)
  obtain x w1 where run: "run_binding env fuel scope b w = (x, w1)" by fastforce
  from run_binding_run [OF run Cons.prems(2)]
  have frame: "pass_frame (b_id b) (allowed_event scope (b_mode b)) w w1"
    and ok: "\<And>e. x \<noteq> Inl (Failed e)" and id: "\<And>s. x = Inr (Some s) \<Longrightarrow> ss_binding_id s = b_id b"
    by simp_all
  have heads: "map binding_head (ix_bindings (ew_index w1)) = map binding_head (ix_bindings (ew_index w))"
    using frame by (simp add: pass_frame_def index_framed_def)
  have kept: "s \<in> set (ew_statuses w1)" if "s \<in> set (ew_statuses w)" "ss_binding_id s \<noteq> b_id b" for s
  proof -
    have "s \<in> set (filter (\<lambda>s. ss_binding_id s \<noteq> b_id b) (ew_statuses w1))"
      using frame that by (simp add: pass_frame_def)
    then show ?thesis by simp
  qed
  show ?case
  proof (cases x)
    case (Inl e)
    then have "r = Inl e" "w' = w1" using Cons.prems(1) run by (simp_all add: em_bind_def)
    then show ?thesis using ok Inl heads kept by auto
  next
    case (Inr y)
    obtain z w2 where rest: "em_map (run_binding env fuel scope) bs w1 = (z, w2)" by fastforce
    have "head_of (b_id c) (ew_index w1) = Some (c\<lparr>b_storage_id := []\<rparr>)" if "c \<in> set bs" for c
      using Cons.prems(2) [of c] that head_framed [OF frame] by simp
    note IH = Cons.IH [OF rest this]
    have r: "r = (case z of Inl e \<Rightarrow> Inl e | Inr ys \<Rightarrow> Inr (y # ys))" and w': "w' = w2"
      using Cons.prems(1) run rest Inr by (auto simp: em_bind_def split: sum.splits)
    have "ss_binding_id (the y) = b_id b" if "None \<noteq> y" using id Inr that by auto
    then show ?thesis
      using IH heads kept unfolding r w' by (cases z) auto
  qed
qed simp

lemma tick_bindings_listed: "set (tick_bindings allow ix) = {b \<in> set (list_bindings ix). b_enabled b \<and> allow b}"
  by (auto simp: tick_bindings_def)

text \<open>
  One failing binding never fails a tick, and the statuses a tick leaves are true: each
  belongs to a binding that exists and is enabled, every binding that ran has one, and a
  binding the tick passed over (it is busy, or not allowed now) keeps the one it had.
\<close>

theorem tick_statuses_current:
  assumes "index_inv (ew_index w)"
    and "tick_filtered_scoped env fuel busy allow scope w = (r, w')"
  shows "(\<forall>e. r \<noteq> Inl (Failed e)) \<and>
     (r = Inr (Some ()) \<longrightarrow>
        (\<forall>s \<in> set (ew_statuses w'). \<exists>b \<in> set (list_bindings (ew_index w)).
            b_id b = ss_binding_id s \<and> b_enabled b) \<and>
        (\<forall>b \<in> set (list_bindings (ew_index w)). b_enabled b \<and> allow b \<and> \<not> busy (b_id b) \<longrightarrow>
            b_id b \<in> ss_binding_id ` set (ew_statuses w')) \<and>
        (\<forall>s \<in> set (ew_statuses w). \<forall>b \<in> set (list_bindings (ew_index w)).
            b_id b = ss_binding_id s \<and> b_enabled b \<and> (busy (b_id b) \<or> \<not> allow b) \<longrightarrow>
            s \<in> set (ew_statuses w')))"
proof -
  let ?bs = "filter (\<lambda>b. \<not> busy (b_id b)) (tick_bindings allow (ew_index w))"
  have heads: "head_of (b_id b) (ew_index w) = Some (b\<lparr>b_storage_id := []\<rparr>)" if "b \<in> set ?bs" for b
    using that assms(1) by (intro head_of_listed) (auto simp: tick_bindings_listed)
  obtain x w1 where run: "em_map (run_binding env fuel scope) ?bs w = (x, w1)" by fastforce
  note runs = runs_run [OF run heads]
  have tick: "(r, w') = (case x of Inl e \<Rightarrow> (Inl e, w1) | Inr results \<Rightarrow>
      if list_ex (\<lambda>r. r = None) results then (Inr None, w1)
      else (Inr (Some ()), w1\<lparr>ew_statuses := filter (live_status (ew_index w1))
              (fold put_status (map the results) (ew_statuses w1))\<rparr>))"
    using assms(2)
    unfolding tick_filtered_scoped_def em_bind_gets em_bind_run [of "em_map f xs" for f xs] run
    by (cases x) (auto simp: em_then_def em_bind_def split: if_splits)
  show ?thesis
  proof (cases x)
    case (Inl e)
    then show ?thesis using tick runs by simp
  next
    case (Inr results)
    show ?thesis
    proof (cases "None \<in> set results")
      case True
      then show ?thesis using tick Inr by (simp add: list_ex_iff)
    next
      case False
      let ?new = "fold put_status (map the results) (ew_statuses w1)"
      have w': "r = Inr (Some ())" "ew_statuses w' = filter (live_status (ew_index w)) ?new"
        using tick Inr False runs by (auto simp: list_ex_iff live_status_heads intro!: filter_cong)
      have "map (ss_binding_id \<circ> the) results = map b_id ?bs" using runs Inr False by simp
      then have ids: "ss_binding_id ` set (map the results) = b_id ` set ?bs"
        by (metis list.map_comp list.set_map)
      have live: "live_status (ew_index w) s"
        if "b \<in> set (list_bindings (ew_index w))" "b_id b = ss_binding_id s" "b_enabled b" for b s
        using that by (auto simp: live_status_def list_ex_iff)
      have one: "b = c" if eq: "b \<in> set (list_bindings (ew_index w))" "c \<in> set (list_bindings (ew_index w))"
          "b_id b = b_id c" for b c
      proof -
        have inj: "inj_on br_id (set (ix_bindings (ew_index w)))"
          using assms(1) by (simp add: index_inv_def keys_ok_def distinct_map)
        obtain r1 r2 where "r1 \<in> set (ix_bindings (ew_index w))" "b = binding_of_row r1"
          "r2 \<in> set (ix_bindings (ew_index w))" "c = binding_of_row r2"
          using eq(1,2) unfolding set_list_bindings by blast
        with eq(3) inj show ?thesis by (simp add: inj_on_eq_iff)
      qed
      have "b_id b \<in> ss_binding_id ` set (ew_statuses w')"
        if b: "b \<in> set (list_bindings (ew_index w))" "b_enabled b \<and> allow b \<and> \<not> busy (b_id b)" for b
      proof -
        have "b_id b \<in> ss_binding_id ` set ?new"
          unfolding fold_put_status_ids ids using b by (auto simp: tick_bindings_listed)
        then show ?thesis using w' live b by auto
      qed
      moreover have "s \<in> set (ew_statuses w')"
        if s: "s \<in> set (ew_statuses w)" and b: "b \<in> set (list_bindings (ew_index w))"
          "b_id b = ss_binding_id s" "b_enabled b" and skipped: "busy (b_id b) \<or> \<not> allow b" for s b
      proof -
        have "ss_binding_id s \<notin> b_id ` set ?bs"
        proof
          assume "ss_binding_id s \<in> b_id ` set ?bs"
          then obtain c where c: "c \<in> set ?bs" "ss_binding_id s = b_id c" by blast
          then have "b = c" using one [OF b(1), of c] b(2) by (simp add: tick_bindings_listed)
          then show False using c(1) skipped by (simp add: tick_bindings_listed)
        qed
        then have "s \<in> set (ew_statuses w1)" and "ss_binding_id s \<notin> ss_binding_id ` set (map the results)"
          using runs s unfolding ids by blast+
        then have "s \<in> set ?new" by (rule fold_put_status_keeps)
        then show ?thesis using w' live [OF b] by simp
      qed
      moreover have "\<exists>b \<in> set (list_bindings (ew_index w)). b_id b = ss_binding_id s \<and> b_enabled b"
        if "s \<in> set (ew_statuses w')" for s
        using that w' by (auto simp: live_status_def list_ex_iff)
      ultimately show ?thesis using w' by blast
    qed
  qed
qed

definition sample_tick_world :: engine_world where
  "sample_tick_world = sample_world
     \<lparr>ew_index := upsert_binding (sample_binding ''a'' Sync)
        (upsert_binding (sample_binding ''b'' AutoUpload) empty_index),
      ew_statuses := [bare_status ''gone'' (Some ''old error'') empty_index,
                      bare_status ''b'' (Some ''kept'') empty_index]\<rparr>"

theorem tick_statuses_current_witness:
  "\<exists>w'. tick_filtered_scoped sample_engine_env 1 (\<lambda>i. i = ''b'') (\<lambda>_. True) FullScope sample_tick_world =
       (Inr (Some ()), w') \<and>
     bare_status ''b'' (Some ''kept'') empty_index \<in> set (ew_statuses w') \<and>
     ''a'' \<in> ss_binding_id ` set (ew_statuses w')"
proof -
  obtain r w' where run: "tick_filtered_scoped sample_engine_env 1 (\<lambda>i. i = ''b'') (\<lambda>_. True) FullScope
      sample_tick_world = (r, w')" by fastforce
  have "fst (tick_filtered_scoped sample_engine_env 1 (\<lambda>i. i = ''b'') (\<lambda>_. True) FullScope
      sample_tick_world) = Inr (Some ())" by code_simp
  then have r: "r = Inr (Some ())" using run by simp
  have inv: "index_inv (ew_index sample_tick_world)"
    by (simp add: sample_tick_world_def inv_intros)
  have bs: "set (list_bindings (ew_index sample_tick_world)) =
      {sample_binding ''a'' Sync, sample_binding ''b'' AutoUpload}"
    by (auto simp: sample_tick_world_def set_list_bindings upsert_binding_def binding_of_row_def
        sample_binding_def empty_index_def)
  have "bare_status ''b'' (Some ''kept'') empty_index \<in> set (ew_statuses sample_tick_world)"
    by (simp add: sample_tick_world_def)
  with tick_statuses_current [OF inv run] r bs show ?thesis
    using run by (auto simp: sample_binding_def bare_status_def)
qed



section \<open>The repair of a stale storage\<close>

text \<open>
  The repair writes back the binding as the tick read it. When one other storage is left,
  the index afterwards has, under the id of the binding, exactly the copy the pass was started
  with, repointed: a binding the user removed while the pass ran is back, and one that was
  disabled or changed is as before. Cursors, entries and other bindings are kept.
\<close>

theorem repair_restores_stale_copy:
  assumes "index_inv (ew_index w)" and "en_list_storages env (ew_step w) = Inr [only]"
    and "sg_id only \<noteq> b_storage_id b"
  shows "let ix = ew_index w; ix' = ew_index (snd (heal_stale_storage env b w)) in
     set (list_bindings ix') =
       insert (b\<lparr>b_storage_id := sg_id only\<rparr>) {c \<in> set (list_bindings ix). b_id c \<noteq> b_id b} \<and>
     (\<forall>i. get_cursor i ix' = get_cursor i ix) \<and> (\<forall>i p. get_entry i p ix' = get_entry i p ix)"
proof -
  have "ew_index (snd (heal_stale_storage env b w)) = upsert_binding (b\<lparr>b_storage_id := sg_id only\<rparr>) (ew_index w)"
    using assms(2,3) unfolding heal_stale_storage_def em_bind_ask
    by (simp add: em_then_def em_bind_def em_index_def)
  then show ?thesis
    using set_list_bindings_upsert [OF assms(1), of "b\<lparr>b_storage_id := sg_id only\<rparr>"]
    by (simp add: get_cursor_upsert_binding get_entry_frame)
qed

definition sample_repair_env :: engine_env where
  "sample_repair_env = sample_engine_env
     \<lparr>en_list_storages := \<lambda>n. Inr [\<lparr>sg_id = ''new'', sg_name = ''n''\<rparr>]\<rparr>"

theorem repair_restores_stale_copy_witness:
  "sample_binding ''a'' Sync \<notin> set (list_bindings (ew_index sample_world)) \<and>
   (sample_binding ''a'' Sync)\<lparr>b_storage_id := ''new''\<rparr> \<in> set (list_bindings (ew_index
     (snd (heal_stale_storage sample_repair_env (sample_binding ''a'' Sync) sample_world))))"
proof -
  have "index_inv (ew_index sample_world)" by (simp add: sample_world_def index_inv_empty)
  moreover have "en_list_storages sample_repair_env (ew_step sample_world) = Inr [\<lparr>sg_id = ''new'', sg_name = ''n''\<rparr>]"
    by (simp add: sample_repair_env_def)
  moreover have "sg_id \<lparr>sg_id = ''new'', sg_name = ''n''\<rparr> \<noteq> b_storage_id (sample_binding ''a'' Sync)"
    by (simp add: sample_binding_def nil_uuid_def)
  ultimately have "(sample_binding ''a'' Sync)\<lparr>b_storage_id := ''new''\<rparr> \<in> set (list_bindings (ew_index
     (snd (heal_stale_storage sample_repair_env (sample_binding ''a'' Sync) sample_world))))"
    using repair_restores_stale_copy [of sample_world sample_repair_env "\<lparr>sg_id = ''new'', sg_name = ''n''\<rparr>"
        "sample_binding ''a'' Sync"]
    by (simp add: Let_def)
  moreover have "set (list_bindings (ew_index sample_world)) = {}"
    by (simp add: sample_world_def set_list_bindings empty_index_def)
  ultimately show ?thesis by simp
qed

end
