(* ===== verification/RustNet.thy ===== *)
theory RustNet
  imports RustStr
begin

text \<open>
  The parser of \<open>std::net::IpAddr\<close>, which the client uses to tell a local address from a
  routable one: four decimal octets without leading zeros, or eight hexadecimal groups, of
  which one run may be left out and the last two may be written as an IPv4 address.
\<close>

datatype ip_addr = V4 "nat list" | V6 "nat list"

definition digit_of :: "nat \<Rightarrow> char \<Rightarrow> nat option" where
  "digit_of radix c =
     (let n = of_char c :: nat;
          v = (if 48 \<le> n \<and> n \<le> 57 then n - 48
               else if 97 \<le> n \<and> n \<le> 122 then n - 87
               else if 65 \<le> n \<and> n \<le> 90 then n - 55 else 36)
      in if v < radix then Some v else None)"

text \<open>The digits at the front of the input, with the value they spell.\<close>

fun read_digits :: "nat \<Rightarrow> nat \<Rightarrow> nat \<Rightarrow> string \<Rightarrow> nat \<times> nat \<times> string" where
  "read_digits radix acc n [] = (acc, n, [])"
| "read_digits radix acc n (c # cs) =
     (case digit_of radix c of
        None \<Rightarrow> (acc, n, c # cs)
      | Some d \<Rightarrow> read_digits radix (acc * radix + d) (Suc n) cs)"

definition read_number :: "nat \<Rightarrow> nat \<Rightarrow> nat \<Rightarrow> bool \<Rightarrow> string \<Rightarrow> (nat \<times> string) option" where
  "read_number radix max_digits bound allow_zero_prefix s =
     (let (v, n, rest) = read_digits radix 0 0 s
      in if n = 0 \<or> max_digits < n \<or> bound < v then None
         else if \<not> allow_zero_prefix \<and> take 1 s = ''0'' \<and> 1 < n then None
         else Some (v, rest))"

text \<open>\<open>read_separator\<close>: the separator is expected before every item but the first.\<close>

definition read_separator ::
  "char \<Rightarrow> nat \<Rightarrow> (string \<Rightarrow> ('a \<times> string) option) \<Rightarrow> string \<Rightarrow> ('a \<times> string) option" where
  "read_separator sep i item s =
     (if i = 0 then item s
      else case s of [] \<Rightarrow> None | c # cs \<Rightarrow> if c = sep then item cs else None)"

fun read_octets :: "nat \<Rightarrow> nat \<Rightarrow> string \<Rightarrow> (nat list \<times> string) option" where
  "read_octets i 0 s = Some ([], s)"
| "read_octets i (Suc k) s =
     (case read_separator CHR ''.'' i (read_number 10 3 255 False) s of
        None \<Rightarrow> None
      | Some (v, s) \<Rightarrow> map_option (\<lambda>(vs, s). (v # vs, s)) (read_octets (Suc i) k s))"

definition read_ipv4 :: "string \<Rightarrow> (nat list \<times> string) option" where
  "read_ipv4 s = read_octets 0 4 s"

text \<open>
  \<open>read_groups\<close> with room for \<open>k\<close> more groups, the next being number \<open>i\<close>: the groups read,
  whether the last two came from an IPv4 address, and the rest of the input.
\<close>

fun read_groups :: "nat \<Rightarrow> nat \<Rightarrow> string \<Rightarrow> nat list \<times> bool \<times> string" where
  "read_groups i 0 s = ([], False, s)"
| "read_groups i (Suc k) s =
     (case (if 0 < k then read_separator CHR '':'' i read_ipv4 s else None) of
        Some (v, rest) \<Rightarrow> ([256 * v ! 0 + v ! 1, 256 * v ! 2 + v ! 3], True, rest)
      | None \<Rightarrow>
          (case read_separator CHR '':'' i (read_number 16 4 65535 True) s of
             None \<Rightarrow> ([], False, s)
           | Some (g, rest) \<Rightarrow>
               (let (gs, v4, rest) = read_groups (Suc i) k rest in (g # gs, v4, rest))))"

definition read_ipv6 :: "string \<Rightarrow> (nat list \<times> string) option" where
  "read_ipv6 s =
     (let (head, v4, rest) = read_groups 0 8 s
      in if length head = 8 then Some (head, rest)
         else if v4 then None
         else case rest of
                a # b # rest \<Rightarrow>
                  if a = CHR '':'' \<and> b = CHR '':'' then
                    let (tail, _, rest) = read_groups 0 (8 - (length head + 1)) rest
                    in Some (head @ replicate (8 - length head - length tail) 0 @ tail, rest)
                  else None
              | _ \<Rightarrow> None)"

definition parse_ip :: "string \<Rightarrow> ip_addr option" where
  "parse_ip s =
     (case read_ipv4 s of
        Some (v, rest) \<Rightarrow> if rest = [] then Some (V4 v) else None
      | None \<Rightarrow>
          (case read_ipv6 s of
             Some (g, rest) \<Rightarrow> if rest = [] then Some (V6 g) else None
           | None \<Rightarrow> None))"

section \<open>Octets and groups are in range\<close>

lemma read_number_bound: "read_number r m bnd z s = Some (v, rest) \<Longrightarrow> v \<le> bnd"
  by (auto simp: read_number_def Let_def split: if_splits prod.splits)

lemma read_octets_range:
  "read_octets i k s = Some (vs, rest) \<Longrightarrow> length vs = k \<and> list_all (\<lambda>v. v \<le> 255) vs"
proof (induction k arbitrary: i s vs rest)
  case (Suc k)
  obtain v s1 where v: "read_separator CHR ''.'' i (read_number 10 3 255 False) s = Some (v, s1)"
    using Suc.prems by (cases "read_separator CHR ''.'' i (read_number 10 3 255 False) s") auto
  have "v \<le> 255"
    using v by (cases s) (auto simp: read_separator_def dest: read_number_bound split: if_splits)
  obtain ws rest1 where ws: "read_octets (Suc i) k s1 = Some (ws, rest1)" and vs: "vs = v # ws"
    using Suc.prems v by auto
  from Suc.IH [OF ws] \<open>v \<le> 255\<close> show ?case by (simp add: vs)
qed simp

lemma parse_ip_v4_range:
  assumes "parse_ip s = Some (V4 vs)"
  shows "length vs = 4 \<and> list_all (\<lambda>v. v \<le> 255) vs"
proof -
  have "\<exists>rest. read_octets 0 4 s = Some (vs, rest)"
  proof (cases "read_ipv4 s")
    case None
    then show ?thesis
      using assms by (cases "read_ipv6 s") (simp_all add: parse_ip_def split: prod.splits if_splits)
  next
    case (Some x)
    then show ?thesis
      using assms by (cases x) (simp add: parse_ip_def read_ipv4_def split: if_splits)
  qed
  then show ?thesis using read_octets_range by blast
qed

end
