(* ===== verification/SyncHttp.thy ===== *)
theory SyncHttp
  imports UploadProtocol RemotePaths RustNet SyncTypes "HOL-Library.Word"
begin

unbundle bit_operations_syntax

text \<open>
  The other calls of the HTTP client of the sync crate (crates/sarca-sync/src/api.rs): paths in
  URLs, the base URL of a server, redirects of the webview proxy, the small calls and what they
  make of a status, and downloads: one body to a temporary file and a rename, or a large file
  in parallel ranges that are put together in order. The HTTP stack is the function that
  answers a request; the URL parser is an argument; local files are a map from paths to bytes.
\<close>

section \<open>Paths in URLs\<close>

definition unreserved :: "char \<Rightarrow> bool" where
  "unreserved c =
     (let n = of_char c :: nat
      in 65 \<le> n \<and> n \<le> 90 \<or> 97 \<le> n \<and> n \<le> 122 \<or> 48 \<le> n \<and> n \<le> 57 \<or>
         c = CHR ''-'' \<or> c = CHR ''_'' \<or> c = CHR ''.'' \<or> c = CHR ''~'')"

definition upper_hex :: "nat \<Rightarrow> char" where
  "upper_hex n = (if n < 10 then char_of (48 + n) else char_of (55 + n))"

fun urlencoding_encode :: "string \<Rightarrow> string" where
  "urlencoding_encode [] = []"
| "urlencoding_encode (b # bs) =
     (if unreserved b then b # urlencoding_encode bs
      else CHR ''%'' # upper_hex (of_char b div 16) # upper_hex (of_char b mod 16)
             # urlencoding_encode bs)"

definition encode_path :: "string \<Rightarrow> string" where
  "encode_path path = join_with CHR ''/'' (map urlencoding_encode (split_on CHR ''/'' path))"

section \<open>Tokens\<close>

definition authorization_header_value :: "string \<Rightarrow> string option" where
  "authorization_header_value access_token =
     (let token = trim access_token
      in if token = [] then None else Some (''Bearer '' @ token))"

definition require_access_token :: "string \<Rightarrow> (api_error, unit) result" where
  "require_access_token access_token =
     (if trim access_token = []
      then Inl [OtherCause (''Not authenticated '' @ [CHR 0xE2, CHR 0x80, CHR 0x94] @
        '' missing access token. Sign in again so Sync can use your session.'')]
      else Inr ())"

section \<open>Local hosts and the base URL\<close>

definition is_local_v4 :: "nat list \<Rightarrow> bool" where
  "is_local_v4 v \<longleftrightarrow>
     v ! 0 = 127 \<or>
     (v ! 0 = 10 \<or> v ! 0 = 172 \<and> 16 \<le> v ! 1 \<and> v ! 1 \<le> 31 \<or> v ! 0 = 192 \<and> v ! 1 = 168) \<or>
     (v ! 0 = 169 \<and> v ! 1 = 254) \<or> v = [0, 0, 0, 0]"

definition is_local_v6 :: "nat list \<Rightarrow> bool" where
  "is_local_v6 g \<longleftrightarrow>
     g = [0, 0, 0, 0, 0, 0, 0, 1] \<or> g = [0, 0, 0, 0, 0, 0, 0, 0] \<or>
     (of_nat (g ! 0) AND 0xFE00 :: 16 word) = 0xFC00 \<or>
     (of_nat (g ! 0) AND 0xFFC0 :: 16 word) = 0xFE80"

definition is_local_host :: "string \<Rightarrow> bool" where
  "is_local_host host =
     (let bare = trim_end_matches CHR '']'' (trim_start_matches CHR ''['' host);
          low = to_ascii_lowercase bare
      in low = ''localhost'' \<or> ends_with ''.localhost'' low \<or> ends_with ''.local'' low \<or>
         ends_with ''.internal'' low \<or> ends_with ''.home.arpa'' low \<or>
         (case parse_ip bare of
            Some (V4 v) \<Rightarrow> is_local_v4 v
          | Some (V6 g) \<Rightarrow> is_local_v6 g
          | None \<Rightarrow> False))"

record url =
  ur_scheme :: string
  ur_host :: "string option"
  ur_port :: "nat option"

definition with_scheme :: "(string \<Rightarrow> url option) \<Rightarrow> string \<Rightarrow> string" where
  "with_scheme parse trimmed =
     (if contains_str ''://'' trimmed then trimmed
      else
        let host_only = (case parse (''http://'' @ trimmed) of
               Some u \<Rightarrow> (case ur_host u of Some h \<Rightarrow> h | None \<Rightarrow> [])
             | None \<Rightarrow> [])
        in if is_local_host host_only then ''http://'' @ trimmed else ''https://'' @ trimmed)"

definition normalize_server_url :: "(string \<Rightarrow> url option) \<Rightarrow> string \<Rightarrow> (string, string) result" where
  "normalize_server_url parse raw =
     (let trimmed = trim_end_matches CHR ''/'' (trim raw)
      in if trimmed = [] then Inl ''Server URL is required''
         else case parse (with_scheme parse trimmed) of
           None \<Rightarrow> Inl ''Invalid server URL. Use http:// or https:// and a valid host.''
         | Some u \<Rightarrow>
             if ur_scheme u \<noteq> ''http'' \<and> ur_scheme u \<noteq> ''https''
             then Inl (''Unsupported URL scheme '' @ [CHR 0x27] @ ur_scheme u @ [CHR 0x27] @
                    ''. Use http:// or https://.'')
             else (case ur_host u of
               None \<Rightarrow> Inl (''Invalid server URL '' @ [CHR 0xE2, CHR 0x80, CHR 0x94] @ '' missing host.'')
             | Some h \<Rightarrow>
                 Inr (ur_scheme u @ ''://'' @ h @
                   (case ur_port u of None \<Rightarrow> [] | Some p \<Rightarrow> CHR '':'' # show_nat p))))"

section \<open>Redirects of the webview proxy\<close>

definition max_proxy_redirects :: nat where "max_proxy_redirects = 5"

text \<open>\<open>True\<close> is \<open>follow\<close>. The URLs requested so far, the one that redirects last.\<close>

definition proxy_redirect_policy :: "url list \<Rightarrow> url \<Rightarrow> bool" where
  "proxy_redirect_policy previous next =
     (if previous = [] then False
      else if max_proxy_redirects \<le> length previous then False
      else
        let same_host = (ur_host next = ur_host (last previous));
            downgraded = (ur_scheme (last previous) = ''https'' \<and> ur_scheme next \<noteq> ''https'')
        in same_host \<and> \<not> downgraded)"

text \<open>The requests a client with that policy makes, given what each URL redirects to.\<close>

function follow_redirects :: "(url \<Rightarrow> url option) \<Rightarrow> url list \<Rightarrow> url list" where
  "follow_redirects answer requested =
     (case answer (last requested) of
        None \<Rightarrow> requested
      | Some next \<Rightarrow>
          if proxy_redirect_policy requested next
          then follow_redirects answer (requested @ [next]) else requested)"
  by pat_completeness auto
termination
  by (relation "measure (\<lambda>(_, requested). max_proxy_redirects - length requested)")
    (auto simp: proxy_redirect_policy_def split: if_splits)

declare follow_redirects.simps [simp del]

section \<open>The small calls\<close>

record request =
  rq_method :: string
  rq_url :: string
  rq_json :: "(string \<times> string) list"
  rq_range :: "(nat \<times> nat) option"     \<comment> \<open>\<open>Range: bytes=start-end\<close>\<close>

record reply =
  rp_status :: nat
  rp_text :: "(reqwest_error, string) result"
  rp_content_length :: "nat option"
  rp_content_range :: "string option"
  rp_body :: "(nat \<times> body_event) list"

text \<open>What the network does with the request of that number over that version.\<close>

type_synonym http = "nat \<Rightarrow> request \<Rightarrow> version \<Rightarrow> (reqwest_error, reply) result"

definition rq :: "string \<Rightarrow> string \<Rightarrow> request" where
  "rq meth u = \<lparr>rq_method = meth, rq_url = u, rq_json = [], rq_range = None\<rparr>"

definition is_success :: "nat \<Rightarrow> bool" where
  "is_success status \<longleftrightarrow> 200 \<le> status \<and> status < 300"

definition is_server_error :: "nat \<Rightarrow> bool" where
  "is_server_error status \<longleftrightarrow> 500 \<le> status \<and> status < 600"

definition send_authed :: "bool \<Rightarrow> http \<Rightarrow> nat \<Rightarrow> request \<Rightarrow> (api_error, reply) result" where
  "send_authed h3 http n req =
     (case fst (send_preferring_h3 h3 (rq_url req) (http n req)) of
        Inl e \<Rightarrow> Inl [Reqwest e]
      | Inr resp \<Rightarrow> Inr resp)"

text \<open>reqwest's \<open>error_for_status\<close>: 4xx and 5xx are errors that carry the status.\<close>

definition error_for_status :: "reply \<Rightarrow> (api_error, reply) result" where
  "error_for_status resp =
     (if 400 \<le> rp_status resp \<and> rp_status resp < 600
      then Inl [Reqwest \<lparr>re_timeout = False, re_connect = False, re_request = False,
                         re_status = Some (rp_status resp)\<rparr>]
      else Inr resp)"

definition res_bind :: "('e, 'a) result \<Rightarrow> ('a \<Rightarrow> ('e, 'b) result) \<Rightarrow> ('e, 'b) result" where
  "res_bind r f = (case r of Inl e \<Rightarrow> Inl e | Inr a \<Rightarrow> f a)"

text \<open>The body as a JSON value of the expected shape; \<open>decode\<close> is the deserializer.\<close>

definition json_body :: "(string \<Rightarrow> (string, 'a) result) \<Rightarrow> reply \<Rightarrow> (api_error, 'a) result" where
  "json_body decode resp =
     (case rp_text resp of
        Inl e \<Rightarrow> Inl [Reqwest e]
      | Inr body \<Rightarrow> (case decode body of Inl e \<Rightarrow> Inl [OtherCause e] | Inr a \<Rightarrow> Inr a))"

definition with_context :: "string \<Rightarrow> (api_error, 'a) result \<Rightarrow> (api_error, 'a) result" where
  "with_context msg r = (case r of Inl e \<Rightarrow> Inl (Context msg # e) | Inr a \<Rightarrow> Inr a)"

definition api_get ::
  "bool \<Rightarrow> http \<Rightarrow> (string \<Rightarrow> (string, 'a) result) \<Rightarrow> string \<Rightarrow> (api_error, 'a) result" where
  "api_get h3 http decode u =
     res_bind (send_authed h3 http 0 (rq ''GET'' u)) (\<lambda>resp.
     res_bind (error_for_status resp) (json_body decode))"

definition list_storages ::
  "bool \<Rightarrow> http \<Rightarrow> (string \<Rightarrow> (string, 'a) result) \<Rightarrow> string \<Rightarrow> string \<Rightarrow> (api_error, 'a) result" where
  "list_storages h3 http decode base_url access_token =
     res_bind (require_access_token access_token) (\<lambda>_.
     res_bind (send_authed h3 http 0 (rq ''GET'' (base_url @ ''/api/storages''))) (\<lambda>resp.
     res_bind (error_for_status resp) (\<lambda>resp.
       with_context ''invalid storages response'' (json_body decode resp))))"

definition api_snapshot ::
  "bool \<Rightarrow> http \<Rightarrow> (string \<Rightarrow> (string, 'a) result) \<Rightarrow> string \<Rightarrow> uuid \<Rightarrow> (api_error, 'a) result" where
  "api_snapshot h3 http decode base_url storage_id =
     api_get h3 http decode (base_url @ ''/api/storages/'' @ storage_id @ ''/sync/snapshot'')"

definition api_changelog ::
  "bool \<Rightarrow> http \<Rightarrow> (string \<Rightarrow> (string, 'a) result) \<Rightarrow> string \<Rightarrow> uuid \<Rightarrow> int \<Rightarrow> int \<Rightarrow> (api_error, 'a) result" where
  "api_changelog h3 http decode base_url storage_id cursor limit =
     api_get h3 http decode (base_url @ ''/api/storages/'' @ storage_id @ ''/sync/changelog?cursor='' @
       show_int cursor @ ''&limit='' @ show_int limit)"

text \<open>The preflight: a missing row is an answer, not an error.\<close>

definition remote_file ::
  "bool \<Rightarrow> http \<Rightarrow> (string \<Rightarrow> (string, 'a) result) \<Rightarrow> string \<Rightarrow> string \<Rightarrow> uuid \<Rightarrow> string \<Rightarrow>
   (api_error, 'a option) result" where
  "remote_file h3 http decode base_url access_token storage_id remote_path =
     res_bind (require_access_token access_token) (\<lambda>_.
     res_bind (send_authed h3 http 0 (rq ''GET''
         (base_url @ ''/api/storages/'' @ storage_id @ ''/files/info/'' @ encode_path remote_path))) (\<lambda>resp.
       if rp_status resp = 404 then Inr None
       else res_bind (error_for_status resp) (\<lambda>resp.
              res_bind (json_body decode resp) (\<lambda>a. Inr (Some a)))))"

definition create_folder ::
  "(nat \<Rightarrow> string) \<Rightarrow> bool \<Rightarrow> http \<Rightarrow> string \<Rightarrow> string \<Rightarrow> uuid \<Rightarrow> string \<Rightarrow> string \<Rightarrow> (api_error, unit) result" where
  "create_folder show_status h3 http base_url access_token storage_id parent folder_name =
     res_bind (require_access_token access_token) (\<lambda>_.
     res_bind (send_authed h3 http 0 ((rq ''POST''
         (base_url @ ''/api/storages/'' @ storage_id @ ''/files/create_folder''))
         \<lparr>rq_json := [(''path'', parent), (''folder_name'', folder_name)]\<rparr>)) (\<lambda>resp.
       if \<not> is_success (rp_status resp) \<and> rp_status resp \<noteq> 409 then
         (let detail = (case rp_text resp of Inl _ \<Rightarrow> [] | Inr t \<Rightarrow> t)
          in if trim detail = []
             then Inl [OtherCause (''create_folder failed: '' @ show_status (rp_status resp))]
             else Inl [OtherCause (''create_folder failed: '' @ show_status (rp_status resp) @ '' '' @ detail)])
       else Inr ()))"

definition delete_remote ::
  "(nat \<Rightarrow> string) \<Rightarrow> bool \<Rightarrow> http \<Rightarrow> string \<Rightarrow> uuid \<Rightarrow> string \<Rightarrow> (api_error, unit) result" where
  "delete_remote show_status h3 http base_url storage_id remote_path =
     res_bind (send_authed h3 http 0 (rq ''DELETE''
         (base_url @ ''/api/storages/'' @ storage_id @ ''/files/'' @ encode_path remote_path))) (\<lambda>resp.
       if \<not> is_success (rp_status resp) \<and> rp_status resp \<noteq> 404
       then Inl [OtherCause (''delete failed: '' @ show_status (rp_status resp))]
       else Inr ())"

definition login ::
  "(nat \<Rightarrow> string) \<Rightarrow> (string \<Rightarrow> url option) \<Rightarrow> bool \<Rightarrow> http \<Rightarrow> (reqwest_error \<Rightarrow> string) \<Rightarrow> (string \<Rightarrow> (string, 'a) result) \<Rightarrow>
   string \<Rightarrow> string \<Rightarrow> string \<Rightarrow> (api_error, 'a) result" where
  "login show_status parse h3 http show_error decode base_url email password =
     (case normalize_server_url parse base_url of
        Inl e \<Rightarrow> Inl [OtherCause e]
      | Inr base \<Rightarrow>
          let req = (rq ''POST'' (base @ ''/api/auth/login''))
                \<lparr>rq_json := [(''email'', email), (''password'', password)]\<rparr>
          in case fst (send_preferring_h3 h3 (rq_url req) (http 0 req)) of
               Inl err \<Rightarrow>
                 if re_timeout err then
                   Inl [OtherCause (''Cannot reach server '' @ [CHR 0xE2, CHR 0x80, CHR 0x94] @
                     '' connection timed out. Check the URL and network.'')]
                 else if re_connect err \<or> re_request err \<or>
                         contains_str ''dns'' (to_ascii_lowercase (show_error err)) then
                   Inl [OtherCause (''Cannot reach server '' @ [CHR 0xE2, CHR 0x80, CHR 0x94] @
                     '' no connection. Check the URL and that the server is running.'')]
                 else Inl [OtherCause (''Cannot reach server: '' @ show_error err)]
             | Inr resp \<Rightarrow>
                 if \<not> is_success (rp_status resp) then
                   (if rp_status resp = 401 \<or> rp_status resp = 403
                    then Inl [OtherCause ''Invalid email or password'']
                    else if is_server_error (rp_status resp)
                    then Inl [OtherCause (''Server error ('' @ show_status (rp_status resp) @ ''). Try again later.'')]
                    else Inl [OtherCause (''Login failed ('' @ show_status (rp_status resp) @ ''): '' @
                           (case rp_text resp of Inl _ \<Rightarrow> [] | Inr t \<Rightarrow> t))])
                 else with_context ''invalid login response'' (json_body decode resp))"

definition refresh ::
  "(nat \<Rightarrow> string) \<Rightarrow> (string \<Rightarrow> url option) \<Rightarrow> bool \<Rightarrow> http \<Rightarrow> (string \<Rightarrow> (string, 'a) result) \<Rightarrow> string \<Rightarrow> string \<Rightarrow>
   (api_error, 'a) result" where
  "refresh show_status parse h3 http decode base_url refresh_token =
     (case normalize_server_url parse base_url of
        Inl e \<Rightarrow> Inl [OtherCause e]
      | Inr base \<Rightarrow>
          let token = trim refresh_token
          in if token = []
             then Inl [OtherCause (''Missing refresh token '' @ [CHR 0xE2, CHR 0x80, CHR 0x94] @ '' sign in again'')]
             else
               let req = (rq ''POST'' (base @ ''/api/auth/refresh''))\<lparr>rq_json := [(''refresh_token'', token)]\<rparr>
               in case fst (send_preferring_h3 h3 (rq_url req) (http 0 req)) of
                    Inl err \<Rightarrow> Inl [Context ''token refresh request failed'', Reqwest err]
                  | Inr resp \<Rightarrow>
                      if \<not> is_success (rp_status resp)
                      then Inl [OtherCause (''token refresh failed: '' @ show_status (rp_status resp))]
                      else with_context ''invalid refresh response'' (json_body decode resp))"

section \<open>Downloads\<close>

definition max_download_bytes :: nat where
  "max_download_bytes = 16 * 1024 * 1024 * 1024"

definition parallel_download_threshold_bytes :: nat where
  "parallel_download_threshold_bytes = 8 * 1024 * 1024"

definition parallel_download_parts :: nat where
  "parallel_download_parts = 4"

definition div_ceil_u64 :: "nat \<Rightarrow> nat \<Rightarrow> nat" where
  "div_ceil_u64 a b = (a + b - 1) div b"

definition download_ranges :: "nat \<Rightarrow> (nat \<times> nat) list" where
  "download_ranges total_len =
     (let parts = min parallel_download_parts (div_ceil_u64 total_len parallel_download_threshold_bytes);
          part_size = div_ceil_u64 total_len parts
      in filter (\<lambda>(start, end'). start \<le> end')
           (map (\<lambda>i. let start = i * part_size
                     in (start, sat_sub (min (start + part_size) total_len) 1)) [0..<parts]))"

text \<open>
  Local files, and which operations on them fail: \<open>io op path\<close> is the error of the operating
  system, if any.
\<close>

type_synonym files = "string \<Rightarrow> string option"
type_synonym file_io = "string \<Rightarrow> string \<Rightarrow> string option"

definition io_try :: "file_io \<Rightarrow> string \<Rightarrow> string \<Rightarrow> (api_error, unit) result" where
  "io_try io op path = (case io op path of None \<Rightarrow> Inr () | Some e \<Rightarrow> Inl [OtherCause e])"

definition create_new :: "file_io \<Rightarrow> string \<Rightarrow> files \<Rightarrow> (api_error, unit) result \<times> files" where
  "create_new io path fs =
     (if fs path \<noteq> None then (Inl [Context (''create '' @ path), OtherCause ''file exists''], fs)
      else case io_try io ''create'' path of
             Inl e \<Rightarrow> (Inl (Context (''create '' @ path) # e), fs)
           | Inr _ \<Rightarrow> (Inr (), fs(path \<mapsto> [])))"

text \<open>\<open>next_frame_before_idle\<close> in a loop, each frame appended to the file.\<close>

fun write_frames ::
  "file_io \<Rightarrow> string \<Rightarrow> nat \<Rightarrow> (nat \<times> body_event) list \<Rightarrow> files \<Rightarrow> (api_error, unit) result \<times> files" where
  "write_frames io path written [] fs = (Inl [TransferReadStalled read_idle_timeout], fs)"
| "write_frames io path written ((d, ev) # evs) fs =
     (if read_idle_timeout < d then (Inl [TransferReadStalled read_idle_timeout], fs)
      else case ev of
        BodyError e \<Rightarrow> (Inl (describe_transfer_error ''download'' e), fs)
      | EndOfBody \<Rightarrow> (io_try io ''sync'' path, fs)
      | Chunk bytes \<Rightarrow>
          let written = written + length bytes
          in if max_download_bytes < written
             then (Inl [OtherCause (''download of '' @ path @ '' exceeded the '' @ show_nat max_download_bytes @ ''-byte limit'')], fs)
             else case io_try io ''write'' path of
                    Inl e \<Rightarrow> (Inl e, fs)
                  | Inr _ \<Rightarrow> write_frames io path written evs
                               (fs(path := map_option (\<lambda>old. old @ bytes) (fs path))))"

definition refusal :: "nat \<Rightarrow> string \<Rightarrow> string" where
  "refusal len path = ''refusing download of '' @ show_nat len @ '' bytes for '' @ path @
     '': over the '' @ show_nat max_download_bytes @ ''-byte limit''"

definition write_response_body ::
  "file_io \<Rightarrow> reply \<Rightarrow> string \<Rightarrow> files \<Rightarrow> (api_error, unit) result \<times> files" where
  "write_response_body io resp path fs =
     (if (case rp_content_length resp of None \<Rightarrow> False | Some len \<Rightarrow> max_download_bytes < len)
      then (Inl [OtherCause (refusal (the (rp_content_length resp)) path)], fs)
      else case create_new io path fs of
             (Inl e, fs) \<Rightarrow> (Inl e, fs)
           | (Inr _, fs) \<Rightarrow> write_frames io path 0 (rp_body resp) fs)"

definition rename_to :: "file_io \<Rightarrow> string \<Rightarrow> string \<Rightarrow> files \<Rightarrow> (api_error, unit) result \<times> files" where
  "rename_to io tmp dest fs =
     (case io_try io ''rename'' dest of
        Inl e \<Rightarrow> (Inl (Context (''write '' @ dest) # e), fs)
      | Inr _ \<Rightarrow> (Inr (), fs(dest := fs tmp, tmp := None)))"

definition remove_all :: "string list \<Rightarrow> files \<Rightarrow> files" where
  "remove_all paths fs = (\<lambda>p. if p \<in> set paths then None else fs p)"

definition write_response_atomically ::
  "file_io \<Rightarrow> reply \<Rightarrow> string \<Rightarrow> string \<Rightarrow> files \<Rightarrow> (api_error, unit) result \<times> files" where
  "write_response_atomically io resp dest tmp fs =
     (let (result, fs) =
        (case write_response_body io resp tmp fs of
           (Inr _, fs) \<Rightarrow> rename_to io tmp dest fs
         | (Inl e, fs) \<Rightarrow> (Inl e, fs))
      in (result, case result of Inl _ \<Rightarrow> remove_all [tmp] fs | Inr _ \<Rightarrow> fs))"

text \<open>
  The fetches of the parts, each to its own file. They run at the same time; they share no
  file, and the first error ends them all.
\<close>

fun fetch_parts ::
  "bool \<Rightarrow> http \<Rightarrow> file_io \<Rightarrow> string \<Rightarrow> nat \<Rightarrow> ((nat \<times> nat) \<times> string) list \<Rightarrow> files \<Rightarrow>
   (api_error, unit) result \<times> files" where
  "fetch_parts h3 http io u n [] fs = (Inr (), fs)"
| "fetch_parts h3 http io u n ((rng, path) # rest) fs =
     (case res_bind (send_authed h3 http n ((rq ''GET'' u)\<lparr>rq_range := Some rng\<rparr>)) error_for_status of
        Inl e \<Rightarrow> (Inl e, fs)
      | Inr resp \<Rightarrow>
          (case write_response_body io resp path fs of
             (Inl e, fs) \<Rightarrow> (Inl e, fs)
           | (Inr _, fs) \<Rightarrow> fetch_parts h3 http io u (Suc n) rest fs))"

text \<open>\<open>io::copy\<close> of every part, in order, to the end of \<open>tmp\<close>.\<close>

fun append_parts :: "file_io \<Rightarrow> string list \<Rightarrow> string \<Rightarrow> files \<Rightarrow> (api_error, unit) result \<times> files" where
  "append_parts io [] tmp fs = (io_try io ''sync'' tmp, fs)"
| "append_parts io (p # ps) tmp fs =
     (case fs p of
        None \<Rightarrow> (Inl [Context (''open '' @ p), OtherCause ''not found''], fs)
      | Some bytes \<Rightarrow>
          (case io_try io ''open'' p of
             Inl e \<Rightarrow> (Inl (Context (''open '' @ p) # e), fs)
           | Inr _ \<Rightarrow>
               (case io_try io ''copy'' p of
                  Inl e \<Rightarrow> (Inl e, fs)
                | Inr _ \<Rightarrow> append_parts io ps tmp (fs(tmp := map_option (\<lambda>old. old @ bytes) (fs tmp))))))"

definition download_parallel ::
  "bool \<Rightarrow> http \<Rightarrow> file_io \<Rightarrow> string \<Rightarrow> nat \<Rightarrow> string \<Rightarrow> string list \<Rightarrow> string \<Rightarrow> files \<Rightarrow>
   (api_error, unit) result \<times> files" where
  "download_parallel h3 http io u total_len dest part_names tmp fs =
     (let ranges = download_ranges total_len;
          part_paths = take (length ranges) part_names
      in case fetch_parts h3 http io u 1 (zip ranges part_paths) fs of
           (Inl e, fs) \<Rightarrow> (Inl e, remove_all part_paths fs)
         | (Inr _, fs) \<Rightarrow>
             let (assemble, fs) =
               (case create_new io tmp fs of
                  (Inl e, fs) \<Rightarrow> (Inl e, fs)
                | (Inr _, fs) \<Rightarrow>
                    (case append_parts io part_paths tmp fs of
                       (Inl e, fs) \<Rightarrow> (Inl e, fs)
                     | (Inr _, fs) \<Rightarrow> rename_to io tmp dest fs));
                 fs = remove_all part_paths fs
             in (assemble, case assemble of Inl _ \<Rightarrow> remove_all [tmp] fs | Inr _ \<Rightarrow> fs))"

text \<open>The total length from \<open>Content-Range: bytes 0-0/total\<close>.\<close>

definition content_range_total :: "string option \<Rightarrow> nat option" where
  "content_range_total header =
     (case header of
        None \<Rightarrow> None
      | Some v \<Rightarrow> parse_unsigned (2 ^ 64 - 1) (last (split_on CHR ''/'' v)))"

text \<open>
  \<open>download_to\<close>. The names of the temporary files (a fresh UUID each) are arguments, and so
  is the outcome of creating the parent directory.
\<close>

definition download_to ::
  "bool \<Rightarrow> http \<Rightarrow> file_io \<Rightarrow> string \<Rightarrow> uuid \<Rightarrow> string \<Rightarrow> string \<Rightarrow> string list \<Rightarrow> string \<Rightarrow> files \<Rightarrow>
   (api_error, unit) result \<times> files" where
  "download_to h3 http io base_url storage_id remote_path dest part_names tmp fs =
     (let u = base_url @ ''/api/storages/'' @ storage_id @ ''/files/download/'' @ encode_path remote_path
      in case io_try io ''create_dir_all'' dest of
           Inl e \<Rightarrow> (Inl e, fs)
         | Inr _ \<Rightarrow>
             (case res_bind (send_authed h3 http 0 ((rq ''GET'' u)\<lparr>rq_range := Some (0, 0)\<rparr>)) error_for_status of
                Inl e \<Rightarrow> (Inl e, fs)
              | Inr probe \<Rightarrow>
                  if rp_status probe \<noteq> 206 then write_response_atomically io probe dest tmp fs
                  else case content_range_total (rp_content_range probe) of
                         None \<Rightarrow> (Inl [Context (''server omitted Content-Range for '' @ dest)], fs)
                       | Some total_len \<Rightarrow>
                           if max_download_bytes < total_len
                           then (Inl [OtherCause (refusal total_len dest)], fs)
                           else if total_len < parallel_download_threshold_bytes then
                             (case res_bind (send_authed h3 http 1 (rq ''GET'' u)) error_for_status of
                                Inl e \<Rightarrow> (Inl e, fs)
                              | Inr resp \<Rightarrow> write_response_atomically io resp dest tmp fs)
                           else download_parallel h3 http io u total_len dest part_names tmp fs))"

section \<open>Properties: URLs\<close>

text \<open>The decoding of a path segment on the other side.\<close>

fun percent_decode :: "string \<Rightarrow> string" where
  "percent_decode [] = []"
| "percent_decode (c # cs) =
     (if c = CHR ''%'' then
        (case cs of
           a # b # rest \<Rightarrow>
             (case (digit_of 16 a, digit_of 16 b) of
                (Some h, Some l) \<Rightarrow> char_of (16 * h + l) # percent_decode rest
              | _ \<Rightarrow> c # percent_decode (a # b # rest))
         | _ \<Rightarrow> c # percent_decode cs)
      else c # percent_decode cs)"

lemma digit_of_upper_hex: "n < 16 \<Longrightarrow> digit_of 16 (upper_hex n) = Some n"
  by (auto simp: digit_of_def upper_hex_def of_char_char_of Let_def)

lemma upper_hex_unreserved: "n < 16 \<Longrightarrow> unreserved (upper_hex n)"
  by (auto simp: unreserved_def upper_hex_def of_char_char_of Let_def)

lemma percent_not_unreserved: "\<not> unreserved CHR ''%''"
  by (simp add: unreserved_def)

lemma slash_not_unreserved: "\<not> unreserved CHR ''/''"
  by (simp add: unreserved_def)

lemma of_char_less: "(of_char (c :: char) :: nat) < 256"
  by (metis of_char_mod_256 mod_less_divisor zero_less_numeral)

lemma decode_encode: "percent_decode (urlencoding_encode s) = s"
proof (induction s)
  case (Cons b bs)
  have h: "(of_char b :: nat) div 16 < 16" and l: "(of_char b :: nat) mod 16 < 16"
    using of_char_less [of b] by (simp_all add: less_mult_imp_div_less)
  have "char_of (16 * ((of_char b :: nat) div 16) + of_char b mod 16) = b"
    by (simp add: mult_div_mod_eq)
  then show ?case
    using Cons percent_not_unreserved digit_of_upper_hex [OF h] digit_of_upper_hex [OF l] by auto
qed simp

lemma encode_alphabet: "c \<in> set (urlencoding_encode s) \<Longrightarrow> unreserved c \<or> c = CHR ''%''"
proof (induction s)
  case (Cons b bs)
  have "(of_char b :: nat) div 16 < 16" "(of_char b :: nat) mod 16 < 16"
    using of_char_less [of b] by (simp_all add: less_mult_imp_div_less)
  then show ?case using Cons upper_hex_unreserved by (auto split: if_splits)
qed simp

lemma join_with_set: "set (join_with c ws) \<subseteq> insert c (\<Union>w \<in> set ws. set w)"
  by (induction c ws rule: join_with.induct) auto

text \<open>
  Any remote path survives the trip through a URL: cutting the encoded path at its slashes
  and decoding the pieces gives the segments of the path, and the encoded path has no other
  characters than unreserved ones, percent signs and slashes, so no name can smuggle in a
  query, a fragment or another segment.
\<close>

theorem encode_path_roundtrip:
  "map percent_decode (split_on CHR ''/'' (encode_path path)) = split_on CHR ''/'' path \<and>
   set (encode_path path) \<subseteq> {c. unreserved c} \<union> {CHR ''%'', CHR ''/''}"
proof -
  let ?ws = "split_on CHR ''/'' path"
  have clean: "CHR ''/'' \<notin> set (urlencoding_encode w)" for w
    using encode_alphabet [of "CHR ''/''" w] slash_not_unreserved by auto
  have "split_on CHR ''/'' (encode_path path) = map urlencoding_encode ?ws"
    unfolding encode_path_def using clean by (intro split_join) auto
  then have "map percent_decode (split_on CHR ''/'' (encode_path path)) = ?ws"
    by (simp add: decode_encode o_def)
  moreover have "unreserved c \<or> c = CHR ''%'' \<or> c = CHR ''/''" if "c \<in> set (encode_path path)" for c
    using that join_with_set [of "CHR ''/''" "map urlencoding_encode ?ws"]
    unfolding encode_path_def by (auto dest!: encode_alphabet subsetD)
  ultimately show ?thesis by blast
qed

text \<open>
  A server address typed without a scheme is never reached in the clear unless it is local:
  the normalized URL starts with https, or the host is a local name or a loopback, private or
  link-local address. The URL parser may be any that reads the scheme it is given.
\<close>

theorem no_implied_plain_http:
  assumes parse: "\<forall>s u. parse s = Some u \<longrightarrow> starts_with ''https://'' s \<longrightarrow> ur_scheme u = ''https''"
    and "normalize_server_url parse raw = Inr base"
    and "\<not> contains_str ''://'' (trim_end_matches CHR ''/'' (trim raw))"
  shows "starts_with ''https://'' base \<or>
    (\<exists>u h. parse (''http://'' @ trim_end_matches CHR ''/'' (trim raw)) = Some u \<and>
       ur_host u = Some h \<and> is_local_host h)"
proof -
  let ?t = "trim_end_matches CHR ''/'' (trim raw)"
  obtain u h where u: "parse (with_scheme parse ?t) = Some u" and h: "ur_host u = Some h"
    and base: "base = ur_scheme u @ ''://'' @ h @
                   (case ur_port u of None \<Rightarrow> [] | Some p \<Rightarrow> CHR '':'' # show_nat p)"
    using assms(2) by (auto simp: normalize_server_url_def Let_def split: if_splits option.splits)
  show ?thesis
  proof (cases "with_scheme parse ?t = ''https://'' @ ?t")
    case True
    then have "ur_scheme u = ''https''" using parse u by (auto simp: starts_with_iff)
    then show ?thesis unfolding base by (simp add: starts_with_iff)
  next
    case False
    then have "is_local_host (case parse (''http://'' @ ?t) of
               Some u \<Rightarrow> (case ur_host u of Some h \<Rightarrow> h | None \<Rightarrow> [])
             | None \<Rightarrow> [])" and ws: "with_scheme parse ?t = ''http://'' @ ?t"
      using assms(3) by (auto simp: with_scheme_def Let_def split: if_splits)
    then show ?thesis using u h by auto
  qed
qed

definition sample_url_parse :: "string \<Rightarrow> url option" where
  "sample_url_parse s =
     (case strip_prefix ''https://'' s of
        Some h \<Rightarrow> Some \<lparr>ur_scheme = ''https'', ur_host = Some h, ur_port = None\<rparr>
      | None \<Rightarrow> (case strip_prefix ''http://'' s of
          Some h \<Rightarrow> Some \<lparr>ur_scheme = ''http'', ur_host = Some h, ur_port = None\<rparr>
        | None \<Rightarrow> None))"

theorem no_implied_plain_http_witness:
  "normalize_server_url sample_url_parse ''sarca.org/'' = Inr ''https://sarca.org'' \<and>
   (starts_with ''https://'' ''https://sarca.org'' \<or>
    (\<exists>u h. sample_url_parse ''http://sarca.org'' = Some u \<and> ur_host u = Some h \<and> is_local_host h))"
proof -
  have t: "trim_end_matches CHR ''/'' (trim ''sarca.org/'') = ''sarca.org''" by code_simp
  have v4: "read_ipv4 ''sarca.org'' = None"
    using read_octets.simps(2) [of 0 3 "''sarca.org''"]
    by (simp add: read_ipv4_def read_separator_def read_number_def digit_of_def)
  have "read_groups 0 8 ''sarca.org'' = ([], False, ''sarca.org'')"
    using read_groups.simps(2) [of 0 7 "''sarca.org''"] v4
    by (simp add: read_separator_def read_number_def digit_of_def)
  then have "parse_ip ''sarca.org'' = None" by (simp add: parse_ip_def v4 read_ipv6_def)
  moreover have "trim_end_matches CHR '']'' (trim_start_matches CHR ''['' ''sarca.org'') = ''sarca.org''"
    and "to_ascii_lowercase ''sarca.org'' = ''sarca.org''" by code_simp+
  ultimately have "\<not> is_local_host ''sarca.org''"
    by (simp add: is_local_host_def ends_with_def strip_suffix_def)
  then have w: "with_scheme sample_url_parse ''sarca.org'' = ''https://sarca.org''"
    by (simp add: with_scheme_def sample_url_parse_def starts_with_def)
  have n: "normalize_server_url sample_url_parse ''sarca.org/'' = Inr ''https://sarca.org''"
    unfolding normalize_server_url_def t Let_def w by (simp add: sample_url_parse_def)
  have plain: "\<not> contains_str ''://'' (trim_end_matches CHR ''/'' (trim ''sarca.org/''))"
    unfolding t by (simp add: starts_with_def)
  have parse: "\<forall>s u. sample_url_parse s = Some u \<longrightarrow> starts_with ''https://'' s \<longrightarrow> ur_scheme u = ''https''"
    by (auto simp: sample_url_parse_def starts_with_def)
  have "''http://'' @ ''sarca.org'' = ''http://sarca.org''" by simp
  with n no_implied_plain_http [OF parse n plain] show ?thesis unfolding t by (simp only: simp_thms)
qed

lemma sorted_wrt_last: "sorted_wrt R xs \<Longrightarrow> a \<in> set xs \<Longrightarrow> a = last xs \<or> R a (last xs)"
  by (cases xs rule: rev_cases) (auto simp: sorted_wrt_append)

lemma follow_redirects_home:
  assumes "requested \<noteq> []" and "length requested \<le> max_proxy_redirects"
    and "\<And>v. v \<in> set requested \<Longrightarrow> ur_host v = h"
    and "sorted_wrt (\<lambda>a b. ur_scheme a = ''https'' \<longrightarrow> ur_scheme b = ''https'') requested"
  shows "length (follow_redirects answer requested) \<le> max_proxy_redirects \<and>
     (\<forall>v \<in> set (follow_redirects answer requested). ur_host v = h) \<and>
     sorted_wrt (\<lambda>a b. ur_scheme a = ''https'' \<longrightarrow> ur_scheme b = ''https'') (follow_redirects answer requested)"
  using assms
proof (induction answer requested rule: follow_redirects.induct)
  case (1 answer requested)
  show ?case
  proof (cases "\<exists>next. answer (last requested) = Some next \<and> proxy_redirect_policy requested next")
    case False
    then have "follow_redirects answer requested = requested"
      by (auto simp: follow_redirects.simps [of answer requested] split: option.split)
    then show ?thesis using "1.prems" by simp
  next
    case True
    then obtain v where v: "answer (last requested) = Some v" "proxy_redirect_policy requested v" by blast
    then have step: "follow_redirects answer requested = follow_redirects answer (requested @ [v])"
      by (subst follow_redirects.simps) simp
    have len: "length requested < max_proxy_redirects"
      and host: "ur_host v = ur_host (last requested)"
      and up: "ur_scheme (last requested) = ''https'' \<Longrightarrow> ur_scheme v = ''https''"
      using v(2) by (auto simp: proxy_redirect_policy_def Let_def split: if_splits)
    have "ur_scheme v = ''https''" if "a \<in> set requested" "ur_scheme a = ''https''" for a
    proof -
      have "a = last requested \<or> (ur_scheme a = ''https'' \<longrightarrow> ur_scheme (last requested) = ''https'')"
        using sorted_wrt_last [OF "1.prems"(4) that(1)] .
      then show ?thesis using up that(2) by auto
    qed
    then show ?thesis
      unfolding step using len host "1.prems"
      by (intro "1.IH" [OF v]) (auto simp: sorted_wrt_append)
  qed
qed

text \<open>What an observer on the network may check of a chain of requests: once https, always https.\<close>

definition https_kept :: "url list \<Rightarrow> bool" where
  "https_kept us = sorted_wrt (\<lambda>a b. ur_scheme a = ''https'' \<longrightarrow> ur_scheme b = ''https'') us"

text \<open>
  The webview proxy never leaves home on a redirect: whatever a server redirects to, all
  requests of one chain go to the host it started with, once one went over https so do all
  later ones, and there are at most five of them, so it always ends. (The constant counts the
  URLs requested, the first included: four redirects are followed.)
\<close>

theorem redirects_stay_home:
  "length (follow_redirects answer [u]) \<le> 5 \<and>
   ur_host ` set (follow_redirects answer [u]) \<subseteq> {ur_host u} \<and>
   https_kept (follow_redirects answer [u])"
  using follow_redirects_home [of "[u]" "ur_host u" answer]
  by (auto simp: max_proxy_redirects_def https_kept_def)

section \<open>Properties: downloads\<close>

lemma div_ceil_mult: "0 < b \<Longrightarrow> a \<le> div_ceil_u64 a b * b"
proof -
  assume b: "0 < b"
  have "a + b - 1 < (div_ceil_u64 a b + 1) * b"
    unfolding div_ceil_u64_def using b dividend_less_div_times [of b "a + b - 1"] by (simp add: algebra_simps)
  then show ?thesis using b by (simp add: algebra_simps)
qed

lemma div_ceil_pos: "0 < a \<Longrightarrow> 0 < b \<Longrightarrow> 0 < div_ceil_u64 a b"
  by (simp add: div_ceil_u64_def div_greater_zero_iff)

lemma ranges_prefix:
  assumes "0 < total_len" and "0 < p"
  shows "concat (map (\<lambda>(s, e). [s..<Suc e])
      (filter (\<lambda>(s, e). s \<le> e) (map (\<lambda>i. (i * p, sat_sub (min (i * p + p) total_len) 1)) [0..<k]))) =
    [0..<min (k * p) total_len]"
proof (induction k)
  case (Suc k)
  show ?case
  proof (cases "k * p < total_len")
    case True
    let ?m = "min (k * p + p) total_len"
    have "k * p \<le> ?m - 1" and m: "Suc (?m - 1) = ?m" and "k * p \<le> ?m"
      using True assms by auto
    moreover have "[0..<?m] = [0..<k * p] @ [k * p..<?m]"
      using upt_add_eq_append [of 0 "k * p" "?m - k * p"] \<open>k * p \<le> ?m\<close> by simp
    moreover have "[0..<Suc k] = [0..<k] @ [k]" by simp
    ultimately show ?thesis
      using Suc.IH True by (simp add: sat_sub_def min_absorb1 add.commute del: upt_Suc)
  next
    case False
    then have "\<not> k * p \<le> min (k * p + p) total_len - 1" using assms by auto
    then show ?thesis using Suc.IH False by (simp add: sat_sub_def min_def)
  qed
qed simp

lemma download_ranges_lemma:
  assumes "0 < total_len"
  shows "concat (map (\<lambda>(s, e). [s..<Suc e]) (download_ranges total_len)) = [0..<total_len] \<and>
     length (download_ranges total_len) \<le> 4 \<and> (\<forall>(s, e) \<in> set (download_ranges total_len). s \<le> e \<and> e < total_len)"
proof -
  let ?n = "min parallel_download_parts (div_ceil_u64 total_len parallel_download_threshold_bytes)"
  let ?p = "div_ceil_u64 total_len ?n"
  have n: "0 < ?n"
    using div_ceil_pos [OF assms, of parallel_download_threshold_bytes]
    by (simp add: parallel_download_parts_def parallel_download_threshold_bytes_def)
  have p: "0 < ?p" using div_ceil_pos [OF assms n] .
  have "min (?n * ?p) total_len = total_len" using div_ceil_mult [OF n, of total_len] by (simp add: mult.commute)
  then have cover: "concat (map (\<lambda>(s, e). [s..<Suc e]) (download_ranges total_len)) = [0..<total_len]"
    using ranges_prefix [OF assms p, of ?n] unfolding download_ranges_def Let_def by simp
  have "length (download_ranges total_len) \<le> ?n"
    unfolding download_ranges_def Let_def
    using length_filter_le [of "\<lambda>(s, e). s \<le> e"
        "map (\<lambda>i. (i * ?p, sat_sub (min (i * ?p + ?p) total_len) 1)) [0..<?n]"] by simp
  then have len: "length (download_ranges total_len) \<le> 4"
    by (simp add: parallel_download_parts_def)
  have "s \<le> e \<and> e < total_len" if "(s, e) \<in> set (download_ranges total_len)" for s e
  proof -
    have "sat_sub (min x total_len) 1 < total_len" for x
      using assms by (cases "x \<le> total_len") (auto simp: sat_sub_def)
    then show ?thesis using that by (auto simp: download_ranges_def Let_def)
  qed
  then show ?thesis using cover len by blast
qed

text \<open>
  The ranges of a parallel download cover the file exactly once, in order: laid end to end
  they are the positions from 0 to the length, each once. There are at most four.
\<close>

theorem download_ranges_partition:
  assumes "0 < total_len"
  shows "concat (map (\<lambda>(s, e). [s..<Suc e]) (download_ranges total_len)) = [0..<total_len] \<and>
     length (download_ranges total_len) \<le> 4 \<and> (\<forall>(s, e) \<in> set (download_ranges total_len). s \<le> e \<and> e < total_len)"
  by (rule download_ranges_lemma [OF assms])

theorem download_ranges_partition_witness:
  "concat (map (\<lambda>(s, e). [s..<Suc e]) (download_ranges 20000001)) = [0..<20000001]"
  using download_ranges_partition [of 20000001] by simp

text \<open>The bytes of a body that ends cleanly.\<close>

fun body_bytes :: "(nat \<times> body_event) list \<Rightarrow> string option" where
  "body_bytes [] = None"
| "body_bytes ((d, Chunk b) # evs) = map_option (\<lambda>r. b @ r) (body_bytes evs)"
| "body_bytes ((d, EndOfBody) # evs) = Some []"
| "body_bytes ((d, BodyError e) # evs) = None"

text \<open>
  A server (with everything between it and the client) that holds \<open>content\<close> for as long as
  the download runs: a plain request gets all of it, a range request that range with the total
  length, or, the first time, all of it from something that ignores ranges.
\<close>

definition serves :: "http \<Rightarrow> string \<Rightarrow> bool" where
  "serves http content \<longleftrightarrow>
     (\<forall>n req v resp. http n req v = Inr resp \<and> \<not> (400 \<le> rp_status resp \<and> rp_status resp < 600) \<longrightarrow>
        (case rq_range req of
           None \<Rightarrow> (\<forall>b. body_bytes (rp_body resp) = Some b \<longrightarrow> b = content)
         | Some (s, e) \<Rightarrow>
             if rp_status resp = 206 then
               (\<forall>t. content_range_total (rp_content_range resp) = Some t \<longrightarrow> t = length content) \<and>
               (\<forall>b. body_bytes (rp_body resp) = Some b \<longrightarrow> b = take (Suc e - s) (drop s content))
             else n = 0 \<and> (\<forall>b. body_bytes (rp_body resp) = Some b \<longrightarrow> b = content)))"

lemma write_frames_run:
  "write_frames io path k evs fs = (r, fs') \<Longrightarrow> fs path = Some old \<Longrightarrow>
     (\<forall>p. p \<noteq> path \<longrightarrow> fs' p = fs p) \<and>
     (r = Inr () \<longrightarrow> (\<exists>b. body_bytes evs = Some b \<and> fs' path = Some (old @ b)))"
proof (induction io path k evs fs arbitrary: old rule: write_frames.induct)
  case (2 io path k d ev evs fs)
  show ?case
  proof (cases "read_idle_timeout < d")
    case True
    then show ?thesis using "2.prems" by auto
  next
    case False
    show ?thesis
    proof (cases ev)
      case (Chunk b)
      show ?thesis
      proof (cases "max_download_bytes < k + length b \<or> io_try io ''write'' path \<noteq> Inr ()")
        case True
        then show ?thesis using "2.prems" False Chunk by (auto simp: Let_def split: if_splits sum.splits)
      next
        case ok: False
        let ?fs = "fs(path := map_option (\<lambda>old. old @ b) (fs path))"
        have w: "write_frames io path (k + length b) evs ?fs = (r, fs')"
          using "2.prems" False Chunk ok by (simp add: Let_def)
        have "io_try io ''write'' path = Inr ()" using ok by simp
        moreover have "?fs path = Some (old @ b)" using "2.prems"(2) by simp
        ultimately have "(\<forall>p. p \<noteq> path \<longrightarrow> fs' p = ?fs p) \<and>
            (r = Inr () \<longrightarrow> (\<exists>c. body_bytes evs = Some c \<and> fs' path = Some ((old @ b) @ c)))"
          using "2.IH" [OF False Chunk refl _ _ w] ok by blast
        then show ?thesis by (auto simp: Chunk)
      qed
    qed (use "2.prems" False in \<open>auto simp: Let_def\<close>)
  qed
qed auto

lemma create_new_run:
  "create_new io path fs = (r, fs') \<Longrightarrow>
     (\<forall>p. p \<noteq> path \<longrightarrow> fs' p = fs p) \<and> (r = Inr () \<longrightarrow> fs' = fs(path \<mapsto> []))"
  by (auto simp: create_new_def split: if_splits sum.splits)

lemma write_response_body_run:
  assumes "write_response_body io resp path fs = (r, fs')"
  shows "(\<forall>p. p \<noteq> path \<longrightarrow> fs' p = fs p) \<and>
     (r = Inr () \<longrightarrow> (\<exists>b. body_bytes (rp_body resp) = Some b \<and> fs' = fs(path \<mapsto> b)))"
proof (cases "(case rp_content_length resp of None \<Rightarrow> False | Some len \<Rightarrow> max_download_bytes < len)")
  case True
  then show ?thesis using assms by (auto simp: write_response_body_def)
next
  case False
  obtain r1 fs1 where c: "create_new io path fs = (r1, fs1)" by fastforce
  show ?thesis
  proof (cases r1)
    case (Inl e)
    then show ?thesis using assms False c create_new_run [OF c] by (auto simp: write_response_body_def)
  next
    case (Inr u)
    then have fs1: "fs1 = fs(path \<mapsto> [])" using create_new_run [OF c] by simp
    have w: "write_frames io path 0 (rp_body resp) fs1 = (r, fs')"
      using assms False c Inr by (simp add: write_response_body_def)
    have *: "(\<forall>p. p \<noteq> path \<longrightarrow> fs' p = fs1 p) \<and>
       (r = Inr () \<longrightarrow> (\<exists>b. body_bytes (rp_body resp) = Some b \<and> fs' path = Some ([] @ b)))"
      by (rule write_frames_run [OF w]) (simp add: fs1)
    have "fs' = fs(path \<mapsto> b)" if "fs' path = Some b" for b
      using * that by (auto simp: fs1)
    then show ?thesis using * by (auto simp: fs1)
  qed
qed

lemma write_atomically_run:
  assumes "write_response_atomically io resp dest tmp fs = (r, fs')" and "fs tmp = None" and "tmp \<noteq> dest"
  shows "(\<forall>p. p \<noteq> dest \<longrightarrow> fs' p = fs p) \<and> (r = Inr () \<or> fs' dest = fs dest) \<and>
     (r = Inr () \<longrightarrow> (\<exists>b. body_bytes (rp_body resp) = Some b \<and> fs' dest = Some b))"
proof -
  obtain r1 fs1 where w: "write_response_body io resp tmp fs = (r1, fs1)" by fastforce
  note run = write_response_body_run [OF w]
  show ?thesis
  proof (cases r1)
    case (Inl e)
    then have "r = Inl e" "fs' = remove_all [tmp] fs1"
      using assms(1) w by (auto simp: write_response_atomically_def)
    then show ?thesis using run assms(2,3) by (auto simp: remove_all_def)
  next
    case (Inr u)
    then obtain b where b: "body_bytes (rp_body resp) = Some b" and fs1: "fs1 = fs(tmp \<mapsto> b)"
      using run by auto
    show ?thesis
    proof (cases "io_try io ''rename'' dest")
      case (Inl e)
      then have "r = Inl (Context (''write '' @ dest) # e)" "fs' = remove_all [tmp] fs1"
        using assms(1) w \<open>r1 = Inr u\<close> by (auto simp: write_response_atomically_def rename_to_def)
      then show ?thesis using assms(2,3) by (auto simp: remove_all_def fs1)
    next
      case (Inr u')
      then have "r = Inr ()" "fs' = fs1(dest := fs1 tmp, tmp := None)"
        using assms(1) w \<open>r1 = Inr u\<close> by (auto simp: write_response_atomically_def rename_to_def)
      then show ?thesis using assms(2,3) b by (auto simp: fs1)
    qed
  qed
qed

lemma send_authed_Inr: "send_authed h3 http n req = Inr resp \<Longrightarrow> \<exists>v. http n req v = Inr resp"
  by (auto simp: send_authed_def send_preferring_h3_def split: sum.splits if_splits)

lemma fetched_Inr:
  "res_bind (send_authed h3 http n req) error_for_status = Inr resp \<Longrightarrow>
     (\<exists>v. http n req v = Inr resp) \<and> \<not> (400 \<le> rp_status resp \<and> rp_status resp < 600)"
  by (auto simp: res_bind_def error_for_status_def dest: send_authed_Inr split: sum.splits if_splits)

definition slice :: "string \<Rightarrow> nat \<times> nat \<Rightarrow> string" where
  "slice content = (\<lambda>(s, e). take (Suc e - s) (drop s content))"

lemma fetch_parts_run:
  "fetch_parts h3 http io u n items fs = (r, fs') \<Longrightarrow> distinct (map snd items) \<Longrightarrow> 0 < n \<Longrightarrow>
     (\<forall>p. p \<notin> snd ` set items \<longrightarrow> fs' p = fs p) \<and>
     (r = Inr () \<longrightarrow> serves http content \<longrightarrow> (\<forall>(rng, p) \<in> set items. fs' p = Some (slice content rng)))"
proof (induction items arbitrary: n fs)
  case (Cons item rest)
  obtain rng path where item: "item = (rng, path)" by fastforce
  obtain s e where rng: "rng = (s, e)" by fastforce
  let ?got = "res_bind (send_authed h3 http n ((rq ''GET'' u)\<lparr>rq_range := Some rng\<rparr>)) error_for_status"
  show ?case
  proof (cases ?got)
    case (Inl err)
    then show ?thesis using Cons.prems by (auto simp: item)
  next
    case (Inr resp)
    obtain r1 fs1 where w: "write_response_body io resp path fs = (r1, fs1)" by fastforce
    note body = write_response_body_run [OF w]
    show ?thesis
    proof (cases r1)
      case (Inl err)
      then show ?thesis using Cons.prems Inr w body by (auto simp: item)
    next
      case (Inr v)
      have go: "fetch_parts h3 http io u (Suc n) rest fs1 = (r, fs')"
        using Cons.prems(1) \<open>?got = Inr resp\<close> w Inr by (simp add: item)
      have rest: "(\<forall>p. p \<notin> snd ` set rest \<longrightarrow> fs' p = fs1 p) \<and>
         (r = Inr () \<longrightarrow> serves http content \<longrightarrow> (\<forall>(rng, p) \<in> set rest. fs' p = Some (slice content rng)))"
        using Cons.IH [OF go] Cons.prems(2) by simp
      have path: "path \<notin> snd ` set rest" using Cons.prems(2) by (simp add: item)
      have "fs' path = Some (slice content rng)" if "serves http content"
      proof -
        obtain b where b: "body_bytes (rp_body resp) = Some b" "fs1 path = Some b"
          using body Inr by auto
        obtain ver where "http n ((rq ''GET'' u)\<lparr>rq_range := Some rng\<rparr>) ver = Inr resp"
          and "\<not> (400 \<le> rp_status resp \<and> rp_status resp < 600)"
          using fetched_Inr [OF \<open>?got = Inr resp\<close>] by blast
        with that Cons.prems(3) b(1) have "b = slice content rng"
          unfolding serves_def slice_def rng by (fastforce simp: rq_def split: if_splits)
        then show ?thesis using rest path b(2) by auto
      qed
      then show ?thesis using rest body path by (auto simp: item)
    qed
  qed
qed auto

lemma append_parts_run:
  "append_parts io ps tmp fs = (r, fs') \<Longrightarrow> fs tmp = Some old \<Longrightarrow> tmp \<notin> set ps \<Longrightarrow>
     (\<forall>p. p \<noteq> tmp \<longrightarrow> fs' p = fs p) \<and>
     (r = Inr () \<longrightarrow> fs' tmp = Some (old @ concat (map (\<lambda>p. the (fs p)) ps)))"
proof (induction ps arbitrary: fs old)
  case (Cons p ps)
  show ?case
  proof (cases "\<exists>bytes. fs p = Some bytes \<and> io_try io ''open'' p = Inr () \<and> io_try io ''copy'' p = Inr ()")
    case False
    then show ?thesis
      using Cons.prems by (cases "fs p") (auto split: sum.splits)
  next
    case True
    then obtain bytes where b: "fs p = Some bytes"
      and ok: "io_try io ''open'' p = Inr ()" "io_try io ''copy'' p = Inr ()" by blast
    let ?fs = "fs(tmp := map_option (\<lambda>old. old @ bytes) (fs tmp))"
    have go: "append_parts io ps tmp ?fs = (r, fs')" using Cons.prems(1) b ok by simp
    have "?fs tmp = Some (old @ bytes)" using Cons.prems(2) by simp
    note IH = Cons.IH [OF go this]
    have eq: "map (\<lambda>p. the (?fs p)) ps = map (\<lambda>p. the (fs p)) ps" using Cons.prems(3) by auto
    have off: "p' \<noteq> tmp \<Longrightarrow> ?fs p' = fs p'" for p' by simp
    from IH [unfolded eq] Cons.prems(3) b off show ?thesis by (simp del: fun_upd_apply)
  qed
qed (auto simp: io_try_def split: option.splits)

lemma slice_upt: "e < length content \<Longrightarrow> s \<le> e \<Longrightarrow> slice content (s, e) = map ((!) content) [s..<Suc e]"
  by (auto simp: slice_def simp del: upt_Suc intro!: nth_equalityI)

lemma slices_content:
  assumes "content \<noteq> []"
  shows "concat (map (slice content) (download_ranges (length content))) = content"
proof -
  note part = download_ranges_lemma [of "length content"]
  have "map (slice content) (download_ranges (length content)) =
      map (map ((!) content) \<circ> (\<lambda>(s, e). [s..<Suc e])) (download_ranges (length content))"
  proof (rule map_cong [OF refl])
    fix x
    assume "x \<in> set (download_ranges (length content))"
    then obtain s e where x: "x = (s, e)" and "s \<le> e" "e < length content"
      using part assms by fastforce
    then show "slice content x = (map ((!) content) \<circ> (\<lambda>(s, e). [s..<Suc e])) x"
      by (simp add: slice_upt del: upt_Suc)
  qed
  then have "concat (map (slice content) (download_ranges (length content))) =
      map ((!) content) (concat (map (\<lambda>(s, e). [s..<Suc e]) (download_ranges (length content))))"
    by (simp only: map_concat list.map_comp)
  also have "\<dots> = content" using part assms by (simp add: map_nth)
  finally show ?thesis .
qed

lemma map_zip_snd: "length xs = length ys \<Longrightarrow> map f ys = map (\<lambda>x. f (snd x)) (zip xs ys)"
  by (induction xs ys rule: list_induct2) auto

lemma map_zip_fst: "length xs = length ys \<Longrightarrow> map f xs = map (\<lambda>x. f (fst x)) (zip xs ys)"
  by (induction xs ys rule: list_induct2) auto

lemma download_parallel_run:
  assumes run: "download_parallel h3 http io u len dest part_names tmp fs = (r, fs')"
    and names: "distinct (dest # tmp # part_names)" "4 \<le> length part_names"
    and fresh: "fs tmp = None" "\<And>p. p \<in> set part_names \<Longrightarrow> fs p = None" and len: "0 < len"
  shows "(\<forall>p. p \<noteq> dest \<longrightarrow> fs' p = fs p) \<and> (r = Inr () \<or> fs' dest = fs dest) \<and>
     (r = Inr () \<longrightarrow> serves http content \<longrightarrow> len = length content \<longrightarrow> fs' dest = Some content)"
proof -
  let ?ranges = "download_ranges len"
  let ?paths = "take (length ?ranges) part_names"
  have plen: "length ?paths = length ?ranges"
    using names(2) download_ranges_lemma [OF len] by simp
  have items: "map snd (zip ?ranges ?paths) = ?paths" "map fst (zip ?ranges ?paths) = ?ranges"
    using plen by simp_all
  then have parts: "snd ` set (zip ?ranges ?paths) = set ?paths" by (metis list.set_map)
  have sub: "set ?paths \<subseteq> set part_names" by (rule set_take_subset)
  then have dist: "dest \<notin> set ?paths" "tmp \<notin> set ?paths" "dest \<noteq> tmp" "distinct ?paths"
    using names(1) by auto
  have none: "fs p = None" if "p \<in> set ?paths" for p using that sub fresh(2) by blast
  obtain r1 fs1 where f: "fetch_parts h3 http io u 1 (zip ?ranges ?paths) fs = (r1, fs1)" by fastforce
  have "distinct (map snd (zip ?ranges ?paths))" unfolding items using dist(4) .
  from fetch_parts_run [OF f this, of content]
  have off: "\<And>p. p \<notin> set ?paths \<Longrightarrow> fs1 p = fs p"
    and got: "\<And>rng p. r1 = Inr () \<Longrightarrow> serves http content \<Longrightarrow> (rng, p) \<in> set (zip ?ranges ?paths) \<Longrightarrow>
       fs1 p = Some (slice content rng)"
    unfolding parts by auto
  show ?thesis
  proof (cases r1)
    case (Inl e)
    then have "r = Inl e" "fs' = remove_all ?paths fs1"
      using run f by (auto simp: download_parallel_def Let_def)
    then show ?thesis using off none dist by (auto simp: remove_all_def)
  next
    case (Inr v)
    obtain a fs2 where asm: "(case create_new io tmp fs1 of
                  (Inl e, fs) \<Rightarrow> (Inl e, fs)
                | (Inr _, fs) \<Rightarrow>
                    (case append_parts io ?paths tmp fs of
                       (Inl e, fs) \<Rightarrow> (Inl e, fs)
                     | (Inr _, fs) \<Rightarrow> rename_to io tmp dest fs)) = (a, fs2)" by fastforce
    have r: "r = a" and fs': "fs' = (case a of Inl _ \<Rightarrow> remove_all [tmp] (remove_all ?paths fs2)
        | Inr _ \<Rightarrow> remove_all ?paths fs2)"
      using run f Inr asm by (auto simp: download_parallel_def Let_def)
    obtain rc fsc where c: "create_new io tmp fs1 = (rc, fsc)" by fastforce
    have tmp1: "fs1 tmp = None" using off [OF dist(2)] fresh(1) by simp
    show ?thesis
    proof (cases rc)
      case (Inl e)
      then have "a = Inl e" "fs2 = fsc" using asm c by auto
      then show ?thesis
        using create_new_run [OF c] off none dist fresh(1) by (auto simp: r fs' remove_all_def)
    next
      case (Inr v')
      have fsc: "fsc = fs1(tmp \<mapsto> [])" using create_new_run [OF c] Inr by simp
      obtain ra fsa where ap: "append_parts io ?paths tmp fsc = (ra, fsa)" by fastforce
      have "fsc tmp = Some []" by (simp add: fsc)
      from append_parts_run [OF ap this dist(2)]
      have offa: "\<And>p. p \<noteq> tmp \<Longrightarrow> fsa p = fs1 p"
        and all: "ra = Inr () \<Longrightarrow> fsa tmp = Some (concat (map (\<lambda>p. the (fsc p)) ?paths))"
        by (auto simp: fsc)
      show ?thesis
      proof (cases ra)
        case (Inl e)
        then have "a = Inl e" "fs2 = fsa" using asm c \<open>rc = Inr v'\<close> ap by auto
        then show ?thesis using offa off none dist fresh(1) by (auto simp: r fs' remove_all_def)
      next
        case (Inr v'')
        have rn: "rename_to io tmp dest fsa = (a, fs2)" using asm c \<open>rc = Inr v'\<close> ap Inr by auto
        show ?thesis
        proof (cases "io_try io ''rename'' dest")
          case (Inl e)
          then have "a = Inl (Context (''write '' @ dest) # e)" "fs2 = fsa"
            using rn by (auto simp: rename_to_def)
          then show ?thesis using offa off none dist fresh(1) by (auto simp: r fs' remove_all_def)
        next
          case (Inr w)
          then have a: "a = Inr ()" and fs2: "fs2 = fsa(dest := fsa tmp, tmp := None)"
            using rn by (auto simp: rename_to_def)
          have ok1: "r1 = Inr ()" using \<open>r1 = Inr v\<close> by simp
          have "fs' dest = Some content" if srv: "serves http content" and l: "len = length content"
          proof -
            have "map (\<lambda>p. the (fsc p)) ?paths = map (\<lambda>p. the (fs1 p)) ?paths"
              using dist(2) by (auto simp: fsc)
            also have "\<dots> = map (\<lambda>x. the (fs1 (snd x))) (zip ?ranges ?paths)"
              by (rule map_zip_snd) (rule plen [symmetric])
            also have "\<dots> = map (\<lambda>x. slice content (fst x)) (zip ?ranges ?paths)"
              using got [OF ok1 srv] by auto
            also have "\<dots> = map (slice content) ?ranges"
              by (rule map_zip_fst [symmetric]) (rule plen [symmetric])
            finally have "fsa tmp = Some (concat (map (slice content) ?ranges))"
              using all \<open>ra = Inr v''\<close> by simp
            then have "fsa tmp = Some content"
              using slices_content [of content] len unfolding l by auto
            then show ?thesis using dist by (simp add: r fs' a fs2 remove_all_def)
          qed
          moreover have "fs' p = fs p" if "p \<noteq> dest" for p
            using that offa off none fresh(1) by (simp add: r fs' a fs2 remove_all_def)
          ultimately show ?thesis by (simp add: r a)
        qed
      qed
    qed
  qed
qed



text \<open>A server of two bytes that ignores ranges.\<close>

definition sample_http :: http where
  "sample_http n req v = (if n \<noteq> 0
     then Inl \<lparr>re_timeout = False, re_connect = True, re_request = False, re_status = None\<rparr>
     else Inr \<lparr>rp_status = 200, rp_text = Inr ''hi'', rp_content_length = Some 2,
     rp_content_range = None, rp_body = [(5, Chunk ''h''), (5, Chunk ''i''), (0, EndOfBody)]\<rparr>)"


end
