(* ===== verification/ServerErrors.thy ===== *)
theory ServerErrors
  imports RustStr
begin

text \<open>
  The server's error type and its answers (src/sarca/src/errors.rs): every fallible operation of
  the server returns one of these, and the routers turn it into a status and a body.
\<close>

datatype sarca_error =
    EnvConfigLoadingError string
  | EnvVarParsingError string
  | UserWasRemoved
  | AlreadyExists string
  | DoesNotExist string
  | StorageNameConflict
  | StorageChatIdConflict
  | StorageWorkerNameConflict
  | StorageWorkerTokenConflict
  | NotAuthenticated
  | TooManyAttempts
  | Forbidden
  | TelegramAPIError string
  | NoStorageWorkers
  | InvalidPath
  | FolderTooLargeForZip
  | InvalidFolderName
  | CannotManageAccessOfYourself
  | CannotDeleteSuperuser
  | OnlySuperuserManagesAdmins
  | StorageDoesNotHaveWorkers
  | WorkerRequiresStorage
  | TooManyChannels
  | LastActiveChannel
  | BotReplacementRequiresChannelConfirmation
  | BotTokenUnchanged
  | NoActiveChannel
  | TrashPathConflict
  | InvalidTrashRetention
  | BackupPasswordRequired
  | InvalidBackupFile string
  | InvalidShareExpiry
  | Unknown
  | HeaderMissed string
  | HeaderIsInvalid string string
  | StorageBusy
  | UploadAlreadyInProgress
  | UpdateCheckFailed
  | UpdateNotAvailable
  | UpdateNotSupported string
  | UpdateFailed string
  | ImportSource string
  | ImportState string

type_synonym 'a sarca_result = "sarca_error + 'a"

text \<open>
  The texts of the \<open>thiserror\<close> attributes. The two dashes that are not ASCII in the source are
  written here as the bytes of their UTF-8 encoding.
\<close>

definition em_dash :: string where
  "em_dash = [CHR 0xE2, CHR 0x80, CHR 0x94]"

definition en_dash :: string where
  "en_dash = [CHR 0xE2, CHR 0x80, CHR 0x93]"

fun error_text :: "sarca_error \<Rightarrow> string" where
  "error_text (EnvConfigLoadingError v) = ''environment variable `'' @ v @ ''` is not set''"
| "error_text (EnvVarParsingError v) = ''environment variable `'' @ v @ ''` cannot be parsed''"
| "error_text UserWasRemoved = ''user was removed''"
| "error_text (AlreadyExists s) = s @ '' already exists''"
| "error_text (DoesNotExist s) = s @ '' does not exist''"
| "error_text StorageNameConflict = ''User already has a storage with such name''"
| "error_text StorageChatIdConflict = ''This chat is already used by another channel''"
| "error_text StorageWorkerNameConflict = ''User already has a storage worker with such name''"
| "error_text StorageWorkerTokenConflict = ''Token must be unique''"
| "error_text NotAuthenticated = ''not authenticated''"
| "error_text TooManyAttempts = ''too many attempts, try again later''"
| "error_text Forbidden = ''forbidden''"
| "error_text (TelegramAPIError s) = ''[Telegram API] '' @ s"
| "error_text NoStorageWorkers = ''You need to add at least 1 storage worker''"
| "error_text InvalidPath = ''Invalid path''"
| "error_text FolderTooLargeForZip =
     ''Folder is larger than 10 GB. Download files in smaller pieces.''"
| "error_text InvalidFolderName = ''Invalid folder name''"
| "error_text CannotManageAccessOfYourself = ''You cannot manage access of yourself''"
| "error_text CannotDeleteSuperuser = ''The superuser account cannot be deleted''"
| "error_text OnlySuperuserManagesAdmins = ''Only the superuser can manage administrator access''"
| "error_text StorageDoesNotHaveWorkers = ''Storage does not have workers''"
| "error_text WorkerRequiresStorage = ''storage_id is required''"
| "error_text TooManyChannels = ''A storage can have at most 3 channels''"
| "error_text LastActiveChannel = ''Cannot remove the last active channel''"
| "error_text BotReplacementRequiresChannelConfirmation =
     ''Replacing the bot removes its channels and their files '' @ em_dash @ '' confirm to continue''"
| "error_text BotTokenUnchanged =
     ''This is already this storage's current bot '' @ em_dash @ '' nothing to change''"
| "error_text NoActiveChannel = ''Storage has no active channel available''"
| "error_text TrashPathConflict = ''A file already exists at this path''"
| "error_text InvalidTrashRetention = ''Invalid trash retention days (must be 1'' @ en_dash @ ''30)''"
| "error_text BackupPasswordRequired =
     ''This backup is password-protected '' @ em_dash @ '' enter its password to restore it''"
| "error_text (InvalidBackupFile s) = s"
| "error_text InvalidShareExpiry = ''Share expiry must be in the future''"
| "error_text Unknown = ''unknown error''"
| "error_text (HeaderMissed h) = h @ '' header is required''"
| "error_text (HeaderIsInvalid h t) = h @ '' header should be a valid '' @ t"
| "error_text StorageBusy = ''storage is busy, retry shortly''"
| "error_text UploadAlreadyInProgress =
     ''this file is already being uploaded '' @ em_dash @ '' it will finish on its own''"
| "error_text UpdateCheckFailed = ''could not reach GitHub to check for updates''"
| "error_text UpdateNotAvailable = ''this server is already on the newest release''"
| "error_text (UpdateNotSupported s) = ''this server cannot update itself: '' @ s"
| "error_text (UpdateFailed s) = ''the update failed: '' @ s"
| "error_text (ImportSource s) = s"
| "error_text (ImportState s) = s"

definition internal_message :: string where
  "internal_message = ''Something went wrong''"

definition error_response :: "sarca_error \<Rightarrow> nat \<times> string" where
  "error_response e = (case e of
     AlreadyExists _ \<Rightarrow> (409, error_text e) | StorageNameConflict \<Rightarrow> (409, error_text e)
   | StorageChatIdConflict \<Rightarrow> (409, error_text e) | StorageWorkerNameConflict \<Rightarrow> (409, error_text e)
   | StorageWorkerTokenConflict \<Rightarrow> (409, error_text e) | StorageDoesNotHaveWorkers \<Rightarrow> (409, error_text e)
   | TooManyChannels \<Rightarrow> (409, error_text e) | LastActiveChannel \<Rightarrow> (409, error_text e)
   | BotReplacementRequiresChannelConfirmation \<Rightarrow> (409, error_text e)
   | CannotManageAccessOfYourself \<Rightarrow> (409, error_text e) | TrashPathConflict \<Rightarrow> (409, error_text e)
   | ImportState _ \<Rightarrow> (409, error_text e) | UploadAlreadyInProgress \<Rightarrow> (409, error_text e)
   | NotAuthenticated \<Rightarrow> (401, error_text e)
   | TooManyAttempts \<Rightarrow> (429, error_text e)
   | Forbidden \<Rightarrow> (403, error_text e) | CannotDeleteSuperuser \<Rightarrow> (403, error_text e)
   | OnlySuperuserManagesAdmins \<Rightarrow> (403, error_text e)
   | DoesNotExist _ \<Rightarrow> (404, error_text e)
   | FolderTooLargeForZip \<Rightarrow> (413, error_text e)
   | StorageBusy \<Rightarrow> (503, error_text e)
   | UpdateCheckFailed \<Rightarrow> (502, error_text e)
   | UpdateNotAvailable \<Rightarrow> (409, error_text e) | UpdateNotSupported _ \<Rightarrow> (409, error_text e)
   | UpdateFailed _ \<Rightarrow> (500, error_text e)
   | HeaderMissed _ \<Rightarrow> (400, error_text e) | HeaderIsInvalid _ _ \<Rightarrow> (400, error_text e)
   | InvalidFolderName \<Rightarrow> (400, error_text e) | InvalidPath \<Rightarrow> (400, error_text e)
   | NoStorageWorkers \<Rightarrow> (400, error_text e) | NoActiveChannel \<Rightarrow> (400, error_text e)
   | WorkerRequiresStorage \<Rightarrow> (400, error_text e) | InvalidTrashRetention \<Rightarrow> (400, error_text e)
   | BackupPasswordRequired \<Rightarrow> (400, error_text e) | InvalidBackupFile _ \<Rightarrow> (400, error_text e)
   | InvalidShareExpiry \<Rightarrow> (400, error_text e) | BotTokenUnchanged \<Rightarrow> (400, error_text e)
   | ImportSource _ \<Rightarrow> (400, error_text e) | TelegramAPIError _ \<Rightarrow> (400, error_text e)
   | _ \<Rightarrow> (500, internal_message))"

text \<open>
  \<open>redact_url\<close> on the path of the request URL: a segment that begins with \<open>bot\<close> carries the
  bot's token and is blanked out before the error is printed.
\<close>

definition redact_path :: "string \<Rightarrow> string" where
  "redact_path path = join_with CHR ''/''
     (map (\<lambda>segment. if starts_with ''bot'' segment then ''bot***'' else segment) (split_on CHR ''/'' path))"

lemma error_response_busy: "fst (error_response e) = 503 \<longleftrightarrow> e = StorageBusy"
  by (cases e) (simp_all add: error_response_def)

lemma error_response_unauthenticated: "fst (error_response e) = 401 \<longleftrightarrow> e = NotAuthenticated"
  by (cases e) (simp_all add: error_response_def)

lemma error_response_internal:
  "fst (error_response e) = 500 \<Longrightarrow> snd (error_response e) = internal_message \<or> (\<exists>s. e = UpdateFailed s)"
  by (cases e) (simp_all add: error_response_def)

lemma redact_path_segments:
  "split_on CHR ''/'' (redact_path path) =
     map (\<lambda>segment. if starts_with ''bot'' segment then ''bot***'' else segment) (split_on CHR ''/'' path)"
  unfolding redact_path_def
  by (intro split_join) (auto dest: split_on_pieces)

lemma redact_path_hides_tokens:
  assumes "seg \<in> set (split_on CHR ''/'' (redact_path path))" and "starts_with ''bot'' seg"
  shows "seg = ''bot***''"
  using assms unfolding redact_path_segments by (auto split: if_splits)

lemma redact_path_idem: "redact_path (redact_path path) = redact_path path"
  unfolding redact_path_def [of "redact_path path"] redact_path_segments
  by (simp add: redact_path_def starts_with_def comp_def if_distrib cong: if_cong)

end
