(* ===== verification/SqlStore.thy ===== *)
theory SqlStore
  imports RustStr
begin

text \<open>
  The text functions of SQLite that the server's queries rely on, with SQLite's documented
  meaning, and the query fragments built from them (src/sarca/src/common/db/sql.rs). Texts are
  the bytes of their UTF-8 encoding, as Rust strings are; SQLite counts characters where Rust
  counts bytes, which is why the characters of a text are made explicit here.
\<close>

section \<open>The characters of a text\<close>

definition is_cont_byte :: "char \<Rightarrow> bool" where
  "is_cont_byte c \<longleftrightarrow> 128 \<le> (of_char c :: nat) \<and> (of_char c :: nat) < 192"

definition is_ascii_text :: "string \<Rightarrow> bool" where
  "is_ascii_text s = list_all (\<lambda>c. (of_char c :: nat) < 128) s"

fun utf8_chars :: "string \<Rightarrow> string list" where
  "utf8_chars [] = []"
| "utf8_chars (b # bs) = (case utf8_chars bs of
     [] \<Rightarrow> [[b]]
   | c # cs \<Rightarrow> if is_cont_byte (hd c) then (b # c) # cs else [b] # c # cs)"

text \<open>\<open>substr(s, n)\<close> with a positive \<open>n\<close>: the text from its \<open>n\<close>-th character on.\<close>

definition sql_substr_from :: "string \<Rightarrow> nat \<Rightarrow> string" where
  "sql_substr_from s n = concat (drop (n - 1) (utf8_chars s))"

section \<open>LIKE\<close>

text \<open>
  \<open>%\<close> stands for any text and \<open>_\<close> for any one character; other characters match regardless of
  case, for ASCII letters only.
\<close>

fun like_chars :: "string list \<Rightarrow> string list \<Rightarrow> bool" where
  "like_chars [] s = (s = [])"
| "like_chars (p # ps) [] = (p = ''%'' \<and> like_chars ps [])"
| "like_chars (p # ps) (c # cs) =
     (if p = ''%'' then like_chars ps (c # cs) \<or> like_chars (p # ps) cs
      else (p = ''_'' \<or> to_ascii_lowercase p = to_ascii_lowercase c) \<and> like_chars ps cs)"

definition sql_like :: "string \<Rightarrow> string \<Rightarrow> bool" where
  "sql_like pattern s = like_chars (utf8_chars pattern) (utf8_chars s)"

section \<open>The prefix condition of the file queries\<close>

text \<open>
  \<open>sql::starts_with\<close>: the range between the prefix and the prefix followed by U+10FFFF, in the
  byte order of the \<open>BINARY\<close> collation.
\<close>

definition max_char :: string where
  "max_char = [CHR 0xF4, CHR 0x8F, CHR 0xBF, CHR 0xBF]"

fun bytes_less :: "string \<Rightarrow> string \<Rightarrow> bool" where
  "bytes_less s [] = False"
| "bytes_less [] (b # bs) = True"
| "bytes_less (a # as) (b # bs) =
     ((of_char a :: nat) < of_char b \<or> a = b \<and> bytes_less as bs)"

definition sql_starts_with :: "string \<Rightarrow> string \<Rightarrow> bool" where
  "sql_starts_with column param \<longleftrightarrow>
     \<not> bytes_less column param \<and> bytes_less column (param @ max_char)"

text \<open>\<open>substr(path, -1, 1) = '/'\<close>, and the same test in Rust: the path of a folder marker.\<close>

definition is_folder_path :: "string \<Rightarrow> bool" where
  "is_folder_path path = ends_with ''/'' path"

section \<open>Facts\<close>

lemma concat_utf8_chars: "concat (utf8_chars s) = s"
  by (induction s) (auto split: list.splits)

lemma utf8_chars_nonempty: "c \<in> set (utf8_chars s) \<Longrightarrow> c \<noteq> []"
  by (induction s arbitrary: c) (auto split: list.splits if_splits)

lemma utf8_chars_Nil_iff [simp]: "utf8_chars s = [] \<longleftrightarrow> s = []"
  by (cases s) (auto split: list.splits)

lemma hd_hd_utf8_chars: "s \<noteq> [] \<Longrightarrow> hd (hd (utf8_chars s)) = hd s"
  by (cases s) (auto split: list.splits)

lemma utf8_chars_append:
  assumes "r = [] \<or> \<not> is_cont_byte (hd r)"
  shows "utf8_chars (p @ r) = utf8_chars p @ utf8_chars r"
proof (induction p)
  case (Cons b p)
  show ?case
  proof (cases "p = []")
    case True
    show ?thesis
    proof (cases "utf8_chars r")
      case Nil
      then show ?thesis using True by simp
    next
      case (Cons c cs)
      then have "r \<noteq> []" by auto
      then have "\<not> is_cont_byte (hd c)" using assms hd_hd_utf8_chars [of r] Cons by simp
      then show ?thesis using True Cons by simp
    qed
  next
    case False
    then obtain c cs where "utf8_chars p = c # cs" by (cases "utf8_chars p") auto
    then show ?thesis using Cons.IH by simp
  qed
qed simp

lemma length_utf8_chars: "length (utf8_chars s) \<le> length s"
  by (induction s) (auto split: list.splits)

lemma ascii_not_cont: "(of_char c :: nat) < 128 \<Longrightarrow> \<not> is_cont_byte c"
  by (simp add: is_cont_byte_def)

lemma utf8_chars_ascii: "is_ascii_text s \<Longrightarrow> utf8_chars s = map (\<lambda>c. [c]) s"
  by (induction s) (auto simp: is_ascii_text_def ascii_not_cont split: list.splits)

lemma length_utf8_chars_ascii: "is_ascii_text s \<Longrightarrow> length (utf8_chars s) = length s"
  by (simp add: utf8_chars_ascii)

text \<open>
  Skipping as many characters as a prefix has bytes: the rest of the text, less one character for
  every byte of the prefix that is not the first of its character.
\<close>

lemma substr_after_prefix:
  assumes "r = [] \<or> \<not> is_cont_byte (hd r)"
  shows "sql_substr_from (p @ r) (length p + 1) =
    concat (drop (length p - length (utf8_chars p)) (utf8_chars r))"
  using assms length_utf8_chars [of p] by (simp add: sql_substr_from_def utf8_chars_append)

lemma substr_after_ascii_prefix:
  assumes "r = [] \<or> \<not> is_cont_byte (hd r)" and "is_ascii_text p"
  shows "sql_substr_from (p @ r) (length p + 1) = r"
  unfolding substr_after_prefix [OF assms(1)]
  by (simp add: length_utf8_chars_ascii [OF assms(2)] concat_utf8_chars)

lemma bytes_less_irrefl [simp]: "\<not> bytes_less s s"
  by (induction s) auto

lemma bytes_less_append [simp]: "bytes_less (p @ s) (p @ t) = bytes_less s t"
  by (induction p) auto

lemma bytes_less_prefix [simp]: "bytes_less (p @ s) p = False"
  using bytes_less_append [of p s "[]"] by simp

lemma bytes_less_extend:
  "\<not> bytes_less s p \<Longrightarrow> bytes_less s (p @ t) \<Longrightarrow> strip_prefix p s \<noteq> None"
proof (induction s p rule: bytes_less.induct)
  case (3 a as b bs)
  then show ?case by (cases "a = b") (auto simp: linorder_neq_iff)
qed auto

text \<open>
  The range is exact: it holds the texts that begin with the prefix, except those that go on with
  U+10FFFF itself, which is not a character of any script.
\<close>

lemma sql_starts_with_iff:
  assumes "\<And>b. b \<in> set column \<Longrightarrow> (of_char b :: nat) < 0xF4"
  shows "sql_starts_with column param \<longleftrightarrow> starts_with param column"
proof
  assume "sql_starts_with column param"
  then show "starts_with param column"
    using bytes_less_extend [of column param max_char] by (simp add: sql_starts_with_def starts_with_def)
next
  assume "starts_with param column"
  then obtain r where r: "column = param @ r" by (auto simp: starts_with_iff)
  then have "bytes_less r max_char"
    using assms by (cases r) (auto simp: max_char_def)
  then show "sql_starts_with column param" by (simp add: sql_starts_with_def r)
qed

lemma like_percent: "like_chars [''%''] s"
  by (induction s) auto

lemma like_chars_literal_percent:
  "\<forall>c \<in> set ps. c \<noteq> ''%'' \<Longrightarrow> like_chars (ps @ [''%'']) s \<longleftrightarrow>
     length ps \<le> length s \<and>
     list_all2 (\<lambda>p c. p = ''_'' \<or> to_ascii_lowercase p = to_ascii_lowercase c) ps (take (length ps) s)"
proof (induction ps arbitrary: s)
  case Nil
  then show ?case by (simp add: like_percent)
next
  case (Cons p ps)
  then show ?case by (cases s) auto
qed

end
