(* ===== verification/Throttle.thy ===== *)
theory Throttle
  imports Prelude ServerErrors
begin

text \<open>
  Failure throttling of credential checks (src/sarca/src/common/throttle.rs). Time is
  in milliseconds of the monotonic clock; \<open>duration_since\<close> saturates at zero, as subtraction of
  natural numbers does. The hash map is a table of rows keyed by the throttle key; the table's
  order stands for the map's iteration order, which only breaks ties between keys touched at the
  same instant when one has to be dropped. Failure counts saturate at the bound of \<open>u32\<close>.
\<close>

definition free_attempts :: nat where "free_attempts = 5"
definition lock_attempts :: nat where "lock_attempts = 25"
definition max_delay :: nat where "max_delay = 4000"
definition decay :: nat where "decay = 15 * 60 * 1000"
definition max_keys :: nat where "max_keys = 4096"

record attempts =
  at_key :: string
  at_failures :: nat
  at_last :: nat

type_synonym throttle = "attempts list"

datatype decision = Delay nat | Locked

definition prune :: "nat \<Rightarrow> throttle \<Rightarrow> throttle" where
  "prune now m = filter (\<lambda>a. now - at_last a < decay) m"

definition delay_for :: "nat \<Rightarrow> nat" where
  "delay_for failures =
     (if failures < free_attempts then 0
      else min (sat_mul_u64 250 (2 ^ min (failures - free_attempts) 6)) max_delay)"

definition decide_at :: "string \<Rightarrow> nat \<Rightarrow> throttle \<Rightarrow> decision \<times> throttle" where
  "decide_at key now m0 =
     (let m = prune now m0;
          (entry, m') = (case row_get at_key key m of
             None \<Rightarrow> (None, m)
           | Some stale \<Rightarrow>
               if decay \<le> now - at_last stale then (None, row_del (\<lambda>a. at_key a = key) m)
               else (Some stale, m))
      in (case entry of
            None \<Rightarrow> Delay 0
          | Some a \<Rightarrow> if lock_attempts \<le> at_failures a then Locked else Delay (delay_for (at_failures a)),
          m'))"

text \<open>\<open>check\<close> sleeps out the delay (the number returned) or refuses.\<close>

definition check :: "string \<Rightarrow> nat \<Rightarrow> throttle \<Rightarrow> nat sarca_result \<times> throttle" where
  "check key now m = (case decide_at key now m of
     (Locked, m') \<Rightarrow> (Inl TooManyAttempts, m') | (Delay d, m') \<Rightarrow> (Inr d, m'))"

fun oldest_row :: "throttle \<Rightarrow> attempts option" where
  "oldest_row [] = None"
| "oldest_row (a # as) = (case oldest_row as of
     None \<Rightarrow> Some a | Some b \<Rightarrow> if at_last a \<le> at_last b then Some a else Some b)"

definition make_room :: "string \<Rightarrow> throttle \<Rightarrow> throttle" where
  "make_room key m =
     (if max_keys \<le> length m \<and> row_get at_key key m = None
      then (case oldest_row m of None \<Rightarrow> m | Some a \<Rightarrow> row_del (\<lambda>b. at_key b = at_key a) m)
      else m)"

definition previous_failures :: "string \<Rightarrow> nat \<Rightarrow> throttle \<Rightarrow> nat" where
  "previous_failures key now m = (case row_get at_key key m of
     None \<Rightarrow> 0 | Some a \<Rightarrow> if now - at_last a < decay then at_failures a else 0)"

definition record_failure_at :: "string \<Rightarrow> nat \<Rightarrow> throttle \<Rightarrow> throttle" where
  "record_failure_at key now m0 =
     (let m = make_room key (prune now m0)
      in row_put at_key
           \<lparr>at_key = key, at_failures = sat_add_u32 (previous_failures key now m) 1, at_last = now\<rparr> m)"

definition record_success :: "string \<Rightarrow> throttle \<Rightarrow> throttle" where
  "record_success key m = row_del (\<lambda>a. at_key a = key) m"

text \<open>\<open>keys::login\<close> and \<open>keys::share_unlock\<close>; Unicode lower-casing is a parameter.\<close>

definition login_key :: "(string \<Rightarrow> string) \<Rightarrow> string \<Rightarrow> string" where
  "login_key to_lowercase email = ''login:'' @ to_lowercase (trim email)"

definition share_unlock_key :: "string \<Rightarrow> string" where
  "share_unlock_key token = ''unlock:'' @ token"

section \<open>What the throttle promises for one key\<close>

text \<open>
  Everything that happens to a throttle is a decision, a failure or a success of some key. The
  specification looks at one key alone: how many failures it has collected without a pause of
  \<open>decay\<close> or a success in between, and when the last one was.
\<close>

datatype throttle_event =
    Decide string nat
  | Fail string nat
  | Succeed string nat

fun ev_key :: "throttle_event \<Rightarrow> string" where
  "ev_key (Decide k t) = k" | "ev_key (Fail k t) = k" | "ev_key (Succeed k t) = k"

fun ev_time :: "throttle_event \<Rightarrow> nat" where
  "ev_time (Decide k t) = t" | "ev_time (Fail k t) = t" | "ev_time (Succeed k t) = t"

fun throttle_step :: "throttle_event \<Rightarrow> throttle \<Rightarrow> throttle" where
  "throttle_step (Decide k t) m = snd (decide_at k t m)"
| "throttle_step (Fail k t) m = record_failure_at k t m"
| "throttle_step (Succeed k t) m = record_success k m"

definition throttle_run :: "throttle_event list \<Rightarrow> throttle" where
  "throttle_run evs = fold throttle_step evs []"

fun streak_step :: "string \<Rightarrow> throttle_event \<Rightarrow> (nat \<times> nat) option \<Rightarrow> (nat \<times> nat) option" where
  "streak_step key (Decide k t) s = s"
| "streak_step key (Succeed k t) s = (if k = key then None else s)"
| "streak_step key (Fail k t) s = (if k = key then
     (case s of None \<Rightarrow> Some (1, t)
      | Some (n, l) \<Rightarrow> if t - l < decay then Some (sat_add_u32 n 1, t) else Some (1, t))
     else s)"

definition failure_streak :: "string \<Rightarrow> throttle_event list \<Rightarrow> (nat \<times> nat) option" where
  "failure_streak key evs = fold (streak_step key) evs None"

definition spec_decision :: "string \<Rightarrow> throttle_event list \<Rightarrow> nat \<Rightarrow> decision" where
  "spec_decision key evs now = (case failure_streak key evs of
     None \<Rightarrow> Delay 0
   | Some (n, l) \<Rightarrow>
       if decay \<le> now - l then Delay 0
       else if lock_attempts \<le> n then Locked
       else Delay (delay_for n))"

section \<open>Bounds\<close>

lemma keys_ok_prune [inv_intros]: "keys_ok at_key m \<Longrightarrow> keys_ok at_key (prune now m)"
  by (simp add: prune_def keys_ok_def distinct_map_filter)

lemma row_get_prune:
  "keys_ok at_key m \<Longrightarrow> row_get at_key k (prune now m) =
     (case row_get at_key k m of None \<Rightarrow> None
      | Some a \<Rightarrow> if now - at_last a < decay then Some a else None)"
  unfolding prune_def by (rule row_get_filter)

lemma length_prune: "length (prune now m) \<le> length m"
  by (simp add: prune_def)

lemma oldest_row_in: "oldest_row m = Some a \<Longrightarrow> a \<in> set m"
  by (induction m arbitrary: a) (auto split: option.splits if_splits)

lemma oldest_row_None: "oldest_row m = None \<longleftrightarrow> m = []"
  by (cases m) (auto split: option.splits)

lemma oldest_row_min: "oldest_row m = Some a \<Longrightarrow> b \<in> set m \<Longrightarrow> at_last a \<le> at_last b"
  by (induction m arbitrary: a)
    (fastforce simp: oldest_row_None split: option.splits if_splits)+

lemma length_make_room: "length (make_room key m) \<le> length m"
  by (auto simp: make_room_def row_del_def split: option.split)

lemma make_room_fits:
  assumes "length m \<le> max_keys" and new: "row_get at_key key m = None"
  shows "length (make_room key m) < max_keys"
proof (cases "max_keys \<le> length m")
  case True
  then have "m \<noteq> []" by (auto simp: max_keys_def)
  then obtain a where a: "oldest_row m = Some a" using oldest_row_None by fastforce
  from length_row_del_less [OF oldest_row_in [OF a], of "\<lambda>b. at_key b = at_key a"]
  show ?thesis using assms True a by (simp add: make_room_def)
qed (simp add: make_room_def)

lemma make_room_key: "row_get at_key key m = Some a \<Longrightarrow> make_room key m = m"
  by (simp add: make_room_def)

lemma throttle_step_bounded:
  assumes "length m \<le> max_keys"
  shows "length (throttle_step ev m) \<le> max_keys"
proof (cases ev)
  case (Decide k t)
  have "length (snd (decide_at k t m)) \<le> length (prune t m)"
    by (auto simp: decide_at_def Let_def row_del_def split: option.split)
  then show ?thesis using Decide assms length_prune [of t m] by simp
next
  case (Fail k t)
  have m: "length (prune t m) \<le> max_keys" using assms length_prune [of t m] by simp
  show ?thesis
  proof (cases "row_get at_key k (prune t m)")
    case None
    then show ?thesis
      using Fail make_room_fits [OF m None]
      by (simp add: record_failure_at_def Let_def length_row_put)
  next
    case (Some a)
    then have "k \<in> at_key ` set (prune t m)" using row_get_None_iff [of at_key k "prune t m"] by simp
    then show ?thesis
      using Fail Some m by (simp add: record_failure_at_def Let_def length_row_put make_room_key)
  qed
next
  case (Succeed k t)
  then show ?thesis using assms by (simp add: record_success_def le_trans [OF length_row_del])
qed

lemma throttle_run_bounded: "length (throttle_run evs) \<le> max_keys"
proof -
  have "length m \<le> max_keys \<Longrightarrow> length (fold throttle_step evs m) \<le> max_keys" for m
    by (induction evs arbitrary: m) (simp_all add: throttle_step_bounded)
  then show ?thesis by (simp add: throttle_run_def)
qed

lemma delay_for_bounds:
  "delay_for n \<le> max_delay" "n < free_attempts \<Longrightarrow> delay_for n = 0"
  by (simp_all add: delay_for_def max_delay_def)

lemma delay_for_mono: "n \<le> n' \<Longrightarrow> delay_for n \<le> delay_for n'"
proof -
  assume n: "n \<le> n'"
  then have "(2::nat) ^ min (n - free_attempts) 6 \<le> 2 ^ min (n' - free_attempts) 6"
    by (intro power_increasing) (auto simp: min_def)
  then have "sat_mul_u64 250 (2 ^ min (n - free_attempts) 6) \<le> sat_mul_u64 250 (2 ^ min (n' - free_attempts) 6)"
    unfolding sat_mul_u64_def by (intro min.mono) auto
  then show ?thesis using n by (auto simp: delay_for_def)
qed

section \<open>The table is the specification, key by key\<close>

definition throttle_rel :: "nat \<Rightarrow> throttle_event list \<Rightarrow> throttle \<Rightarrow> bool" where
  "throttle_rel now evs m \<longleftrightarrow> keys_ok at_key m \<and> at_key ` set m \<subseteq> ev_key ` set evs \<and>
     (\<forall>k. case row_get at_key k m of
        Some a \<Rightarrow> failure_streak k evs = Some (at_failures a, at_last a)
      | None \<Rightarrow> (case failure_streak k evs of None \<Rightarrow> True | Some (n, l) \<Rightarrow> decay \<le> now - l))"

lemma throttle_rel_Some:
  "throttle_rel now evs m \<Longrightarrow> row_get at_key k m = Some a \<Longrightarrow>
     failure_streak k evs = Some (at_failures a, at_last a)"
proof -
  assume "throttle_rel now evs m" and k: "row_get at_key k m = Some a"
  then have "case row_get at_key k m of
        Some a \<Rightarrow> failure_streak k evs = Some (at_failures a, at_last a)
      | None \<Rightarrow> (case failure_streak k evs of None \<Rightarrow> True | Some (n, l) \<Rightarrow> decay \<le> now - l)"
    unfolding throttle_rel_def by blast
  then show ?thesis using k by simp
qed

lemma throttle_rel_None:
  "throttle_rel now evs m \<Longrightarrow> row_get at_key k m = None \<Longrightarrow> failure_streak k evs = Some (n, l) \<Longrightarrow>
     decay \<le> now - l"
proof -
  assume "throttle_rel now evs m" and k: "row_get at_key k m = None" "failure_streak k evs = Some (n, l)"
  then have "case row_get at_key k m of
        Some a \<Rightarrow> failure_streak k evs = Some (at_failures a, at_last a)
      | None \<Rightarrow> (case failure_streak k evs of None \<Rightarrow> True | Some (n, l) \<Rightarrow> decay \<le> now - l)"
    unfolding throttle_rel_def by blast
  then show ?thesis using k by simp
qed

lemma throttle_relI:
  assumes "keys_ok at_key m" and "at_key ` set m \<subseteq> ev_key ` set evs"
    and "\<And>k a. row_get at_key k m = Some a \<Longrightarrow> failure_streak k evs = Some (at_failures a, at_last a)"
    and "\<And>k n l. row_get at_key k m = None \<Longrightarrow> failure_streak k evs = Some (n, l) \<Longrightarrow> decay \<le> now - l"
  shows "throttle_rel now evs m"
  unfolding throttle_rel_def
proof (intro conjI allI)
  show "case row_get at_key k m of
        Some a \<Rightarrow> failure_streak k evs = Some (at_failures a, at_last a)
      | None \<Rightarrow> (case failure_streak k evs of None \<Rightarrow> True | Some (n, l) \<Rightarrow> decay \<le> now - l)" for k
    using assms(3,4) [of k] by (cases "row_get at_key k m"; cases "failure_streak k evs") auto
qed (use assms in auto)

lemma throttle_rel_empty: "throttle_rel now [] []"
  by (rule throttle_relI) (simp_all add: failure_streak_def)

lemma throttle_rel_prune:
  assumes "throttle_rel t0 evs m" and "t0 \<le> now"
  shows "throttle_rel now evs (prune now m)"
proof (rule throttle_relI)
  have ok: "keys_ok at_key m" and sub: "at_key ` set m \<subseteq> ev_key ` set evs"
    using assms(1) by (simp_all add: throttle_rel_def)
  show "keys_ok at_key (prune now m)" using ok by (rule keys_ok_prune)
  show "at_key ` set (prune now m) \<subseteq> ev_key ` set evs" using sub by (auto simp: prune_def)
  show "failure_streak k evs = Some (at_failures a, at_last a)"
    if "row_get at_key k (prune now m) = Some a" for k a
    using that throttle_rel_Some [OF assms(1)] ok by (auto simp: row_get_prune split: option.splits if_splits)
  show "decay \<le> now - l" if none: "row_get at_key k (prune now m) = None"
    and s: "failure_streak k evs = Some (n, l)" for k n l
  proof (cases "row_get at_key k m")
    case None
    then show ?thesis using throttle_rel_None [OF assms(1) None s] assms(2) by simp
  next
    case (Some a)
    then show ?thesis using none s throttle_rel_Some [OF assms(1) Some] ok
      by (simp add: row_get_prune split: if_splits)
  qed
qed

lemma failure_streak_snoc: "failure_streak k (evs @ [e]) = streak_step k e (failure_streak k evs)"
  by (simp add: failure_streak_def)

lemma decide_at_pruned:
  assumes "keys_ok at_key m"
  shows "decide_at key now m =
     ((case row_get at_key key (prune now m) of
         None \<Rightarrow> Delay 0
       | Some a \<Rightarrow> if lock_attempts \<le> at_failures a then Locked else Delay (delay_for (at_failures a))),
      prune now m)"
proof (cases "row_get at_key key (prune now m)")
  case None
  then show ?thesis by (simp add: decide_at_def Let_def)
next
  case (Some a)
  then have "now - at_last a < decay" using assms by (auto simp: row_get_prune split: option.splits if_splits)
  then show ?thesis using Some by (simp add: decide_at_def Let_def)
qed

lemma throttle_rel_decision:
  assumes "throttle_rel t0 evs m" and "t0 \<le> now"
  shows "fst (decide_at key now m) = spec_decision key evs now"
proof -
  have ok: "keys_ok at_key m" using assms(1) by (simp add: throttle_rel_def)
  show ?thesis
  proof (cases "row_get at_key key (prune now m)")
    case None
    then have "spec_decision key evs now = Delay 0"
      using throttle_rel_None [OF throttle_rel_prune [OF assms] None]
      by (auto simp: spec_decision_def split: option.split)
    then show ?thesis using None ok by (simp add: decide_at_pruned)
  next
    case (Some a)
    moreover have "now - at_last a < decay"
      using Some ok by (auto simp: row_get_prune split: option.splits if_splits)
    ultimately show ?thesis
      using throttle_rel_Some [OF throttle_rel_prune [OF assms] Some] ok
      by (simp add: decide_at_pruned spec_decision_def)
  qed
qed

lemma throttle_rel_step:
  assumes rel: "throttle_rel t0 evs m" and time: "t0 \<le> ev_time e"
    and few: "card (ev_key ` set (evs @ [e])) \<le> max_keys"
  shows "throttle_rel (ev_time e) (evs @ [e]) (throttle_step e m)"
proof -
  let ?t = "ev_time e"
  let ?m = "prune ?t m"
  have pruned: "throttle_rel ?t evs ?m" using rel time by (rule throttle_rel_prune)
  have ok: "keys_ok at_key m" "keys_ok at_key ?m" and sub: "at_key ` set ?m \<subseteq> ev_key ` set evs"
    using rel pruned by (simp_all add: throttle_rel_def)
  show ?thesis
  proof (cases e)
    case (Decide k t)
    have same: "failure_streak k' (evs @ [e]) = failure_streak k' evs" for k'
      using Decide by (simp add: failure_streak_snoc)
    have "throttle_rel ?t (evs @ [e]) ?m"
      by (rule throttle_relI)
        (use ok sub throttle_rel_Some [OF pruned] throttle_rel_None [OF pruned] same in auto)
    then show ?thesis using Decide ok by (simp add: decide_at_pruned)
  next
    case (Succeed k t)
    let ?d = "row_del (\<lambda>a. at_key a = k) m"
    have get: "row_get at_key k' ?d = (if k' = k then None else row_get at_key k' m)" for k'
      by (rule row_get_del) simp
    have "throttle_rel t (evs @ [e]) ?d"
    proof (rule throttle_relI)
      show "keys_ok at_key ?d" using ok(1) by (rule keys_ok_del)
      show "at_key ` set ?d \<subseteq> ev_key ` set (evs @ [e])"
        using rel by (auto simp: throttle_rel_def row_del_def)
      show "failure_streak k' (evs @ [e]) = Some (at_failures a, at_last a)"
        if "row_get at_key k' ?d = Some a" for k' a
        using that throttle_rel_Some [OF rel] by (auto simp: get failure_streak_snoc Succeed split: if_splits)
      show "decay \<le> t - l" if "row_get at_key k' ?d = None" "failure_streak k' (evs @ [e]) = Some (n, l)" for k' n l
      proof -
        have k': "k' \<noteq> k" using that(2) by (auto simp: failure_streak_snoc Succeed)
        then have "decay \<le> t0 - l"
          using that by (intro throttle_rel_None [OF rel, of k' n]) (simp_all add: get failure_streak_snoc Succeed)
        then show ?thesis using time Succeed by simp
      qed
    qed
    then show ?thesis using Succeed by (simp add: record_success_def)
  next
    case (Fail k t)
    have room: "make_room k ?m = ?m"
    proof (cases "row_get at_key k ?m")
      case None
      then have "k \<notin> at_key ` set ?m" by (simp add: row_get_None_iff)
      then have "card (insert k (at_key ` set ?m)) = Suc (length ?m)"
        using ok(2) by (simp add: keys_ok_def distinct_card flip: set_map)
      moreover have "insert k (at_key ` set ?m) \<subseteq> ev_key ` set (evs @ [e])" using sub Fail by auto
      ultimately have "Suc (length ?m) \<le> max_keys"
        using few card_mono [of "ev_key ` set (evs @ [e])" "insert k (at_key ` set ?m)"] by simp
      then show ?thesis by (simp add: make_room_def)
    qed (rule make_room_key)
    let ?n = "sat_add_u32 (previous_failures k t ?m) 1"
    let ?r = "\<lparr>at_key = k, at_failures = ?n, at_last = t\<rparr>"
    have get: "row_get at_key k' (row_put at_key ?r ?m) = (if k' = k then Some ?r else row_get at_key k' ?m)" for k'
      by (simp add: row_get_put)
    have one: "sat_add_u32 0 1 = 1" by (simp add: sat_add_u32_def u32_max_def)
    have new: "failure_streak k (evs @ [e]) = Some (?n, t)"
    proof (cases "row_get at_key k ?m")
      case None
      then show ?thesis
        using throttle_rel_None [OF pruned None] Fail one
        by (auto simp: failure_streak_snoc previous_failures_def split: option.split)
    next
      case (Some a)
      moreover have "t - at_last a < decay"
        using Some ok(1) Fail by (auto simp: row_get_prune split: option.splits if_splits)
      ultimately show ?thesis
        using throttle_rel_Some [OF pruned Some] Fail by (simp add: failure_streak_snoc previous_failures_def)
    qed
    have other: "failure_streak k' (evs @ [e]) = failure_streak k' evs" if "k' \<noteq> k" for k'
      using that Fail by (simp add: failure_streak_snoc)
    have "throttle_rel t (evs @ [e]) (row_put at_key ?r ?m)"
    proof (rule throttle_relI)
      show "keys_ok at_key (row_put at_key ?r ?m)" using ok(2) by (rule keys_ok_put)
      show "at_key ` set (row_put at_key ?r ?m) \<subseteq> ev_key ` set (evs @ [e])"
        using sub Fail by (auto simp: keys_row_put)
      show "failure_streak k' (evs @ [e]) = Some (at_failures a, at_last a)"
        if "row_get at_key k' (row_put at_key ?r ?m) = Some a" for k' a
      proof (cases "k' = k")
        case True
        then have "a = ?r" using that [unfolded get] by simp
        then show ?thesis using True new by simp
      next
        case False
        then show ?thesis using that other throttle_rel_Some [OF pruned, of k'] unfolding get by simp
      qed
      show "decay \<le> t - l" if "row_get at_key k' (row_put at_key ?r ?m) = None"
        "failure_streak k' (evs @ [e]) = Some (n, l)" for k' n l
      proof -
        have k': "k' \<noteq> k" using that(1) unfolding get by auto
        then show ?thesis using that other [OF k'] throttle_rel_None [OF pruned, of k' n l] Fail unfolding get by simp
      qed
    qed
    then show ?thesis using Fail room by (simp add: record_failure_at_def Let_def)
  qed
qed

lemma throttle_rel_run:
  assumes "sorted (map ev_time evs)" and "card (ev_key ` set evs) \<le> max_keys"
  shows "throttle_rel (if evs = [] then 0 else ev_time (last evs)) evs (throttle_run evs)"
  using assms
proof (induction evs rule: rev_induct)
  case (snoc e evs)
  have "card (ev_key ` set evs) \<le> card (ev_key ` set (evs @ [e]))" by (intro card_mono) auto
  then have "throttle_rel (if evs = [] then 0 else ev_time (last evs)) evs (throttle_run evs)"
    using snoc by (simp add: sorted_append)
  moreover have "(if evs = [] then 0 else ev_time (last evs)) \<le> ev_time e"
    using snoc.prems(1) by (simp add: sorted_append)
  ultimately show ?case
    using throttle_rel_step [of _ evs _ e] snoc.prems(2) by (simp add: throttle_run_def)
qed (simp add: throttle_rel_empty throttle_run_def)

section \<open>Properties\<close>

text \<open>
  The throttle judges every key by its own record alone. As long as no more than 4096 keys
  have been seen, its decision is the specification's, which reads off the events of that one
  key: no delay for the first five failures, then a growing one, refusal from the 25th on, and a
  clean slate after a success or fifteen quiet minutes. However many keys a flood brings, the
  table never holds more than 4096 of them.
\<close>

theorem throttle_decides_per_key:
  assumes "sorted (map ev_time evs)" and "\<And>e. e \<in> set evs \<Longrightarrow> ev_time e \<le> now"
    and "card (ev_key ` set evs) \<le> max_keys"
  shows "fst (decide_at key now (throttle_run evs)) = spec_decision key evs now \<and>
     spec_decision key evs now = spec_decision key (filter (\<lambda>e. ev_key e = key) evs) now"
proof
  have "(if evs = [] then 0 else ev_time (last evs)) \<le> now" using assms(2) by auto
  then show "fst (decide_at key now (throttle_run evs)) = spec_decision key evs now"
    by (rule throttle_rel_decision [OF throttle_rel_run [OF assms(1,3)]])
  have "fold (streak_step key) evs s = fold (streak_step key) (filter (\<lambda>e. ev_key e = key) evs) s" for s
  proof (induction evs arbitrary: s)
    case (Cons e evs)
    then show ?case by (cases e) auto
  qed simp
  then show "spec_decision key evs now = spec_decision key (filter (\<lambda>e. ev_key e = key) evs) now"
    by (simp add: spec_decision_def failure_streak_def)
qed

theorem throttle_decides_per_key_witness:
  "fst (decide_at ''login:a'' 30000 (throttle_run
     (map (\<lambda>i. Fail ''login:a'' (i * 1000)) [0..<25] @ [Fail ''login:b'' 25000]))) = Locked \<and>
   fst (decide_at ''login:b'' 30000 (throttle_run
     (map (\<lambda>i. Fail ''login:a'' (i * 1000)) [0..<25] @ [Fail ''login:b'' 25000]))) = Delay 0"
proof -
  let ?evs = "map (\<lambda>i. Fail ''login:a'' (i * 1000)) [0..<25] @ [Fail ''login:b'' 25000]"
  have u: "[0..<25] = [0, 1, 2, 3, 4, 5, 6, 7, 8, 9, 10, 11, 12, 13, 14, 15, 16, 17, 18, 19, 20, 21, 22, 23, 24]"
    by (simp add: upt_rec)
  have s: "sorted (map ev_time ?evs)" unfolding u by simp
  have t: "\<And>e. e \<in> set ?evs \<Longrightarrow> ev_time e \<le> 30000" by auto
  have "ev_key ` set ?evs \<subseteq> {''login:a'', ''login:b''}" by auto
  then have c: "card (ev_key ` set ?evs) \<le> max_keys"
    using card_mono [of "{''login:a'', ''login:b''}" "ev_key ` set ?evs"] by (simp add: max_keys_def)
  have "failure_streak ''login:a'' ?evs = Some (25, 24000)"
    unfolding u by (simp add: failure_streak_def decay_def sat_add_u32_def u32_max_def)
  moreover have "failure_streak ''login:b'' ?evs = Some (1, 25000)"
    unfolding u by (simp add: failure_streak_def)
  ultimately have "spec_decision ''login:a'' ?evs 30000 = Locked" "spec_decision ''login:b'' ?evs 30000 = Delay 0"
    by (simp_all add: spec_decision_def decay_def lock_attempts_def delay_for_def free_attempts_def)
  then show ?thesis
    using throttle_decides_per_key [OF s t c, of "''login:a''"]
      throttle_decides_per_key [OF s t c, of "''login:b''"] by simp
qed

text \<open>
  Decisions alone leave no trace: any number of attempts that ask before the first of them has
  failed are all answered as the first one is. The brake does not slow a burst of parallel
  guesses.
\<close>

lemma throttle_parallel_burst:
  "keys_ok at_key m \<Longrightarrow>
     map (\<lambda>i. fst (decide_at key now (fold throttle_step (replicate i (Decide key now)) m))) [0..<n] =
     replicate n (fst (decide_at key now m))"
proof -
  assume ok: "keys_ok at_key m"
  have "prune now (prune now m) = prune now m" for m by (simp add: prune_def)
  then have same: "keys_ok at_key m \<Longrightarrow>
      fst (decide_at key now (fold throttle_step (replicate i (Decide key now)) m)) = fst (decide_at key now m)"
    for i m
  proof (induction i arbitrary: m)
    case (Suc i)
    then show ?case using Suc.IH [of "prune now m"] keys_ok_prune [of m now] by (simp add: decide_at_pruned)
  qed simp
  show ?thesis using same [OF ok] by (simp add: map_replicate_const)
qed

end
