(* ===== verification/Guessing.thy ===== *)
theory Guessing
  imports Throttle
begin

text \<open>
  Guessing secrets one after the other at an endpoint guarded by the throttle. The interface
  says how an endpoint uses it: it refuses while the key is locked, and counts a wrong secret
  after the delay. Log-in and the unlocking of a share are its two instances.
\<close>

section \<open>A window of time\<close>

definition count_of :: "string \<Rightarrow> throttle \<Rightarrow> nat" where
  "count_of key th = (case row_get at_key key th of None \<Rightarrow> 0 | Some x \<Rightarrow> at_failures x)"

text \<open>The row of a key inside a window that began at \<open>start\<close>, and room for it.\<close>

definition window_ok :: "nat \<Rightarrow> string \<Rightarrow> throttle \<Rightarrow> bool" where
  "window_ok start key th \<longleftrightarrow> keys_ok at_key th \<and>
     (row_get at_key key th = None \<longrightarrow> length th < max_keys) \<and>
     (\<forall>x. row_get at_key key th = Some x \<longrightarrow> start \<le> at_last x)"

lemma in_window: "now < start + decay \<Longrightarrow> start \<le> l \<Longrightarrow> now - l < decay"
  by (auto simp: decay_def)

lemma window_prune:
  assumes "window_ok start key th" and "now < start + decay"
  shows "window_ok start key (prune now th) \<and> row_get at_key key (prune now th) = row_get at_key key th"
proof -
  have ok: "keys_ok at_key th" using assms(1) by (simp add: window_ok_def)
  have get: "row_get at_key key (prune now th) = row_get at_key key th"
    using assms in_window by (auto simp: row_get_prune [OF ok] window_ok_def split: option.splits)
  then show ?thesis
    using assms(1) length_prune [of now th] keys_ok_prune [OF ok]
    unfolding window_ok_def by (auto intro: le_less_trans)
qed

lemma window_decide:
  assumes "window_ok start key th" and "now < start + decay"
  shows "decide_at key now th =
    (if row_get at_key key th = None then Delay 0
     else if lock_attempts \<le> count_of key th then Locked else Delay (delay_for (count_of key th)),
     prune now th)"
proof -
  have ok: "keys_ok at_key th" using assms(1) by (simp add: window_ok_def)
  show ?thesis
    using window_prune [OF assms] by (simp add: decide_at_pruned [OF ok] count_of_def split: option.split)
qed

lemma window_fail:
  assumes "window_ok start key th" and "now < start + decay" and "start \<le> now" and "count_of key th < u32_max"
  shows "window_ok start key (record_failure_at key now th) \<and>
    row_get at_key key (record_failure_at key now th) \<noteq> None \<and>
    count_of key (record_failure_at key now th) = Suc (count_of key th)"
proof -
  let ?m = "prune now th"
  have w: "window_ok start key ?m" and get: "row_get at_key key ?m = row_get at_key key th"
    using window_prune [OF assms(1,2)] by auto
  have room: "make_room key ?m = ?m"
    using w by (auto simp: make_room_def window_ok_def)
  have prev: "previous_failures key now ?m = count_of key th"
    using w get assms(2) in_window
    by (auto simp: previous_failures_def count_of_def window_ok_def split: option.splits)
  let ?r = "\<lparr>at_key = key, at_failures = sat_add_u32 (count_of key th) 1, at_last = now\<rparr>"
  have run: "record_failure_at key now th = row_put at_key ?r ?m"
    by (simp add: record_failure_at_def Let_def room prev)
  have "row_get at_key key (row_put at_key ?r ?m) = Some ?r" by (simp add: row_get_put)
  moreover have "keys_ok at_key (row_put at_key ?r ?m)"
    using w by (intro keys_ok_put) (simp add: window_ok_def)
  ultimately show ?thesis
    using assms(3,4) by (simp add: run window_ok_def count_of_def sat_add_u32_def)
qed

section \<open>Guarded endpoints\<close>

text \<open>The clock of each attempt and the secret tried; \<open>attempt\<close> is the endpoint.\<close>

fun guess_run :: "(nat \<Rightarrow> 'p \<Rightarrow> throttle \<Rightarrow> 'r \<times> throttle) \<Rightarrow> (nat \<times> 'p) list \<Rightarrow> throttle \<Rightarrow> 'r list" where
  "guess_run attempt [] th = []"
| "guess_run attempt ((clock, secret) # rest) th =
     (let (r, th') = attempt clock secret th in r # guess_run attempt rest th')"

locale guarded_endpoint =
  fixes key :: string
    and attempt :: "nat \<Rightarrow> 'p \<Rightarrow> throttle \<Rightarrow> 'r \<times> throttle"
    and wrong_secret :: "'p \<Rightarrow> bool"
    and refused :: 'r
    and rejected :: 'r
  assumes locked: "check key c th = (Inl e, th') \<Longrightarrow> attempt c p th = (refused, th')"
    and counted: "check key c th = (Inr d, th') \<Longrightarrow> wrong_secret p \<Longrightarrow>
      attempt c p th = (rejected, record_failure_at key (c + d) th')"
    and distinct_answers: "refused \<noteq> rejected"
begin

lemma attempt_in_window:
  assumes "window_ok start key th" and "start \<le> c" "c + max_delay < start + decay"
    and "wrong_secret p" and "count_of key th \<le> lock_attempts"
    and "attempt c p th = (r, th')"
  shows "window_ok start key th' \<and>
    (r = refused \<and> count_of key th' = count_of key th \<or>
     r = rejected \<and> count_of key th' = Suc (count_of key th) \<and> count_of key th < lock_attempts)"
proof -
  have c': "c < start + decay" using assms(3) by simp
  have w: "window_ok start key (prune c th)" and get: "row_get at_key key (prune c th) = row_get at_key key th"
    using window_prune [OF assms(1) c'] by auto
  have count: "count_of key (prune c th) = count_of key th" by (simp add: count_of_def get)
  show ?thesis
  proof (cases "lock_attempts \<le> count_of key th")
    case True
    then have "row_get at_key key th \<noteq> None"
      by (cases "row_get at_key key th") (simp_all add: count_of_def lock_attempts_def)
    then have "check key c th = (Inl TooManyAttempts, prune c th)"
      using True window_decide [OF assms(1) c'] by (auto simp: check_def)
    then show ?thesis using locked [of c th _ _ p] w count assms(6) by simp
  next
    case False
    define d where "d = (if row_get at_key key th = None then 0 else delay_for (count_of key th))"
    have "check key c th = (Inr d, prune c th)"
      using False window_decide [OF assms(1) c'] by (simp add: check_def d_def)
    then have run: "attempt c p th = (rejected, record_failure_at key (c + d) (prune c th))"
      using counted assms(4) by blast
    have "d \<le> max_delay" by (simp add: d_def delay_for_bounds)
    then have "window_ok start key (record_failure_at key (c + d) (prune c th)) \<and>
        count_of key (record_failure_at key (c + d) (prune c th)) = Suc (count_of key th)"
      using window_fail [OF w, of "c + d"] assms(2,3) False count by (simp add: lock_attempts_def u32_max_def)
    then show ?thesis using run assms(6) False by simp
  qed
qed

lemma guess_run_bound:
  assumes "window_ok start key th" and "count_of key th \<le> lock_attempts"
    and "\<And>c p. (c, p) \<in> set tries \<Longrightarrow> start \<le> c \<and> c + max_delay < start + decay \<and> wrong_secret p"
  shows "length (filter (\<lambda>r. r \<noteq> refused) (guess_run attempt tries th)) + count_of key th \<le> lock_attempts"
  using assms
proof (induction tries arbitrary: th)
  case (Cons try1 rest)
  obtain c p where t: "try1 = (c, p)" by force
  have tries: "start \<le> c' \<and> c' + max_delay < start + decay \<and> wrong_secret p'"
    if "(c', p') \<in> set rest" for c' p'
    using Cons.prems(3) [of c' p'] that by simp
  obtain r th' where run: "attempt c p th = (r, th')" by force
  have here: "window_ok start key th' \<and>
    (r = refused \<and> count_of key th' = count_of key th \<or>
     r = rejected \<and> count_of key th' = Suc (count_of key th) \<and> count_of key th < lock_attempts)"
    by (rule attempt_in_window [OF Cons.prems(1) _ _ _ Cons.prems(2) run])
      (use Cons.prems(3) [of c p] t in auto)
  then have "length (filter (\<lambda>r. r \<noteq> refused) (guess_run attempt rest th')) + count_of key th' \<le> lock_attempts"
    using Cons.IH [of th'] Cons.prems(2) tries by auto
  then show ?case using here run t distinct_answers by auto
qed simp

lemma guesses_bounded:
  assumes "keys_ok at_key th" and "row_get at_key key th = None" and "length th < max_keys"
    and "\<And>c p. (c, p) \<in> set tries \<Longrightarrow> start \<le> c \<and> c + max_delay < start + decay \<and> wrong_secret p"
  shows "length (filter (\<lambda>r. r \<noteq> refused) (guess_run attempt tries th)) \<le> lock_attempts"
proof -
  have "window_ok start key th" and "count_of key th = 0"
    using assms(1-3) by (simp_all add: window_ok_def count_of_def)
  then show ?thesis using guess_run_bound [OF _ _ assms(4)] by fastforce
qed

end

end
