(* ===== verification/FilesDb.thy ===== *)
theory FilesDb
  imports Prelude SyncTypes SqlStore ServerErrors
begin

text \<open>
  The tables of the server's file store and the changelog its triggers keep
  (src/sarca/src/startup.rs: \<open>init_db\<close>; src/sarca/src/models: files, file_chunks,
  chunk_replicas, file_sync_events, storage_channels). A table is the list of its rows; ids are
  the canonical text of a UUID, times are integers.

  A statement is modelled row by row, as SQLite runs it: the rows to change are collected first,
  then each is changed in turn, the unique index of live paths is checked at each row, a
  violation rolls the whole statement back, and the triggers fire for each row. The order of the
  rows is the table's. The cascades of the foreign keys are part of a deletion.
\<close>

section \<open>Rows\<close>

record in_file =
  if_path :: string
  if_size :: int
  if_storage :: uuid
  if_chunk_size :: "int option"
  if_source_created :: "int option"
  if_source_mtime :: "int option"
  if_hash :: "string option"

definition new_in_file :: "string \<Rightarrow> int \<Rightarrow> uuid \<Rightarrow> in_file" where
  "new_in_file path sz storage =
     \<lparr>if_path = path, if_size = sz, if_storage = storage, if_chunk_size = None,
      if_source_created = None, if_source_mtime = None, if_hash = None\<rparr>"

record file_row =
  f_id :: uuid
  f_path :: string
  f_size :: int
  f_storage :: uuid
  f_uploaded :: bool
  f_thumb :: "string option"
  f_thumb_msg :: "int option"
  f_preview :: "string option"
  f_preview_msg :: "int option"
  f_chunk_size :: "int option"
  f_deleted :: "int option"
  f_created :: int
  f_updated :: int
  f_source_created :: "int option"
  f_source_mtime :: "int option"
  f_hash :: "string option"

record chunk_row =
  ck_id :: uuid
  ck_file :: uuid
  ck_position :: int

record replica_row =
  rp_id :: uuid
  rp_chunk :: uuid
  rp_channel :: uuid
  rp_file_id :: "string option"
  rp_message :: "int option"
  rp_status :: string

record channel_row =
  sc_id :: uuid
  sc_storage :: uuid
  sc_position :: int
  sc_chat :: int
  sc_name :: string
  sc_status :: string

record sync_event =
  fe_id :: int
  fe_storage :: uuid
  fe_file_id :: "uuid option"
  fe_path :: string
  fe_op :: string
  fe_size :: "int option"
  fe_is_file :: bool
  fe_hash :: "string option"
  fe_mtime :: "int option"
  fe_created :: int

record files_db =
  fd_files :: "file_row list"
  fd_events :: "sync_event list"
  fd_seq :: int
  fd_chunks :: "chunk_row list"
  fd_replicas :: "replica_row list"
  fd_channels :: "channel_row list"
  fd_storages :: "uuid list"

section \<open>The triggers\<close>

definition is_live :: "file_row \<Rightarrow> bool" where
  "is_live r \<longleftrightarrow> f_deleted r = None"

text \<open>The rows a sync client is told about: live, and uploaded or a folder marker.\<close>

definition visible :: "file_row \<Rightarrow> bool" where
  "visible r \<longleftrightarrow> is_live r \<and> (f_uploaded r \<or> is_folder_path (f_path r))"

definition row_event :: "string \<Rightarrow> file_row \<Rightarrow> int \<Rightarrow> files_db \<Rightarrow> files_db" where
  "row_event op r now db = db\<lparr>fd_seq := fd_seq db + 1,
     fd_events := fd_events db @
       [\<lparr>fe_id = fd_seq db + 1, fe_storage = f_storage r, fe_file_id = Some (f_id r),
         fe_path = f_path r, fe_op = op, fe_size = Some (f_size r),
         fe_is_file = (\<not> is_folder_path (f_path r)), fe_hash = f_hash r,
         fe_mtime = f_source_mtime r, fe_created = now\<rparr>]\<rparr>"

definition files_sync_event_insert :: "file_row \<Rightarrow> int \<Rightarrow> files_db \<Rightarrow> files_db" where
  "files_sync_event_insert new now db = (if visible new then row_event ''upsert'' new now db else db)"

definition files_sync_event_delete :: "file_row \<Rightarrow> int \<Rightarrow> files_db \<Rightarrow> files_db" where
  "files_sync_event_delete old now db =
     (if f_storage old \<in> set (fd_storages db) then row_event ''delete'' old now db else db)"

definition files_sync_event_update :: "file_row \<Rightarrow> file_row \<Rightarrow> int \<Rightarrow> files_db \<Rightarrow> files_db" where
  "files_sync_event_update old new now db0 =
     (let db1 = (if f_path old \<noteq> f_path new then row_event ''delete'' old now db0 else db0);
          db2 = (if f_path old \<noteq> f_path new \<and> visible new then row_event ''upsert'' new now db1 else db1);
          db3 = (if f_path old = f_path new \<and> f_deleted new \<noteq> None \<and> f_deleted old = None
                 then row_event ''delete'' new now db2 else db2)
      in (if f_path old = f_path new \<and> visible new \<and>
             (f_deleted old \<noteq> None \<or> f_uploaded old \<noteq> f_uploaded new \<or> f_size old \<noteq> f_size new \<or>
              f_hash old \<noteq> f_hash new \<or> f_source_mtime old \<noteq> f_source_mtime new)
          then row_event ''upsert'' new now db3 else db3))"

definition files_touch_updated_at :: "file_row \<Rightarrow> file_row \<Rightarrow> int \<Rightarrow> file_row" where
  "files_touch_updated_at old new now = (if f_updated new = f_updated old then new\<lparr>f_updated := now\<rparr> else new)"

section \<open>Statements\<close>

datatype sql_error = UniqueViolation | FkViolation

definition row_live :: "uuid \<Rightarrow> string \<Rightarrow> file_row \<Rightarrow> bool" where
  "row_live storage path r \<longleftrightarrow> f_storage r = storage \<and> f_path r = path \<and> is_live r"

definition live_row :: "uuid \<Rightarrow> string \<Rightarrow> files_db \<Rightarrow> file_row option" where
  "live_row storage path db = find (row_live storage path) (fd_files db)"

definition insert_row :: "file_row \<Rightarrow> int \<Rightarrow> files_db \<Rightarrow> (sql_error, files_db) result" where
  "insert_row r now db =
     (if is_live r \<and> live_row (f_storage r) (f_path r) db \<noteq> None then Inl UniqueViolation
      else if f_storage r \<notin> set (fd_storages db) then Inl FkViolation
      else Inr (files_sync_event_insert r now (db\<lparr>fd_files := fd_files db @ [r]\<rparr>)))"

text \<open>The live row at the place of \<open>new\<close>, other than the one it replaces.\<close>

definition path_taken :: "file_row \<Rightarrow> files_db \<Rightarrow> bool" where
  "path_taken new db \<longleftrightarrow> is_live new \<and>
     list_ex (\<lambda>x. f_id x \<noteq> f_id new \<and> row_live (f_storage new) (f_path new) x) (fd_files db)"

definition put_file :: "file_row \<Rightarrow> files_db \<Rightarrow> files_db" where
  "put_file new db = db\<lparr>fd_files := map (\<lambda>x. if f_id x = f_id new then new else x) (fd_files db)\<rparr>"

definition update_row :: "(file_row \<Rightarrow> file_row) \<Rightarrow> int \<Rightarrow> uuid \<Rightarrow> files_db \<Rightarrow> (sql_error, files_db) result" where
  "update_row f now i db = (case row_get f_id i (fd_files db) of
     None \<Rightarrow> Inr db
   | Some old \<Rightarrow>
       (let new = files_touch_updated_at old (f old) now
        in if path_taken new db then Inl UniqueViolation
           else Inr (files_sync_event_update old new now (put_file new db))))"

fun update_rows :: "(file_row \<Rightarrow> file_row) \<Rightarrow> int \<Rightarrow> uuid list \<Rightarrow> files_db \<Rightarrow> (sql_error, files_db) result" where
  "update_rows f now [] db = Inr db"
| "update_rows f now (i # is) db = res_bind (update_row f now i db) (update_rows f now is)"

text \<open>\<open>UPDATE files SET ... WHERE ...\<close>, with the number of rows affected.\<close>

definition update_where ::
  "(file_row \<Rightarrow> bool) \<Rightarrow> (file_row \<Rightarrow> file_row) \<Rightarrow> int \<Rightarrow> files_db \<Rightarrow> (sql_error, files_db \<times> nat) result" where
  "update_where P f now db =
     (let ids = map f_id (filter P (fd_files db))
      in res_bind (update_rows f now ids db) (\<lambda>db'. Inr (db', length ids)))"

definition delete_row :: "int \<Rightarrow> uuid \<Rightarrow> files_db \<Rightarrow> files_db" where
  "delete_row now i db = (case row_get f_id i (fd_files db) of
     None \<Rightarrow> db
   | Some old \<Rightarrow>
       (let gone = map ck_id (filter (\<lambda>c. ck_file c = i) (fd_chunks db))
        in files_sync_event_delete old now
             (db\<lparr>fd_files := row_del (\<lambda>x. f_id x = i) (fd_files db),
                fd_chunks := filter (\<lambda>c. ck_file c \<noteq> i) (fd_chunks db),
                fd_replicas := filter (\<lambda>r. rp_chunk r \<notin> set gone) (fd_replicas db)\<rparr>)))"

definition delete_rows :: "int \<Rightarrow> uuid list \<Rightarrow> files_db \<Rightarrow> files_db" where
  "delete_rows now ids db = fold (delete_row now) ids db"

section \<open>The changelog as a specification\<close>

text \<open>
  A sync client knows, for each path of a storage, what the last event for it said. Replaying the
  changelog from the beginning gives that knowledge; the view of a row is what an upsert of it
  says.
\<close>

type_synonym file_view = "uuid option \<times> int option \<times> bool \<times> string option \<times> int option"

definition view_of_row :: "file_row \<Rightarrow> file_view" where
  "view_of_row r = (Some (f_id r), Some (f_size r), \<not> is_folder_path (f_path r), f_hash r, f_source_mtime r)"

definition view_of_event :: "sync_event \<Rightarrow> file_view" where
  "view_of_event e = (fe_file_id e, fe_size e, fe_is_file e, fe_hash e, fe_mtime e)"

definition apply_event :: "sync_event \<Rightarrow> (string \<rightharpoonup> file_view) \<Rightarrow> (string \<rightharpoonup> file_view)" where
  "apply_event e v = (if fe_op e = ''delete'' then v(fe_path e := None) else v(fe_path e \<mapsto> view_of_event e))"

definition replay :: "uuid \<Rightarrow> sync_event list \<Rightarrow> (string \<rightharpoonup> file_view) \<Rightarrow> (string \<rightharpoonup> file_view)" where
  "replay storage evs v = fold apply_event (filter (\<lambda>e. fe_storage e = storage) evs) v"

text \<open>What is known to one who began with the view \<open>v\<close> after \<open>n\<close> events and heard all later ones.\<close>

definition known :: "(string \<rightharpoonup> file_view) \<Rightarrow> nat \<Rightarrow> uuid \<Rightarrow> files_db \<Rightarrow> (string \<rightharpoonup> file_view)" where
  "known v n storage db = replay storage (drop n (fd_events db)) v"

text \<open>
  Someone's knowledge is exact when it says, for every path, what the store holds: the view of
  the visible row there, or nothing where no live row is. A path whose live row is not visible is
  one whose upload is under way; what is known there is whatever was known before.
\<close>

definition exact :: "(string \<rightharpoonup> file_view) \<Rightarrow> uuid \<Rightarrow> files_db \<Rightarrow> bool" where
  "exact v storage db \<longleftrightarrow> (\<forall>path.
     case live_row storage path db of
       None \<Rightarrow> v path = None
     | Some r \<Rightarrow> visible r \<longrightarrow> v path = Some (view_of_row r))"

definition changelog_exact :: "(string \<rightharpoonup> file_view) \<Rightarrow> nat \<Rightarrow> uuid \<Rightarrow> files_db \<Rightarrow> bool" where
  "changelog_exact v n storage db \<longleftrightarrow> n \<le> length (fd_events db) \<and> exact (known v n storage db) storage db"

definition live_unique :: "file_row list \<Rightarrow> bool" where
  "live_unique rows \<longleftrightarrow> distinct (map (\<lambda>r. (f_storage r, f_path r)) (filter is_live rows))"

definition files_inv :: "files_db \<Rightarrow> bool" where
  "files_inv db \<longleftrightarrow> keys_ok f_id (fd_files db) \<and> live_unique (fd_files db) \<and>
     (\<forall>r \<in> set (fd_files db). f_storage r \<in> set (fd_storages db)) \<and>
     sorted_wrt (<) (map fe_id (fd_events db)) \<and> 0 \<le> fd_seq db \<and>
     (\<forall>e \<in> set (fd_events db). 0 < fe_id e \<and> fe_id e \<le> fd_seq db)"

section \<open>Rows and the live row of a path\<close>

lemma row_event_simps [simp]:
  "fd_files (row_event op r now db) = fd_files db"
  "fd_chunks (row_event op r now db) = fd_chunks db"
  "fd_replicas (row_event op r now db) = fd_replicas db"
  "fd_channels (row_event op r now db) = fd_channels db"
  "fd_storages (row_event op r now db) = fd_storages db"
  by (simp_all add: row_event_def)

lemma trigger_simps [simp]:
  "fd_files (files_sync_event_insert r now db) = fd_files db"
  "fd_files (files_sync_event_delete r now db) = fd_files db"
  "fd_files (files_sync_event_update old new now db) = fd_files db"
  "fd_storages (files_sync_event_insert r now db) = fd_storages db"
  "fd_storages (files_sync_event_delete r now db) = fd_storages db"
  "fd_storages (files_sync_event_update old new now db) = fd_storages db"
  by (simp_all add: files_sync_event_insert_def files_sync_event_delete_def files_sync_event_update_def Let_def)

lemma live_row_cong: "fd_files db' = fd_files db \<Longrightarrow> live_row s p db' = live_row s p db"
  by (simp add: live_row_def)

lemma live_row_SomeD: "live_row s p db = Some r \<Longrightarrow> r \<in> set (fd_files db) \<and> row_live s p r"
  by (auto simp: live_row_def find_Some_iff)

lemma live_row_None_iff: "live_row s p db = None \<longleftrightarrow> (\<forall>r \<in> set (fd_files db). \<not> row_live s p r)"
  by (auto simp: live_row_def find_None_iff)

lemma live_unique_D:
  assumes "live_unique rows" and "x \<in> set rows" "y \<in> set rows" "row_live s p x" "row_live s p y"
  shows "x = y"
proof -
  have "x \<in> set (filter is_live rows)" "y \<in> set (filter is_live rows)"
    and "(f_storage x, f_path x) = (f_storage y, f_path y)"
    using assms by (auto simp: row_live_def)
  then show ?thesis using assms(1) unfolding live_unique_def distinct_map inj_on_def by blast
qed

lemma live_row_eq_Some:
  assumes "live_unique (fd_files db)"
  shows "live_row s p db = Some r \<longleftrightarrow> r \<in> set (fd_files db) \<and> row_live s p r"
proof
  assume r: "r \<in> set (fd_files db) \<and> row_live s p r"
  then obtain x where x: "live_row s p db = Some x" using live_row_None_iff [of s p db] by fastforce
  then show "live_row s p db = Some r" using live_unique_D [OF assms] r live_row_SomeD [OF x] by metis
qed (rule live_row_SomeD)

lemma live_unique_Nil [simp]: "live_unique []"
  by (simp add: live_unique_def)

lemma live_unique_Cons [simp]:
  "live_unique (r # rows) \<longleftrightarrow>
     live_unique rows \<and> (is_live r \<longrightarrow> (\<forall>x \<in> set rows. \<not> row_live (f_storage r) (f_path r) x))"
proof -
  have "(f_storage r, f_path r) \<in> (\<lambda>x. (f_storage x, f_path x)) ` {x \<in> set rows. is_live x} \<longleftrightarrow>
        (\<exists>x \<in> set rows. row_live (f_storage r) (f_path r) x)"
    by (auto simp: row_live_def image_iff)
  then show ?thesis by (cases "is_live r") (auto simp: live_unique_def)
qed

lemma row_live_sym:
  "is_live x \<Longrightarrow> is_live y \<Longrightarrow> row_live (f_storage x) (f_path x) y = row_live (f_storage y) (f_path y) x"
  by (auto simp: row_live_def)

lemma live_unique_append:
  "live_unique (rows @ [r]) \<longleftrightarrow>
     live_unique rows \<and> (is_live r \<longrightarrow> (\<forall>x \<in> set rows. \<not> row_live (f_storage r) (f_path r) x))"
  by (induction rows) (auto simp: row_live_def)

lemma live_unique_filter: "live_unique rows \<Longrightarrow> live_unique (filter P rows)"
  by (induction rows) auto

lemma live_unique_put:
  assumes "keys_ok f_id rows" and "live_unique rows"
    and free: "is_live new \<Longrightarrow> \<forall>x \<in> set rows. f_id x \<noteq> f_id new \<longrightarrow> \<not> row_live (f_storage new) (f_path new) x"
  shows "live_unique (map (\<lambda>x. if f_id x = f_id new then new else x) rows)"
  using assms
proof (induction rows)
  case (Cons r rows)
  have tl: "keys_ok f_id rows" "live_unique rows"
    using Cons.prems by (auto simp: keys_ok_def)
  have IH: "live_unique (map (\<lambda>x. if f_id x = f_id new then new else x) rows)"
    using Cons.IH [OF tl] Cons.prems(3) by simp
  show ?case
  proof (cases "f_id r = f_id new")
    case True
    then have fresh: "f_id new \<notin> f_id ` set rows" using Cons.prems(1) by (simp add: keys_ok_def)
    then have "map (\<lambda>x. if f_id x = f_id new then new else x) rows = rows"
      by (intro map_idI) (auto simp: image_iff)
    moreover have "\<not> row_live (f_storage new) (f_path new) x" if "is_live new" "x \<in> set rows" for x
      using Cons.prems(3) that fresh by (auto simp: image_iff)
    ultimately show ?thesis using True tl(2) by simp
  next
    case False
    have "\<not> row_live (f_storage r) (f_path r) (if f_id x = f_id new then new else x)"
      if "is_live r" "x \<in> set rows" for x
      using Cons.prems(2,3) False that by (auto simp: row_live_def)
    then have "is_live r \<longrightarrow> (\<forall>y \<in> set (map (\<lambda>x. if f_id x = f_id new then new else x) rows).
        \<not> row_live (f_storage r) (f_path r) y)" unfolding set_map by blast
    then show ?thesis using False IH by simp
  qed
qed simp

lemma fd_files_put [simp]:
  "fd_files (put_file new db) = map (\<lambda>x. if f_id x = f_id new then new else x) (fd_files db)"
  "fd_storages (put_file new db) = fd_storages db" "fd_events (put_file new db) = fd_events db"
  "fd_seq (put_file new db) = fd_seq db"
  by (simp_all add: put_file_def)

lemma live_row_eqI:
  assumes "live_unique (fd_files db)" "live_unique (fd_files db')"
    and "\<And>x. x \<in> set (fd_files db) \<and> row_live s p x \<longleftrightarrow> x \<in> set (fd_files db') \<and> row_live s p x"
  shows "live_row s p db = live_row s p db'"
proof (cases "live_row s p db")
  case None
  then show ?thesis using assms(3) live_row_None_iff [of s p db] live_row_None_iff [of s p db'] by auto
next
  case (Some r)
  then have "live_row s p db' = Some r"
    using assms(3) [of r] by (simp add: live_row_eq_Some [OF assms(1)] live_row_eq_Some [OF assms(2)])
  then show ?thesis using Some by simp
qed

lemma find_snoc: "find P (xs @ [x]) = (case find P xs of None \<Rightarrow> if P x then Some x else None | Some y \<Rightarrow> Some y)"
  by (induction xs) auto

lemma live_row_put:
  assumes inv: "keys_ok f_id (fd_files db)" "live_unique (fd_files db)"
    and old: "old \<in> set (fd_files db)" "f_id new = f_id old" and free: "\<not> path_taken new db"
  shows "live_row s p (put_file new db) =
     (if row_live s p new then Some new else if row_live s p old then None else live_row s p db)"
proof -
  have same: "x = old" if "x \<in> set (fd_files db)" "f_id x = f_id old" for x
    using inv(1) old(1) that by (auto simp: keys_ok_def distinct_map inj_on_def)
  have uni: "live_unique (fd_files (put_file new db))"
    unfolding fd_files_put using inv free
    by (intro live_unique_put) (auto simp: path_taken_def list_ex_iff)
  show ?thesis
  proof (cases "row_live s p new")
    case True
    then show ?thesis using old by (simp add: live_row_eq_Some [OF uni])
  next
    case new: False
    show ?thesis
    proof (cases "row_live s p old")
      case True
      then have "\<not> row_live s p x" if "x \<in> set (fd_files db)" "f_id x \<noteq> f_id new" for x
        using live_unique_D [OF inv(2) that(1) old(1)] that(2) old(2) by auto
      then show ?thesis using new True by (auto simp: live_row_None_iff)
    next
      case False
      have mem: "x \<in> set (fd_files (put_file new db)) \<and> row_live s p x \<longleftrightarrow>
          x \<in> set (fd_files db) \<and> row_live s p x" for x
        using new same old False by auto
      show ?thesis using new False live_row_eqI [OF uni inv(2) mem] by simp
    qed
  qed
qed

lemma live_row_delete:
  assumes "live_unique (fd_files db)" and "keys_ok f_id (fd_files db)" and "old \<in> set (fd_files db)"
    and files: "fd_files db' = row_del (\<lambda>x. f_id x = f_id old) (fd_files db)"
  shows "live_row s p db' = (if row_live s p old then None else live_row s p db)"
proof -
  have same: "x = old" if "x \<in> set (fd_files db)" "f_id x = f_id old" for x
    using assms(2,3) that by (auto simp: keys_ok_def distinct_map inj_on_def)
  have uni: "live_unique (fd_files db')"
    unfolding files row_del_def using assms(1) by (rule live_unique_filter)
  have mem: "x \<in> set (fd_files db') \<longleftrightarrow> x \<in> set (fd_files db) \<and> x \<noteq> old" for x
    using same assms(3) by (auto simp: files row_del_def)
  show ?thesis
  proof (cases "row_live s p old")
    case True
    then show ?thesis using live_unique_D [OF assms(1) _ assms(3)] by (auto simp: live_row_None_iff mem)
  next
    case False
    then have "x \<in> set (fd_files db') \<and> row_live s p x \<longleftrightarrow> x \<in> set (fd_files db) \<and> row_live s p x" for x
      by (auto simp: mem)
    then show ?thesis using False live_row_eqI [OF uni assms(1)] by simp
  qed
qed

lemma live_row_insert:
  assumes "live_unique (fd_files db)" and "is_live r \<Longrightarrow> live_row (f_storage r) (f_path r) db = None"
    and files: "fd_files db' = fd_files db @ [r]"
  shows "live_row s p db' = (if row_live s p r then Some r else live_row s p db)"
proof -
  have uni: "live_unique (fd_files db')"
    unfolding files live_unique_append using assms(1,2) by (auto simp: live_row_None_iff)
  show ?thesis
  proof (cases "row_live s p r")
    case True
    then show ?thesis by (simp add: live_row_eq_Some [OF uni] files)
  next
    case False
    then show ?thesis by (simp add: live_row_def files find_snoc split: option.split)
  qed
qed

section \<open>What a statement announces\<close>

lemma known_cong: "fd_events db' = fd_events db \<Longrightarrow> known v n s db' = known v n s db"
  by (simp add: known_def)

lemma known_row_event:
  "n \<le> length (fd_events db) \<Longrightarrow> known v n s (row_event op r now db) =
     (if f_storage r \<noteq> s then known v n s db
      else if op = ''delete'' then (known v n s db)(f_path r := None)
      else (known v n s db)(f_path r \<mapsto> view_of_row r))"
  by (simp add: known_def replay_def row_event_def apply_event_def view_of_event_def view_of_row_def)

lemma length_events_row_event [simp]: "length (fd_events (row_event op r now db)) = Suc (length (fd_events db))"
  by (simp add: row_event_def)

lemma known_insert:
  "n \<le> length (fd_events db) \<Longrightarrow> known v n s (files_sync_event_insert r now db) p =
     (if visible r \<and> row_live s p r then Some (view_of_row r) else known v n s db p)"
  by (auto simp: files_sync_event_insert_def known_row_event row_live_def visible_def)

lemma known_delete:
  "f_storage r \<in> set (fd_storages db) \<Longrightarrow> n \<le> length (fd_events db) \<Longrightarrow> known v n s (files_sync_event_delete r now db) p =
     (if f_storage r = s \<and> f_path r = p then None else known v n s db p)"
  by (auto simp: files_sync_event_delete_def known_row_event)

lemma known_update_moved:
  assumes "f_path old \<noteq> f_path new" and "f_storage new = f_storage old"
    and "n \<le> length (fd_events db)"
  shows "known v n s (files_sync_event_update old new now db) p =
     (if visible new \<and> row_live s p new then Some (view_of_row new)
      else if f_storage old = s \<and> f_path old = p then None else known v n s db p)"
  using assms
  by (auto simp: files_sync_event_update_def Let_def known_row_event row_live_def visible_def)

definition content_changed :: "file_row \<Rightarrow> file_row \<Rightarrow> bool" where
  "content_changed old new \<longleftrightarrow> f_deleted old \<noteq> None \<or> f_uploaded old \<noteq> f_uploaded new \<or>
     f_size old \<noteq> f_size new \<or> f_hash old \<noteq> f_hash new \<or> f_source_mtime old \<noteq> f_source_mtime new"

lemma files_sync_event_update_in_place:
  "f_path new = f_path old \<Longrightarrow> files_sync_event_update old new now db =
     (if is_live old \<and> \<not> is_live new then row_event ''delete'' new now db
      else if visible new \<and> content_changed old new then row_event ''upsert'' new now db else db)"
  unfolding files_sync_event_update_def Let_def content_changed_def is_live_def visible_def
  by (cases "f_deleted new"; cases "f_deleted old") simp_all

lemma known_update_in_place:
  assumes "f_path new = f_path old" and "f_storage new = f_storage old"
    and "n \<le> length (fd_events db)"
  shows "known v n s (files_sync_event_update old new now db) p =
     (if f_storage old = s \<and> f_path old = p
      then if is_live old \<and> \<not> is_live new then None
           else if visible new \<and> content_changed old new then Some (view_of_row new) else known v n s db p
      else known v n s db p)"
  unfolding files_sync_event_update_in_place [OF assms(1)] using assms
  by (simp add: known_row_event)

section \<open>Every statement keeps the changelog exact, with one exception\<close>

text \<open>
  The exception: a trashed row that is removed, or moved, announces the deletion of its path. When
  a live row has that path in the meantime, the announcement is false.
\<close>

definition no_twin :: "file_row \<Rightarrow> files_db \<Rightarrow> bool" where
  "no_twin old db \<longleftrightarrow> is_live old \<or> live_row (f_storage old) (f_path old) db = None"

lemma exact_at:
  "changelog_exact v n s db \<longleftrightarrow> n \<le> length (fd_events db) \<and> (\<forall>p.
     (live_row s p db = None \<longrightarrow> known v n s db p = None) \<and>
     (\<forall>r. live_row s p db = Some r \<longrightarrow> visible r \<longrightarrow> known v n s db p = Some (view_of_row r)))"
  unfolding changelog_exact_def exact_def by (auto split: option.splits)

lemma changelog_exactI:
  assumes "n \<le> length (fd_events db)"
    and "\<And>p. live_row s p db = None \<Longrightarrow> known v n s db p = None"
    and "\<And>p r. live_row s p db = Some r \<Longrightarrow> visible r \<Longrightarrow> known v n s db p = Some (view_of_row r)"
  shows "changelog_exact v n s db"
  unfolding exact_at using assms by blast

lemma trigger_events_grow:
  "length (fd_events db) \<le> length (fd_events (files_sync_event_insert r now db))"
  "length (fd_events db) \<le> length (fd_events (files_sync_event_delete r now db))"
  "length (fd_events db) \<le> length (fd_events (files_sync_event_update old new now db))"
  by (simp_all add: files_sync_event_insert_def files_sync_event_delete_def files_sync_event_update_def Let_def)

lemma changelog_exact_lenD: "changelog_exact v n s db \<Longrightarrow> n \<le> length (fd_events db)"
  by (simp add: exact_at)

lemma changelog_exact_noneD: "changelog_exact v n s db \<Longrightarrow> live_row s p db = None \<Longrightarrow> known v n s db p = None"
  by (simp add: exact_at)

lemma changelog_exact_someD:
  "changelog_exact v n s db \<Longrightarrow> live_row s p db = Some r \<Longrightarrow> visible r \<Longrightarrow> known v n s db p = Some (view_of_row r)"
  by (simp add: exact_at)

lemma visible_live: "visible r \<Longrightarrow> is_live r"
  by (simp add: visible_def)

lemma row_live_self: "is_live r \<Longrightarrow> row_live (f_storage r) (f_path r) r"
  by (simp add: row_live_def)

lemma exact_insert:
  assumes exact: "changelog_exact v n s db" and inv: "live_unique (fd_files db)"
    and ok: "insert_row r now db = Inr db'"
  shows "changelog_exact v n s db'"
proof -
  let ?d = "db\<lparr>fd_files := fd_files db @ [r]\<rparr>"
  have free: "is_live r \<Longrightarrow> live_row (f_storage r) (f_path r) db = None"
    and db': "db' = files_sync_event_insert r now ?d"
    using ok by (auto simp: insert_row_def split: if_splits)
  have live: "live_row s p db' = (if row_live s p r then Some r else live_row s p db)" for p
    by (rule live_row_insert [OF inv free]) (simp_all add: db')
  have known: "known v n s db' p = (if visible r \<and> row_live s p r then Some (view_of_row r) else known v n s db p)" for p
    unfolding db' using known_insert [of n ?d v s r now p] changelog_exact_lenD [OF exact] known_cong [of ?d db v n s]
    by simp
  have "n \<le> length (fd_events db')"
    using trigger_events_grow(1) [of ?d r now] changelog_exact_lenD [OF exact] db' by simp
  then show ?thesis unfolding exact_at live known
    using exact by (auto simp: exact_at)
qed

lemma exact_update:
  assumes exact: "changelog_exact v n s db"
    and inv: "keys_ok f_id (fd_files db)" "live_unique (fd_files db)"
    and old: "old \<in> set (fd_files db)" and new: "f_id new = f_id old" "f_storage new = f_storage old"
    and free: "\<not> path_taken new db"
    and twin: "f_path new = f_path old \<or> no_twin old db"
  shows "changelog_exact v n s (files_sync_event_update old new now (put_file new db))"
proof -
  let ?db' = "files_sync_event_update old new now (put_file new db)"
  have live: "live_row s p ?db' =
      (if row_live s p new then Some new else if row_live s p old then None else live_row s p db)" for p
    unfolding live_row_put [OF inv old new(1) free, symmetric] by (rule live_row_cong) simp
  have base: "known v n s (put_file new db) = known v n s db" by (rule known_cong) simp
  have n: "n \<le> length (fd_events (put_file new db))" using changelog_exact_lenD [OF exact] by simp
  have len: "n \<le> length (fd_events ?db')"
    by (rule le_trans [OF n trigger_events_grow(3)])
  show ?thesis
  proof (cases "f_path new = f_path old")
    case False
    have known: "known v n s ?db' p = (if visible new \<and> row_live s p new then Some (view_of_row new)
      else if f_storage old = s \<and> f_path old = p then None else known v n s db p)" for p
      using known_update_moved [of old new n "put_file new db" v s now p] False new(2) base n by simp
    have none: "live_row s p db = None" if "f_storage old = s" "f_path old = p" "\<not> is_live old" for p
      using twin False that by (simp add: no_twin_def)
    show ?thesis
    proof (rule changelog_exactI [OF len])
      fix p assume l: "live_row s p ?db' = None"
      then have "\<not> row_live s p new" and "row_live s p old \<or> live_row s p db = None"
        unfolding live by (auto split: if_splits)
      then show "known v n s ?db' p = None"
        unfolding known using changelog_exact_noneD [OF exact] by (auto simp: row_live_def)
    next
      fix p r assume l: "live_row s p ?db' = Some r" and v: "visible r"
      show "known v n s ?db' p = Some (view_of_row r)"
      proof (cases "row_live s p new")
        case True
        then show ?thesis using l v unfolding live known by simp
      next
        case here: False
        then have "\<not> row_live s p old" and r: "live_row s p db = Some r"
          using l unfolding live by (auto split: if_splits)
        then have "\<not> (f_storage old = s \<and> f_path old = p)"
          using none by (auto simp: row_live_def)
        then show ?thesis unfolding known using here changelog_exact_someD [OF exact r v] by simp
      qed
    qed
  next
    case True
    have known: "known v n s ?db' p = (if f_storage old = s \<and> f_path old = p
      then if is_live old \<and> \<not> is_live new then None
           else if visible new \<and> content_changed old new then Some (view_of_row new) else known v n s db p
      else known v n s db p)" for p
      using known_update_in_place [OF True new(2) n, of v s now p] base by simp
    show ?thesis
    proof (rule changelog_exactI [OF len])
      fix p assume l: "live_row s p ?db' = None"
      then have "\<not> row_live s p new" and "row_live s p old \<or> live_row s p db = None"
        unfolding live by (auto split: if_splits)
      then show "known v n s ?db' p = None"
        unfolding known using changelog_exact_noneD [OF exact] True new(2) visible_live [of new]
        by (auto simp: row_live_def)
    next
      fix p r assume l: "live_row s p ?db' = Some r" and v: "visible r"
      show "known v n s ?db' p = Some (view_of_row r)"
      proof (cases "row_live s p new")
        case here: True
        then have r: "r = new" and at: "f_storage old = s" "f_path old = p" and ln: "is_live new"
          using l new(2) True unfolding live by (auto simp: row_live_def)
        show ?thesis
        proof (cases "content_changed old new")
          case True
          then show ?thesis unfolding known using r v at ln by simp
        next
          case False
          then have lo: "is_live old" and vo: "visible old" and view: "view_of_row old = view_of_row new"
            using v new(1) \<open>f_path new = f_path old\<close>
            by (auto simp: content_changed_def r visible_def is_live_def view_of_row_def)
          have "live_row s p db = Some old"
            unfolding live_row_eq_Some [OF inv(2)] using old lo at by (simp add: row_live_def)
          from changelog_exact_someD [OF exact this vo] show ?thesis
            unfolding known using False at ln r view by simp
        qed
      next
        case here: False
        then have o: "\<not> row_live s p old" and r: "live_row s p db = Some r"
          using l unfolding live by (auto split: if_splits)
        then have "\<not> (f_storage old = s \<and> f_path old = p \<and> (is_live old \<or> is_live new))"
          using here True new(2) by (auto simp: row_live_def)
        then show ?thesis
          unfolding known using changelog_exact_someD [OF exact r v] visible_live [of new] by auto
      qed
    qed
  qed
qed

lemma exact_delete:
  assumes exact: "changelog_exact v n s db" and inv: "files_inv db"
    and twin: "\<And>old. row_get f_id i (fd_files db) = Some old \<Longrightarrow> no_twin old db"
  shows "changelog_exact v n s (delete_row now i db)"
proof (cases "row_get f_id i (fd_files db)")
  case None
  then show ?thesis using exact by (simp add: delete_row_def)
next
  case (Some old)
  have inv': "keys_ok f_id (fd_files db)" "live_unique (fd_files db)" using inv by (auto simp: files_inv_def)
  have old: "old \<in> set (fd_files db)" "f_id old = i" using row_get_SomeD [OF Some] by auto
  have st: "f_storage old \<in> set (fd_storages db)" using inv old by (auto simp: files_inv_def)
  let ?db' = "delete_row now i db"
  have live: "live_row s p ?db' = (if row_live s p old then None else live_row s p db)" for p
    by (rule live_row_delete [OF inv'(2,1) old(1)]) (simp add: delete_row_def Some Let_def old(2))
  have known: "known v n s ?db' p = (if f_storage old = s \<and> f_path old = p then None else known v n s db p)" for p
    using st changelog_exact_lenD [OF exact]
    by (simp add: delete_row_def Some Let_def known_delete) (simp add: known_def)
  have len: "n \<le> length (fd_events ?db')"
    unfolding delete_row_def Some option.simps Let_def
    by (rule le_trans [OF _ trigger_events_grow(2)]) (simp add: changelog_exact_lenD [OF exact])
  have none: "live_row s p db = None" if "f_storage old = s" "f_path old = p" "\<not> is_live old" for p
    using twin [OF Some] that by (simp add: no_twin_def)
  show ?thesis
  proof (rule changelog_exactI [OF len])
    fix p assume l: "live_row s p ?db' = None"
    then have "row_live s p old \<or> live_row s p db = None" unfolding live by (auto split: if_splits)
    then show "known v n s ?db' p = None"
      unfolding known using changelog_exact_noneD [OF exact] by (auto simp: row_live_def)
  next
    fix p r assume l: "live_row s p ?db' = Some r" and v: "visible r"
    then have "\<not> row_live s p old" and r: "live_row s p db = Some r" unfolding live by (auto split: if_splits)
    then have "\<not> (f_storage old = s \<and> f_path old = p)" using none by (auto simp: row_live_def)
    then show "known v n s ?db' p = Some (view_of_row r)"
      unfolding known using changelog_exact_someD [OF exact r v] by auto
  qed
qed

section \<open>The invariant of the tables\<close>

definition events_ok :: "files_db \<Rightarrow> bool" where
  "events_ok db \<longleftrightarrow> sorted_wrt (<) (map fe_id (fd_events db)) \<and> 0 \<le> fd_seq db \<and>
     (\<forall>e \<in> set (fd_events db). 0 < fe_id e \<and> fe_id e \<le> fd_seq db)"

lemma events_ok_row_event [intro]: "events_ok db \<Longrightarrow> events_ok (row_event op r now db)"
  by (fastforce simp: events_ok_def row_event_def sorted_wrt_append)

lemma events_ok_triggers:
  "events_ok db \<Longrightarrow> events_ok (files_sync_event_insert r now db)"
  "events_ok db \<Longrightarrow> events_ok (files_sync_event_delete r now db)"
  "events_ok db \<Longrightarrow> events_ok (files_sync_event_update old new now db)"
  by (auto simp: files_sync_event_insert_def files_sync_event_delete_def files_sync_event_update_def Let_def)

lemma events_ok_cong:
  "fd_events db' = fd_events db \<Longrightarrow> fd_seq db' = fd_seq db \<Longrightarrow> events_ok db' = events_ok db"
  by (simp add: events_ok_def)

lemma files_inv_alt:
  "files_inv db \<longleftrightarrow> keys_ok f_id (fd_files db) \<and> live_unique (fd_files db) \<and>
     (\<forall>r \<in> set (fd_files db). f_storage r \<in> set (fd_storages db)) \<and> events_ok db"
  by (auto simp: files_inv_def events_ok_def)

lemma inv_insert:
  assumes inv: "files_inv db" and ok: "insert_row r now db = Inr db'" and fresh: "f_id r \<notin> f_id ` set (fd_files db)"
  shows "files_inv db'"
proof -
  let ?d = "db\<lparr>fd_files := fd_files db @ [r]\<rparr>"
  have free: "is_live r \<Longrightarrow> live_row (f_storage r) (f_path r) db = None"
    and st: "f_storage r \<in> set (fd_storages db)"
    and db': "db' = files_sync_event_insert r now ?d"
    using ok by (auto simp: insert_row_def split: if_splits)
  have "events_ok ?d" using inv events_ok_cong [of ?d db] by (simp add: files_inv_alt)
  then have "events_ok db'" unfolding db' by (rule events_ok_triggers)
  moreover have "keys_ok f_id (fd_files db @ [r])"
    using inv fresh by (auto simp: files_inv_alt keys_ok_def)
  moreover have "live_unique (fd_files db @ [r])"
    using inv free unfolding live_unique_append by (auto simp: files_inv_alt live_row_None_iff)
  ultimately show ?thesis using inv st by (auto simp: files_inv_alt db')
qed

lemma inv_update:
  assumes inv: "files_inv db" and old: "old \<in> set (fd_files db)"
    and new: "f_id new = f_id old" "f_storage new = f_storage old" and free: "\<not> path_taken new db"
  shows "files_inv (files_sync_event_update old new now (put_file new db))"
proof -
  have "events_ok (put_file new db)"
    using inv events_ok_cong [of "put_file new db" db] by (simp add: files_inv_alt)
  then have "events_ok (files_sync_event_update old new now (put_file new db))" by (rule events_ok_triggers)
  moreover have "keys_ok f_id (map (\<lambda>x. if f_id x = f_id new then new else x) (fd_files db))"
    using inv by (intro keys_ok_map) (auto simp: files_inv_alt)
  moreover have "live_unique (map (\<lambda>x. if f_id x = f_id new then new else x) (fd_files db))"
    using inv free by (intro live_unique_put) (auto simp: files_inv_alt path_taken_def list_ex_iff)
  ultimately show ?thesis using inv old new by (auto simp: files_inv_alt)
qed

lemma inv_delete_row: "files_inv db \<Longrightarrow> files_inv (delete_row now i db)"
proof (cases "row_get f_id i (fd_files db)")
  case (Some old)
  assume inv: "files_inv db"
  let ?d = "db\<lparr>fd_files := row_del (\<lambda>x. f_id x = i) (fd_files db),
    fd_chunks := filter (\<lambda>c. ck_file c \<noteq> i) (fd_chunks db),
    fd_replicas := filter (\<lambda>r. rp_chunk r \<notin> set (map ck_id (filter (\<lambda>c. ck_file c = i) (fd_chunks db)))) (fd_replicas db)\<rparr>"
  have "delete_row now i db = files_sync_event_delete old now ?d"
    by (simp add: delete_row_def Some Let_def)
  moreover have "events_ok ?d" using inv by (simp add: files_inv_alt events_ok_def)
  ultimately have "events_ok (delete_row now i db)" using events_ok_triggers(2) by simp
  moreover have "fd_files (delete_row now i db) = row_del (\<lambda>x. f_id x = i) (fd_files db)"
    "fd_storages (delete_row now i db) = fd_storages db"
    by (simp_all add: delete_row_def Some Let_def)
  ultimately show ?thesis
    using inv by (auto simp: files_inv_alt row_del_def keys_ok_def distinct_map_filter live_unique_filter)
qed (simp add: delete_row_def)

lemma inv_delete_rows: "files_inv db \<Longrightarrow> files_inv (delete_rows now ids db)"
  unfolding delete_rows_def by (induction ids arbitrary: db) (auto simp: inv_delete_row)

text \<open>The changelog is only ever extended.\<close>

definition events_extend :: "files_db \<Rightarrow> files_db \<Rightarrow> bool" where
  "events_extend db db' \<longleftrightarrow> (\<exists>new. fd_events db' = fd_events db @ new)"

lemma events_extend_refl: "fd_events db' = fd_events db \<Longrightarrow> events_extend db db'"
  by (simp add: events_extend_def)

lemma events_extend_trans: "events_extend a b \<Longrightarrow> events_extend b c \<Longrightarrow> events_extend a c"
  by (auto simp: events_extend_def)

lemma events_extend_row_event: "events_extend db d \<Longrightarrow> events_extend db (row_event op r now d)"
  by (auto simp: events_extend_def row_event_def)

lemma events_extend_triggers:
  "events_extend db d \<Longrightarrow> events_extend db (files_sync_event_insert r now d)"
  "events_extend db d \<Longrightarrow> events_extend db (files_sync_event_delete r now d)"
  "events_extend db d \<Longrightarrow> events_extend db (files_sync_event_update old new now d)"
  by (simp_all add: files_sync_event_insert_def files_sync_event_delete_def files_sync_event_update_def
      Let_def events_extend_row_event)

lemmas events_extend_fire = events_extend_triggers [OF events_extend_refl]

lemma events_extend_insert: "insert_row r now db = Inr db' \<Longrightarrow> events_extend db db'"
  by (auto simp: insert_row_def split: if_splits intro!: events_extend_fire)

lemma events_extend_update_row: "update_row f now i db = Inr db' \<Longrightarrow> events_extend db db'"
  by (auto simp: update_row_def Let_def events_extend_refl split: option.splits if_splits
      intro!: events_extend_fire)

lemma events_extend_update_rows: "update_rows f now is db = Inr db' \<Longrightarrow> events_extend db db'"
proof (induction "is" arbitrary: db)
  case (Cons i "is")
  obtain d where d: "update_row f now i db = Inr d" and rest: "update_rows f now is d = Inr db'"
    using Cons.prems by (auto simp: res_bind_def split: sum.splits)
  show ?case by (rule events_extend_trans [OF events_extend_update_row [OF d] Cons.IH [OF rest]])
qed (simp add: events_extend_refl)

lemma events_extend_update_where: "update_where P f now db = Inr (db', k) \<Longrightarrow> events_extend db db'"
  using events_extend_update_rows by (auto simp: update_where_def Let_def res_bind_def split: sum.splits)

lemma events_extend_delete_rows: "events_extend db (delete_rows now is db)"
proof -
  have "events_extend db (delete_row now i db)" for i db
    by (auto simp: delete_row_def Let_def events_extend_refl split: option.split intro!: events_extend_fire)
  then show ?thesis unfolding delete_rows_def
    by (induction "is" arbitrary: db) (auto intro: events_extend_refl events_extend_trans)
qed

section \<open>Statements over many rows\<close>

text \<open>What a statement may do to a row: keep its identity, and move it only while it is live.\<close>

definition row_edit :: "(file_row \<Rightarrow> file_row) \<Rightarrow> bool" where
  "row_edit f \<longleftrightarrow> (\<forall>r. f_id (f r) = f_id r \<and> f_storage (f r) = f_storage r)"

definition moves_only_live :: "(file_row \<Rightarrow> bool) \<Rightarrow> (file_row \<Rightarrow> file_row) \<Rightarrow> bool" where
  "moves_only_live P f \<longleftrightarrow> (\<forall>r. P r \<longrightarrow> f_path (f r) = f_path r \<or> is_live r)"

lemma touch_simps [simp]:
  "f_id (files_touch_updated_at old new now) = f_id new"
  "f_path (files_touch_updated_at old new now) = f_path new"
  "f_storage (files_touch_updated_at old new now) = f_storage new"
  "f_deleted (files_touch_updated_at old new now) = f_deleted new"
  "f_uploaded (files_touch_updated_at old new now) = f_uploaded new"
  "f_size (files_touch_updated_at old new now) = f_size new"
  "f_hash (files_touch_updated_at old new now) = f_hash new"
  "f_source_mtime (files_touch_updated_at old new now) = f_source_mtime new"
  "f_chunk_size (files_touch_updated_at old new now) = f_chunk_size new"
  by (simp_all add: files_touch_updated_at_def)

lemma row_get_replace:
  "i \<noteq> f_id new \<Longrightarrow> row_get f_id i (map (\<lambda>x. if f_id x = f_id new then new else x) rows) = row_get f_id i rows"
  by (induction rows) auto

lemma row_get_put_file:
  "i \<noteq> f_id new \<Longrightarrow> row_get f_id i (fd_files (put_file new db)) = row_get f_id i (fd_files db)"
  unfolding fd_files_put by (rule row_get_replace)

lemma update_row_InrE:
  assumes "update_row f now i db = Inr db'" and "row_edit f" and "files_inv db"
  obtains "row_get f_id i (fd_files db) = None" "db' = db"
  | old new where "row_get f_id i (fd_files db) = Some old" "old \<in> set (fd_files db)"
      "new = files_touch_updated_at old (f old) now" "f_id new = f_id old" "f_storage new = f_storage old"
      "f_id old = i" "\<not> path_taken new db" "db' = files_sync_event_update old new now (put_file new db)"
proof (cases "row_get f_id i (fd_files db)")
  case None
  then have "db' = db" using assms(1) by (simp add: update_row_def)
  then show ?thesis by (rule that(1) [OF None])
next
  case (Some old)
  let ?new = "files_touch_updated_at old (f old) now"
  have "update_row f now i db = (if path_taken ?new db then Inl UniqueViolation
      else Inr (files_sync_event_update old ?new now (put_file ?new db)))"
    by (simp only: update_row_def Some option.simps Let_def)
  then have "\<not> path_taken ?new db" and "db' = files_sync_event_update old ?new now (put_file ?new db)"
    using assms(1) by (simp_all split: if_splits)
  then show ?thesis
    using that(2) [OF Some _ refl] row_get_SomeD [OF Some] assms(2) unfolding row_edit_def by simp
qed

lemma update_rows_ok:
  assumes "update_rows f now is db = Inr db'" and "row_edit f" and "files_inv db" and "distinct is"
    and "\<And>i r. i \<in> set is \<Longrightarrow> row_get f_id i (fd_files db) = Some r \<Longrightarrow> f_path (f r) = f_path r \<or> is_live r"
    and "changelog_exact v n s db"
  shows "files_inv db' \<and> changelog_exact v n s db'"
  using assms
proof (induction "is" arbitrary: db)
  case (Cons i "is")
  obtain d where d: "update_row f now i db = Inr d" and rest: "update_rows f now is d = Inr db'"
    using Cons.prems(1) by (auto simp: res_bind_def split: sum.splits)
  show ?case
  proof (rule update_row_InrE [OF d Cons.prems(2,3)], goal_cases)
    case 1
    show ?thesis using Cons.IH [OF rest] Cons.prems(2-6) 1 by auto
  next
    case (2 old new)
    have inv: "files_inv d" unfolding 2(8) by (rule inv_update [OF Cons.prems(3) 2(2,4,5,7)])
    have "f_path new = f_path old \<or> no_twin old db"
      using Cons.prems(5) [of i old] 2(1,3) by (auto simp: no_twin_def)
    then have exact: "changelog_exact v n s d"
      unfolding 2(8) using Cons.prems(3) 
      by (intro exact_update [OF Cons.prems(6) _ _ 2(2,4,5,7)]) (auto simp: files_inv_alt)
    have same: "row_get f_id j (fd_files d) = row_get f_id j (fd_files db)" if "j \<in> set is" for j
      using that Cons.prems(4) 2(4,6) row_get_put_file [of j new db] unfolding 2(8) by auto
    show ?thesis
      using Cons.IH [OF rest Cons.prems(2) inv _ _ exact] Cons.prems(4,5) same by auto
  qed
qed simp

lemma update_where_ok:
  assumes "update_where P f now db = Inr (db', k)" and "row_edit f" and "files_inv db"
    and "moves_only_live P f" and "changelog_exact v n s db"
  shows "files_inv db' \<and> changelog_exact v n s db'"
proof -
  have keys: "keys_ok f_id (fd_files db)" using assms(3) by (simp add: files_inv_alt)
  have run: "update_rows f now (map f_id (filter P (fd_files db))) db = Inr db'"
    using assms(1) by (auto simp: update_where_def Let_def res_bind_def split: sum.splits)
  show ?thesis
  proof (rule update_rows_ok [OF run assms(2,3)])
    show "distinct (map f_id (filter P (fd_files db)))" using keys by (simp add: keys_ok_def distinct_map_filter)
    show "f_path (f r) = f_path r \<or> is_live r"
      if listed: "i \<in> set (map f_id (filter P (fd_files db)))" and r: "row_get f_id i (fd_files db) = Some r" for i r
    proof -
      obtain x where "x \<in> set (fd_files db)" "f_id x = i" "P x" using listed by auto
      then have "row_get f_id i (fd_files db) = Some x" using row_get_Some_iff [OF keys] by simp
      then have "x = r" using r by simp
      then show ?thesis using assms(4) \<open>P x\<close> by (simp add: moves_only_live_def)
    qed
  qed (rule assms(5))
qed

text \<open>Removing live rows is announced exactly as well.\<close>

lemma delete_rows_ok:
  assumes "files_inv db" and "changelog_exact v n s db"
    and "\<And>i r. i \<in> set is \<Longrightarrow> row_get f_id i (fd_files db) = Some r \<Longrightarrow> no_twin r db"
  shows "files_inv (delete_rows now is db) \<and> changelog_exact v n s (delete_rows now is db)"
  using assms unfolding delete_rows_def
proof (induction "is" arbitrary: db)
  case (Cons i "is")
  let ?d = "delete_row now i db"
  have inv: "files_inv ?d" using Cons.prems(1) by (rule inv_delete_row)
  have exact: "changelog_exact v n s ?d"
    by (rule exact_delete [OF Cons.prems(2,1)]) (use Cons.prems(3) in auto)
  have sub: "row_get f_id j (fd_files ?d) = Some r \<Longrightarrow> row_get f_id j (fd_files db) = Some r" for j r
    using Cons.prems(1) row_get_Some_iff [of f_id "fd_files db" j r] row_get_Some_iff [of f_id "fd_files ?d" j r] inv
    by (auto simp: files_inv_alt delete_row_def Let_def row_del_def split: option.splits)
  have "no_twin r ?d" if "j \<in> set is" "row_get f_id j (fd_files ?d) = Some r" for j r
  proof -
    have "no_twin r db" using Cons.prems(3) [of j r] sub [OF that(2)] that(1) by simp
    moreover have "set (fd_files ?d) \<subseteq> set (fd_files db)"
      by (auto simp: delete_row_def Let_def row_del_def split: option.splits)
    ultimately show ?thesis by (auto simp: no_twin_def live_row_None_iff)
  qed
  then show ?case using Cons.IH [OF inv exact] by simp
qed simp

section \<open>What deleting rows leaves\<close>

lemma delete_row_tables:
  "fd_files (delete_row now i db) = filter (\<lambda>f. f_id f \<noteq> i) (fd_files db)"
  "fd_channels (delete_row now i db) = fd_channels db"
proof -
  have none: "row_get f_id i (fd_files db) = None \<Longrightarrow> filter (\<lambda>f. f_id f \<noteq> i) (fd_files db) = fd_files db"
    by (auto simp: row_get_None_iff filter_id_conv image_iff)
  show "fd_files (delete_row now i db) = filter (\<lambda>f. f_id f \<noteq> i) (fd_files db)"
    "fd_channels (delete_row now i db) = fd_channels db"
    using none by (auto simp: delete_row_def Let_def row_del_def files_sync_event_delete_def split: option.splits)
qed

lemma delete_row_keeps_copy:
  assumes "rp \<in> set (fd_replicas db)" "\<forall>k\<in>set (fd_chunks db). ck_id k = rp_chunk rp \<longrightarrow> ck_file k \<noteq> i"
  shows "rp \<in> set (fd_replicas (delete_row now i db))"
  using assms by (auto simp: delete_row_def Let_def files_sync_event_delete_def split: option.splits)

lemma delete_row_chunks: "set (fd_chunks (delete_row now i db)) \<subseteq> set (fd_chunks db)"
  by (auto simp: delete_row_def Let_def files_sync_event_delete_def row_event_def split: option.splits)

lemma delete_rows_tables:
  "fd_files (delete_rows now is db) = filter (\<lambda>f. f_id f \<notin> set is) (fd_files db) \<and>
   fd_channels (delete_rows now is db) = fd_channels db"
  unfolding delete_rows_def
  by (induction "is" arbitrary: db) (auto simp: delete_row_tables intro: filter_cong)

lemma delete_rows_keep_copy:
  assumes "rp \<in> set (fd_replicas db)" "\<forall>k\<in>set (fd_chunks db). ck_id k = rp_chunk rp \<longrightarrow> ck_file k \<notin> set is"
  shows "rp \<in> set (fd_replicas (delete_rows now is db))"
  using assms unfolding delete_rows_def
proof (induction "is" arbitrary: db)
  case (Cons i "is")
  have "rp \<in> set (fd_replicas (delete_row now i db))"
    by (rule delete_row_keeps_copy) (use Cons.prems in auto)
  then show ?case using Cons.IH [of "delete_row now i db"] Cons.prems(2) delete_row_chunks [of now i db] by fastforce
qed simp

end
