(* ===== verification/FilesRepo.thy ===== *)
theory FilesRepo
  imports FilesDb
begin

text \<open>
  The repository of files and chunks (src/sarca/src/repositories/files.rs). Every operation takes
  the tables and returns its result and the tables afterwards; a failed statement or transaction
  leaves them as they were. The id of a new row and the time are arguments, and the statements
  run against a database that answers.
\<close>

type_synonym 'a db_op = "files_db \<Rightarrow> 'a sarca_result \<times> files_db"

section \<open>Pure helpers\<close>

definition next_segment :: "string \<Rightarrow> string \<Rightarrow> string option" where
  "next_segment path prefix =
     (case (if prefix = [] then Some path else strip_prefix prefix path) of
        None \<Rightarrow> None
      | Some rest \<Rightarrow> (case split_on CHR ''/'' rest of
          [] \<Rightarrow> None | segment # _ \<Rightarrow> if segment = [] then None else Some segment))"

definition i64_max :: nat where
  "i64_max = 2 ^ 63 - 1"

definition byte_slice :: "string \<Rightarrow> nat \<Rightarrow> nat \<Rightarrow> string" where
  "byte_slice s a b = take (b - a) (drop a s)"

definition numbered_path :: "string \<Rightarrow> nat \<Rightarrow> string \<Rightarrow> string" where
  "numbered_path stem n suffix = stem @ '' ('' @ show_nat n @ '')'' @ suffix"

text \<open>The number in an existing \<open>stem (n)suffix\<close>; the caller has checked that it is made of digits.\<close>

definition duplicate_index :: "string \<Rightarrow> string \<Rightarrow> string \<Rightarrow> nat option" where
  "duplicate_index stem suffix path =
     (let number_start = length stem + 2
      in if length path \<le> number_start + length suffix + 1 then None
         else (case parse_unsigned i64_max (byte_slice path number_start (length path - length suffix - 1)) of
                 None \<Rightarrow> None | Some i \<Rightarrow> if 0 < i then Some i else None))"

fun first_gap :: "nat \<Rightarrow> nat list \<Rightarrow> nat" where
  "first_gap prev [] = prev + 1"
| "first_gap prev (i # is) = (if prev \<noteq> i - 1 then prev + 1 else first_gap i is)"

definition pick_duplicate_path :: "string \<Rightarrow> string \<Rightarrow> string list \<Rightarrow> string" where
  "pick_duplicate_path stem suffix existing =
     (let base = stem @ suffix
      in if \<not> list_ex (\<lambda>path. path = base) existing then base
         else if length existing = 1 then stem @ '' (1)'' @ suffix
         else numbered_path stem
                (first_gap 0 (sort (List.map_filter (duplicate_index stem suffix)
                   (filter (\<lambda>path. path \<noteq> base) existing)))) suffix)"

definition map_rewrite_path_error :: "sql_error \<Rightarrow> sarca_error" where
  "map_rewrite_path_error e =
     (case e of UniqueViolation \<Rightarrow> AlreadyExists ''File with such name'' | FkViolation \<Rightarrow> Unknown)"

subsection \<open>Directory listings\<close>

record fs_element =
  el_path :: string
  el_name :: string
  el_size :: int
  el_is_file :: bool
  el_has_thumb :: bool

record listing_acc =
  la_name :: string
  la_is_file :: bool
  la_file_size :: int
  la_folder_size_sum :: int
  la_has_thumb :: bool

definition listing_entry :: "string \<Rightarrow> listing_acc list \<Rightarrow> listing_acc" where
  "listing_entry name accs = (case row_get la_name name accs of
     Some a \<Rightarrow> a
   | None \<Rightarrow> \<lparr>la_name = name, la_is_file = False, la_file_size = 0, la_folder_size_sum = 0, la_has_thumb = False\<rparr>)"

definition listing_step :: "string \<Rightarrow> file_row \<Rightarrow> listing_acc list \<Rightarrow> listing_acc list" where
  "listing_step prefix row accs = (case next_segment (f_path row) prefix of
     None \<Rightarrow> accs
   | Some name \<Rightarrow>
       (let acc = listing_entry name accs
        in row_put la_name
             (if prefix @ name = f_path row
              then acc\<lparr>la_is_file := True, la_file_size := f_size row, la_has_thumb := (f_thumb row \<noteq> None)\<rparr>
              else acc\<lparr>la_folder_size_sum := la_folder_size_sum acc + f_size row\<rparr>) accs))"

text \<open>The hash map is a table of rows in the order of first appearance; its order is not observable.\<close>

definition aggregate_dir_listing :: "file_row list \<Rightarrow> string \<Rightarrow> fs_element list" where
  "aggregate_dir_listing rows prefix =
     map (\<lambda>acc. \<lparr>el_path = prefix @ la_name acc, el_name = la_name acc,
                   el_size = (if la_is_file acc then la_file_size acc else la_folder_size_sum acc),
                   el_is_file = la_is_file acc, el_has_thumb = la_has_thumb acc\<rparr>)
       (fold (listing_step prefix) rows [])"

definition dir_prefix :: "string \<Rightarrow> string" where
  "dir_prefix prefix = (if prefix = [] then prefix else prefix @ ''/'')"

definition list_dir :: "uuid \<Rightarrow> string \<Rightarrow> files_db \<Rightarrow> fs_element list" where
  "list_dir storage prefix db =
     (let p = dir_prefix prefix
      in aggregate_dir_listing
           (filter (\<lambda>r. f_storage r = storage \<and> (p = [] \<or> sql_starts_with (f_path r) p) \<and> f_uploaded r \<and> is_live r)
              (fd_files db)) p)"

definition list_trash :: "uuid \<Rightarrow> string \<Rightarrow> files_db \<Rightarrow> fs_element list" where
  "list_trash storage prefix db =
     (let p = dir_prefix prefix
      in aggregate_dir_listing
           (filter (\<lambda>r. f_storage r = storage \<and> (p = [] \<or> sql_starts_with (f_path r) p) \<and> f_uploaded r \<and> \<not> is_live r)
              (fd_files db)) p)"

section \<open>Lookups\<close>

definition get_file_by_path :: "string \<Rightarrow> uuid \<Rightarrow> files_db \<Rightarrow> file_row sarca_result" where
  "get_file_by_path path storage db = (case live_row storage path db of
     None \<Rightarrow> Inl (DoesNotExist ''such file'') | Some r \<Rightarrow> Inr r)"

definition get_by_id :: "uuid \<Rightarrow> files_db \<Rightarrow> file_row sarca_result" where
  "get_by_id i db = (case row_get f_id i (fd_files db) of
     None \<Rightarrow> Inl (DoesNotExist ''such file'') | Some r \<Rightarrow> Inr r)"

definition live_under :: "uuid \<Rightarrow> string \<Rightarrow> file_row \<Rightarrow> bool" where
  "live_under storage prefix r \<longleftrightarrow> f_storage r = storage \<and> is_live r \<and> sql_starts_with (f_path r) prefix"

definition trashed_under :: "uuid \<Rightarrow> string \<Rightarrow> file_row \<Rightarrow> bool" where
  "trashed_under storage prefix r \<longleftrightarrow> f_storage r = storage \<and> \<not> is_live r \<and> sql_starts_with (f_path r) prefix"

definition ends_in_slash_like :: "string \<Rightarrow> bool" where
  "ends_in_slash_like path = sql_like ''%/'' path"

definition sum_uploaded_size_under :: "uuid \<Rightarrow> string \<Rightarrow> files_db \<Rightarrow> int" where
  "sum_uploaded_size_under storage prefix db =
     sum_list (map f_size (filter (\<lambda>r. live_under storage prefix r \<and> f_uploaded r \<and> \<not> ends_in_slash_like (f_path r))
       (fd_files db)))"

definition list_uploaded_files_under :: "uuid \<Rightarrow> string \<Rightarrow> files_db \<Rightarrow> file_row list" where
  "list_uploaded_files_under storage prefix db =
     sort_key f_path (filter (\<lambda>r. live_under storage prefix r \<and> f_uploaded r \<and> \<not> ends_in_slash_like (f_path r))
       (fd_files db))"

definition list_live_under :: "uuid \<Rightarrow> string \<Rightarrow> files_db \<Rightarrow> file_row list" where
  "list_live_under storage prefix db = sort_key f_path (filter (live_under storage prefix) (fd_files db))"

definition live_path_exists :: "string \<Rightarrow> uuid \<Rightarrow> files_db \<Rightarrow> bool" where
  "live_path_exists path storage db = list_ex (row_live storage path) (fd_files db)"

definition live_basename_taken :: "string \<Rightarrow> uuid \<Rightarrow> files_db \<Rightarrow> bool" where
  "live_basename_taken path storage db =
     (let file_path = trim_end_matches CHR ''/'' path
      in live_path_exists file_path storage db \<or> live_path_exists (file_path @ ''/'') storage db)"

text \<open>SQLite's \<open>lower\<close> folds ASCII letters only.\<close>

definition search :: "string \<Rightarrow> string \<Rightarrow> uuid \<Rightarrow> files_db \<Rightarrow> (string \<times> bool) list" where
  "search search_path path storage db =
     map (\<lambda>r. (f_path r, \<not> ends_in_slash_like (f_path r)))
       (filter (\<lambda>r. f_storage r = storage \<and> is_live r \<and>
          sql_like (to_ascii_lowercase path @ ''%'' @ to_ascii_lowercase search_path @ ''%'')
            (to_ascii_lowercase (f_path r))) (fd_files db))"

text \<open>
  The pattern four operations share: a path without a trailing slash names a folder when rows of
  the wanted kind lie under it. The result is the folder prefix, or nothing for a file.
\<close>

definition probe_folder :: "(string \<Rightarrow> file_row \<Rightarrow> bool) \<Rightarrow> string \<Rightarrow> files_db \<Rightarrow> string option" where
  "probe_folder beneath path db =
     (if is_folder_path path then Some path
      else if list_ex (beneath (path @ ''/'')) (fd_files db) then Some (path @ ''/'') else None)"

definition list_trashed_ids :: "uuid \<Rightarrow> string \<Rightarrow> files_db \<Rightarrow> uuid list" where
  "list_trashed_ids storage path db =
     map f_id (filter (case probe_folder (trashed_under storage) path db of
         None \<Rightarrow> (\<lambda>r. f_storage r = storage \<and> \<not> is_live r \<and> f_path r = path)
       | Some prefix \<Rightarrow> trashed_under storage prefix) (fd_files db))"

definition list_live_ids_at_path :: "uuid \<Rightarrow> string \<Rightarrow> files_db \<Rightarrow> uuid list" where
  "list_live_ids_at_path storage path db =
     map f_id (filter (case probe_folder (live_under storage) path db of
         None \<Rightarrow> row_live storage path
       | Some prefix \<Rightarrow> live_under storage prefix) (fd_files db))"

definition list_all_trashed_ids :: "uuid \<Rightarrow> files_db \<Rightarrow> uuid list" where
  "list_all_trashed_ids storage db =
     map f_id (filter (\<lambda>r. f_storage r = storage \<and> \<not> is_live r) (fd_files db))"

text \<open>
  \<open>deleted_at < cutoff\<close> compares two texts: \<open>datetime('now')\<close> stored
  \<open>YYYY-MM-DD HH:MM:SS\<close>, and the bound \<open>DateTime<Utc>\<close> is encoded as
  \<open>YYYY-MM-DDTHH:MM:SS...\<close>. A space sorts before \<open>T\<close>, so a time of the cutoff's own day
  is always the smaller text. Times are in seconds, days begin at midnight UTC.
\<close>

definition datetime_text_less :: "int \<Rightarrow> int \<Rightarrow> bool" where
  "datetime_text_less stored bound \<longleftrightarrow> stored div 86400 \<le> bound div 86400"

definition list_expired_trashed_ids :: "int \<Rightarrow> int \<Rightarrow> files_db \<Rightarrow> (uuid \<times> uuid) list" where
  "list_expired_trashed_ids now older_than_days db =
     (let cutoff = now - older_than_days * 86400
      in map (\<lambda>r. (f_id r, f_storage r))
           (filter (\<lambda>r. case f_deleted r of None \<Rightarrow> False | Some d \<Rightarrow> datetime_text_less d cutoff) (fd_files db)))"

definition list_stale_upload_ids :: "files_db \<Rightarrow> uuid list" where
  "list_stale_upload_ids db =
     map f_id (filter (\<lambda>r. \<not> f_uploaded r \<and> is_live r \<and> \<not> ends_in_slash_like (f_path r) \<and>
       \<not> list_ex (\<lambda>c. ck_file c = f_id r) (fd_chunks db)) (fd_files db))"

definition canonicalize_live_path :: "uuid \<Rightarrow> string \<Rightarrow> files_db \<Rightarrow> string sarca_result" where
  "canonicalize_live_path storage path db =
     (if is_folder_path path then
        (if live_path_exists path storage db then Inr path else Inl (DoesNotExist ''file''))
      else if live_path_exists path storage db then Inr path
      else (let folder = path @ ''/''
            in if live_path_exists folder storage db \<or> list_live_ids_at_path storage folder db \<noteq> []
               then Inr folder else Inl (DoesNotExist ''file'')))"

section \<open>Creating rows\<close>

definition new_file_row :: "uuid \<Rightarrow> int \<Rightarrow> string \<Rightarrow> bool \<Rightarrow> in_file \<Rightarrow> file_row" where
  "new_file_row i now path uploaded in_obj =
     \<lparr>f_id = i, f_path = path, f_size = if_size in_obj, f_storage = if_storage in_obj, f_uploaded = uploaded,
      f_thumb = None, f_thumb_msg = None, f_preview = None, f_preview_msg = None,
      f_chunk_size = if_chunk_size in_obj, f_deleted = None, f_created = now, f_updated = now,
      f_source_created = if_source_created in_obj, f_source_mtime = if_source_mtime in_obj,
      f_hash = if_hash in_obj\<rparr>"

definition create_file_row :: "uuid \<Rightarrow> int \<Rightarrow> in_file \<Rightarrow> bool \<Rightarrow> file_row db_op" where
  "create_file_row i now in_obj uploaded db =
     (let r = new_file_row i now (if_path in_obj) uploaded in_obj
      in case insert_row r now db of
           Inl FkViolation \<Rightarrow> (Inl (DoesNotExist ''such storage''), db)
         | Inl UniqueViolation \<Rightarrow> (Inl (AlreadyExists ''File with such name''), db)
         | Inr db' \<Rightarrow> (Inr r, db'))"

definition create_folder :: "uuid \<Rightarrow> int \<Rightarrow> in_file \<Rightarrow> file_row db_op" where
  "create_folder i now in_obj = create_file_row i now in_obj True"

text \<open>The last segment is cut at its first dot.\<close>

definition split_stem :: "string \<Rightarrow> string \<times> string" where
  "split_stem path =
     (let segs = split_on CHR ''/'' path; name = last segs
      in case split_once CHR ''.'' name of
           None \<Rightarrow> (join_with CHR ''/'' (butlast segs @ [name]), [])
         | Some (stem, suffix) \<Rightarrow> (join_with CHR ''/'' (butlast segs @ [stem]), CHR ''.'' # suffix))"

definition is_duplicate_of :: "string \<Rightarrow> string \<Rightarrow> string \<Rightarrow> bool" where
  "is_duplicate_of stem suffix path \<longleftrightarrow> path = stem @ suffix \<or>
     (starts_with stem path \<and> ends_with suffix path \<and>
      (let middle = byte_slice path (length stem) (length path - length suffix);
           digits = byte_slice middle 2 (length middle - 1)
       in starts_with '' ('' middle \<and> ends_with '')'' middle \<and> list_all is_digit digits \<and> digits \<noteq> []))"

text \<open>The rows that the query finds, and what the code keeps of them.\<close>

definition duplicate_candidates :: "string \<Rightarrow> string \<Rightarrow> uuid \<Rightarrow> files_db \<Rightarrow> string list" where
  "duplicate_candidates stem suffix storage db =
     filter (is_duplicate_of stem suffix)
       (map f_path (filter (\<lambda>r. f_storage r = storage \<and> is_live r \<and> sql_starts_with (f_path r) stem \<and>
          (f_path r = stem @ suffix \<or> sql_like (stem @ '' (%)'' @ suffix) (f_path r))) (fd_files db)))"

definition max_attempts :: nat where
  "max_attempts = 20"

text \<open>
  One attempt: the scan, then the insertion, in two statements. \<open>others k\<close> is what other requests
  do to the tables between the two statements of attempt \<open>k\<close> (the counter runs down).
\<close>

fun create_attempts ::
  "nat \<Rightarrow> (nat \<Rightarrow> files_db \<Rightarrow> files_db) \<Rightarrow> (nat \<Rightarrow> uuid) \<Rightarrow> int \<Rightarrow> in_file \<Rightarrow> string \<Rightarrow> file_row db_op" where
  "create_attempts 0 others ids now in_obj conflict db = (Inl (AlreadyExists conflict), db)"
| "create_attempts (Suc k) others ids now in_obj conflict db =
     (let (stem, suffix) = split_stem (if_path in_obj);
          path = pick_duplicate_path stem suffix (duplicate_candidates stem suffix (if_storage in_obj) db);
          db1 = others k db;
          r = new_file_row (ids k) now path False in_obj
      in case insert_row r now db1 of
           Inr db' \<Rightarrow> (Inr r, db')
         | Inl UniqueViolation \<Rightarrow> create_attempts k others ids now in_obj path db1
         | Inl FkViolation \<Rightarrow> (Inl (DoesNotExist ''such storage''), db1))"

definition create_file_anyway ::
  "(nat \<Rightarrow> files_db \<Rightarrow> files_db) \<Rightarrow> (nat \<Rightarrow> uuid) \<Rightarrow> int \<Rightarrow> in_file \<Rightarrow> file_row db_op" where
  "create_file_anyway others ids now in_obj db =
     create_attempts max_attempts others ids now in_obj (if_path in_obj) db"

definition insert_cloned_file :: "uuid \<Rightarrow> int \<Rightarrow> file_row \<Rightarrow> string \<Rightarrow> file_row db_op" where
  "insert_cloned_file i now source dest_path db =
     (let r = \<lparr>f_id = i, f_path = dest_path, f_size = f_size source, f_storage = f_storage source,
        f_uploaded = f_uploaded source, f_thumb = f_thumb source, f_thumb_msg = f_thumb_msg source,
        f_preview = f_preview source, f_preview_msg = f_preview_msg source,
        f_chunk_size = f_chunk_size source, f_deleted = None, f_created = now, f_updated = now,
        f_source_created = f_source_created source, f_source_mtime = f_source_mtime source, f_hash = None\<rparr>
      in case insert_row r now db of
           Inl UniqueViolation \<Rightarrow> (Inl (AlreadyExists ''File with such name''), db)
         | Inl FkViolation \<Rightarrow> (Inl Unknown, db)
         | Inr db' \<Rightarrow> (Inr r, db'))"

section \<open>Chunks\<close>

text \<open>The unique indexes on the id and on the file and position, and the foreign key of the file.\<close>

fun insert_chunks :: "chunk_row list \<Rightarrow> files_db \<Rightarrow> files_db option" where
  "insert_chunks [] db = Some db"
| "insert_chunks (k # ks) db =
     (if list_ex (\<lambda>c. ck_id c = ck_id k \<or> ck_file c = ck_file k \<and> ck_position c = ck_position k) (fd_chunks db) \<or>
         row_get f_id (ck_file k) (fd_files db) = None
      then None
      else insert_chunks ks (db\<lparr>fd_chunks := fd_chunks db @ [k]\<rparr>))"

definition create_chunks_batch :: "chunk_row list \<Rightarrow> unit db_op" where
  "create_chunks_batch chunks db = (case insert_chunks chunks db of
     None \<Rightarrow> (Inl Unknown, db) | Some db' \<Rightarrow> (Inr (), db'))"

definition create_chunk_with_replica :: "chunk_row \<Rightarrow> replica_row \<Rightarrow> unit db_op" where
  "create_chunk_with_replica chunk replica db = (case insert_chunks [chunk] db of
     None \<Rightarrow> (Inl Unknown, db)
   | Some db' \<Rightarrow>
       if list_ex (\<lambda>r. rp_id r = rp_id replica \<or> rp_chunk r = rp_chunk replica \<and> rp_channel r = rp_channel replica)
            (fd_replicas db') \<or>
          row_get ck_id (rp_chunk replica) (fd_chunks db') = None \<or>
          row_get sc_id (rp_channel replica) (fd_channels db') = None
       then (Inl Unknown, db)
       else (Inr (), db'\<lparr>fd_replicas := fd_replicas db' @ [replica]\<rparr>))"

definition stored_chunk :: "files_db \<Rightarrow> chunk_row \<Rightarrow> bool" where
  "stored_chunk db c = list_ex (\<lambda>r. rp_chunk r = ck_id c \<and> rp_status r = ''uploaded'' \<and> rp_file_id r \<noteq> None)
     (fd_replicas db)"

definition list_stored_chunk_positions :: "uuid \<Rightarrow> files_db \<Rightarrow> (int \<times> uuid) list" where
  "list_stored_chunk_positions fid db =
     map (\<lambda>c. (ck_position c, ck_id c))
       (sort_key ck_position (filter (\<lambda>c. ck_file c = fid \<and> stored_chunk db c) (fd_chunks db)))"

definition list_chunks_with_replica_for_channel :: "uuid \<Rightarrow> uuid \<Rightarrow> files_db \<Rightarrow> (int \<times> string) list" where
  "list_chunks_with_replica_for_channel fid channel db =
     concat (map (\<lambda>c. List.map_filter (\<lambda>r.
           if rp_chunk r = ck_id c \<and> rp_channel r = channel \<and> rp_status r = ''uploaded''
           then map_option (\<lambda>t. (ck_position c, t)) (rp_file_id r) else None) (fd_replicas db))
       (sort_key ck_position (filter (\<lambda>c. ck_file c = fid) (fd_chunks db))))"

definition list_chunks_of_file :: "uuid \<Rightarrow> files_db \<Rightarrow> chunk_row list" where
  "list_chunks_of_file fid db = filter (\<lambda>c. ck_file c = fid) (fd_chunks db)"

section \<open>Derived documents\<close>

text \<open>The rows of the two queries (\<open>SELECT DISTINCT\<close>), and the two columns split into messages.\<close>

definition derived_rows :: "(file_row \<Rightarrow> bool) \<Rightarrow> files_db \<Rightarrow> (int \<times> int option \<times> int option \<times> uuid) list" where
  "derived_rows P db = remdups (concat (map (\<lambda>f.
     map (\<lambda>c. (sc_chat c, f_thumb_msg f, f_preview_msg f, f_storage f))
       (filter (\<lambda>c. sc_storage c = f_storage f) (fd_channels db))) (filter P (fd_files db))))"

definition some_list :: "'a option \<Rightarrow> 'a list" where
  "some_list x = (case x of None \<Rightarrow> [] | Some a \<Rightarrow> [a])"

definition list_derived_messages_for_files :: "uuid list \<Rightarrow> files_db \<Rightarrow> (int \<times> int \<times> uuid) list" where
  "list_derived_messages_for_files ids db =
     concat (map (\<lambda>(chat, thumb, preview, storage).
         map (\<lambda>m. (chat, m, storage)) (some_list thumb @ some_list preview))
       (derived_rows (\<lambda>f. f_id f \<in> set ids) db))"

definition list_derived_messages_for_storage :: "uuid \<Rightarrow> files_db \<Rightarrow> (int \<times> int) list" where
  "list_derived_messages_for_storage storage db =
     concat (map (\<lambda>(chat, thumb, preview, _).
         map (\<lambda>m. (chat, m)) (some_list thumb @ some_list preview))
       (derived_rows (\<lambda>f. f_storage f = storage \<and> (f_thumb_msg f \<noteq> None \<or> f_preview_msg f \<noteq> None)) db))"

definition derived_message_still_referenced :: "int \<Rightarrow> int \<Rightarrow> files_db \<Rightarrow> bool" where
  "derived_message_still_referenced chat message db =
     list_ex (\<lambda>f. list_ex (\<lambda>c. sc_storage c = f_storage f \<and> sc_chat c = chat \<and>
         (f_thumb_msg f = Some message \<or> f_preview_msg f = Some message)) (fd_channels db)) (fd_files db)"

section \<open>Updating rows\<close>

text \<open>An \<open>UPDATE\<close> that the code expects to succeed: a failure becomes the given error.\<close>

definition run_update ::
  "(sql_error \<Rightarrow> sarca_error) \<Rightarrow> (file_row \<Rightarrow> bool) \<Rightarrow> (file_row \<Rightarrow> file_row) \<Rightarrow> int \<Rightarrow> nat db_op" where
  "run_update err P f now db = (case update_where P f now db of
     Inl e \<Rightarrow> (Inl (err e), db) | Inr (db', n) \<Rightarrow> (Inr n, db'))"

definition unknown_error :: "sql_error \<Rightarrow> sarca_error" where
  "unknown_error e = Unknown"

definition set_thumb :: "uuid \<Rightarrow> string \<Rightarrow> int \<Rightarrow> int \<Rightarrow> nat db_op" where
  "set_thumb i thumb message = run_update unknown_error (\<lambda>r. f_id r = i)
     (\<lambda>r. r\<lparr>f_thumb := Some thumb, f_thumb_msg := Some message\<rparr>)"

definition set_preview :: "uuid \<Rightarrow> string \<Rightarrow> int \<Rightarrow> int \<Rightarrow> nat db_op" where
  "set_preview i preview message = run_update unknown_error (\<lambda>r. f_id r = i)
     (\<lambda>r. r\<lparr>f_preview := Some preview, f_preview_msg := Some message\<rparr>)"

definition set_as_uploaded :: "uuid \<Rightarrow> int \<Rightarrow> nat db_op" where
  "set_as_uploaded i = run_update unknown_error (\<lambda>r. f_id r = i) (\<lambda>r. r\<lparr>f_uploaded := True\<rparr>)"

definition replace_content ::
  "uuid \<Rightarrow> string option \<Rightarrow> string \<Rightarrow> in_file \<Rightarrow> uuid \<Rightarrow> int \<Rightarrow> file_row db_op" where
  "replace_content i expected_hash retired_path incoming retired_id now db =
     (case find (\<lambda>r. f_id r = i \<and> is_live r \<and> f_hash r = expected_hash) (fd_files db) of
        None \<Rightarrow> (Inl UploadAlreadyInProgress, db)
      | Some current \<Rightarrow>
          (let has_chunks = list_ex (\<lambda>c. ck_file c = i) (fd_chunks db);
               retired = current\<lparr>f_id := retired_id, f_path := retired_path, f_deleted := Some now, f_updated := now\<rparr>;
               moved = (if f_uploaded current \<or> has_chunks
                        then map_sum unknown_error
                          (\<lambda>d. d\<lparr>fd_chunks := map (\<lambda>c. if ck_file c = i then c\<lparr>ck_file := retired_id\<rparr> else c) (fd_chunks d)\<rparr>)
                          (insert_row retired now db)
                        else Inr db)
           in case moved of
                Inl e \<Rightarrow> (Inl e, db)
              | Inr db1 \<Rightarrow>
                  (case update_where (\<lambda>r. f_id r = i)
                     (\<lambda>r. r\<lparr>f_size := if_size incoming, f_uploaded := False, f_chunk_size := if_chunk_size incoming,
                          f_source_created := if_source_created incoming, f_source_mtime := if_source_mtime incoming,
                          f_hash := if_hash incoming, f_thumb := None, f_thumb_msg := None,
                          f_preview := None, f_preview_msg := None\<rparr>) now db1 of
                     Inl e \<Rightarrow> (Inl Unknown, db)
                   | Inr (db2, _) \<Rightarrow> (case row_get f_id i (fd_files db2) of
                        None \<Rightarrow> (Inl Unknown, db) | Some r \<Rightarrow> (Inr r, db2)))))"

text \<open>\<open>Path::parent\<close> of the paths the services pass, which have no empty or dot segments.\<close>

definition path_parent :: "string \<Rightarrow> string" where
  "path_parent path = (case rsplit_once CHR ''/'' path of None \<Rightarrow> [] | Some (dir, _) \<Rightarrow> dir)"

definition folder_row :: "uuid \<Rightarrow> int \<Rightarrow> string \<Rightarrow> uuid \<Rightarrow> file_row" where
  "folder_row i now path storage = new_file_row i now path True (new_in_file path 0 storage)"

definition delete :: "string \<Rightarrow> uuid \<Rightarrow> uuid \<Rightarrow> int \<Rightarrow> string db_op" where
  "delete path storage new_id now db =
     (let folder = probe_folder (live_under storage) path db;
          P = (case folder of None \<Rightarrow> row_live storage path | Some prefix \<Rightarrow> live_under storage prefix)
      in case update_where P (\<lambda>r. r\<lparr>f_deleted := Some now\<rparr>) now db of
           Inl e \<Rightarrow> (Inl Unknown, db)
         | Inr (db1, affected) \<Rightarrow>
             if affected = 0 then (Inl (DoesNotExist ''file''), db)
             else
               (let target = (case folder of None \<Rightarrow> path | Some prefix \<Rightarrow> prefix);
                    deleted_path = (case folder of None \<Rightarrow> path | Some prefix \<Rightarrow> trim_end_matches CHR ''/'' prefix);
                    parent = path_parent deleted_path
                in if parent = [] \<or> list_ex (live_under storage (parent @ ''/'')) (fd_files db1)
                   then (Inr target, db1)
                   else (case insert_row (folder_row new_id now (parent @ ''/'') storage) now db1 of
                           Inl e \<Rightarrow> (Inl Unknown, db) | Inr db2 \<Rightarrow> (Inr target, db2))))"

text \<open>
  \<open>rewrite_paths\<close>: the rows under a folder keep what follows the folder's prefix, which the
  statement cuts off with \<open>substr(path, skip + 1)\<close>, \<open>skip\<close> being the length of the prefix in
  bytes.
\<close>

definition rewrite_paths :: "string \<Rightarrow> string \<Rightarrow> uuid \<Rightarrow> bool \<Rightarrow> int \<Rightarrow> nat db_op" where
  "rewrite_paths old_path new_path storage live_only now =
     (if is_folder_path old_path then
        (let new_prefix = (if is_folder_path new_path then new_path else new_path @ ''/'');
             skip = length old_path
         in run_update map_rewrite_path_error
              (\<lambda>r. f_storage r = storage \<and> (is_live r \<longleftrightarrow> live_only) \<and> sql_starts_with (f_path r) old_path)
              (\<lambda>r. r\<lparr>f_path := new_prefix @ sql_substr_from (f_path r) (skip + 1)\<rparr>) now)
      else
        run_update map_rewrite_path_error
          (\<lambda>r. f_storage r = storage \<and> (is_live r \<longleftrightarrow> live_only) \<and> f_path r = old_path)
          (\<lambda>r. r\<lparr>f_path := new_path\<rparr>) now)"

definition update_path :: "string \<Rightarrow> string \<Rightarrow> uuid \<Rightarrow> int \<Rightarrow> nat db_op" where
  "update_path old_path new_path storage = rewrite_paths old_path new_path storage True"

definition update_trashed_path :: "string \<Rightarrow> string \<Rightarrow> uuid \<Rightarrow> int \<Rightarrow> nat db_op" where
  "update_trashed_path old_path new_path storage = rewrite_paths old_path new_path storage False"

definition hard_delete_ids :: "uuid list \<Rightarrow> int \<Rightarrow> files_db \<Rightarrow> files_db" where
  "hard_delete_ids ids now db =
     delete_rows now (map f_id (filter (\<lambda>r. f_id r \<in> set ids) (fd_files db))) db"

definition restore_error :: "sql_error \<Rightarrow> sarca_error" where
  "restore_error e = (case e of UniqueViolation \<Rightarrow> TrashPathConflict | FkViolation \<Rightarrow> Unknown)"

definition restore :: "string \<Rightarrow> uuid \<Rightarrow> int \<Rightarrow> unit db_op" where
  "restore path storage now db =
     (let P = (case probe_folder (trashed_under storage) path db of
                 None \<Rightarrow> (\<lambda>r. f_storage r = storage \<and> \<not> is_live r \<and> f_path r = path)
               | Some prefix \<Rightarrow> trashed_under storage prefix)
      in case run_update restore_error (\<lambda>r. P r \<and> \<not> live_path_exists (f_path r) storage db)
           (\<lambda>r. r\<lparr>f_deleted := None\<rparr>) now db of
           (Inl e, db') \<Rightarrow> (Inl e, db')
         | (Inr affected, db') \<Rightarrow>
             if affected \<noteq> 0 then (Inr (), db')
             else if list_trashed_ids storage path db' \<noteq> [] then (Inl TrashPathConflict, db')
             else if live_path_exists path storage db' \<or>
                     (\<not> is_folder_path path \<and> live_path_exists (path @ ''/'') storage db')
             then (Inr (), db')
             else (Inl (DoesNotExist ''file''), db'))"

text \<open>The newest trashed marker of a folder, the first among equals.\<close>

fun newest_deleted :: "file_row list \<Rightarrow> file_row option" where
  "newest_deleted [] = None"
| "newest_deleted (r # rs) = (case newest_deleted rs of
     None \<Rightarrow> Some r
   | Some x \<Rightarrow> if f_deleted x \<noteq> None \<and> f_deleted r \<noteq> None \<and> the (f_deleted r) < the (f_deleted x)
               then Some x else Some r)"

definition ensure_folder :: "string \<Rightarrow> uuid \<Rightarrow> uuid \<Rightarrow> int \<Rightarrow> unit db_op" where
  "ensure_folder folder_path storage new_id now db =
     (if live_path_exists folder_path storage db then (Inr (), db)
      else
        (let trashed = newest_deleted
               (filter (\<lambda>r. f_storage r = storage \<and> f_path r = folder_path \<and> \<not> is_live r) (fd_files db))
         in case run_update restore_error (\<lambda>r. Some (f_id r) = map_option f_id trashed)
              (\<lambda>r. r\<lparr>f_deleted := None\<rparr>) now db of
              (Inl e, db') \<Rightarrow> (Inl e, db')
            | (Inr restored, db') \<Rightarrow>
                if 0 < restored then (Inr (), db')
                else (case insert_row (folder_row new_id now folder_path storage) now db' of
                        Inl UniqueViolation \<Rightarrow> (Inr (), db')
                      | Inl FkViolation \<Rightarrow> (Inl Unknown, db')
                      | Inr db'' \<Rightarrow> (Inr (), db''))))"

fun ensure_folders :: "string \<Rightarrow> string list \<Rightarrow> uuid \<Rightarrow> (nat \<Rightarrow> uuid) \<Rightarrow> int \<Rightarrow> unit db_op" where
  "ensure_folders acc [] storage ids now db = (Inr (), db)"
| "ensure_folders acc (part # parts) storage ids now db =
     (if part = [] then ensure_folders acc parts storage ids now db
      else
        (let acc' = (if acc = [] then part else acc @ ''/'' @ part)
         in case ensure_folder (acc' @ ''/'') storage (ids (length parts)) now db of
              (Inl e, db') \<Rightarrow> (Inl e, db')
            | (Inr _, db') \<Rightarrow> ensure_folders acc' parts storage ids now db'))"

definition ensure_live_parent_folders :: "string \<Rightarrow> uuid \<Rightarrow> (nat \<Rightarrow> uuid) \<Rightarrow> int \<Rightarrow> unit db_op" where
  "ensure_live_parent_folders path storage ids now db =
     (let parent = path_parent (trim_end_matches CHR ''/'' path)
      in if parent = [] then (Inr (), db)
         else ensure_folders [] (split_on CHR ''/'' parent) storage ids now db)"

section \<open>A free name\<close>

definition max_rename :: nat where
  "max_rename = 10000"

fun first_free :: "nat \<Rightarrow> nat \<Rightarrow> (nat \<Rightarrow> string) \<Rightarrow> uuid \<Rightarrow> files_db \<Rightarrow> string sarca_result" where
  "first_free 0 i candidate storage db = Inl Unknown"
| "first_free (Suc fuel) i candidate storage db =
     (if live_basename_taken (candidate i) storage db
      then first_free fuel (Suc i) candidate storage db else Inr (candidate i))"

definition split_extension :: "string \<Rightarrow> string \<times> string" where
  "split_extension path = (case rsplit_once CHR ''/'' path of
     Some (dir, name) \<Rightarrow> (case rsplit_once CHR ''.'' name of
         Some (n, e) \<Rightarrow> (dir @ ''/'' @ n, CHR ''.'' # e) | None \<Rightarrow> (path, []))
   | None \<Rightarrow> (case rsplit_once CHR ''.'' path of
         Some (n, e) \<Rightarrow> (n, CHR ''.'' # e) | None \<Rightarrow> (path, [])))"

definition next_available_live_path :: "string \<Rightarrow> uuid \<Rightarrow> files_db \<Rightarrow> string sarca_result" where
  "next_available_live_path path storage db =
     (let stem = trim_end_matches CHR ''/'' path;
          as_folder = (is_folder_path path \<or>
            (path \<noteq> [] \<and> live_path_exists (stem @ ''/'') storage db \<and> \<not> live_path_exists stem storage db));
          normalized = (if as_folder then stem @ ''/'' else stem)
      in if \<not> live_basename_taken normalized storage db then Inr normalized
         else if as_folder then
           first_free (max_rename - 1) 1
             (\<lambda>i. numbered_path (trim_end_matches CHR ''/'' normalized) i ''/'') storage db
         else (let (s, suffix) = split_extension normalized
               in first_free (max_rename - 1) 1 (\<lambda>i. numbered_path s i suffix) storage db))"

section \<open>What the operations announce\<close>

text \<open>
  A change of the tables is announced when whoever knew the store exactly still does after
  hearing the new events, from whatever point on he listened.
\<close>

definition announced :: "files_db \<Rightarrow> files_db \<Rightarrow> bool" where
  "announced db db' \<longleftrightarrow> files_inv db' \<and> events_extend db db' \<and> (\<forall>v n s. changelog_exact v n s db \<longrightarrow> changelog_exact v n s db')"

lemma announced_refl: "files_inv db \<Longrightarrow> announced db db"
  by (simp add: announced_def events_extend_refl)

lemma announced_trans: "announced a b \<Longrightarrow> announced b c \<Longrightarrow> announced a c"
  using events_extend_trans by (simp add: announced_def) blast

lemma announced_inv: "announced db db' \<Longrightarrow> files_inv db'"
  by (simp add: announced_def)

lemma announced_insert:
  "files_inv db \<Longrightarrow> insert_row r now db = Inr db' \<Longrightarrow> f_id r \<notin> f_id ` set (fd_files db) \<Longrightarrow> announced db db'"
  unfolding announced_def using inv_insert exact_insert events_extend_insert by (metis files_inv_def)

lemma announced_update:
  assumes "files_inv db" and "update_where P f now db = Inr (db', k)" and "row_edit f" and "moves_only_live P f"
  shows "announced db db'"
proof -
  have inv: "files_inv db'"
  proof -
    have keys: "keys_ok f_id (fd_files db)" using assms(1) by (simp add: files_inv_alt)
    have "update_rows f now is d = Inr d' \<Longrightarrow> files_inv d \<Longrightarrow> files_inv d'" for "is" d d'
    proof (induction "is" arbitrary: d)
      case (Cons i "is")
      obtain e where e: "update_row f now i d = Inr e" and rest: "update_rows f now is e = Inr d'"
        using Cons.prems(1) by (auto simp: res_bind_def split: sum.splits)
      have "files_inv e"
        by (rule update_row_InrE [OF e assms(3) Cons.prems(2)])
          (use Cons.prems(2) inv_update in auto)
      then show ?case using Cons.IH [OF rest] by simp
    qed simp
    then show ?thesis
      using assms(1,2) by (auto simp: update_where_def Let_def res_bind_def split: sum.splits)
  qed
  then show ?thesis unfolding announced_def
    using update_where_ok [OF assms(2,3,1,4)] events_extend_update_where [OF assms(2)] by blast
qed

lemma announced_delete:
  assumes "files_inv db" and "\<And>i r. i \<in> set is \<Longrightarrow> row_get f_id i (fd_files db) = Some r \<Longrightarrow> no_twin r db"
  shows "announced db (delete_rows now is db)"
proof -
  have "changelog_exact v n s (delete_rows now is db)" if "changelog_exact v n s db" for v n s
    using delete_rows_ok [OF assms(1) that, of "is" now] assms(2) by blast
  then show ?thesis unfolding announced_def
    using inv_delete_rows [OF assms(1)] events_extend_delete_rows by blast
qed

lemma run_update_announced:
  assumes "files_inv db" and "run_update err P f now db = (res, db')" and "row_edit f" and "moves_only_live P f"
  shows "announced db db'"
  using assms announced_update announced_refl
  by (auto simp: run_update_def split: sum.splits)

text \<open>The files and their ids through a statement.\<close>

lemma update_rows_ids: "update_rows f now is db = Inr db' \<Longrightarrow> row_edit f \<Longrightarrow> map f_id (fd_files db') = map f_id (fd_files db)"
proof (induction "is" arbitrary: db)
  case (Cons i "is")
  obtain d where d: "update_row f now i db = Inr d" and rest: "update_rows f now is d = Inr db'"
    using Cons.prems(1) by (auto simp: res_bind_def split: sum.splits)
  have "map f_id (fd_files d) = map f_id (fd_files db)"
    using d Cons.prems(2) row_get_SomeD [of f_id i "fd_files db"]
    by (fastforce simp: update_row_def Let_def row_edit_def split: option.splits if_splits)
  then show ?case using Cons.IH [OF rest Cons.prems(2)] by simp
qed simp

lemma update_where_ids:
  "update_where P f now db = Inr (db', k) \<Longrightarrow> row_edit f \<Longrightarrow> map f_id (fd_files db') = map f_id (fd_files db)"
  using update_rows_ids by (auto simp: update_where_def Let_def res_bind_def split: sum.splits)

lemma run_update_ids:
  "run_update err P f now db = (res, db') \<Longrightarrow> row_edit f \<Longrightarrow> map f_id (fd_files db') = map f_id (fd_files db)"
  using update_where_ids by (fastforce simp: run_update_def split: sum.splits)

definition fresh_id :: "uuid \<Rightarrow> files_db \<Rightarrow> bool" where
  "fresh_id i db \<longleftrightarrow> i \<notin> set (map f_id (fd_files db))"

lemma fresh_id_cong: "map f_id (fd_files db') = map f_id (fd_files db) \<Longrightarrow> fresh_id i db' = fresh_id i db"
  by (simp add: fresh_id_def)

lemmas row_edit_simps = row_edit_def moves_only_live_def

lemma create_file_row_announced:
  "files_inv db \<Longrightarrow> fresh_id i db \<Longrightarrow> create_file_row i now in_obj up db = (res, db') \<Longrightarrow> announced db db'"
  using announced_insert [of db "new_file_row i now (if_path in_obj) up in_obj" now] announced_refl [of db]
  by (auto simp: create_file_row_def Let_def fresh_id_def new_file_row_def split: sum.splits sql_error.splits)

lemma create_attempts_announced:
  assumes "files_inv db" and "\<And>k. k < m \<Longrightarrow> fresh_id (ids k) db"
    and "create_attempts m (\<lambda>_ d. d) ids now in_obj c db = (res, db')"
  shows "announced db db'"
  using assms
proof (induction m arbitrary: c)
  case 0
  then show ?case using announced_refl by simp
next
  case (Suc m)
  obtain stem suffix where st: "split_stem (if_path in_obj) = (stem, suffix)" by force
  let ?path = "pick_duplicate_path stem suffix (duplicate_candidates stem suffix (if_storage in_obj) db)"
  let ?r = "new_file_row (ids m) now ?path False in_obj"
  show ?case
  proof (cases "insert_row ?r now db")
    case (Inr d)
    then have "db' = d" using Suc.prems(3) st by (simp add: Let_def)
    then show ?thesis using announced_insert [OF Suc.prems(1) Inr] Suc.prems(2) [of m]
      by (simp add: fresh_id_def new_file_row_def)
  next
    case (Inl e)
    show ?thesis
    proof (cases e)
      case UniqueViolation
      then show ?thesis using Suc.IH Suc.prems Inl st by (simp add: Let_def)
    next
      case FkViolation
      then show ?thesis using Suc.prems(3) Inl st announced_refl [OF Suc.prems(1)] by (simp add: Let_def)
    qed
  qed
qed

lemma insert_cloned_file_announced:
  "files_inv db \<Longrightarrow> fresh_id i db \<Longrightarrow> insert_cloned_file i now source path db = (res, db') \<Longrightarrow> announced db db'"
  unfolding insert_cloned_file_def Let_def
  using announced_refl [of db] announced_insert [of db _ now]
  by (auto simp: fresh_id_def split: sum.splits sql_error.splits)

lemma set_as_uploaded_announced:
  "files_inv db \<Longrightarrow> set_as_uploaded i now db = (res, db') \<Longrightarrow> announced db db'"
  unfolding set_as_uploaded_def by (erule run_update_announced) (auto simp: row_edit_simps)

lemma set_thumb_announced: "files_inv db \<Longrightarrow> set_thumb i t m now db = (res, db') \<Longrightarrow> announced db db'"
  unfolding set_thumb_def by (erule run_update_announced) (auto simp: row_edit_simps)

lemma set_preview_announced: "files_inv db \<Longrightarrow> set_preview i t m now db = (res, db') \<Longrightarrow> announced db db'"
  unfolding set_preview_def by (erule run_update_announced) (auto simp: row_edit_simps)

lemma update_path_announced:
  "files_inv db \<Longrightarrow> update_path old new_path storage now db = (res, db') \<Longrightarrow> announced db db'"
  unfolding update_path_def rewrite_paths_def Let_def
  by (auto simp: row_edit_simps split: if_splits elim!: run_update_announced)

lemma restore_announced:
  assumes "files_inv db" and "restore path storage now db = (res, db')"
  shows "announced db db'"
proof -
  obtain P where P: "restore path storage now db =
      (case run_update restore_error P (\<lambda>r. r\<lparr>f_deleted := None\<rparr>) now db of
           (Inl e, db') \<Rightarrow> (Inl e, db')
         | (Inr affected, db') \<Rightarrow>
             if affected \<noteq> 0 then (Inr (), db')
             else if list_trashed_ids storage path db' \<noteq> [] then (Inl TrashPathConflict, db')
             else if live_path_exists path storage db' \<or>
                     (\<not> is_folder_path path \<and> live_path_exists (path @ ''/'') storage db')
             then (Inr (), db')
             else (Inl (DoesNotExist ''file''), db'))"
    unfolding restore_def Let_def by blast
  obtain r d where r: "run_update restore_error P (\<lambda>r. r\<lparr>f_deleted := None\<rparr>) now db = (r, d)" by force
  then have "db' = d" using assms(2) P by (auto split: sum.splits if_splits)
  then show ?thesis
    using run_update_announced [OF assms(1) r] by (simp add: row_edit_simps)
qed

lemma ensure_folder_ok:
  assumes "files_inv db" and "fresh_id i db" and "ensure_folder p storage i now db = (res, db')"
  shows "announced db db' \<and> set (map f_id (fd_files db')) \<subseteq> insert i (set (map f_id (fd_files db)))"
proof (cases "live_path_exists p storage db")
  case True
  then show ?thesis using assms announced_refl by (auto simp: ensure_folder_def)
next
  case False
  obtain P where P: "ensure_folder p storage i now db =
      (case run_update restore_error P (\<lambda>r. r\<lparr>f_deleted := None\<rparr>) now db of
              (Inl e, db') \<Rightarrow> (Inl e, db')
            | (Inr restored, db') \<Rightarrow>
                if 0 < restored then (Inr (), db')
                else (case insert_row (folder_row i now p storage) now db' of
                        Inl UniqueViolation \<Rightarrow> (Inr (), db')
                      | Inl FkViolation \<Rightarrow> (Inl Unknown, db')
                      | Inr db'' \<Rightarrow> (Inr (), db'')))"
    using False unfolding ensure_folder_def Let_def by simp
  obtain r d where r: "run_update restore_error P (\<lambda>r. r\<lparr>f_deleted := None\<rparr>) now db = (r, d)" by force
  have a: "announced db d"
    using run_update_announced [OF assms(1) r] by (simp add: row_edit_simps)
  have ids: "map f_id (fd_files d) = map f_id (fd_files db)"
    using run_update_ids [OF r] by (simp add: row_edit_simps)
  consider "db' = d" | d' where "insert_row (folder_row i now p storage) now d = Inr d'" "db' = d'"
    using assms(3) P r by (auto split: sum.splits if_splits sql_error.splits)
  then show ?thesis
  proof cases
    case 1
    then show ?thesis using a ids by auto
  next
    case 2
    have "f_id (folder_row i now p storage) = i" by (simp add: folder_row_def new_file_row_def)
    moreover have "fresh_id i d" using assms(2) fresh_id_cong [OF ids] by simp
    ultimately have "announced d d'"
      using announced_insert [OF announced_inv [OF a] 2(1)] by (simp add: fresh_id_def)
    moreover have "map f_id (fd_files d') = map f_id (fd_files d) @ [i]"
      using 2(1) by (auto simp: insert_row_def folder_row_def new_file_row_def split: if_splits)
    ultimately show ?thesis using announced_trans [OF a] 2(2) ids by auto
  qed
qed

lemma ensure_folders_announced:
  assumes "files_inv db" and "\<And>k. k < length parts \<Longrightarrow> fresh_id (ids k) db" and "inj ids"
    and "ensure_folders acc parts storage ids now db = (res, db')"
  shows "announced db db'"
  using assms
proof (induction parts arbitrary: acc db)
  case Nil
  then show ?case using announced_refl by simp
next
  case (Cons part parts)
  show ?case
  proof (cases "part = []")
    case True
    then show ?thesis using Cons.IH [OF Cons.prems(1) _ Cons.prems(3)] Cons.prems(2,4) by simp
  next
    case False
    let ?acc = "if acc = [] then part else acc @ ''/'' @ part"
    obtain r d where e: "ensure_folder (?acc @ ''/'') storage (ids (length parts)) now db = (r, d)" by force
    have step: "announced db d \<and> set (map f_id (fd_files d)) \<subseteq> insert (ids (length parts)) (set (map f_id (fd_files db)))"
      by (rule ensure_folder_ok [OF Cons.prems(1) _ e]) (use Cons.prems(2) in simp)
    show ?thesis
    proof (cases r)
      case (Inl x)
      then show ?thesis using e False Cons.prems(4) step by (simp add: Let_def)
    next
      case (Inr u)
      have "fresh_id (ids k) d" if "k < length parts" for k
      proof -
        have "ids k \<noteq> ids (length parts)" using Cons.prems(3) that by (auto simp: inj_def)
        moreover have "fresh_id (ids k) db" using Cons.prems(2) [of k] that by simp
        ultimately show ?thesis using step unfolding fresh_id_def by blast
      qed
      moreover have "ensure_folders ?acc parts storage ids now d = (res, db')"
        using Inr e False Cons.prems(4) by (simp add: Let_def)
      ultimately have "announced d db'"
        using Cons.IH [OF announced_inv [OF conjunct1 [OF step]] _ Cons.prems(3)] by blast
      then show ?thesis using announced_trans step by blast
    qed
  qed
qed

lemma delete_announced:
  assumes "files_inv db" and "fresh_id i db" and "delete path storage i now db = (res, db')"
  shows "announced db db'"
proof -
  define P where "P = (case probe_folder (live_under storage) path db of
      None \<Rightarrow> row_live storage path | Some prefix \<Rightarrow> live_under storage prefix)"
  let ?f = "\<lambda>r. r\<lparr>f_deleted := Some now\<rparr>"
  show ?thesis
  proof (cases "update_where P ?f now db")
    case (Inl e)
    then show ?thesis using assms announced_refl by (simp add: delete_def Let_def P_def [symmetric])
  next
    case (Inr dk)
    obtain d k where dk: "dk = (d, k)" by force
    have a: "announced db d"
      by (rule announced_update [OF assms(1) Inr [unfolded dk]]) (simp_all add: row_edit_simps)
    have ids: "map f_id (fd_files d) = map f_id (fd_files db)"
      by (rule update_where_ids [OF Inr [unfolded dk]]) (simp add: row_edit_simps)
    consider "db' = db" | "db' = d" | p d' where "insert_row (folder_row i now p storage) now d = Inr d'" "db' = d'"
      using assms(3) Inr dk
      by (auto simp: delete_def Let_def P_def [symmetric] split: if_splits sum.splits)
    then show ?thesis
    proof cases
      case 1
      then show ?thesis using announced_refl assms(1) by simp
    next
      case 2
      then show ?thesis using a by simp
    next
      case 3
      have "f_id (folder_row i now p storage) = i" by (simp add: folder_row_def new_file_row_def)
      then have "announced d d'"
        using announced_insert [OF announced_inv [OF a] 3(1)] assms(2) fresh_id_cong [OF ids]
        by (simp add: fresh_id_def)
      then show ?thesis using announced_trans [OF a] 3(2) by simp
    qed
  qed
qed

lemma announced_frame:
  assumes "files_inv db" and "fd_files db' = fd_files db" "fd_events db' = fd_events db" "fd_seq db' = fd_seq db"
    "fd_storages db' = fd_storages db"
  shows "announced db db'"
proof -
  have "files_inv db'" using assms by (simp add: files_inv_alt events_ok_def)
  moreover have "known v n s db' = known v n s db" for v n s by (rule known_cong) (rule assms(3))
  moreover have "live_row s p db' = live_row s p db" for s p by (rule live_row_cong) (rule assms(2))
  ultimately show ?thesis by (simp add: announced_def exact_at assms(3) events_extend_refl)
qed

lemma replace_content_announced:
  assumes "files_inv db" and "fresh_id j db" and "replace_content i h retired_path incoming j now db = (res, db')"
  shows "announced db db'"
proof (cases "find (\<lambda>r. f_id r = i \<and> is_live r \<and> f_hash r = h) (fd_files db)")
  case None
  then show ?thesis using assms announced_refl by (simp add: replace_content_def)
next
  case (Some current)
  define retired where "retired = current\<lparr>f_id := j, f_path := retired_path, f_deleted := Some now, f_updated := now\<rparr>"
  define move :: "files_db \<Rightarrow> files_db" where "move = (\<lambda>d. d\<lparr>fd_chunks := map (\<lambda>c. if ck_file c = i then c\<lparr>ck_file := j\<rparr> else c) (fd_chunks d)\<rparr>)"
  define moved where "moved = (if f_uploaded current \<or> list_ex (\<lambda>c. ck_file c = i) (fd_chunks db)
     then map_sum unknown_error move (insert_row retired now db) else Inr db)"
  let ?f = "\<lambda>r. r\<lparr>f_size := if_size incoming, f_uploaded := False, f_chunk_size := if_chunk_size incoming,
                          f_source_created := if_source_created incoming, f_source_mtime := if_source_mtime incoming,
                          f_hash := if_hash incoming, f_thumb := None, f_thumb_msg := None,
                          f_preview := None, f_preview_msg := None\<rparr>"
  have run: "(res, db') = (case moved of
                Inl e \<Rightarrow> (Inl e, db)
              | Inr db1 \<Rightarrow>
                  (case update_where (\<lambda>r. f_id r = i) ?f now db1 of
                     Inl e \<Rightarrow> (Inl Unknown, db)
                   | Inr (db2, _) \<Rightarrow> (case row_get f_id i (fd_files db2) of
                        None \<Rightarrow> (Inl Unknown, db) | Some r \<Rightarrow> (Inr r, db2))))"
    using assms(3) unfolding replace_content_def Some option.simps Let_def moved_def retired_def move_def
    by (rule sym)
  show ?thesis
  proof (cases moved)
    case (Inl e)
    then show ?thesis using run announced_refl [OF assms(1)] by simp
  next
    case (Inr d)
    have a: "announced db d"
    proof (cases "f_uploaded current \<or> list_ex (\<lambda>c. ck_file c = i) (fd_chunks db)")
      case True
      then obtain e where e: "insert_row retired now db = Inr e" "d = move e"
        using Inr by (cases "insert_row retired now db") (auto simp: moved_def)
      have "f_id retired \<notin> f_id ` set (fd_files db)" using assms(2) by (simp add: retired_def fresh_id_def)
      then have "announced db e" by (rule announced_insert [OF assms(1) e(1)])
      moreover have "announced e d"
        by (rule announced_frame [OF announced_inv [OF \<open>announced db e\<close>]]) (simp_all add: e(2) move_def)
      ultimately show ?thesis by (rule announced_trans)
    next
      case False
      then show ?thesis using Inr announced_refl [OF assms(1)] by (simp add: moved_def)
    qed
    show ?thesis
    proof (cases "update_where (\<lambda>r. f_id r = i) ?f now d")
      case (Inl e)
      then show ?thesis using run Inr announced_refl [OF assms(1)] by simp
    next
      case upd: (Inr dk)
      obtain d2 k where dk: "dk = (d2, k)" by force
      have "announced d d2"
        by (rule announced_update [OF announced_inv [OF a] upd [unfolded dk]]) (simp_all add: row_edit_simps)
      then have "announced db d2" by (rule announced_trans [OF a])
      then show ?thesis using run Inr upd dk announced_refl [OF assms(1)] by (auto split: option.splits)
    qed
  qed
qed

lemma hard_delete_live_announced:
  assumes "files_inv db" and "\<And>r. r \<in> set (fd_files db) \<Longrightarrow> f_id r \<in> set ids \<Longrightarrow> no_twin r db"
  shows "announced db (hard_delete_ids ids now db)"
  unfolding hard_delete_ids_def
  by (rule announced_delete [OF assms(1)])
    (use assms(2) row_get_SomeD [of f_id _ "fd_files db"] in fastforce)

section \<open>Histories of a store\<close>

text \<open>
  The writes of the server to its file tables, with the ids and the time they get. \<open>DeleteForever\<close>
  is the purge of rows by id, which the trash uses, and the \<open>replace\<close> of a restore or a move.
\<close>

datatype file_op =
    CreateFolder uuid in_file
  | CreateFile "nat \<Rightarrow> uuid" in_file
  | CloneRow uuid file_row string
  | ReplaceContent uuid "string option" string in_file uuid
  | SetUploaded uuid
  | SetThumb uuid string int
  | SetPreview uuid string int
  | TrashPath string uuid uuid
  | MovePath string string uuid
  | MoveTrashed string string uuid
  | RestorePath string uuid
  | EnsureParents string uuid "nat \<Rightarrow> uuid"
  | DeleteForever "uuid list"

fun run_file_op :: "file_op \<Rightarrow> int \<Rightarrow> files_db \<Rightarrow> files_db" where
  "run_file_op (CreateFolder i f) now db = snd (create_folder i now f db)"
| "run_file_op (CreateFile ids f) now db = snd (create_file_anyway (\<lambda>_ d. d) ids now f db)"
| "run_file_op (CloneRow i r p) now db = snd (insert_cloned_file i now r p db)"
| "run_file_op (ReplaceContent i h p f j) now db = snd (replace_content i h p f j now db)"
| "run_file_op (SetUploaded i) now db = snd (set_as_uploaded i now db)"
| "run_file_op (SetThumb i t m) now db = snd (set_thumb i t m now db)"
| "run_file_op (SetPreview i t m) now db = snd (set_preview i t m now db)"
| "run_file_op (TrashPath p s i) now db = snd (delete p s i now db)"
| "run_file_op (MovePath p q s) now db = snd (update_path p q s now db)"
| "run_file_op (MoveTrashed p q s) now db = snd (update_trashed_path p q s now db)"
| "run_file_op (RestorePath p s) now db = snd (restore p s now db)"
| "run_file_op (EnsureParents p s ids) now db = snd (ensure_live_parent_folders p s ids now db)"
| "run_file_op (DeleteForever ids) now db = hard_delete_ids ids now db"

text \<open>
  The ids of new rows are new. Rows that are purged have no live twin at their path, and trashed
  rows are not moved, which the code only does when a live row is in their way: these two are what
  the code does not see to.
\<close>

fun op_allowed :: "file_op \<Rightarrow> files_db \<Rightarrow> bool" where
  "op_allowed (CreateFolder i f) db = fresh_id i db"
| "op_allowed (CreateFile ids f) db = (\<forall>k < max_attempts. fresh_id (ids k) db)"
| "op_allowed (CloneRow i r p) db = fresh_id i db"
| "op_allowed (ReplaceContent i h p f j) db = fresh_id j db"
| "op_allowed (TrashPath p s i) db = fresh_id i db"
| "op_allowed (MoveTrashed p q s) db = False"
| "op_allowed (EnsureParents p s ids) db = (inj ids \<and> (\<forall>k. fresh_id (ids k) db))"
| "op_allowed (DeleteForever ids) db = (\<forall>r \<in> set (fd_files db). f_id r \<in> set ids \<longrightarrow> no_twin r db)"
| "op_allowed _ db = True"

inductive store_history :: "files_db \<Rightarrow> files_db \<Rightarrow> bool" where
  start: "store_history db db"
| step: "store_history db0 db \<Longrightarrow> op_allowed op db \<Longrightarrow> store_history db0 (run_file_op op now db)"

lemma op_announced:
  assumes inv: "files_inv db" and ok: "op_allowed op db"
  shows "announced db (run_file_op op now db)"
proof (cases op)
  case (CreateFolder i f)
  then show ?thesis
    using create_file_row_announced [OF inv _ prod.collapse [symmetric]] ok by (simp add: create_folder_def)
next
  case (CreateFile ids f)
  then show ?thesis
    using create_attempts_announced [OF inv _ prod.collapse [symmetric]] ok
    by (simp add: create_file_anyway_def)
next
  case (CloneRow i r p)
  then show ?thesis
    using insert_cloned_file_announced [OF inv _ prod.collapse [symmetric]] ok by simp
next
  case (ReplaceContent i h p f j)
  then show ?thesis
    using replace_content_announced [OF inv _ prod.collapse [symmetric]] ok by simp
next
  case (SetUploaded i)
  then show ?thesis using set_as_uploaded_announced [OF inv prod.collapse [symmetric]] by simp
next
  case (SetThumb i t m)
  then show ?thesis using set_thumb_announced [OF inv prod.collapse [symmetric]] by simp
next
  case (SetPreview i t m)
  then show ?thesis using set_preview_announced [OF inv prod.collapse [symmetric]] by simp
next
  case (TrashPath p s i)
  then show ?thesis using delete_announced [OF inv _ prod.collapse [symmetric]] ok by simp
next
  case (MovePath p q s)
  then show ?thesis using update_path_announced [OF inv prod.collapse [symmetric]] by simp
next
  case (RestorePath p s)
  then show ?thesis using restore_announced [OF inv prod.collapse [symmetric]] by simp
next
  case (EnsureParents p s ids)
  then show ?thesis
    using ensure_folders_announced [OF inv _ _ prod.collapse [symmetric]] announced_refl [OF inv] ok
    by (simp add: ensure_live_parent_folders_def Let_def)
next
  case (DeleteForever ids)
  then show ?thesis using hard_delete_live_announced [OF inv, of ids now] ok by simp
qed (use ok in simp)

lemma history_announced: "store_history db0 db \<Longrightarrow> files_inv db0 \<Longrightarrow> announced db0 db"
proof (induction rule: store_history.induct)
  case (start db)
  then show ?case by (rule announced_refl)
next
  case (step db0 db op now)
  then show ?case using op_announced [OF announced_inv [OF step.IH] step.hyps(2)] announced_trans by blast
qed

end
