(* ===== verification/Accounts.thy ===== *)
theory Accounts
  imports Prelude SyncTypes ServerErrors
begin

text \<open>
  The accounts of the server and who may use which storage (src/sarca/src/models/users.rs and
  models/access.rs, repositories/users.rs and repositories/access.rs, common/access.rs). The
  statements run against a database that answers; the unique and foreign keys of the tables are
  checked, and deleting a user cascades to his grants. Times are Unix seconds.
\<close>

section \<open>Tables\<close>

record user_row =
  u_id :: uuid
  u_email :: string
  u_hash :: "string option"
  u_verified :: "int option"
  u_valid_after :: int
  u_disabled :: "int option"

datatype access_type = AR | AW | AA

record access_row =
  ac_id :: uuid
  ac_user :: uuid
  ac_storage :: uuid
  ac_type :: access_type

record accounts =
  acc_users :: "user_row list"
  acc_access :: "access_row list"
  acc_storages :: "uuid list"

type_synonym 'a acc_op = "accounts \<Rightarrow> 'a sarca_result \<times> accounts"

definition email_verified :: "user_row \<Rightarrow> bool" where
  "email_verified u \<longleftrightarrow> u_verified u \<noteq> None"

definition session_is_live :: "int \<Rightarrow> user_row \<Rightarrow> bool" where
  "session_is_live token_iat u \<longleftrightarrow> u_valid_after u \<le> token_iat"

definition is_disabled :: "user_row \<Rightarrow> bool" where
  "is_disabled u \<longleftrightarrow> u_disabled u \<noteq> None"

section \<open>The repository of users\<close>

definition not_found :: "string \<Rightarrow> sarca_error" where
  "not_found entity = DoesNotExist (''such '' @ entity)"

definition create_user :: "uuid \<Rightarrow> string \<Rightarrow> string option \<Rightarrow> int option \<Rightarrow> user_row acc_op" where
  "create_user i email password_hash verified a =
     (if list_ex (\<lambda>u. u_email u = email) (acc_users a)
      then (Inl (AlreadyExists ''user with given email''), a)
      else (let u = \<lparr>u_id = i, u_email = email, u_hash = password_hash, u_verified = verified,
                     u_valid_after = 0, u_disabled = None\<rparr>
            in (Inr u, a\<lparr>acc_users := acc_users a @ [u]\<rparr>)))"

definition get_by_email :: "string \<Rightarrow> accounts \<Rightarrow> user_row sarca_result" where
  "get_by_email email a = (case find (\<lambda>u. u_email u = email) (acc_users a) of
     None \<Rightarrow> Inl (not_found ''user'') | Some u \<Rightarrow> Inr u)"

definition get_user :: "uuid \<Rightarrow> accounts \<Rightarrow> user_row sarca_result" where
  "get_user i a = (case row_get u_id i (acc_users a) of
     None \<Rightarrow> Inl (not_found ''user'') | Some u \<Rightarrow> Inr u)"

definition delete_user :: "uuid \<Rightarrow> unit acc_op" where
  "delete_user i a =
     (if row_get u_id i (acc_users a) = None then (Inl (DoesNotExist ''user''), a)
      else (Inr (), a\<lparr>acc_users := row_del (\<lambda>u. u_id u = i) (acc_users a),
                     acc_access := row_del (\<lambda>g. ac_user g = i) (acc_access a)\<rparr>))"

definition list_all_users :: "accounts \<Rightarrow> user_row list" where
  "list_all_users a = sort_key u_email (acc_users a)"

text \<open>An \<open>UPDATE users SET ... WHERE id = ...\<close>, whose missing row may or may not be an error.\<close>

definition set_user :: "uuid \<Rightarrow> (user_row \<Rightarrow> user_row) \<Rightarrow> accounts \<Rightarrow> accounts" where
  "set_user i f a = a\<lparr>acc_users := map (\<lambda>u. if u_id u = i then f u else u) (acc_users a)\<rparr>"

definition update_user :: "uuid \<Rightarrow> (user_row \<Rightarrow> user_row) \<Rightarrow> unit acc_op" where
  "update_user i f a =
     (if row_get u_id i (acc_users a) = None then (Inl (DoesNotExist ''user''), a)
      else (Inr (), set_user i f a))"

definition update_password_hash :: "string \<Rightarrow> string \<Rightarrow> unit acc_op" where
  "update_password_hash email password_hash a =
     (if \<not> list_ex (\<lambda>u. u_email u = email) (acc_users a) then (Inl (DoesNotExist ''user''), a)
      else (Inr (), a\<lparr>acc_users :=
        map (\<lambda>u. if u_email u = email then u\<lparr>u_hash := Some password_hash\<rparr> else u) (acc_users a)\<rparr>))"

definition update_password_hash_by_id :: "uuid \<Rightarrow> string \<Rightarrow> int \<Rightarrow> unit acc_op" where
  "update_password_hash_by_id i password_hash now =
     update_user i (\<lambda>u. u\<lparr>u_hash := Some password_hash, u_valid_after := now\<rparr>)"

definition set_disabled :: "uuid \<Rightarrow> bool \<Rightarrow> int \<Rightarrow> unit acc_op" where
  "set_disabled i disabled now =
     (if disabled then update_user i (\<lambda>u. u\<lparr>u_disabled := Some now, u_valid_after := now\<rparr>)
      else update_user i (\<lambda>u. u\<lparr>u_disabled := None\<rparr>))"

definition list_directory :: "accounts \<Rightarrow> (uuid \<times> string) list" where
  "list_directory a = map (\<lambda>u. (u_id u, u_email u))
     (sort_key u_email (filter (\<lambda>u. u_disabled u = None) (acc_users a)))"

definition revoke_sessions :: "uuid \<Rightarrow> int \<Rightarrow> unit acc_op" where
  "revoke_sessions i now a = (Inr (), set_user i (\<lambda>u. u\<lparr>u_valid_after := now\<rparr>) a)"

definition mark_email_verified :: "uuid \<Rightarrow> int \<Rightarrow> unit acc_op" where
  "mark_email_verified i now =
     update_user i (\<lambda>u. u\<lparr>u_verified := (case u_verified u of None \<Rightarrow> Some now | Some t \<Rightarrow> Some t)\<rparr>)"

section \<open>The repository of grants\<close>

text \<open>The constraint name in a foreign-key error is what the database driver reports.\<close>

definition map_access_fk_violation :: "uuid \<Rightarrow> string option \<Rightarrow> sarca_error" where
  "map_access_fk_violation storage constraint =
     (if constraint = Some ''access_user_id_fkey'' then NotAuthenticated
      else DoesNotExist (''storage with id \"'' @ storage @ ''\"''))"

text \<open>\<open>INSERT ... ON CONFLICT (user_id, storage_id) DO UPDATE SET access_type\<close>.\<close>

fun upsert_access :: "access_row \<Rightarrow> access_row list \<Rightarrow> access_row list" where
  "upsert_access g [] = [g]"
| "upsert_access g (x # xs) =
     (if ac_user x = ac_user g \<and> ac_storage x = ac_storage g then x\<lparr>ac_type := ac_type g\<rparr> # xs
      else x # upsert_access g xs)"

definition grant_for_user_id :: "string option \<Rightarrow> uuid \<Rightarrow> uuid \<Rightarrow> uuid \<Rightarrow> access_type \<Rightarrow> unit acc_op" where
  "grant_for_user_id constraint i storage user t a =
     (if row_get u_id user (acc_users a) = None \<or> storage \<notin> set (acc_storages a)
      then (Inl (map_access_fk_violation storage constraint), a)
      else (Inr (), a\<lparr>acc_access :=
        upsert_access \<lparr>ac_id = i, ac_user = user, ac_storage = storage, ac_type = t\<rparr> (acc_access a)\<rparr>))"

definition create_or_update_access ::
  "string option \<Rightarrow> uuid \<Rightarrow> uuid \<Rightarrow> string \<Rightarrow> access_type \<Rightarrow> unit acc_op" where
  "create_or_update_access constraint i storage email t a =
     (case find (\<lambda>u. u_email u = email) (acc_users a) of
        None \<Rightarrow> (Inl (DoesNotExist (''user with email \"'' @ email @ ''\"'')), a)
      | Some u \<Rightarrow>
          if storage \<notin> set (acc_storages a) then (Inl (map_access_fk_violation storage constraint), a)
          else (Inr (), a\<lparr>acc_access :=
            upsert_access \<lparr>ac_id = i, ac_user = u_id u, ac_storage = storage, ac_type = t\<rparr> (acc_access a)\<rparr>))"

definition list_users_with_access :: "uuid \<Rightarrow> accounts \<Rightarrow> (uuid \<times> string \<times> access_type) list" where
  "list_users_with_access storage a =
     concat (map (\<lambda>g. map (\<lambda>u. (u_id u, u_email u, ac_type g))
         (filter (\<lambda>u. u_id u = ac_user g) (acc_users a)))
       (filter (\<lambda>g. ac_storage g = storage) (acc_access a)))"

definition type_allows :: "access_type \<Rightarrow> access_type \<Rightarrow> bool" where
  "type_allows wanted held = (case wanted of
     AR \<Rightarrow> True | AW \<Rightarrow> held = AW \<or> held = AA | AA \<Rightarrow> held = AA)"

definition has_access :: "uuid \<Rightarrow> uuid \<Rightarrow> access_type \<Rightarrow> accounts \<Rightarrow> bool" where
  "has_access user storage wanted a \<longleftrightarrow>
     0 < length (filter (\<lambda>g. ac_user g = user \<and> ac_storage g = storage \<and> type_allows wanted (ac_type g))
       (acc_access a))"

definition has_any_admin_access :: "uuid \<Rightarrow> accounts \<Rightarrow> bool" where
  "has_any_admin_access user a \<longleftrightarrow> list_ex (\<lambda>g. ac_user g = user \<and> ac_type g = AA) (acc_access a)"

definition delete_access :: "uuid \<Rightarrow> uuid \<Rightarrow> unit acc_op" where
  "delete_access user storage a =
     (Inr (), a\<lparr>acc_access := row_del (\<lambda>g. ac_user g = user \<and> ac_storage g = storage) (acc_access a)\<rparr>)"

definition check_access :: "uuid \<Rightarrow> uuid \<Rightarrow> access_type \<Rightarrow> accounts \<Rightarrow> unit sarca_result" where
  "check_access user storage wanted a =
     (if has_access user storage wanted a then Inr ()
      else Inl (DoesNotExist (''storage with id \"'' @ storage @ ''\"'')))"

section \<open>Facts\<close>

text \<open>The grant a user holds on a storage; there is at most one.\<close>

definition grant_of :: "uuid \<Rightarrow> uuid \<Rightarrow> accounts \<Rightarrow> access_type option" where
  "grant_of user storage a =
     map_option ac_type (find (\<lambda>g. ac_user g = user \<and> ac_storage g = storage) (acc_access a))"

definition grants_unique :: "access_row list \<Rightarrow> bool" where
  "grants_unique gs \<longleftrightarrow> distinct (map (\<lambda>g. (ac_user g, ac_storage g)) gs)"

definition accounts_inv :: "accounts \<Rightarrow> bool" where
  "accounts_inv a \<longleftrightarrow> keys_ok u_id (acc_users a) \<and> distinct (map u_email (acc_users a)) \<and>
     grants_unique (acc_access a)"

lemma has_access_grant:
  assumes "grants_unique (acc_access a)"
  shows "has_access user storage wanted a \<longleftrightarrow>
     (case grant_of user storage a of None \<Rightarrow> False | Some t \<Rightarrow> type_allows wanted t)"
proof -
  have "grants_unique gs \<Longrightarrow>
      (\<exists>g \<in> set gs. ac_user g = user \<and> ac_storage g = storage \<and> type_allows wanted (ac_type g)) \<longleftrightarrow>
      (case map_option ac_type (find (\<lambda>g. ac_user g = user \<and> ac_storage g = storage) gs) of
         None \<Rightarrow> False | Some t \<Rightarrow> type_allows wanted t)" for gs
  proof (induction gs)
    case (Cons g gs)
    show ?case
    proof (cases "ac_user g = user \<and> ac_storage g = storage")
      case True
      then have "\<not> (ac_user x = user \<and> ac_storage x = storage)" if "x \<in> set gs" for x
        using Cons.prems that by (auto simp: grants_unique_def image_iff)
      then show ?thesis using True by auto
    next
      case False
      then show ?thesis using Cons by (auto simp: grants_unique_def)
    qed
  qed simp
  then show ?thesis using assms by (auto simp: has_access_def grant_of_def filter_empty_conv)
qed

lemma find_upsert_access:
  "map_option ac_type (find (\<lambda>x. ac_user x = user \<and> ac_storage x = storage) (upsert_access g gs)) =
     (if user = ac_user g \<and> storage = ac_storage g then Some (ac_type g)
      else map_option ac_type (find (\<lambda>x. ac_user x = user \<and> ac_storage x = storage) gs))"
  by (induction g gs rule: upsert_access.induct) auto

lemma set_upsert_keys:
  "(\<lambda>x. (ac_user x, ac_storage x)) ` set (upsert_access g gs) =
     insert (ac_user g, ac_storage g) ((\<lambda>x. (ac_user x, ac_storage x)) ` set gs)"
  by (induction g gs rule: upsert_access.induct) auto

lemma grants_unique_upsert: "grants_unique gs \<Longrightarrow> grants_unique (upsert_access g gs)"
proof (induction g gs rule: upsert_access.induct)
  case (2 g x xs)
  then show ?case
    using set_upsert_keys [of g xs] by (auto simp: grants_unique_def)
qed (simp add: grants_unique_def)

lemma type_allows_trans: "type_allows w h \<Longrightarrow> type_allows v w \<Longrightarrow> type_allows v h"
  by (auto simp: type_allows_def split: access_type.splits)

lemma accounts_inv_set_user:
  assumes "accounts_inv a" and "\<And>u. u_id (f u) = u_id u \<and> u_email (f u) = u_email u"
  shows "accounts_inv (set_user i f a)"
proof -
  have "map u_id (map (\<lambda>u. if u_id u = i then f u else u) us) = map u_id us"
    and "map u_email (map (\<lambda>u. if u_id u = i then f u else u) us) = map u_email us" for us
    using assms(2) by auto
  then show ?thesis using assms(1) by (simp add: accounts_inv_def set_user_def keys_ok_def del: map_map)
qed

lemma get_set_user:
  assumes "\<And>u. u_id (f u) = u_id u"
  shows "row_get u_id j (acc_users (set_user i f a)) =
    (if j = i then map_option f (row_get u_id j (acc_users a)) else row_get u_id j (acc_users a))"
proof -
  have "row_get u_id j (map (\<lambda>u. if u_id u = i then f u else u) us) =
    (if j = i then map_option f (row_get u_id j us) else row_get u_id j us)" for us
    by (induction us) (auto simp: assms)
  then show ?thesis by (simp add: set_user_def)
qed

text \<open>
  A grant decides exactly what it says: after granting a user a kind of access to a storage,
  he passes a check there if and only if the kind he holds includes the kind wanted; nobody else's
  access changes, nor his to another storage, and nobody ever holds two grants for one storage.
\<close>

theorem grant_decides_access:
  assumes "accounts_inv a" and "grant_for_user_id c i storage user t a = (Inr (), a')"
  shows "accounts_inv a' \<and>
     (check_access user' storage' wanted a' = Inr ()) =
       (if user' = user \<and> storage' = storage then type_allows wanted t
        else check_access user' storage' wanted a = Inr ())"
proof -
  have a': "a' = a\<lparr>acc_access := upsert_access \<lparr>ac_id = i, ac_user = user, ac_storage = storage, ac_type = t\<rparr> (acc_access a)\<rparr>"
    using assms(2) by (auto simp: grant_for_user_id_def split: if_splits)
  have inv: "accounts_inv a'"
    using assms(1) grants_unique_upsert by (auto simp: accounts_inv_def a')
  have grant: "grant_of user' storage' a' =
      (if user' = user \<and> storage' = storage then Some t else grant_of user' storage' a)"
    by (simp add: grant_of_def a' find_upsert_access)
  have "grants_unique (acc_access a)" "grants_unique (acc_access a')"
    using assms(1) inv by (auto simp: accounts_inv_def)
  then show ?thesis using inv grant by (simp add: check_access_def has_access_grant)
qed

definition sample_accounts :: accounts where
  "sample_accounts =
     \<lparr>acc_users = [\<lparr>u_id = ''u1'', u_email = ''a@b.c'', u_hash = Some ''h1'', u_verified = None,
                   u_valid_after = 0, u_disabled = None\<rparr>],
      acc_access = [], acc_storages = [''s1'']\<rparr>"

theorem grant_decides_access_witness:
  "check_access ''u1'' ''s1'' AW (snd (grant_for_user_id None ''g'' ''s1'' ''u1'' AW sample_accounts)) = Inr () \<and>
   check_access ''u1'' ''s1'' AA (snd (grant_for_user_id None ''g'' ''s1'' ''u1'' AW sample_accounts)) \<noteq> Inr ()"
proof -
  have inv: "accounts_inv sample_accounts"
    by (simp add: accounts_inv_def sample_accounts_def keys_ok_def grants_unique_def)
  have run: "grant_for_user_id None ''g'' ''s1'' ''u1'' AW sample_accounts =
      (Inr (), snd (grant_for_user_id None ''g'' ''s1'' ''u1'' AW sample_accounts))"
    by (simp add: grant_for_user_id_def sample_accounts_def)
  show ?thesis
    using grant_decides_access [OF inv run, of "''u1''" "''s1''" AW]
      grant_decides_access [OF inv run, of "''u1''" "''s1''" AA]
    by (simp add: type_allows_def)
qed

end
