(* ===== verification/Auth.thy ===== *)
theory Auth
  imports Accounts Guessing
begin

text \<open>
  Sessions (src/sarca/src/common/jwt_manager.rs, services/auth.rs, services/users.rs,
  routers/auth.rs and common/routing/middlewares/auth.rs). The token crate, the password hash,
  the UUID parser and Unicode lower-casing are not part of the repository: they are the fields of
  \<open>externals\<close>. A token opens to its payload only under the key it was sealed with and while it has
  not expired; the fields a payload must have are checked here, as the \<open>Deserialize\<close> derivations
  of the two claim types do. Times are Unix seconds, those of the throttle milliseconds of the
  monotonic clock.
\<close>

section \<open>Tokens\<close>

record payload =
  pl_sub :: string
  pl_exp :: int
  pl_email :: "string option"
  pl_type :: "string option"
  pl_iat :: "int option"

record externals =
  ex_seal :: "payload \<Rightarrow> string \<Rightarrow> string"
  ex_open :: "int \<Rightarrow> string \<Rightarrow> string \<Rightarrow> payload option"
  ex_parse_uuid :: "string \<Rightarrow> uuid option"
  ex_hash :: "string \<Rightarrow> string option"
  ex_verify :: "string \<Rightarrow> string \<Rightarrow> bool"
  ex_lowercase :: "string \<Rightarrow> string"
  ex_percent_decode :: "string \<Rightarrow> string"

record config =
  cf_superuser_email :: string
  cf_access_secs :: int
  cf_refresh_days :: int
  cf_secret :: string
  cf_has_tls_hostname :: bool

definition token_type_access :: string where "token_type_access = ''access''"
definition token_type_refresh :: string where "token_type_refresh = ''refresh''"
definition token_type_share_unlock :: string where "token_type_share_unlock = ''share_unlock''"

record auth_user =
  au_id :: uuid
  au_email :: string
  au_issued_at :: int

definition new_auth_user :: "uuid \<Rightarrow> string \<Rightarrow> auth_user" where
  "new_auth_user i email = \<lparr>au_id = i, au_email = email, au_issued_at = 0\<rparr>"

definition generate :: "externals \<Rightarrow> int \<Rightarrow> auth_user \<Rightarrow> int \<Rightarrow> string \<Rightarrow> string \<Rightarrow> string" where
  "generate ex now user expire_in secret token_type =
     ex_seal ex \<lparr>pl_sub = au_id user, pl_exp = now + expire_in, pl_email = Some (au_email user),
                pl_type = Some token_type, pl_iat = Some now\<rparr> secret"

definition validate_with_type :: "externals \<Rightarrow> int \<Rightarrow> string \<Rightarrow> string \<Rightarrow> string \<Rightarrow> auth_user sarca_result" where
  "validate_with_type ex now token secret expected_type =
     (case ex_open ex now token secret of
        None \<Rightarrow> Inl NotAuthenticated
      | Some p \<Rightarrow> (case pl_email p of
          None \<Rightarrow> Inl NotAuthenticated
        | Some email \<Rightarrow>
            (let token_type = (case pl_type p of None \<Rightarrow> token_type_access | Some t \<Rightarrow> t)
             in if token_type \<noteq> expected_type then Inl NotAuthenticated
                else (case ex_parse_uuid ex (pl_sub p) of
                  None \<Rightarrow> Inl NotAuthenticated
                | Some i \<Rightarrow> Inr \<lparr>au_id = i, au_email = email,
                    au_issued_at = (case pl_iat p of None \<Rightarrow> 0 | Some t \<Rightarrow> t)\<rparr>))))"

definition validate :: "externals \<Rightarrow> int \<Rightarrow> string \<Rightarrow> string \<Rightarrow> auth_user sarca_result" where
  "validate ex now token secret = validate_with_type ex now token secret token_type_access"

definition validate_refresh :: "externals \<Rightarrow> int \<Rightarrow> string \<Rightarrow> string \<Rightarrow> auth_user sarca_result" where
  "validate_refresh ex now token secret = validate_with_type ex now token secret token_type_refresh"

definition generate_share_unlock :: "externals \<Rightarrow> int \<Rightarrow> string \<Rightarrow> int \<Rightarrow> string \<Rightarrow> string" where
  "generate_share_unlock ex now share_token expire_in secret =
     ex_seal ex \<lparr>pl_sub = share_token, pl_exp = now + expire_in, pl_email = None,
                pl_type = Some token_type_share_unlock, pl_iat = None\<rparr> secret"

definition validate_share_unlock :: "externals \<Rightarrow> int \<Rightarrow> string \<Rightarrow> string \<Rightarrow> string \<Rightarrow> unit sarca_result" where
  "validate_share_unlock ex now unlock_jwt share_token secret =
     (case ex_open ex now unlock_jwt secret of
        None \<Rightarrow> Inl NotAuthenticated
      | Some p \<Rightarrow> (case pl_type p of
          None \<Rightarrow> Inl NotAuthenticated
        | Some t \<Rightarrow> if t \<noteq> token_type_share_unlock then Inl NotAuthenticated
                    else if pl_sub p \<noteq> share_token then Inl NotAuthenticated else Inr ()))"

section \<open>The authentication service\<close>

record token_schema =
  ts_access :: string
  ts_refresh :: string
  ts_email_verified :: bool

definition eq_ignore_ascii_case :: "string \<Rightarrow> string \<Rightarrow> bool" where
  "eq_ignore_ascii_case a b \<longleftrightarrow> to_ascii_lowercase a = to_ascii_lowercase b"

definition issue_tokens :: "externals \<Rightarrow> int \<Rightarrow> auth_user \<Rightarrow> bool \<Rightarrow> config \<Rightarrow> token_schema" where
  "issue_tokens ex now user verified cfg =
     \<lparr>ts_access = generate ex now user (cf_access_secs cfg) (cf_secret cfg) token_type_access,
      ts_refresh = generate ex now user (cf_refresh_days cfg * 24 * 3600) (cf_secret cfg) token_type_refresh,
      ts_email_verified = verified\<rparr>"

definition password_verify :: "externals \<Rightarrow> string \<Rightarrow> string \<Rightarrow> unit sarca_result" where
  "password_verify ex password password_hash =
     (if ex_verify ex password password_hash then Inr () else Inl NotAuthenticated)"

definition password_generate :: "externals \<Rightarrow> string \<Rightarrow> string sarca_result" where
  "password_generate ex password = (case ex_hash ex password of None \<Rightarrow> Inl Unknown | Some h \<Rightarrow> Inr h)"

definition login :: "externals \<Rightarrow> config \<Rightarrow> int \<Rightarrow> string \<Rightarrow> string \<Rightarrow> accounts \<Rightarrow> token_schema sarca_result" where
  "login ex cfg now email password a =
     (case get_by_email email a of
        Inl e \<Rightarrow> Inl NotAuthenticated
      | Inr user \<Rightarrow>
          if is_disabled user then Inl NotAuthenticated
          else (case u_hash user of
              None \<Rightarrow> Inl NotAuthenticated
            | Some h \<Rightarrow> res_bind (password_verify ex password h) (\<lambda>_.
                Inr (issue_tokens ex now (new_auth_user (u_id user) (u_email user)) (email_verified user) cfg))))"

definition refresh :: "externals \<Rightarrow> config \<Rightarrow> int \<Rightarrow> string \<Rightarrow> accounts \<Rightarrow> token_schema sarca_result" where
  "refresh ex cfg now refresh_token a =
     res_bind (validate_refresh ex now refresh_token (cf_secret cfg)) (\<lambda>auth.
       (case get_user (au_id auth) a of
          Inl e \<Rightarrow> Inl NotAuthenticated
        | Inr user \<Rightarrow>
            if \<not> eq_ignore_ascii_case (u_email user) (au_email auth) \<or>
               \<not> session_is_live (au_issued_at auth) user \<or> is_disabled user
            then Inl NotAuthenticated
            else Inr (issue_tokens ex now (new_auth_user (u_id user) (u_email user)) (email_verified user) cfg)))"

definition logout :: "auth_user \<Rightarrow> int \<Rightarrow> unit acc_op" where
  "logout user now = revoke_sessions (au_id user) now"

definition me :: "auth_user \<Rightarrow> config \<Rightarrow> accounts \<Rightarrow> (string \<times> bool \<times> bool) sarca_result" where
  "me user cfg a = res_bind (get_user (au_id user) a) (\<lambda>u.
     Inr (u_email u, email_verified u, eq_ignore_ascii_case (u_email u) (cf_superuser_email cfg)))"

section \<open>The middleware\<close>

record request =
  rq_method :: string
  rq_path :: string
  rq_query :: "string option"
  rq_authorization :: "string option"

definition bearer_token :: "request \<Rightarrow> string option" where
  "bearer_token req = (case rq_authorization req of None \<Rightarrow> None | Some v \<Rightarrow> strip_prefix ''Bearer '' v)"

fun after_first :: "string \<Rightarrow> string \<Rightarrow> string option" where
  "after_first sep [] = (if sep = [] then Some [] else None)"
| "after_first sep (c # cs) = (case strip_prefix sep (c # cs) of
     Some rest \<Rightarrow> Some rest | None \<Rightarrow> after_first sep cs)"

text \<open>The path is the one the client sent, before any router cut a prefix off it.\<close>

definition is_media_get :: "request \<Rightarrow> bool" where
  "is_media_get req \<longleftrightarrow> rq_method req = ''GET'' \<and>
     (case after_first ''/files/'' (rq_path req) of
        None \<Rightarrow> False
      | Some rest \<Rightarrow> hd (split_on CHR ''/'' rest) \<in> {''download'', ''thumb'', ''preview''})"

text \<open>\<open>splitn(2, '=')\<close>: the part before the first \<open>=\<close>, and what follows it, if there is one.\<close>

definition query_value :: "externals \<Rightarrow> string \<Rightarrow> string option" where
  "query_value ex pair = (case split_once CHR ''='' pair of
     None \<Rightarrow> None
   | Some (name, raw) \<Rightarrow>
       if name = ''access_token'' then
         (let token = ex_percent_decode ex raw in if token = [] then None else Some token)
       else None)"

fun first_some :: "('a \<Rightarrow> 'b option) \<Rightarrow> 'a list \<Rightarrow> 'b option" where
  "first_some f [] = None"
| "first_some f (x # xs) = (case f x of Some y \<Rightarrow> Some y | None \<Rightarrow> first_some f xs)"

definition request_token :: "externals \<Rightarrow> request \<Rightarrow> string option" where
  "request_token ex req =
     (case bearer_token req of
        Some t \<Rightarrow> Some t
      | None \<Rightarrow> if is_media_get req
                then (case rq_query req of
                    None \<Rightarrow> None | Some q \<Rightarrow> first_some (query_value ex) (split_on CHR ''&'' q))
                else None)"

definition authenticate_request :: "externals \<Rightarrow> config \<Rightarrow> int \<Rightarrow> request \<Rightarrow> auth_user sarca_result" where
  "authenticate_request ex cfg now req = (case request_token ex req of
     Some token \<Rightarrow> validate ex now token (cf_secret cfg) | None \<Rightarrow> Inl NotAuthenticated)"

definition user_lookup_failure :: "sarca_error \<Rightarrow> sarca_error" where
  "user_lookup_failure e = (case e of DoesNotExist _ \<Rightarrow> NotAuthenticated | other \<Rightarrow> other)"

text \<open>The identity the handlers get: the row's, never the token's.\<close>

definition logged_in_required :: "externals \<Rightarrow> config \<Rightarrow> int \<Rightarrow> request \<Rightarrow> accounts \<Rightarrow> auth_user sarca_result" where
  "logged_in_required ex cfg now req a =
     res_bind (authenticate_request ex cfg now req) (\<lambda>auth.
       (case get_user (au_id auth) a of
          Inl e \<Rightarrow> Inl (user_lookup_failure e)
        | Inr user \<Rightarrow>
            if \<not> session_is_live (au_issued_at auth) user then Inl NotAuthenticated
            else if is_disabled user then Inl NotAuthenticated
            else Inr (new_auth_user (u_id user) (u_email user))))"

section \<open>Account management\<close>

definition require_superuser :: "auth_user \<Rightarrow> config \<Rightarrow> unit sarca_result" where
  "require_superuser user cfg =
     (if eq_ignore_ascii_case (au_email user) (cf_superuser_email cfg) then Inr () else Inl Forbidden)"

record user_out =
  uo_id :: uuid
  uo_email :: string
  uo_email_verified :: bool
  uo_is_superuser :: bool
  uo_disabled :: bool

definition list_for_superuser :: "auth_user \<Rightarrow> config \<Rightarrow> accounts \<Rightarrow> user_out list sarca_result" where
  "list_for_superuser actor cfg a = res_bind (require_superuser actor cfg) (\<lambda>_.
     Inr (map (\<lambda>u. \<lparr>uo_id = u_id u, uo_email = u_email u, uo_email_verified = email_verified u,
                 uo_is_superuser = eq_ignore_ascii_case (u_email u) (cf_superuser_email cfg),
                 uo_disabled = is_disabled u\<rparr>) (list_all_users a)))"

text \<open>A hash that cannot be made panics in the source: the request fails and nothing is written.\<close>

definition create_by_superuser ::
  "externals \<Rightarrow> auth_user \<Rightarrow> string \<Rightarrow> string \<Rightarrow> config \<Rightarrow> uuid \<Rightarrow> int \<Rightarrow> unit acc_op" where
  "create_by_superuser ex actor email password cfg i now a =
     (case require_superuser actor cfg of
        Inl e \<Rightarrow> (Inl e, a)
      | Inr _ \<Rightarrow> (case ex_hash ex password of
          None \<Rightarrow> (Inl Unknown, a)
        | Some h \<Rightarrow> (case create_user i email (Some h) (Some now) a of
            (Inl e, a') \<Rightarrow> (Inl e, a') | (Inr _, a') \<Rightarrow> (Inr (), a'))))"

definition change_own_password ::
  "externals \<Rightarrow> auth_user \<Rightarrow> string \<Rightarrow> string \<Rightarrow> int \<Rightarrow> user_row acc_op" where
  "change_own_password ex actor current_password new_password now a =
     (case get_user (au_id actor) a of
        Inl e \<Rightarrow> (Inl e, a)
      | Inr user \<Rightarrow> (case u_hash user of
          None \<Rightarrow> (Inl NotAuthenticated, a)
        | Some h \<Rightarrow>
            (case res_bind (password_verify ex current_password h) (\<lambda>_. password_generate ex new_password) of
               Inl e \<Rightarrow> (Inl e, a)
             | Inr new_hash \<Rightarrow>
                 (case update_password_hash_by_id (u_id user) new_hash now a of
                    (Inl e, a') \<Rightarrow> (Inl e, a')
                  | (Inr _, a') \<Rightarrow> (get_user (u_id user) a', a')))))"

definition set_password_by_superuser ::
  "externals \<Rightarrow> auth_user \<Rightarrow> uuid \<Rightarrow> string \<Rightarrow> config \<Rightarrow> int \<Rightarrow> unit acc_op" where
  "set_password_by_superuser ex actor i new_password cfg now a =
     (case res_bind (require_superuser actor cfg) (\<lambda>_. password_generate ex new_password) of
        Inl e \<Rightarrow> (Inl e, a) | Inr h \<Rightarrow> update_password_hash_by_id i h now a)"

definition set_disabled_by_superuser :: "auth_user \<Rightarrow> uuid \<Rightarrow> bool \<Rightarrow> config \<Rightarrow> int \<Rightarrow> unit acc_op" where
  "set_disabled_by_superuser actor i disabled cfg now a =
     (case res_bind (require_superuser actor cfg) (\<lambda>_. get_user i a) of
        Inl e \<Rightarrow> (Inl e, a)
      | Inr target \<Rightarrow>
          if eq_ignore_ascii_case (u_email target) (cf_superuser_email cfg) \<or> u_id target = au_id actor
          then (Inl Forbidden, a)
          else set_disabled i disabled now a)"

definition user_directory :: "auth_user \<Rightarrow> config \<Rightarrow> accounts \<Rightarrow> (uuid \<times> string) list sarca_result" where
  "user_directory actor cfg a =
     (if \<not> eq_ignore_ascii_case (au_email actor) (cf_superuser_email cfg) \<and>
         \<not> has_any_admin_access (au_id actor) a
      then Inl Forbidden
      else Inr (filter (\<lambda>(i, _). i \<noteq> au_id actor) (list_directory a)))"

section \<open>The login endpoint\<close>

definition login_endpoint ::
  "externals \<Rightarrow> config \<Rightarrow> nat \<Rightarrow> int \<Rightarrow> string \<Rightarrow> string \<Rightarrow> accounts \<Rightarrow> throttle \<Rightarrow> token_schema sarca_result \<times> throttle" where
  "login_endpoint ex cfg clock now email password a th =
     (let key = login_key (ex_lowercase ex) email
      in case check key clock th of
           (Inl e, th') \<Rightarrow> (Inl e, th')
         | (Inr delay, th') \<Rightarrow>
             (case login ex cfg now email password a of
                Inr schema \<Rightarrow> (Inr schema, record_success key th')
              | Inl e \<Rightarrow> (Inl e, record_failure_at key (clock + delay) th')))"

section \<open>Properties: sessions\<close>

text \<open>What the token crate documents: a sealed token opens to what was sealed until it expires.\<close>

definition token_codec :: "externals \<Rightarrow> bool" where
  "token_codec ex \<longleftrightarrow> (\<forall>now p k. now \<le> pl_exp p \<longrightarrow> ex_open ex now (ex_seal ex p k) k = Some p)"

lemma get_by_email_Inr:
  "get_by_email email a = Inr u \<Longrightarrow> u \<in> set (acc_users a) \<and> u_email u = email"
  by (auto simp: get_by_email_def find_Some_iff split: option.splits)

lemma get_user_Inr_iff:
  "accounts_inv a \<Longrightarrow> get_user i a = Inr u \<longleftrightarrow> u \<in> set (acc_users a) \<and> u_id u = i"
proof -
  assume "accounts_inv a"
  then have "keys_ok u_id (acc_users a)" by (simp add: accounts_inv_def)
  then show ?thesis using row_get_Some_iff [of u_id "acc_users a" i u]
    by (cases "row_get u_id i (acc_users a)") (auto simp: get_user_def)
qed

lemma login_Inr:
  assumes "login ex cfg now email password a = Inr ts"
  obtains u h where "u \<in> set (acc_users a)" "u_email u = email" "\<not> is_disabled u" "u_hash u = Some h"
    "ex_verify ex password h" "ts = issue_tokens ex now (new_auth_user (u_id u) (u_email u)) (email_verified u) cfg"
  using assms get_by_email_Inr [of email a]
  by (auto simp: login_def password_verify_def split: sum.splits if_splits option.splits)

lemma login_error_uniform: "login ex cfg now email password a = Inl e \<Longrightarrow> e = NotAuthenticated"
  by (auto simp: login_def password_verify_def split: sum.splits if_splits option.splits)

lemma validate_generated:
  assumes "token_codec ex" and "now \<le> t" "t \<le> now + d" and "ex_parse_uuid ex (au_id u) = Some (au_id u)"
  shows "validate_with_type ex t (generate ex now u d k ty) k expected =
    (if ty = expected then Inr \<lparr>au_id = au_id u, au_email = au_email u, au_issued_at = now\<rparr>
     else Inl NotAuthenticated)"
  using assms by (simp add: validate_with_type_def generate_def token_codec_def)

lemma share_unlock_is_no_session:
  assumes "token_codec ex" and "t \<le> now + d"
  shows "validate_with_type ex t (generate_share_unlock ex now link d k) k expected = Inl NotAuthenticated"
  using assms by (simp add: validate_with_type_def generate_share_unlock_def token_codec_def)

text \<open>
  A login opens a session and nothing more: it succeeds only for an enabled account whose
  password matches, and until the access token expires every request that carries it is let
  through as that account. The refresh token it came with is refused there, as the access token is
  where a refresh token is wanted.
\<close>

theorem login_opens_session:
  assumes "token_codec ex" and inv: "accounts_inv a" and "login ex cfg now email password a = Inr ts"
    and ids: "\<And>u. u \<in> set (acc_users a) \<Longrightarrow> ex_parse_uuid ex (u_id u) = Some (u_id u) \<and> u_valid_after u \<le> now"
    and t: "now \<le> t" "t \<le> now + cf_access_secs cfg" "t \<le> now + cf_refresh_days cfg * 24 * 3600"
    and req: "rq_authorization req = Some (''Bearer '' @ ts_access ts)"
      "rq_authorization req' = Some (''Bearer '' @ ts_refresh ts)"
  shows "\<exists>u h. u \<in> set (acc_users a) \<and> u_email u = email \<and> \<not> is_disabled u \<and>
     u_hash u = Some h \<and> ex_verify ex password h \<and>
     logged_in_required ex cfg t req a = Inr (new_auth_user (u_id u) email) \<and>
     logged_in_required ex cfg t req' a = Inl NotAuthenticated \<and>
     refresh ex cfg t (ts_access ts) a = Inl NotAuthenticated"
proof -
  obtain u h where u: "u \<in> set (acc_users a)" "u_email u = email" "\<not> is_disabled u" "u_hash u = Some h"
    "ex_verify ex password h" and ts: "ts = issue_tokens ex now (new_auth_user (u_id u) (u_email u)) (email_verified u) cfg"
    by (rule login_Inr [OF assms(3)])
  have strip: "strip_prefix ''Bearer '' (''Bearer '' @ x) = Some x" for x
    by (simp add: strip_prefix_Some_iff)
  have id: "ex_parse_uuid ex (u_id u) = Some (u_id u)" and va: "u_valid_after u \<le> now" using ids [OF u(1)] by auto
  have acc: "validate_with_type ex t (ts_access ts) (cf_secret cfg) expected =
      (if token_type_access = expected then Inr \<lparr>au_id = u_id u, au_email = email, au_issued_at = now\<rparr>
       else Inl NotAuthenticated)" for expected
    using validate_generated [OF assms(1) t(1,2), of "new_auth_user (u_id u) (u_email u)"] id u(2)
    by (simp add: ts issue_tokens_def new_auth_user_def)
  have ref: "validate_with_type ex t (ts_refresh ts) (cf_secret cfg) token_type_access = Inl NotAuthenticated"
    using validate_generated [OF assms(1) t(1,3), of "new_auth_user (u_id u) (u_email u)" "cf_secret cfg" token_type_refresh token_type_access] id
    by (simp add: ts issue_tokens_def new_auth_user_def token_type_access_def token_type_refresh_def)
  have get: "get_user (u_id u) a = Inr u" using get_user_Inr_iff [OF inv] u(1) by simp
  have "logged_in_required ex cfg t req a = Inr (new_auth_user (u_id u) email)"
    using acc [of token_type_access] get va u(2,3)
    by (simp add: logged_in_required_def authenticate_request_def request_token_def bearer_token_def
        req strip validate_def session_is_live_def)
  moreover have "logged_in_required ex cfg t req' a = Inl NotAuthenticated"
    using ref by (simp add: logged_in_required_def authenticate_request_def request_token_def
        bearer_token_def req strip validate_def)
  moreover have "refresh ex cfg t (ts_access ts) a = Inl NotAuthenticated"
    using acc [of token_type_refresh]
    by (simp add: refresh_def validate_refresh_def token_type_access_def token_type_refresh_def)
  ultimately show ?thesis using u by blast
qed

text \<open>A codec to run the model with: the token spells out its payload, and the key is checked.\<close>

fun spell :: "string \<Rightarrow> string" where
  "spell [] = ''.''"
| "spell (c # cs) = CHR ''x'' # c # spell cs"

fun unspell :: "string \<Rightarrow> (string \<times> string) option" where
  "unspell (x # r) = (if x = CHR ''.'' then Some ([], r) else (case r of
     [] \<Rightarrow> None | c # r' \<Rightarrow> map_option (\<lambda>(s, q). (c # s, q)) (unspell r')))"
| "unspell [] = None"

lemma unspell_spell [simp]: "unspell (spell s @ r) = Some (s, r)"
  by (induction s) auto

definition spell_int :: "int \<Rightarrow> string" where
  "spell_int n = (if n < 0 then CHR ''-'' # replicate (nat (- n)) CHR ''1'' else CHR ''+'' # replicate (nat n) CHR ''1'')"

definition unspell_int :: "string \<Rightarrow> int" where
  "unspell_int s = (if hd s = CHR ''-'' then - int (length s - 1) else int (length s - 1))"

lemma unspell_int_spell [simp]: "unspell_int (spell_int n) = n"
  by (simp add: unspell_int_def spell_int_def)

definition spell_opt :: "string option \<Rightarrow> string" where
  "spell_opt s = (case s of None \<Rightarrow> [] | Some x \<Rightarrow> CHR ''S'' # x)"

definition unspell_opt :: "string \<Rightarrow> string option" where
  "unspell_opt s = (case s of [] \<Rightarrow> None | _ # x \<Rightarrow> Some x)"

lemma unspell_opt_spell [simp]: "unspell_opt (spell_opt s) = s"
  by (cases s) (simp_all add: unspell_opt_def spell_opt_def)

definition sample_seal :: "payload \<Rightarrow> string \<Rightarrow> string" where
  "sample_seal p k = spell k @ spell (pl_sub p) @ spell (spell_int (pl_exp p)) @
     spell (spell_opt (pl_email p)) @ spell (spell_opt (pl_type p)) @
     spell (spell_opt (map_option spell_int (pl_iat p)))"

definition sample_open :: "int \<Rightarrow> string \<Rightarrow> string \<Rightarrow> payload option" where
  "sample_open now token k =
     Option.bind (unspell token) (\<lambda>(key, r1). Option.bind (unspell r1) (\<lambda>(sub, r2).
     Option.bind (unspell r2) (\<lambda>(expires, r3). Option.bind (unspell r3) (\<lambda>(email, r4).
     Option.bind (unspell r4) (\<lambda>(ty, r5). Option.bind (unspell r5) (\<lambda>(iat, _).
       if key = k \<and> now \<le> unspell_int expires
       then Some \<lparr>pl_sub = sub, pl_exp = unspell_int expires, pl_email = unspell_opt email,
                  pl_type = unspell_opt ty, pl_iat = map_option unspell_int (unspell_opt iat)\<rparr>
       else None))))))"

definition sample_externals :: externals where
  "sample_externals = \<lparr>ex_seal = sample_seal, ex_open = sample_open, ex_parse_uuid = Some,
     ex_hash = (\<lambda>p. Some (CHR ''h'' # p)), ex_verify = (\<lambda>p h. h = CHR ''h'' # p),
     ex_lowercase = to_ascii_lowercase, ex_percent_decode = (\<lambda>s. s)\<rparr>"

lemma sample_codec: "token_codec sample_externals"
proof -
  have last: "unspell (spell s) = Some (s, [])" for s using unspell_spell [of s "[]"] by simp
  have iat: "map_option unspell_int (map_option spell_int x) = x" for x
    by (cases x) simp_all
  show ?thesis
    by (simp add: token_codec_def sample_externals_def sample_open_def sample_seal_def last iat)
qed

definition sample_config :: config where
  "sample_config = \<lparr>cf_superuser_email = ''root@b.c'', cf_access_secs = 10, cf_refresh_days = 1,
     cf_secret = ''k'', cf_has_tls_hostname = False\<rparr>"

definition bearer_request :: "string \<Rightarrow> request" where
  "bearer_request token = \<lparr>rq_method = ''POST'', rq_path = ''/api/users'', rq_query = None,
     rq_authorization = Some (''Bearer '' @ token)\<rparr>"

definition sample_users :: accounts where
  "sample_users = sample_accounts\<lparr>acc_users := [\<lparr>u_id = ''u1'', u_email = ''a@b.c'', u_hash = Some ''hpw'',
     u_verified = None, u_valid_after = 0, u_disabled = None\<rparr>]\<rparr>"

definition sample_tokens :: token_schema where
  "sample_tokens = issue_tokens sample_externals 3 (new_auth_user ''u1'' ''a@b.c'') False sample_config"

lemma sample_users_inv: "accounts_inv sample_users"
  by (simp add: accounts_inv_def sample_users_def sample_accounts_def keys_ok_def grants_unique_def)

lemma sample_login: "login sample_externals sample_config 3 ''a@b.c'' ''pw'' sample_users = Inr sample_tokens"
  by (simp add: login_def get_by_email_def sample_users_def is_disabled_def password_verify_def
      sample_externals_def [THEN arg_cong, of ex_verify] email_verified_def sample_tokens_def)

theorem login_opens_session_witness:
  "logged_in_required sample_externals sample_config 5 (bearer_request (ts_access sample_tokens)) sample_users =
     Inr (new_auth_user ''u1'' ''a@b.c'') \<and>
   logged_in_required sample_externals sample_config 5 (bearer_request (ts_refresh sample_tokens)) sample_users =
     Inl NotAuthenticated"
proof -
  have "\<exists>u h. u \<in> set (acc_users sample_users) \<and> u_email u = ''a@b.c'' \<and> \<not> is_disabled u \<and>
     u_hash u = Some h \<and> ex_verify sample_externals ''pw'' h \<and>
     logged_in_required sample_externals sample_config 5 (bearer_request (ts_access sample_tokens)) sample_users =
       Inr (new_auth_user (u_id u) ''a@b.c'') \<and>
     logged_in_required sample_externals sample_config 5 (bearer_request (ts_refresh sample_tokens)) sample_users =
       Inl NotAuthenticated \<and>
     refresh sample_externals sample_config 5 (ts_access sample_tokens) sample_users = Inl NotAuthenticated"
    by (rule login_opens_session [OF sample_codec sample_users_inv sample_login])
      (auto simp: sample_externals_def sample_users_def sample_config_def bearer_request_def)
  then show ?thesis by (auto simp: sample_users_def)
qed

section \<open>Ending sessions\<close>

datatype eviction = LogOut | ChangePassword string | Disable

definition evict :: "eviction \<Rightarrow> uuid \<Rightarrow> int \<Rightarrow> unit acc_op" where
  "evict ev i now = (case ev of
     LogOut \<Rightarrow> revoke_sessions i now
   | ChangePassword h \<Rightarrow> update_password_hash_by_id i h now
   | Disable \<Rightarrow> set_disabled i True now)"

lemma evict_valid_after:
  assumes "evict ev i now a = (Inr (), a')" and "get_user i a' = Inr u"
  shows "u_valid_after u = now"
proof -
  obtain f where f: "a' = set_user i f a" "\<And>u. u_id (f u) = u_id u" "\<And>u. u_valid_after (f u) = now"
    using assms(1)
    by (auto simp: evict_def revoke_sessions_def update_password_hash_by_id_def set_disabled_def update_user_def
        split: eviction.splits if_splits)
  then show ?thesis
    using assms(2) get_set_user [of f i i a] by (auto simp: get_user_def split: option.splits)
qed

text \<open>
  C12. Logging out, changing a password and disabling an account end the sessions of that account:
  no token issued before that second is accepted again, neither as a session by the middleware nor
  to get new tokens.
\<close>

theorem eviction_ends_sessions:
  assumes "evict ev i now a = (Inr (), a')"
    and "authenticate_request ex cfg t req = Inr auth" "au_id auth = i" "au_issued_at auth < now"
    and "validate_refresh ex t' token (cf_secret cfg) = Inr auth'" "au_id auth' = i" "au_issued_at auth' < now"
  shows "logged_in_required ex cfg t req a' = Inl NotAuthenticated \<and>
     refresh ex cfg t' token a' = Inl NotAuthenticated"
  using assms(2-) evict_valid_after [OF assms(1)]
  by (auto simp: logged_in_required_def refresh_def session_is_live_def user_lookup_failure_def
      get_user_def not_found_def split: option.splits)

text \<open>The second itself is not covered: a token issued in it survives.\<close>

lemma same_second_token_survives:
  assumes "evict LogOut i now a = (Inr (), a')" and "get_user i a' = Inr u" and "\<not> is_disabled u"
    and "authenticate_request ex cfg t req = Inr auth" "au_id auth = i" "au_issued_at auth = now"
  shows "logged_in_required ex cfg t req a' = Inr (new_auth_user (u_id u) (u_email u))"
  using assms(2-) evict_valid_after [OF assms(1,2)]
  by (simp add: logged_in_required_def session_is_live_def)

theorem eviction_ends_sessions_witness:
  "logged_in_required sample_externals sample_config 5 (bearer_request (ts_access sample_tokens))
     (snd (evict LogOut ''u1'' 4 sample_users)) = Inl NotAuthenticated"
proof -
  let ?auth = "\<lparr>au_id = ''u1'', au_email = ''a@b.c'', au_issued_at = 3\<rparr>"
  let ?u = "new_auth_user ''u1'' ''a@b.c''"
  have parse: "ex_parse_uuid sample_externals (au_id ?u) = Some (au_id ?u)" by (simp add: sample_externals_def)
  have strip: "strip_prefix ''Bearer '' (''Bearer '' @ x) = Some x" for x by (simp add: strip_prefix_Some_iff)
  have ev: "evict LogOut ''u1'' 4 sample_users = (Inr (), snd (evict LogOut ''u1'' 4 sample_users))"
    by (simp add: evict_def revoke_sessions_def)
  have acc: "authenticate_request sample_externals sample_config 5 (bearer_request (ts_access sample_tokens)) = Inr ?auth"
    using validate_generated [OF sample_codec, of 3 5 10 ?u "''k''" token_type_access token_type_access] parse
    by (simp add: authenticate_request_def request_token_def bearer_token_def bearer_request_def strip
        validate_def sample_tokens_def issue_tokens_def sample_config_def new_auth_user_def)
  have ref: "validate_refresh sample_externals 5 (ts_refresh sample_tokens) (cf_secret sample_config) = Inr ?auth"
    using validate_generated [OF sample_codec, of 3 5 86400 ?u "''k''" token_type_refresh token_type_refresh] parse
    by (simp add: validate_refresh_def sample_tokens_def issue_tokens_def sample_config_def new_auth_user_def)
  show ?thesis
    using eviction_ends_sessions [OF ev acc _ _ ref] by simp
qed

section \<open>Guessing at the login endpoint\<close>

interpretation login_guard: guarded_endpoint "login_key (ex_lowercase ex) email"
    "\<lambda>clock password th. login_endpoint ex cfg clock now email password a th"
    "\<lambda>password. login ex cfg now email password a = Inl NotAuthenticated"
    "Inl TooManyAttempts" "Inl NotAuthenticated"
  for ex cfg now email a
proof
  fix c th e th' p
  assume locked: "check (login_key (ex_lowercase ex) email) c th = (Inl e, th')"
  then have "e = TooManyAttempts" by (auto simp: check_def split: prod.splits decision.splits)
  then show "login_endpoint ex cfg c now email p a th = (Inl TooManyAttempts, th')"
    using locked by (simp add: login_endpoint_def Let_def)
qed (simp_all add: login_endpoint_def Let_def)

text \<open>
  C32. However many passwords are tried against an account in a quarter of an hour, one after the
  other, at most 25 of them are compared with the stored one; the rest are refused unseen.
\<close>

theorem guesses_are_limited:
  assumes "keys_ok at_key th" and "row_get at_key (login_key (ex_lowercase ex) email) th = None"
    and "length th < max_keys"
    and "\<And>c p. (c, p) \<in> set tries \<Longrightarrow> start \<le> c \<and> c + max_delay < start + decay"
    and "\<And>p. p \<in> snd ` set tries \<Longrightarrow> login ex cfg now email p a = Inl NotAuthenticated"
  shows "length (filter (\<lambda>r. r \<noteq> Inl TooManyAttempts) (guess_run (\<lambda>clock password. login_endpoint ex cfg clock now email password a) tries th)) \<le> 25"
  using login_guard.guesses_bounded [where ex = ex and email = email and cfg = cfg and now = now and a = a
      and th = th and tries = tries and start = start] assms
  by (force simp: lock_attempts_def)

theorem guesses_are_limited_witness:
  "length (filter (\<lambda>r. r \<noteq> Inl TooManyAttempts)
     (guess_run (\<lambda>clock password. login_endpoint sample_externals sample_config clock 3 ''a@b.c'' password sample_users) (map (\<lambda>i. (i * 20000, ''x'')) [0..<40]) [])) \<le> 25"
proof (rule guesses_are_limited [where start = 0])
  have "login sample_externals sample_config 3 ''a@b.c'' ''x'' sample_users = Inl NotAuthenticated"
    by (simp add: login_def get_by_email_def sample_users_def is_disabled_def password_verify_def
        sample_externals_def [THEN arg_cong, of ex_verify])
  then show "login sample_externals sample_config 3 ''a@b.c'' p sample_users = Inl NotAuthenticated"
    if "p \<in> snd ` set (map (\<lambda>i. (i * 20000, ''x'')) [0..<40])" for p
    using that by auto
qed (auto simp: max_keys_def max_delay_def decay_def)

end
