(* ===== verification/ServerSync.thy ===== *)
theory ServerSync
  imports FilesRepo Accounts
begin

text \<open>
  The sync service (src/sarca/src/repositories/sync.rs, services/sync.rs, schemas/sync.rs): the
  changelog in pages, and the snapshot a client begins with.
\<close>

section \<open>The repository\<close>

definition sync_changelog :: "uuid \<Rightarrow> int \<Rightarrow> int \<Rightarrow> files_db \<Rightarrow> sync_event list" where
  "sync_changelog storage cursor limit db =
     take (nat limit) (sort_key fe_id (filter (\<lambda>e. fe_storage e = storage \<and> cursor < fe_id e) (fd_events db)))"

definition max_cursor :: "uuid \<Rightarrow> files_db \<Rightarrow> int" where
  "max_cursor storage db = (case map fe_id (filter (\<lambda>e. fe_storage e = storage) (fd_events db)) of
     [] \<Rightarrow> 0 | i # is \<Rightarrow> fold max is i)"

record sync_entry =
  sn_file_id :: uuid
  sn_path :: string
  sn_size :: int
  sn_is_file :: bool
  sn_hash :: "string option"
  sn_mtime :: "int option"
  sn_updated :: int

definition sync_snapshot :: "uuid \<Rightarrow> files_db \<Rightarrow> sync_entry list" where
  "sync_snapshot storage db =
     map (\<lambda>r. \<lparr>sn_file_id = f_id r, sn_path = f_path r, sn_size = f_size r,
               sn_is_file = (\<not> is_folder_path (f_path r)), sn_hash = f_hash r,
               sn_mtime = f_source_mtime r, sn_updated = f_updated r\<rparr>)
       (sort_key f_path (filter (\<lambda>r. f_storage r = storage \<and> visible r) (fd_files db)))"

section \<open>The service\<close>

record sync_page =
  pg_events :: "sync_event list"
  pg_next_cursor :: int
  pg_has_more :: bool

definition new_changelog_response :: "sync_event list \<Rightarrow> int \<Rightarrow> sync_page" where
  "new_changelog_response events requested_limit =
     \<lparr>pg_events = events, pg_next_cursor = (if events = [] then 0 else fe_id (last events)),
      pg_has_more = (requested_limit \<le> int (length events))\<rparr>"

definition clamp_int :: "int \<Rightarrow> int \<Rightarrow> int \<Rightarrow> int" where
  "clamp_int lo hi n = max lo (min hi n)"

definition changelog_service ::
  "uuid \<Rightarrow> uuid \<Rightarrow> int option \<Rightarrow> int option \<Rightarrow> accounts \<Rightarrow> files_db \<Rightarrow> sync_page sarca_result" where
  "changelog_service storage user cursor limit a db =
     res_bind (check_access user storage AR a) (\<lambda>_.
       (let c = max 0 (case cursor of None \<Rightarrow> 0 | Some n \<Rightarrow> n);
            l = clamp_int 1 2000 (case limit of None \<Rightarrow> 500 | Some n \<Rightarrow> n)
        in Inr (new_changelog_response (sync_changelog storage c l db) l)))"

text \<open>
  The snapshot is two reads: the files, then the cursor. \<open>others\<close> is what other requests do to
  the store between them.
\<close>

definition snapshot_service ::
  "(files_db \<Rightarrow> files_db) \<Rightarrow> uuid \<Rightarrow> uuid \<Rightarrow> accounts \<Rightarrow> files_db \<Rightarrow> (sync_entry list \<times> int) sarca_result" where
  "snapshot_service others storage user a db =
     res_bind (check_access user storage AR a) (\<lambda>_.
       Inr (sync_snapshot storage db, max_cursor storage (others db)))"

section \<open>Reading the changelog to its end\<close>

text \<open>A client asks page by page until one says there is no more.\<close>

fun read_pages :: "nat \<Rightarrow> uuid \<Rightarrow> uuid \<Rightarrow> int \<Rightarrow> int option \<Rightarrow> accounts \<Rightarrow> files_db \<Rightarrow> sync_event list option" where
  "read_pages 0 storage user cursor limit a db = None"
| "read_pages (Suc fuel) storage user cursor limit a db =
     (case changelog_service storage user (Some cursor) limit a db of
        Inl e \<Rightarrow> None
      | Inr page \<Rightarrow>
          if pg_has_more page
          then map_option (\<lambda>rest. pg_events page @ rest)
                 (read_pages fuel storage user (pg_next_cursor page) limit a db)
          else Some (pg_events page))"

definition events_after :: "uuid \<Rightarrow> int \<Rightarrow> files_db \<Rightarrow> sync_event list" where
  "events_after storage cursor db = filter (\<lambda>e. fe_storage e = storage \<and> cursor < fe_id e) (fd_events db)"

lemma sorted_events_after:
  assumes "files_inv db"
  shows "sorted_wrt (<) (map fe_id (events_after storage cursor db))"
  using assms by (simp add: files_inv_def events_after_def sorted_wrt_filter sorted_wrt_map)

lemma sync_changelog_take:
  assumes "files_inv db"
  shows "sync_changelog storage cursor limit db = take (nat limit) (events_after storage cursor db)"
proof -
  have "sorted (map fe_id (events_after storage cursor db))"
    using sorted_events_after [OF assms] by (rule strict_sorted_imp_sorted)
  then have "sort_key fe_id (events_after storage cursor db) = events_after storage cursor db"
    by (rule sort_key_id_if_sorted)
  then show ?thesis by (simp add: sync_changelog_def events_after_def)
qed

lemma filter_after_last_taken:
  assumes "sorted_wrt (<) (map key xs)" and "0 < l" "l \<le> length xs"
  shows "filter (\<lambda>x. key (last (take l xs)) < (key x :: int)) xs = drop l xs"
proof -
  have last: "last (take l xs) = xs ! (l - 1)" using assms(2,3) by (subst last_conv_nth) auto
  have lt: "key (xs ! i) < key (xs ! j)" if "i < j" "j < length xs" for i j
    using assms(1) that by (auto simp: sorted_wrt_iff_nth_less)
  have "filter (\<lambda>x. key (xs ! (l - 1)) < key x) (take l xs) = []"
  proof -
    have "\<not> key (xs ! (l - 1)) < key x" if x: "x \<in> set (take l xs)" for x
    proof -
      obtain i where i: "i < length (take l xs)" "take l xs ! i = x" using x by (auto simp: in_set_conv_nth)
      show ?thesis
      proof (cases "i = l - 1")
        case False
        then have "key (xs ! i) < key (xs ! (l - 1))" using lt [of i "l - 1"] i(1) assms(3) by auto
        then show ?thesis using i by auto
      qed (use i in auto)
    qed
    then show ?thesis by (simp add: filter_empty_conv)
  qed
  moreover have "filter (\<lambda>x. key (xs ! (l - 1)) < key x) (drop l xs) = drop l xs"
    using lt assms(2) by (auto simp: filter_id_conv in_set_conv_nth)
  ultimately show ?thesis
    unfolding last by (metis append_take_drop_id filter_append self_append_conv2)
qed

lemma events_after_later:
  assumes "cursor \<le> d"
  shows "events_after storage d db = filter (\<lambda>e. d < fe_id e) (events_after storage cursor db)"
  unfolding events_after_def filter_filter using assms by (intro filter_cong) auto

lemma events_after_after:
  assumes "files_inv db" and "0 < l" "l \<le> length (events_after storage cursor db)"
  shows "events_after storage (fe_id (last (take l (events_after storage cursor db)))) db =
    drop l (events_after storage cursor db)"
proof -
  let ?E = "events_after storage cursor db"
  have "take l ?E \<noteq> []" using assms(2,3) by auto
  then have "last (take l ?E) \<in> set ?E" by (meson in_set_takeD last_in_set)
  then have "cursor < fe_id (last (take l ?E))" by (simp add: events_after_def)
  then have "events_after storage (fe_id (last (take l ?E))) db = filter (\<lambda>e. fe_id (last (take l ?E)) < fe_id e) ?E"
    by (intro events_after_later) simp
  then show ?thesis using filter_after_last_taken [OF sorted_events_after [OF assms(1)] assms(2,3)] by simp
qed

lemma read_pages_run:
  assumes inv: "files_inv db" and acc: "check_access user storage AR a = Inr ()" and "0 \<le> cursor"
    and l: "l = nat (clamp_int 1 2000 (case limit of None \<Rightarrow> 500 | Some n \<Rightarrow> n))"
    and "length (events_after storage cursor db) div l < fuel"
  shows "read_pages fuel storage user cursor limit a db = Some (events_after storage cursor db)"
  using assms(3,5)
proof (induction fuel arbitrary: cursor)
  case (Suc fuel)
  let ?E = "events_after storage cursor db"
  have l1: "1 \<le> l" and lint: "clamp_int 1 2000 (case limit of None \<Rightarrow> 500 | Some n \<Rightarrow> n) = int l"
    using l by (auto simp: clamp_int_def)
  have page: "changelog_service storage user (Some cursor) limit a db = Inr (new_changelog_response (take l ?E) (int l))"
    using acc Suc.prems(1) sync_changelog_take [OF inv] by (simp add: changelog_service_def Let_def lint max_absorb2)
  show ?case
  proof (cases "l \<le> length ?E")
    case False
    then show ?thesis using page by (simp add: new_changelog_response_def)
  next
    case True
    then have ne: "take l ?E \<noteq> []" using l1 by auto
    let ?c = "fe_id (last (take l ?E))"
    have rest: "events_after storage ?c db = drop l ?E" using events_after_after [OF inv _ True] l1 by simp
    have "last (take l ?E) \<in> set ?E" using ne by (meson in_set_takeD last_in_set)
    then have "0 \<le> ?c" using Suc.prems(1) by (simp add: events_after_def)
    moreover have "length (events_after storage ?c db) div l < fuel"
      using Suc.prems(2) True l1 unfolding rest by (simp add: le_div_geq)
    ultimately have "read_pages fuel storage user ?c limit a db = Some (drop l ?E)"
      using Suc.IH rest by simp
    then show ?thesis using page True ne by (simp add: new_changelog_response_def)
  qed
qed simp

text \<open>
  Reading the changelog page by page loses nothing and ends: whatever page size the client
  asks for, the pages are exactly the events of the storage after the cursor, in order, and it
  takes at most one request more than the number of full pages.
\<close>

theorem changelog_pages_complete:
  assumes "files_inv db" and "check_access user storage AR a = Inr ()" and "0 \<le> cursor"
    and "length (events_after storage cursor db) < fuel"
  shows "read_pages fuel storage user cursor limit a db = Some (events_after storage cursor db)"
proof (rule read_pages_run [OF assms(1-3) refl])
  show "length (events_after storage cursor db) div nat (clamp_int 1 2000 (case limit of None \<Rightarrow> 500 | Some n \<Rightarrow> n)) < fuel"
    using assms(4) div_le_dividend le_less_trans by blast
qed


theorem changelog_pages_complete_witness:
  "\<exists>evs. read_pages 1 ''s1'' ''u1'' 0 (Some 1) (snd (grant_for_user_id None ''g'' ''s1'' ''u1'' AR sample_accounts))
     \<lparr>fd_files = [], fd_events = [], fd_seq = 0, fd_chunks = [], fd_replicas = [], fd_channels = [],
      fd_storages = [''s1'']\<rparr> = Some evs \<and> evs = []"
proof -
  let ?a = "snd (grant_for_user_id None ''g'' ''s1'' ''u1'' AR sample_accounts)"
  let ?db = "\<lparr>fd_files = [], fd_events = [], fd_seq = 0, fd_chunks = [], fd_replicas = [], fd_channels = [],
      fd_storages = [''s1'']\<rparr>"
  have "files_inv ?db" by (simp add: files_inv_def)
  moreover have "check_access ''u1'' ''s1'' AR ?a = Inr ()" by code_simp
  ultimately show ?thesis
    using changelog_pages_complete [of ?db "''u1''" "''s1''" ?a 0 1 "Some 1"] by (simp add: events_after_def)
qed

section \<open>Following the store\<close>

definition view_of_entry :: "sync_entry \<Rightarrow> file_view" where
  "view_of_entry e = (Some (sn_file_id e), Some (sn_size e), sn_is_file e, sn_hash e, sn_mtime e)"

definition view_of_snapshot :: "sync_entry list \<Rightarrow> (string \<rightharpoonup> file_view)" where
  "view_of_snapshot es = map_of (map (\<lambda>e. (sn_path e, view_of_entry e)) es)"

lemma map_of_sort_key:
  assumes "distinct (map k xs)"
  shows "map_of (map (\<lambda>x. (k x, g x)) (sort_key k xs)) p = map_option g (find (\<lambda>x. k x = p) xs)"
proof (cases "find (\<lambda>x. k x = p) xs")
  case None
  then have "p \<notin> k ` set xs" by (auto simp: find_None_iff)
  then show ?thesis using None by (simp add: map_of_eq_None_iff image_image)
next
  case (Some x)
  then have x: "x \<in> set xs" "k x = p" by (auto simp: find_Some_iff)
  have "distinct (map fst (map (\<lambda>x. (k x, g x)) (sort_key k xs)))"
    using assms by (simp add: o_def distinct_map)
  moreover have "(p, g x) \<in> set (map (\<lambda>x. (k x, g x)) (sort_key k xs))" using x by auto
  ultimately show ?thesis using Some by (simp add: map_of_eq_Some_iff)
qed

lemma snapshot_view:
  assumes "files_inv db"
  shows "view_of_snapshot (sync_snapshot storage db) p =
    (case live_row storage p db of None \<Rightarrow> None | Some r \<Rightarrow> if visible r then Some (view_of_row r) else None)"
proof -
  have uni: "live_unique (fd_files db)" using assms by (simp add: files_inv_def)
  let ?rows = "filter (\<lambda>r. f_storage r = storage \<and> visible r) (fd_files db)"
  have "distinct (map (\<lambda>r. (f_storage r, f_path r)) (filter (\<lambda>r. f_storage r = storage \<and> visible r) (filter is_live (fd_files db))))"
    using uni unfolding live_unique_def by (rule distinct_map_filter)
  moreover have "filter (\<lambda>r. f_storage r = storage \<and> visible r) (filter is_live (fd_files db)) = ?rows"
    by (auto simp: filter_filter visible_def intro!: filter_cong)
  ultimately have "distinct (map (\<lambda>r. (f_storage r, f_path r)) ?rows)" by simp
  then have dist: "distinct (map f_path ?rows)" by (auto simp: distinct_map inj_on_def)
  have "view_of_snapshot (sync_snapshot storage db) p = map_option view_of_row (find (\<lambda>r. f_path r = p) ?rows)"
    unfolding view_of_snapshot_def sync_snapshot_def map_map
    using map_of_sort_key [OF dist, of view_of_row p]
    by (simp add: o_def view_of_entry_def view_of_row_def)
  also have "find (\<lambda>r. f_path r = p) ?rows = (case live_row storage p db of None \<Rightarrow> None | Some r \<Rightarrow> if visible r then Some r else None)"
  proof (cases "find (\<lambda>r. f_path r = p) ?rows")
    case None
    then have no: "\<not> (f_storage r = storage \<and> visible r \<and> f_path r = p)" if "r \<in> set (fd_files db)" for r
      using that by (auto simp: find_None_iff)
    show ?thesis
    proof (cases "live_row storage p db")
      case (Some r)
      then have "\<not> visible r" using no [of r] live_row_SomeD [OF Some] by (auto simp: row_live_def)
      then show ?thesis using None Some by simp
    qed (simp add: None)
  next
    case (Some r)
    then have "r \<in> set ?rows" "f_path r = p" unfolding find_Some_iff by (auto simp del: set_filter)
    then have r: "r \<in> set (fd_files db)" "row_live storage p r" "visible r" by (auto simp: row_live_def visible_def)
    then have "live_row storage p db = Some r" by (simp add: live_row_eq_Some [OF uni])
    then show ?thesis using Some r(3) by simp
  qed
  finally show ?thesis by (auto split: option.splits)
qed

lemma fold_max: "fold max is (i :: int) = Max (set (i # is))"
  by (rule Max.set_eq_fold [symmetric])

lemma max_cursor_bounds:
  assumes "files_inv db"
  shows "0 \<le> max_cursor storage db" "max_cursor storage db \<le> fd_seq db"
    "e \<in> set (fd_events db) \<Longrightarrow> fe_storage e = storage \<Longrightarrow> fe_id e \<le> max_cursor storage db"
proof -
  have ids: "\<forall>e \<in> set (fd_events db). 0 < fe_id e \<and> fe_id e \<le> fd_seq db" and seq: "0 \<le> fd_seq db"
    using assms by (auto simp: files_inv_def)
  let ?is = "map fe_id (filter (\<lambda>e. fe_storage e = storage) (fd_events db))"
  have "0 \<le> max_cursor storage db \<and> max_cursor storage db \<le> fd_seq db \<and>
      (e \<in> set (fd_events db) \<longrightarrow> fe_storage e = storage \<longrightarrow> fe_id e \<le> max_cursor storage db)"
  proof (cases ?is)
    case Nil
    then show ?thesis using seq by (auto simp: max_cursor_def filter_empty_conv)
  next
    case (Cons i "is")
    then have m: "max_cursor storage db = Max (set ?is)" by (simp add: max_cursor_def fold_max)
    have "Max (set ?is) \<in> set ?is" using Cons by (intro Max_in) auto
    then have "0 \<le> Max (set ?is) \<and> Max (set ?is) \<le> fd_seq db" using ids by auto
    moreover have "fe_id e \<le> Max (set ?is)" if "e \<in> set (fd_events db)" "fe_storage e = storage"
      using that by (intro Max_ge) auto
    ultimately show ?thesis unfolding m by blast
  qed
  then show "0 \<le> max_cursor storage db" "max_cursor storage db \<le> fd_seq db"
    "e \<in> set (fd_events db) \<Longrightarrow> fe_storage e = storage \<Longrightarrow> fe_id e \<le> max_cursor storage db" by auto
qed

lemma events_after_cursor:
  assumes "files_inv db0" "files_inv db1" and "fd_events db1 = fd_events db0 @ new"
  shows "events_after storage (max_cursor storage db0) db1 = filter (\<lambda>e. fe_storage e = storage) new"
proof -
  have later: "max_cursor storage db0 < fe_id e" if e: "e \<in> set new" for e
  proof (cases "map fe_id (filter (\<lambda>e. fe_storage e = storage) (fd_events db0))")
    case Nil
    then show ?thesis using assms(2,3) e by (auto simp: files_inv_def max_cursor_def)
  next
    case (Cons i "is")
    let ?is = "map fe_id (filter (\<lambda>e. fe_storage e = storage) (fd_events db0))"
    have "Max (set ?is) \<in> set ?is" using Cons by (intro Max_in) auto
    then obtain x where x: "x \<in> set (fd_events db0)" "fe_id x = Max (set ?is)" by auto
    then have "fe_id x < fe_id e" using assms(2,3) e by (auto simp: files_inv_def sorted_wrt_append)
    moreover have "max_cursor storage db0 = Max (set ?is)" using Cons by (simp add: max_cursor_def fold_max)
    ultimately show ?thesis using x(2) by simp
  qed
  have "filter (\<lambda>e. fe_storage e = storage \<and> max_cursor storage db0 < fe_id e) (fd_events db0) = []"
    using max_cursor_bounds(3) [OF assms(1)] by (fastforce simp: filter_empty_conv)
  moreover have "filter (\<lambda>e. fe_storage e = storage \<and> max_cursor storage db0 < fe_id e) new =
      filter (\<lambda>e. fe_storage e = storage) new"
    using later by (intro filter_cong) auto
  ultimately show ?thesis by (simp add: events_after_def assms(3))
qed

lemma snapshot_exact:
  assumes "files_inv db"
  shows "exact (view_of_snapshot (sync_snapshot storage db)) storage db"
  unfolding exact_def snapshot_view [OF assms] by (auto split: option.splits)


definition empty_files_db :: files_db where
  "empty_files_db = \<lparr>fd_files = [], fd_events = [], fd_seq = 0, fd_chunks = [], fd_replicas = [],
     fd_channels = [], fd_storages = [''s1'']\<rparr>"

definition reader_accounts :: accounts where
  "reader_accounts = snd (grant_for_user_id None ''g'' ''s1'' ''u1'' AR sample_accounts)"

lemma reader_access: "check_access ''u1'' ''s1'' AR reader_accounts = Inr ()"
  unfolding reader_accounts_def by code_simp

lemma empty_files_inv: "files_inv empty_files_db"
  by (simp add: files_inv_def empty_files_db_def)


section \<open>Where a client is misled\<close>

lemma hard_delete_one:
  assumes "files_inv db" and "r \<in> set (fd_files db)"
  shows "hard_delete_ids [f_id r] now db = delete_row now (f_id r) db"
  using assms filter_key_single [of f_id "fd_files db" r]
  by (simp add: hard_delete_ids_def delete_rows_def files_inv_def)

text \<open>
  Purging a trashed row whose path is in use again tells clients that the live file is gone:
  whoever knew the storage exactly before the purge does not afterwards, although the purge did
  not touch the live row.
\<close>

theorem purge_misreports_live_twin:
  assumes "files_inv db" and "changelog_exact v n (f_storage r) db"
    and "r \<in> set (fd_files db)" "\<not> is_live r"
    and "live_row (f_storage r) (f_path r) db = Some x" "visible x"
  shows "live_row (f_storage r) (f_path r) (hard_delete_ids [f_id r] now db) = Some x \<and>
     known v n (f_storage r) (hard_delete_ids [f_id r] now db) (f_path r) = None \<and>
     \<not> changelog_exact v n (f_storage r) (hard_delete_ids [f_id r] now db)"
proof -
  have keys: "keys_ok f_id (fd_files db)" and uni: "live_unique (fd_files db)"
    and st: "f_storage r \<in> set (fd_storages db)"
    using assms(1,3) by (auto simp: files_inv_def)
  have n: "n \<le> length (fd_events db)" using assms(2) by (simp add: changelog_exact_def)
  have get: "row_get f_id (f_id r) (fd_files db) = Some r"
    using row_get_Some_iff [OF keys] assms(3) by blast
  let ?d = "delete_row now (f_id r) db"
  have files: "fd_files ?d = row_del (\<lambda>y. f_id y = f_id r) (fd_files db)"
    by (simp add: delete_row_def get Let_def)
  have live: "live_row (f_storage r) (f_path r) ?d = Some x"
    using live_row_delete [OF uni keys assms(3) files] assms(4,5) by (simp add: row_live_def)
  have gone: "known v n (f_storage r) ?d (f_path r) = None"
    unfolding delete_row_def get option.case Let_def
    by (subst known_delete) (use st n in auto)
  have "\<not> changelog_exact v n (f_storage r) ?d"
    using live gone assms(6) by (auto simp: changelog_exact_def exact_def intro!: exI [of _ "f_path r"])
  then show ?thesis using live gone hard_delete_one [OF assms(1,3)] by simp
qed

text \<open>A file that was trashed and then uploaded again, before the trash is purged.\<close>

definition reuploaded_db :: files_db where
  "reuploaded_db = run_file_op (SetUploaded ''f2'') 13
     (run_file_op (CreateFile (\<lambda>_. ''f2'') (new_in_file ''a'' 5 ''s1'')) 12
       (run_file_op (TrashPath ''a'' ''s1'' ''x'') 11
         (run_file_op (SetUploaded ''f1'') 10
           (run_file_op (CreateFile (\<lambda>_. ''f1'') (new_in_file ''a'' 3 ''s1'')) 9 empty_files_db))))"

definition trashed_a :: file_row where
  "trashed_a = hd (fd_files reuploaded_db)"

definition live_a :: file_row where
  "live_a = hd (tl (fd_files reuploaded_db))"

lemma reuploaded_history: "store_history empty_files_db reuploaded_db"
  unfolding reuploaded_db_def
proof (intro store_history.intros)
  show "op_allowed (CreateFile (\<lambda>_. ''f1'') (new_in_file ''a'' 3 ''s1'')) empty_files_db"
    by (simp add: fresh_id_def empty_files_db_def)
  show "op_allowed (TrashPath ''a'' ''s1'' ''x'') (run_file_op (SetUploaded ''f1'') 10
      (run_file_op (CreateFile (\<lambda>_. ''f1'') (new_in_file ''a'' 3 ''s1'')) 9 empty_files_db))"
    unfolding op_allowed.simps by code_simp
  have "fresh_id ''f2'' (run_file_op (TrashPath ''a'' ''s1'' ''x'') 11 (run_file_op (SetUploaded ''f1'') 10
      (run_file_op (CreateFile (\<lambda>_. ''f1'') (new_in_file ''a'' 3 ''s1'')) 9 empty_files_db)))"
    by code_simp
  then show "op_allowed (CreateFile (\<lambda>_. ''f2'') (new_in_file ''a'' 5 ''s1''))
      (run_file_op (TrashPath ''a'' ''s1'' ''x'') 11 (run_file_op (SetUploaded ''f1'') 10
        (run_file_op (CreateFile (\<lambda>_. ''f1'') (new_in_file ''a'' 3 ''s1'')) 9 empty_files_db)))"
    by simp
qed simp_all

theorem purge_misreports_live_twin_witness:
  "live_row ''s1'' ''a'' (hard_delete_ids [f_id trashed_a] 20 reuploaded_db) = Some live_a \<and>
   known Map.empty 0 ''s1'' (hard_delete_ids [f_id trashed_a] 20 reuploaded_db) ''a'' = None"
proof -
  have inv: "files_inv reuploaded_db" and ex: "changelog_exact Map.empty 0 ''s1'' reuploaded_db"
    using history_announced [OF reuploaded_history empty_files_inv]
    by (auto simp: announced_def changelog_exact_def exact_def known_def replay_def live_row_def empty_files_db_def)
  have row: "f_storage trashed_a = ''s1''" "f_path trashed_a = ''a''" "\<not> is_live trashed_a"
      "live_row ''s1'' ''a'' reuploaded_db = Some live_a" "visible live_a"
    by code_simp+
  have mem: "trashed_a \<in> set (fd_files reuploaded_db)"
    unfolding trashed_a_def by (rule hd_in_set) code_simp
  show ?thesis
    using purge_misreports_live_twin [OF inv _ mem row(3), of Map.empty 0 live_a 20] ex row by simp
qed

text \<open>
  The two reads of the snapshot service are not one transaction: a file whose upload completes
  between them is in neither the snapshot nor the pages after its cursor.
\<close>

lemma snapshot_race_misses_upload:
  "case snapshot_service (run_file_op (SetUploaded ''f2'') 13) ''s1'' ''u1'' reader_accounts
      (run_file_op (CreateFile (\<lambda>_. ''f2'') (new_in_file ''b'' 5 ''s1'')) 12 empty_files_db) of
     Inr (entries, cursor) \<Rightarrow>
       entries = [] \<and> cursor = 1 \<and>
       read_pages 2 ''s1'' ''u1'' cursor None reader_accounts
         (run_file_op (SetUploaded ''f2'') 13
           (run_file_op (CreateFile (\<lambda>_. ''f2'') (new_in_file ''b'' 5 ''s1'')) 12 empty_files_db)) = Some [] \<and>
       live_path_exists ''b'' ''s1''
         (run_file_op (SetUploaded ''f2'') 13
           (run_file_op (CreateFile (\<lambda>_. ''f2'') (new_in_file ''b'' 5 ''s1'')) 12 empty_files_db))
   | _ \<Rightarrow> False"
  by code_simp

end
