(* ===== verification/Shares.thy ===== *)
theory Shares
  imports ServerSync Auth
begin

text \<open>
  Share links (src/sarca/src/models/share_links.rs, repositories/share_links.rs,
  services/shares.rs, routers/public_shares.rs): links to a file or a folder that anyone who has
  the token may read, behind an optional password. Instants are nanoseconds; the columns filled
  by \<open>datetime('now')\<close> hold whole seconds.
\<close>

section \<open>Rows\<close>

record share_link =
  sl_id :: uuid
  sl_token :: string
  sl_storage :: uuid
  sl_path :: string
  sl_created_by :: uuid
  sl_created :: int
  sl_expires :: "int option"
  sl_hash :: "string option"
  sl_revoked :: "int option"

type_synonym shares = "share_link list"

definition has_password :: "share_link \<Rightarrow> bool" where
  "has_password l \<longleftrightarrow> sl_hash l \<noteq> None"

definition is_revoked :: "share_link \<Rightarrow> bool" where
  "is_revoked l \<longleftrightarrow> sl_revoked l \<noteq> None"

definition is_expired :: "int \<Rightarrow> share_link \<Rightarrow> bool" where
  "is_expired now l = (case sl_expires l of None \<Rightarrow> False | Some t \<Rightarrow> t \<le> now)"

definition is_unavailable :: "int \<Rightarrow> share_link \<Rightarrow> bool" where
  "is_unavailable now l \<longleftrightarrow> is_revoked l \<or> is_expired now l"

definition is_folder :: "share_link \<Rightarrow> bool" where
  "is_folder l = ends_with ''/'' (sl_path l)"

definition secs :: "int \<Rightarrow> int" where
  "secs t = t div 1000000000"

section \<open>The repository\<close>

text \<open>
  The insert fails on a token or id in use, and on a storage or a user that does not exist
  (the lists \<open>storages\<close> and \<open>users\<close>).
\<close>

definition create_share :: "uuid list \<Rightarrow> uuid list \<Rightarrow> share_link \<Rightarrow> shares \<Rightarrow> share_link sarca_result \<times> shares" where
  "create_share storages users l ls =
     (if list_ex (\<lambda>x. sl_id x = sl_id l \<or> sl_token x = sl_token l) ls \<or>
         sl_storage l \<notin> set storages \<or> sl_created_by l \<notin> set users
      then (Inl Unknown, ls) else (Inr l, ls @ [l]))"

definition list_for_storage :: "uuid \<Rightarrow> shares \<Rightarrow> share_link list" where
  "list_for_storage storage ls =
     sort_key (\<lambda>l. - sl_created l) (filter (\<lambda>l. sl_storage l = storage \<and> \<not> is_revoked l) ls)"

definition get_by_token :: "string \<Rightarrow> shares \<Rightarrow> share_link sarca_result" where
  "get_by_token token ls = (case row_get sl_token token ls of
     None \<Rightarrow> Inl (DoesNotExist ''share link'') | Some l \<Rightarrow> Inr l)"

definition revoke_share :: "int \<Rightarrow> uuid \<Rightarrow> uuid \<Rightarrow> shares \<Rightarrow> unit sarca_result \<times> shares" where
  "revoke_share now i storage ls =
     (let hit = (\<lambda>l. sl_id l = i \<and> sl_storage l = storage)
      in (if list_ex hit ls then Inr () else Inl (DoesNotExist ''share link''),
          map (\<lambda>l. if hit l
                   then l\<lparr>sl_revoked := Some (case sl_revoked l of None \<Rightarrow> secs now | Some t \<Rightarrow> t)\<rparr> else l) ls))"

text \<open>\<open>path = $2 OR path LIKE $2 || '%'\<close>, the condition of the shares under a folder.\<close>

definition like_under :: "string \<Rightarrow> share_link \<Rightarrow> bool" where
  "like_under folder l \<longleftrightarrow> sl_path l = folder \<or> sql_like (folder @ ''%'') (sl_path l)"

definition delete_for_target :: "uuid \<Rightarrow> string \<Rightarrow> shares \<Rightarrow> nat \<times> shares" where
  "delete_for_target storage target ls =
     (let path = trim_start_matches CHR ''/'' target;
          P = (if is_folder_path path then (\<lambda>l. sl_storage l = storage \<and> like_under path l)
               else (\<lambda>l. sl_storage l = storage \<and> sl_path l = path))
      in if path = [] then (0, ls) else (length (filter P ls), row_del P ls))"

definition delete_for_file_ids :: "uuid list \<Rightarrow> files_db \<Rightarrow> shares \<Rightarrow> nat \<times> shares" where
  "delete_for_file_ids ids db ls =
     (let P = (\<lambda>l. list_ex (\<lambda>f. f_storage f = sl_storage l \<and>
                 (sl_path l = f_path f \<or> is_folder_path (f_path f) \<and> like_under (f_path f) l) \<and>
                 f_id f \<in> set ids) (fd_files db))
      in if ids = [] then (0, ls) else (length (filter P ls), row_del P ls))"

definition with_slash :: "string \<Rightarrow> string" where
  "with_slash path = (if is_folder_path path then path else path @ ''/'')"

definition rewrite_under :: "uuid \<Rightarrow> string \<Rightarrow> string \<Rightarrow> shares \<Rightarrow> shares" where
  "rewrite_under storage old_folder new_folder =
     map (\<lambda>l. if sl_storage l = storage \<and> like_under old_folder l
              then l\<lparr>sl_path := new_folder @ sql_substr_from (sl_path l) (length old_folder + 1)\<rparr> else l)"

definition rewrite_share_paths :: "uuid \<Rightarrow> string \<Rightarrow> string \<Rightarrow> shares \<Rightarrow> shares" where
  "rewrite_share_paths storage old0 new0 ls =
     (let old_path = trim_start_matches CHR ''/'' old0; new_path = trim_start_matches CHR ''/'' new0
      in if old_path = [] \<or> old_path = new_path then ls
         else if is_folder_path old_path then rewrite_under storage old_path (with_slash new_path) ls
         else rewrite_under storage (old_path @ ''/'') (with_slash new_path)
                (map (\<lambda>l. if sl_storage l = storage \<and> sl_path l = old_path then l\<lparr>sl_path := new_path\<rparr> else l) ls))"

section \<open>The owner's service\<close>

definition path_has_dot_dot :: "string \<Rightarrow> bool" where
  "path_has_dot_dot path = list_ex (\<lambda>seg. seg = ''..'') (split_on CHR ''/'' path)"

definition normalize_share_target_path :: "string \<Rightarrow> string sarca_result" where
  "normalize_share_target_path p =
     (let path = trim_start_matches CHR ''/'' (trim p)
      in if path = [] \<or> contains_str ''//'' path \<or> path_has_dot_dot path
         then Inl InvalidPath else Inr path)"

definition normalize_and_resolve_target :: "uuid \<Rightarrow> string \<Rightarrow> files_db \<Rightarrow> string sarca_result" where
  "normalize_and_resolve_target storage p db =
     res_bind (normalize_share_target_path p) (\<lambda>path.
       if is_folder_path path then
         (case get_file_by_path path storage db of
            Inr _ \<Rightarrow> Inr path
          | Inl (DoesNotExist _) \<Rightarrow>
              if list_uploaded_files_under storage path db = [] then Inl (DoesNotExist ''folder'') else Inr path
          | Inl e \<Rightarrow> Inl e)
       else
         (case get_file_by_path path storage db of
            Inr f \<Rightarrow> if f_uploaded f then Inr path else Inl (DoesNotExist ''file'')
          | Inl (DoesNotExist _) \<Rightarrow>
              (let folder = path @ ''/''
               in case get_file_by_path folder storage db of
                    Inr _ \<Rightarrow> Inr folder
                  | Inl (DoesNotExist _) \<Rightarrow>
                      if list_uploaded_files_under storage folder db = [] then Inl (DoesNotExist ''file'')
                      else Inr folder
                  | Inl e \<Rightarrow> Inl e)
          | Inl e \<Rightarrow> Inl e))"

definition share_service_create ::
  "externals \<Rightarrow> int \<Rightarrow> uuid \<Rightarrow> string \<Rightarrow> uuid \<Rightarrow> string \<Rightarrow> int option \<Rightarrow> string option \<Rightarrow> auth_user \<Rightarrow>
     accounts \<Rightarrow> files_db \<Rightarrow> shares \<Rightarrow> share_link sarca_result \<times> shares" where
  "share_service_create ex now new_id token storage path expires_at password user a db ls =
     (case check_access (au_id user) storage AW a of
        Inl e \<Rightarrow> (Inl e, ls)
      | Inr _ \<Rightarrow> (case normalize_and_resolve_target storage path db of
          Inl e \<Rightarrow> (Inl e, ls)
        | Inr path' \<Rightarrow>
            if (case expires_at of None \<Rightarrow> False | Some t \<Rightarrow> t \<le> now) then (Inl InvalidShareExpiry, ls)
            else (case (case password of None \<Rightarrow> Inr None
                        | Some p \<Rightarrow> if p = [] then Inr None else map_sum (\<lambda>x. x) Some (password_generate ex p)) of
                Inl e \<Rightarrow> (Inl e, ls)
              | Inr hash \<Rightarrow>
                  create_share (fd_storages db) (map u_id (acc_users a))
                    \<lparr>sl_id = new_id, sl_token = token, sl_storage = storage, sl_path = path',
                     sl_created_by = au_id user, sl_created = secs now, sl_expires = expires_at,
                     sl_hash = hash, sl_revoked = None\<rparr> ls)))"

definition share_service_list :: "uuid \<Rightarrow> auth_user \<Rightarrow> accounts \<Rightarrow> shares \<Rightarrow> share_link list sarca_result" where
  "share_service_list storage user a ls =
     res_bind (check_access (au_id user) storage AW a) (\<lambda>_. Inr (list_for_storage storage ls))"

definition share_service_revoke ::
  "int \<Rightarrow> uuid \<Rightarrow> uuid \<Rightarrow> auth_user \<Rightarrow> accounts \<Rightarrow> shares \<Rightarrow> unit sarca_result \<times> shares" where
  "share_service_revoke now storage i user a ls =
     (case check_access (au_id user) storage AW a of
        Inl e \<Rightarrow> (Inl e, ls) | Inr _ \<Rightarrow> revoke_share now i storage ls)"

section \<open>The guests' service\<close>

definition load_available :: "int \<Rightarrow> string \<Rightarrow> shares \<Rightarrow> share_link sarca_result" where
  "load_available now token ls = res_bind (get_by_token token ls) (\<lambda>l.
     if is_unavailable now l then Inl (DoesNotExist ''share link'') else Inr l)"

definition folder_basename :: "string \<Rightarrow> string" where
  "folder_basename path = last (split_on CHR ''/'' (trim_end_matches CHR ''/'' path))"

record share_meta =
  sm_path :: string
  sm_name :: string
  sm_is_file :: bool
  sm_size :: int
  sm_has_password :: bool

definition share_metadata :: "share_link \<Rightarrow> files_db \<Rightarrow> share_meta sarca_result" where
  "share_metadata l db =
     (if is_folder l then
        (if (case get_file_by_path (sl_path l) (sl_storage l) db of Inl _ \<Rightarrow> True | Inr _ \<Rightarrow> False) \<and>
            list_uploaded_files_under (sl_storage l) (sl_path l) db = []
         then Inl (DoesNotExist ''folder'')
         else Inr \<lparr>sm_path = sl_path l, sm_name = folder_basename (sl_path l), sm_is_file = False,
                   sm_size = sum_uploaded_size_under (sl_storage l) (sl_path l) db,
                   sm_has_password = has_password l\<rparr>)
      else res_bind (get_file_by_path (sl_path l) (sl_storage l) db) (\<lambda>f.
        if \<not> f_uploaded f then Inl (DoesNotExist ''file'')
        else Inr \<lparr>sm_path = sl_path l, sm_name = last (split_on CHR ''/'' (f_path f)), sm_is_file = True,
                  sm_size = f_size f, sm_has_password = has_password l\<rparr>))"

definition verify_share_password :: "externals \<Rightarrow> share_link \<Rightarrow> string \<Rightarrow> unit sarca_result" where
  "verify_share_password ex l password =
     (case sl_hash l of None \<Rightarrow> Inr () | Some h \<Rightarrow> password_verify ex password h)"

definition resolve_under_share :: "string \<Rightarrow> string \<Rightarrow> bool \<Rightarrow> string sarca_result" where
  "resolve_under_share root relative allow_dir =
     (if \<not> ends_with ''/'' root then Inl InvalidPath
      else let rel = trim_start_matches CHR ''/'' (trim relative)
      in if contains_str ''//'' rel \<or> path_has_dot_dot rel \<or> starts_with ''/'' rel then Inl InvalidPath
      else if rel = [] then Inr root
      else let joined = root @ rel
      in if \<not> starts_with root joined then Inl InvalidPath
      else if \<not> allow_dir \<and> ends_with ''/'' joined then Inl InvalidPath
      else Inr joined)"

definition relative_element :: "string \<Rightarrow> fs_element \<Rightarrow> fs_element option" where
  "relative_element root el = map_option (\<lambda>rel.
     if el_is_file el then el\<lparr>el_path := rel\<rparr>
     else let p = (if ends_with ''/'' rel then rel else rel @ ''/'')
          in el\<lparr>el_path := p, el_name := folder_basename p\<rparr>) (strip_prefix root (el_path el))"

definition share_tree :: "share_link \<Rightarrow> string \<Rightarrow> files_db \<Rightarrow> fs_element list sarca_result" where
  "share_tree l relative db =
     (if \<not> is_folder l then Inl InvalidPath
      else res_bind (resolve_under_share (sl_path l) relative True) (\<lambda>abs.
        Inr (List.map_filter (relative_element (sl_path l))
               (list_dir (sl_storage l) (trim_end_matches CHR ''/'' abs) db))))"

definition resolve_file_path :: "share_link \<Rightarrow> string \<Rightarrow> string sarca_result" where
  "resolve_file_path l relative =
     (if is_folder l then res_bind (resolve_under_share (sl_path l) relative False) (\<lambda>abs.
        if ends_with ''/'' abs then Inl InvalidPath else Inr abs)
      else let rel = trim_start_matches CHR ''/'' relative
      in if rel = [] \<or> rel = last (split_on CHR ''/'' (sl_path l)) \<or> rel = sl_path l then Inr (sl_path l)
         else Inl (DoesNotExist ''file''))"

definition resolve_folder_zip_path :: "share_link \<Rightarrow> string sarca_result" where
  "resolve_folder_zip_path l = (if is_folder l then Inr (sl_path l) else Inl InvalidPath)"

definition unlock_max_age_secs :: "int \<Rightarrow> share_link \<Rightarrow> int" where
  "unlock_max_age_secs now l =
     (let day = 24 * 60 * 60 * 1000000000
      in max 0 (secs (case sl_expires l of
           None \<Rightarrow> day
         | Some t \<Rightarrow> (let remaining = t - now
                      in if remaining \<le> 0 then 0 else if remaining < day then remaining else day))))"

section \<open>The public router\<close>

text \<open>A guest is answered with an error, or asked for the password.\<close>

datatype guest_error = ShareError sarca_error | NeedPassword

type_synonym 'a guest_result = "guest_error + 'a"

definition guest :: "'a sarca_result \<Rightarrow> 'a guest_result" where
  "guest r = map_sum ShareError (\<lambda>x. x) r"

definition unlock_cookie_name :: "string \<Rightarrow> string" where
  "unlock_cookie_name token = ''share_unlock_'' @ token"

fun find_cookie_in :: "string list \<Rightarrow> string \<Rightarrow> string option" where
  "find_cookie_in [] name = None"
| "find_cookie_in (part # parts) name = (case split_once CHR ''='' (trim part) of
     None \<Rightarrow> find_cookie_in parts name
   | Some (k, v) \<Rightarrow> if trim k = name then Some (trim v) else find_cookie_in parts name)"

definition find_cookie :: "string \<Rightarrow> string \<Rightarrow> string option" where
  "find_cookie header name = find_cookie_in (split_on CHR '';'' header) name"

definition gate :: "externals \<Rightarrow> config \<Rightarrow> int \<Rightarrow> string \<Rightarrow> string option \<Rightarrow> shares \<Rightarrow> share_link guest_result" where
  "gate ex cfg now token cookies ls =
     res_bind (guest (load_available now token ls)) (\<lambda>l.
       if has_password l \<and>
          \<not> (case cookies of None \<Rightarrow> False
             | Some jar \<Rightarrow> (case find_cookie jar (unlock_cookie_name token) of None \<Rightarrow> False
                 | Some v \<Rightarrow> validate_share_unlock ex (secs now) v token (cf_secret cfg) = Inr ()))
       then Inl NeedPassword else Inr l)"

text \<open>
  The unlock handler: the answer is the cookie to set, if any. \<open>clock\<close> is the monotonic clock of
  the throttle in milliseconds.
\<close>

definition unlock_share ::
  "externals \<Rightarrow> config \<Rightarrow> nat \<Rightarrow> int \<Rightarrow> string \<Rightarrow> string \<Rightarrow> shares \<Rightarrow> throttle \<Rightarrow>
     string option guest_result \<times> throttle" where
  "unlock_share ex cfg clock now token password ls th =
     (let key = share_unlock_key token
      in case check key clock th of
           (Inl e, th1) \<Rightarrow> (Inl (ShareError e), th1)
         | (Inr delay, th1) \<Rightarrow> (case load_available now token ls of
             Inl e \<Rightarrow> (Inl (ShareError e), th1)
           | Inr l \<Rightarrow>
               if \<not> has_password l then (Inr None, th1)
               else (case verify_share_password ex l password of
                   Inl e \<Rightarrow> (Inl (if e = NotAuthenticated then NeedPassword else ShareError e),
                             record_failure_at key (clock + delay) th1)
                 | Inr _ \<Rightarrow>
                     (let th2 = record_success key th1; max_age = unlock_max_age_secs now l
                      in if max_age = 0 then (Inl (ShareError (DoesNotExist ''share link'')), th2)
                         else (let jwt = generate_share_unlock ex (secs now) token max_age (cf_secret cfg)
                               in (Inr (Some (unlock_cookie_name token @ ''='' @ jwt @
                                     ''; Path=/api/public/shares/'' @ token @ ''; HttpOnly; SameSite=Lax'' @
                                     (if cf_has_tls_hostname cfg then ''; Secure'' else []) @
                                     ''; Max-Age='' @ show_int max_age)), th2)))))
     )"

definition share_tree_endpoint ::
  "externals \<Rightarrow> config \<Rightarrow> int \<Rightarrow> string \<Rightarrow> string option \<Rightarrow> string option \<Rightarrow> shares \<Rightarrow> files_db \<Rightarrow> fs_element list guest_result" where
  "share_tree_endpoint ex cfg now token path cookies ls db =
     res_bind (gate ex cfg now token cookies ls) (\<lambda>l.
       guest (share_tree l (case path of None \<Rightarrow> [] | Some p \<Rightarrow> p) db))"

definition share_metadata_endpoint ::
  "externals \<Rightarrow> config \<Rightarrow> int \<Rightarrow> string \<Rightarrow> string option \<Rightarrow> shares \<Rightarrow> files_db \<Rightarrow> share_meta guest_result" where
  "share_metadata_endpoint ex cfg now token cookies ls db =
     res_bind (gate ex cfg now token cookies ls) (\<lambda>l. guest (share_metadata l db))"

text \<open>What is handed to the download of a folder, and to that of a file: storage, path and row.\<close>

definition share_download_zip ::
  "externals \<Rightarrow> config \<Rightarrow> int \<Rightarrow> string \<Rightarrow> string option \<Rightarrow> shares \<Rightarrow> files_db \<Rightarrow> (uuid \<times> string) guest_result" where
  "share_download_zip ex cfg now token cookies ls db =
     res_bind (gate ex cfg now token cookies ls) (\<lambda>l.
       res_bind (guest (resolve_folder_zip_path l)) (\<lambda>folder.
         res_bind (guest (share_metadata l db)) (\<lambda>_. Inr (sl_storage l, folder))))"

definition download_inner ::
  "externals \<Rightarrow> config \<Rightarrow> int \<Rightarrow> string \<Rightarrow> string \<Rightarrow> string option \<Rightarrow> shares \<Rightarrow> files_db \<Rightarrow>
     (uuid \<times> string \<times> file_row) guest_result" where
  "download_inner ex cfg now token relpath cookies ls db =
     res_bind (gate ex cfg now token cookies ls) (\<lambda>l.
       res_bind (guest (resolve_file_path l relpath)) (\<lambda>abs.
         res_bind (guest (get_file_by_path abs (sl_storage l) db)) (\<lambda>f. Inr (sl_storage l, abs, f))))"

definition thumb_inner ::
  "externals \<Rightarrow> config \<Rightarrow> int \<Rightarrow> string \<Rightarrow> string \<Rightarrow> string option \<Rightarrow> shares \<Rightarrow> (uuid \<times> string) guest_result" where
  "thumb_inner ex cfg now token relpath cookies ls =
     res_bind (gate ex cfg now token cookies ls) (\<lambda>l.
       res_bind (guest (resolve_file_path l relpath)) (\<lambda>abs. Inr (sl_storage l, abs)))"

section \<open>What guests can reach\<close>

text \<open>
  A guest is admitted to a link that is available, and, when it has a password, with a cookie that
  opens it; the paths of a link are the path itself or, for a folder, what lies below it.
\<close>

definition unlocked_by :: "externals \<Rightarrow> config \<Rightarrow> int \<Rightarrow> string \<Rightarrow> string option \<Rightarrow> bool" where
  "unlocked_by ex cfg now token cookies \<longleftrightarrow> (\<exists>jar v. cookies = Some jar \<and>
     find_cookie jar (unlock_cookie_name token) = Some v \<and>
     validate_share_unlock ex (secs now) v token (cf_secret cfg) = Inr ())"

definition admitted :: "externals \<Rightarrow> config \<Rightarrow> int \<Rightarrow> string \<Rightarrow> string option \<Rightarrow> share_link \<Rightarrow> bool" where
  "admitted ex cfg now token cookies l \<longleftrightarrow> sl_token l = token \<and> sl_revoked l = None \<and>
     (case sl_expires l of None \<Rightarrow> True | Some t \<Rightarrow> now < t) \<and>
     (sl_hash l = None \<or> unlocked_by ex cfg now token cookies)"

definition within_share :: "share_link \<Rightarrow> string \<Rightarrow> bool" where
  "within_share l path \<longleftrightarrow>
     path = sl_path l \<or>
     is_folder l \<and> (\<exists>rel. path = sl_path l @ rel \<and> ''..'' \<notin> set (split_on CHR ''/'' rel) \<and> \<not> starts_with ''/'' rel)"

lemma res_bind_InrE:
  assumes "res_bind r f = Inr y"
  obtains x where "r = Inr x" and "f x = Inr y"
  using assms by (cases r) auto

lemma guest_Inr [simp]: "guest r = Inr x \<longleftrightarrow> r = Inr x"
  by (cases r) (auto simp: guest_def)

lemma gate_Inr:
  "gate ex cfg now token cookies ls = Inr l \<longleftrightarrow>
     load_available now token ls = Inr l \<and> (sl_hash l = None \<or> unlocked_by ex cfg now token cookies)"
  by (cases "load_available now token ls")
    (auto simp: gate_def guest_def has_password_def unlocked_by_def split: option.splits)

lemma load_available_Inr:
  "load_available now token ls = Inr l \<longleftrightarrow> row_get sl_token token ls = Some l \<and> \<not> is_unavailable now l"
  by (auto simp: load_available_def get_by_token_def res_bind_def split: option.splits)

lemma gate_admits:
  assumes "gate ex cfg now token cookies ls = Inr l"
  shows "l \<in> set ls \<and> admitted ex cfg now token cookies l"
  using assms row_get_SomeD [of sl_token token ls l]
  by (auto simp: gate_Inr load_available_Inr admitted_def is_unavailable_def is_revoked_def is_expired_def
      split: option.splits)

lemma resolve_under_share_Inr:
  assumes "resolve_under_share root relative allow = Inr path"
  shows "\<exists>rel. path = root @ rel \<and> ''..'' \<notin> set (split_on CHR ''/'' rel) \<and> \<not> starts_with ''/'' rel \<and>
    (rel \<noteq> [] \<longrightarrow> allow \<or> \<not> ends_with ''/'' path)"
proof -
  let ?rel = "trim_start_matches CHR ''/'' (trim relative)"
  have no: "\<not> path_has_dot_dot ?rel" "\<not> starts_with ''/'' ?rel" and "path = root @ ?rel"
    and "?rel \<noteq> [] \<longrightarrow> allow \<or> \<not> ends_with ''/'' path"
    using assms by (auto simp: resolve_under_share_def Let_def split: if_splits)
  moreover have "''..'' \<notin> set (split_on CHR ''/'' ?rel)"
    using no(1) by (auto simp: path_has_dot_dot_def list_ex_iff)
  ultimately show ?thesis by blast
qed

lemma resolve_file_path_within:
  assumes "resolve_file_path l relative = Inr path"
  shows "within_share l path \<and> (is_folder l \<longrightarrow> \<not> ends_with ''/'' path)"
proof (cases "is_folder l")
  case True
  then have run: "resolve_under_share (sl_path l) relative False = Inr path" and "\<not> ends_with ''/'' path"
    using assms by (auto simp: resolve_file_path_def res_bind_def split: sum.splits if_splits)
  then show ?thesis using resolve_under_share_Inr [OF run] True by (auto simp: within_share_def)
next
  case False
  then show ?thesis using assms by (auto simp: resolve_file_path_def within_share_def Let_def split: if_splits)
qed

text \<open>
  C14. A guest reads only what was shared: a download through a public link succeeds only for a
  token whose link is neither revoked nor expired, with the cookie of that very link when it has a
  password, and then names a live file of the link's storage that is the shared file itself or
  lies below the shared folder, by a path without \<open>..\<close> segments.
\<close>

theorem guest_download_confined:
  assumes "download_inner ex cfg now token relpath cookies ls db = Inr (storage, path, f)"
  shows "\<exists>l. l \<in> set ls \<and> admitted ex cfg now token cookies l \<and> within_share l path \<and>
    storage = sl_storage l \<and> f \<in> set (fd_files db) \<and> row_live storage path f"
proof -
  obtain l where g: "gate ex cfg now token cookies ls = Inr l"
    and p: "resolve_file_path l relpath = Inr path" and s: "storage = sl_storage l"
    and f: "get_file_by_path path storage db = Inr f"
    using assms unfolding download_inner_def by (auto elim!: res_bind_InrE)
  have "f \<in> set (fd_files db)" "row_live storage path f"
    using f live_row_SomeD [of storage path db f] by (auto simp: get_file_by_path_def split: option.splits)
  then show ?thesis using gate_admits [OF g] resolve_file_path_within [OF p] s by blast
qed

lemma guest_zip_confined:
  assumes "share_download_zip ex cfg now token cookies ls db = Inr (storage, folder)"
  shows "\<exists>l. l \<in> set ls \<and> admitted ex cfg now token cookies l \<and> is_folder l \<and>
    storage = sl_storage l \<and> folder = sl_path l"
proof -
  obtain l where "gate ex cfg now token cookies ls = Inr l" and "resolve_folder_zip_path l = Inr folder"
    and "storage = sl_storage l"
    using assms unfolding share_download_zip_def by (auto elim!: res_bind_InrE)
  then show ?thesis using gate_admits [of ex cfg now token cookies ls l]
    by (auto simp: resolve_folder_zip_path_def split: if_splits)
qed

lemma guest_thumb_confined:
  assumes "thumb_inner ex cfg now token relpath cookies ls = Inr (storage, path)"
  shows "\<exists>l. l \<in> set ls \<and> admitted ex cfg now token cookies l \<and> within_share l path \<and> storage = sl_storage l"
  using assms gate_admits resolve_file_path_within unfolding thumb_inner_def
  by (fastforce elim!: res_bind_InrE)

lemma revoked_link_is_closed:
  assumes "revoke_share now i storage ls = (Inr (), ls')" and "l \<in> set ls" "sl_id l = i" "sl_storage l = storage"
    and "keys_ok sl_token ls"
  shows "gate ex cfg later (sl_token l) cookies ls' = Inl (ShareError (DoesNotExist ''share link''))"
proof -
  let ?f = "\<lambda>l. if sl_id l = i \<and> sl_storage l = storage
     then l\<lparr>sl_revoked := Some (case sl_revoked l of None \<Rightarrow> secs now | Some t \<Rightarrow> t)\<rparr> else l"
  have ls': "ls' = map ?f ls" using assms(1) by (auto simp: revoke_share_def Let_def)
  have "row_get sl_token (sl_token l) ls' = Some (?f l)"
    unfolding ls' using row_get_Some_iff [OF assms(5)] assms(2) by (subst row_get_map) auto
  then show ?thesis using assms(3,4)
    by (simp add: gate_def load_available_def get_by_token_def is_unavailable_def is_revoked_def guest_def)
qed

section \<open>Unlocking\<close>

interpretation unlock_guard: guarded_endpoint "share_unlock_key token"
    "\<lambda>clock password th. unlock_share ex cfg clock now token password ls th"
    "\<lambda>password. \<exists>l. load_available now token ls = Inr l \<and> has_password l \<and>
       verify_share_password ex l password = Inl NotAuthenticated"
    "Inl (ShareError TooManyAttempts)" "Inl NeedPassword"
  for ex cfg now token ls
proof
  fix c th e th' p
  assume locked: "check (share_unlock_key token) c th = (Inl e, th')"
  then have "e = TooManyAttempts" by (auto simp: check_def split: prod.splits decision.splits)
  then show "unlock_share ex cfg c now token p ls th = (Inl (ShareError TooManyAttempts), th')"
    using locked by (simp add: unlock_share_def Let_def)
qed (auto simp: unlock_share_def Let_def)

text \<open>
  Guessing the password of a share, one guess after the other, at most 25 guesses of a quarter of an
  hour are looked at.
\<close>

lemma share_guesses_are_limited:
  assumes "keys_ok at_key th" and "row_get at_key (share_unlock_key token) th = None" and "length th < max_keys"
    and "load_available now token ls = Inr l" "has_password l"
    and "\<And>c p. (c, p) \<in> set tries \<Longrightarrow> start \<le> c \<and> c + max_delay < start + decay \<and>
      verify_share_password ex l p = Inl NotAuthenticated"
  shows "length (filter (\<lambda>r. r \<noteq> Inl (ShareError TooManyAttempts))
    (guess_run (\<lambda>clock password. unlock_share ex cfg clock now token password ls) tries th)) \<le> 25"
  using unlock_guard.guesses_bounded [where ex = ex and token = token and cfg = cfg and now = now and ls = ls
      and th = th and tries = tries and start = start] assms
  by (force simp: lock_attempts_def)

text \<open>Characters of tokens: those of base64url and the dot, none of which a cookie treats specially.\<close>

definition token_char :: "char \<Rightarrow> bool" where
  "token_char c \<longleftrightarrow> (let n = (of_char c :: nat) in 45 \<le> n \<and> n < 123 \<and> n \<noteq> 59 \<and> n \<noteq> 61)"

definition graphic :: "char \<Rightarrow> bool" where
  "graphic c \<longleftrightarrow> 32 < (of_char c :: nat) \<and> (of_char c :: nat) < 128"

lemma ws_not_graphic: "list_all (\<lambda>p. p \<noteq> [] \<and> \<not> graphic (hd p) \<and> \<not> graphic (last p)) ws_chars"
  by code_simp

lemma strip_any_None:
  assumes "list_all (\<lambda>p. p \<noteq> [] \<and> \<not> graphic (hd p)) ps" and "s = [] \<or> graphic (hd s)"
  shows "strip_any ps s = None"
  using assms
proof (induction ps)
  case (Cons p ps)
  then have "strip_prefix p s = None" by (cases p; cases s) auto
  then show ?case using Cons by simp
qed simp

lemma strip_all_None:
  assumes "list_all (\<lambda>p. p \<noteq> [] \<and> \<not> graphic (hd p)) ps" and "s = [] \<or> graphic (hd s)"
  shows "strip_all ps s = s"
  using strip_any_None [OF assms] by (simp add: strip_all.simps)

lemma trim_graphic:
  assumes "s = [] \<or> graphic (hd s) \<and> graphic (last s)"
  shows "trim s = s"
proof -
  have "trim_start s = s"
    unfolding trim_start_def using assms ws_not_graphic by (intro strip_all_None) (auto simp: list_all_iff)
  moreover have "strip_all (map rev ws_chars) (rev s) = rev s"
    using assms ws_not_graphic by (intro strip_all_None) (auto simp: list_all_iff hd_rev)
  ultimately show ?thesis by (simp add: trim_def trim_end_def)
qed

lemma token_graphic: "token_char c \<Longrightarrow> graphic c"
  by (simp add: token_char_def graphic_def Let_def)

lemma trim_token: "list_all token_char s \<Longrightarrow> trim s = s"
  by (rule trim_graphic) (cases s, auto simp: list_all_iff token_graphic)

lemma split_once_append: "c \<notin> set a \<Longrightarrow> split_once c (a @ c # b) = Some (a, b)"
  by (induction a) (auto simp: split_once_def)

lemma find_cookie_single:
  assumes "list_all token_char name" and "list_all token_char v"
  shows "find_cookie (name @ ''='' @ v) other = (if other = name then Some v else None)"
proof -
  let ?jar = "name @ CHR ''='' # v"
  have no: "CHR ''='' \<notin> set name" "CHR '';'' \<notin> set ?jar"
    using assms by (auto simp: list_all_iff token_char_def Let_def)
  have eq: "graphic CHR ''=''" by (simp add: graphic_def)
  have "graphic (hd ?jar)" using assms(1) eq by (cases name) (auto simp: token_graphic)
  moreover have "graphic (last ?jar)" using assms(2) eq by (cases v) (auto simp: list_all_iff token_graphic)
  ultimately have "trim ?jar = ?jar" by (intro trim_graphic) blast
  then show ?thesis
    using no(2) trim_token [OF assms(1)] trim_token [OF assms(2)] split_once_append [OF no(1), of v]
    by (auto simp: find_cookie_def split_on_no_sep)
qed

lemma unlock_share_Some:
  assumes "unlock_share ex cfg clock now token password ls th = (Inr (Some cookie), th')"
  shows "\<exists>l. load_available now token ls = Inr l \<and> 0 < unlock_max_age_secs now l \<and>
    (\<exists>rest. cookie = unlock_cookie_name token @ ''='' @
       generate_share_unlock ex (secs now) token (unlock_max_age_secs now l) (cf_secret cfg) @ CHR '';'' # rest)"
proof -
  obtain d th1 where "check (share_unlock_key token) clock th = (Inr d, th1)"
    using assms by (auto simp: unlock_share_def Let_def split: prod.splits sum.splits)
  moreover obtain l where "load_available now token ls = Inr l"
    using assms calculation by (auto simp: unlock_share_def Let_def split: sum.splits)
  moreover have "0 \<le> unlock_max_age_secs now l" by (simp add: unlock_max_age_secs_def Let_def)
  ultimately show ?thesis
    using assms by (auto simp: unlock_share_def Let_def split: if_splits sum.splits)
qed

text \<open>
  Unlocking works: when a guest who gave the right password sends back the cookie he was given,
  he is admitted for as long as the cookie lives and the link is available, and the cookie opens
  no other link.
\<close>

theorem unlock_opens_gate:
  assumes "token_codec ex"
    and "unlock_share ex cfg clock now token password ls th = (Inr (Some cookie), th')"
    and "list_all token_char token" "\<And>p k. list_all token_char (ex_seal ex p k)"
    and "load_available now token ls = Inr l" and "secs later \<le> secs now + unlock_max_age_secs now l"
    and "load_available later token ls' = Inr l'"
  shows "gate ex cfg later token (Some (takeWhile (\<lambda>c. c \<noteq> CHR '';'') cookie)) ls' = Inr l' \<and>
    (token' = token \<or> \<not> unlocked_by ex cfg later token' (Some (takeWhile (\<lambda>c. c \<noteq> CHR '';'') cookie)))"
proof -
  let ?jwt = "generate_share_unlock ex (secs now) token (unlock_max_age_secs now l) (cf_secret cfg)"
  let ?jar = "unlock_cookie_name token @ ''='' @ ?jwt"
  obtain rest where cookie: "cookie = ?jar @ CHR '';'' # rest"
    using unlock_share_Some [OF assms(2)] assms(5) by auto
  have jwt: "list_all token_char ?jwt" using assms(4) by (simp add: generate_share_unlock_def)
  have name: "list_all token_char (unlock_cookie_name token)"
    using assms(3) by (simp add: unlock_cookie_name_def token_char_def Let_def)
  have "CHR '';'' \<notin> set ?jar"
    using jwt name by (auto simp: list_all_iff token_char_def Let_def)
  then have jar: "takeWhile (\<lambda>c. c \<noteq> CHR '';'') cookie = ?jar"
    unfolding cookie by (subst takeWhile_append2) auto
  have found: "find_cookie ?jar (unlock_cookie_name token) = Some ?jwt"
    using find_cookie_single [OF name jwt, of "unlock_cookie_name token"] by (simp only: if_True refl)
  have "validate_share_unlock ex (secs later) ?jwt token (cf_secret cfg) = Inr ()"
    using assms(1,6) by (simp add: validate_share_unlock_def generate_share_unlock_def token_codec_def)
  then have "unlocked_by ex cfg later token (Some ?jar)"
    using found by (auto simp: unlocked_by_def)
  moreover have "\<not> unlocked_by ex cfg later token' (Some ?jar)" if "token' \<noteq> token"
    using that find_cookie_single [OF name jwt, of "unlock_cookie_name token'"]
    by (simp add: unlocked_by_def unlock_cookie_name_def)
  ultimately show ?thesis using assms(7) unfolding jar gate_Inr by blast
qed

section \<open>Shares that follow the wrong path\<close>

text \<open>
  The conditions of \<open>delete_for_target\<close> and \<open>rewrite_paths\<close> are \<open>LIKE\<close> patterns made of the
  path: an underscore or a per cent sign in a folder's name, or another case, hits shares of other
  folders. A literal ASCII name without those signs is matched as far as the case goes.
\<close>

definition share_at :: "string \<Rightarrow> string \<Rightarrow> share_link" where
  "share_at i path = \<lparr>sl_id = i, sl_token = i, sl_storage = ''s1'', sl_path = path, sl_created_by = ''u1'',
     sl_created = 0, sl_expires = None, sl_hash = None, sl_revoked = None\<rparr>"

text \<open>
  Deleting the shares of one folder may delete those of another: the shares below \<open>axb/\<close> go
  with the folder \<open>a_b/\<close>, those below \<open>DOCS/\<close> with \<open>docs/\<close>; and renaming \<open>a_b/\<close> moves the share of
  \<open>axb/f\<close> away from its file.
\<close>

theorem share_deletion_hits_others:
  "snd (delete_for_target ''s1'' ''a_b/'' [share_at ''i'' ''axb/f'', share_at ''j'' ''c/f'']) = [share_at ''j'' ''c/f''] \<and>
   snd (delete_for_target ''s1'' ''docs/'' [share_at ''i'' ''DOCS/f'']) = [] \<and>
   rewrite_share_paths ''s1'' ''a_b/'' ''new/'' [share_at ''i'' ''axb/f''] = [share_at ''i'' ''new/f'']"
  by code_simp

text \<open>The bytes of the old path are skipped as characters: a folder whose name is not ASCII.\<close>

lemma share_rename_cuts_characters:
  "map sl_path (rewrite_share_paths ''s1'' [CHR 0xC3, CHR 0xA9, CHR ''/''] ''e/''
     [share_at ''i'' [CHR 0xC3, CHR 0xA9, CHR ''/'', CHR ''a'', CHR ''.'', CHR ''b'']]) = [''e/.b'']"
  by code_simp

section \<open>A run of the share service\<close>

text \<open>A codec whose tokens are plain characters: two letters for each character of the sample codec.\<close>

definition letters :: "char \<Rightarrow> string" where
  "letters c = (let n = (of_char c :: nat) in [char_of (97 + n div 16), char_of (97 + n mod 16)])"

fun unletters :: "string \<Rightarrow> string" where
  "unletters (a # b # s) = char_of (((of_char a :: nat) - 97) * 16 + ((of_char b :: nat) - 97)) # unletters s"
| "unletters _ = []"

lemma letters_bounds: "(of_char c :: nat) div 16 < 16" "(of_char c :: nat) mod 16 < 16"
  using nat_of_char_less_256 [of c] by (auto simp: less_mult_imp_div_less)

lemma unletters_letters: "unletters (concat (map letters s)) = s"
proof (induction s)
  case (Cons c s)
  have "(of_char (char_of (97 + (of_char c :: nat) div 16) :: char) :: nat) = 97 + of_char c div 16"
    "(of_char (char_of (97 + (of_char c :: nat) mod 16) :: char) :: nat) = 97 + of_char c mod 16"
    using letters_bounds [of c] by (simp_all add: of_char_char_of)
  then show ?case using Cons by (simp add: letters_def Let_def)
qed simp

lemma token_char_letters: "list_all token_char (letters c)"
proof -
  have "token_char (char_of (97 + n))" if "n < 16" for n :: nat
    using that by (simp add: token_char_def Let_def of_char_char_of)
  then show ?thesis using letters_bounds [of c] by (simp add: letters_def Let_def)
qed

definition plain_externals :: externals where
  "plain_externals = sample_externals
     \<lparr>ex_seal := (\<lambda>p k. concat (map letters (sample_seal p k))),
      ex_open := (\<lambda>now t k. sample_open now (unletters t) k)\<rparr>"

lemma plain_codec: "token_codec plain_externals"
  using sample_codec by (simp add: token_codec_def plain_externals_def unletters_letters sample_externals_def)

lemma plain_tokens: "list_all token_char (ex_seal plain_externals p k)"
  using token_char_letters by (auto simp: plain_externals_def list_all_iff)

definition locked_share :: share_link where
  "locked_share = (share_at ''i'' ''d/'')\<lparr>sl_hash := Some ''hpw'', sl_expires := Some 9000000000\<rparr>"

lemma locked_share_available: "load_available 3000000000 ''i'' [locked_share] = Inr locked_share"
  by code_simp

definition share_cookie :: string where
  "share_cookie = (case fst (unlock_share plain_externals sample_config 0 3000000000 ''i'' ''pw'' [locked_share] []) of
     Inr (Some c) \<Rightarrow> c | _ \<Rightarrow> [])"

lemma share_cookie:
  "unlock_share plain_externals sample_config 0 3000000000 ''i'' ''pw'' [locked_share] [] =
     (Inr (Some share_cookie), [])"
proof -
  have "check (share_unlock_key ''i'') 0 [] = (Inr 0, [])"
    by (simp add: check_def decide_at_def prune_def)
  moreover have "verify_share_password plain_externals locked_share ''pw'' = Inr ()"
    by (simp add: verify_share_password_def locked_share_def password_verify_def plain_externals_def sample_externals_def)
  moreover have "unlock_max_age_secs 3000000000 locked_share = 6" by code_simp
  moreover have "has_password locked_share" by code_simp
  moreover have "record_success (share_unlock_key ''i'') [] = []"
    by (simp add: record_success_def row_del_def)
  ultimately show ?thesis using locked_share_available by (simp add: unlock_share_def share_cookie_def Let_def)
qed

theorem unlock_opens_gate_witness:
  "gate plain_externals sample_config 5000000000 ''i'' (Some (takeWhile (\<lambda>c. c \<noteq> CHR '';'') share_cookie))
     [locked_share] = Inr locked_share"
proof -
  have "list_all token_char ''i''" by code_simp
  moreover have "secs 5000000000 \<le> secs 3000000000 + unlock_max_age_secs 3000000000 locked_share" by code_simp
  moreover have "load_available 5000000000 ''i'' [locked_share] = Inr locked_share" by code_simp
  ultimately show ?thesis
    using unlock_opens_gate [OF plain_codec share_cookie _ plain_tokens locked_share_available] by blast
qed

definition shared_db :: files_db where
  "shared_db = run_file_op (SetUploaded ''f1'') 10
     (run_file_op (CreateFile (\<lambda>_. ''f1'') (new_in_file ''d/a'' 3 ''s1'')) 9 empty_files_db)"

theorem guest_download_confined_witness:
  "admitted plain_externals sample_config 3000000000 ''i'' None (share_at ''i'' ''d/'') \<and>
   within_share (share_at ''i'' ''d/'') ''d/a'' \<and>
   download_inner plain_externals sample_config 3000000000 ''i'' ''a'' None [share_at ''i'' ''d/''] shared_db \<noteq>
     Inl NeedPassword"
proof -
  have run: "download_inner plain_externals sample_config 3000000000 ''i'' ''a'' None [share_at ''i'' ''d/''] shared_db =
      Inr (''s1'', ''d/a'', hd (fd_files shared_db))"
    by code_simp
  show ?thesis
    using guest_download_confined [OF run] run by auto
qed

end
