(* ===== verification/ChunkReplicas.thy ===== *)
theory ChunkReplicas
  imports FilesRepo
begin

text \<open>
  Where the chunks of files lie: the channels of a storage and the copies of chunks in them
  (src/sarca/src/models/chunk_replicas.rs, models/storage_channels.rs,
  repositories/chunk_replicas.rs, repositories/storage_channels.rs, services/replication.rs).
  Each operation is one statement on the tables of \<open>files_db\<close>. A chat id together with a
  message id names a message in Telegram.
\<close>

section \<open>Rows\<close>

definition replica_status_pending :: string where "replica_status_pending = ''pending''"
definition replica_status_uploaded :: string where "replica_status_uploaded = ''uploaded''"
definition replica_status_failed :: string where "replica_status_failed = ''failed''"
definition channel_status_active :: string where "channel_status_active = ''active''"
definition channel_status_dead :: string where "channel_status_dead = ''dead''"

lemmas status_defs = replica_status_pending_def replica_status_uploaded_def replica_status_failed_def
  channel_status_active_def channel_status_dead_def

definition new_uploaded :: "uuid \<Rightarrow> uuid \<Rightarrow> uuid \<Rightarrow> string \<Rightarrow> int \<Rightarrow> replica_row" where
  "new_uploaded i chunk channel telegram_file message =
     \<lparr>rp_id = i, rp_chunk = chunk, rp_channel = channel, rp_file_id = Some telegram_file,
      rp_message = Some message, rp_status = replica_status_uploaded\<rparr>"

definition new_pending :: "uuid \<Rightarrow> uuid \<Rightarrow> uuid \<Rightarrow> replica_row" where
  "new_pending i chunk channel =
     \<lparr>rp_id = i, rp_chunk = chunk, rp_channel = channel, rp_file_id = None, rp_message = None,
      rp_status = replica_status_pending\<rparr>"

definition is_active :: "channel_row \<Rightarrow> bool" where
  "is_active c \<longleftrightarrow> sc_status c = channel_status_active"

definition is_dead :: "channel_row \<Rightarrow> bool" where
  "is_dead c \<longleftrightarrow> sc_status c = channel_status_dead"

section \<open>The channels\<close>

definition list_by_storage :: "uuid \<Rightarrow> files_db \<Rightarrow> channel_row list" where
  "list_by_storage storage db = sort_key sc_position (filter (\<lambda>c. sc_storage c = storage) (fd_channels db))"

definition get_channel :: "uuid \<Rightarrow> files_db \<Rightarrow> channel_row sarca_result" where
  "get_channel i db = (case row_get sc_id i (fd_channels db) of
     None \<Rightarrow> Inl (DoesNotExist ''storage channel'') | Some c \<Rightarrow> Inr c)"

definition get_by_chat_id :: "int \<Rightarrow> files_db \<Rightarrow> channel_row sarca_result" where
  "get_by_chat_id chat db = (case row_get sc_chat chat (fd_channels db) of
     None \<Rightarrow> Inl (DoesNotExist ''storage channel'') | Some c \<Rightarrow> Inr c)"

definition list_all_chat_ids :: "files_db \<Rightarrow> int list" where
  "list_all_chat_ids db = map sc_chat (fd_channels db)"

definition next_free_position :: "uuid \<Rightarrow> files_db \<Rightarrow> int option" where
  "next_free_position storage db =
     find (\<lambda>p. \<not> list_ex (\<lambda>c. sc_position c = p) (list_by_storage storage db)) [1, 2, 3]"

definition insert_channel :: "channel_row \<Rightarrow> files_db \<Rightarrow> channel_row sarca_result \<times> files_db" where
  "insert_channel c db =
     (if \<not> (1 \<le> sc_position c \<and> sc_position c \<le> 3) then (Inl Unknown, db)
      else if list_ex (\<lambda>x. sc_id x = sc_id c \<or> sc_chat x = sc_chat c \<or>
                 sc_storage x = sc_storage c \<and> sc_position x = sc_position c) (fd_channels db)
      then (Inl StorageChatIdConflict, db)
      else if sc_storage c \<notin> set (fd_storages db) then (Inl (DoesNotExist ''such storage''), db)
      else (Inr c, db\<lparr>fd_channels := fd_channels db @ [c]\<rparr>))"

definition set_channel :: "uuid \<Rightarrow> (channel_row \<Rightarrow> channel_row) \<Rightarrow> files_db \<Rightarrow> files_db" where
  "set_channel i f db = db\<lparr>fd_channels := map (\<lambda>c. if sc_id c = i then f c else c) (fd_channels db)\<rparr>"

definition update_chat :: "uuid \<Rightarrow> int \<Rightarrow> string \<Rightarrow> files_db \<Rightarrow> channel_row sarca_result \<times> files_db" where
  "update_chat i chat name db =
     (if \<not> list_ex (\<lambda>c. sc_id c = i) (fd_channels db) then (Inl (DoesNotExist ''storage channel''), db)
      else if list_ex (\<lambda>c. sc_id c \<noteq> i \<and> sc_chat c = chat) (fd_channels db) then (Inl StorageChatIdConflict, db)
      else (let db' = set_channel i (\<lambda>c. c\<lparr>sc_chat := chat, sc_name := name, sc_status := channel_status_active\<rparr>) db
            in (get_channel i db', db')))"

definition update_channel_name :: "uuid \<Rightarrow> string \<Rightarrow> files_db \<Rightarrow> channel_row sarca_result \<times> files_db" where
  "update_channel_name i name db =
     (let db' = set_channel i (\<lambda>c. c\<lparr>sc_name := name\<rparr>) db in (get_channel i db', db'))"

definition mark_dead :: "uuid \<Rightarrow> files_db \<Rightarrow> files_db" where
  "mark_dead i = set_channel i (\<lambda>c. c\<lparr>sc_status := channel_status_dead\<rparr>)"

definition count_active :: "uuid \<Rightarrow> files_db \<Rightarrow> nat" where
  "count_active storage db = length (filter (\<lambda>c. sc_storage c = storage \<and> is_active c) (fd_channels db))"

text \<open>The copies in a channel go with it (\<open>ON DELETE CASCADE\<close>).\<close>

definition delete_channel :: "uuid \<Rightarrow> files_db \<Rightarrow> files_db" where
  "delete_channel i db = db\<lparr>fd_channels := row_del (\<lambda>c. sc_id c = i) (fd_channels db),
     fd_replicas := row_del (\<lambda>r. rp_channel r = i) (fd_replicas db)\<rparr>"

section \<open>The copies\<close>

text \<open>
  \<open>INSERT OR IGNORE\<close>: a copy of the same chunk in the same channel stays as it is; a copy of a
  chunk or in a channel that does not exist fails the statement.
\<close>

fun insert_ignore :: "replica_row list \<Rightarrow> files_db \<Rightarrow> replica_row list option" where
  "insert_ignore [] db = Some (fd_replicas db)"
| "insert_ignore (r # rs) db =
     (if list_ex (\<lambda>x. rp_id x = rp_id r \<or> rp_chunk x = rp_chunk r \<and> rp_channel x = rp_channel r) (fd_replicas db)
      then insert_ignore rs db
      else if rp_chunk r \<notin> ck_id ` set (fd_chunks db) \<or> rp_channel r \<notin> sc_id ` set (fd_channels db) then None
      else insert_ignore rs (db\<lparr>fd_replicas := fd_replicas db @ [r]\<rparr>))"

definition insert_batch :: "replica_row list \<Rightarrow> files_db \<Rightarrow> unit sarca_result \<times> files_db" where
  "insert_batch rs db = (case insert_ignore rs db of
     None \<Rightarrow> (Inl Unknown, db) | Some replicas \<Rightarrow> (Inr (), db\<lparr>fd_replicas := replicas\<rparr>))"

record pending_replica_job =
  pj_id :: uuid
  pj_chunk :: uuid
  pj_channel :: uuid
  pj_chat :: int

definition list_pending :: "nat \<Rightarrow> files_db \<Rightarrow> pending_replica_job list" where
  "list_pending limit db = take limit (List.map_filter (\<lambda>r.
       (case row_get sc_id (rp_channel r) (fd_channels db) of
          None \<Rightarrow> None
        | Some c \<Rightarrow> if rp_status r \<in> {replica_status_pending, replica_status_failed} \<and> is_active c
                    then Some \<lparr>pj_id = rp_id r, pj_chunk = rp_chunk r, pj_channel = rp_channel r, pj_chat = sc_chat c\<rparr>
                    else None)) (sort_key rp_id (fd_replicas db)))"

record source_replica =
  sr_file_id :: "string option"
  sr_message :: "int option"
  sr_chat :: int
  sr_storage :: uuid

definition find_source_for_chunk :: "uuid \<Rightarrow> uuid \<Rightarrow> files_db \<Rightarrow> source_replica option" where
  "find_source_for_chunk chunk exclude db =
     (let sources = List.map_filter (\<lambda>r. (case row_get sc_id (rp_channel r) (fd_channels db) of
            None \<Rightarrow> None
          | Some c \<Rightarrow> if rp_chunk r = chunk \<and> rp_channel r \<noteq> exclude \<and>
                        rp_status r = replica_status_uploaded \<and> is_active c
                      then Some \<lparr>sr_file_id = rp_file_id r, sr_message = rp_message r, sr_chat = sc_chat c,
                                 sr_storage = sc_storage c\<rparr> else None)) (fd_replicas db)
      in case filter (\<lambda>s. sr_message s \<noteq> None) sources @ filter (\<lambda>s. sr_message s = None) sources of
           [] \<Rightarrow> None | s # _ \<Rightarrow> Some s)"

definition set_replica :: "uuid \<Rightarrow> (replica_row \<Rightarrow> replica_row) \<Rightarrow> files_db \<Rightarrow> files_db" where
  "set_replica i f db = db\<lparr>fd_replicas := map (\<lambda>r. if rp_id r = i then f r else r) (fd_replicas db)\<rparr>"

definition mark_uploaded :: "uuid \<Rightarrow> string \<Rightarrow> int option \<Rightarrow> files_db \<Rightarrow> files_db" where
  "mark_uploaded i telegram_file message =
     set_replica i (\<lambda>r. r\<lparr>rp_file_id := Some telegram_file, rp_message := message, rp_status := replica_status_uploaded\<rparr>)"

definition mark_failed :: "uuid \<Rightarrow> files_db \<Rightarrow> files_db" where
  "mark_failed i = set_replica i (\<lambda>r. r\<lparr>rp_status := replica_status_failed\<rparr>)"

definition chunks_of_storage :: "uuid \<Rightarrow> files_db \<Rightarrow> uuid list" where
  "chunks_of_storage storage db =
     map ck_id (filter (\<lambda>c. (case row_get f_id (ck_file c) (fd_files db) of
       None \<Rightarrow> False | Some f \<Rightarrow> f_storage f = storage)) (fd_chunks db))"

definition enqueue_for_channel :: "(nat \<Rightarrow> uuid) \<Rightarrow> uuid \<Rightarrow> uuid \<Rightarrow> files_db \<Rightarrow> unit sarca_result \<times> files_db" where
  "enqueue_for_channel ids storage channel db =
     (let chunks = chunks_of_storage storage db
      in if chunks = [] then (Inr (), db)
         else insert_batch (map (\<lambda>(k, chunk). new_pending (ids k) chunk channel) (zip [0..<length chunks] chunks)) db)"

definition retry_failed :: "uuid \<Rightarrow> files_db \<Rightarrow> files_db" where
  "retry_failed storage db = db\<lparr>fd_replicas := map (\<lambda>r.
     if rp_status r = replica_status_failed \<and>
        list_ex (\<lambda>c. sc_id c = rp_channel r \<and> sc_storage c = storage) (fd_channels db)
     then r\<lparr>rp_status := replica_status_pending\<rparr> else r) (fd_replicas db)\<rparr>"

record replication_stats =
  rs_pending :: nat
  rs_uploaded :: nat
  rs_failed :: nat

definition get_replication_stats :: "uuid \<Rightarrow> files_db \<Rightarrow> replication_stats" where
  "get_replication_stats storage db =
     (let rows = filter (\<lambda>r. list_ex (\<lambda>c. sc_id c = rp_channel r \<and> sc_storage c = storage) (fd_channels db)) (fd_replicas db);
          n = (\<lambda>st. length (filter (\<lambda>r. rp_status r = st) rows))
      in \<lparr>rs_pending = n replica_status_pending, rs_uploaded = n replica_status_uploaded, rs_failed = n replica_status_failed\<rparr>)"

text \<open>The messages of copies: each row of the join of copies, chunks and channels.\<close>

definition replica_messages :: "(chunk_row \<Rightarrow> channel_row \<Rightarrow> bool) \<Rightarrow> files_db \<Rightarrow> (int \<times> int \<times> uuid) list" where
  "replica_messages P db = concat (map (\<lambda>r. case rp_message r of None \<Rightarrow> [] | Some m \<Rightarrow>
     concat (map (\<lambda>k. if ck_id k = rp_chunk r then
         map (\<lambda>c. (sc_chat c, m, sc_storage c))
           (filter (\<lambda>c. sc_id c = rp_channel r \<and> P k c) (fd_channels db)) else []) (fd_chunks db))) (fd_replicas db))"

definition list_telegram_messages_for_files :: "uuid list \<Rightarrow> files_db \<Rightarrow> (int \<times> int \<times> uuid) list" where
  "list_telegram_messages_for_files ids db = remdups (replica_messages (\<lambda>k c. ck_file k \<in> set ids) db)"

definition list_telegram_messages_for_storage :: "uuid \<Rightarrow> files_db \<Rightarrow> (int \<times> int) list" where
  "list_telegram_messages_for_storage storage db =
     remdups (map (\<lambda>(chat, m, _). (chat, m)) (replica_messages (\<lambda>k c. sc_storage c = storage) db))"

definition list_for_file :: "uuid \<Rightarrow> files_db \<Rightarrow> replica_row list" where
  "list_for_file fid db = concat (map (\<lambda>k.
     sort_key rp_channel (filter (\<lambda>r. rp_chunk r = ck_id k) (fd_replicas db)))
       (sort_key ck_position (filter (\<lambda>k. ck_file k = fid) (fd_chunks db))))"

definition message_still_referenced :: "int \<Rightarrow> int \<Rightarrow> files_db \<Rightarrow> bool" where
  "message_still_referenced chat message db =
     list_ex (\<lambda>r. rp_message r = Some message \<and>
        list_ex (\<lambda>c. sc_id c = rp_channel r \<and> sc_chat c = chat) (fd_channels db)) (fd_replicas db)"

section \<open>The invariant of channels and copies\<close>

definition replicas_inv :: "files_db \<Rightarrow> bool" where
  "replicas_inv db \<longleftrightarrow>
     distinct (map sc_id (fd_channels db)) \<and> distinct (map sc_chat (fd_channels db)) \<and>
     distinct (map (\<lambda>c. (sc_storage c, sc_position c)) (fd_channels db)) \<and>
     list_all (\<lambda>c. 1 \<le> sc_position c \<and> sc_position c \<le> 3) (fd_channels db) \<and>
     sc_storage ` set (fd_channels db) \<subseteq> set (fd_storages db) \<and>
     distinct (map rp_id (fd_replicas db)) \<and>
     distinct (map (\<lambda>r. (rp_chunk r, rp_channel r)) (fd_replicas db)) \<and>
     rp_chunk ` set (fd_replicas db) \<subseteq> ck_id ` set (fd_chunks db) \<and>
     rp_channel ` set (fd_replicas db) \<subseteq> sc_id ` set (fd_channels db)"

lemma insert_ignore_grows:
  "insert_ignore rs db = Some out \<Longrightarrow> \<exists>new. out = fd_replicas db @ new \<and> set new \<subseteq> set rs"
proof (induction rs db arbitrary: out rule: insert_ignore.induct)
  case (2 r rs db)
  show ?case
  proof (cases "list_ex (\<lambda>x. rp_id x = rp_id r \<or> rp_chunk x = rp_chunk r \<and> rp_channel x = rp_channel r) (fd_replicas db)")
    case True
    then show ?thesis using 2 by fastforce
  next
    case False
    then have "rp_chunk r \<in> ck_id ` set (fd_chunks db)" "rp_channel r \<in> sc_id ` set (fd_channels db)"
      and rest: "insert_ignore rs (db\<lparr>fd_replicas := fd_replicas db @ [r]\<rparr>) = Some out"
      using "2.prems" by (auto split: if_splits)
    then obtain new where "out = (fd_replicas db @ [r]) @ new" "set new \<subseteq> set rs"
      using "2.IH"(2) [OF False _ rest] by auto
    then show ?thesis by (intro exI [of _ "r # new"]) auto
  qed
qed simp

text \<open>The rows that may stand in the table of copies beside given chunks and channels.\<close>

definition copies_ok :: "chunk_row list \<Rightarrow> channel_row list \<Rightarrow> replica_row list \<Rightarrow> bool" where
  "copies_ok chunks channels rs \<longleftrightarrow> distinct (map rp_id rs) \<and> distinct (map (\<lambda>r. (rp_chunk r, rp_channel r)) rs) \<and>
     rp_chunk ` set rs \<subseteq> ck_id ` set chunks \<and> rp_channel ` set rs \<subseteq> sc_id ` set channels"

definition channels_ok :: "uuid list \<Rightarrow> channel_row list \<Rightarrow> bool" where
  "channels_ok storages cs \<longleftrightarrow> distinct (map sc_id cs) \<and> distinct (map sc_chat cs) \<and>
     distinct (map (\<lambda>c. (sc_storage c, sc_position c)) cs) \<and>
     list_all (\<lambda>c. 1 \<le> sc_position c \<and> sc_position c \<le> 3) cs \<and> sc_storage ` set cs \<subseteq> set storages"

lemma replicas_inv_alt:
  "replicas_inv db \<longleftrightarrow> channels_ok (fd_storages db) (fd_channels db) \<and>
     copies_ok (fd_chunks db) (fd_channels db) (fd_replicas db)"
  by (auto simp: replicas_inv_def channels_ok_def copies_ok_def)

lemma insert_ignore_ok:
  "insert_ignore rs db = Some out \<Longrightarrow> copies_ok (fd_chunks db) (fd_channels db) (fd_replicas db) \<Longrightarrow>
     copies_ok (fd_chunks db) (fd_channels db) out"
proof (induction rs db rule: insert_ignore.induct)
  case (2 r rs db)
  show ?case
  proof (cases "list_ex (\<lambda>x. rp_id x = rp_id r \<or> rp_chunk x = rp_chunk r \<and> rp_channel x = rp_channel r) (fd_replicas db)")
    case True
    then show ?thesis using 2 by simp
  next
    case False
    then have fk: "rp_chunk r \<in> ck_id ` set (fd_chunks db)" "rp_channel r \<in> sc_id ` set (fd_channels db)"
      and rest: "insert_ignore rs (db\<lparr>fd_replicas := fd_replicas db @ [r]\<rparr>) = Some out"
      using "2.prems"(1) by (auto split: if_splits)
    have "copies_ok (fd_chunks db) (fd_channels db) (fd_replicas db @ [r])"
      using "2.prems"(2) fk False by (auto simp: copies_ok_def list_ex_iff)
    then show ?thesis using "2.IH"(2) [OF False _ rest] fk by simp
  qed
qed simp

lemma insert_batch_inv:
  assumes "insert_batch rs db = (res, db')" and "replicas_inv db"
  shows "replicas_inv db'"
  using assms insert_ignore_ok [of rs db]
  by (auto simp: insert_batch_def replicas_inv_alt split: option.splits)

lemma insert_ignore_present:
  "insert_ignore rs db = Some out \<Longrightarrow> r \<in> set rs \<Longrightarrow> rp_id r \<notin> rp_id ` (set (fd_replicas db)) \<Longrightarrow>
   distinct (map rp_id rs) \<Longrightarrow> \<exists>x \<in> set out. rp_chunk x = rp_chunk r \<and> rp_channel x = rp_channel r"
proof (induction rs db rule: insert_ignore.induct)
  case (2 q rs db)
  let ?known = "list_ex (\<lambda>x. rp_id x = rp_id q \<or> rp_chunk x = rp_chunk q \<and> rp_channel x = rp_channel q) (fd_replicas db)"
  show ?case
  proof (cases ?known)
    case True
    then have rest: "insert_ignore rs db = Some out" using "2.prems"(1) by simp
    show ?thesis
    proof (cases "r = q")
      case same: True
      have "rp_id x \<noteq> rp_id q" if "x \<in> set (fd_replicas db)" for x
        using "2.prems"(3) that same by (metis imageI)
      then obtain x where "x \<in> set (fd_replicas db)" "rp_chunk x = rp_chunk r" "rp_channel x = rp_channel r"
        using True same unfolding list_ex_iff by blast
      then show ?thesis using insert_ignore_grows [OF rest] by auto
    next
      case False
      then show ?thesis using "2.IH"(1) [OF True rest] "2.prems" by simp
    qed
  next
    case False
    then have fk: "rp_chunk q \<in> ck_id ` set (fd_chunks db)" "rp_channel q \<in> sc_id ` set (fd_channels db)"
      and rest: "insert_ignore rs (db\<lparr>fd_replicas := fd_replicas db @ [q]\<rparr>) = Some out"
      using "2.prems"(1) by (auto split: if_splits)
    show ?thesis
    proof (cases "r = q")
      case True
      then show ?thesis using insert_ignore_grows [OF rest] by auto
    next
      case ne: False
      then have r: "r \<in> set rs" using "2.prems"(2) by simp
      have "rp_id q \<notin> rp_id ` set rs" using "2.prems"(4) by simp
      then have "rp_id r \<noteq> rp_id q" using r by (metis imageI)
      then show ?thesis using "2.IH"(2) [OF False _ rest] r fk "2.prems"(3,4) by simp
    qed
  qed
qed simp

lemma channels_ok_map:
  assumes "channels_ok st cs" and "\<And>c. sc_id (f c) = sc_id c \<and> sc_storage (f c) = sc_storage c \<and> sc_position (f c) = sc_position c"
    and "distinct (map sc_chat (map f cs))"
  shows "channels_ok st (map f cs)"
proof -
  have "map sc_id (map f cs) = map sc_id cs" and
    "map (\<lambda>c. (sc_storage c, sc_position c)) (map f cs) = map (\<lambda>c. (sc_storage c, sc_position c)) cs"
    and "sc_storage ` set (map f cs) = sc_storage ` set cs"
    using assms(2) by (auto simp: image_image)
  then show ?thesis using assms by (simp add: channels_ok_def list_all_iff del: map_map)
qed

lemma copies_ok_map:
  assumes "copies_ok k c rs" and "\<And>r. rp_id (f r) = rp_id r \<and> rp_chunk (f r) = rp_chunk r \<and> rp_channel (f r) = rp_channel r"
  shows "copies_ok k c (map f rs)"
proof -
  have "map rp_id (map f rs) = map rp_id rs" and
    "map (\<lambda>r. (rp_chunk r, rp_channel r)) (map f rs) = map (\<lambda>r. (rp_chunk r, rp_channel r)) rs"
    and "rp_chunk ` set (map f rs) = rp_chunk ` set rs" "rp_channel ` set (map f rs) = rp_channel ` set rs"
    using assms(2) by (auto simp: image_image)
  then show ?thesis using assms(1) by (simp add: copies_ok_def del: map_map)
qed

lemma set_channel_inv:
  assumes "replicas_inv db" and "\<And>c. sc_id (f c) = sc_id c \<and> sc_storage (f c) = sc_storage c \<and> sc_position (f c) = sc_position c"
    and "distinct (map sc_chat (fd_channels (set_channel i f db)))"
  shows "replicas_inv (set_channel i f db)"
proof -
  let ?f = "\<lambda>c. if sc_id c = i then f c else c"
  have keep: "sc_id (?f c) = sc_id c \<and> sc_storage (?f c) = sc_storage c \<and> sc_position (?f c) = sc_position c" for c
    using assms(2) by simp
  have "channels_ok (fd_storages db) (map ?f (fd_channels db))"
    using assms(1,3) by (intro channels_ok_map keep) (auto simp: replicas_inv_alt set_channel_def)
  moreover have "sc_id ` set (map ?f (fd_channels db)) = sc_id ` set (fd_channels db)"
    unfolding set_map image_image using keep by (intro image_cong) auto
  ultimately show ?thesis using assms(1) by (simp add: replicas_inv_alt set_channel_def copies_ok_def del: set_map)
qed

lemma set_channel_same_chat:
  assumes "\<And>c. sc_chat (f c) = sc_chat c"
  shows "map sc_chat (fd_channels (set_channel i f db)) = map sc_chat (fd_channels db)"
  using assms by (auto simp: set_channel_def)

lemma distinct_chats_set_one:
  assumes "distinct (map sc_id cs)" and "distinct (map sc_chat cs)" and "\<And>c. c \<in> set cs \<Longrightarrow> sc_id c \<noteq> i \<Longrightarrow> sc_chat c \<noteq> chat"
    and "\<And>c. sc_chat (f c) = chat"
  shows "distinct (map sc_chat (map (\<lambda>c. if sc_id c = i then f c else c) cs))"
  using assms(1-3)
proof (induction cs)
  case (Cons c cs)
  then have IH: "distinct (map sc_chat (map (\<lambda>c. if sc_id c = i then f c else c) cs))" by simp
  have "sc_chat (if sc_id c = i then f c else c) \<noteq> sc_chat (if sc_id x = i then f x else x)" if x: "x \<in> set cs" for x
  proof (cases "sc_id c = i")
    case True
    have "sc_id c \<notin> sc_id ` set cs" using Cons.prems(1) by simp
    then have "sc_id x \<noteq> i" using True x by (metis imageI)
    then show ?thesis using True assms(4) Cons.prems(3) [of x] x by simp
  next
    case False
    have "sc_chat c \<notin> sc_chat ` set cs" using Cons.prems(2) by simp
    then have "sc_chat c \<noteq> sc_chat x" using x by (metis imageI)
    then show ?thesis using False assms(4) Cons.prems(3) [of c] by simp
  qed
  then have "sc_chat (if sc_id c = i then f c else c) \<notin> set (map sc_chat (map (\<lambda>c. if sc_id c = i then f c else c) cs))"
    unfolding set_map image_image by blast
  then show ?case using IH unfolding list.map distinct.simps by (metis set_map)
qed simp

section \<open>Replication\<close>

text \<open>
  The errors by which Telegram says that a chat is gone; \<open>lowercase\<close> is Unicode lowercasing.
\<close>

definition dead_markers :: "string list" where
  "dead_markers = [''chat not found'', ''bot was kicked'', ''bot is not a member'', ''user is deactivated'',
     ''have no rights'', ''not enough rights'', ''chat_id is empty'', ''peer_id_invalid'', ''chat_id_invalid'',
     ''forbidden'', ''group chat was upgraded'', ''member list is inaccessible'']"

definition is_chat_dead_error :: "(string \<Rightarrow> string) \<Rightarrow> sarca_error \<Rightarrow> bool" where
  "is_chat_dead_error lowercase err = (case err of
     TelegramAPIError msg \<Rightarrow> list_ex (\<lambda>marker. contains_str marker (lowercase msg)) dead_markers
   | _ \<Rightarrow> False)"

text \<open>
  Telegram answers a copy, or a download followed by an upload, with the file and the message it
  made. A batch takes its jobs one after the other; \<open>others\<close> is what other requests do to the
  tables while a job waits for Telegram.
\<close>

record telegram =
  tg_copy :: "int \<Rightarrow> int \<Rightarrow> int \<Rightarrow> string \<Rightarrow> uuid \<Rightarrow> (string \<times> int) sarca_result"
  tg_download :: "string \<Rightarrow> uuid \<Rightarrow> string sarca_result"
  tg_upload :: "string \<Rightarrow> int \<Rightarrow> uuid \<Rightarrow> (string \<times> int) sarca_result"
  tg_lowercase :: "string \<Rightarrow> string"

definition transfer_copy :: "telegram \<Rightarrow> pending_replica_job \<Rightarrow> source_replica \<Rightarrow> (string \<times> int) sarca_result option" where
  "transfer_copy tg job source = (case (sr_file_id source, sr_message source) of
     (Some fid, Some message) \<Rightarrow> Some (tg_copy tg (sr_chat source) message (pj_chat job) fid (sr_storage source))
   | (Some fid, None) \<Rightarrow> Some (res_bind (tg_download tg fid (sr_storage source)) (\<lambda>bytes.
        tg_upload tg bytes (pj_chat job) (sr_storage source)))
   | (None, _) \<Rightarrow> None)"

definition replicate_job :: "telegram \<Rightarrow> (files_db \<Rightarrow> files_db) \<Rightarrow> pending_replica_job \<Rightarrow> files_db \<Rightarrow> files_db" where
  "replicate_job tg others job db =
     (case find_source_for_chunk (pj_chunk job) (pj_channel job) db of
        None \<Rightarrow> db
      | Some source \<Rightarrow> (case transfer_copy tg job source of
          None \<Rightarrow> db
        | Some (Inr (fid, message)) \<Rightarrow> mark_uploaded (pj_id job) fid (Some message) (others db)
        | Some (Inl e) \<Rightarrow>
            (let db' = mark_failed (pj_id job) (others db)
             in if is_chat_dead_error (tg_lowercase tg) e then mark_dead (pj_channel job) db' else db')))"

definition batch_size :: nat where "batch_size = 25"

definition replication_run_once :: "telegram \<Rightarrow> (files_db \<Rightarrow> files_db) \<Rightarrow> files_db \<Rightarrow> nat \<times> files_db" where
  "replication_run_once tg others db =
     (let jobs = list_pending batch_size db
      in (length jobs, fold (replicate_job tg others) jobs db))"

section \<open>Every operation keeps the tables consistent\<close>

text \<open>The operations on channels and copies, with the arguments the requests bring.\<close>

datatype copy_op =
    InsertChannel channel_row
  | UpdateChat uuid int string
  | UpdateName uuid string
  | MarkDead uuid
  | DeleteChannel uuid
  | InsertBatch "replica_row list"
  | MarkUploaded uuid string "int option"
  | MarkFailed uuid
  | EnqueueForChannel "nat \<Rightarrow> uuid" uuid uuid
  | RetryFailed uuid
  | ReplicateJob telegram pending_replica_job

fun run_copy_op :: "copy_op \<Rightarrow> files_db \<Rightarrow> files_db" where
  "run_copy_op (InsertChannel c) db = snd (insert_channel c db)"
| "run_copy_op (UpdateChat i chat name) db = snd (update_chat i chat name db)"
| "run_copy_op (UpdateName i name) db = snd (update_channel_name i name db)"
| "run_copy_op (MarkDead i) db = mark_dead i db"
| "run_copy_op (DeleteChannel i) db = delete_channel i db"
| "run_copy_op (InsertBatch rs) db = snd (insert_batch rs db)"
| "run_copy_op (MarkUploaded i fid m) db = mark_uploaded i fid m db"
| "run_copy_op (MarkFailed i) db = mark_failed i db"
| "run_copy_op (EnqueueForChannel ids storage channel) db = snd (enqueue_for_channel ids storage channel db)"
| "run_copy_op (RetryFailed storage) db = retry_failed storage db"
| "run_copy_op (ReplicateJob tg job) db = replicate_job tg (\<lambda>d. d) job db"

lemma mark_inv:
  assumes "replicas_inv db" and "\<And>r. rp_id (f r) = rp_id r \<and> rp_chunk (f r) = rp_chunk r \<and> rp_channel (f r) = rp_channel r"
  shows "replicas_inv (set_replica i f db)"
  using assms by (auto simp: replicas_inv_alt set_replica_def intro!: copies_ok_map)

lemma mark_dead_inv: "replicas_inv db \<Longrightarrow> replicas_inv (mark_dead i db)"
  unfolding mark_dead_def
  by (rule set_channel_inv) (simp_all add: set_channel_same_chat replicas_inv_def)

lemma mark_uploaded_inv: "replicas_inv db \<Longrightarrow> replicas_inv (mark_uploaded i fid m db)"
  and mark_failed_inv: "replicas_inv db \<Longrightarrow> replicas_inv (mark_failed i db)"
  by (simp_all add: mark_uploaded_def mark_failed_def mark_inv)

lemma update_chat_inv:
  assumes "replicas_inv db"
  shows "replicas_inv (snd (update_chat i chat name db))"
proof (cases "list_ex (\<lambda>c. sc_id c = i) (fd_channels db) \<and> \<not> list_ex (\<lambda>c. sc_id c \<noteq> i \<and> sc_chat c = chat) (fd_channels db)")
  case True
  let ?f = "\<lambda>c. c\<lparr>sc_chat := chat, sc_name := name, sc_status := channel_status_active\<rparr>"
  have "distinct (map sc_chat (map (\<lambda>c. if sc_id c = i then ?f c else c) (fd_channels db)))"
    using assms True by (intro distinct_chats_set_one) (auto simp: replicas_inv_def list_ex_iff)
  then have "replicas_inv (set_channel i ?f db)"
    using assms by (intro set_channel_inv) (simp_all add: set_channel_def del: map_map)
  then show ?thesis using True by (simp add: update_chat_def Let_def)
next
  case False
  then show ?thesis using assms by (auto simp: update_chat_def)
qed

lemma delete_channel_inv:
  assumes "replicas_inv db"
  shows "replicas_inv (delete_channel i db)"
  using assms
  by (auto simp: replicas_inv_alt channels_ok_def copies_ok_def delete_channel_def row_del_def distinct_map_filter list_all_iff)

lemma insert_channel_inv:
  assumes "replicas_inv db"
  shows "replicas_inv (snd (insert_channel c db))"
  using assms by (auto simp: insert_channel_def replicas_inv_alt channels_ok_def copies_ok_def list_ex_iff list_all_iff)


definition sample_replica_db :: files_db where
  "sample_replica_db = \<lparr>fd_files = [\<lparr>f_id = ''f'', f_path = ''a'', f_size = 3, f_storage = ''s1'', f_uploaded = True,
       f_thumb = None, f_thumb_msg = None, f_preview = None, f_preview_msg = None, f_chunk_size = Some 5,
       f_deleted = None, f_created = 0, f_updated = 0, f_source_created = None, f_source_mtime = None, f_hash = None\<rparr>],
     fd_events = [], fd_seq = 0,
     fd_chunks = [\<lparr>ck_id = ''k'', ck_file = ''f'', ck_position = 0\<rparr>],
     fd_replicas = [new_uploaded ''r'' ''k'' ''c'' ''t'' 7],
     fd_channels = [\<lparr>sc_id = ''c'', sc_storage = ''s1'', sc_position = 1, sc_chat = -1, sc_name = ''n'', sc_status = ''active''\<rparr>],
     fd_storages = [''s1'']\<rparr>"

lemma sample_replica_inv: "replicas_inv sample_replica_db"
  by code_simp


section \<open>Catching up\<close>

text \<open>A new or repaired channel has every chunk of its storage queued or stored.\<close>

lemma enqueue_covers_storage:
  assumes "enqueue_for_channel ids storage channel db = (Inr (), db')"
    and "inj ids" and "\<And>n. ids n \<notin> rp_id ` set (fd_replicas db)"
    and "chunk \<in> set (chunks_of_storage storage db)"
  shows "\<exists>x \<in> set (fd_replicas db'). rp_chunk x = chunk \<and> rp_channel x = channel"
proof -
  let ?chunks = "chunks_of_storage storage db"
  let ?rs = "map (\<lambda>(k, chunk). new_pending (ids k) chunk channel) (zip [0..<length ?chunks] ?chunks)"
  obtain k where k: "k < length ?chunks" "?chunks ! k = chunk" using assms(4) by (auto simp: in_set_conv_nth)
  have "?chunks \<noteq> []" using k by auto
  then obtain out where out: "insert_ignore ?rs db = Some out" and db': "fd_replicas db' = out"
    using assms(1) by (auto simp: enqueue_for_channel_def insert_batch_def Let_def split: option.splits)
  have "new_pending (ids k) chunk channel \<in> set ?rs"
    using k by (force simp: set_zip)
  moreover have "map rp_id ?rs = map ids [0..<length ?chunks]"
    by (rule nth_equalityI) (simp_all add: new_pending_def)
  then have "distinct (map rp_id ?rs)" using assms(2) by (simp add: distinct_map inj_on_def)
  ultimately obtain x where "x \<in> set out" "rp_chunk x = chunk" "rp_channel x = channel"
    using insert_ignore_present [OF out, of "new_pending (ids k) chunk channel"] assms(3) by (auto simp: new_pending_def)
  then show ?thesis using db' by blast
qed

lemma replica_messagesI:
  assumes "r \<in> set (fd_replicas db)" "rp_message r = Some m" "k \<in> set (fd_chunks db)" "ck_id k = rp_chunk r"
    and "c \<in> set (fd_channels db)" "sc_id c = rp_channel r" "P k c"
  shows "(sc_chat c, m, sc_storage c) \<in> set (replica_messages P db)"
  unfolding replica_messages_def set_concat set_map
  using assms by (intro UN_I [OF imageI [OF assms(1)]]) (auto intro!: bexI [of _ k])

text \<open>
  Pointing a channel at another chat leaves the copies of the old chat in place: although the
  new chat holds nothing, the catch-up that follows queues no copy of a chunk that the old chat
  had, and deleting a file of that chunk asks Telegram to delete, in the new chat, the message
  that had the same number in the old one.
\<close>

theorem moved_channel_keeps_old_copies:
  assumes "replicas_inv db" and "update_chat channel chat name db = (Inr c, db1)"
    and "enqueue_for_channel ids storage channel db1 = (Inr (), db2)"
    and "r \<in> set (fd_replicas db)" "rp_channel r = channel" "rp_status r = replica_status_uploaded"
    and "rp_message r = Some m" "k \<in> set (fd_chunks db)" "ck_id k = rp_chunk r"
  shows "filter (\<lambda>x. rp_chunk x = rp_chunk r \<and> rp_channel x = channel) (fd_replicas db2) = [r] \<and>
     (chat, m, sc_storage c) \<in> set (list_telegram_messages_for_files [ck_file k] db2)"
proof -
  let ?f = "\<lambda>c. c\<lparr>sc_chat := chat, sc_name := name, sc_status := channel_status_active\<rparr>"
  have db1: "db1 = set_channel channel ?f db" and c: "get_channel channel db1 = Inr c"
    using assms(2) by (auto simp: update_chat_def Let_def split: if_splits)
  have inv1: "replicas_inv db1" using update_chat_inv [OF assms(1), of channel chat name] assms(2) by simp
  then have inv2: "replicas_inv db2"
    using insert_batch_inv assms(3) by (auto simp: enqueue_for_channel_def Let_def split: if_splits)
  have same1: "fd_replicas db1 = fd_replicas db" "fd_chunks db1 = fd_chunks db" by (simp_all add: db1 set_channel_def)
  have same2: "fd_chunks db2 = fd_chunks db1" "fd_channels db2 = fd_channels db1"
    using assms(3) by (auto simp: enqueue_for_channel_def insert_batch_def Let_def split: if_splits option.splits)
  have "r \<in> set (fd_replicas db2)"
    using assms(3,4) same1 insert_ignore_grows
    by (fastforce simp: enqueue_for_channel_def insert_batch_def Let_def split: if_splits option.splits)
  moreover have "keys_ok (\<lambda>r. (rp_chunk r, rp_channel r)) (fd_replicas db2)"
    using inv2 by (simp add: replicas_inv_def keys_ok_def)
  ultimately have "filter (\<lambda>x. (rp_chunk x, rp_channel x) = (rp_chunk r, rp_channel r)) (fd_replicas db2) = [r]"
    by (intro filter_key_single)
  then have one: "filter (\<lambda>x. rp_chunk x = rp_chunk r \<and> rp_channel x = channel) (fd_replicas db2) = [r]"
    using assms(5) by simp
  have cc: "c \<in> set (fd_channels db1)" "sc_id c = channel"
    using c row_get_SomeD [of sc_id channel "fd_channels db1" c] by (auto simp: get_channel_def split: option.splits)
  have "c \<in> (\<lambda>x. if sc_id x = channel then ?f x else x) ` set (fd_channels db)"
    using cc(1) by (simp add: db1 set_channel_def)
  then obtain x where x: "c = (if sc_id x = channel then ?f x else x)" by blast
  then have chat: "sc_chat c = chat" using cc(2) by (cases "sc_id x = channel") simp_all
  have "(sc_chat c, m, sc_storage c) \<in> set (replica_messages (\<lambda>k' c. ck_file k' \<in> set [ck_file k]) db2)"
  proof (rule replica_messagesI)
    show "r \<in> set (fd_replicas db2)" by fact
    show "rp_message r = Some m" by fact
    show "k \<in> set (fd_chunks db2)" using assms(8) same1 same2 by simp
    show "ck_id k = rp_chunk r" by fact
    show "c \<in> set (fd_channels db2)" using cc same2 by simp
    show "sc_id c = rp_channel r" using cc assms(5) by simp
  qed simp
  then have "(chat, m, sc_storage c) \<in> set (list_telegram_messages_for_files [ck_file k] db2)"
    unfolding chat by (simp add: list_telegram_messages_for_files_def)
  then show ?thesis using one by blast
qed

theorem moved_channel_keeps_old_copies_witness:
  "(-2, 7, ''s1'') \<in> set (list_telegram_messages_for_files [''f'']
     (snd (enqueue_for_channel (\<lambda>_. ''x'') ''s1'' ''c'' (snd (update_chat ''c'' (-2) ''m'' sample_replica_db)))))"
proof -
  let ?d1 = "snd (update_chat ''c'' (-2) ''m'' sample_replica_db)"
  let ?c = "\<lparr>sc_id = ''c'', sc_storage = ''s1'', sc_position = 1, sc_chat = -2, sc_name = ''m'', sc_status = ''active''\<rparr>"
  let ?r = "new_uploaded ''r'' ''k'' ''c'' ''t'' 7" and ?k = "\<lparr>ck_id = ''k'', ck_file = ''f'', ck_position = 0\<rparr>"
  have up: "update_chat ''c'' (-2) ''m'' sample_replica_db = (Inr ?c, ?d1)"
    by (simp add: update_chat_def sample_replica_db_def Let_def get_channel_def set_channel_def status_defs)
  have enqueued: "fst (enqueue_for_channel (\<lambda>_. ''x'') ''s1'' ''c'' ?d1) = Inr ()" by code_simp
  have enq: "enqueue_for_channel (\<lambda>_. ''x'') ''s1'' ''c'' ?d1 = (Inr (), snd (enqueue_for_channel (\<lambda>_. ''x'') ''s1'' ''c'' ?d1))"
    by (metis (no_types) prod.collapse enqueued)
  have row: "?r \<in> set (fd_replicas sample_replica_db)" "?k \<in> set (fd_chunks sample_replica_db)"
    by (simp_all add: sample_replica_db_def)
  show ?thesis
    using moved_channel_keeps_old_copies [OF sample_replica_inv up enq row(1) _ _ _ row(2)]
    by (simp add: new_uploaded_def)
qed

end
