(* ===== verification/Spool.thy ===== *)
theory Spool
  imports Prelude SyncTypes
begin

text \<open>
  The relays running in the server and the admission of uploads (src/sarca/src/services/files.rs:
  \<open>RelayLedger\<close>, \<open>RelayGuard\<close>, \<open>SpoolUsage::admit\<close>). Sizes are \<open>u64\<close>, whose additions
  saturate. The ledger is a table keyed by the file's id; the order of the hash map's values does
  not matter to their sum.
\<close>

section \<open>The ledger\<close>

record spool_entry =
  se_file :: uuid
  se_on_disk :: nat
  se_unrelayed :: nat

type_synonym relay_ledger = "spool_entry list"

definition relay_start :: "uuid \<Rightarrow> nat \<Rightarrow> relay_ledger \<Rightarrow> relay_ledger" where
  "relay_start fid spooled_bytes l =
     row_put se_file \<lparr>se_file = fid, se_on_disk = spooled_bytes, se_unrelayed = spooled_bytes\<rparr> l"

definition relayed :: "uuid \<Rightarrow> nat \<Rightarrow> relay_ledger \<Rightarrow> relay_ledger" where
  "relayed fid bytes l = map (\<lambda>e. if se_file e = fid then e\<lparr>se_unrelayed := se_unrelayed e - bytes\<rparr> else e) l"

definition relay_end :: "uuid \<Rightarrow> relay_ledger \<Rightarrow> relay_ledger" where
  "relay_end fid l = row_del (\<lambda>e. se_file e = fid) l"

definition ledger_contains :: "uuid \<Rightarrow> relay_ledger \<Rightarrow> bool" where
  "ledger_contains fid l \<longleftrightarrow> row_get se_file fid l \<noteq> None"

record spool_usage =
  su_unrelayed :: nat
  su_on_disk :: nat

definition ledger_usage :: "relay_ledger \<Rightarrow> spool_usage" where
  "ledger_usage l = fold (\<lambda>e acc. \<lparr>su_unrelayed = sat_add_u64 (su_unrelayed acc) (se_unrelayed e),
       su_on_disk = sat_add_u64 (su_on_disk acc) (se_on_disk e)\<rparr>) l \<lparr>su_unrelayed = 0, su_on_disk = 0\<rparr>"

section \<open>Admission\<close>

definition spool_free_space_reserve :: nat where
  "spool_free_space_reserve = 1024 * 1024 * 1024"

datatype spool_admission = Admit | Busy | NoRoom

definition admit :: "spool_usage \<Rightarrow> nat \<Rightarrow> nat \<Rightarrow> nat option \<Rightarrow> spool_admission" where
  "admit u incoming budget available =
     (let over = 0 < su_unrelayed u \<and> budget < sat_add_u64 (su_unrelayed u) incoming;
          verdict = (if over then Busy else Admit)
      in case available of
           None \<Rightarrow> verdict
         | Some free \<Rightarrow>
             (let needed = sat_add_u64 incoming spool_free_space_reserve
              in if free < needed
                 then (if needed \<le> sat_add_u64 free (su_on_disk u) then Busy else NoRoom)
                 else verdict))"

section \<open>What a backlog adds up to\<close>

definition backlog :: "relay_ledger \<Rightarrow> nat" where
  "backlog l = sum_list (map se_unrelayed l)"

definition spooled :: "relay_ledger \<Rightarrow> nat" where
  "spooled l = sum_list (map se_on_disk l)"

lemma usage_fold:
  "fold (\<lambda>e acc. \<lparr>su_unrelayed = sat_add_u64 (su_unrelayed acc) (se_unrelayed e),
       su_on_disk = sat_add_u64 (su_on_disk acc) (se_on_disk e)\<rparr>) l
     \<lparr>su_unrelayed = min a u64_max, su_on_disk = min b u64_max\<rparr>
   = \<lparr>su_unrelayed = min (a + backlog l) u64_max, su_on_disk = min (b + spooled l) u64_max\<rparr>"
proof (induction l arbitrary: a b)
  case Nil
  then show ?case by (simp add: backlog_def spooled_def)
next
  case (Cons e l)
  have step: "sat_add_u64 (min x u64_max) y = min (x + y) u64_max" for x y
    by (auto simp: sat_add_u64_def)
  show ?case
    using Cons.IH [of "a + se_unrelayed e" "b + se_on_disk e"]
    by (simp add: step backlog_def spooled_def add.assoc)
qed

lemma ledger_usage_sums:
  "ledger_usage l = \<lparr>su_unrelayed = min (backlog l) u64_max, su_on_disk = min (spooled l) u64_max\<rparr>"
  using usage_fold [of l 0 0] by (simp add: ledger_usage_def)

lemma set_row_put_subset: "set (row_put key r rows) \<subseteq> insert r (set rows)"
  by (induction rows) auto

lemma empty_ledger [simp]: "backlog [] = 0" "spooled [] = 0"
  by (simp_all add: backlog_def spooled_def)

lemma backlog_put: "backlog (row_put se_file e l) \<le> backlog l + se_unrelayed e"
  by (induction l) (auto simp: backlog_def)

lemma backlog_del: "backlog (row_del P l) \<le> backlog l"
  by (induction l) (auto simp: backlog_def row_del_def)

lemma backlog_relayed: "backlog (relayed fid b l) \<le> backlog l"
  by (induction l) (auto simp: backlog_def relayed_def)

section \<open>A server that starts each upload it admits\<close>

datatype spool_event = Upload uuid nat "nat option" | ChunkStored uuid nat | RelayEnds uuid

fun serve :: "nat \<Rightarrow> spool_event \<Rightarrow> relay_ledger \<Rightarrow> relay_ledger" where
  "serve budget (Upload fid n available) l =
     (if admit (ledger_usage l) n budget available = Admit then relay_start fid n l else l)"
| "serve budget (ChunkStored fid b) l = relayed fid b l"
| "serve budget (RelayEnds fid) l = relay_end fid l"

definition one_upload :: "relay_ledger \<Rightarrow> bool" where
  "one_upload l \<longleftrightarrow> (\<exists>fid. \<forall>e\<in>set l. se_file e \<noteq> fid \<longrightarrow> se_unrelayed e = 0)"

lemma admit_backlog:
  assumes "admit (ledger_usage l) n budget available = Admit" "budget < u64_max" "backlog l \<noteq> 0"
  shows "backlog l + n \<le> budget"
  using assms by (auto simp: admit_def ledger_usage_sums sat_add_u64_def Let_def min_def
      split: option.splits if_splits)

lemma backlog_zero: "backlog l = 0 \<Longrightarrow> e \<in> set l \<Longrightarrow> se_unrelayed e = 0"
  by (auto simp: backlog_def)

lemma serve_bounded:
  assumes b: "budget < u64_max" and l: "backlog l \<le> budget \<or> one_upload l"
  shows "backlog (serve budget ev l) \<le> budget \<or> one_upload (serve budget ev l)"
proof (cases ev)
  case (Upload fid n available)
  show ?thesis
  proof (cases "admit (ledger_usage l) n budget available = Admit")
    case a: True
    show ?thesis
    proof (cases "backlog l = 0")
      case True
      then have "one_upload (relay_start fid n l)"
        unfolding one_upload_def relay_start_def
        by (intro exI [of _ fid]) (auto dest!: set_row_put_subset [THEN subsetD] dest: backlog_zero)
      then show ?thesis using a by (simp add: Upload)
    next
      case False
      then show ?thesis using a admit_backlog [OF a b False] 
          backlog_put [of "\<lparr>se_file = fid, se_on_disk = n, se_unrelayed = n\<rparr>" l]
        by (auto simp: Upload relay_start_def)
    qed
  qed (use l in \<open>simp add: Upload\<close>)
next
  case (ChunkStored fid k)
  have "one_upload l \<Longrightarrow> one_upload (relayed fid k l)"
    by (fastforce simp: one_upload_def relayed_def)
  then show ?thesis using l backlog_relayed [of fid k l] by (auto simp: ChunkStored)
next
  case (RelayEnds fid)
  have "one_upload l \<Longrightarrow> one_upload (relay_end fid l)"
    by (auto simp: one_upload_def relay_end_def row_del_def)
  then show ?thesis using l backlog_del [of "\<lambda>e. se_file e = fid" l]
    by (auto simp: RelayEnds relay_end_def)
qed

lemma serve_run_bounded:
  assumes "budget < u64_max" "backlog l \<le> budget \<or> one_upload l"
  shows "backlog (fold (serve budget) evs l) \<le> budget \<or> one_upload (fold (serve budget) evs l)"
  using assms(2)
proof (induction evs arbitrary: l)
  case (Cons ev evs)
  show ?case using Cons.IH [OF serve_bounded [OF assms(1) Cons.prems, of ev]] by simp
qed simp



text \<open>
  The check and the start are not one step in the program: the body is received in between, and
  two uploads that are received at the same time are both weighed against the same usage.
\<close>

lemma uploads_in_parallel_exceed_budget:
  fixes m n budget :: nat
  assumes "0 < m" "m \<le> budget" "0 < n" "n \<le> budget" "budget < m + n" "fid \<noteq> gid"
  shows "admit (ledger_usage []) m budget None = Admit \<and> admit (ledger_usage []) n budget None = Admit \<and>
    budget < backlog (relay_start gid n (relay_start fid m [])) \<and>
    \<not> one_upload (relay_start gid n (relay_start fid m []))"
  using assms by (auto simp: admit_def ledger_usage_def relay_start_def backlog_def one_upload_def)

section \<open>The disk\<close>

lemma admit_keeps_reserve:
  assumes "admit u n budget (Some free) = Admit" "free < u64_max"
  shows "n + spool_free_space_reserve \<le> free"
  using assms by (auto simp: admit_def Let_def sat_add_u64_def min_def split: if_splits)

text \<open>
  An upload is refused for good only when waiting cannot help: it gets \<open>NoRoom\<close> exactly when
  it does not fit even if every running relay gave back what its spool holds, and whatever is
  admitted leaves the reserve on the disk. A file below the budget is never turned away on an
  idle spool with enough room.
\<close>

theorem admission_exact:
  assumes "n + spool_free_space_reserve < u64_max" "free + spooled l < u64_max"
  shows "(admit (ledger_usage l) n budget (Some free) = NoRoom
        \<longleftrightarrow> free + spooled l < n + spool_free_space_reserve) \<and>
    (admit (ledger_usage l) n budget (Some free) = Admit
        \<longrightarrow> n + spool_free_space_reserve \<le> free) \<and>
    (backlog l = 0 \<and> n + spool_free_space_reserve \<le> free
        \<longrightarrow> admit (ledger_usage l) n budget (Some free) = Admit) \<and>
    admit (ledger_usage []) n budget (Some (free + spooled l))
       \<noteq> Busy"
  using assms by (auto simp: admit_def ledger_usage_sums Let_def sat_add_u64_def min_def
      split: if_splits)

lemma admission_exact_witness:
  "admit (ledger_usage (relay_start ''a'' 7 [])) 3 10 (Some 2) = NoRoom"
  using admission_exact [of 3 2 "relay_start ''a'' 7 []" 10]
  by (simp add: relay_start_def spooled_def spool_free_space_reserve_def u64_max_def)

end
