(* ===== verification/ServerState.thy ===== *)
theory ServerState
  imports EngineMonad Shares ChunkReplicas Spool
begin

text \<open>
  The state the server's request handlers share and how a handler reaches it. A handler is a
  sequence of statements; each is one atomic step of the database, and before each step the
  environment may let other requests run (\<open>en_meanwhile\<close>), so that a handler sees what the code
  would see, not a frozen database. The clock and fresh ids depend on the number of the step, and so do Telegram's answers: the content of a document
  (\<open>en_fetch\<close>, out of the chunk cache or downloaded; \<open>en_stream\<close>, as it comes, perhaps cut off by
  an error), the id and message of a document that is
  sent, the name of a chat, who a token belongs to and which chats it administers. What
  Telegram's client does to the database on its way, taking a bot's token, is among the other
  requests. \<open>en_lower\<close> is
  the lower case of a text, \<open>en_mime\<close> the type guessed from a file name, \<open>en_zip\<close> the archive of
  named files, \<open>en_chunk_mb\<close> the configured size of a chunk; \<open>en_thumbnail\<close> and
  \<open>en_preview\<close> are what the image codecs make of a file, and \<open>en_completion\<close> is the order in which
  chunks that are sent together are accepted. The deletions asked of Telegram are a trace. The media caches are
  removed from in a background task: what is dropped is a trace as well.
\<close>

record storage_row =
  so_id :: uuid
  so_name :: string
  so_primary :: int

record worker_row =
  sw_id :: uuid
  sw_name :: string
  sw_user :: uuid
  sw_token :: string
  sw_storage :: "uuid option"

record purge_job =
  gj_id :: uuid
  gj_storage :: uuid
  gj_token :: string
  gj_completed :: "int option"

record purge_message =
  gm_id :: int
  gm_job :: uuid
  gm_chat :: int
  gm_message :: int
  gm_status :: string
  gm_attempts :: int
  gm_error :: "string option"
  gm_updated :: int

record server =
  sv_files :: files_db
  sv_storages :: "storage_row list"
  sv_workers :: "worker_row list"
  sv_usages :: "(uuid \<times> int) list"
  sv_jobs :: "purge_job list"
  sv_purges :: "purge_message list"
  sv_purge_seq :: int
  sv_shares :: shares
  sv_acc :: accounts
  sv_settings :: "(string \<times> string) list"
  sv_relays :: relay_ledger
  sv_gc :: "(int \<times> int \<times> uuid) list list"
  sv_deleted :: "(int \<times> int) list"
  sv_dropped :: "(uuid \<times> string) list"
  sv_steps :: nat

record server_env =
  en_now :: "nat \<Rightarrow> int"
  en_ids :: "nat \<Rightarrow> nat \<Rightarrow> uuid"
  en_meanwhile :: "nat \<Rightarrow> server \<Rightarrow> server"
  en_lower :: "string \<Rightarrow> string"
  en_fetch :: "nat \<Rightarrow> string \<Rightarrow> uuid \<Rightarrow> string sarca_result"
  en_stream :: "nat \<Rightarrow> string \<Rightarrow> uuid \<Rightarrow> (string \<times> sarca_error option) sarca_result"
  en_mime :: "string \<Rightarrow> string"
  en_zip :: "(string \<times> string) list \<Rightarrow> string"
  en_chunk_mb :: nat
  en_completion :: "nat \<Rightarrow> (nat \<times> nat \<times> nat) list \<Rightarrow> (nat \<times> nat \<times> nat) list"
  en_thumbnail :: "string \<Rightarrow> string \<Rightarrow> nat \<Rightarrow> (string, (string \<times> string option) option) result"
  en_preview :: "string \<Rightarrow> (string, string) result"
  en_send :: "nat \<Rightarrow> string \<Rightarrow> int \<Rightarrow> uuid \<Rightarrow> (string \<times> int) sarca_result"
  en_get_chat :: "nat \<Rightarrow> int \<Rightarrow> uuid \<Rightarrow> string sarca_result"
  en_get_me :: "nat \<Rightarrow> string \<Rightarrow> (int \<times> string) sarca_result"
  en_delete_message :: "nat \<Rightarrow> int \<Rightarrow> int \<Rightarrow> string \<Rightarrow> unit sarca_result"
  en_discover :: "nat \<Rightarrow> string \<Rightarrow> int list \<Rightarrow> ((int \<times> string) list \<times> string option) sarca_result"

type_synonym 'a srv = "(server, sarca_error, 'a) em"

text \<open>One step: other requests first, then the statement at the time of its step.\<close>

definition atomically :: "server_env \<Rightarrow> (int \<Rightarrow> (nat \<Rightarrow> uuid) \<Rightarrow> server \<Rightarrow> ('e, 'a) result \<times> server) \<Rightarrow> (server, 'e, 'a) em" where
  "atomically env f = (\<lambda>s.
     let n = sv_steps s;
         (r, t) = f (en_now env n) (en_ids env n) (en_meanwhile env n s)
     in (r, t\<lparr>sv_steps := Suc n\<rparr>))"

definition db_read :: "server_env \<Rightarrow> (files_db \<Rightarrow> 'a) \<Rightarrow> (server, 'e, 'a) em" where
  "db_read env q = atomically env (\<lambda>_ _ s. (Inr (q (sv_files s)), s))"

definition db_try :: "server_env \<Rightarrow> (files_db \<Rightarrow> ('e, 'a) result) \<Rightarrow> (server, 'e, 'a) em" where
  "db_try env q = atomically env (\<lambda>_ _ s. (q (sv_files s), s))"

definition db_run :: "server_env \<Rightarrow> (int \<Rightarrow> (nat \<Rightarrow> uuid) \<Rightarrow> files_db \<Rightarrow> ('e, 'a) result \<times> files_db) \<Rightarrow> (server, 'e, 'a) em" where
  "db_run env f = atomically env (\<lambda>now ids s. let (r, db) = f now ids (sv_files s) in (r, s\<lparr>sv_files := db\<rparr>))"

definition shares_run :: "server_env \<Rightarrow> (files_db \<Rightarrow> shares \<Rightarrow> shares) \<Rightarrow> (server, 'e, unit) em" where
  "shares_run env f = atomically env (\<lambda>_ _ s. (Inr (), s\<lparr>sv_shares := f (sv_files s) (sv_shares s)\<rparr>))"

definition require_access :: "server_env \<Rightarrow> uuid \<Rightarrow> uuid \<Rightarrow> access_type \<Rightarrow> unit srv" where
  "require_access env user storage wanted =
     atomically env (\<lambda>_ _ s. (check_access user storage wanted (sv_acc s), s))"

text \<open>A call of a service, which takes a step of its own.\<close>

definition remote :: "(nat \<Rightarrow> 'e + 'a) \<Rightarrow> (server, 'e, 'a) em" where
  "remote f = (\<lambda>s. (f (sv_steps s), s\<lparr>sv_steps := Suc (sv_steps s)\<rparr>))"

text \<open>\<open>map_err\<close> on the result of a call.\<close>

definition em_map_err :: "('e \<Rightarrow> 'f) \<Rightarrow> ('s, 'e, 'a) em \<Rightarrow> ('s, 'f, 'a) em" where
  "em_map_err f m = (\<lambda>s. case m s of (r, t) \<Rightarrow> (map_sum f id r, t))"

definition invalidate_media_cache :: "uuid \<Rightarrow> string \<Rightarrow> (server, 'e, unit) em" where
  "invalidate_media_cache storage path = em_modify (\<lambda>s. s\<lparr>sv_dropped := sv_dropped s @ [(storage, path)]\<rparr>)"

section \<open>Runs\<close>

text \<open>An environment in which nobody else is served.\<close>

definition quiet :: "server_env \<Rightarrow> bool" where
  "quiet env \<longleftrightarrow> (\<forall>n s. en_meanwhile env n s = s)"

lemma quietD [simp]: "quiet env \<Longrightarrow> en_meanwhile env n s = s"
  by (simp add: quiet_def)

named_theorems step_runs "what one step does when nobody else is served"

lemma db_read_run [step_runs]:
  "quiet env \<Longrightarrow> db_read env q s = (Inr (q (sv_files s)), s\<lparr>sv_steps := Suc (sv_steps s)\<rparr>)"
  by (simp add: db_read_def atomically_def)

lemma db_try_run [step_runs]:
  "quiet env \<Longrightarrow> db_try env q s = (q (sv_files s), s\<lparr>sv_steps := Suc (sv_steps s)\<rparr>)"
  by (simp add: db_try_def atomically_def)

lemma db_run_run [step_runs]:
  "quiet env \<Longrightarrow> db_run env f s =
     (let (r, db) = f (en_now env (sv_steps s)) (en_ids env (sv_steps s)) (sv_files s)
      in (r, s\<lparr>sv_files := db, sv_steps := Suc (sv_steps s)\<rparr>))"
  by (simp add: db_run_def atomically_def Let_def split: prod.splits)

lemma shares_run_run [step_runs]:
  "quiet env \<Longrightarrow> shares_run env f s =
     (Inr (), s\<lparr>sv_shares := f (sv_files s) (sv_shares s), sv_steps := Suc (sv_steps s)\<rparr>)"
  by (simp add: shares_run_def atomically_def)

lemma remote_run [step_runs]: "remote f s = (f (sv_steps s), s\<lparr>sv_steps := Suc (sv_steps s)\<rparr>)"
  by (simp add: remote_def)

lemma require_access_run [step_runs]:
  "quiet env \<Longrightarrow> require_access env u st w s = (check_access u st w (sv_acc s), s\<lparr>sv_steps := Suc (sv_steps s)\<rparr>)"
  by (simp add: require_access_def atomically_def)

lemma atomically_run:
  "quiet env \<Longrightarrow> atomically env f s =
     (let (r, t) = f (en_now env (sv_steps s)) (en_ids env (sv_steps s)) s in (r, t\<lparr>sv_steps := Suc (sv_steps s)\<rparr>))"
  by (simp add: atomically_def Let_def)

lemma em_bind_Inr: "m s = (Inr a, t) \<Longrightarrow> em_bind m f s = f a t"
  by (simp add: em_bind_def)

lemma em_then_Inr: "m s = (Inr a, t) \<Longrightarrow> em_then m n s = n t"
  by (simp add: em_then_def em_bind_def)

section \<open>A server to try things on\<close>

definition quiet_env :: server_env where
  "quiet_env = \<lparr>en_now = (\<lambda>n. int n), en_ids = (\<lambda>n i. ''n'' @ show_nat n), en_meanwhile = (\<lambda>n s. s),
     en_lower = (\<lambda>s. s), en_fetch = (\<lambda>n f st. Inl Unknown),
     en_stream = (\<lambda>n f st. Inl Unknown), en_mime = (\<lambda>_. ''application/octet-stream''), en_zip = (\<lambda>es. concat (map snd es)), en_chunk_mb = 20,
     en_completion = (\<lambda>_ plan. plan), en_thumbnail = (\<lambda>_ _ _. Inr None), en_preview = (\<lambda>_. Inl ''no decoder''),
     en_send = (\<lambda>n b c st. Inl Unknown),
     en_get_chat = (\<lambda>n c st. Inl Unknown), en_get_me = (\<lambda>n t. Inl Unknown),
     en_delete_message = (\<lambda>n c m t. Inr ()), en_discover = (\<lambda>n t cs. Inl Unknown)\<rparr>"

definition empty_server :: server where
  "empty_server = \<lparr>sv_files = \<lparr>fd_files = [], fd_events = [], fd_seq = 0, fd_chunks = [], fd_replicas = [],
       fd_channels = [], fd_storages = []\<rparr>,
     sv_storages = [], sv_workers = [], sv_usages = [], sv_jobs = [], sv_purges = [], sv_purge_seq = 0, sv_shares = [],
     sv_acc = \<lparr>acc_users = [], acc_access = [], acc_storages = []\<rparr>, sv_settings = [], sv_relays = [],
     sv_gc = [], sv_deleted = [], sv_dropped = [], sv_steps = 0\<rparr>"

lemma quiet_quiet_env: "quiet quiet_env"
  by (simp add: quiet_def quiet_env_def)

end
