(* ===== verification/FilesTree.thy ===== *)
theory FilesTree
  imports FilesRepo
begin

text \<open>
  What the statements of the files repository do to the tree of paths: which rows an
  \<open>UPDATE\<close> over a folder touches and what it leaves, when it can fail, and from that the
  renaming of a folder, the way into the trash and back, and the repairs nobody can make.
\<close>

section \<open>The rows after an update\<close>

lemma row_event_tables: "fd_seq (row_event op r now db) = fd_seq db + 1"
  by (simp add: row_event_def)

lemma update_row_files:
  assumes "update_row f now i db = Inr d" "keys_ok f_id (fd_files db)" "row_edit f"
  shows "fd_files d = map (\<lambda>r. if f_id r = i then files_touch_updated_at r (f r) now else r) (fd_files db)"
proof (cases "row_get f_id i (fd_files db)")
  case None
  then have "d = db" using assms(1) by (simp add: update_row_def)
  moreover have "\<forall>r\<in>set (fd_files db). f_id r \<noteq> i" using None by (auto simp: row_get_None_iff)
  ultimately show ?thesis by (simp add: map_idI)
next
  case (Some old)
  have "fd_files d = map (\<lambda>x. if f_id x = i then files_touch_updated_at old (f old) now else x) (fd_files db)"
    using assms(1,3) row_get_SomeD [OF Some]
    by (auto simp: update_row_def Some Let_def put_file_def row_edit_def split: if_splits)
  moreover have "x = old" if "x \<in> set (fd_files db)" "f_id x = i" for x
    using that row_get_Some_iff [OF assms(2)] Some by (metis option.inject)
  ultimately show ?thesis by (auto intro!: map_cong)
qed

lemma keys_ok_map_same:
  "(\<And>r. key (g r) = key r) \<Longrightarrow> keys_ok key rows \<Longrightarrow> keys_ok key (map g rows)"
  by (simp add: keys_ok_def o_def)

definition touched :: "(file_row \<Rightarrow> file_row) \<Rightarrow> int \<Rightarrow> file_row \<Rightarrow> file_row" where
  "touched f now r = files_touch_updated_at r (f r) now"

lemma touched_simps [simp]:
  "f_id (touched f now r) = f_id (f r)" "f_path (touched f now r) = f_path (f r)"
  "f_storage (touched f now r) = f_storage (f r)" "f_deleted (touched f now r) = f_deleted (f r)"
  "is_live (touched f now r) = is_live (f r)"
  by (simp_all add: touched_def is_live_def)

lemma update_rows_files:
  assumes "update_rows f now is db = Inr db'" "keys_ok f_id (fd_files db)" "row_edit f" "distinct is"
  shows "fd_files db' = map (\<lambda>r. if f_id r \<in> set is then touched f now r else r) (fd_files db)"
  using assms
proof (induction "is" arbitrary: db)
  case (Cons i "is")
  obtain d where d: "update_row f now i db = Inr d" and rest: "update_rows f now is d = Inr db'"
    using Cons.prems(1) by (auto simp: res_bind_def split: sum.splits)
  have files: "fd_files d = map (\<lambda>r. if f_id r = i then touched f now r else r) (fd_files db)"
    using update_row_files [OF d Cons.prems(2,3)] by (simp add: touched_def cong: if_cong)
  have same: "f_id (touched f now r) = f_id r" for r using Cons.prems(3) by (simp add: row_edit_def)
  have keys: "keys_ok f_id (fd_files d)"
    unfolding files by (rule keys_ok_map_same [OF _ Cons.prems(2)]) (use Cons.prems(3) in \<open>simp add: row_edit_def\<close>)
  show ?case
    using Cons.IH [OF rest keys Cons.prems(3)] Cons.prems(4) same by (auto simp: files o_def intro!: map_cong)
qed simp

lemma update_where_files:
  assumes "update_where P f now db = Inr (db', n)" "keys_ok f_id (fd_files db)" "row_edit f"
  shows "fd_files db' = map (\<lambda>r. if P r then touched f now r else r) (fd_files db)"
    and "n = length (filter P (fd_files db))"
proof -
  let ?is = "map f_id (filter P (fd_files db))"
  have run: "update_rows f now ?is db = Inr db'" and n: "n = length ?is"
    using assms(1) by (auto simp: update_where_def Let_def res_bind_def split: sum.splits)
  have "distinct ?is" using assms(2) by (simp add: keys_ok_def distinct_map_filter)
  from update_rows_files [OF run assms(2,3) this]
  have files: "fd_files db' = map (\<lambda>r. if f_id r \<in> set ?is then touched f now r else r) (fd_files db)" .
  have "f_id r \<in> set ?is \<longleftrightarrow> P r" if "r \<in> set (fd_files db)" for r
    using that assms(2) by (auto simp: keys_ok_def distinct_map dest: inj_onD)
  then show "fd_files db' = map (\<lambda>r. if P r then touched f now r else r) (fd_files db)"
    unfolding files by (intro map_cong) auto
  show "n = length (filter P (fd_files db))" using n by simp
qed

section \<open>When an update cannot fail\<close>

lemma update_row_dead:
  assumes "\<And>r. row_get f_id i (fd_files db) = Some r \<Longrightarrow> \<not> is_live (f r)"
  shows "\<exists>d. update_row f now i db = Inr d"
  using assms by (auto simp: update_row_def Let_def path_taken_def is_live_def split: option.splits)

lemma row_get_mapped:
  assumes "keys_ok f_id rows" "\<And>r. f_id (g r) = f_id r" "row_get f_id i (map g rows) = Some x"
  shows "\<exists>r. r \<in> set rows \<and> f_id r = i \<and> x = g r"
  using assms row_get_SomeD [OF assms(3)] by auto

text \<open>
  Statements whose rows all end in the trash, and statements whose rows all come from the trash
  and end at places that are free and pairwise different.
\<close>

definition into_trash :: "(file_row \<Rightarrow> bool) \<Rightarrow> (file_row \<Rightarrow> file_row) \<Rightarrow> file_row list \<Rightarrow> bool" where
  "into_trash P f rows \<longleftrightarrow> (\<forall>r\<in>set rows. P r \<longrightarrow> \<not> is_live (f r))"

definition out_of_trash :: "(file_row \<Rightarrow> bool) \<Rightarrow> (file_row \<Rightarrow> file_row) \<Rightarrow> file_row list \<Rightarrow> bool" where
  "out_of_trash P f rows \<longleftrightarrow> (\<forall>r\<in>set rows. P r \<longrightarrow> \<not> is_live r) \<and>
     live_unique (map (\<lambda>r. if P r then f r else r) rows)"

lemma path_taken_iff:
  "path_taken new db \<longleftrightarrow> is_live new \<and>
     (\<exists>x\<in>set (fd_files db). f_id x \<noteq> f_id new \<and> row_live (f_storage new) (f_path new) x)"
  by (auto simp: path_taken_def list_ex_iff)

lemma update_where_succeeds:
  assumes keys: "keys_ok f_id (fd_files db)" and edit: "row_edit f"
    and fine: "into_trash P f (fd_files db) \<or> out_of_trash P f (fd_files db)"
  shows "\<exists>db'. update_where P f now db = Inr (db', length (filter P (fd_files db)))"
proof -
  let ?rows = "fd_files db"
  have same: "f_id (touched f now r) = f_id r" "f_storage (touched f now r) = f_storage r" for r
    using edit by (simp_all add: row_edit_def)
  have go: "\<exists>db'. update_rows f now is d = Inr db'"
    if "set is \<subseteq> {f_id r |r. r \<in> set ?rows \<and> P r}" "distinct is" "set is \<inter> done = {}"
      "done \<subseteq> {f_id r |r. r \<in> set ?rows \<and> P r}"
      "fd_files d = map (\<lambda>r. if f_id r \<in> done then touched f now r else r) ?rows" for "is" "done" d
    using that
  proof (induction "is" arbitrary: d "done")
    case (Cons i "is")
    obtain r where r: "r \<in> set ?rows" "P r" "f_id r = i" using Cons.prems(1) by auto
    have inj: "x = y" if "x \<in> set ?rows" "y \<in> set ?rows" "f_id x = f_id y" for x y
      using keys that by (auto simp: keys_ok_def distinct_map dest: inj_onD)
    have keys': "keys_ok f_id (fd_files d)"
      unfolding Cons.prems(5) by (rule keys_ok_map_same [OF _ keys]) (use edit in \<open>simp add: row_edit_def\<close>)
    have get: "row_get f_id i (fd_files d) = Some r"
      unfolding row_get_Some_iff [OF keys'] using r Cons.prems(3,5) by (auto intro!: image_eqI [of _ _ r])
    have free: "\<not> path_taken (touched f now r) d"
    proof
      assume taken: "path_taken (touched f now r) d"
      then have live: "is_live (f r)" by (simp add: path_taken_def)
      then have out: "out_of_trash P f ?rows" using fine r by (auto simp: into_trash_def)
      obtain x where x: "x \<in> set ?rows" "f_id x \<noteq> i"
        "row_live (f_storage (f r)) (f_path (f r)) (if f_id x \<in> done then touched f now x else x)"
        using taken r(3) same by (auto simp: path_taken_iff Cons.prems(5) split: if_splits)
      let ?g = "\<lambda>r. if P r then f r else r"
      have gx: "row_live (f_storage (f r)) (f_path (f r)) (?g x)"
      proof (cases "f_id x \<in> done")
        case True
        then obtain y where "y \<in> set ?rows" "P y" "f_id y = f_id x" using Cons.prems(4) by auto
        then have "P x" using inj [OF _ x(1)] by metis
        then show ?thesis using x(3) True by (simp add: row_live_def)
      next
        case False
        then have "is_live x" using x(3) by (simp add: row_live_def)
        then have "\<not> P x" using out x(1) by (auto simp: out_of_trash_def)
        then show ?thesis using x(3) False by simp
      qed
      have gr: "row_live (f_storage (f r)) (f_path (f r)) (?g r)" using r live by (simp add: row_live_def)
      have "?g x = ?g r"
        by (rule live_unique_D [OF _ _ _ gx gr]) (use out x r in \<open>auto simp: out_of_trash_def\<close>)
      then have "f_id (?g x) = f_id (?g r)" by simp
      then show False using edit x(2) r(3) by (auto simp: row_edit_def split: if_splits)
    qed
    then obtain d' where d': "update_row f now i d = Inr d'"
      using get by (auto simp: update_row_def Let_def touched_def)
    have "fd_files d' = map (\<lambda>r. if f_id r \<in> insert i done then touched f now r else r) ?rows"
      using update_row_files [OF d' keys' edit] Cons.prems(3) edit
      by (auto simp: Cons.prems(5) touched_def [symmetric] o_def row_edit_def intro!: map_cong)
    then show ?case
      using Cons.IH [of "insert i done" d'] Cons.prems r by (auto simp: res_bind_def d')
  qed simp
  have "\<exists>db'. update_rows f now (map f_id (filter P ?rows)) db = Inr db'"
    by (rule go [of _ "{}"]) (use keys in \<open>auto simp: keys_ok_def distinct_map_filter\<close>)
  then show ?thesis by (auto simp: update_where_def Let_def res_bind_def)
qed

section \<open>Renaming a folder\<close>

text \<open>
  What is assumed of the stored paths: they are UTF-8 without the last plane, so that no
  continuation byte follows an ASCII one.
\<close>

definition plain_path :: "string \<Rightarrow> bool" where
  "plain_path p \<longleftrightarrow> (\<forall>b\<in>set p. (of_char b :: nat) < 0xF4) \<and>
     (\<forall>i. Suc i < length p \<and> (of_char (p ! i) :: nat) < 128 \<longrightarrow> \<not> is_cont_byte (p ! Suc i))"

lemma plain_path_rest:
  assumes "plain_path (p @ r)" "is_ascii_text p" "p \<noteq> []"
  shows "r = [] \<or> \<not> is_cont_byte (hd r)"
proof (cases r)
  case (Cons c cs)
  have "(of_char (last p) :: nat) < 128" using assms(2,3) by (simp add: is_ascii_text_def list_all_iff)
  moreover have "(p @ r) ! (length p - 1) = last p" "(p @ r) ! length p = c"
    using assms(3) Cons by (simp_all add: nth_append last_conv_nth)
  ultimately show ?thesis
    using assms(1,3) Cons by (cases p rule: rev_cases) (auto simp: plain_path_def dest!: spec [of _ "length p - 1"])
qed simp

lemma substr_of_plain:
  assumes "plain_path path" "is_ascii_text prefix" "prefix \<noteq> []" "starts_with prefix path"
  shows "sql_substr_from path (length prefix + 1) = drop (length prefix) path"
proof -
  obtain r where r: "path = prefix @ r" using assms(4) by (auto simp: starts_with_iff)
  show ?thesis unfolding r
    using substr_after_ascii_prefix [OF plain_path_rest [OF _ assms(2,3)] assms(2)] assms(1) r by simp
qed

definition in_folder :: "uuid \<Rightarrow> string \<Rightarrow> file_row \<Rightarrow> bool" where
  "in_folder storage prefix r \<longleftrightarrow> f_storage r = storage \<and> is_live r \<and> starts_with prefix (f_path r)"

text \<open>
  C24. Renaming or moving a folder with an ASCII name carries its whole subtree and nothing else:
  every live row below it keeps what follows the folder's name and stands below the new name,
  all its other columns but the time of change stay, the rows outside and in the trash are
  unchanged; when a place is taken the operation fails and the tables are as before.
\<close>

theorem rename_carries_subtree:
  assumes inv: "files_inv db" and plain: "\<forall>r\<in>set (fd_files db). plain_path (f_path r)"
    and old: "is_folder_path old" "is_ascii_text old" "old \<noteq> []"
    and run: "update_path old new storage now db = (res, db')"
  shows "(case res of
      Inl e \<Rightarrow> db' = db
    | Inr n \<Rightarrow> n = length (filter (in_folder storage old) (fd_files db)) \<and>
        fd_files db' = map (\<lambda>r. if in_folder storage old r
          then files_touch_updated_at r
                 (r\<lparr>f_path := (if is_folder_path new then new else new @ ''/'') @ drop (length old) (f_path r)\<rparr>) now
          else r) (fd_files db))"
proof -
  have keys: "keys_ok f_id (fd_files db)" using inv by (simp add: files_inv_alt)
  define P where "P r \<longleftrightarrow> f_storage r = storage \<and> (is_live r \<longleftrightarrow> True) \<and> sql_starts_with (f_path r) old" for r
  define f where "f r = r\<lparr>f_path := (if is_folder_path new then new else new @ ''/'') @ sql_substr_from (f_path r) (length old + 1)\<rparr>" for r :: file_row
  have run': "run_update map_rewrite_path_error P f now db = (res, db')"
    using run old(1) by (simp add: update_path_def rewrite_paths_def P_def [abs_def] f_def [abs_def] Let_def)
  have Pin: "P r \<longleftrightarrow> in_folder storage old r" if "r \<in> set (fd_files db)" for r
    using plain that sql_starts_with_iff [of "f_path r" old] by (auto simp: P_def in_folder_def plain_path_def)
  have fr: "f r = r\<lparr>f_path := (if is_folder_path new then new else new @ ''/'') @ drop (length old) (f_path r)\<rparr>"
    if "r \<in> set (fd_files db)" "in_folder storage old r" for r
    using substr_of_plain [OF _ old(2,3)] plain that by (simp add: f_def in_folder_def)
  have edit: "row_edit f" by (simp add: row_edit_def f_def)
  show ?thesis
  proof (cases "update_where P f now db")
    case (Inl e)
    then show ?thesis using run' by (auto simp: run_update_def)
  next
    case (Inr dn)
    obtain d n where dn: "dn = (d, n)" by (cases dn)
    have r: "res = Inr n" "db' = d" using run' Inr dn by (auto simp: run_update_def)
    have n: "n = length (filter P (fd_files db))"
      and files: "fd_files d = map (\<lambda>r. if P r then touched f now r else r) (fd_files db)"
      using update_where_files [OF Inr [unfolded dn] keys edit] by auto
    have "filter P (fd_files db) = filter (in_folder storage old) (fd_files db)"
      by (intro filter_cong) (simp_all add: Pin)
    moreover have "fd_files d = map (\<lambda>r. if in_folder storage old r
          then files_touch_updated_at r
                 (r\<lparr>f_path := (if is_folder_path new then new else new @ ''/'') @ drop (length old) (f_path r)\<rparr>) now
          else r) (fd_files db)"
      unfolding files by (intro map_cong) (simp_all add: Pin fr touched_def)
    ultimately show ?thesis using n r by simp
  qed
qed

definition tree_db :: "(uuid \<times> string) list \<Rightarrow> files_db" where
  "tree_db rows = \<lparr>fd_files = map (\<lambda>(i, path). new_file_row i 0 path True (new_in_file path 3 ''s'')) rows,
     fd_events = [], fd_seq = 0, fd_chunks = [], fd_replicas = [], fd_channels = [], fd_storages = [''s'']\<rparr>"

lemma rename_carries_subtree_witness:
  "map f_path (fd_files (snd (update_path ''d/'' ''e/'' ''s'' 9
     (tree_db [(''1'', ''d/''), (''2'', ''d/x''), (''3'', ''da'')])))) = [''e/'', ''e/x'', ''da'']"
proof -
  let ?db = "tree_db [(''1'', ''d/''), (''2'', ''d/x''), (''3'', ''da'')]"
  have inv: "files_inv ?db"
    by (simp add: files_inv_def tree_db_def keys_ok_def live_unique_def new_file_row_def new_in_file_def is_live_def)
  have plain: "\<forall>r\<in>set (fd_files ?db). plain_path (f_path r)"
    by (simp add: tree_db_def new_file_row_def new_in_file_def plain_path_def is_cont_byte_def less_Suc_eq All_less_Suc nth_Cons split: nat.splits)
  obtain res db' where run: "update_path ''d/'' ''e/'' ''s'' 9 ?db = (res, db')" by fastforce
  have ok: "is_folder_path ''d/''" "is_ascii_text ''d/''" "''d/'' \<noteq> []" by (simp_all add: is_folder_path_def is_ascii_text_def; code_simp)+
  have "fst (update_path ''d/'' ''e/'' ''s'' 9 ?db) = Inr 2" by code_simp
  then have "res = Inr 2" using run by simp
  then show ?thesis
    using rename_carries_subtree [OF inv plain ok run] run
    by (simp add: tree_db_def new_file_row_def new_in_file_def in_folder_def is_live_def starts_with_iff ends_with_iff is_folder_path_def)
qed

definition utf8_e_acute :: string where
  "utf8_e_acute = [CHR 0xC3, CHR 0xA9]"

text \<open>
  A folder whose name is not ASCII is renamed wrongly: the statement cuts off as many
  characters as the old name has bytes, so that each file below it loses characters of its own
  name, and files whose shortened names meet make the renaming fail.
\<close>

theorem rename_cuts_non_ascii_names:
  "map f_path (fd_files (snd (update_path (utf8_e_acute @ ''/'') ''e/'' ''s'' 9
     (tree_db [(''1'', utf8_e_acute @ ''/''), (''2'', utf8_e_acute @ ''/abc.txt'')])))) = [''e/'', ''e/bc.txt''] \<and>
   update_path (utf8_e_acute @ ''/'') ''e/'' ''s'' 9
     (tree_db [(''1'', utf8_e_acute @ ''/''), (''2'', utf8_e_acute @ ''/1.txt''), (''3'', utf8_e_acute @ ''/2.txt'')])
   = (Inl (map_rewrite_path_error UniqueViolation),
      tree_db [(''1'', utf8_e_acute @ ''/''), (''2'', utf8_e_acute @ ''/1.txt''), (''3'', utf8_e_acute @ ''/2.txt'')])"
  by code_simp

section \<open>Into the trash and back\<close>

lemma parent_shorter:
  assumes "path_parent p \<noteq> []"
  shows "\<exists>rest. p = path_parent p @ ''/'' @ rest"
  using assms by (auto simp: path_parent_def dest: rsplit_once_SomeD split: option.splits)

lemma not_under_longer:
  "t \<noteq> [] \<Longrightarrow> \<not> sql_starts_with s (s @ t)"
  using bytes_less_append [of s "[]" t] by (cases t) (simp_all add: sql_starts_with_def)

lemma under_iff_starts:
  assumes "plain_path (f_path r)" shows "sql_starts_with (f_path r) p \<longleftrightarrow> starts_with p (f_path r)"
  by (rule sql_starts_with_iff) (use assms in \<open>simp add: plain_path_def\<close>)

text \<open>The rows a deletion or a restoration at \<open>target\<close> is about, for a file and for a folder.\<close>

definition at_target :: "uuid \<Rightarrow> string \<Rightarrow> file_row \<Rightarrow> bool" where
  "at_target storage target r \<longleftrightarrow> f_storage r = storage \<and>
     (if is_folder_path target then sql_starts_with (f_path r) target else f_path r = target)"

lemma at_target_cong: "f_storage x = f_storage r \<Longrightarrow> f_path x = f_path r \<Longrightarrow> at_target s t x = at_target s t r"
  by (simp add: at_target_def)

lemma delete_Inr:
  assumes "delete path storage new_id now db = (Inr target, db')" "keys_ok f_id (fd_files db)"
  shows "\<exists>extra. fd_files db' = map (\<lambda>r. if at_target storage target r \<and> is_live r
       then touched (\<lambda>r. r\<lparr>f_deleted := Some now\<rparr>) now r else r) (fd_files db) @ extra \<and>
     (extra = [] \<or> (\<exists>parent. extra = [folder_row new_id now (parent @ ''/'') storage] \<and>
        (\<exists>rest. rest \<noteq> [] \<and> target = parent @ ''/'' @ rest))) \<and>
     (\<exists>r\<in>set (fd_files db). at_target storage target r \<and> is_live r)"
proof -
  define folder where "folder = probe_folder (live_under storage) path db"
  define P where "P = (case folder of None \<Rightarrow> row_live storage path | Some prefix \<Rightarrow> live_under storage prefix)"
  define f where "f r = r\<lparr>f_deleted := Some now\<rparr>" for r :: file_row
  define deleted_path where "deleted_path = (case folder of None \<Rightarrow> path | Some prefix \<Rightarrow> trim_end_matches CHR ''/'' prefix)"
  obtain db1 affected where upd: "update_where P f now db = Inr (db1, affected)" and aff: "affected \<noteq> 0"
    and target: "target = (case folder of None \<Rightarrow> path | Some prefix \<Rightarrow> prefix)"
    and last: "db' = db1 \<or> (path_parent deleted_path \<noteq> [] \<and>
       insert_row (folder_row new_id now (path_parent deleted_path @ ''/'') storage) now db1 = Inr db')"
    using assms(1) unfolding delete_def Let_def folder_def [symmetric] P_def [symmetric] f_def [abs_def, symmetric]
      deleted_path_def [symmetric]
    by (auto split: sum.splits if_splits)
  have edit: "row_edit f" by (simp add: row_edit_def f_def)
  have fold: "folder = None \<Longrightarrow> \<not> is_folder_path path" "folder = Some p \<Longrightarrow> is_folder_path p" for p
    by (auto simp: folder_def probe_folder_def is_folder_path_def ends_with_iff split: if_splits)
  have P: "P r \<longleftrightarrow> at_target storage target r \<and> is_live r" for r
    using fold by (auto simp: P_def target at_target_def live_under_def row_live_def split: option.splits)
  note files = update_where_files [OF upd assms(2) edit]
  have shorter: "\<exists>rest. rest \<noteq> [] \<and> target = path_parent deleted_path @ ''/'' @ rest" if ne: "path_parent deleted_path \<noteq> []"
  proof -
    obtain rest where rest: "deleted_path = path_parent deleted_path @ ''/'' @ rest" using parent_shorter [OF ne] by blast
    show ?thesis
    proof (cases folder)
      case None
      then have "target = deleted_path" "rest \<noteq> []" using fold(1) rest
        by (auto simp: target deleted_path_def is_folder_path_def ends_with_iff)
      then show ?thesis using rest by metis
    next
      case (Some p)
      obtain t where t: "p = trim_end_matches CHR ''/'' p @ t" using trim_end_matches_append by blast
      have "rest @ t \<noteq> []"
      proof
        assume "rest @ t = []"
        then have "p = path_parent deleted_path @ ''/''" "trim_end_matches CHR ''/'' p = p" using t rest Some
          by (auto simp: deleted_path_def)
        then show False by (metis trim_end_matches_last last_snoc snoc_eq_iff_butlast)
      qed
      moreover have "target = path_parent deleted_path @ ''/'' @ (rest @ t)"
      proof -
        have "target = deleted_path @ t" using t Some by (simp add: target deleted_path_def)
        also have "\<dots> = (path_parent deleted_path @ ''/'' @ rest) @ t" using rest by metis
        finally show ?thesis by simp
      qed
      ultimately show ?thesis by metis
    qed
  qed
  have "\<exists>extra. fd_files db' = fd_files db1 @ extra \<and> (extra = [] \<or> (path_parent deleted_path \<noteq> [] \<and>
      extra = [folder_row new_id now (path_parent deleted_path @ ''/'') storage]))"
    using last by (auto simp: insert_row_def split: if_splits)
  moreover have "\<exists>r\<in>set (fd_files db). at_target storage target r \<and> is_live r"
    using aff files(2) P by (auto simp: filter_empty_conv)
  ultimately show ?thesis using shorter files(1) unfolding P f_def [abs_def]
    by (elim exE conjE disjE) auto
qed

lemma live_unique_map:
  assumes "\<And>r. r \<in> set rows \<Longrightarrow> f_storage (g r) = f_storage r \<and> f_path (g r) = f_path r \<and> is_live (g r) = is_live r"
    and "live_unique rows"
  shows "live_unique (map g rows)"
  using assms by (induction rows) (auto simp: row_live_def)

lemma extra_free:
  assumes "live_unique (rows @ extra)" "x \<in> set extra" "r \<in> set rows" "is_live x"
  shows "\<not> row_live (f_storage x) (f_path x) r"
  using assms by (induction rows) (auto simp: row_live_def)

lemma restore_where:
  assumes "\<And>r. r \<in> set (fd_files db) \<Longrightarrow> \<not> is_folder_path path \<Longrightarrow> \<not> trashed_under storage (path @ ''/'') r"
  shows "restore path storage now db =
    (case run_update restore_error (\<lambda>r. (at_target storage path r \<and> \<not> is_live r) \<and> \<not> live_path_exists (f_path r) storage db)
           (\<lambda>r. r\<lparr>f_deleted := None\<rparr>) now db of
           (Inl e, db') \<Rightarrow> (Inl e, db')
         | (Inr affected, db') \<Rightarrow>
             if affected \<noteq> 0 then (Inr (), db')
             else if list_trashed_ids storage path db' \<noteq> [] then (Inl TrashPathConflict, db')
             else if live_path_exists path storage db' \<or>
                     (\<not> is_folder_path path \<and> live_path_exists (path @ ''/'') storage db')
             then (Inr (), db')
             else (Inl (DoesNotExist ''file''), db'))"
proof -
  have "(case probe_folder (trashed_under storage) path db of
        None \<Rightarrow> (\<lambda>r. f_storage r = storage \<and> \<not> is_live r \<and> f_path r = path)
      | Some prefix \<Rightarrow> trashed_under storage prefix) = (\<lambda>r. at_target storage path r \<and> \<not> is_live r)"
    using assms by (auto simp: probe_folder_def at_target_def trashed_under_def list_ex_iff fun_eq_iff split: option.splits)
  then show ?thesis by (simp only: restore_def Let_def)
qed



section \<open>Twins in the trash\<close>

lemma update_rows_unique: "update_rows f now is db = Inl e \<Longrightarrow> e = UniqueViolation"
  by (induction "is" arbitrary: db)
     (auto simp: res_bind_def update_row_def Let_def split: sum.splits option.splits if_splits)

lemma update_where_unique: "update_where P f now db = Inl e \<Longrightarrow> e = UniqueViolation"
  using update_rows_unique by (fastforce simp: update_where_def Let_def res_bind_def split: sum.splits)

definition plain_row :: "uuid \<Rightarrow> string \<Rightarrow> file_row" where
  "plain_row i path = new_file_row i 0 path True (new_in_file path 3 ''s'')"

text \<open>
  Two trashed versions of one path can neither be restored nor told apart: the statement
  would revive both, the unique index refuses, and the answer is a path conflict although no live
  file is in the way.
\<close>

theorem twins_cannot_be_restored:
  assumes inv: "files_inv db"
    and twins: "x \<in> set (fd_files db)" "y \<in> set (fd_files db)" "f_id x \<noteq> f_id y"
      "f_path x = path" "f_path y = path" "f_storage x = storage" "f_storage y = storage" "\<not> is_live x" "\<not> is_live y"
    and free: "live_row storage path db = None"
    and leaf: "\<not> is_folder_path path" "\<forall>r\<in>set (fd_files db). \<not> trashed_under storage (path @ ''/'') r"
  shows "restore path storage now db = (Inl TrashPathConflict, db)"
proof -
  have keys: "keys_ok f_id (fd_files db)" using inv by (simp add: files_inv_alt)
  define P where "P r \<longleftrightarrow> (at_target storage path r \<and> \<not> is_live r) \<and> \<not> live_path_exists (f_path r) storage db" for r
  let ?b = "\<lambda>r. r\<lparr>f_deleted := None\<rparr>"
  have none: "\<not> live_path_exists path storage db"
    using free by (simp add: live_path_exists_def list_ex_iff live_row_None_iff)
  have P: "P x" "P y" using twins leaf none by (simp_all add: P_def at_target_def)
  have edit: "row_edit ?b" "moves_only_live P ?b" by (simp_all add: row_edit_def moves_only_live_def)
  have "\<exists>e. update_where P ?b now db = Inl e"
  proof (cases "update_where P ?b now db")
    case (Inr dn)
    obtain d n where dn: "dn = (d, n)" by (cases dn)
    have "files_inv d"
      using announced_inv [OF announced_update [OF inv Inr [unfolded dn] edit]] .
    moreover have "fd_files d = map (\<lambda>r. if P r then touched ?b now r else r) (fd_files db)"
      by (rule update_where_files(1) [OF Inr [unfolded dn] keys edit(1)])
    ultimately have "live_unique (map (\<lambda>r. if P r then touched ?b now r else r) (fd_files db))"
      by (simp add: files_inv_alt)
    moreover have "touched ?b now x \<in> set (map (\<lambda>r. if P r then touched ?b now r else r) (fd_files db))"
      "touched ?b now y \<in> set (map (\<lambda>r. if P r then touched ?b now r else r) (fd_files db))"
      using twins(1,2) P by force+
    moreover have "row_live storage path (touched ?b now x)" "row_live storage path (touched ?b now y)"
      using twins by (simp_all add: row_live_def is_live_def)
    ultimately have "touched ?b now x = touched ?b now y" by (rule live_unique_D)
    then have "f_id (touched ?b now x) = f_id (touched ?b now y)" by (rule arg_cong)
    then show ?thesis using twins(3) by simp
  qed simp
  then obtain e where e: "update_where P ?b now db = Inl e" by blast
  have unique: "e = UniqueViolation"
    using update_where_unique [OF e] .
  have "run_update restore_error P ?b now db = (Inl TrashPathConflict, db)"
    by (simp add: run_update_def e restore_error_def unique)
  moreover have "restore path storage now db = (case run_update restore_error P ?b now db of
        (Inl e, db') \<Rightarrow> (Inl e, db') | (Inr affected, db') \<Rightarrow>
             if affected \<noteq> 0 then (Inr (), db')
             else if list_trashed_ids storage path db' \<noteq> [] then (Inl TrashPathConflict, db')
             else if live_path_exists path storage db' \<or>
                     (\<not> is_folder_path path \<and> live_path_exists (path @ ''/'') storage db')
             then (Inr (), db')
             else (Inl (DoesNotExist ''file''), db'))"
    unfolding P_def [abs_def] by (rule restore_where) (use leaf in auto)
  ultimately show ?thesis by simp
qed

lemma twins_cannot_be_restored_witness:
  "restore ''x'' ''s'' 9 ((tree_db [])\<lparr>fd_files := [(plain_row ''1'' ''x'')\<lparr>f_deleted := Some 3\<rparr>,
      (plain_row ''2'' ''x'')\<lparr>f_deleted := Some 4\<rparr>]\<rparr>)
   = (Inl TrashPathConflict, (tree_db [])\<lparr>fd_files := [(plain_row ''1'' ''x'')\<lparr>f_deleted := Some 3\<rparr>,
      (plain_row ''2'' ''x'')\<lparr>f_deleted := Some 4\<rparr>]\<rparr>)"
  by (rule twins_cannot_be_restored [where x = "(plain_row ''1'' ''x'')\<lparr>f_deleted := Some 3\<rparr>"
        and y = "(plain_row ''2'' ''x'')\<lparr>f_deleted := Some 4\<rparr>"])
     (simp_all add: plain_row_def files_inv_def tree_db_def keys_ok_def live_unique_def new_file_row_def new_in_file_def
        is_live_def live_row_def row_live_def is_folder_path_def ends_with_iff trashed_under_def sql_starts_with_def)

end
