(* ===== verification/Trash.thy ===== *)
theory Trash
  imports ServerState
begin

text \<open>
  The trash (src/sarca/src/services/trash.rs, trash_purge.rs, settings.rs;
  repositories/app_settings.rs): listing, restoring and deleting for good, the purge of file rows
  with the collection of the Telegram messages nobody refers to any more, and the retention.
  The collection is spawned: \<open>sv_gc\<close> holds the spawned batches, \<open>collect_spawned\<close> runs them.
\<close>

section \<open>Purging rows\<close>

fun unique_messages :: "(int \<times> int) list \<Rightarrow> (int \<times> int \<times> uuid) list \<Rightarrow> (int \<times> int \<times> uuid) list" where
  "unique_messages seen [] = []"
| "unique_messages seen ((chat, message, storage) # ms) =
     (if (chat, message) \<in> set seen then unique_messages seen ms
      else (chat, message, storage) # unique_messages ((chat, message) # seen) ms)"

definition purge_file_ids :: "server_env \<Rightarrow> uuid list \<Rightarrow> unit srv" where
  "purge_file_ids env ids =
     (if ids = [] then em_return ()
      else
        em_bind (db_read env (list_telegram_messages_for_files ids)) (\<lambda>copies.
        em_bind (db_read env (list_derived_messages_for_files ids)) (\<lambda>derived.
        em_then (shares_run env (\<lambda>db ls. snd (delete_for_file_ids ids db ls)))
       (em_then (db_run env (\<lambda>now _ db. (Inr (), hard_delete_ids ids now db)))
       (em_when (copies @ derived \<noteq> [])
          (em_modify (\<lambda>s. s\<lparr>sv_gc := sv_gc s @ [unique_messages [] (copies @ derived)]\<rparr>)))))))"

definition gc_message :: "server_env \<Rightarrow> int \<times> int \<times> uuid \<Rightarrow> unit srv" where
  "gc_message env = (\<lambda>(chat, message, storage).
     em_bind (db_read env (message_still_referenced chat message)) (\<lambda>replica_ref.
     em_bind (db_read env (derived_message_still_referenced chat message)) (\<lambda>derived_ref.
     em_when (\<not> (replica_ref \<or> derived_ref))
       (em_modify (\<lambda>s. s\<lparr>sv_deleted := sv_deleted s @ [(chat, message)]\<rparr>)))))"

definition gc_telegram_messages :: "server_env \<Rightarrow> (int \<times> int \<times> uuid) list \<Rightarrow> unit srv" where
  "gc_telegram_messages env messages = em_each (gc_message env) messages"

definition collect_spawned :: "server_env \<Rightarrow> unit srv" where
  "collect_spawned env =
     em_bind (em_gets sv_gc) (\<lambda>batches.
     em_then (em_modify (\<lambda>s. s\<lparr>sv_gc := []\<rparr>))
       (em_each (gc_telegram_messages env) batches))"

section \<open>The service\<close>

definition normalize_trash_path :: "string \<Rightarrow> string" where
  "normalize_trash_path path = trim_start_matches CHR ''/'' path"

definition canonical_trashed_path :: "server_env \<Rightarrow> uuid \<Rightarrow> string \<Rightarrow> string srv" where
  "canonical_trashed_path env storage path =
     (if is_folder_path path then em_return path
      else em_bind (db_read env (list_trashed_ids storage (path @ ''/''))) (\<lambda>folder_ids.
        em_return (if folder_ids = [] then path else path @ ''/'')))"

definition live_conflict_at :: "server_env \<Rightarrow> uuid \<Rightarrow> string \<Rightarrow> bool srv" where
  "live_conflict_at env storage path =
     em_bind (db_read env (live_path_exists path storage)) (\<lambda>taken.
       if taken then em_return True
       else if is_folder_path path then em_return False
       else db_read env (live_path_exists (path @ ''/'') storage))"

definition trash_list :: "server_env \<Rightarrow> uuid \<Rightarrow> string \<Rightarrow> uuid \<Rightarrow> fs_element list srv" where
  "trash_list env storage path user =
     em_then (require_access env user storage AR) (db_read env (list_trash storage path))"

definition restore_at :: "server_env \<Rightarrow> uuid \<Rightarrow> string \<Rightarrow> unit srv" where
  "restore_at env storage path =
     em_then (db_run env (\<lambda>now ids. ensure_live_parent_folders path storage ids now))
       (db_run env (\<lambda>now _. restore path storage now))"

definition trash_restore :: "server_env \<Rightarrow> uuid \<Rightarrow> string \<Rightarrow> string option \<Rightarrow> uuid \<Rightarrow> unit srv" where
  "trash_restore env storage path on_conflict user =
     em_then (require_access env user storage AW)
      (if path = [] then em_throw InvalidPath
       else
         (let restore_path = normalize_trash_path path
          in em_bind (db_read env (list_trashed_ids storage restore_path)) (\<lambda>ids.
             if ids = [] then em_throw (DoesNotExist ''file'')
             else
               em_bind (canonical_trashed_path env storage restore_path) (\<lambda>canonical.
               em_bind (live_conflict_at env storage canonical) (\<lambda>live_conflict.
                 if \<not> live_conflict then restore_at env storage canonical
                 else (case on_conflict of
                     None \<Rightarrow> em_throw TrashPathConflict
                   | Some answer \<Rightarrow>
                       if answer = ''replace'' then
                         em_bind (db_read env (list_live_ids_at_path storage canonical)) (\<lambda>live_ids.
                         em_then (purge_file_ids env live_ids)
                        (em_then (invalidate_media_cache storage canonical)
                           (restore_at env storage canonical)))
                       else if answer = ''rename'' then
                         em_bind (db_try env (next_available_live_path canonical storage)) (\<lambda>new_path.
                         em_bind (db_run env (\<lambda>now _. update_trashed_path canonical new_path storage now)) (\<lambda>_.
                           restore_at env storage new_path))
                       else em_throw InvalidPath))))))"

definition delete_forever :: "server_env \<Rightarrow> uuid \<Rightarrow> string \<Rightarrow> uuid \<Rightarrow> unit srv" where
  "delete_forever env storage path user =
     em_then (require_access env user storage AW)
      (em_bind (db_read env (list_trashed_ids storage (normalize_trash_path path))) (\<lambda>ids.
         if ids = [] then em_throw (DoesNotExist ''file'') else purge_file_ids env ids))"

definition empty_trash :: "server_env \<Rightarrow> uuid \<Rightarrow> uuid \<Rightarrow> unit srv" where
  "empty_trash env storage user =
     em_then (require_access env user storage AW)
      (em_bind (db_read env (list_all_trashed_ids storage)) (purge_file_ids env))"

section \<open>The retention\<close>

definition trash_retention_days_key :: string where "trash_retention_days_key = ''trash_retention_days''"
definition default_trash_retention_days :: int where "default_trash_retention_days = 30"
definition min_trash_retention_days :: int where "min_trash_retention_days = 1"
definition max_trash_retention_days :: int where "max_trash_retention_days = 30"

definition get_value :: "string \<Rightarrow> (string \<times> string) list \<Rightarrow> string option" where
  "get_value key settings = map_option snd (row_get fst key settings)"

definition set_value :: "string \<Rightarrow> string \<Rightarrow> (string \<times> string) list \<Rightarrow> (string \<times> string) list" where
  "set_value key v settings = row_put fst (key, v) settings"

text \<open>\<open>str::parse::<i32>\<close>.\<close>

definition parse_i32 :: "string \<Rightarrow> int option" where
  "parse_i32 s = parse_signed 2147483647 s"

definition get_trash_retention_days :: "(string \<times> string) list \<Rightarrow> int sarca_result" where
  "get_trash_retention_days settings =
     (let raw = (case get_value trash_retention_days_key settings of
                   None \<Rightarrow> show_int default_trash_retention_days | Some v \<Rightarrow> v)
      in case parse_i32 raw of
           None \<Rightarrow> Inl Unknown
         | Some days \<Rightarrow> Inr (max min_trash_retention_days (min max_trash_retention_days days)))"

definition set_trash_retention_days :: "int \<Rightarrow> (string \<times> string) list \<Rightarrow> unit sarca_result \<times> (string \<times> string) list" where
  "set_trash_retention_days days settings =
     (if \<not> (min_trash_retention_days \<le> days \<and> days \<le> max_trash_retention_days)
      then (Inl InvalidTrashRetention, settings)
      else (Inr (), set_value trash_retention_days_key (show_int days) settings))"

definition settings_get_trash :: "server_env \<Rightarrow> int srv" where
  "settings_get_trash env = atomically env (\<lambda>_ _ s. (get_trash_retention_days (sv_settings s), s))"

definition settings_set_trash :: "server_env \<Rightarrow> int \<Rightarrow> int srv" where
  "settings_set_trash env days =
     em_then (atomically env (\<lambda>_ _ s. let (r, t) = set_trash_retention_days days (sv_settings s)
        in (r, s\<lparr>sv_settings := t\<rparr>)))
      (settings_get_trash env)"

definition trash_purge_run_once :: "server_env \<Rightarrow> (server, string, unit) em" where
  "trash_purge_run_once env =
     em_bind (em_map_err error_text (settings_get_trash env)) (\<lambda>retention.
     em_bind (atomically env (\<lambda>now _ s. (Inr (list_expired_trashed_ids now retention (sv_files s)), s))) (\<lambda>expired.
       if expired = [] then em_return ()
       else em_map_err error_text (purge_file_ids env (map fst expired))))"

section \<open>What a purge leaves\<close>

lemma hard_delete_tables:
  "fd_files (hard_delete_ids ids now db) = filter (\<lambda>f. f_id f \<notin> set ids) (fd_files db)"
  "fd_channels (hard_delete_ids ids now db) = fd_channels db"
  using delete_rows_tables [of now "map f_id (filter (\<lambda>r. f_id r \<in> set ids) (fd_files db))" db]
  by (auto simp: hard_delete_ids_def intro!: filter_cong)

lemma hard_delete_keeps_copy:
  assumes "rp \<in> set (fd_replicas db)" "\<forall>k\<in>set (fd_chunks db). ck_id k = rp_chunk rp \<longrightarrow> ck_file k \<notin> set ids"
  shows "rp \<in> set (fd_replicas (hard_delete_ids ids now db))"
  unfolding hard_delete_ids_def by (rule delete_rows_keep_copy) (use assms in auto)

section \<open>What the collection deletes\<close>

definition orphan :: "files_db \<Rightarrow> int \<times> int \<Rightarrow> bool" where
  "orphan db = (\<lambda>(chat, message).
     \<not> message_still_referenced chat message db \<and> \<not> derived_message_still_referenced chat message db)"

definition place :: "int \<times> int \<times> uuid \<Rightarrow> int \<times> int" where
  "place = (\<lambda>(chat, message, storage). (chat, message))"

lemma place_simp [simp]: "place (chat, message, storage) = (chat, message)"
  by (simp add: place_def)

lemma unique_messages_Nil_iff: "unique_messages [] ms = [] \<longleftrightarrow> ms = []"
  by (cases ms) auto

lemma unique_messages_places:
  "distinct (map place (unique_messages seen ms)) \<and>
   set (map place (unique_messages seen ms)) = place ` set ms - set seen"
  by (induction seen ms rule: unique_messages.induct) (auto simp: image_iff)

lemma gc_run:
  assumes "quiet env"
  shows "\<exists>n. gc_telegram_messages env ms s =
    (Inr (), s\<lparr>sv_deleted := sv_deleted s @ filter (orphan (sv_files s)) (map place ms), sv_steps := n\<rparr>)"
  unfolding gc_telegram_messages_def
proof (induction ms arbitrary: s)
  case Nil
  then show ?case by (intro exI [of _ "sv_steps s"]) (simp add: em_return_def)
next
  case (Cons m ms)
  obtain chat message storage where m: "m = (chat, message, storage)" by (cases m)
  let ?s = "s\<lparr>sv_deleted := sv_deleted s @ filter (orphan (sv_files s)) [place m],
     sv_steps := Suc (Suc (sv_steps s))\<rparr>"
  have step: "gc_message env m s = (Inr (), ?s)"
    using assms by (simp add: gc_message_def m em_bind_def em_when_def step_runs orphan_def place_def)
  obtain n where "em_each (gc_message env) ms ?s =
      (Inr (), ?s\<lparr>sv_deleted := sv_deleted ?s @ filter (orphan (sv_files ?s)) (map place ms), sv_steps := n\<rparr>)"
    using Cons.IH [of ?s] by blast
  then show ?case by (intro exI [of _ n]) (simp add: em_then_def em_bind_def step)
qed

text \<open>The messages a purge looks at, read before the rows go.\<close>

definition purged_messages :: "uuid list \<Rightarrow> files_db \<Rightarrow> (int \<times> int \<times> uuid) list" where
  "purged_messages ids db = list_telegram_messages_for_files ids db @ list_derived_messages_for_files ids db"

lemma purge_run:
  assumes "quiet env"
  shows "\<exists>now n ls. purge_file_ids env ids s = (Inr (), s\<lparr>
     sv_files := (if ids = [] then sv_files s else hard_delete_ids ids now (sv_files s)), sv_shares := ls, sv_steps := n,
     sv_gc := sv_gc s @ (if ids = [] \<or> purged_messages ids (sv_files s) = [] then []
                         else [unique_messages [] (purged_messages ids (sv_files s))])\<rparr>)"
proof (cases "ids = []")
  case True
  then show ?thesis
    by (intro exI [of _ 0] exI [of _ "sv_steps s"] exI [of _ "sv_shares s"]) (simp add: purge_file_ids_def em_return_def)
next
  case False
  then show ?thesis using assms
    by (intro exI [of _ "en_now env (sv_steps s + 3)"] exI [of _ "sv_steps s + 4"]
          exI [of _ "snd (delete_for_file_ids ids (sv_files s) (sv_shares s))"])
       (simp add: purge_file_ids_def em_bind_def em_then_def em_when_def step_runs purged_messages_def
          em_return_def eval_nat_numeral)
qed


text \<open>A file, its copy made on the server, which shares the first message, and a second chunk of its own.\<close>

definition plain_file :: "uuid \<Rightarrow> string \<Rightarrow> file_row" where
  "plain_file i path = (new_file_row i 0 path True (new_in_file path 3 ''s''))"

definition stored_copy :: "uuid \<Rightarrow> uuid \<Rightarrow> int \<Rightarrow> replica_row" where
  "stored_copy i chunk message = \<lparr>rp_id = i, rp_chunk = chunk, rp_channel = ''c'',
     rp_file_id = Some ''t'', rp_message = Some message, rp_status = ''uploaded''\<rparr>"

definition copied_server :: server where
  "copied_server = empty_server\<lparr>sv_files := \<lparr>fd_files = [plain_file ''a'' ''x'', plain_file ''b'' ''y''], fd_events = [], fd_seq = 0,
       fd_chunks = [\<lparr>ck_id = ''k1'', ck_file = ''a'', ck_position = 0\<rparr>, \<lparr>ck_id = ''k2'', ck_file = ''b'', ck_position = 0\<rparr>,
                    \<lparr>ck_id = ''k3'', ck_file = ''a'', ck_position = 1\<rparr>],
       fd_replicas = [stored_copy ''r1'' ''k1'' 7, stored_copy ''r2'' ''k2'' 7, stored_copy ''r3'' ''k3'' 8],
       fd_channels = [\<lparr>sc_id = ''c'', sc_storage = ''s'', sc_position = 1, sc_chat = 55, sc_name = ''n'', sc_status = ''active''\<rparr>],
       fd_storages = [''s'']\<rparr>\<rparr>"


text \<open>
  The shares of purged files go by path: purging a trashed file also deletes the link of the live
  file that has taken its place.
\<close>

lemma purge_deletes_share_of_live_twin:
  assumes "quiet env" "ids \<noteq> []" "f \<in> set (fd_files (sv_files s))" "f_id f \<in> set ids"
    and "l \<in> set (sv_shares s)" "sl_storage l = f_storage f" "sl_path l = f_path f"
  shows "l \<notin> set (sv_shares (snd (purge_file_ids env ids s)))"
  using assms
  by (auto simp: purge_file_ids_def em_bind_def em_then_def em_when_def step_runs em_return_def delete_for_file_ids_def
      Let_def row_del_def list_ex_iff)

section \<open>The retention stays in its range\<close>

lemma parse_show_small: "0 \<le> days \<Longrightarrow> days \<le> 2147483647 \<Longrightarrow> parse_i32 (show_int days) = Some days"
proof -
  assume d: "0 \<le> days" "days \<le> 2147483647"
  have p: "parse_unsigned 2147483647 (show_nat (nat days)) = Some (nat days)"
    by (rule parse_show_nat) (use d in simp)
  obtain c cs where s: "show_nat (nat days) = c # cs" "is_digit c"
    using show_nat_digits [of "nat days"] by (cases "show_nat (nat days)") auto
  have "c \<noteq> CHR ''-''" using s(2) by (auto simp: is_digit_def)
  then show ?thesis using p s d by (simp add: parse_i32_def parse_signed_def show_int_def)
qed

lemma retention_in_range:
  "get_trash_retention_days settings = Inr days \<Longrightarrow> 1 \<le> days \<and> days \<le> 30"
  by (auto simp: get_trash_retention_days_def Let_def min_trash_retention_days_def max_trash_retention_days_def
      split: option.splits)

lemma retention_set_get:
  assumes "set_trash_retention_days days settings = (r, settings')"
  shows "(r = Inr () \<longleftrightarrow> 1 \<le> days \<and> days \<le> 30) \<and>
    (r = Inr () \<longrightarrow> get_trash_retention_days settings' = Inr days) \<and> (r \<noteq> Inr () \<longrightarrow> settings' = settings)"
proof (cases "1 \<le> days \<and> days \<le> 30")
  case True
  then have "settings' = set_value trash_retention_days_key (show_int days) settings" "r = Inr ()"
    using assms by (auto simp: set_trash_retention_days_def min_trash_retention_days_def max_trash_retention_days_def)
  then show ?thesis using True parse_show_small [of days]
    by (simp add: get_trash_retention_days_def get_value_def set_value_def row_simps
        min_trash_retention_days_def max_trash_retention_days_def)
next
  case False
  then show ?thesis using assms
    by (auto simp: set_trash_retention_days_def min_trash_retention_days_def max_trash_retention_days_def)
qed

end
