(* ===== verification/StorageWorkers.thy ===== *)
theory StorageWorkers
  imports ServerState
begin

text \<open>
  The bots of the storages (src/sarca/src/repositories/storage_workers.rs,
  services/storage_workers.rs, services/storage_workers_scheduler.rs): their table, the service
  on it, and the limit on how often a bot's token is handed out. A usage is a pair of the worker
  and the second it was used; its row id does not matter. Where several workers of a storage are
  used equally little, SQLite may take any; the model takes the first by id.
\<close>

section \<open>The table\<close>

definition create_worker :: "worker_row \<Rightarrow> server \<Rightarrow> worker_row sarca_result \<times> server" where
  "create_worker w s =
     (if list_ex (\<lambda>x. sw_token x = sw_token w) (sv_workers s) then (Inl StorageWorkerTokenConflict, s)
      else if row_get u_id (sw_user w) (acc_users (sv_acc s)) = None \<or>
              (case sw_storage w of None \<Rightarrow> False | Some st \<Rightarrow> row_get so_id st (sv_storages s) = None)
      then (Inl (DoesNotExist ''Such storage does not exist''), s)
      else (Inr w, s\<lparr>sv_workers := sv_workers s @ [w]\<rparr>))"

definition storage_has_any :: "uuid \<Rightarrow> worker_row list \<Rightarrow> bool" where
  "storage_has_any storage ws = list_ex (\<lambda>w. sw_storage w = Some storage) ws"

definition worker_list_by_user_id :: "uuid \<Rightarrow> worker_row list \<Rightarrow> worker_row list" where
  "worker_list_by_user_id user ws = filter (\<lambda>w. sw_user w = user) ws"

definition first_worker :: "(worker_row \<Rightarrow> bool) \<Rightarrow> worker_row list \<Rightarrow> worker_row sarca_result" where
  "first_worker P ws = (case find P ws of
     None \<Rightarrow> Inl (DoesNotExist ''such storage_worker'') | Some w \<Rightarrow> Inr w)"

definition worker_by_name_and_user_id :: "string \<Rightarrow> uuid \<Rightarrow> worker_row list \<Rightarrow> worker_row sarca_result" where
  "worker_by_name_and_user_id name user = first_worker (\<lambda>w. sw_name w = name \<and> sw_user w = user)"

definition worker_by_id_and_user_id :: "uuid \<Rightarrow> uuid \<Rightarrow> worker_row list \<Rightarrow> worker_row sarca_result" where
  "worker_by_id_and_user_id i user = first_worker (\<lambda>w. sw_id w = i \<and> sw_user w = user)"

definition delete_worker :: "uuid \<Rightarrow> uuid \<Rightarrow> server \<Rightarrow> unit sarca_result \<times> server" where
  "delete_worker i user s =
     (if list_ex (\<lambda>w. sw_id w = i \<and> sw_user w = user) (sv_workers s)
      then (Inr (), s\<lparr>sv_workers := row_del (\<lambda>w. sw_id w = i \<and> sw_user w = user) (sv_workers s),
                     sv_usages := filter (\<lambda>(w, _). w \<noteq> i) (sv_usages s)\<rparr>)
      else (Inl (DoesNotExist ''storage_worker''), s))"

definition worker_by_storage_id :: "uuid \<Rightarrow> worker_row list \<Rightarrow> worker_row option" where
  "worker_by_storage_id storage ws =
     (case sort_key sw_name (filter (\<lambda>w. sw_storage w = Some storage) ws) of [] \<Rightarrow> None | w # _ \<Rightarrow> Some w)"

definition worker_by_token :: "string \<Rightarrow> worker_row list \<Rightarrow> worker_row option" where
  "worker_by_token token ws = find (\<lambda>w. sw_token w = token) ws"

definition set_worker :: "uuid \<Rightarrow> (worker_row \<Rightarrow> worker_row) \<Rightarrow> server \<Rightarrow> worker_row sarca_result \<times> server" where
  "set_worker i f s = (case row_get sw_id i (sv_workers s) of
     None \<Rightarrow> (Inl (DoesNotExist ''storage_worker''), s)
   | Some w \<Rightarrow> (Inr (f w), s\<lparr>sv_workers := map (\<lambda>x. if sw_id x = i then f x else x) (sv_workers s)\<rparr>))"

definition rebind_to_storage :: "uuid \<Rightarrow> uuid \<Rightarrow> string \<Rightarrow> server \<Rightarrow> worker_row sarca_result \<times> server" where
  "rebind_to_storage i storage name s =
     (if row_get sw_id i (sv_workers s) \<noteq> None \<and> row_get so_id storage (sv_storages s) = None
      then (Inl (DoesNotExist ''Such storage does not exist''), s)
      else set_worker i (\<lambda>w. w\<lparr>sw_storage := Some storage, sw_name := name\<rparr>) s)"

definition update_credentials :: "uuid \<Rightarrow> string \<Rightarrow> string \<Rightarrow> server \<Rightarrow> worker_row sarca_result \<times> server" where
  "update_credentials i name token s =
     (if row_get sw_id i (sv_workers s) \<noteq> None \<and>
         list_ex (\<lambda>x. sw_id x \<noteq> i \<and> sw_token x = token) (sv_workers s)
      then (Inl StorageWorkerTokenConflict, s)
      else set_worker i (\<lambda>w. w\<lparr>sw_name := name, sw_token := token\<rparr>) s)"

text \<open>\<open>delete_orphans\<close> spares the bots that unfinished purge jobs still need.\<close>

definition delete_orphans :: "string list \<Rightarrow> server \<Rightarrow> nat \<times> server" where
  "delete_orphans purging s =
     (let gone = (\<lambda>w. sw_storage w = None \<and> sw_token w \<notin> set purging)
      in (length (filter gone (sv_workers s)),
          s\<lparr>sv_workers := row_del gone (sv_workers s),
            sv_usages := filter (\<lambda>(w, _). \<not> list_ex (\<lambda>x. gone x \<and> sw_id x = w) (sv_workers s)) (sv_usages s)\<rparr>))"

section \<open>Handing out tokens\<close>

definition uses :: "uuid \<Rightarrow> (uuid \<times> int) list \<Rightarrow> nat" where
  "uses w us = length (filter (\<lambda>(x, _). x = w) us)"

fun least_used :: "(worker_row \<Rightarrow> nat) \<Rightarrow> worker_row list \<Rightarrow> worker_row option" where
  "least_used n [] = None"
| "least_used n (w # ws) = (case least_used n ws of
     None \<Rightarrow> Some w
   | Some x \<Rightarrow> if n x < n w then Some x else Some w)"

definition get_token ::
  "uuid \<Rightarrow> nat \<Rightarrow> int \<Rightarrow> worker_row list \<Rightarrow> (uuid \<times> int) list \<Rightarrow> string option \<times> (uuid \<times> int) list" where
  "get_token storage limit now ws us =
     (let recent = filter (\<lambda>(_, dt). \<not> dt < now - 60) us;
          free = filter (\<lambda>w. sw_storage w = Some storage \<and> uses (sw_id w) recent < limit) (sort_key sw_id ws)
      in case least_used (\<lambda>w. uses (sw_id w) recent) free of
           None \<Rightarrow> (None, recent)
         | Some w \<Rightarrow> (Some (sw_token w), recent @ [(sw_id w, now)]))"

text \<open>
  The wait for a token: one attempt a second, without a deadline for ever. The attempts the loop
  may make are the fuel; \<open>None\<close> means that it is still waiting then. The deadline is an instant
  of the same clock.
\<close>

definition take_token :: "server_env \<Rightarrow> uuid \<Rightarrow> nat \<Rightarrow> (server, 'e, int \<times> string option) em" where
  "take_token env storage rate = atomically env (\<lambda>now _ s.
     let (t, us) = get_token storage rate now (sv_workers s) (sv_usages s)
     in (Inr (now, t), s\<lparr>sv_usages := us\<rparr>))"

fun wait_for_token :: "nat \<Rightarrow> server_env \<Rightarrow> uuid \<Rightarrow> nat \<Rightarrow> int option \<Rightarrow> string option srv" where
  "wait_for_token 0 env storage rate deadline = em_return None"
| "wait_for_token (Suc fuel) env storage rate deadline =
     em_bind (take_token env storage rate) (\<lambda>(now, t). case t of
       Some token \<Rightarrow> em_return (Some token)
     | None \<Rightarrow> if (case deadline of None \<Rightarrow> False | Some d \<Rightarrow> d \<le> now) then em_throw StorageBusy
               else wait_for_token fuel env storage rate deadline)"

definition get_token_impl :: "nat \<Rightarrow> server_env \<Rightarrow> uuid \<Rightarrow> nat \<Rightarrow> int option \<Rightarrow> string option srv" where
  "get_token_impl fuel env storage rate deadline =
     em_bind (atomically env (\<lambda>_ _ s. (Inr (storage_has_any storage (sv_workers s)), s))) (\<lambda>any.
       if \<not> any then em_throw NoStorageWorkers else wait_for_token fuel env storage rate deadline)"

section \<open>The service\<close>

definition worker_service_create :: "server_env \<Rightarrow> string \<Rightarrow> string \<Rightarrow> uuid option \<Rightarrow> uuid \<Rightarrow> worker_row srv" where
  "worker_service_create env name token storage user = (case storage of
     None \<Rightarrow> em_throw WorkerRequiresStorage
   | Some st \<Rightarrow>
       em_then (require_access env user st AA)
       (em_bind (atomically env (\<lambda>_ _ s. (Inr (worker_by_name_and_user_id name user (sv_workers s)), s))) (\<lambda>same.
          if \<not> isl same then em_throw StorageWorkerNameConflict
          else atomically env (\<lambda>_ ids. create_worker
                 \<lparr>sw_id = ids 0, sw_name = name, sw_user = user, sw_token = token, sw_storage = Some st\<rparr>))))"

definition worker_service_list :: "server_env \<Rightarrow> uuid \<Rightarrow> worker_row list srv" where
  "worker_service_list env user =
     atomically env (\<lambda>_ _ s. (Inr (worker_list_by_user_id user (sv_workers s)), s))"

definition worker_service_delete :: "server_env \<Rightarrow> uuid \<Rightarrow> uuid \<Rightarrow> unit srv" where
  "worker_service_delete env i user =
     em_bind (atomically env (\<lambda>_ _ s. (worker_by_id_and_user_id i user (sv_workers s), s))) (\<lambda>_.
       atomically env (\<lambda>_ _. delete_worker i user))"

definition has_storage_workers :: "server_env \<Rightarrow> uuid \<Rightarrow> uuid \<Rightarrow> bool srv" where
  "has_storage_workers env storage user =
     em_then (require_access env user storage AR)
       (atomically env (\<lambda>_ _ s. (Inr (storage_has_any storage (sv_workers s)), s)))"

section \<open>The rate\<close>

text \<open>The tokens handed out by a sequence of requests, each for a storage at a second.\<close>

fun token_log :: "nat \<Rightarrow> worker_row list \<Rightarrow> (uuid \<times> int) list \<Rightarrow> (uuid \<times> int) list \<Rightarrow> (string \<times> int) list" where
  "token_log limit ws us [] = []"
| "token_log limit ws us ((storage, now) # calls) =
     (case get_token storage limit now ws us of
        (None, us') \<Rightarrow> token_log limit ws us' calls
      | (Some t, us') \<Rightarrow> (t, now) # token_log limit ws us' calls)"

definition since :: "'a \<Rightarrow> int \<Rightarrow> ('a \<times> int) list \<Rightarrow> nat" where
  "since a c xs = length (filter (\<lambda>(x, d). x = a \<and> c \<le> d) xs)"

definition within_minute :: "'a \<Rightarrow> int \<Rightarrow> ('a \<times> int) list \<Rightarrow> nat" where
  "within_minute a T xs = length (filter (\<lambda>(x, d). x = a \<and> T - 60 \<le> d \<and> d \<le> T) xs)"

lemma since_append: "since a c (xs @ ys) = since a c xs + since a c ys"
  by (simp add: since_def)

lemma within_append: "within_minute a T (xs @ ys) = within_minute a T xs + within_minute a T ys"
  by (simp add: within_minute_def)

lemma since_recent:
  "b \<le> c \<Longrightarrow> since a c (filter (\<lambda>(_, d). \<not> d < b) us) = since a c us"
  unfolding since_def filter_filter by (rule arg_cong [where f = length], rule filter_cong) auto

lemma uses_recent: "uses a (filter (\<lambda>(_, d). \<not> d < b) us) = since a b us"
  unfolding since_def uses_def filter_filter by (rule arg_cong [where f = length], rule filter_cong) auto

lemma within_le_since: "b \<le> T - 60 \<Longrightarrow> within_minute a T xs \<le> since a b xs"
  unfolding within_minute_def since_def by (induction xs) auto

lemma least_used_in: "least_used n ws = Some w \<Longrightarrow> w \<in> set ws"
  by (induction ws arbitrary: w) (auto split: option.splits if_splits)

definition rate_inv :: "nat \<Rightarrow> worker_row list \<Rightarrow> int \<Rightarrow> (uuid \<times> int) list \<Rightarrow> (string \<times> int) list \<Rightarrow> bool" where
  "rate_inv limit ws now us log \<longleftrightarrow>
     (\<forall>w\<in>set ws. \<forall>c. now - 60 \<le> c \<longrightarrow> since (sw_id w) c us = since (sw_token w) c log) \<and>
     (\<forall>e\<in>set log. snd e \<le> now) \<and> (\<forall>t T. within_minute t T log \<le> limit)"

lemma rate_inv_later: "rate_inv limit ws now us log \<Longrightarrow> now \<le> now' \<Longrightarrow> rate_inv limit ws now' us log"
  by (fastforce simp: rate_inv_def)

lemma rate_inv_step:
  assumes inv: "rate_inv limit ws now us log" and ids: "keys_ok sw_id ws" and tokens: "keys_ok sw_token ws"
    and step: "get_token storage limit now ws us = (r, us')"
  shows "rate_inv limit ws now us' (log @ (case r of None \<Rightarrow> [] | Some t \<Rightarrow> [(t, now)]))"
proof -
  let ?recent = "filter (\<lambda>(_, dt). \<not> dt < now - 60) us"
  have recent: "since (sw_id w) c ?recent = since (sw_token w) c log" if "w \<in> set ws" "now - 60 \<le> c" for w c
    using inv that unfolding since_recent [OF that(2)] by (simp add: rate_inv_def)
  show ?thesis
  proof (cases r)
    case None
    then have "us' = ?recent" using step by (auto simp: get_token_def Let_def split: option.splits)
    then show ?thesis using inv recent None by (simp add: rate_inv_def)
  next
    case (Some t)
    then obtain w where w: "least_used (\<lambda>w. uses (sw_id w) ?recent)
        (filter (\<lambda>w. sw_storage w = Some storage \<and> uses (sw_id w) ?recent < limit) (sort_key sw_id ws)) = Some w"
      and t: "t = sw_token w" and us': "us' = ?recent @ [(sw_id w, now)]"
      using step by (auto simp: get_token_def Let_def split: option.splits)
    have win: "w \<in> set ws" "since (sw_id w) (now - 60) us < limit"
      using least_used_in [OF w] uses_recent by auto
    have few: "since t (now - 60) log < limit"
      using win inv t by (simp add: rate_inv_def)
    have "since (sw_id x) c [(sw_id w, now)] = since (sw_token x) c [(t, now)]" if "x \<in> set ws" for x c
      using that win(1) ids tokens t by (auto simp: since_def keys_ok_def distinct_map dest: inj_onD)
    then have counts: "since (sw_id x) c us' = since (sw_token x) c (log @ [(t, now)])"
      if "x \<in> set ws" "now - 60 \<le> c" for x c
      using that recent by (simp add: us' since_append)
    have "within_minute a T (log @ [(t, now)]) \<le> limit" for a T
    proof (cases "a = t \<and> T - 60 \<le> now \<and> now \<le> T")
      case True
      have "within_minute t T log \<le> since t (now - 60) log"
      proof -
        have "within_minute t T log = length (filter (\<lambda>(x, d). x = t \<and> T - 60 \<le> d \<and> d \<le> T) log)"
          by (simp add: within_minute_def)
        also have "\<dots> \<le> since t (now - 60) log"
          unfolding since_def using True by (induction log) auto
        finally show ?thesis .
      qed
      then show ?thesis using True few by (simp add: within_append) (simp add: within_minute_def)
    next
      case False
      then have "within_minute a T [(t, now)] = 0" by (auto simp: within_minute_def)
      then show ?thesis using inv by (simp add: within_append rate_inv_def)
    qed
    then show ?thesis using inv counts Some by (auto simp: rate_inv_def)
  qed
qed

lemma token_log_rate:
  assumes "keys_ok sw_id ws" "keys_ok sw_token ws" "rate_inv limit ws now us log"
    and "sorted (now # map snd calls)"
  shows "within_minute t T (log @ token_log limit ws us calls) \<le> limit"
  using assms(3,4)
proof (induction calls arbitrary: now us log)
  case Nil
  then show ?case by (simp add: rate_inv_def)
next
  case (Cons call calls)
  obtain storage now' where call: "call = (storage, now')" by (cases call)
  obtain r us' where step: "get_token storage limit now' ws us = (r, us')" by fastforce
  have inv: "rate_inv limit ws now' us log" using Cons.prems call by (auto intro: rate_inv_later)
  have inv': "rate_inv limit ws now' us' (log @ (case r of None \<Rightarrow> [] | Some t \<Rightarrow> [(t, now')]))"
    by (rule rate_inv_step [OF inv assms(1,2) step])
  have sorted: "sorted (now' # map snd calls)" using Cons.prems(2) call by simp
  show ?case using Cons.IH [OF inv' sorted] by (cases r) (simp_all add: call step)
qed

text \<open>
  C40. No bot is used faster than its rate: whatever storages ask and however often, within any
  sixty seconds each token is handed out at most as many times as the limit says.
\<close>

theorem token_rate_bounded:
  assumes "keys_ok sw_id ws" "keys_ok sw_token ws" and "sorted (map snd calls)"
  shows "within_minute t T (token_log limit ws [] calls) \<le> limit"
proof (cases calls)
  case Nil
  then show ?thesis by (simp add: within_minute_def)
next
  case (Cons c cs)
  have inv: "rate_inv limit ws (snd c) [] []" by (simp add: rate_inv_def since_def within_minute_def)
  show ?thesis using token_log_rate [OF assms(1,2) inv, of calls t T] assms(3) Cons by simp
qed

definition two_bots :: "worker_row list" where
  "two_bots = [\<lparr>sw_id = ''w1'', sw_name = ''a'', sw_user = ''u'', sw_token = ''1:A'', sw_storage = Some ''s''\<rparr>,
    \<lparr>sw_id = ''w2'', sw_name = ''b'', sw_user = ''u'', sw_token = ''2:B'', sw_storage = Some ''s''\<rparr>]"

lemma token_rate_bounded_witness:
  "token_log 1 two_bots [] [(''s'', 0), (''s'', 0), (''s'', 5), (''s'', 61)] = [(''1:A'', 0), (''2:B'', 0), (''1:A'', 61)] \<and>
   within_minute ''1:A'' 60 (token_log 1 two_bots [] [(''s'', 0), (''s'', 0), (''s'', 5), (''s'', 61)]) \<le> 1"
proof (rule conjI)
  show "token_log 1 two_bots [] [(''s'', 0), (''s'', 0), (''s'', 5), (''s'', 61)] = [(''1:A'', 0), (''2:B'', 0), (''1:A'', 61)]"
    by code_simp
qed (rule token_rate_bounded; simp add: two_bots_def keys_ok_def)

text \<open>A worker's history goes with its row: deleting it and adding the bot again lifts the limit.\<close>

lemma readded_bot_forgets_its_uses:
  assumes "delete_worker i user s = (Inr (), t)"
  shows "uses i (sv_usages t) = 0"
  using assms by (auto simp: delete_worker_def uses_def filter_empty_conv split: if_splits)

section \<open>The wait\<close>

text \<open>With a deadline the wait ends: at the first attempt at or after it at the latest.\<close>

lemma wait_ends_by_deadline:
  assumes "d \<le> en_now env (sv_steps s + n)"
  shows "fst (wait_for_token (Suc n + m) env storage rate (Some d) s) \<noteq> Inr None"
  using assms(1)
proof (induction n arbitrary: s)
  case 0
  then show ?case
    by (auto simp: take_token_def atomically_def em_bind_def em_return_def em_throw_def Let_def
        split: prod.splits option.splits)
next
  case (Suc n)
  let ?take = "take_token env storage rate :: (int \<times> string option) srv"
  have next_step: "sv_steps (snd (?take s)) = Suc (sv_steps s)"
    by (auto simp: take_token_def atomically_def Let_def split: prod.splits)
  have "\<exists>now t u. ?take s = (Inr (now, t), u)"
    by (simp add: take_token_def atomically_def Let_def split: prod.split)
  then obtain now t u where run: "?take s = (Inr (now, t), u)" by blast
  have "fst (wait_for_token (Suc n + m) env storage rate (Some d) u) \<noteq> Inr None"
  proof (rule Suc.IH)
    have "sv_steps u = Suc (sv_steps s)" using next_step run by (metis snd_conv)
    then show "d \<le> en_now env (sv_steps u + n)" using Suc.prems by simp
  qed
  moreover have "wait_for_token (Suc (Suc n + m)) env storage rate (Some d) s = (case t of
        Some token \<Rightarrow> (Inr (Some token), u)
      | None \<Rightarrow> if d \<le> now then (Inl StorageBusy, u) else wait_for_token (Suc n + m) env storage rate (Some d) u)"
    unfolding wait_for_token.simps(2) [of "Suc n + m"] em_bind_def run
    by (simp add: em_return_def em_throw_def del: wait_for_token.simps split: option.split)
  ultimately show ?case by (auto simp del: wait_for_token.simps split: option.splits)
qed

end
