(* ===== verification/StoragePurge.thy ===== *)
theory StoragePurge
  imports StorageWorkers
begin

text \<open>
  The queue of Telegram messages left behind by deleted storages
  (src/sarca/src/repositories/storage_purge.rs, services/storage_purge.rs). A message is pending,
  in progress, done or failed; a tick claims a batch, deletes each message with the bot's token
  and files the outcome; a job is complete when none of its messages is open. Times are seconds.
\<close>

section \<open>The queue\<close>

definition purge_pending :: string where "purge_pending = ''pending''"
definition purge_in_progress :: string where "purge_in_progress = ''in_progress''"
definition purge_done :: string where "purge_done = ''done''"
definition purge_failed :: string where "purge_failed = ''failed''"

text \<open>A statement binds at most as many values as SQLite allows by default.\<close>

definition max_variables :: nat where "max_variables = 32766"

fun new_purges :: "uuid \<Rightarrow> int \<Rightarrow> int \<Rightarrow> (int \<times> int) list \<Rightarrow> purge_message list" where
  "new_purges job now n [] = []"
| "new_purges job now n ((chat, message) # ms) =
     \<lparr>gm_id = n, gm_job = job, gm_chat = chat, gm_message = message, gm_status = purge_pending,
      gm_attempts = 0, gm_error = None, gm_updated = now\<rparr> # new_purges job now (n + 1) ms"

definition enqueue_in_tx ::
  "uuid \<Rightarrow> uuid \<Rightarrow> string \<Rightarrow> (int \<times> int) list \<Rightarrow> int \<Rightarrow> server \<Rightarrow> unit sarca_result \<times> server" where
  "enqueue_in_tx job storage token messages now s =
     (if \<not> distinct messages \<or> max_variables < 3 * length messages then (Inl Unknown, s)
      else (Inr (), s\<lparr>
        sv_jobs := sv_jobs s @ [\<lparr>gj_id = job, gj_storage = storage, gj_token = token, gj_completed = None\<rparr>],
        sv_purges := sv_purges s @ new_purges job now (sv_purge_seq s + 1) messages,
        sv_purge_seq := sv_purge_seq s + int (length messages)\<rparr>))"

record claimed_purge_message =
  cl_id :: int
  cl_job :: uuid
  cl_chat :: int
  cl_message :: int
  cl_token :: string
  cl_attempts :: int

definition open_job :: "server \<Rightarrow> uuid \<Rightarrow> bool" where
  "open_job s job = list_ex (\<lambda>j. gj_id j = job \<and> gj_completed j = None) (sv_jobs s)"

definition token_of_job :: "server \<Rightarrow> uuid \<Rightarrow> string" where
  "token_of_job s job = (case row_get gj_id job (sv_jobs s) of None \<Rightarrow> [] | Some j \<Rightarrow> gj_token j)"

definition claim_pending :: "nat \<Rightarrow> int \<Rightarrow> server \<Rightarrow> claimed_purge_message list \<times> server" where
  "claim_pending limit now s =
     (let picked = take limit (sort_key gm_id
            (filter (\<lambda>m. gm_status m = purge_pending \<and> open_job s (gm_job m)) (sv_purges s)));
          ids = map gm_id picked;
          claimed = map (\<lambda>m. if gm_id m \<in> set ids
            then m\<lparr>gm_status := purge_in_progress, gm_attempts := gm_attempts m + 1, gm_updated := now\<rparr> else m) (sv_purges s)
      in (map (\<lambda>m. \<lparr>cl_id = gm_id m, cl_job = gm_job m, cl_chat = gm_chat m, cl_message = gm_message m,
                 cl_token = token_of_job s (gm_job m), cl_attempts = gm_attempts m\<rparr>)
            (filter (\<lambda>m. gm_id m \<in> set ids) claimed),
          s\<lparr>sv_purges := claimed\<rparr>))"

definition update_purge :: "int \<Rightarrow> (purge_message \<Rightarrow> purge_message) \<Rightarrow> server \<Rightarrow> server" where
  "update_purge i f s = s\<lparr>sv_purges := map (\<lambda>m. if gm_id m = i then f m else m) (sv_purges s)\<rparr>"

text \<open>The bound is compared as text: see \<open>datetime_text_less\<close>.\<close>

definition requeue_stale_in_progress :: "int \<Rightarrow> int \<Rightarrow> server \<Rightarrow> server" where
  "requeue_stale_in_progress older_than now s =
     s\<lparr>sv_purges := map (\<lambda>m. if gm_status m = purge_in_progress \<and> datetime_text_less (gm_updated m) (now - older_than)
        then m\<lparr>gm_status := purge_pending, gm_updated := now\<rparr> else m) (sv_purges s)\<rparr>"

definition purge_mark_done :: "int \<Rightarrow> int \<Rightarrow> server \<Rightarrow> server" where
  "purge_mark_done i now = update_purge i (\<lambda>m. m\<lparr>gm_status := purge_done, gm_error := None, gm_updated := now\<rparr>)"

definition purge_mark_retry :: "int \<Rightarrow> string \<Rightarrow> int \<Rightarrow> server \<Rightarrow> server" where
  "purge_mark_retry i e now = update_purge i (\<lambda>m. m\<lparr>gm_status := purge_pending, gm_error := Some e, gm_updated := now\<rparr>)"

definition purge_mark_failed :: "int \<Rightarrow> string \<Rightarrow> int \<Rightarrow> server \<Rightarrow> server" where
  "purge_mark_failed i e now = update_purge i (\<lambda>m. m\<lparr>gm_status := purge_failed, gm_error := Some e, gm_updated := now\<rparr>)"

definition still_open :: "server \<Rightarrow> uuid \<Rightarrow> bool" where
  "still_open s job = list_ex (\<lambda>m. gm_job m = job \<and> (gm_status m = purge_pending \<or> gm_status m = purge_in_progress))
     (sv_purges s)"

definition try_complete_jobs :: "int \<Rightarrow> server \<Rightarrow> server" where
  "try_complete_jobs now s = s\<lparr>sv_jobs := map (\<lambda>j.
     if gj_completed j = None \<and> \<not> still_open s (gj_id j) then j\<lparr>gj_completed := Some now\<rparr> else j) (sv_jobs s)\<rparr>"

section \<open>One tick\<close>

definition purge_batch_size :: nat where "purge_batch_size = 10"
definition max_attempts_purge :: int where "max_attempts_purge = 8"
definition in_progress_lease :: int where "in_progress_lease = 600"

definition is_terminal_attempt :: "int \<Rightarrow> bool" where
  "is_terminal_attempt attempts \<longleftrightarrow> max_attempts_purge \<le> attempts"

definition purge_one :: "server_env \<Rightarrow> claimed_purge_message \<Rightarrow> bool srv" where
  "purge_one env row =
     em_bind (em_attempt (remote (\<lambda>n. en_delete_message env n (cl_chat row) (cl_message row) (cl_token row)))) (\<lambda>r.
     case r of
       Inr _ \<Rightarrow> em_then (atomically env (\<lambda>now _ s. (Inr (), purge_mark_done (cl_id row) now s))) (em_return False)
     | Inl e \<Rightarrow> em_then (atomically env (\<lambda>now _ s. (Inr (),
           (if is_terminal_attempt (cl_attempts row) then purge_mark_failed (cl_id row) (error_text e) now s
            else purge_mark_retry (cl_id row) (error_text e) now s))))
         (em_return True))"

text \<open>The pause until the next tick is the result: idle, after an error, or busy, in milliseconds.\<close>

definition storage_purge_run_once :: "server_env \<Rightarrow> int \<Rightarrow> bool \<Rightarrow> int srv" where
  "storage_purge_run_once env idle requeue_due =
     em_then (em_when requeue_due (atomically env (\<lambda>now _ s. (Inr (), requeue_stale_in_progress in_progress_lease now s))))
     (em_bind (atomically env (\<lambda>now _ s. let (rows, t) = claim_pending purge_batch_size now s in (Inr rows, t))) (\<lambda>batch.
      if batch = [] then
        em_then (atomically env (\<lambda>now _ s. (Inr (), try_complete_jobs now s))) (em_return idle)
      else
        em_bind (em_map (purge_one env) batch) (\<lambda>errors.
        em_then (atomically env (\<lambda>now _ s. (Inr (), try_complete_jobs now s)))
          (em_return (if list_ex id errors then 1000 else 250)))))"

section \<open>Leaving a storage's messages to the queue\<close>

definition snapshot_storage_telegram_purge :: "server_env \<Rightarrow> uuid \<Rightarrow> (string \<times> (int \<times> int) list) option srv" where
  "snapshot_storage_telegram_purge env storage =
     em_bind (db_read env (list_telegram_messages_for_storage storage)) (\<lambda>copies.
     em_bind (db_read env (list_derived_messages_for_storage storage)) (\<lambda>derived.
       let messages = remdups (sort_key fst (sort_key snd (copies @ derived)))
       in if messages = [] then em_return None
          else em_bind (atomically env (\<lambda>_ _ s. (Inr (worker_by_storage_id storage (sv_workers s)), s))) (\<lambda>worker.
            em_return (map_option (\<lambda>w. (sw_token w, messages)) worker))))"

definition enqueue_storage_telegram_purge_in_tx ::
  "uuid \<Rightarrow> uuid \<Rightarrow> (string \<times> (int \<times> int) list) option \<Rightarrow> int \<Rightarrow> server \<Rightarrow> unit sarca_result \<times> server" where
  "enqueue_storage_telegram_purge_in_tx job storage snapshot now s = (case snapshot of
     None \<Rightarrow> (Inr (), s)
   | Some (token, messages) \<Rightarrow> enqueue_in_tx job storage token messages now s)"

section \<open>What a tick does to the queue\<close>

definition is_open :: "purge_message \<Rightarrow> bool" where
  "is_open m \<longleftrightarrow> gm_status m = purge_pending \<or> gm_status m = purge_in_progress"

lemmas purge_status_defs = purge_pending_def purge_in_progress_def purge_done_def purge_failed_def

text \<open>What becomes of a claimed message, and of any message in a tick that claims \<open>ids\<close>.\<close>

definition settled :: "purge_message \<Rightarrow> purge_message \<Rightarrow> bool" where
  "settled m m' \<longleftrightarrow> gm_id m' = gm_id m \<and> gm_job m' = gm_job m \<and> gm_attempts m' = gm_attempts m \<and>
     (gm_status m' = purge_done \<or> is_terminal_attempt (gm_attempts m) \<and> gm_status m' = purge_failed \<or>
      \<not> is_terminal_attempt (gm_attempts m) \<and> gm_status m' = purge_pending)"

definition tick_rel :: "int set \<Rightarrow> purge_message \<Rightarrow> purge_message \<Rightarrow> bool" where
  "tick_rel ids m m' \<longleftrightarrow> (if gm_id m \<in> ids
     then gm_id m' = gm_id m \<and> gm_job m' = gm_job m \<and> gm_attempts m' = gm_attempts m + 1 \<and>
          (gm_status m' = purge_done \<or> 8 \<le> gm_attempts m' \<and> gm_status m' = purge_failed \<or>
           gm_attempts m' < 8 \<and> gm_status m' = purge_pending)
     else m' = m)"

lemma purge_one_run:
  assumes "quiet env"
  shows "\<exists>b t h. purge_one env row s = (Inr b, t) \<and> sv_jobs t = sv_jobs s \<and>
    sv_purges t = map (\<lambda>m. if gm_id m = cl_id row then h m else m) (sv_purges s) \<and>
    (\<forall>m. gm_attempts m = cl_attempts row \<longrightarrow> settled m (h m))"
proof -
  define now where "now = en_now env (Suc (sv_steps s))"
  define r where "r = en_delete_message env (sv_steps s) (cl_chat row) (cl_message row) (cl_token row)"
  define h where "h m = (case r of Inr _ \<Rightarrow> m\<lparr>gm_status := purge_done, gm_error := None, gm_updated := now\<rparr>
    | Inl e \<Rightarrow> if is_terminal_attempt (cl_attempts row)
        then m\<lparr>gm_status := purge_failed, gm_error := Some (error_text e), gm_updated := now\<rparr>
        else m\<lparr>gm_status := purge_pending, gm_error := Some (error_text e), gm_updated := now\<rparr>)" for m :: purge_message
  have run: "purge_one env row s = (Inr (isl r), s\<lparr>sv_purges := map (\<lambda>m. if gm_id m = cl_id row then h m else m) (sv_purges s),
      sv_steps := Suc (Suc (sv_steps s))\<rparr>)"
    using assms
    by (auto simp: purge_one_def em_bind_def em_then_def em_attempt_def em_return_def step_runs atomically_def
        purge_mark_done_def purge_mark_retry_def purge_mark_failed_def update_purge_def h_def [abs_def]
        now_def r_def [symmetric] split: sum.split)
  have "\<forall>m. gm_attempts m = cl_attempts row \<longrightarrow> settled m (h m)"
    by (simp add: h_def settled_def split: sum.split)
  moreover obtain t where t: "t = s\<lparr>sv_purges := map (\<lambda>m. if gm_id m = cl_id row then h m else m) (sv_purges s),
      sv_steps := Suc (Suc (sv_steps s))\<rparr>" by blast
  moreover have "sv_jobs t = sv_jobs s" "sv_purges t = map (\<lambda>m. if gm_id m = cl_id row then h m else m) (sv_purges s)"
    by (simp_all add: t)
  ultimately show ?thesis using run by blast
qed

lemma purge_batch_run:
  assumes env: "quiet env" and "distinct (map cl_id rows)"
    and "\<And>row m. row \<in> set rows \<Longrightarrow> m \<in> set (sv_purges s) \<Longrightarrow> gm_id m = cl_id row \<Longrightarrow> gm_attempts m = cl_attempts row"
  shows "\<exists>bs t. em_map (purge_one env) rows s = (Inr bs, t) \<and> sv_jobs t = sv_jobs s \<and>
    list_all2 (\<lambda>m m'. if gm_id m \<in> cl_id ` set rows then settled m m' else m' = m) (sv_purges s) (sv_purges t)"
  using assms(2,3)
proof (induction rows arbitrary: s)
  case Nil
  then show ?case by (simp add: em_return_def list_all2_same)
next
  case (Cons row rows)
  obtain b u h where one: "purge_one env row s = (Inr b, u)" "sv_jobs u = sv_jobs s"
    and u: "sv_purges u = map (\<lambda>m. if gm_id m = cl_id row then h m else m) (sv_purges s)"
    and h: "\<And>m. gm_attempts m = cl_attempts row \<Longrightarrow> settled m (h m)"
    using purge_one_run [OF env] by blast
  have hid: "gm_id (h m) = gm_id m" if "m \<in> set (sv_purges s)" "gm_id m = cl_id row" for m
    using h [of m] Cons.prems(2) [of row m] that by (simp add: settled_def)
  have att: "gm_attempts m = cl_attempts r"
    if rm: "r \<in> set rows" "m \<in> set (sv_purges u)" "gm_id m = cl_id r" for r m
  proof -
    obtain x where x: "x \<in> set (sv_purges s)" "m = (if gm_id x = cl_id row then h x else x)"
      using rm(2) u by auto
    have "gm_id x \<noteq> cl_id row" using x hid [of x] Cons.prems(1) rm by (auto split: if_splits)
    then show ?thesis using x rm Cons.prems(2) [of r x] by simp
  qed
  obtain bs t where rest: "em_map (purge_one env) rows u = (Inr bs, t)" "sv_jobs t = sv_jobs u"
    and all: "list_all2 (\<lambda>m m'. if gm_id m \<in> cl_id ` set rows then settled m m' else m' = m) (sv_purges u) (sv_purges t)"
    using Cons.IH [of u] Cons.prems(1) att by auto
  have "list_all2 (\<lambda>m m'. if gm_id m \<in> cl_id ` set (row # rows) then settled m m' else m' = m) (sv_purges s) (sv_purges t)"
    unfolding list_all2_conv_all_nth
  proof (intro conjI allI impI)
    show "length (sv_purges s) = length (sv_purges t)" using list_all2_lengthD [OF all] u by simp
    fix i assume i: "i < length (sv_purges s)"
    let ?m = "sv_purges s ! i"
    have step: "if gm_id (sv_purges u ! i) \<in> cl_id ` set rows then settled (sv_purges u ! i) (sv_purges t ! i)
        else sv_purges t ! i = sv_purges u ! i"
      using list_all2_nthD [OF all, of i] i u by simp
    show "if gm_id ?m \<in> cl_id ` set (row # rows) then settled ?m (sv_purges t ! i) else sv_purges t ! i = ?m"
    proof (cases "gm_id ?m = cl_id row")
      case True
      then have ui: "sv_purges u ! i = h ?m" using u i by simp
      have "gm_id (h ?m) \<notin> cl_id ` set rows" using hid [of ?m] True i Cons.prems(1) by auto
      then have "sv_purges t ! i = h ?m" using step ui by simp
      then show ?thesis using True h [of ?m] Cons.prems(2) [of row ?m] i by simp
    next
      case False
      then show ?thesis using step u i by (auto split: if_splits)
    qed
  qed
  then show ?case using one rest by (simp add: em_bind_def em_return_def)
qed

definition weight :: "purge_message \<Rightarrow> nat" where
  "weight m = (if gm_status m = purge_pending then nat (8 - gm_attempts m) else 0)"

definition queue_weight :: "server \<Rightarrow> nat" where
  "queue_weight s = sum_list (map weight (sv_purges s))"

text \<open>
  The queue between two ticks: ids are unique, nothing is left in progress, a pending message has
  attempts left and its job is open.
\<close>

definition queue_inv :: "server \<Rightarrow> bool" where
  "queue_inv s \<longleftrightarrow> distinct (map gm_id (sv_purges s)) \<and>
     (\<forall>m\<in>set (sv_purges s). gm_status m \<noteq> purge_in_progress \<and>
        (gm_status m = purge_pending \<longrightarrow> gm_attempts m < 8 \<and> open_job s (gm_job m)))"

lemma weight_step:
  assumes "list_all2 (tick_rel ids) ms ms'"
    and "\<forall>m\<in>set ms. gm_id m \<in> ids \<longrightarrow> gm_status m = purge_pending \<and> gm_attempts m < 8"
  shows "sum_list (map weight ms') + card (ids \<inter> gm_id ` set ms) \<le> sum_list (map weight ms)"
  using assms
proof (induction rule: list_all2_induct)
  case (Cons m ms m' ms')
  have "weight m' + (if gm_id m \<in> ids then 1 else 0) \<le> weight m"
    using Cons.hyps(1) Cons.prems by (auto simp: tick_rel_def weight_def purge_status_defs)
  moreover have "card (ids \<inter> gm_id ` set (m # ms)) \<le> card (ids \<inter> gm_id ` set ms) + (if gm_id m \<in> ids then 1 else 0)"
    by (cases "gm_id m \<in> ids") (auto simp: Int_insert_right card_insert_if)
  ultimately show ?case using Cons by auto
qed simp

lemma claim_facts:
  assumes inv: "queue_inv s" and claim: "claim_pending limit now s = (rows, c)" and "0 < limit"
  shows "sv_jobs c = sv_jobs s \<and> distinct (map cl_id rows) \<and>
    sv_purges c = map (\<lambda>m. if gm_id m \<in> cl_id ` set rows
      then m\<lparr>gm_status := purge_in_progress, gm_attempts := gm_attempts m + 1, gm_updated := now\<rparr> else m) (sv_purges s) \<and>
    (\<forall>m\<in>set (sv_purges s). gm_id m \<in> cl_id ` set rows \<longrightarrow> gm_status m = purge_pending) \<and>
    cl_id ` set rows \<subseteq> gm_id ` set (sv_purges s) \<and>
    (\<forall>row\<in>set rows. \<forall>m\<in>set (sv_purges c). gm_id m = cl_id row \<longrightarrow> gm_attempts m = cl_attempts row) \<and>
    (rows = [] \<longrightarrow> (\<forall>m\<in>set (sv_purges s). gm_status m \<noteq> purge_pending))"
proof -
  define picked where "picked = take limit (sort_key gm_id
      (filter (\<lambda>m. gm_status m = purge_pending \<and> open_job s (gm_job m)) (sv_purges s)))"
  define claimed where "claimed = map (\<lambda>m. if gm_id m \<in> set (map gm_id picked)
      then m\<lparr>gm_status := purge_in_progress, gm_attempts := gm_attempts m + 1, gm_updated := now\<rparr> else m) (sv_purges s)"
  have rows: "rows = map (\<lambda>m. \<lparr>cl_id = gm_id m, cl_job = gm_job m, cl_chat = gm_chat m, cl_message = gm_message m,
                 cl_token = token_of_job s (gm_job m), cl_attempts = gm_attempts m\<rparr>)
            (filter (\<lambda>m. gm_id m \<in> set (map gm_id picked)) claimed)"
    and c: "c = s\<lparr>sv_purges := claimed\<rparr>"
    using claim by (simp_all add: claim_pending_def Let_def picked_def claimed_def)
  have sub: "set picked \<subseteq> {m \<in> set (sv_purges s). gm_status m = purge_pending \<and> open_job s (gm_job m)}"
    unfolding picked_def by (rule subset_trans [OF set_take_subset]) auto
  have dist: "distinct (map gm_id (sv_purges s))" using inv by (simp add: queue_inv_def)
  have same: "map gm_id claimed = map gm_id (sv_purges s)" by (simp add: claimed_def)
  have ids: "cl_id ` set rows = gm_id ` set picked"
  proof -
    have "gm_id ` set picked \<subseteq> set (map gm_id claimed)" unfolding same using sub by auto
    moreover have "cl_id ` set rows = gm_id ` {m \<in> set claimed. gm_id m \<in> gm_id ` set picked}"
      by (simp add: rows image_image)
    moreover have "f ` {m \<in> A. f m \<in> B} = B \<inter> f ` A" for f :: "purge_message \<Rightarrow> int" and A B by auto
    ultimately show ?thesis by (simp add: Int_absorb2)
  qed
  have dist': "distinct (map gm_id claimed)" using dist same by simp
  have inj: "x = y" if "x \<in> set claimed" "y \<in> set claimed" "gm_id x = gm_id y" for x y
    using dist' that by (auto simp: distinct_map dest: inj_onD)
  have inj0: "x = y" if "x \<in> set (sv_purges s)" "y \<in> set (sv_purges s)" "gm_id x = gm_id y" for x y
    using dist that by (auto simp: distinct_map dest: inj_onD)
  have dist_rows: "distinct (map cl_id rows)"
    unfolding rows by (simp add: o_def distinct_map_filter [OF dist'])
  have pending: "gm_status m = purge_pending" if m: "m \<in> set (sv_purges s)" "gm_id m \<in> gm_id ` set picked" for m
  proof -
    obtain x where "x \<in> set picked" "gm_id x = gm_id m" using m(2) by auto
    then show ?thesis using inj0 [OF m(1), of x] sub by auto
  qed
  have att: "gm_attempts m = cl_attempts row" if r: "row \<in> set rows" "m \<in> set claimed" "gm_id m = cl_id row" for row m
  proof -
    obtain x where x: "x \<in> set claimed" "cl_id row = gm_id x" "cl_attempts row = gm_attempts x" using r(1) by (auto simp: rows)
    then have "m = x" using inj r by simp
    then show ?thesis using x by simp
  qed
  have none: "\<forall>m\<in>set (sv_purges s). gm_status m \<noteq> purge_pending" if "rows = []"
  proof -
    have "picked = []" using ids that by auto
    then have "sort_key gm_id (filter (\<lambda>m. gm_status m = purge_pending \<and> open_job s (gm_job m)) (sv_purges s)) = []"
      using assms(3) by (simp add: picked_def)
    then have "set (filter (\<lambda>m. gm_status m = purge_pending \<and> open_job s (gm_job m)) (sv_purges s)) = {}"
      by (metis set_sort list.set(1))
    then show ?thesis using inv by (auto simp: queue_inv_def)
  qed
  show ?thesis unfolding ids
  proof (intro conjI)
    show "sv_jobs c = sv_jobs s" by (simp add: c)
    show "distinct (map cl_id rows)" by (rule dist_rows)
    show "sv_purges c = map (\<lambda>m. if gm_id m \<in> gm_id ` set picked
        then m\<lparr>gm_status := purge_in_progress, gm_attempts := gm_attempts m + 1, gm_updated := now\<rparr> else m) (sv_purges s)"
      by (simp add: c claimed_def)
    show "\<forall>m\<in>set (sv_purges s). gm_id m \<in> gm_id ` set picked \<longrightarrow> gm_status m = purge_pending"
      using pending by blast
    show "gm_id ` set picked \<subseteq> gm_id ` set (sv_purges s)" using sub by blast
    show "\<forall>row\<in>set rows. \<forall>m\<in>set (sv_purges c). gm_id m = cl_id row \<longrightarrow> gm_attempts m = cl_attempts row"
      using att by (simp add: c)
    show "rows = [] \<longrightarrow> (\<forall>m\<in>set (sv_purges s). gm_status m \<noteq> purge_pending)"
      using none by blast
  qed
qed

lemma complete_jobs_facts:
  "sv_purges (try_complete_jobs now s) = sv_purges s"
  "map gj_id (sv_jobs (try_complete_jobs now s)) = map gj_id (sv_jobs s)"
  "\<forall>j\<in>set (sv_jobs (try_complete_jobs now s)). gj_completed j = None \<longrightarrow> still_open (try_complete_jobs now s) (gj_id j)"
  "open_job s job \<Longrightarrow> still_open s job \<Longrightarrow> open_job (try_complete_jobs now s) job"
  by (auto simp: try_complete_jobs_def still_open_def open_job_def list_ex_iff)

lemma requeue_nothing:
  "\<forall>m\<in>set (sv_purges s). gm_status m \<noteq> purge_in_progress \<Longrightarrow> requeue_stale_in_progress age now s = s"
  by (simp add: requeue_stale_in_progress_def map_idI)

lemma tick_core:
  assumes env: "quiet env" and inv: "queue_inv s" and claim: "claim_pending 10 now s = (rows, c)" and "rows \<noteq> []"
  shows "\<exists>bs t. em_map (purge_one env) rows c = (Inr bs, t) \<and> sv_jobs t = sv_jobs s \<and>
    list_all2 (tick_rel (cl_id ` set rows)) (sv_purges s) (sv_purges t) \<and>
    queue_weight t < queue_weight s \<and> queue_inv t"
proof -
  note facts = claim_facts [OF inv claim zero_less_numeral]
  let ?ids = "cl_id ` set rows"
  obtain bs t where run: "em_map (purge_one env) rows c = (Inr bs, t)" "sv_jobs t = sv_jobs c"
    and all: "list_all2 (\<lambda>m m'. if gm_id m \<in> ?ids then settled m m' else m' = m) (sv_purges c) (sv_purges t)"
  proof -
    have dist: "distinct (map cl_id rows)" using facts by blast
    have "gm_attempts m = cl_attempts row"
      if "row \<in> set rows" "m \<in> set (sv_purges c)" "gm_id m = cl_id row" for row m
      using facts that by blast
    then show ?thesis using purge_batch_run [OF env dist, of c] that by blast
  qed
  have pend: "gm_status m = purge_pending \<and> gm_attempts m < 8" if "m \<in> set (sv_purges s)" "gm_id m \<in> ?ids" for m
    using facts inv that by (auto simp: queue_inv_def)
  have rel: "list_all2 (tick_rel ?ids) (sv_purges s) (sv_purges t)"
    unfolding list_all2_conv_all_nth
  proof (intro conjI allI impI)
    have c: "sv_purges c = map (\<lambda>m. if gm_id m \<in> ?ids
        then m\<lparr>gm_status := purge_in_progress, gm_attempts := gm_attempts m + 1, gm_updated := now\<rparr> else m) (sv_purges s)"
      using facts by simp
    then show "length (sv_purges s) = length (sv_purges t)" using list_all2_lengthD [OF all] by simp
    fix i assume i: "i < length (sv_purges s)"
    have st: "if gm_id (sv_purges c ! i) \<in> ?ids then settled (sv_purges c ! i) (sv_purges t ! i)
        else sv_purges t ! i = sv_purges c ! i"
      by (rule list_all2_nthD [OF all]) (simp add: c i)
    show "tick_rel ?ids (sv_purges s ! i) (sv_purges t ! i)"
    proof (cases "gm_id (sv_purges s ! i) \<in> ?ids")
      case True
      have ci: "sv_purges c ! i = (sv_purges s ! i)\<lparr>gm_status := purge_in_progress,
          gm_attempts := gm_attempts (sv_purges s ! i) + 1, gm_updated := now\<rparr>"
        unfolding c nth_map [OF i] if_P [OF True] ..
      have "settled (sv_purges c ! i) (sv_purges t ! i)" using st True by (simp add: ci)
      then show ?thesis unfolding ci tick_rel_def if_P [OF True]
        by (auto simp: settled_def is_terminal_attempt_def max_attempts_purge_def)
    next
      case False
      have ci: "sv_purges c ! i = sv_purges s ! i"
        unfolding c nth_map [OF i] if_not_P [OF False] ..
      then show ?thesis using st False by (simp add: tick_rel_def)
    qed
  qed
  have "card (?ids \<inter> gm_id ` set (sv_purges s)) \<noteq> 0"
  proof -
    have "?ids \<subseteq> gm_id ` set (sv_purges s)" using facts by blast
    then show ?thesis using \<open>rows \<noteq> []\<close> by (simp add: Int_absorb2)
  qed
  then have less: "queue_weight t < queue_weight s"
    using weight_step [OF rel] pend by (fastforce simp: queue_weight_def)
  have ids: "map gm_id (sv_purges t) = map gm_id (sv_purges s)"
    using rel by (intro nth_equalityI) (auto simp: list_all2_conv_all_nth tick_rel_def split: if_splits)
  have fine: "gm_status m' \<noteq> purge_in_progress \<and> (gm_status m' = purge_pending \<longrightarrow> gm_attempts m' < 8 \<and> open_job s (gm_job m'))"
    if m': "m' \<in> set (sv_purges t)" for m'
  proof -
    obtain i where i: "i < length (sv_purges t)" "sv_purges t ! i = m'" using m' by (auto simp: in_set_conv_nth)
    then have r: "tick_rel ?ids (sv_purges s ! i) m'" and i': "sv_purges s ! i \<in> set (sv_purges s)"
      using rel by (auto simp: list_all2_conv_all_nth)
    show ?thesis using r inv pend [OF i'] i'
      by (auto simp: tick_rel_def queue_inv_def purge_status_defs split: if_splits)
  qed
  have "queue_inv t"
    using inv ids fine run(2) facts by (auto simp: queue_inv_def open_job_def)
  then show ?thesis using run rel less facts by auto
qed

lemma queue_inv_cong:
  "sv_purges t = sv_purges s \<Longrightarrow> sv_jobs t = sv_jobs s \<Longrightarrow> queue_inv t = queue_inv s"
  by (simp add: queue_inv_def open_job_def)

lemma queue_inv_complete:
  assumes "queue_inv s" shows "queue_inv (try_complete_jobs now s)"
  using assms complete_jobs_facts(4) [of s _ now]
  by (auto simp: queue_inv_def complete_jobs_facts(1) still_open_def list_ex_iff)

lemma tick_run:
  assumes env: "quiet env" and inv: "queue_inv s"
  shows "\<exists>r t ids. storage_purge_run_once env idle due s = (Inr r, t) \<and> queue_inv t \<and>
    list_all2 (tick_rel ids) (sv_purges s) (sv_purges t) \<and>
    (queue_weight t < queue_weight s \<or> (\<forall>m\<in>set (sv_purges s). \<not> is_open m) \<and> sv_purges t = sv_purges s) \<and>
    map gj_id (sv_jobs t) = map gj_id (sv_jobs s) \<and>
    (\<forall>j\<in>set (sv_jobs t). gj_completed j = None \<longrightarrow> still_open t (gj_id j))"
proof -
  have quiet_queue: "\<forall>m\<in>set (sv_purges s). gm_status m \<noteq> purge_in_progress" using inv by (simp add: queue_inv_def)
  define n where "n = (if due then Suc (sv_steps s) else sv_steps s)"
  define s1 where "s1 = s\<lparr>sv_steps := n\<rparr>"
  let ?req = "em_when due (atomically env (\<lambda>now _ s. (Inr (), requeue_stale_in_progress in_progress_lease now s))) :: unit srv"
  have s1: "?req s = (Inr (), s1)"
    using env requeue_nothing [OF quiet_queue]
    by (simp add: em_when_def atomically_def s1_def n_def em_return_def)
  have inv1: "queue_inv s1" using inv queue_inv_cong [of s1 s] by (simp add: s1_def)
  obtain rows c where claim: "claim_pending 10 (en_now env n) s1 = (rows, c)" by fastforce
  define s2 where "s2 = c\<lparr>sv_steps := Suc n\<rparr>"
  have steps: "claim_pending 10 (en_now env n) s1 = (rows, c)" "sv_steps s1 = n" using claim by (simp_all add: s1_def)
  have unfolded: "storage_purge_run_once env idle due s =
     (if rows = [] then em_then (atomically env (\<lambda>now _ s. (Inr (), try_complete_jobs now s))) (em_return idle)
      else em_bind (em_map (purge_one env) rows) (\<lambda>errors.
        em_then (atomically env (\<lambda>now _ s. (Inr (), try_complete_jobs now s)))
          (em_return (if list_ex id errors then 1000 else 250)))) s2"
  proof -
    have "atomically env (\<lambda>now _ s. let (rows, t) = claim_pending purge_batch_size now s in (Inr rows, t)) s1 = (Inr rows, s2)"
      using steps by (simp add: atomically_run [OF env] purge_batch_size_def s2_def)
    then show ?thesis unfolding storage_purge_run_once_def em_then_Inr [where m = ?req and s = s, OF s1]
      by (rule em_bind_Inr [THEN trans]) (rule refl)
  qed
  have finish: "em_then (atomically env (\<lambda>now _ s. (Inr (), try_complete_jobs now s))) (em_return x) u
      = (Inr x, (try_complete_jobs (en_now env (sv_steps u)) u)\<lparr>sv_steps := Suc (sv_steps u)\<rparr>)" for x :: int and u
    using env by (simp add: em_then_def em_bind_def atomically_def em_return_def Let_def)
  have closing: "queue_inv ((try_complete_jobs w u)\<lparr>sv_steps := k\<rparr>) \<and> sv_purges ((try_complete_jobs w u)\<lparr>sv_steps := k\<rparr>) = sv_purges u \<and>
      queue_weight ((try_complete_jobs w u)\<lparr>sv_steps := k\<rparr>) = queue_weight u \<and>
      map gj_id (sv_jobs ((try_complete_jobs w u)\<lparr>sv_steps := k\<rparr>)) = map gj_id (sv_jobs u) \<and>
      (\<forall>j\<in>set (sv_jobs ((try_complete_jobs w u)\<lparr>sv_steps := k\<rparr>)). gj_completed j = None \<longrightarrow> still_open ((try_complete_jobs w u)\<lparr>sv_steps := k\<rparr>) (gj_id j))"
    if "queue_inv u" for u w k
    using that queue_inv_complete [OF that] queue_inv_cong [of "(try_complete_jobs w u)\<lparr>sv_steps := k\<rparr>" "try_complete_jobs w u"] complete_jobs_facts(3) [of w u]
    by (simp add: queue_weight_def still_open_def complete_jobs_facts(1,2))
  show ?thesis
  proof (cases "rows = []")
    case True
    have pur: "sv_purges s2 = sv_purges s" "sv_jobs s2 = sv_jobs s"
      using claim_facts [OF inv1 claim zero_less_numeral] True by (simp_all add: s2_def s1_def map_idI)
    have "queue_inv s2" using queue_inv_cong [OF pur] inv by simp
    note fin = closing [of s2 "Suc (sv_steps s2)" "en_now env (sv_steps s2)", OF this]
    have closed: "\<forall>m\<in>set (sv_purges s). \<not> is_open m"
      using claim_facts [OF inv1 claim zero_less_numeral] True quiet_queue by (auto simp: is_open_def s1_def)
    have same: "list_all2 (tick_rel {}) (sv_purges s) (sv_purges s)" by (simp add: list_all2_same tick_rel_def)
    have res: "storage_purge_run_once env idle due s =
        (Inr idle, (try_complete_jobs (en_now env (sv_steps s2)) s2)\<lparr>sv_steps := Suc (sv_steps s2)\<rparr>)"
      unfolding unfolded finish if_P [OF True] ..
    show ?thesis
      by (rule exI [of _ idle], rule exI [of _ "(try_complete_jobs (en_now env (sv_steps s2)) s2)\<lparr>sv_steps := Suc (sv_steps s2)\<rparr>"],
          rule exI [of _ "{}"]) (use fin closed same pur res in simp)
  next
    case False
    let ?s3 = "s\<lparr>sv_steps := Suc n\<rparr>"
    have claim3: "claim_pending 10 (en_now env n) ?s3 = (rows, s2)"
      using claim by (auto simp: claim_pending_def open_job_def token_of_job_def Let_def s1_def s2_def)
    have inv3: "queue_inv ?s3" using inv queue_inv_cong [of ?s3 s] by simp
    obtain bs t where run: "em_map (purge_one env) rows s2 = (Inr bs, t)" "sv_jobs t = sv_jobs ?s3"
        "list_all2 (tick_rel (cl_id ` set rows)) (sv_purges ?s3) (sv_purges t)"
        "queue_weight t < queue_weight ?s3" "queue_inv t"
      using tick_core [OF env inv3 claim3 False] by blast
    note fin = closing [of t "Suc (sv_steps t)" "en_now env (sv_steps t)", OF run(5)]
    have res: "storage_purge_run_once env idle due s = (Inr (if list_ex id bs then 1000 else 250),
        (try_complete_jobs (en_now env (sv_steps t)) t)\<lparr>sv_steps := Suc (sv_steps t)\<rparr>)"
      unfolding unfolded if_not_P [OF False] by (simp only: em_bind_run run(1) prod.case sum.case finish)
    have "queue_weight ?s3 = queue_weight s" by (simp add: queue_weight_def)
    then show ?thesis
      by (intro exI [of _ "if list_ex id bs then 1000 else 250"]
          exI [of _ "(try_complete_jobs (en_now env (sv_steps t)) t)\<lparr>sv_steps := Suc (sv_steps t)\<rparr>"]
          exI [of _ "cl_id ` set rows"]) (use fin run res in simp)
  qed
qed

section \<open>The queue drains\<close>

fun purge_ticks :: "server_env \<Rightarrow> int \<Rightarrow> (nat \<Rightarrow> bool) \<Rightarrow> nat \<Rightarrow> server \<Rightarrow> server" where
  "purge_ticks env idle due 0 s = s"
| "purge_ticks env idle due (Suc n) s = purge_ticks env idle due n (snd (storage_purge_run_once env idle (due n) s))"

definition drained :: "server \<Rightarrow> bool" where
  "drained s \<longleftrightarrow> (\<forall>m\<in>set (sv_purges s). gm_status m = purge_done \<or> gm_status m = purge_failed) \<and>
     (\<forall>j\<in>set (sv_jobs s). gj_completed j \<noteq> None)"

definition known_status :: "purge_message \<Rightarrow> bool" where
  "known_status m \<longleftrightarrow> gm_status m \<in> {purge_pending, purge_in_progress, purge_done, purge_failed}"

lemma tick_known: "list_all2 (tick_rel ids) ms ms' \<Longrightarrow> \<forall>m\<in>set ms. known_status m \<Longrightarrow> \<forall>m\<in>set ms'. known_status m"
  by (induction rule: list_all2_induct) (auto simp: tick_rel_def known_status_def split: if_splits)

lemma ticks_drain:
  assumes env: "quiet env"
  shows "queue_inv s \<Longrightarrow> \<forall>m\<in>set (sv_purges s). known_status m \<Longrightarrow> queue_weight s < n \<Longrightarrow>
    drained (purge_ticks env idle due n s) \<and>
    map gm_id (sv_purges (purge_ticks env idle due n s)) = map gm_id (sv_purges s)"
proof (induction n arbitrary: s)
  case (Suc n)
  obtain r t ids where tick: "storage_purge_run_once env idle (due n) s = (Inr r, t)" "queue_inv t"
      "list_all2 (tick_rel ids) (sv_purges s) (sv_purges t)"
      "queue_weight t < queue_weight s \<or> (\<forall>m\<in>set (sv_purges s). \<not> is_open m) \<and> sv_purges t = sv_purges s"
      "\<forall>j\<in>set (sv_jobs t). gj_completed j = None \<longrightarrow> still_open t (gj_id j)"
    using tick_run [OF env Suc.prems(1), of idle "due n"] by blast
  have known: "\<forall>m\<in>set (sv_purges t). known_status m" by (rule tick_known [OF tick(3) Suc.prems(2)])
  have ids: "map gm_id (sv_purges t) = map gm_id (sv_purges s)"
    using tick(3) by (intro nth_equalityI) (auto simp: list_all2_conv_all_nth tick_rel_def split: if_splits)
  have next_ticks: "purge_ticks env idle due (Suc n) s = purge_ticks env idle due n t" by (simp add: tick(1))
  show ?case
  proof (cases "queue_weight t < n")
    case True
    then show ?thesis unfolding next_ticks using Suc.IH [OF tick(2) known] ids by simp
  next
    case False
    then have closed: "\<forall>m\<in>set (sv_purges s). \<not> is_open m" "sv_purges t = sv_purges s"
      using tick(4) Suc.prems(3) by auto
    then have "queue_weight t = 0" by (auto simp: queue_weight_def weight_def is_open_def)
    then have "n = 0" using False by simp
    have "\<not> still_open t job" for job
      using closed by (auto simp: still_open_def list_ex_iff is_open_def)
    then have "drained t"
      using closed known tick(5) by (auto simp: drained_def known_status_def is_open_def)
    then show ?thesis unfolding next_ticks using ids \<open>n = 0\<close> by simp
  qed
qed simp


text \<open>Queueing a storage's messages leaves a queue of this kind.\<close>

lemma new_purges_facts:
  "map gm_id (new_purges job now n ms) = map (\<lambda>i. n + int i) [0..<length ms] \<and>
   (\<forall>m\<in>set (new_purges job now n ms). gm_job m = job \<and> gm_status m = purge_pending \<and> gm_attempts m = 0)"
proof (induction job now n ms rule: new_purges.induct)
  case (2 job now n chat message ms)
  have "map (\<lambda>i. n + int i) [0..<Suc (length ms)] = n # map (\<lambda>i. n + 1 + int i) [0..<length ms]"
    by (simp add: upt_conv_Cons map_Suc_upt [symmetric] o_def del: upt_Suc)
  then show ?case using 2 by simp
qed simp

lemma enqueue_keeps_queue_inv:
  assumes "queue_inv s" "enqueue_in_tx job storage token ms now s = (Inr (), t)"
    and "\<forall>m\<in>set (sv_purges s). gm_id m \<le> sv_purge_seq s"
  shows "queue_inv t \<and> (\<forall>m\<in>set (sv_purges t). gm_id m \<le> sv_purge_seq t)"
proof -
  let ?new = "new_purges job now (sv_purge_seq s + 1) ms"
  have t: "t = s\<lparr>sv_jobs := sv_jobs s @ [\<lparr>gj_id = job, gj_storage = storage, gj_token = token, gj_completed = None\<rparr>],
        sv_purges := sv_purges s @ ?new, sv_purge_seq := sv_purge_seq s + int (length ms)\<rparr>"
    using assms(2) by (auto simp: enqueue_in_tx_def split: if_splits)
  have ids: "map gm_id ?new = map (\<lambda>i. sv_purge_seq s + 1 + int i) [0..<length ms]"
    and fresh: "\<And>m. m \<in> set ?new \<Longrightarrow> gm_job m = job \<and> gm_status m = purge_pending \<and> gm_attempts m = 0"
    using new_purges_facts [of job now "sv_purge_seq s + 1" ms] by auto
  have range_new: "gm_id ` set ?new = {sv_purge_seq s + 1 + int i |i. i < length ms}"
    using arg_cong [OF ids, of set] by auto
  have "distinct (map gm_id ?new)" unfolding ids by (simp add: distinct_map inj_on_def)
  moreover have "gm_id ` set (sv_purges s) \<inter> gm_id ` set ?new = {}"
    using assms(3) unfolding range_new by fastforce
  ultimately have "distinct (map gm_id (sv_purges t))"
    using assms(1) by (simp add: t queue_inv_def)
  moreover have "gm_id m \<le> sv_purge_seq t" if "m \<in> set (sv_purges t)" for m
  proof (cases "m \<in> set (sv_purges s)")
    case True
    then show ?thesis using assms(3) by (force simp: t)
  next
    case False
    then have "gm_id m \<in> gm_id ` set ?new" using that by (auto simp: t)
    then show ?thesis unfolding range_new by (auto simp: t)
  qed
  ultimately show ?thesis
    using assms(1) fresh by (auto simp: t queue_inv_def open_job_def list_ex_iff purge_status_defs)
qed

definition two_left_behind :: server where
  "two_left_behind = snd (enqueue_in_tx ''j'' ''s'' ''1:A'' [(5, 1), (5, 2)] 0 empty_server)"


section \<open>What the queue does not do\<close>

text \<open>
  The lease of ten minutes is not kept: the bound is compared as a text with \<open>T\<close> between day and
  time, so that a message claimed a moment ago is stale, as long as the day is the same.
\<close>

lemma lease_not_kept:
  assumes "m \<in> set (sv_purges s)" "gm_status m = purge_in_progress" "gm_updated m = now"
    and "(now - in_progress_lease) div 86400 = now div 86400"
  shows "m\<lparr>gm_status := purge_pending, gm_updated := now\<rparr> \<in> set (sv_purges (requeue_stale_in_progress in_progress_lease now s))"
proof -
  have "datetime_text_less (gm_updated m) (now - in_progress_lease)"
    using assms by (simp add: datetime_text_less_def)
  then show ?thesis
    using assms(1,2) by (force simp: requeue_stale_in_progress_def)
qed

text \<open>A storage with very many messages cannot be queued, since one statement binds them all.\<close>

lemma many_messages_refused:
  "10922 < length messages \<Longrightarrow> enqueue_in_tx job storage token messages now s = (Inl Unknown, s)"
  by (simp add: enqueue_in_tx_def max_variables_def)

end
