(* ===== verification/Storages.thy ===== *)
theory Storages
  imports StoragePurge
begin

text \<open>
  Storages, their channels, bots and members (src/sarca/src/repositories/storages.rs,
  services/storages.rs, services/channel_health.rs). The rows of the storages, the lists of their
  ids beside the file tables and beside the grants are one table of the program; the operations
  here change them together (\<open>storages_agree\<close>). SQLite names no constraint in an error.
\<close>

section \<open>The table\<close>

definition storages_agree :: "server \<Rightarrow> bool" where
  "storages_agree s \<longleftrightarrow> fd_storages (sv_files s) = map so_id (sv_storages s) \<and>
     acc_storages (sv_acc s) = map so_id (sv_storages s)"

definition put_storages :: "storage_row list \<Rightarrow> server \<Rightarrow> server" where
  "put_storages rows s = s\<lparr>sv_storages := rows,
     sv_files := (sv_files s)\<lparr>fd_storages := map so_id rows\<rparr>,
     sv_acc := (sv_acc s)\<lparr>acc_storages := map so_id rows\<rparr>\<rparr>"

definition create_storage :: "uuid \<Rightarrow> string \<Rightarrow> server \<Rightarrow> storage_row sarca_result \<times> server" where
  "create_storage i name s =
     (if row_get so_id i (sv_storages s) \<noteq> None then (Inl Unknown, s)
      else (let r = \<lparr>so_id = i, so_name = name, so_primary = 1\<rparr>
            in (Inr r, put_storages (sv_storages s @ [r]) s)))"

record storage_with_info =
  si_id :: uuid
  si_name :: string
  si_primary :: int
  si_files_amount :: nat
  si_size :: int
  si_has_dead_channel :: bool

definition accessible :: "uuid \<Rightarrow> server \<Rightarrow> storage_row list" where
  "accessible user s = filter (\<lambda>r. list_ex (\<lambda>g. ac_user g = user \<and> ac_storage g = so_id r) (acc_access (sv_acc s)))
     (sv_storages s)"

definition counted_files :: "uuid \<Rightarrow> files_db \<Rightarrow> file_row list" where
  "counted_files storage db = filter (\<lambda>f. f_storage f = storage \<and> \<not> ends_in_slash_like (f_path f) \<and>
     f_uploaded f \<and> f_deleted f = None) (fd_files db)"

definition storage_list_by_user_id :: "uuid \<Rightarrow> server \<Rightarrow> storage_with_info list" where
  "storage_list_by_user_id user s =
     map (\<lambda>r. \<lparr>si_id = so_id r, si_name = so_name r, si_primary = so_primary r,
          si_files_amount = length (counted_files (so_id r) (sv_files s)),
          si_size = sum_list (map f_size (counted_files (so_id r) (sv_files s))),
          si_has_dead_channel = list_ex (\<lambda>c. sc_storage c = so_id r \<and> is_dead c) (fd_channels (sv_files s))\<rparr>)
       (sort_key so_id (accessible user s))"

definition list_all_ids :: "server \<Rightarrow> uuid list" where
  "list_all_ids s = map so_id (sv_storages s)"

definition first_storage :: "(storage_row \<Rightarrow> bool) \<Rightarrow> storage_row list \<Rightarrow> storage_row sarca_result" where
  "first_storage P rows = (case find P rows of None \<Rightarrow> Inl (not_found ''storage'') | Some r \<Rightarrow> Inr r)"

definition storage_by_id :: "uuid \<Rightarrow> server \<Rightarrow> storage_row sarca_result" where
  "storage_by_id i s = first_storage (\<lambda>r. so_id r = i) (sv_storages s)"

definition storage_by_name_and_user_id :: "string \<Rightarrow> uuid \<Rightarrow> server \<Rightarrow> storage_row sarca_result" where
  "storage_by_name_and_user_id name user s = first_storage (\<lambda>r. so_name r = name) (accessible user s)"

definition storage_by_file_id :: "uuid \<Rightarrow> server \<Rightarrow> storage_row sarca_result" where
  "storage_by_file_id fid s = first_storage
     (\<lambda>r. list_ex (\<lambda>f. f_storage f = so_id r \<and> f_id f = fid) (fd_files (sv_files s))) (sv_storages s)"

definition set_storage :: "uuid \<Rightarrow> (storage_row \<Rightarrow> storage_row) \<Rightarrow> server \<Rightarrow> server" where
  "set_storage i f s = s\<lparr>sv_storages := map (\<lambda>r. if so_id r = i then f r else r) (sv_storages s)\<rparr>"

definition update_storage_name :: "uuid \<Rightarrow> string \<Rightarrow> server \<Rightarrow> storage_row sarca_result \<times> server" where
  "update_storage_name i name s =
     (let t = set_storage i (\<lambda>r. r\<lparr>so_name := name\<rparr>) s in (storage_by_id i t, t))"

definition set_primary_position :: "uuid \<Rightarrow> int \<Rightarrow> server \<Rightarrow> server" where
  "set_primary_position i position = set_storage i (\<lambda>r. r\<lparr>so_primary := position\<rparr>)"

text \<open>
  Three statements: the bots with their usages, the files with their chunks and the changelog's
  deletions, and the row of the storage, with which the grants, channels, copies, share links and
  the changelog of the storage go.
\<close>

definition delete_workers_of :: "uuid \<Rightarrow> server \<Rightarrow> server" where
  "delete_workers_of storage s = s\<lparr>
     sv_workers := row_del (\<lambda>w. sw_storage w = Some storage) (sv_workers s),
     sv_usages := filter (\<lambda>(w, _). \<not> list_ex (\<lambda>x. sw_storage x = Some storage \<and> sw_id x = w) (sv_workers s)) (sv_usages s)\<rparr>"

definition delete_files_of :: "uuid \<Rightarrow> int \<Rightarrow> files_db \<Rightarrow> files_db" where
  "delete_files_of storage now db =
     delete_rows now (map f_id (filter (\<lambda>f. f_storage f = storage) (fd_files db))) db"

definition cascade_files :: "uuid \<Rightarrow> files_db \<Rightarrow> files_db" where
  "cascade_files storage db = (let gone = map sc_id (filter (\<lambda>c. sc_storage c = storage) (fd_channels db)) in
     db\<lparr>fd_channels := row_del (\<lambda>c. sc_storage c = storage) (fd_channels db),
        fd_replicas := row_del (\<lambda>r. rp_channel r \<in> set gone) (fd_replicas db),
        fd_events := row_del (\<lambda>e. fe_storage e = storage) (fd_events db)\<rparr>)"

definition delete_storage_row :: "uuid \<Rightarrow> server \<Rightarrow> server" where
  "delete_storage_row storage s = put_storages (row_del (\<lambda>r. so_id r = storage) (sv_storages s))
     (s\<lparr>sv_files := cascade_files storage (sv_files s),
        sv_acc := (sv_acc s)\<lparr>acc_access := row_del (\<lambda>g. ac_storage g = storage) (acc_access (sv_acc s))\<rparr>,
        sv_shares := row_del (\<lambda>l. sl_storage l = storage) (sv_shares s)\<rparr>)"

definition delete_storage_in_tx :: "uuid \<Rightarrow> int \<Rightarrow> server \<Rightarrow> server" where
  "delete_storage_in_tx storage now s =
     (let t = delete_workers_of storage s
      in delete_storage_row storage (t\<lparr>sv_files := delete_files_of storage now (sv_files t)\<rparr>))"

definition delete_storage :: "server_env \<Rightarrow> uuid \<Rightarrow> (server, 'e, unit) em" where
  "delete_storage env storage = atomically env (\<lambda>now _ s. (Inr (), delete_storage_in_tx storage now s))"

section \<open>The service: creating, showing, naming, deleting\<close>

text \<open>
  Bytes 0x80 to 0xBF continue a character: a slice that starts or ends before one panics, which
  is the value \<open>None\<close>.
\<close>

definition char_boundary :: "nat \<Rightarrow> string \<Rightarrow> bool" where
  "char_boundary n s \<longleftrightarrow> n = length s \<or> (n < length s \<and> \<not> (128 \<le> (of_char (s ! n) :: nat) \<and> (of_char (s ! n) :: nat) < 192))"

definition bullet :: string where "bullet = [CHR 0xE2, CHR 0x80, CHR 0xA2]"

definition mask_bot_token :: "string \<Rightarrow> string option" where
  "mask_bot_token token =
     (if length token \<le> 10 then Some (concat (replicate 8 bullet))
      else if char_boundary 4 token \<and> char_boundary (length token - 4) token
      then Some (take 4 token @ concat (replicate (min 18 (sat_sub (length token) 8)) bullet) @ drop (length token - 4) token)
      else None)"

definition max_channels :: nat where "max_channels = 3"

definition channel_label :: "int \<Rightarrow> string" where
  "channel_label position = ''Channel '' @ show_int position"

definition resolve_channel_name :: "server_env \<Rightarrow> int \<Rightarrow> string option \<Rightarrow> uuid \<Rightarrow> string \<Rightarrow> string srv" where
  "resolve_channel_name env chat given storage fallback =
     (case map_option trim given of
        Some (c # cs) \<Rightarrow> em_return (c # cs)
      | _ \<Rightarrow> em_bind (em_attempt (remote (\<lambda>n. en_get_chat env n chat storage))) (\<lambda>r.
          em_return (case r of Inr title \<Rightarrow> title | Inl _ \<Rightarrow> fallback)))"

definition active_channel :: "uuid \<Rightarrow> uuid \<Rightarrow> int \<Rightarrow> int \<Rightarrow> string \<Rightarrow> channel_row" where
  "active_channel i storage position chat name = \<lparr>sc_id = i, sc_storage = storage, sc_position = position,
     sc_chat = chat, sc_name = name, sc_status = channel_status_active\<rparr>"

definition insert_active_channel :: "server_env \<Rightarrow> uuid \<Rightarrow> int \<Rightarrow> int \<Rightarrow> string \<Rightarrow> channel_row srv" where
  "insert_active_channel env storage position chat name =
     db_run env (\<lambda>_ ids. insert_channel (active_channel (ids 0) storage position chat name))"

fun create_channels :: "server_env \<Rightarrow> uuid \<Rightarrow> int \<Rightarrow> (int \<times> string option) list \<Rightarrow> unit srv" where
  "create_channels env storage position [] = em_return ()"
| "create_channels env storage position ((chat, given) # inputs) =
     em_bind (resolve_channel_name env chat given storage (channel_label position)) (\<lambda>name.
     em_bind (em_attempt (insert_active_channel env storage position chat name)) (\<lambda>r. case r of
       Inl e \<Rightarrow> em_then (delete_storage env storage) (em_throw e)
     | Inr _ \<Rightarrow> create_channels env storage (position + 1) inputs))"

definition grant_step :: "server_env \<Rightarrow> ((nat \<Rightarrow> uuid) \<Rightarrow> 'a acc_op) \<Rightarrow> 'a srv" where
  "grant_step env f = atomically env (\<lambda>_ ids s. let (r, a) = f ids (sv_acc s) in (r, s\<lparr>sv_acc := a\<rparr>))"

definition storage_service_create ::
  "server_env \<Rightarrow> string \<Rightarrow> string \<Rightarrow> (int \<times> string option) list \<Rightarrow> auth_user \<Rightarrow> storage_row srv" where
  "storage_service_create env superuser name channels user =
     (if channels = [] then em_throw NoActiveChannel
      else if max_channels < length channels then em_throw TooManyChannels
      else em_bind (atomically env (\<lambda>_ _ s. (Inr (storage_by_name_and_user_id name (au_id user) s), s))) (\<lambda>same.
        if \<not> isl same then em_throw StorageNameConflict
        else em_bind (atomically env (\<lambda>_ ids. create_storage (ids 0) name)) (\<lambda>storage.
          em_bind (em_attempt (grant_step env (\<lambda>ids. grant_for_user_id None (ids 0) (so_id storage) (au_id user) AA)))
            (\<lambda>granted. case granted of
              Inl e \<Rightarrow> em_then (delete_storage env (so_id storage)) (em_throw e)
            | Inr _ \<Rightarrow>
                em_then (create_channels env (so_id storage) 1 channels)
                (em_then (em_when (\<not> eq_ignore_ascii_case (au_email user) superuser)
                    (em_then (em_attempt (grant_step env
                        (\<lambda>ids. create_or_update_access None (ids 0) (so_id storage) superuser AA))) (em_return ())))
                  (em_return storage))))))"

definition storage_service_list :: "server_env \<Rightarrow> auth_user \<Rightarrow> storage_with_info list srv" where
  "storage_service_list env user = atomically env (\<lambda>_ _ s. (Inr (storage_list_by_user_id (au_id user) s), s))"

record storage_bot =
  sb_id :: uuid
  sb_name :: string
  sb_token_masked :: "string option"

definition storage_bot_of :: "worker_row \<Rightarrow> storage_bot" where
  "storage_bot_of w = \<lparr>sb_id = sw_id w, sb_name = sw_name w, sb_token_masked = mask_bot_token (sw_token w)\<rparr>"

record storage_detail =
  sd_id :: uuid
  sd_name :: string
  sd_primary :: int
  sd_has_dead_channel :: bool
  sd_channels :: "channel_row list"
  sd_replication :: replication_stats
  sd_bot :: "storage_bot option"

definition bot_of_storage :: "server_env \<Rightarrow> uuid \<Rightarrow> worker_row option srv" where
  "bot_of_storage env storage = atomically env (\<lambda>_ _ s. (Inr (worker_by_storage_id storage (sv_workers s)), s))"

definition storage_row_of :: "server_env \<Rightarrow> uuid \<Rightarrow> storage_row srv" where
  "storage_row_of env i = atomically env (\<lambda>_ _ s. (storage_by_id i s, s))"

definition get_detail :: "server_env \<Rightarrow> uuid \<Rightarrow> auth_user \<Rightarrow> storage_detail srv" where
  "get_detail env i user =
     em_then (require_access env (au_id user) i AR)
     (em_bind (storage_row_of env i) (\<lambda>storage.
      em_bind (db_read env (list_by_storage i)) (\<lambda>channels.
      em_bind (db_read env (get_replication_stats i)) (\<lambda>replication.
      em_bind (bot_of_storage env i) (\<lambda>bot.
        em_return \<lparr>sd_id = so_id storage, sd_name = so_name storage, sd_primary = so_primary storage,
          sd_has_dead_channel = list_ex is_dead channels, sd_channels = channels,
          sd_replication = replication, sd_bot = map_option storage_bot_of bot\<rparr>)))))"

definition storage_service_update :: "server_env \<Rightarrow> uuid \<Rightarrow> string \<Rightarrow> auth_user \<Rightarrow> storage_row srv" where
  "storage_service_update env i name0 user =
     em_then (require_access env (au_id user) i AA)
     (let name = trim name0
      in em_bind (atomically env (\<lambda>_ _ s. (Inr (storage_by_name_and_user_id name (au_id user) s), s))) (\<lambda>found.
        case found of
          Inr existing \<Rightarrow> if so_id existing \<noteq> i then em_throw StorageNameConflict else em_return existing
        | Inl _ \<Rightarrow> atomically env (\<lambda>_ _. update_storage_name i name)))"

text \<open>The queue entry and the deletion are one transaction: an error of the first undoes it.\<close>

definition storage_service_delete :: "server_env \<Rightarrow> uuid \<Rightarrow> auth_user \<Rightarrow> unit srv" where
  "storage_service_delete env i user =
     em_then (require_access env (au_id user) i AA)
     (em_bind (snapshot_storage_telegram_purge env i) (\<lambda>snapshot.
       atomically env (\<lambda>now ids s.
         case enqueue_storage_telegram_purge_in_tx (ids 0) i snapshot now s of
           (Inl e, _) \<Rightarrow> (Inl e, s)
         | (Inr _, t) \<Rightarrow> (Inr (), delete_storage_in_tx i now t))))"

section \<open>The service: the bot\<close>

fun drop_channels :: "server_env \<Rightarrow> channel_row list \<Rightarrow> unit srv" where
  "drop_channels env [] = em_return ()"
| "drop_channels env (c # cs) =
     em_then (db_run env (\<lambda>_ _ db. (Inr (), delete_channel (sc_id c) db))) (drop_channels env cs)"

definition suffixed :: "string \<Rightarrow> uuid \<Rightarrow> string" where
  "suffixed name storage = name @ ''_'' @ take 8 storage"

definition worker_named :: "server_env \<Rightarrow> string \<Rightarrow> uuid \<Rightarrow> worker_row sarca_result srv" where
  "worker_named env name user = atomically env (\<lambda>_ _ s. (Inr (worker_by_name_and_user_id name user (sv_workers s)), s))"

text \<open>The name a worker gets, when a worker other than \<open>keep\<close> has it already.\<close>

definition name_for :: "server_env \<Rightarrow> string \<Rightarrow> uuid \<Rightarrow> uuid option \<Rightarrow> uuid \<Rightarrow> string srv" where
  "name_for env name user keep storage =
     em_bind (worker_named env name user) (\<lambda>same. case same of
       Inl _ \<Rightarrow> em_return name
     | Inr other \<Rightarrow> em_return (if Some (sw_id other) = keep then name else suffixed name storage))"

definition bind_bot :: "server_env \<Rightarrow> uuid \<Rightarrow> string \<Rightarrow> string \<Rightarrow> auth_user \<Rightarrow> worker_row srv" where
  "bind_bot env storage token name user =
     em_bind (bot_of_storage env storage) (\<lambda>existing. case existing of
       Some w \<Rightarrow> em_bind (name_for env name (au_id user) (Some (sw_id w)) storage) (\<lambda>name.
          atomically env (\<lambda>_ _. update_credentials (sw_id w) name token))
     | None \<Rightarrow> em_bind (atomically env (\<lambda>_ _ s. (Inr (worker_by_token token (sv_workers s)), s))) (\<lambda>owned. case owned of
          Some w \<Rightarrow> if sw_user w \<noteq> au_id user then em_throw StorageWorkerTokenConflict
            else em_bind (name_for env name (au_id user) (Some (sw_id w)) storage) (\<lambda>name.
              atomically env (\<lambda>_ _. rebind_to_storage (sw_id w) storage name))
        | None \<Rightarrow> em_bind (name_for env name (au_id user) None storage) (\<lambda>name.
            atomically env (\<lambda>_ ids. create_worker
              \<lparr>sw_id = ids 0, sw_name = name, sw_user = au_id user, sw_token = token, sw_storage = Some storage\<rparr>))))"

definition drop_all_channels :: "server_env \<Rightarrow> uuid \<Rightarrow> unit srv" where
  "drop_all_channels env storage =
     em_bind (db_read env (list_by_storage storage)) (\<lambda>channels.
       em_then (drop_channels env channels)
         (atomically env (\<lambda>_ _ s. (Inr (), set_primary_position storage 1 s))))"

definition set_bot :: "server_env \<Rightarrow> uuid \<Rightarrow> string \<Rightarrow> bool \<Rightarrow> auth_user \<Rightarrow> storage_bot srv" where
  "set_bot env storage token0 remove_channels user =
     em_then (require_access env (au_id user) storage AA)
     (em_then (storage_row_of env storage)
     (let token = trim token0 in
      if token = [] \<or> CHR '':'' \<notin> set token then em_throw (TelegramAPIError ''Bot token looks invalid'')
      else em_bind (bot_of_storage env storage) (\<lambda>existing.
        if map_option sw_token existing = Some token then em_throw BotTokenUnchanged
        else em_bind (remote (\<lambda>n. en_get_me env n token)) (\<lambda>(bot_id, username).
          em_bind (bot_of_storage env storage) (\<lambda>existing.
            if existing \<noteq> None \<and> \<not> remove_channels then em_throw BotReplacementRequiresChannelConfirmation
            else em_then (em_when remove_channels (drop_all_channels env storage))
              (em_bind (bind_bot env storage token
                  (if trim username = [] then ''bot_'' @ show_int bot_id else username) user) (\<lambda>worker.
                em_return (storage_bot_of worker))))))))"

section \<open>The service: the channels\<close>

definition catch_up :: "server_env \<Rightarrow> uuid \<Rightarrow> uuid \<Rightarrow> unit srv" where
  "catch_up env storage channel =
     em_then (em_attempt (db_run env (\<lambda>_ ids. enqueue_for_channel ids storage channel))) (em_return ())"

definition add_channel :: "server_env \<Rightarrow> uuid \<Rightarrow> int \<Rightarrow> string option \<Rightarrow> auth_user \<Rightarrow> channel_row srv" where
  "add_channel env storage chat given user =
     em_then (require_access env (au_id user) storage AA)
     (em_bind (db_try env (\<lambda>db. case next_free_position storage db of
         None \<Rightarrow> Inl TooManyChannels | Some p \<Rightarrow> Inr p)) (\<lambda>position.
      em_bind (resolve_channel_name env chat given storage (channel_label position)) (\<lambda>name.
      em_bind (insert_active_channel env storage position chat name) (\<lambda>channel.
        em_then (catch_up env storage (sc_id channel)) (em_return channel)))))"

record refresh_channels_result =
  rc_added :: "channel_row list"
  rc_skipped_full :: bool
  rc_skipped_in_use :: "int list"
  rc_channels :: "channel_row list"
  rc_hint :: "string option"

fun add_discovered ::
  "server_env \<Rightarrow> uuid \<Rightarrow> auth_user \<Rightarrow> nat \<Rightarrow> (int \<times> string) list \<Rightarrow>
     (channel_row list \<times> bool \<times> int list) srv" where
  "add_discovered env storage user n [] = em_return ([], False, [])"
| "add_discovered env storage user n ((chat, title) # rest) =
     (if max_channels \<le> n then em_return ([], True, [])
      else em_bind (em_attempt (add_channel env storage chat (Some title) user)) (\<lambda>r. case r of
          Inr channel \<Rightarrow> em_bind (add_discovered env storage user (n + 1) rest)
            (\<lambda>(added, full, in_use). em_return (channel # added, full, in_use))
        | Inl StorageChatIdConflict \<Rightarrow> em_bind (add_discovered env storage user n rest)
            (\<lambda>(added, full, in_use). em_return (added, full, chat # in_use))
        | Inl TooManyChannels \<Rightarrow> em_return ([], True, [])
        | Inl e \<Rightarrow> em_throw e))"

definition refresh_channels :: "server_env \<Rightarrow> uuid \<Rightarrow> auth_user \<Rightarrow> refresh_channels_result srv" where
  "refresh_channels env storage user =
     em_then (require_access env (au_id user) storage AA)
     (em_bind (bot_of_storage env storage) (\<lambda>bot. case bot of
        None \<Rightarrow> em_throw StorageDoesNotHaveWorkers
      | Some w \<Rightarrow>
          em_bind (db_read env (list_by_storage storage)) (\<lambda>channels.
          em_bind (remote (\<lambda>n. en_discover env n (sw_token w) (map sc_chat channels))) (\<lambda>(discovered, hint).
          em_bind (add_discovered env storage user (length channels) discovered) (\<lambda>(added, full, in_use).
          em_bind (db_read env (list_by_storage storage)) (\<lambda>channels.
            em_return \<lparr>rc_added = added, rc_skipped_full = full, rc_skipped_in_use = in_use,
              rc_channels = channels, rc_hint = hint\<rparr>))))))"

definition ensure_channel_of_storage :: "server_env \<Rightarrow> uuid \<Rightarrow> uuid \<Rightarrow> channel_row srv" where
  "ensure_channel_of_storage env storage channel = db_try env (\<lambda>db.
     res_bind (get_channel channel db) (\<lambda>c.
       if sc_storage c \<noteq> storage then Inl (DoesNotExist ''channel'') else Inr c))"

definition service_update_channel ::
  "server_env \<Rightarrow> uuid \<Rightarrow> uuid \<Rightarrow> int option \<Rightarrow> string option \<Rightarrow> auth_user \<Rightarrow> channel_row srv" where
  "service_update_channel env storage i chat name user =
     em_then (require_access env (au_id user) storage AA)
     (em_bind (ensure_channel_of_storage env storage i) (\<lambda>channel.
       case chat of
         Some new_chat \<Rightarrow>
           em_bind (resolve_channel_name env new_chat name storage (sc_name channel)) (\<lambda>new_name.
           em_bind (db_run env (\<lambda>_ _. update_chat i new_chat new_name)) (\<lambda>updated.
             em_then (catch_up env storage i) (em_return updated)))
       | None \<Rightarrow> (case name of
           None \<Rightarrow> em_return channel
         | Some given \<Rightarrow>
             if trim given = [] then em_return channel
             else db_run env (\<lambda>_ _. update_channel_name i (trim given)))))"

text \<open>
  The next active position after \<open>current\<close>, in a cycle; the first active one when \<open>current\<close> is not
  among them.
\<close>

fun index_of :: "'a \<Rightarrow> 'a list \<Rightarrow> nat option" where
  "index_of x [] = None"
| "index_of x (y # ys) = (if x = y then Some 0 else map_option Suc (index_of x ys))"

definition next_active_position :: "channel_row list \<Rightarrow> int \<Rightarrow> int option" where
  "next_active_position channels current =
     (let active = sort (map sc_position (filter is_active channels))
      in if active = [] then None
         else (case index_of current active of
             Some k \<Rightarrow> Some (active ! ((k + 1) mod length active))
           | None \<Rightarrow> Some (hd active)))"

definition promote_next :: "server_env \<Rightarrow> uuid \<Rightarrow> int \<Rightarrow> unit srv" where
  "promote_next env storage current =
     em_bind (db_read env (list_by_storage storage)) (\<lambda>siblings.
       case next_active_position siblings current of
         None \<Rightarrow> em_return ()
       | Some next \<Rightarrow> atomically env (\<lambda>_ _ s. (Inr (), set_primary_position storage next s)))"

definition remove_channel :: "server_env \<Rightarrow> uuid \<Rightarrow> uuid \<Rightarrow> auth_user \<Rightarrow> unit srv" where
  "remove_channel env storage i user =
     em_then (require_access env (au_id user) storage AA)
     (em_bind (ensure_channel_of_storage env storage i) (\<lambda>channel.
      em_then (if is_active channel
         then em_bind (db_read env (count_active storage)) (\<lambda>n. if n \<le> 1 then em_throw LastActiveChannel else em_return ())
         else em_return ())
      (em_bind (storage_row_of env storage) (\<lambda>row.
        em_then (em_when (so_primary row = sc_position channel) (promote_next env storage (sc_position channel)))
          (db_run env (\<lambda>_ _ db. (Inr (), delete_channel i db)))))))"

definition retry_replication :: "server_env \<Rightarrow> uuid \<Rightarrow> auth_user \<Rightarrow> replication_stats srv" where
  "retry_replication env storage user =
     em_then (require_access env (au_id user) storage AA)
     (em_then (db_run env (\<lambda>_ _ db. (Inr (), retry_failed storage db)))
       (db_read env (get_replication_stats storage)))"

section \<open>The service: the members\<close>

definition members_of :: "server_env \<Rightarrow> uuid \<Rightarrow> (uuid \<times> string \<times> access_type) list srv" where
  "members_of env storage = atomically env (\<lambda>_ _ s. (Inr (list_users_with_access storage (sv_acc s)), s))"

definition guard_admin_target ::
  "server_env \<Rightarrow> string \<Rightarrow> uuid \<Rightarrow> auth_user \<Rightarrow> bool \<Rightarrow> (uuid \<times> string \<times> access_type \<Rightarrow> bool) \<Rightarrow> unit srv" where
  "guard_admin_target env superuser storage actor grants_admin is_target =
     (if eq_ignore_ascii_case (au_email actor) superuser then em_return ()
      else if grants_admin then em_throw OnlySuperuserManagesAdmins
      else em_bind (members_of env storage) (\<lambda>members.
        if list_ex (\<lambda>(_, email, t). t = AA \<or> eq_ignore_ascii_case email superuser) (filter is_target members)
        then em_throw OnlySuperuserManagesAdmins else em_return ()))"

definition grant_access ::
  "server_env \<Rightarrow> string \<Rightarrow> uuid \<Rightarrow> string \<Rightarrow> access_type \<Rightarrow> auth_user \<Rightarrow> unit srv" where
  "grant_access env superuser storage email t user =
     em_then (require_access env (au_id user) storage AA)
     (if email = au_email user then em_throw CannotManageAccessOfYourself
      else if \<not> eq_ignore_ascii_case (au_email user) superuser \<and> eq_ignore_ascii_case email superuser
      then em_throw OnlySuperuserManagesAdmins
      else em_then (guard_admin_target env superuser storage user (t = AA)
              (\<lambda>(_, member_email, _). eq_ignore_ascii_case member_email email))
            (grant_step env (\<lambda>ids. create_or_update_access None (ids 0) storage email t)))"

definition service_list_users_with_access ::
  "server_env \<Rightarrow> uuid \<Rightarrow> auth_user \<Rightarrow> (uuid \<times> string \<times> access_type) list srv" where
  "service_list_users_with_access env storage user =
     em_then (require_access env (au_id user) storage AA) (members_of env storage)"

definition restrict_access :: "server_env \<Rightarrow> string \<Rightarrow> uuid \<Rightarrow> uuid \<Rightarrow> auth_user \<Rightarrow> unit srv" where
  "restrict_access env superuser storage target user =
     em_then (require_access env (au_id user) storage AA)
     (if target = au_id user then em_throw CannotManageAccessOfYourself
      else em_then (guard_admin_target env superuser storage user False (\<lambda>(member, _, _). member = target))
             (grant_step env (\<lambda>_. delete_access target storage)))"

section \<open>The health of channels\<close>

definition channel_is_probed :: "server_env \<Rightarrow> channel_row \<Rightarrow> unit srv" where
  "channel_is_probed env channel =
     em_bind (em_attempt (remote (\<lambda>n. en_get_chat env n (sc_chat channel) (sc_storage channel)))) (\<lambda>r. case r of
       Inr _ \<Rightarrow> em_return ()
     | Inl e \<Rightarrow>
         if \<not> is_chat_dead_error (en_lower env) e then em_return ()
         else em_then (db_run env (\<lambda>_ _ db. (Inr (), mark_dead (sc_id channel) db)))
           (em_bind (em_attempt (storage_row_of env (sc_storage channel))) (\<lambda>row. case row of
              Inl _ \<Rightarrow> em_return ()
            | Inr storage \<Rightarrow>
                if so_primary storage \<noteq> sc_position channel then em_return ()
                else promote_next env (so_id storage) (sc_position channel))))"

definition channel_health_run_once :: "server_env \<Rightarrow> unit srv" where
  "channel_health_run_once env =
     em_bind (db_read env fd_channels) (\<lambda>channels.
       em_each (channel_is_probed env) (filter is_active channels))"

section \<open>Who may change an administrator\<close>

lemma guard_passed:
  assumes "quiet env" "guard_admin_target env superuser storage actor ga P s = (Inr (), u)"
    and "\<not> eq_ignore_ascii_case (au_email actor) superuser"
  shows "sv_acc u = sv_acc s" and "\<not> ga"
    and "\<And>i email t. (i, email, t) \<in> set (list_users_with_access storage (sv_acc s)) \<Longrightarrow> P (i, email, t) \<Longrightarrow>
           t \<noteq> AA \<and> \<not> eq_ignore_ascii_case email superuser"
  using assms by (auto simp: guard_admin_target_def members_of_def atomically_run em_then_def em_bind_def
      em_throw_def em_return_def list_ex_iff split: if_splits)

lemma guard_refused:
  assumes "quiet env" "guard_admin_target env superuser storage actor ga P s = (Inl e, u)"
  shows "sv_acc u = sv_acc s"
  using assms by (auto simp: guard_admin_target_def members_of_def atomically_run em_then_def em_bind_def
      em_throw_def em_return_def split: if_splits)

lemma member_listed:
  assumes "accounts_inv a" "u \<in> set (acc_users a)" "grant_of (u_id u) storage a = Some t"
  shows "(u_id u, u_email u, t) \<in> set (list_users_with_access storage a)"
proof -
  obtain g where "g \<in> set (acc_access a)" "ac_user g = u_id u" "ac_storage g = storage" "ac_type g = t"
    using assms(3) that [OF nth_mem] by (auto simp: grant_of_def find_Some_iff)
  then show ?thesis using assms(2) by (force simp: list_users_with_access_def)
qed

lemma grant_of_upsert:
  "grant_of u st (a\<lparr>acc_access := upsert_access g (acc_access a)\<rparr>) =
     (if u = ac_user g \<and> st = ac_storage g then Some (ac_type g) else grant_of u st a)"
  by (simp add: grant_of_def find_upsert_access)

lemma grant_of_delete:
  "grant_of u st (snd (delete_access i storage a)) =
     (if u = i \<and> st = storage then None else grant_of u st a)"
proof -
  have "find P (row_del Q gs) = (if \<forall>g. P g \<longrightarrow> Q g then None else find P gs)"
    if "(\<forall>g. P g \<longrightarrow> Q g) \<or> (\<forall>g. P g \<longrightarrow> \<not> Q g)" for P Q and gs :: "access_row list"
    using that by (induction gs) (auto simp: row_del_def find_None_iff)
  from this [of "\<lambda>g. ac_user g = u \<and> ac_storage g = st" "\<lambda>g. ac_user g = i \<and> ac_storage g = storage" "acc_access a"]
  show ?thesis by (auto simp: delete_access_def grant_of_def row_del_def find_None_iff)
qed

text \<open>What a member who is not the superuser can do to the grants.\<close>

definition spares_admins :: "string \<Rightarrow> accounts \<Rightarrow> accounts \<Rightarrow> bool" where
  "spares_admins superuser a b \<longleftrightarrow> (\<forall>u \<in> set (acc_users a). \<forall>storage.
     grant_of (u_id u) storage b \<noteq> grant_of (u_id u) storage a \<longrightarrow>
       grant_of (u_id u) storage a \<noteq> Some AA \<and> grant_of (u_id u) storage b \<noteq> Some AA \<and>
       \<not> eq_ignore_ascii_case (u_email u) superuser)"

lemma spares_admins_refl [simp]: "spares_admins superuser a a"
  by (simp add: spares_admins_def)

lemma ignore_case_refl [simp]: "eq_ignore_ascii_case e e"
  by (simp add: eq_ignore_ascii_case_def)

lemma ignore_case_cong: "eq_ignore_ascii_case e f \<Longrightarrow> eq_ignore_ascii_case e g = eq_ignore_ascii_case f g"
  by (simp add: eq_ignore_ascii_case_def)

lemma grant_access_spares:
  assumes quiet: "quiet env" and inv: "accounts_inv (sv_acc s)"
    and plain: "\<not> eq_ignore_ascii_case (au_email actor) superuser"
  shows "spares_admins superuser (sv_acc s) (sv_acc (snd (grant_access env superuser storage email ty actor s)))"
proof -
  let ?P = "\<lambda>(_, member_email, _). eq_ignore_ascii_case member_email email"
  let ?v = "s\<lparr>sv_steps := Suc (sv_steps s)\<rparr>"
  obtain r t where run: "grant_access env superuser storage email ty actor s = (r, t)" by fastforce
  from run consider (none) "sv_acc t = sv_acc s"
    | (guarded) w where "sv_acc ?v = sv_acc s" "\<not> eq_ignore_ascii_case email superuser"
        "guard_admin_target env superuser storage actor (ty = AA) ?P ?v = (Inr (), w)"
        "grant_step env (\<lambda>ids. create_or_update_access None (ids 0) storage email ty) w = (r, t)"
    unfolding grant_access_def
    by (auto simp: require_access_run [OF quiet] plain em_throw_def elim!: em_thenE split: if_splits dest: guard_refused [OF quiet])
  then show ?thesis
  proof cases
    case none
    then show ?thesis using run by simp
  next
    case guarded
    note guard = guard_passed [OF quiet guarded(3) plain]
    have acc: "sv_acc t = snd (create_or_update_access None (en_ids env (sv_steps w) 0) storage email ty (sv_acc s))"
      using guarded(4) guard(1) guarded(1)
      by (auto simp: grant_step_def atomically_run [OF quiet] split: prod.splits)
    have "spares_admins superuser (sv_acc s) (snd (create_or_update_access None i storage email ty (sv_acc s)))" for i
      unfolding spares_admins_def create_or_update_access_def
    proof (intro ballI allI impI, goal_cases)
      case (1 u st)
      then obtain x where x: "find (\<lambda>u. u_email u = email) (acc_users (sv_acc s)) = Some x"
          and u: "u_id u = u_id x" "st = storage"
          and new: "grant_of (u_id u) st (snd (create_or_update_access None i storage email ty (sv_acc s))) = Some ty"
        by (auto simp: grant_of_upsert create_or_update_access_def split: option.splits if_splits)
      have xin: "x \<in> set (acc_users (sv_acc s))" "u_email x = email" using x by (auto simp: find_Some_iff)
      then have "x = u" using u 1(1) inv by (auto simp: accounts_inv_def keys_ok_def distinct_map inj_on_def)
      then have old: "grant_of (u_id u) storage (sv_acc s) \<noteq> Some AA"
        using guard(3) [of "u_id u" "u_email u" AA] member_listed [OF inv 1(1), of storage AA] xin guarded(1) by auto
      then show ?case using new guard(2) guarded(2) xin \<open>x = u\<close> u(2) by (simp add: create_or_update_access_def)
    qed
    then show ?thesis using run acc by simp
  qed
qed

lemma restrict_access_spares:
  assumes quiet: "quiet env" and inv: "accounts_inv (sv_acc s)"
    and plain: "\<not> eq_ignore_ascii_case (au_email actor) superuser"
  shows "spares_admins superuser (sv_acc s) (sv_acc (snd (restrict_access env superuser storage target actor s)))"
proof -
  let ?P = "\<lambda>(member, _, _). member = target"
  let ?v = "s\<lparr>sv_steps := Suc (sv_steps s)\<rparr>"
  obtain r t where run: "restrict_access env superuser storage target actor s = (r, t)" by fastforce
  from run consider (none) "sv_acc t = sv_acc s"
    | (guarded) w where "sv_acc ?v = sv_acc s"
        "guard_admin_target env superuser storage actor False ?P ?v = (Inr (), w)"
        "grant_step env (\<lambda>_. delete_access target storage) w = (r, t)"
    unfolding restrict_access_def
    by (auto simp: require_access_run [OF quiet] plain em_throw_def elim!: em_thenE split: if_splits dest: guard_refused [OF quiet])
  then show ?thesis
  proof cases
    case none
    then show ?thesis using run by simp
  next
    case guarded
    note guard = guard_passed [OF quiet guarded(2) plain]
    have acc: "sv_acc t = snd (delete_access target storage (sv_acc s))"
      using guarded(3) guard(1) guarded(1)
      by (auto simp: grant_step_def atomically_run [OF quiet] split: prod.splits)
    have "spares_admins superuser (sv_acc s) (snd (delete_access target storage (sv_acc s)))"
      unfolding spares_admins_def
    proof (intro ballI allI impI, goal_cases)
      case (1 u st)
      then have st: "u_id u = target" "st = storage" "grant_of (u_id u) storage (sv_acc s) \<noteq> None"
        by (auto simp: grant_of_delete split: if_splits) (metis not_None_eq)
      then obtain t where t: "grant_of (u_id u) storage (sv_acc s) = Some t" by auto
      then have "t \<noteq> AA" "\<not> eq_ignore_ascii_case (u_email u) superuser"
        using guard(3) member_listed [OF inv 1(1) t] st(1) guarded(1) by auto
      then show ?case using t st by (simp add: grant_of_delete)
    qed
    then show ?thesis using run acc by simp
  qed
qed


text \<open>An administrator, a writer and the superuser: the administrator can demote neither himself nor the superuser.\<close>

definition member :: "uuid \<Rightarrow> user_row" where
  "member name = \<lparr>u_id = name, u_email = name @ ''@x'', u_hash = None, u_verified = None, u_valid_after = 0, u_disabled = None\<rparr>"

definition grant_row :: "uuid \<Rightarrow> access_type \<Rightarrow> access_row" where
  "grant_row name ty = \<lparr>ac_id = name, ac_user = name, ac_storage = ''st'', ac_type = ty\<rparr>"

definition shared_storage :: server where
  "shared_storage = put_storages [\<lparr>so_id = ''st'', so_name = ''Photos'', so_primary = 1\<rparr>]
     (empty_server\<lparr>sv_acc := \<lparr>acc_users = [member ''ada'', member ''bob'', member ''root''],
        acc_access = [grant_row ''ada'' AA, grant_row ''bob'' AW, grant_row ''root'' AR], acc_storages = []\<rparr>\<rparr>)"


section \<open>What deleting a storage leaves\<close>

text \<open>Nothing of a storage is left in any table, and every chunk and copy left has its owner.\<close>

definition storage_gone :: "uuid \<Rightarrow> server \<Rightarrow> bool" where
  "storage_gone storage s \<longleftrightarrow>
     storage \<notin> so_id ` set (sv_storages s) \<and> storage \<notin> f_storage ` set (fd_files (sv_files s)) \<and>
     storage \<notin> sc_storage ` set (fd_channels (sv_files s)) \<and> storage \<notin> fe_storage ` set (fd_events (sv_files s)) \<and>
     Some storage \<notin> sw_storage ` set (sv_workers s) \<and> storage \<notin> ac_storage ` set (acc_access (sv_acc s)) \<and>
     storage \<notin> sl_storage ` set (sv_shares s)"

definition owners_ok :: "files_db \<Rightarrow> bool" where
  "owners_ok db \<longleftrightarrow> ck_file ` set (fd_chunks db) \<subseteq> f_id ` set (fd_files db) \<and>
     rp_chunk ` set (fd_replicas db) \<subseteq> ck_id ` set (fd_chunks db) \<and>
     rp_channel ` set (fd_replicas db) \<subseteq> sc_id ` set (fd_channels db)"

lemma owners_okI:
  assumes "\<And>k. k \<in> set (fd_chunks db) \<Longrightarrow> ck_file k \<in> f_id ` set (fd_files db)"
    and "\<And>r. r \<in> set (fd_replicas db) \<Longrightarrow> rp_chunk r \<in> ck_id ` set (fd_chunks db)"
    and "\<And>r. r \<in> set (fd_replicas db) \<Longrightarrow> rp_channel r \<in> sc_id ` set (fd_channels db)"
  shows "owners_ok db"
  unfolding owners_ok_def using assms by blast

lemma owners_okD:
  assumes "owners_ok db"
  shows "k \<in> set (fd_chunks db) \<Longrightarrow> ck_file k \<in> f_id ` set (fd_files db)"
    and "r \<in> set (fd_replicas db) \<Longrightarrow> rp_chunk r \<in> ck_id ` set (fd_chunks db)"
    and "r \<in> set (fd_replicas db) \<Longrightarrow> rp_channel r \<in> sc_id ` set (fd_channels db)"
  using assms unfolding owners_ok_def by blast+

lemma owners_delete_row:
  assumes "owners_ok db"
  shows "owners_ok (delete_row now i db)"
proof (cases "row_get f_id i (fd_files db)")
  case (Some old)
  let ?d = "delete_row now i db"
  let ?gone = "map ck_id (filter (\<lambda>c. ck_file c = i) (fd_chunks db))"
  have d: "fd_files ?d = filter (\<lambda>x. f_id x \<noteq> i) (fd_files db)" "fd_chunks ?d = filter (\<lambda>c. ck_file c \<noteq> i) (fd_chunks db)"
    "fd_replicas ?d = filter (\<lambda>r. rp_chunk r \<notin> set ?gone) (fd_replicas db)" "fd_channels ?d = fd_channels db"
    using Some by (simp_all add: delete_row_def Let_def row_del_def files_sync_event_delete_def)
  show ?thesis
  proof (rule owners_okI)
    fix k assume "k \<in> set (fd_chunks ?d)"
    then show "ck_file k \<in> f_id ` set (fd_files ?d)" using owners_okD(1) [OF assms, of k] d by auto
  next
    fix r assume r: "r \<in> set (fd_replicas ?d)"
    then obtain k where "k \<in> set (fd_chunks db)" "rp_chunk r = ck_id k" using owners_okD(2) [OF assms, of r] d by auto
    then show "rp_chunk r \<in> ck_id ` set (fd_chunks ?d)" using r d by (intro image_eqI [of _ _ k]) auto
  next
    fix r assume "r \<in> set (fd_replicas ?d)"
    then show "rp_channel r \<in> sc_id ` set (fd_channels ?d)" using owners_okD(3) [OF assms, of r] d by simp
  qed
qed (simp add: delete_row_def assms)

lemma owners_delete_rows: "owners_ok db \<Longrightarrow> owners_ok (delete_rows now is db)"
  unfolding delete_rows_def by (induction "is" arbitrary: db) (auto simp: owners_delete_row)

lemma owners_cascade: "owners_ok db \<Longrightarrow> owners_ok (cascade_files storage db)"
  by (rule owners_okI) (auto dest: owners_okD simp: cascade_files_def row_del_def Let_def)

lemma delete_files_of_files: "keys_ok f_id (fd_files db) \<Longrightarrow>
   fd_files (delete_files_of storage now db) = filter (\<lambda>f. f_storage f \<noteq> storage) (fd_files db)"
  using delete_rows_tables [of now "map f_id (filter (\<lambda>f. f_storage f = storage) (fd_files db))" db]
  by (auto simp: delete_files_of_def keys_ok_def distinct_map inj_on_def intro!: filter_cong)

lemma delete_storage_in_tx_tables:
  assumes "keys_ok f_id (fd_files (sv_files s))"
  shows "fd_files (sv_files (delete_storage_in_tx storage now s)) =
      filter (\<lambda>f. f_storage f \<noteq> storage) (fd_files (sv_files s))"
    and "fd_channels (sv_files (delete_storage_in_tx storage now s)) =
      filter (\<lambda>c. sc_storage c \<noteq> storage) (fd_channels (sv_files s))"
    and "acc_access (sv_acc (delete_storage_in_tx storage now s)) =
      filter (\<lambda>g. ac_storage g \<noteq> storage) (acc_access (sv_acc s))"
    and "sv_purges (delete_storage_in_tx storage now s) = sv_purges s"
    and "sv_jobs (delete_storage_in_tx storage now s) = sv_jobs s"
    and "storages_agree (delete_storage_in_tx storage now s)"
    and "storage_gone storage (delete_storage_in_tx storage now s)"
  using delete_files_of_files [OF assms] delete_rows_tables [of now _ "sv_files s"]
  by (auto simp: delete_storage_in_tx_def Let_def delete_storage_row_def put_storages_def cascade_files_def
      delete_workers_of_def delete_files_of_def row_del_def storages_agree_def storage_gone_def)

lemma owners_delete_storage:
  "owners_ok (sv_files s) \<Longrightarrow> owners_ok (sv_files (delete_storage_in_tx storage now s))"
proof -
  assume "owners_ok (sv_files s)"
  then have "owners_ok (cascade_files storage (delete_files_of storage now (sv_files s)))"
    unfolding delete_files_of_def by (intro owners_cascade owners_delete_rows)
  then show ?thesis
    by (simp add: owners_ok_def delete_storage_in_tx_def Let_def delete_storage_row_def put_storages_def delete_workers_of_def)
qed

definition purge_snapshot :: "uuid \<Rightarrow> server \<Rightarrow> (string \<times> (int \<times> int) list) option" where
  "purge_snapshot storage s =
     (let messages = remdups (sort_key fst (sort_key snd
            (list_telegram_messages_for_storage storage (sv_files s) @ list_derived_messages_for_storage storage (sv_files s))))
      in if messages = [] then None
         else map_option (\<lambda>w. (sw_token w, messages)) (worker_by_storage_id storage (sv_workers s)))"

lemma snapshot_run:
  "quiet env \<Longrightarrow> \<exists>k. snapshot_storage_telegram_purge env storage s = (Inr (purge_snapshot storage s), s\<lparr>sv_steps := k\<rparr>)"
  by (auto simp: snapshot_storage_telegram_purge_def purge_snapshot_def Let_def em_bind_def step_runs atomically_run em_return_def)

lemma new_purges_have:
  "(chat, message) \<in> set ms \<Longrightarrow>
     \<exists>p \<in> set (new_purges job now n ms). gm_job p = job \<and> gm_chat p = chat \<and> gm_message p = message \<and> gm_status p = purge_pending"
  by (induction job now n ms rule: new_purges.induct) auto

text \<open>A pending entry of the purge queue whose job still has the token of a bot.\<close>

definition queued :: "server \<Rightarrow> string \<Rightarrow> int \<times> int \<Rightarrow> bool" where
  "queued s token = (\<lambda>(chat, message). \<exists>p \<in> set (sv_purges s). \<exists>j \<in> set (sv_jobs s).
     gm_chat p = chat \<and> gm_message p = message \<and> gm_status p = purge_pending \<and>
     gj_id j = gm_job p \<and> gj_completed j = None \<and> gj_token j = token)"

lemma enqueue_queues:
  assumes "enqueue_in_tx job storage token messages now s = (Inr (), t)" and "x \<in> set messages"
  shows "queued t token x"
  using assms new_purges_have [of "fst x" "snd x" messages job now "sv_purge_seq s + 1"]
  by (cases x) (fastforce simp: enqueue_in_tx_def queued_def split: if_splits)

lemma enqueue_files:
  "enqueue_storage_telegram_purge_in_tx job storage snapshot now s = (Inr u, t) \<Longrightarrow>
     sv_files t = sv_files s \<and> sv_acc t = sv_acc s"
  by (auto simp: enqueue_storage_telegram_purge_in_tx_def enqueue_in_tx_def split: option.splits if_splits)

lemma storage_delete_run:
  assumes quiet: "quiet env" and run: "storage_service_delete env storage user s = (Inr u, t)"
  obtains job now u' v k where
    "enqueue_storage_telegram_purge_in_tx job storage (purge_snapshot storage s) now (s\<lparr>sv_steps := k\<rparr>) = (Inr u', v)"
    "t = (delete_storage_in_tx storage now v)\<lparr>sv_steps := Suc k\<rparr>"
proof -
  let ?s = "s\<lparr>sv_steps := Suc (sv_steps s)\<rparr>"
  obtain k where snap: "snapshot_storage_telegram_purge env storage ?s = (Inr (purge_snapshot storage ?s), ?s\<lparr>sv_steps := k\<rparr>)"
    using snapshot_run [OF quiet] by blast
  have same: "purge_snapshot storage ?s = purge_snapshot storage s" by (simp add: purge_snapshot_def)
  have "check_access (au_id user) storage AA (sv_acc s) = Inr ()"
    using run by (auto simp: storage_service_delete_def em_then_def em_bind_def require_access_run [OF quiet] split: sum.splits)
  then have "(case enqueue_storage_telegram_purge_in_tx (en_ids env k 0) storage (purge_snapshot storage s) (en_now env k)
        (s\<lparr>sv_steps := k\<rparr>) of (Inl e, _) \<Rightarrow> Inl e | (Inr _, v) \<Rightarrow> Inr ()) = Inr u \<and>
      t = (case enqueue_storage_telegram_purge_in_tx (en_ids env k 0) storage (purge_snapshot storage s) (en_now env k)
        (s\<lparr>sv_steps := k\<rparr>) of (Inl e, _) \<Rightarrow> s | (Inr _, v) \<Rightarrow> delete_storage_in_tx storage (en_now env k) v)\<lparr>sv_steps := Suc k\<rparr>"
    using run by (auto simp: storage_service_delete_def em_then_def em_bind_def require_access_run [OF quiet] snap same
        atomically_run [OF quiet] Let_def split: prod.splits sum.splits)
  then show thesis by (auto split: prod.splits sum.splits intro: that)
qed


lemma storage_delete_succeeds:
  assumes quiet: "quiet env" and "check_access (au_id user) storage AA (sv_acc s) = Inr ()"
    and "purge_snapshot storage s = Some (token, messages)" "3 * length messages \<le> max_variables"
  shows "storage_service_delete env storage user s = (Inr (), snd (storage_service_delete env storage user s))"
proof -
  let ?s = "s\<lparr>sv_steps := Suc (sv_steps s)\<rparr>"
  obtain k where snap: "snapshot_storage_telegram_purge env storage ?s = (Inr (purge_snapshot storage ?s), ?s\<lparr>sv_steps := k\<rparr>)"
    using snapshot_run [OF quiet] by blast
  have "purge_snapshot storage ?s = purge_snapshot storage s" by (simp add: purge_snapshot_def)
  note same = this [unfolded assms(3)]
  have "distinct messages" using assms(3) by (auto simp: purge_snapshot_def Let_def split: if_splits)
  then show ?thesis
    using assms(2,4) by (simp add: storage_service_delete_def em_then_def em_bind_def require_access_run [OF quiet] snap same
        atomically_run [OF quiet] Let_def enqueue_storage_telegram_purge_in_tx_def enqueue_in_tx_def)
qed

text \<open>A storage with one stored file, its bot, and a second storage beside it.\<close>

definition plain_file :: "uuid \<Rightarrow> uuid \<Rightarrow> string \<Rightarrow> file_row" where
  "plain_file i storage path = \<lparr>f_id = i, f_path = path, f_size = 1, f_storage = storage, f_uploaded = True,
     f_thumb = None, f_thumb_msg = None, f_preview = None, f_preview_msg = None, f_chunk_size = None, f_deleted = None,
     f_created = 0, f_updated = 0, f_source_created = None, f_source_mtime = None, f_hash = None\<rparr>"

definition two_storages :: server where
  "two_storages = put_storages [\<lparr>so_id = ''st'', so_name = ''Photos'', so_primary = 1\<rparr>, \<lparr>so_id = ''su'', so_name = ''Books'', so_primary = 1\<rparr>]
     (shared_storage\<lparr>
        sv_workers := [\<lparr>sw_id = ''w'', sw_name = ''bot'', sw_user = ''ada'', sw_token = ''1:t'', sw_storage = Some ''st''\<rparr>,
                       \<lparr>sw_id = ''x'', sw_name = ''cot'', sw_user = ''bob'', sw_token = ''2:t'', sw_storage = Some ''su''\<rparr>],
        sv_files := \<lparr>fd_files = [plain_file ''f'' ''st'' ''a.jpg'', plain_file ''g'' ''su'' ''b.pdf''],
          fd_events = [], fd_seq = 0, fd_chunks = [\<lparr>ck_id = ''k'', ck_file = ''f'', ck_position = 0\<rparr>],
          fd_replicas = [new_uploaded ''r'' ''k'' ''c'' ''tg'' 7],
          fd_channels = [active_channel ''c'' ''st'' 1 70 ''one'', active_channel ''d'' ''st'' 2 71 ''two''], fd_storages = []\<rparr>\<rparr>)"


section \<open>A bot that cannot be replaced\<close>

lemma delete_channel_tables [simp]:
  "fd_channels (delete_channel i db) = filter (\<lambda>c. sc_id c \<noteq> i) (fd_channels db)"
  "fd_replicas (delete_channel i db) = filter (\<lambda>r. rp_channel r \<noteq> i) (fd_replicas db)"
  by (simp_all add: delete_channel_def row_del_def)

lemma drop_channels_run:
  "quiet env \<Longrightarrow> \<exists>k. drop_channels env cs s =
     (Inr (), s\<lparr>sv_files := fold (\<lambda>c. delete_channel (sc_id c)) cs (sv_files s), sv_steps := k\<rparr>)"
proof (induction cs arbitrary: s)
  case (Cons c cs)
  from Cons.IH [OF Cons.prems, of "s\<lparr>sv_files := delete_channel (sc_id c) (sv_files s), sv_steps := Suc (sv_steps s)\<rparr>"]
  show ?case by (simp add: em_then_def em_bind_def db_run_run [OF Cons.prems])
next
  case Nil
  show ?case by (intro exI [of _ "sv_steps s"]) (simp add: em_return_def)
qed

lemma dropped_channels:
  "fd_channels (fold (\<lambda>c. delete_channel (sc_id c)) cs db) = filter (\<lambda>c. sc_id c \<notin> sc_id ` set cs) (fd_channels db)"
  "fd_replicas (fold (\<lambda>c. delete_channel (sc_id c)) cs db) = filter (\<lambda>r. rp_channel r \<notin> sc_id ` set cs) (fd_replicas db)"
  by (induction cs arbitrary: db) (auto intro: filter_cong)

lemma drop_all_channels_run:
  assumes "quiet env"
  shows "\<exists>k. drop_all_channels env storage s =
     (Inr (), (set_primary_position storage 1 (s\<lparr>
        sv_files := fold (\<lambda>c. delete_channel (sc_id c)) (list_by_storage storage (sv_files s)) (sv_files s)\<rparr>))\<lparr>sv_steps := k\<rparr>)"
proof -
  obtain k where "drop_channels env (list_by_storage storage (sv_files s)) (s\<lparr>sv_steps := Suc (sv_steps s)\<rparr>) =
      (Inr (), s\<lparr>sv_files := fold (\<lambda>c. delete_channel (sc_id c)) (list_by_storage storage (sv_files s)) (sv_files s), sv_steps := k\<rparr>)"
    using drop_channels_run [OF assms, of "list_by_storage storage (sv_files s)" "s\<lparr>sv_steps := Suc (sv_steps s)\<rparr>"] by auto
  then show ?thesis
    by (intro exI [of _ "Suc k"]) (simp add: drop_all_channels_def em_then_def em_bind_def db_read_run [OF assms] atomically_run [OF assms]
        set_primary_position_def set_storage_def)
qed

lemma name_for_run:
  "quiet env \<Longrightarrow> \<exists>n k. name_for env name user keep storage s = (Inr n, s\<lparr>sv_steps := k\<rparr>)"
  by (auto simp: name_for_def worker_named_def em_bind_def atomically_run em_return_def split: sum.splits)

lemma worker_of_storage_in: "worker_by_storage_id storage ws = Some w \<Longrightarrow> w \<in> set ws"
proof -
  assume "worker_by_storage_id storage ws = Some w"
  then have "w \<in> set (sort_key sw_name (filter (\<lambda>w. sw_storage w = Some storage) ws))"
    by (auto simp: worker_by_storage_id_def simp del: set_sort split: list.splits)
  then show ?thesis by simp
qed

lemma bind_bot_conflict:
  assumes quiet: "quiet env" and "worker_by_storage_id storage (sv_workers s) = Some w"
    and taken: "x \<in> set (sv_workers s)" "sw_id x \<noteq> sw_id w" "sw_token x = token"
  shows "\<exists>k. bind_bot env storage token name user s = (Inl StorageWorkerTokenConflict, s\<lparr>sv_steps := k\<rparr>)"
proof -
  obtain n k where "name_for env name (au_id user) (Some (sw_id w)) storage (s\<lparr>sv_steps := Suc (sv_steps s)\<rparr>) = (Inr n, s\<lparr>sv_steps := k\<rparr>)"
    using name_for_run [OF quiet, of name "au_id user" "Some (sw_id w)" storage "s\<lparr>sv_steps := Suc (sv_steps s)\<rparr>"] by auto
  moreover have "list_ex (\<lambda>y. sw_id y \<noteq> sw_id w \<and> sw_token y = token) (sv_workers s)"
    using taken by (auto simp: list_ex_iff)
  moreover have "row_get sw_id (sw_id w) (sv_workers s) \<noteq> None"
    using worker_of_storage_in [OF assms(2)] by (auto simp: row_get_None_iff)
  ultimately show ?thesis
    using assms(2) by (intro exI [of _ "Suc k"]) (auto simp: bind_bot_def bot_of_storage_def em_bind_def atomically_run [OF quiet] update_credentials_def)
qed

text \<open>
  A bot that is refused costs the storage its channels: when the new token belongs to another
  worker, a confirmed replacement answers with the conflict, after every channel of the storage
  has been removed and with them every copy of a chunk that lay there.
\<close>

theorem refused_bot_drops_channels:
  assumes quiet: "quiet env" and "check_access (au_id user) storage AA (sv_acc s) = Inr ()"
    and "storage_by_id storage s = Inr row"
    and "CHR '':'' \<in> set (trim token)" and "\<And>n. en_get_me env n (trim token) = Inr owner"
    and "worker_by_storage_id storage (sv_workers s) = Some w" "sw_token w \<noteq> trim token"
    and "x \<in> set (sv_workers s)" "sw_id x \<noteq> sw_id w" "sw_token x = trim token"
  shows "\<exists>t. set_bot env storage token True user s = (Inl StorageWorkerTokenConflict, t) \<and>
     list_by_storage storage (sv_files t) = [] \<and>
     (\<forall>r \<in> set (fd_replicas (sv_files t)). rp_channel r \<notin> sc_id ` set (list_by_storage storage (sv_files s)))"
proof -
  have known: "trim token \<noteq> []" "\<not> (trim token = [] \<or> CHR '':'' \<notin> set (trim token))" using assms(4) by auto
  obtain bot_id username where owner: "owner = (bot_id, username)" by (cases owner)
  let ?n = "if trim username = [] then ''bot_'' @ show_int bot_id else username"
  let ?s = "\<lambda>k. s\<lparr>sv_steps := k\<rparr>"
  let ?gone = "list_by_storage storage (sv_files s)"
  let ?db = "fold (\<lambda>c. delete_channel (sc_id c)) ?gone (sv_files s)"
  let ?t = "\<lambda>k. (set_primary_position storage 1 (s\<lparr>sv_files := ?db\<rparr>))\<lparr>sv_steps := k\<rparr>"
  have drop: "\<exists>k. drop_all_channels env storage (?s j) = (Inr (), ?t k)" for j
    using drop_all_channels_run [OF quiet, of storage "?s j"] by (simp add: set_primary_position_def set_storage_def)
  have bind: "\<exists>k'. bind_bot env storage (trim token) ?n user (?t k) = (Inl StorageWorkerTokenConflict, ?t k')" for k
    using bind_bot_conflict [OF quiet, of storage "?t k" w x "trim token" ?n user] assms(6,8-10)
    by (simp add: set_primary_position_def set_storage_def)
  obtain j k k' where j: "j = Suc (Suc (Suc (Suc (Suc (sv_steps s)))))"
    and d: "drop_all_channels env storage (?s j) = (Inr (), ?t k)"
    and b: "bind_bot env storage (trim token) ?n user (?t k) = (Inl StorageWorkerTokenConflict, ?t k')"
    using drop bind by metis
  have by_id: "storage_by_id storage (?s i) = Inr row" for i using assms(3) by (simp add: storage_by_id_def)
  have "set_bot env storage token True user s = (Inl StorageWorkerTokenConflict, ?t k')"
    using known(2) assms(2,5,6,7) d b by (simp add: set_bot_def Let_def em_then_def em_bind_def require_access_run [OF quiet]
        storage_row_of_def bot_of_storage_def atomically_run [OF quiet] by_id remote_def owner em_when_def j)
  moreover have "filter (\<lambda>c. sc_storage c = storage) (fd_channels ?db) = []"
    unfolding dropped_channels filter_filter filter_empty_conv by (auto simp: list_by_storage_def)
  then have "list_by_storage storage ?db = []" by (simp add: list_by_storage_def)
  ultimately show ?thesis
    by (intro exI [of _ "?t k'"]) (auto simp: dropped_channels set_primary_position_def set_storage_def)
qed

text \<open>Ada asks for the bot that Bob has registered.\<close>

definition ada_env :: server_env where
  "ada_env = quiet_env\<lparr>en_get_me := (\<lambda>n t. Inr (2, ''cot''))\<rparr>"

theorem refused_bot_drops_channels_witness:
  "\<exists>t. set_bot ada_env ''st'' ''2:t'' True (new_auth_user ''ada'' ''ada@x'') two_storages = (Inl StorageWorkerTokenConflict, t) \<and>
     list_by_storage ''st'' (sv_files t) = [] \<and> length (list_by_storage ''st'' (sv_files two_storages)) = 2"
proof -
  have "quiet ada_env" by (simp add: quiet_def ada_env_def quiet_env_def)
  moreover have "check_access (au_id (new_auth_user ''ada'' ''ada@x'')) ''st'' AA (sv_acc two_storages) = Inr ()"
    and "storage_by_id ''st'' two_storages = Inr \<lparr>so_id = ''st'', so_name = ''Photos'', so_primary = 1\<rparr>"
    and "CHR '':'' \<in> set (trim ''2:t'')" "trim ''2:t'' = ''2:t''"
    and "worker_by_storage_id ''st'' (sv_workers two_storages) =
       Some \<lparr>sw_id = ''w'', sw_name = ''bot'', sw_user = ''ada'', sw_token = ''1:t'', sw_storage = Some ''st''\<rparr>"
    and "length (list_by_storage ''st'' (sv_files two_storages)) = 2"
    and "\<lparr>sw_id = ''x'', sw_name = ''cot'', sw_user = ''bob'', sw_token = ''2:t'', sw_storage = Some ''su''\<rparr> \<in> set (sv_workers two_storages)"
    by code_simp+
  moreover have "\<And>n. en_get_me ada_env n (trim ''2:t'') = Inr (2, ''cot'')" by (simp add: ada_env_def)
  ultimately show ?thesis
    using refused_bot_drops_channels [of ada_env "new_auth_user ''ada'' ''ada@x''" "''st''" two_storages _ "''2:t''" "(2, ''cot'')"]
    by fastforce
qed

section \<open>The primary channel\<close>

lemma index_of_Some: "index_of x xs = Some k \<Longrightarrow> k < length xs \<and> xs ! k = x"
  by (induction xs arbitrary: k) (auto split: if_splits)

lemma index_of_None: "index_of x xs = None \<longleftrightarrow> x \<notin> set xs"
  by (induction xs) auto

lemma next_active_position_in:
  assumes "next_active_position cs p = Some q"
  shows "q \<in> sc_position ` {c \<in> set cs. is_active c}"
proof -
  let ?a = "sort (map sc_position (filter is_active cs))"
  have ne: "?a \<noteq> []" using assms by (auto simp: next_active_position_def Let_def split: if_splits)
  have "q \<in> set ?a"
  proof (cases "index_of p ?a")
    case None
    then have "q = hd ?a" using assms ne by (simp add: next_active_position_def Let_def)
    then show ?thesis using ne by (metis hd_in_set)
  next
    case (Some k)
    then have "q = ?a ! ((k + 1) mod length ?a)" using assms ne by (simp add: next_active_position_def Let_def)
    then show ?thesis using ne by (metis length_greater_0_conv mod_less_divisor nth_mem)
  qed
  then show ?thesis by auto
qed

lemma next_active_position_None: "next_active_position cs p = None \<longleftrightarrow> (\<forall>c \<in> set cs. \<not> is_active c)"
proof -
  have "sort (map sc_position (filter is_active cs)) = [] \<longleftrightarrow> filter is_active cs = []"
    by (metis length_0_conv length_map length_sort)
  then show ?thesis by (auto simp: next_active_position_def Let_def filter_empty_conv split: option.splits)
qed

text \<open>Another active channel is preferred to the one that goes.\<close>

lemma next_active_position_other:
  assumes "next_active_position cs p = Some q" "distinct (map sc_position cs)"
    and "c \<in> set cs" "is_active c" "sc_position c \<noteq> p"
  shows "q \<noteq> p"
proof -
  let ?a = "sort (map sc_position (filter is_active cs))"
  have d: "distinct ?a" using assms(2) by (simp add: distinct_map_filter)
  have c: "sc_position c \<in> set ?a" using assms(3,4) by simp
  show ?thesis
  proof (cases "index_of p ?a")
    case None
    then have "p \<notin> set ?a" by (simp only: index_of_None not_False_eq_True)
    then show ?thesis using next_active_position_in [OF assms(1)] by auto
  next
    case (Some k)
    note k = index_of_Some [OF Some]
    obtain j where j: "j < length ?a" "?a ! j = sc_position c" using c by (metis in_set_conv_nth)
    then have "j \<noteq> k" using k assms(5) by auto
    then have "(k + 1) mod length ?a \<noteq> k" using j(1) k
      by (metis Suc_eq_plus1 Suc_lessI less_antisym mod_less mod_self n_not_Suc_n not_less_eq less_Suc0)
    moreover have "(k + 1) mod length ?a < length ?a" using k by (intro mod_less_divisor) linarith
    ultimately have "?a ! ((k + 1) mod length ?a) \<noteq> p" using d k by (metis nth_eq_iff_index_eq)
    moreover have "q = ?a ! ((k + 1) mod length ?a)"
      using assms(1) Some c by (auto simp: next_active_position_def Let_def split: if_splits)
    ultimately show ?thesis by simp
  qed
qed

text \<open>The primary position of a storage is that of one of its active channels.\<close>

definition primary_active :: "uuid \<Rightarrow> server \<Rightarrow> bool" where
  "primary_active storage s \<longleftrightarrow> (\<exists>r \<in> set (sv_storages s). \<exists>c \<in> set (fd_channels (sv_files s)).
     so_id r = storage \<and> sc_storage c = storage \<and> is_active c \<and> so_primary r = sc_position c)"

definition slots_ok :: "files_db \<Rightarrow> bool" where
  "slots_ok db \<longleftrightarrow> distinct (map sc_id (fd_channels db)) \<and>
     distinct (map (\<lambda>c. (sc_storage c, sc_position c)) (fd_channels db))"

lemma slot_unique:
  assumes "slots_ok db" "c \<in> set (fd_channels db)" "d \<in> set (fd_channels db)"
  shows "sc_storage c = sc_storage d \<Longrightarrow> sc_position c = sc_position d \<Longrightarrow> c = d" "sc_id c = sc_id d \<Longrightarrow> c = d"
  using assms unfolding slots_ok_def distinct_map inj_on_def by auto

lemma storage_unique: "keys_ok so_id rows \<Longrightarrow> r \<in> set rows \<Longrightarrow> q \<in> set rows \<Longrightarrow> so_id r = so_id q \<Longrightarrow> r = q"
  unfolding keys_ok_def distinct_map inj_on_def by auto

lemma slots_positions: "slots_ok db \<Longrightarrow> distinct (map sc_position (list_by_storage storage db))"
  unfolding list_by_storage_def distinct_map distinct_sort set_sort slots_ok_def by (auto simp: inj_on_def distinct_map)

lemma promote_next_run:
  assumes "quiet env"
  shows "\<exists>k. promote_next env storage p s = (Inr (),
     (case next_active_position (list_by_storage storage (sv_files s)) p of
        None \<Rightarrow> s | Some q \<Rightarrow> set_primary_position storage q s)\<lparr>sv_steps := k\<rparr>)"
  by (auto simp: promote_next_def em_bind_def db_read_run [OF assms] atomically_run [OF assms] em_return_def
      set_primary_position_def set_storage_def split: option.splits)

lemma primary_active_steps [simp]: "primary_active st (s\<lparr>sv_steps := k\<rparr>) = primary_active st s"
  by (simp add: primary_active_def)

lemma primary_after_promotion:
  assumes "r \<in> set (sv_storages s)" "so_id r = storage"
    and "c \<in> set (fd_channels (sv_files s))" "sc_storage c = storage" "is_active c" "sc_position c = q"
  shows "primary_active storage (set_primary_position storage q s)"
proof -
  have "r\<lparr>so_primary := q\<rparr> \<in> set (sv_storages (set_primary_position storage q s))"
    using assms(1,2) by (auto simp: set_primary_position_def set_storage_def image_iff intro!: bexI [of _ r])
  then show ?thesis
    using assms unfolding primary_active_def
    by (intro bexI [of _ "r\<lparr>so_primary := q\<rparr>"] bexI [of _ c]) (simp_all add: set_primary_position_def set_storage_def)
qed

lemma primary_after_delete:
  assumes "primary_active storage s" "keys_ok so_id (sv_storages s)"
    and "row_get so_id storage (sv_storages s) = Some r" "so_primary r \<noteq> sc_position c" "sc_id c = i" "c \<in> set (fd_channels (sv_files s))"
    and "slots_ok (sv_files s)"
  shows "primary_active storage (s\<lparr>sv_files := delete_channel i (sv_files s)\<rparr>)"
proof -
  obtain r' d where r': "r' \<in> set (sv_storages s)" "so_id r' = storage" and d: "d \<in> set (fd_channels (sv_files s))"
      "sc_storage d = storage" "is_active d" "so_primary r' = sc_position d"
    using assms(1) by (auto simp: primary_active_def)
  have "r' = r" using row_get_SomeD [OF assms(3)] storage_unique [OF assms(2)] r' by metis
  have "sc_id d \<noteq> i"
  proof
    assume "sc_id d = i"
    then have "c = d" using slot_unique(2) [OF assms(7,6) d(1)] assms(5) by simp
    then show False using d(4) \<open>r' = r\<close> assms(4) by simp
  qed
  then show ?thesis using r' d by (auto simp: primary_active_def)
qed

lemma list_by_storage_in: "c \<in> set (list_by_storage storage db) \<longleftrightarrow> c \<in> set (fd_channels db) \<and> sc_storage c = storage"
  by (simp add: list_by_storage_def)

lemma other_active:
  assumes "slots_ok (sv_files s)" "sc_storage c = storage" "c \<in> set (fd_channels (sv_files s))"
    and many: "is_active c \<longrightarrow> 1 < count_active storage (sv_files s)"
    and "primary_active storage s" "keys_ok so_id (sv_storages s)"
    and "row \<in> set (sv_storages s)" "so_id row = storage" "so_primary row = sc_position c"
  shows "\<exists>d \<in> set (list_by_storage storage (sv_files s)). is_active d \<and> sc_position d \<noteq> sc_position c"
proof -
  obtain r d where "r \<in> set (sv_storages s)" "so_id r = storage" "d \<in> set (fd_channels (sv_files s))"
      "sc_storage d = storage" "is_active d" "so_primary r = sc_position d"
    using assms(5) by (auto simp: primary_active_def)
  then have "is_active c"
    using storage_unique [OF assms(6), of r row] slot_unique(1) [OF assms(1,3), of d] assms(2,7-9) by metis
  let ?as = "filter (\<lambda>c. sc_storage c = storage \<and> is_active c) (fd_channels (sv_files s))"
  have "1 < length ?as" using many \<open>is_active c\<close> by (simp add: count_active_def)
  moreover have "distinct (map sc_id ?as)" using assms(1) by (simp add: slots_ok_def distinct_map_filter)
  ultimately have "1 < card (set ?as)" by (metis distinct_card distinct_map)
  then have "\<not> set ?as \<subseteq> {c}" by (metis card_mono finite.emptyI finite.insertI is_singletonI is_singleton_altdef leD)
  then obtain e where e: "e \<in> set (fd_channels (sv_files s))" "sc_storage e = storage" "is_active e" "e \<noteq> c" by auto
  then have "sc_position e \<noteq> sc_position c"
    using slot_unique(1) [OF assms(1,3), of e] assms(2) by metis
  then show ?thesis using e by (auto simp: list_by_storage_in)
qed

definition channel_in :: "uuid \<Rightarrow> uuid \<Rightarrow> files_db \<Rightarrow> channel_row sarca_result" where
  "channel_in i storage db = res_bind (get_channel i db) (\<lambda>c.
     if sc_storage c \<noteq> storage then Inl (DoesNotExist ''channel'') else Inr c)"

lemma ensure_channel_run:
  "quiet env \<Longrightarrow> ensure_channel_of_storage env storage i s = (channel_in i storage (sv_files s), s\<lparr>sv_steps := Suc (sv_steps s)\<rparr>)"
  by (simp add: ensure_channel_of_storage_def channel_in_def db_try_run)

lemma storage_row_run:
  "quiet env \<Longrightarrow> storage_row_of env i s = (storage_by_id i s, s\<lparr>sv_steps := Suc (sv_steps s)\<rparr>)"
  by (simp add: storage_row_of_def atomically_run)

lemma storage_by_id_steps [simp]: "storage_by_id i (s\<lparr>sv_steps := k\<rparr>) = storage_by_id i s"
  by (simp add: storage_by_id_def)

lemma removal_keeps_primary:
  assumes quiet: "quiet env" and slots: "slots_ok (sv_files s)" and keys: "keys_ok so_id (sv_storages s)"
    and primary: "primary_active storage s" and run: "remove_channel env storage i user s = (r, t)"
  shows "primary_active storage t"
proof -
  note ensure_channel_run = ensure_channel_run [OF quiet] and storage_row_run = storage_row_run [OF quiet]
  note runs = require_access_run [OF quiet] db_read_run [OF quiet] db_run_run [OF quiet]
    atomically_run [OF quiet]
  consider (refused) e where "check_access (au_id user) storage AA (sv_acc s) = Inl e"
    | (foreign) e where "check_access (au_id user) storage AA (sv_acc s) = Inr ()" "channel_in i storage (sv_files s) = Inl e"
    | (final) c where "check_access (au_id user) storage AA (sv_acc s) = Inr ()" "channel_in i storage (sv_files s) = Inr c"
        "is_active c" "count_active storage (sv_files s) \<le> 1"
    | (lost) c e where "check_access (au_id user) storage AA (sv_acc s) = Inr ()" "channel_in i storage (sv_files s) = Inr c"
        "is_active c \<longrightarrow> 1 < count_active storage (sv_files s)" "storage_by_id storage s = Inl e"
    | (removed) c row where "check_access (au_id user) storage AA (sv_acc s) = Inr ()" "channel_in i storage (sv_files s) = Inr c"
        "is_active c \<longrightarrow> 1 < count_active storage (sv_files s)" "storage_by_id storage s = Inr row"
    by (cases "check_access (au_id user) storage AA (sv_acc s)"; cases "channel_in i storage (sv_files s)";
        cases "storage_by_id storage s"; simp; meson not_le_imp_less)
  then show ?thesis
  proof cases
    case refused
    then show ?thesis using run primary by (simp add: remove_channel_def em_then_def em_bind_def runs) (metis primary_active_steps)
  next
    case foreign
    then show ?thesis using run primary by (simp add: remove_channel_def em_then_def em_bind_def runs ensure_channel_run) (metis primary_active_steps)
  next
    case final
    then show ?thesis using run primary
      by (simp add: remove_channel_def em_then_def em_bind_def runs ensure_channel_run em_throw_def) (metis primary_active_steps)
  next
    case lost
    then show ?thesis using run primary
      by (auto simp: remove_channel_def em_then_def em_bind_def runs ensure_channel_run em_return_def storage_row_run split: if_splits)
  next
    case removed
    have c: "c \<in> set (fd_channels (sv_files s))" "sc_id c = i" "sc_storage c = storage"
      using removed(2) by (auto simp: channel_in_def res_bind_def get_channel_def dest: row_get_SomeD split: option.splits sum.splits if_splits)
    obtain j where tail: "em_then (em_when (so_primary row = sc_position c) (promote_next env storage (sc_position c)))
          (db_run env (\<lambda>_ _ db. (Inr (), delete_channel i db))) (s\<lparr>sv_steps := j\<rparr>) = (r, t)"
      using run removed
      by (auto simp: remove_channel_def em_then_def em_bind_def runs ensure_channel_run em_return_def storage_row_run split: if_splits)
    have row: "row \<in> set (sv_storages s)" "so_id row = storage" "row_get so_id storage (sv_storages s) = Some row"
      using removed(4) by (auto simp: storage_by_id_def first_storage_def row_get_def find_Some_iff split: option.splits)
    show ?thesis
    proof (cases "so_primary row = sc_position c")
      case False
      then have "t = (s\<lparr>sv_steps := j\<rparr>)\<lparr>sv_files := delete_channel i (sv_files s), sv_steps := Suc j\<rparr>"
        using tail by (auto simp: em_then_def em_bind_def em_when_def em_return_def runs)
      then show ?thesis
        using primary_after_delete [OF primary keys row(3) False c(2,1) slots] by (simp add: primary_active_def)
    next
      case True
      obtain d where d: "d \<in> set (list_by_storage storage (sv_files s))" "is_active d" "sc_position d \<noteq> sc_position c"
        using other_active [OF slots c(3,1) removed(3) primary keys row(1,2) True] by blast
      then obtain q where q: "next_active_position (list_by_storage storage (sv_files s)) (sc_position c) = Some q"
        using next_active_position_None by (metis not_None_eq)
      obtain e where e: "e \<in> set (fd_channels (sv_files s))" "sc_storage e = storage" "is_active e" "sc_position e = q"
        using next_active_position_in [OF q] by (auto simp: list_by_storage_in)
      have other: "q \<noteq> sc_position c" by (rule next_active_position_other [OF q slots_positions [OF slots] d])
      have kept: "sc_id e \<noteq> i"
      proof
        assume "sc_id e = i"
        then have "c = e" using slot_unique(2) [OF slots c(1) e(1)] c(2) by simp
        then show False using e(4) other by simp
      qed
      obtain k where "promote_next env storage (sc_position c) (s\<lparr>sv_steps := j\<rparr>) = (Inr (), (set_primary_position storage q s)\<lparr>sv_steps := k\<rparr>)"
        using promote_next_run [OF quiet, of storage "sc_position c" "s\<lparr>sv_steps := j\<rparr>"] q
        by (auto simp: set_primary_position_def set_storage_def)
      then have t: "t = (set_primary_position storage q s)\<lparr>sv_files := delete_channel i (sv_files s), sv_steps := Suc k\<rparr>"
        using tail True by (auto simp: em_then_def em_bind_def em_when_def runs set_primary_position_def set_storage_def)
      have "primary_active storage (set_primary_position storage q (s\<lparr>sv_files := delete_channel i (sv_files s)\<rparr>))"
        by (rule primary_after_promotion [of row _ _ e]) (use row e kept in auto)
      then show ?thesis by (simp add: t primary_active_def set_primary_position_def set_storage_def)
    qed
  qed
qed

text \<open>A storage whose primary channel is an active one, or that has no active channel.\<close>

definition primary_good :: "uuid \<Rightarrow> server \<Rightarrow> bool" where
  "primary_good storage s \<longleftrightarrow> primary_active storage s \<or>
     \<not> list_ex (\<lambda>c. sc_storage c = storage \<and> is_active c) (fd_channels (sv_files s))"

lemma primary_good_steps [simp]: "primary_good st (s\<lparr>sv_steps := k\<rparr>) = primary_good st s"
  by (simp add: primary_good_def)

lemma active_marked:
  "c \<in> set (fd_channels (mark_dead i db)) \<and> is_active c \<longleftrightarrow> c \<in> set (fd_channels db) \<and> is_active c \<and> sc_id c \<noteq> i"
  by (auto simp: mark_dead_def set_channel_def is_active_def status_defs)

lemma primary_good_marked:
  assumes "primary_good st s" "slots_ok (sv_files s)" "keys_ok so_id (sv_storages s)"
    and c: "c \<in> set (fd_channels (sv_files s))"
    and "sc_storage c = st \<Longrightarrow> row_get so_id st (sv_storages s) = Some r \<Longrightarrow> so_primary r \<noteq> sc_position c"
    and "row_get so_id st (sv_storages s) = Some r \<or> row_get so_id st (sv_storages s) = None"
  shows "primary_good st (s\<lparr>sv_files := mark_dead (sc_id c) (sv_files s)\<rparr>)"
proof (cases "primary_active st s")
  case True
  then obtain r' d where r': "r' \<in> set (sv_storages s)" "so_id r' = st" and d: "d \<in> set (fd_channels (sv_files s))"
      "sc_storage d = st" "is_active d" "so_primary r' = sc_position d"
    by (auto simp: primary_active_def)
  then have "row_get so_id st (sv_storages s) = Some r'" using row_get_Some_iff [OF assms(3)] by simp
  then have "r' = r" using assms(6) by simp
  have "sc_id d \<noteq> sc_id c"
  proof
    assume "sc_id d = sc_id c"
    then have "d = c" using slot_unique(2) [OF assms(2) d(1) c] by simp
    then show False using assms(5) d r' \<open>r' = r\<close> \<open>row_get so_id st (sv_storages s) = Some r'\<close> by simp
  qed
  then have "d \<in> set (fd_channels (mark_dead (sc_id c) (sv_files s)))" using d active_marked [of d "sc_id c" "sv_files s"] by simp
  then have "primary_active st (s\<lparr>sv_files := mark_dead (sc_id c) (sv_files s)\<rparr>)"
    unfolding primary_active_def using r' d by (intro bexI [of _ r'] bexI [of _ d]) simp_all
  then show ?thesis by (simp add: primary_good_def)
next
  case False
  then show ?thesis
    using assms(1) active_marked [of _ "sc_id c" "sv_files s"] by (auto simp: primary_good_def list_ex_iff)
qed

definition same_slots :: "files_db \<Rightarrow> files_db \<Rightarrow> bool" where
  "same_slots db db' \<longleftrightarrow> map (\<lambda>c. (sc_id c, sc_storage c, sc_position c)) (fd_channels db') =
     map (\<lambda>c. (sc_id c, sc_storage c, sc_position c)) (fd_channels db)"

lemma same_slots_marked: "same_slots db (mark_dead i db)"
  by (simp add: same_slots_def mark_dead_def set_channel_def)

lemma slots_ok_same: "same_slots db db' \<Longrightarrow> slots_ok db \<Longrightarrow> slots_ok db'"
proof -
  assume same: "same_slots db db'" and ok: "slots_ok db"
  have "map sc_id (fd_channels db') = map sc_id (fd_channels db)"
    using arg_cong [OF same [unfolded same_slots_def], of "map fst"] by (simp add: comp_def)
  moreover have "map (\<lambda>c. (sc_storage c, sc_position c)) (fd_channels db') = map (\<lambda>c. (sc_storage c, sc_position c)) (fd_channels db)"
    using arg_cong [OF same [unfolded same_slots_def], of "map snd"] by (simp add: comp_def)
  ultimately show ?thesis using ok by (simp add: slots_ok_def)
qed

lemma same_slots_in:
  assumes "same_slots db db'" "c \<in> set (fd_channels db)"
  obtains d where "d \<in> set (fd_channels db')" "sc_id d = sc_id c" "sc_storage d = sc_storage c" "sc_position d = sc_position c"
proof -
  have "(sc_id c, sc_storage c, sc_position c) \<in> set (map (\<lambda>c. (sc_id c, sc_storage c, sc_position c)) (fd_channels db'))"
    using assms unfolding same_slots_def by (metis (mono_tags, lifting) image_eqI set_map)
  then show thesis using that by auto
qed

text \<open>What the probe of a channel does to the tables.\<close>

lemma probe_run:
  assumes quiet: "quiet env" and run: "channel_is_probed env c s = (r, t)"
  obtains (alive) k where "t = s\<lparr>sv_steps := k\<rparr>"
    | (marked) k where "t = s\<lparr>sv_files := mark_dead (sc_id c) (sv_files s), sv_steps := k\<rparr>"
        "\<And>row. row_get so_id (sc_storage c) (sv_storages s) = Some row \<Longrightarrow> so_primary row = sc_position c \<Longrightarrow>
           next_active_position (list_by_storage (sc_storage c) (mark_dead (sc_id c) (sv_files s))) (sc_position c) = None"
    | (promoted) k row q where "row_get so_id (sc_storage c) (sv_storages s) = Some row"
        "next_active_position (list_by_storage (sc_storage c) (mark_dead (sc_id c) (sv_files s))) (sc_position c) = Some q"
        "t = (set_primary_position (sc_storage c) q (s\<lparr>sv_files := mark_dead (sc_id c) (sv_files s)\<rparr>))\<lparr>sv_steps := k\<rparr>"
proof -
  let ?s = "s\<lparr>sv_steps := Suc (sv_steps s)\<rparr>"
  let ?db = "mark_dead (sc_id c) (sv_files s)"
  let ?m = "s\<lparr>sv_files := ?db, sv_steps := Suc (Suc (Suc (sv_steps s)))\<rparr>"
  have by_id: "storage_by_id i u = (case row_get so_id i (sv_storages u) of None \<Rightarrow> Inl (not_found ''storage'') | Some r \<Rightarrow> Inr r)" for i u
    by (simp add: storage_by_id_def first_storage_def row_get_def)
  note runs = atomically_run [OF quiet] db_run_run [OF quiet] storage_row_run [OF quiet] remote_run by_id
  show thesis
  proof (cases "\<exists>e. en_get_chat env (sv_steps s) (sc_chat c) (sc_storage c) = Inl e \<and> is_chat_dead_error (en_lower env) e")
    case False
    then have "t = ?s" using run
      by (auto simp: channel_is_probed_def em_bind_def em_attempt_def runs em_return_def split: sum.splits if_splits)
    then show thesis by (rule alive)
  next
    case True
    show thesis
    proof (cases "row_get so_id (sc_storage c) (sv_storages s)")
      case None
      then have "t = ?m" using run True
        by (auto simp: channel_is_probed_def em_bind_def em_then_def em_attempt_def runs em_return_def)
      then show thesis using None by (intro marked) auto
    next
      case (Some row)
      have id: "so_id row = sc_storage c" using row_get_SomeD [OF Some] by simp
      show thesis
      proof (cases "so_primary row = sc_position c")
        case False
        then have "t = ?m" using run True Some
          by (auto simp: channel_is_probed_def em_bind_def em_then_def em_attempt_def runs em_return_def)
        then show thesis using Some False by (intro marked) auto
      next
        case True: True
        have "promote_next env (sc_storage c) (sc_position c) ?m = (r, t)"
          using run \<open>\<exists>e. _ e\<close> Some True id
          by (auto simp: channel_is_probed_def em_bind_def em_then_def em_attempt_def runs em_return_def)
        then obtain k where t: "t = (case next_active_position (list_by_storage (sc_storage c) ?db) (sc_position c) of
            None \<Rightarrow> ?m | Some q \<Rightarrow> set_primary_position (sc_storage c) q ?m)\<lparr>sv_steps := k\<rparr>"
          using promote_next_run [OF quiet, of "sc_storage c" "sc_position c" ?m] by auto
        show thesis
        proof (cases "next_active_position (list_by_storage (sc_storage c) ?db) (sc_position c)")
          case None
          then show thesis using t by (intro marked) auto
        next
          case (Some q)
          then show thesis using t \<open>row_get so_id (sc_storage c) (sv_storages s) = Some row\<close>
            by (intro promoted) (auto simp: set_primary_position_def set_storage_def)
        qed
      qed
    qed
  qed
qed

lemma primary_good_other:
  assumes "primary_good st s" "st \<noteq> other"
  shows "primary_good st (set_primary_position other q s)"
proof (cases "primary_active st s")
  case True
  then obtain r d where r: "r \<in> set (sv_storages s)" "so_id r = st" and d: "d \<in> set (fd_channels (sv_files s))"
      "sc_storage d = st" "is_active d" "so_primary r = sc_position d"
    by (auto simp: primary_active_def)
  then have "r \<in> set (sv_storages (set_primary_position other q s))"
    using assms(2) by (auto simp: set_primary_position_def set_storage_def image_iff intro!: bexI [of _ r])
  then have "primary_active st (set_primary_position other q s)"
    using r(2) d unfolding primary_active_def
    by (intro bexI [of _ r] bexI [of _ d]) (simp_all add: set_primary_position_def set_storage_def)
  then show ?thesis by (simp add: primary_good_def)
next
  case False
  then show ?thesis using assms(1) by (auto simp: primary_good_def set_primary_position_def set_storage_def)
qed

lemma keys_set_primary: "keys_ok so_id (sv_storages (set_primary_position i q s)) = keys_ok so_id (sv_storages s)"
  by (simp add: keys_ok_def set_primary_position_def set_storage_def comp_def if_distrib cong: if_cong)

lemma probe_keeps_primary:
  assumes quiet: "quiet env" and run: "channel_is_probed env c s = (r, t)"
    and slots: "slots_ok (sv_files s)" and keys: "keys_ok so_id (sv_storages s)" and good: "\<And>st. primary_good st s"
    and now: "d \<in> set (fd_channels (sv_files s))" "sc_id d = sc_id c" "sc_storage d = sc_storage c" "sc_position d = sc_position c"
  shows "primary_good st t \<and> same_slots (sv_files s) (sv_files t) \<and> keys_ok so_id (sv_storages t)"
  using quiet run
proof (cases rule: probe_run)
  case (alive k)
  then show ?thesis using good keys by (simp add: same_slots_def)
next
  case (marked k)
  let ?m = "s\<lparr>sv_files := mark_dead (sc_id c) (sv_files s)\<rparr>"
  have "primary_good st ?m"
  proof (cases "\<exists>row. st = sc_storage c \<and> row_get so_id st (sv_storages s) = Some row \<and> so_primary row = sc_position c")
    case True
    then have "next_active_position (list_by_storage st (sv_files ?m)) (sc_position c) = None" using marked(2) by auto
    then show ?thesis by (auto simp: next_active_position_None primary_good_def list_ex_iff list_by_storage_in)
  next
    case False
    show ?thesis
    proof (cases "row_get so_id st (sv_storages s)")
      case None
      show ?thesis using primary_good_marked [OF good slots keys now(1), of st undefined] None now(2) by simp
    next
      case (Some row)
      show ?thesis using primary_good_marked [OF good slots keys now(1), of st row] Some now(2-4) False by simp
    qed
  qed
  then show ?thesis using keys by (simp add: marked(1) primary_good_def primary_active_def same_slots_marked)
next
  case (promoted k row q)
  let ?m = "s\<lparr>sv_files := mark_dead (sc_id c) (sv_files s)\<rparr>"
  have row: "row \<in> set (sv_storages s)" "so_id row = sc_storage c" using row_get_SomeD [OF promoted(1)] by auto
  have "primary_good st (set_primary_position (sc_storage c) q ?m)"
  proof (cases "st = sc_storage c")
    case True
    obtain e where "e \<in> set (fd_channels (sv_files ?m))" "sc_storage e = st" "is_active e" "sc_position e = q"
      using next_active_position_in [OF promoted(2)] True by (auto simp: list_by_storage_in)
    then have "primary_active st (set_primary_position (sc_storage c) q ?m)"
      using primary_after_promotion [of row ?m st e q] row True by simp
    then show ?thesis by (simp add: primary_good_def)
  next
    case False
    have "primary_good st ?m"
    proof (cases "row_get so_id st (sv_storages s)")
      case None
      show ?thesis using primary_good_marked [OF good slots keys now(1), of st undefined] None now(2) by simp
    next
      case (Some row)
      show ?thesis using primary_good_marked [OF good slots keys now(1), of st row] Some now(2,3) False by simp
    qed
    then show ?thesis using False by (rule primary_good_other)
  qed
  moreover have "sv_files t = mark_dead (sc_id c) (sv_files s)" "keys_ok so_id (sv_storages t)"
    using keys by (simp_all add: promoted(3) keys_set_primary) (simp add: set_primary_position_def set_storage_def)
  ultimately show ?thesis by (simp add: promoted(3) same_slots_marked)
qed

lemma same_slots_trans: "same_slots a b \<Longrightarrow> same_slots b c \<Longrightarrow> same_slots a c"
  by (simp add: same_slots_def)

lemma probes_keep_primary:
  assumes "quiet env" and "em_each (channel_is_probed env) cs s = (r, t)"
    and "slots_ok (sv_files s)" "keys_ok so_id (sv_storages s)" "\<And>st. primary_good st s"
    and "set cs \<subseteq> set (fd_channels db)" "same_slots db (sv_files s)"
  shows "primary_good st t"
  using assms(2-7)
proof (induction cs arbitrary: s)
  case (Cons c cs)
  obtain d where d: "d \<in> set (fd_channels (sv_files s))" "sc_id d = sc_id c" "sc_storage d = sc_storage c" "sc_position d = sc_position c"
    using same_slots_in [OF Cons.prems(6), of c] Cons.prems(5) by auto
  obtain r' u where probe: "channel_is_probed env c s = (r', u)" by fastforce
  note kept = probe_keeps_primary [OF assms(1) probe Cons.prems(2,3,4) d]
  show ?case
  proof (cases r')
    case (Inl e)
    then show ?thesis using kept Cons.prems(1) by (simp add: em_then_def em_bind_def probe)
  next
    case (Inr x)
    then have "em_each (channel_is_probed env) cs u = (r, t)" using Cons.prems(1) by (simp add: em_then_def em_bind_def probe)
    then show ?thesis
      using Cons.IH [of u] kept Cons.prems(2,5) slots_ok_same same_slots_trans [OF Cons.prems(6)] by auto
  qed
qed (simp add: em_return_def)

text \<open>
  The primary channel stays an active one: removing a channel of a storage whose primary
  channel is active leaves it an active primary, whatever the outcome of the removal, and a round
  of the health check leaves every storage either with an active primary channel or with no
  active channel at all.
\<close>

theorem primary_channel_stays_active:
  assumes "quiet env" and "slots_ok (sv_files s)" and "keys_ok so_id (sv_storages s)"
  shows "(primary_active storage s \<longrightarrow> primary_active storage (snd (remove_channel env storage i user s))) \<and>
     ((\<forall>st. primary_good st s) \<longrightarrow> primary_good storage (snd (channel_health_run_once env s)))"
proof (intro conjI impI)
  assume "primary_active storage s"
  then show "primary_active storage (snd (remove_channel env storage i user s))"
    using removal_keeps_primary [OF assms] by (metis prod.collapse)
next
  assume good: "\<forall>st. primary_good st s"
  let ?s = "s\<lparr>sv_steps := Suc (sv_steps s)\<rparr>"
  obtain r t where run: "em_each (channel_is_probed env) (filter is_active (fd_channels (sv_files s))) ?s = (r, t)"
    by fastforce
  then have "snd (channel_health_run_once env s) = t"
    by (simp add: channel_health_run_once_def em_bind_def db_read_run [OF assms(1)])
  moreover have "primary_good storage t"
    by (rule probes_keep_primary [OF assms(1) run, where db = "sv_files s"])
       (use assms(2,3) good in \<open>auto simp: same_slots_def\<close>)
  ultimately show "primary_good storage (snd (channel_health_run_once env s))" by simp
qed

text \<open>Removing the primary channel promotes the other one; a dead one is demoted.\<close>

definition dead_env :: server_env where
  "dead_env = quiet_env\<lparr>en_get_chat := (\<lambda>n chat st. if chat = 70 then Inl (TelegramAPIError ''chat not found'') else Inr ''two'')\<rparr>"

theorem primary_channel_stays_active_witness:
  "primary_active ''st'' (snd (remove_channel dead_env ''st'' ''c'' (new_auth_user ''ada'' ''ada@x'') two_storages)) \<and>
   primary_good ''st'' (snd (channel_health_run_once dead_env two_storages)) \<and>
   map so_primary (sv_storages (snd (channel_health_run_once dead_env two_storages))) = [2, 1]"
proof -
  have q: "quiet dead_env" by (simp add: quiet_def dead_env_def quiet_env_def)
  have ok: "slots_ok (sv_files two_storages)" "keys_ok so_id (sv_storages two_storages)"
    "primary_active ''st'' two_storages" by code_simp+
  have channels: "c \<in> set (fd_channels (sv_files two_storages)) \<Longrightarrow> sc_storage c = ''st''" for c
    by (auto simp: two_storages_def put_storages_def active_channel_def)
  have good: "primary_good st two_storages" for st
  proof (cases "st = ''st''")
    case True
    then show ?thesis using ok(3) by (simp add: primary_good_def)
  next
    case False
    then show ?thesis using channels by (auto simp: primary_good_def list_ex_iff)
  qed
  have "map so_primary (sv_storages (snd (channel_health_run_once dead_env two_storages))) = [2, 1]" by code_simp
  then show ?thesis
    using primary_channel_stays_active [OF q ok(1,2), of "''st''" "''c''" "new_auth_user ''ada'' ''ada@x''"] ok(3) good by blast
qed

text \<open>
  The removal does not ask whether the channel holds the only copy of a chunk: here it does, and
  the file that is still listed as uploaded has no stored chunk any more.
\<close>

lemma removed_channel_loses_chunks:
  "let t = snd (remove_channel quiet_env ''st'' ''c'' (new_auth_user ''ada'' ''ada@x'') two_storages)
   in list_stored_chunk_positions ''f'' (sv_files two_storages) = [(0, ''k'')] \<and>
      list_stored_chunk_positions ''f'' (sv_files t) = [] \<and>
      get_by_id ''f'' (sv_files t) = Inr (plain_file ''f'' ''st'' ''a.jpg'')"
  by code_simp

end
