(* ===== verification/Downloads.thy ===== *)
theory Downloads
  imports Storages "HOL-Library.Sublist"
begin

text \<open>
  Reading files back (src/sarca/src/routers/files.rs: from \<open>file_basename\<close> to \<open>download_folder\<close>, and
  the functions below the router). A response has its status, its headers in the order they are
  set, and its body: the bytes the stream yields and the error that cuts it off, if one does. The
  prefetching of further chunks only warms the cache and is left out, as are the semaphores and
  the errors of the server's own disk. Arithmetic on sizes is that of the natural numbers, so the
  product of a chunk's index and the chunk size is taken to fit 64 bits.
\<close>

section \<open>Paths, names and headers\<close>

fun split_either :: "string \<Rightarrow> string list" where
  "split_either [] = [[]]"
| "split_either (c # cs) =
     (if c = CHR ''/'' \<or> c = CHR 0x5C then [] # split_either cs
      else (case split_either cs of [] \<Rightarrow> [[c]] | s # ss \<Rightarrow> (c # s) # ss))"

definition file_basename :: "string \<Rightarrow> string" where
  "file_basename filename = trim (last (split_either (trim filename)))"

fun parent_parts :: "string list \<Rightarrow> string list sarca_result" where
  "parent_parts [] = Inr []"
| "parent_parts (p # ps) =
     (let part = trim p in
      if part = [] \<or> part = ''.'' then parent_parts ps
      else if part = ''..'' then Inl InvalidPath
      else res_bind (parent_parts ps) (\<lambda>qs. Inr (part # qs)))"

definition normalize_parent :: "string \<Rightarrow> string sarca_result" where
  "normalize_parent parent = res_bind (parent_parts (split_either parent)) (\<lambda>parts. Inr (join_with CHR ''/'' parts))"

definition construct_path :: "string \<Rightarrow> string \<Rightarrow> string sarca_result" where
  "construct_path parent0 filename0 =
     res_bind (normalize_parent parent0) (\<lambda>parent.
       let filename = file_basename filename0 in
       if filename = [] \<or> filename = ''.'' \<or> filename = ''..'' then Inl InvalidPath
       else let path = (if parent = [] then filename else parent @ ''/'' @ filename)
            in if ends_with ''/'' path then Inl InvalidPath else Inr path)"

text \<open>A date is in range from -262142 to 262142 years; in milliseconds, as \<open>chrono\<close> has it.\<close>

definition millis_min :: int where "millis_min = - 8334601228800000"
definition millis_max :: int where "millis_max = 8210266876799999"

definition parse_epoch_millis :: "string \<Rightarrow> int option" where
  "parse_epoch_millis raw =
     (let trimmed = trim raw in
      if trimmed = [] then None
      else case parse_signed (2 ^ 63 - 1) trimmed of
        None \<Rightarrow> None
      | Some n \<Rightarrow>
          let ms = (if \<bar>n\<bar> < 1000000000000 then n * 1000 else n)
          in if millis_min \<le> ms \<and> ms \<le> millis_max then Some ms else None)"

definition parse_bytes_range :: "string option \<Rightarrow> nat \<Rightarrow> (unit, (nat \<times> nat) option) result" where
  "parse_bytes_range header file_size = (case header of
     None \<Rightarrow> Inr None
   | Some h \<Rightarrow>
       if file_size = 0 then Inl ()
       else (case strip_prefix ''bytes='' (trim h) of
         None \<Rightarrow> Inl ()
       | Some spec \<Rightarrow>
           if CHR '','' \<in> set spec then Inl ()
           else (case split_once CHR ''-'' spec of
             None \<Rightarrow> Inl ()
           | Some (start_s, end_s) \<Rightarrow>
               if start_s = [] then
                 (case parse_unsigned u64_max end_s of
                    None \<Rightarrow> Inl ()
                  | Some n \<Rightarrow> if n = 0 then Inl () else Inr (Some (sat_sub file_size n, file_size - 1)))
               else (case parse_unsigned u64_max start_s of
                  None \<Rightarrow> Inl ()
                | Some start \<Rightarrow>
                    if file_size \<le> start then Inl ()
                    else (case (if end_s = [] then Some (file_size - 1)
                                else map_option (\<lambda>e. min e (file_size - 1)) (parse_unsigned u64_max end_s)) of
                        None \<Rightarrow> Inl ()
                      | Some end \<Rightarrow> if end < start then Inl () else Inr (Some (start, end)))))))"

text \<open>The characters of a name: bytes 0x80 to 0xBF continue one. Percent-encoding is byte by byte.\<close>

definition is_alnum :: "char \<Rightarrow> bool" where
  "is_alnum c \<longleftrightarrow> (let n = (of_char c :: nat) in 48 \<le> n \<and> n \<le> 57 \<or> 65 \<le> n \<and> n \<le> 90 \<or> 97 \<le> n \<and> n \<le> 122)"

definition hex_upper :: "nat \<Rightarrow> char" where
  "hex_upper n = (if n < 10 then char_of (48 + n) else char_of (55 + n))"

definition percent_encode :: "string \<Rightarrow> string" where
  "percent_encode s = concat (map (\<lambda>c. if is_alnum c then [c]
     else [CHR ''%'', hex_upper ((of_char c :: nat) div 16), hex_upper ((of_char c :: nat) mod 16)]) s)"

definition ascii_char :: "char \<Rightarrow> string" where
  "ascii_char c = (let n = (of_char c :: nat) in
     if 128 \<le> n \<and> n < 192 then []
     else if 32 \<le> n \<and> n \<le> 126 \<and> c \<noteq> CHR 0x22 \<and> c \<noteq> CHR 0x5C then [c] else ''_'')"

definition ascii_name :: "string \<Rightarrow> string" where
  "ascii_name filename = (let n = concat (map ascii_char filename) in if list_all ((=) CHR ''_'') n then ''download'' else n)"

definition header_chars :: "string \<Rightarrow> bool" where
  "header_chars s = list_all (\<lambda>c. let n = (of_char c :: nat) in 32 \<le> n \<and> n \<noteq> 127 \<or> n = 9) s"

definition content_disposition_value :: "string \<Rightarrow> string \<Rightarrow> string" where
  "content_disposition_value disposition filename =
     (let v = disposition @ ''; filename='' @ [CHR 0x22] @ ascii_name filename @ [CHR 0x22] @
              ''; filename*=UTF-8'' @ [CHR 0x27, CHR 0x27] @ percent_encode filename
      in if header_chars v then v else ''attachment; filename='' @ [CHR 0x22] @ ''download'' @ [CHR 0x22])"

definition active_types :: "string list" where
  "active_types = [''text/html'', ''text/xhtml'', ''text/xml'', ''text/xsl'', ''image/svg+xml'', ''image/svg'',
     ''application/xhtml+xml'', ''application/xml'', ''application/mathml+xml'']"

definition is_active_content :: "string \<Rightarrow> bool" where
  "is_active_content content_type \<longleftrightarrow>
     to_ascii_lowercase (trim (hd (split_on CHR '';'' content_type))) \<in> set active_types"

definition user_content_headers :: "bool \<Rightarrow> (string \<times> string) list" where
  "user_content_headers active =
     (''x-content-type-options'', ''nosniff'') #
     (if active then [(''content-security-policy'',
        ''sandbox; default-src 'none'; style-src 'unsafe-inline'; img-src data:'')] else [])"

definition is_inline_previewable :: "string \<Rightarrow> bool" where
  "is_inline_previewable ct \<longleftrightarrow> starts_with ''image/'' ct \<or> starts_with ''video/'' ct \<or> starts_with ''audio/'' ct \<or>
     ct = ''application/pdf'' \<or> starts_with ''text/'' ct"

text \<open>\<open>Path::file_name\<close>: the last component, unless it is \<open>..\<close>.\<close>

definition path_file_name :: "string \<Rightarrow> string option" where
  "path_file_name path =
     (let parts = filter (\<lambda>p. p \<noteq> [] \<and> p \<noteq> ''.'') (split_on CHR ''/'' path)
      in if parts = [] \<or> last parts = ''..'' then None else Some (last parts))"

definition default_chunk_size_bytes :: "nat \<Rightarrow> nat" where
  "default_chunk_size_bytes mb = max 1 (sat_mul_u64 mb (1024 * 1024))"

definition chunk_size_of :: "server_env \<Rightarrow> file_row \<Rightarrow> nat" where
  "chunk_size_of env file = (case f_chunk_size file of
     Some n \<Rightarrow> if 0 < n then nat n else default_chunk_size_bytes (en_chunk_mb env)
   | None \<Rightarrow> default_chunk_size_bytes (en_chunk_mb env))"

definition file_size_of :: "file_row \<Rightarrow> nat" where
  "file_size_of file = nat (max 0 (f_size file))"

section \<open>Chunks\<close>

definition ordered_active_channels :: "server_env \<Rightarrow> uuid \<Rightarrow> channel_row list srv" where
  "ordered_active_channels env storage =
     em_bind (storage_row_of env storage) (\<lambda>row.
     em_bind (db_read env (list_by_storage storage)) (\<lambda>channels.
       em_return (sort_key (\<lambda>c. if sc_position c = so_primary row then 0 else (1 :: nat))
         (sort_key sc_position (filter is_active channels)))))"

type_synonym chunk_candidates = "(int \<times> string \<times> uuid) list"

definition resolve_chunk_candidates :: "server_env \<Rightarrow> uuid \<Rightarrow> channel_row list \<Rightarrow> chunk_candidates srv" where
  "resolve_chunk_candidates env fid channels =
     em_bind (em_map (\<lambda>c. em_bind (db_read env (list_chunks_with_replica_for_channel fid (sc_id c))) (\<lambda>replicas.
         em_return (map (\<lambda>(position, tid). (position, tid, sc_id c)) replicas))) channels)
       (\<lambda>xss. em_return (concat xss))"

definition candidates_at :: "chunk_candidates \<Rightarrow> int \<Rightarrow> (string \<times> uuid) list" where
  "candidates_at cands position = map snd (filter (\<lambda>(p, _). p = position) cands)"

definition note_dead :: "server_env \<Rightarrow> sarca_error \<Rightarrow> uuid \<Rightarrow> (server, 'e, unit) em" where
  "note_dead env e channel =
     em_when (is_chat_dead_error (en_lower env) e) (db_run env (\<lambda>_ _ db. (Inr (), mark_dead channel db)))"

text \<open>The candidates in order, until one answers; the error is the last one's.\<close>

fun first_answer ::
  "server_env \<Rightarrow> (nat \<Rightarrow> string \<Rightarrow> 'a sarca_result) \<Rightarrow> (string \<times> uuid) list \<Rightarrow> sarca_error \<Rightarrow> 'a srv" where
  "first_answer env ask [] last_err = em_throw last_err"
| "first_answer env ask ((tid, channel) # cands) last_err =
     em_bind (em_attempt (remote (\<lambda>n. ask n tid))) (\<lambda>r. case r of
       Inr a \<Rightarrow> em_return a
     | Inl e \<Rightarrow> em_then (note_dead env e channel) (first_answer env ask cands e))"

definition no_replica :: sarca_error where
  "no_replica = DoesNotExist ''chunk on any replicated channel''"

definition ensure_chunk_cached :: "server_env \<Rightarrow> uuid \<Rightarrow> (string \<times> uuid) list \<Rightarrow> string srv" where
  "ensure_chunk_cached env storage cands = first_answer env (\<lambda>n tid. en_fetch env n tid storage) cands no_replica"

definition download_chunk_stream_with_failover ::
  "server_env \<Rightarrow> uuid \<Rightarrow> (string \<times> uuid) list \<Rightarrow> (string \<times> sarca_error option) srv" where
  "download_chunk_stream_with_failover env storage cands =
     first_answer env (\<lambda>n tid. en_stream env n tid storage) cands no_replica"

definition warm_first_chunk :: "server_env \<Rightarrow> uuid \<Rightarrow> string \<Rightarrow> unit srv" where
  "warm_first_chunk env storage path =
     em_bind (db_try env (get_file_by_path path storage)) (\<lambda>file.
     em_bind (ordered_active_channels env storage) (\<lambda>channels.
       if channels = [] then em_throw NoActiveChannel
       else em_bind (resolve_chunk_candidates env (f_id file) channels) (\<lambda>cands.
         if cands = [] then em_return ()
         else em_then (ensure_chunk_cached env storage (candidates_at cands (Min (fst ` set cands)))) (em_return ()))))"

section \<open>One file\<close>

record response =
  rsp_status :: nat
  rsp_headers :: "(string \<times> string) list"
  rsp_body :: string
  rsp_cut :: "sarca_error option"

definition http_err :: "sarca_error \<Rightarrow> nat \<times> string" where
  "http_err e = error_response e"

type_synonym 'a http = "(server, nat \<times> string, 'a) em"

definition http :: "'a srv \<Rightarrow> 'a http" where
  "http m = em_map_err http_err m"

text \<open>
  The body: for each chunk from the first to the last one asked for, the bytes of it from the
  cursor on, as many as remain. The body is streamed after the response has begun, so an error
  cuts it off.
\<close>

fun stream_chunks ::
  "server_env \<Rightarrow> uuid \<Rightarrow> chunk_candidates \<Rightarrow> nat \<Rightarrow> nat \<Rightarrow> nat \<Rightarrow> (nat \<times> chunk_row) list \<Rightarrow> nat \<Rightarrow> nat \<Rightarrow>
     (string \<times> sarca_error option) http" where
  "stream_chunks env storage cands chunk_size lo hi [] cursor remaining = em_return ([], None)"
| "stream_chunks env storage cands chunk_size lo hi ((idx, chunk) # chunks) cursor remaining =
     (if idx < lo \<or> hi < idx \<or> remaining = 0
      then stream_chunks env storage cands chunk_size lo hi chunks cursor remaining
      else (\<lambda>s. case ensure_chunk_cached env storage (candidates_at cands (ck_position chunk)) s of
          (Inl e, t) \<Rightarrow> (Inr ([], Some e), t)
        | (Inr content, t) \<Rightarrow>
            (let piece = take remaining (drop (sat_sub cursor (idx * chunk_size)) content)
             in em_bind (stream_chunks env storage cands chunk_size lo hi chunks
                   (cursor + length piece) (remaining - length piece))
                 (\<lambda>(body, cut). em_return (piece @ body, cut)) t)))"

definition content_headers :: "string \<Rightarrow> string \<Rightarrow> nat \<Rightarrow> (string \<times> string) list" where
  "content_headers content_type disposition len =
     [(''content-type'', content_type), (''content-disposition'', disposition), (''accept-ranges'', ''bytes''),
      (''content-length'', show_nat len)]"

definition unsatisfiable :: "nat \<Rightarrow> nat \<times> string" where
  "unsatisfiable file_size = (416, ''Requested range not satisfiable; file size is '' @ show_nat file_size)"

definition sorted_chunks :: "uuid \<Rightarrow> files_db \<Rightarrow> chunk_row list" where
  "sorted_chunks fid db = sort_key ck_position (list_chunks_of_file fid db)"

text \<open>The second half of \<open>download_file\<close>, from the channels on.\<close>

definition serve_bytes ::
  "server_env \<Rightarrow> uuid \<Rightarrow> file_row \<Rightarrow> chunk_row list \<Rightarrow> nat \<Rightarrow> nat \<Rightarrow> nat \<Rightarrow> (string \<times> string) list \<Rightarrow> response http" where
  "serve_bytes env storage file chunks start stop status headers =
     em_bind (http (ordered_active_channels env storage)) (\<lambda>channels.
       if channels = [] then em_throw (http_err NoActiveChannel)
       else em_bind (http (resolve_chunk_candidates env (f_id file) channels)) (\<lambda>cands.
         let chunk_size = chunk_size_of env file
         in em_bind (stream_chunks env storage cands chunk_size (start div chunk_size) (stop div chunk_size)
              (zip [0..<length chunks] chunks) start (stop - start + 1)) (\<lambda>(body, cut).
            em_return \<lparr>rsp_status = status, rsp_headers = headers, rsp_body = body, rsp_cut = cut\<rparr>)))"

definition download_file ::
  "server_env \<Rightarrow> uuid \<Rightarrow> string \<Rightarrow> file_row \<Rightarrow> string option \<Rightarrow> string option \<Rightarrow> response http" where
  "download_file env storage path file inline_query range_header =
     em_bind (db_read env (sorted_chunks (f_id file))) (\<lambda>chunks.
       let file_size = file_size_of file;
           filename = (case path_file_name path of None \<Rightarrow> ''unnamed.bin'' | Some n \<Rightarrow> n);
           content_type = en_mime env filename;
           want_inline = inline_query \<in> {Some ''1'', Some ''true'', Some ''yes''} \<or> is_inline_previewable content_type;
           disposition = content_disposition_value (if want_inline then ''inline'' else ''attachment'') filename;
           user_headers = user_content_headers (is_active_content content_type)
       in case parse_bytes_range range_header file_size of
            Inl _ \<Rightarrow> em_throw (unsatisfiable file_size)
          | Inr wanted \<Rightarrow>
              let (start, end0) = (case wanted of None \<Rightarrow> (0, sat_sub file_size 1) | Some r \<Rightarrow> r)
              in if file_size = 0
                 then em_return \<lparr>rsp_status = 200,
                        rsp_headers = content_headers content_type disposition 0 @ user_headers, rsp_body = [], rsp_cut = None\<rparr>
                 else let stop = min end0 (sat_sub file_size 1)
                   in if stop < start then em_throw (unsatisfiable file_size)
                   else serve_bytes env storage file chunks start stop (case wanted of None \<Rightarrow> 200 | Some _ \<Rightarrow> 206)
                     (content_headers content_type disposition (stop - start + 1) @
                       (case wanted of None \<Rightarrow> [] | Some _ \<Rightarrow> [(''content-range'',
                          ''bytes '' @ show_nat start @ ''-'' @ show_nat stop @ ''/'' @ show_nat file_size)]) @
                       user_headers))"

text \<open>The whole file in memory, for building a preview of it.\<close>

fun gather_chunks ::
  "server_env \<Rightarrow> uuid \<Rightarrow> chunk_candidates \<Rightarrow> nat \<Rightarrow> nat \<Rightarrow> (nat \<times> chunk_row) list \<Rightarrow> string srv" where
  "gather_chunks env storage cands chunk_size file_size [] = em_return []"
| "gather_chunks env storage cands chunk_size file_size ((idx, chunk) # chunks) =
     em_bind (ensure_chunk_cached env storage (candidates_at cands (ck_position chunk))) (\<lambda>content.
       let to_read = min chunk_size (sat_sub file_size (idx * chunk_size))
       in em_bind (gather_chunks env storage cands chunk_size file_size chunks) (\<lambda>rest.
            em_return (take to_read content @ rest)))"

definition assemble_file_bytes :: "server_env \<Rightarrow> uuid \<Rightarrow> file_row \<Rightarrow> string http" where
  "assemble_file_bytes env storage file =
     em_bind (db_read env (sorted_chunks (f_id file))) (\<lambda>chunks.
       let file_size = file_size_of file
       in if file_size = 0 then em_return []
          else em_bind (http (ordered_active_channels env storage)) (\<lambda>channels.
            if channels = [] then em_throw (http_err NoActiveChannel)
            else em_bind (http (resolve_chunk_candidates env (f_id file) channels)) (\<lambda>cands.
              http (gather_chunks env storage cands (chunk_size_of env file) file_size (zip [0..<length chunks] chunks)))))"

section \<open>The routes\<close>

definition invalid_path :: "nat \<times> string" where
  "invalid_path = (400, error_text InvalidPath)"

definition max_folder_zip_bytes :: int where
  "max_folder_zip_bytes = 10 * 1024 * 1024 * 1024"

text \<open>The name of a file in the archive; a file whose name would lead out of the folder has none.\<close>

definition zip_entry_name :: "string \<Rightarrow> file_row \<Rightarrow> string option" where
  "zip_entry_name root file =
     (let entry = (case strip_prefix root (f_path file) of None \<Rightarrow> f_path file | Some e \<Rightarrow> e)
      in if entry = [] \<or> starts_with ''/'' entry \<or> list_ex (\<lambda>seg. seg = ''..'' \<or> seg = ''.'') (split_on CHR ''/'' entry)
         then None else Some entry)"

fun stream_all :: "server_env \<Rightarrow> uuid \<Rightarrow> chunk_candidates \<Rightarrow> chunk_row list \<Rightarrow> string srv" where
  "stream_all env storage cands [] = em_return []"
| "stream_all env storage cands (chunk # chunks) =
     em_bind (download_chunk_stream_with_failover env storage (candidates_at cands (ck_position chunk))) (\<lambda>(bytes, cut).
       case cut of
         Some e \<Rightarrow> em_throw e
       | None \<Rightarrow> em_bind (stream_all env storage cands chunks) (\<lambda>rest. em_return (bytes @ rest)))"

fun zip_entries ::
  "server_env \<Rightarrow> uuid \<Rightarrow> string \<Rightarrow> channel_row list \<Rightarrow> file_row list \<Rightarrow> (string \<times> string) list srv" where
  "zip_entries env storage root channels [] = em_return []"
| "zip_entries env storage root channels (file # files) = (case zip_entry_name root file of
     None \<Rightarrow> zip_entries env storage root channels files
   | Some name \<Rightarrow>
       em_bind (db_read env (sorted_chunks (f_id file))) (\<lambda>chunks.
       em_bind (resolve_chunk_candidates env (f_id file) channels) (\<lambda>cands.
       em_bind (stream_all env storage cands chunks) (\<lambda>content.
       em_bind (zip_entries env storage root channels files) (\<lambda>entries.
         em_return ((name, content) # entries))))))"

definition download_folder :: "server_env \<Rightarrow> uuid \<Rightarrow> string \<Rightarrow> response http" where
  "download_folder env storage path =
     (let trimmed = trim_end_matches CHR ''/'' path; root = trimmed @ ''/'' in
      if trimmed = [] \<or> contains_str ''//'' trimmed \<or> starts_with ''/'' trimmed then em_throw invalid_path
      else em_bind (db_read env (sum_uploaded_size_under storage root)) (\<lambda>total.
        em_bind (db_read env (list_uploaded_files_under storage root)) (\<lambda>files.
        em_bind (db_read env (get_file_by_path root storage)) (\<lambda>marker.
          if isl marker \<and> files = [] then em_throw (http_err (DoesNotExist ''folder''))
          else if max_folder_zip_bytes < total then em_throw (http_err FolderTooLargeForZip)
          else em_bind (http (ordered_active_channels env storage)) (\<lambda>channels.
            if channels = [] then em_throw (http_err NoActiveChannel)
            else em_bind (http (zip_entries env storage root channels files)) (\<lambda>entries.
              let body = en_zip env entries;
                  folder_name = (case path_file_name trimmed of None \<Rightarrow> ''folder'' | Some n \<Rightarrow> n)
              in em_return \<lparr>rsp_status = 200,
                   rsp_headers = [(''content-type'', ''application/zip''),
                     (''content-disposition'', content_disposition_value ''attachment'' (folder_name @ ''.zip'')),
                     (''content-length'', show_nat (length body))],
                   rsp_body = body, rsp_cut = None\<rparr>))))))"

definition download ::
  "server_env \<Rightarrow> auth_user \<Rightarrow> uuid \<Rightarrow> string \<Rightarrow> string option \<Rightarrow> string option \<Rightarrow> response http" where
  "download env user storage path inline_query range_header =
     em_then (http (require_access env (au_id user) storage AR))
     (if starts_with ''/'' path \<or> contains_str ''//'' path then em_throw invalid_path
      else if ends_with ''/'' path then download_folder env storage path
      else em_bind (db_read env (get_file_by_path path storage)) (\<lambda>found. case found of
          Inr file \<Rightarrow> download_file env storage path file inline_query range_header
        | Inl (DoesNotExist _) \<Rightarrow>
            em_bind (em_attempt (download_folder env storage (path @ ''/''))) (\<lambda>r. case r of
              Inr response \<Rightarrow> em_return response
            | Inl (status, text) \<Rightarrow>
                if status = 404 then em_throw (404, error_text (DoesNotExist ''file'')) else em_throw (status, text))
        | Inl e \<Rightarrow> em_throw (http_err e)))"

definition is_jpeg :: "string \<Rightarrow> bool" where
  "is_jpeg bytes \<longleftrightarrow> 3 \<le> length bytes \<and> take 3 bytes = [CHR 0xFF, CHR 0xD8, CHR 0xFF]"

section \<open>The right bytes\<close>

text \<open>
  A file whose content \<open>B\<close> was stored in chunks of \<open>n\<close> bytes: the positions of its chunks count
  from zero, and a document of a chunk, when it is had at all, is the part of \<open>B\<close> that belongs at
  its position.
\<close>

definition chunk_of :: "string \<Rightarrow> nat \<Rightarrow> nat \<Rightarrow> string" where
  "chunk_of B n i = take n (drop (i * n) B)"

definition stored_as :: "server_env \<Rightarrow> uuid \<Rightarrow> string \<Rightarrow> nat \<Rightarrow> uuid \<Rightarrow> files_db \<Rightarrow> bool" where
  "stored_as env storage B n fid db \<longleftrightarrow> 0 < n \<and>
     map ck_position (sorted_chunks fid db) = map int [0..<(length B + n - 1) div n] \<and>
     (\<forall>channel position tid k c. (position, tid) \<in> set (list_chunks_with_replica_for_channel fid channel db) \<longrightarrow>
        en_fetch env k tid storage = Inr c \<longrightarrow> c = chunk_of B n (nat position))"

lemma first_answer_from:
  "first_answer env ask cands e s = (Inr a, t) \<Longrightarrow> \<exists>tid channel n. (tid, channel) \<in> set cands \<and> ask n tid = Inr a"
proof (induction env ask cands e arbitrary: s rule: first_answer.induct)
  case (2 env ask tid channel cands last_err)
  show ?case
  proof (cases "ask (sv_steps s) tid")
    case (Inr b)
    then show ?thesis using 2 by (auto simp: em_bind_def em_attempt_def remote_def em_return_def)
  next
    case (Inl e)
    then have "em_then (note_dead env e channel) (first_answer env ask cands e) (s\<lparr>sv_steps := Suc (sv_steps s)\<rparr>) = (Inr a, t)"
      using "2.prems" by (simp add: em_bind_def em_attempt_def remote_def)
    then obtain u where "first_answer env ask cands e u = (Inr a, t)" by (auto elim: em_thenE)
    then obtain tid' channel' n where "(tid', channel') \<in> set cands" "ask n tid' = Inr a" using "2.IH" by blast
    then show ?thesis by (intro exI [of _ tid'] exI [of _ channel'] exI [of _ n]) simp
  qed
qed (simp add: em_throw_def)

lemma chunk_slice:
  assumes "i * n \<le> cursor" "cursor < (i + 1) * n"
  shows "take r (drop (cursor - i * n) (chunk_of B n i)) = take (min r ((i + 1) * n - cursor)) (drop cursor B)"
proof -
  have "drop (cursor - i * n) (chunk_of B n i) = take (n - (cursor - i * n)) (drop cursor B)"
    using assms by (simp add: chunk_of_def drop_take)
  moreover have "n - (cursor - i * n) = (i + 1) * n - cursor" using assms by simp
  ultimately show ?thesis by (simp add: take_take min.commute)
qed

lemma take_then_take: "take a xs @ take b (drop a xs) = take (a + b) xs"
  by (simp add: take_add)

lemma prefix_append_same: "prefix xs ys \<Longrightarrow> prefix (zs @ xs) (zs @ ys)"
  by (simp add: prefix_def)

lemma chunk_index:
  assumes "0 < (n :: nat)" "lo = start div n" "hi = stop div n"
  shows "i < lo \<Longrightarrow> (i + 1) * n \<le> start" and "hi < i \<Longrightarrow> stop < i * n"
    and "lo \<le> i \<Longrightarrow> start < (i + 1) * n" and "i \<le> hi \<Longrightarrow> i * n \<le> stop"
proof -
  show "(i + 1) * n \<le> start" if "i < lo"
  proof -
    have "(i + 1) * n \<le> lo * n" using that by (intro mult_le_mono1) simp
    also have "\<dots> \<le> start" using assms(2) by simp
    finally show ?thesis .
  qed
  show "stop < i * n" if "hi < i" using that assms(1,3) by (metis div_less_iff_less_mult)
  show "start < (i + 1) * n" if "lo \<le> i"
    using that assms(1,2) by (metis Suc_eq_plus1 div_less_iff_less_mult le_imp_less_Suc)
  show "i * n \<le> stop" if "i \<le> hi" using that assms(1,3) by (metis div_less_iff_less_mult not_le)
qed

lemma stream_exact:
  assumes fetch: "\<And>position tid channel k c. (tid, channel) \<in> set (candidates_at cands position) \<Longrightarrow>
        en_fetch env k tid storage = Inr c \<Longrightarrow> c = chunk_of B n (nat position)"
    and n: "0 < n" "lo = start div n" "hi = stop div n" and stop: "stop < length B"
  shows "map fst ics = [i..<i + length ics] \<Longrightarrow> map (ck_position \<circ> snd) ics = map int [i..<i + length ics] \<Longrightarrow>
     length B \<le> (i + length ics) * n \<Longrightarrow> remaining = Suc stop - max start (i * n) \<Longrightarrow>
     (0 < remaining \<longrightarrow> cursor = max start (i * n)) \<Longrightarrow>
     stream_chunks env storage cands n lo hi ics cursor remaining s = (Inr (body, broken), t) \<Longrightarrow>
     prefix body (take remaining (drop cursor B)) \<and> (broken = None \<longrightarrow> body = take remaining (drop cursor B))"
proof (induction ics arbitrary: i cursor remaining s body broken t)
  case Nil
  then have "stop < i * n" using stop by simp
  then have "remaining = 0" using Nil by simp
  then show ?case using Nil by (simp add: em_return_def)
next
  case (Cons ic ics)
  obtain idx chunk where ic: "ic = (idx, chunk)" by (cases ic)
  have upt: "[i..<i + length (ic # ics)] = i # [Suc i..<Suc i + length ics]" by (simp add: upt_rec)
  have idx: "idx = i" "ck_position chunk = int i"
    and rest: "map fst ics = [Suc i..<Suc i + length ics]" "map (ck_position \<circ> snd) ics = map int [Suc i..<Suc i + length ics]"
      "length B \<le> (Suc i + length ics) * n"
    using Cons.prems(1-3) unfolding upt by (simp_all add: ic comp_def algebra_simps del: upt_Suc upt_rec_numeral)
  note step = chunk_index [OF n, of i]
  show ?case
  proof (cases "i < lo \<or> hi < i \<or> remaining = 0")
    case True
    have "remaining = Suc stop - max start (Suc i * n) \<and> (0 < remaining \<longrightarrow> cursor = max start (Suc i * n))"
    proof (cases "remaining = 0")
      case False
      then have "i < lo" using True step(2) Cons.prems(4) by auto
      then have "Suc i * n \<le> start" "i * n \<le> start" using step(1) by auto
      then show ?thesis using Cons.prems(4,5) by (simp add: max_absorb1)
    qed (use Cons.prems(4) in \<open>auto simp: max_def split: if_splits\<close>)
    then show ?thesis
      using Cons.IH [OF rest] Cons.prems(6) True by (simp add: ic idx)
  next
    case False
    then have bounds: "lo \<le> i" "i \<le> hi" "0 < remaining" by auto
    then have cursor: "cursor = max start (i * n)" using Cons.prems(5) by simp
    have within: "i * n \<le> cursor" "cursor < (i + 1) * n" "cursor \<le> stop"
      using step(3,4) bounds Cons.prems(4) n(1) by (auto simp: cursor max_def)
    have remaining: "remaining = Suc stop - cursor" using Cons.prems(4) cursor by simp
    obtain r u where ensure: "ensure_chunk_cached env storage (candidates_at cands (ck_position chunk)) s = (r, u)" by fastforce
    note ensured = ensure [unfolded idx(2)]
    show ?thesis
    proof (cases r)
      case (Inl e)
      then have "body = []" "broken = Some e" using Cons.prems(6) False by (simp_all add: ic idx ensured)
      then show ?thesis by simp
    next
      case (Inr content)
      obtain tid channel k where "(tid, channel) \<in> set (candidates_at cands (ck_position chunk))" "en_fetch env k tid storage = Inr content"
        using ensure Inr unfolding ensure_chunk_cached_def by (blast dest: first_answer_from)
      then have content: "content = chunk_of B n i" using fetch idx(2) by fastforce
      let ?piece = "take remaining (drop (sat_sub cursor (i * n)) content)"
      let ?m = "min remaining ((i + 1) * n - cursor)"
      have piece: "?piece = take ?m (drop cursor B)"
        unfolding content using chunk_slice [OF within(1,2)] within(1) by (simp add: sat_sub_def)
      have long: "length ?piece = ?m" unfolding piece using within stop remaining by simp
      obtain body' where tail: "stream_chunks env storage cands n lo hi ics (cursor + ?m) (remaining - ?m) u = (Inr (body', broken), t)"
        and body: "body = ?piece @ body'"
        using Cons.prems(6) False Inr long unfolding ic
        by (auto simp: idx ensured Let_def em_return_def elim!: em_bindE)
      have later: "remaining - ?m = Suc stop - max start (Suc i * n)" "0 < remaining - ?m \<longrightarrow> cursor + ?m = max start (Suc i * n)"
        using within remaining step(3) [OF bounds(1)] cursor by (auto simp: max_def min_def)
      note IH = Cons.IH [OF rest later tail]
      have whole: "take remaining (drop cursor B) = ?piece @ take (remaining - ?m) (drop (cursor + ?m) B)"
        unfolding piece using take_then_take [of ?m "drop cursor B" "remaining - ?m"] by (simp add: add.commute)
      show ?thesis unfolding whole body using IH by (auto intro: prefix_append_same)
    qed
  qed
qed

lemma range_bounds: "parse_bytes_range header m = Inr (Some (a, b)) \<Longrightarrow> a \<le> b \<and> b < m"
  by (auto simp: parse_bytes_range_def Let_def sat_sub_def split: option.splits if_splits prod.splits)

lemma range_empty: "parse_bytes_range header 0 = Inr wanted \<Longrightarrow> wanted = None"
  by (auto simp: parse_bytes_range_def split: option.splits)

lemma ordered_active_channels_run:
  assumes "quiet env" "ordered_active_channels env storage s = (r, t)"
  shows "sv_files t = sv_files s"
  using assms by (auto simp: ordered_active_channels_def em_bind_def storage_row_run db_read_run em_return_def split: sum.splits)

lemma resolve_chunk_candidates_run:
  assumes "quiet env"
  shows "resolve_chunk_candidates env fid channels s = (r, t) \<Longrightarrow> sv_files t = sv_files s \<and>
    r = Inr (concat (map (\<lambda>c. map (\<lambda>(position, tid). (position, tid, sc_id c))
      (list_chunks_with_replica_for_channel fid (sc_id c) (sv_files s))) channels))"
proof -
  let ?f = "\<lambda>c. em_bind (db_read env (list_chunks_with_replica_for_channel fid (sc_id c))) (\<lambda>replicas.
         em_return (map (\<lambda>(position, tid). (position, tid, sc_id c)) replicas)) :: _ srv"
  have "\<exists>k. em_map ?f channels s = (Inr (map (\<lambda>c. map (\<lambda>(position, tid). (position, tid, sc_id c))
      (list_chunks_with_replica_for_channel fid (sc_id c) (sv_files s))) channels), s\<lparr>sv_steps := k\<rparr>)"
  proof (induction channels arbitrary: s)
    case Nil
    show ?case by (intro exI [of _ "sv_steps s"]) (simp add: em_return_def)
  next
    case (Cons c channels)
    from Cons [of "s\<lparr>sv_steps := Suc (sv_steps s)\<rparr>"] show ?case
      by (auto simp: em_bind_def db_read_run [OF assms] em_return_def)
  qed
  then show "resolve_chunk_candidates env fid channels s = (r, t) \<Longrightarrow> sv_files t = sv_files s \<and>
    r = Inr (concat (map (\<lambda>c. map (\<lambda>(position, tid). (position, tid, sc_id c))
      (list_chunks_with_replica_for_channel fid (sc_id c) (sv_files s))) channels))"
    by (auto simp: resolve_chunk_candidates_def em_bind_def em_return_def)
qed

lemma candidates_hold:
  assumes "stored_as env storage B n fid db"
    and "cands = concat (map (\<lambda>c. map (\<lambda>(position, tid). (position, tid, sc_id c))
      (list_chunks_with_replica_for_channel fid (sc_id c) db)) channels)"
    and "(tid, channel) \<in> set (candidates_at cands position)" "en_fetch env k tid storage = Inr c"
  shows "c = chunk_of B n (nat position)"
proof -
  have "(position, tid) \<in> set (list_chunks_with_replica_for_channel fid channel db)"
    using assms(2,3) by (auto simp: candidates_at_def)
  then show ?thesis using assms(1,4) unfolding stored_as_def by blast
qed

lemma chunks_cover: "0 < (n :: nat) \<Longrightarrow> m \<le> (m + n - 1) div n * n"
  using div_mult_mod_eq [of "m + n - 1" n] mod_less_divisor [of n "m + n - 1"] by linarith

lemma numbered_chunks:
  assumes "stored_as env storage B n fid db" "ics = zip [0..<length (sorted_chunks fid db)] (sorted_chunks fid db)"
  shows "map fst ics = [0..<length ics]" "map (ck_position \<circ> snd) ics = map int [0..<length ics]" "length B \<le> length ics * n"
proof -
  have pos: "map ck_position (sorted_chunks fid db) = map int [0..<(length B + n - 1) div n]" and n: "0 < n"
    using assms(1) by (simp_all add: stored_as_def)
  have len: "length (sorted_chunks fid db) = (length B + n - 1) div n"
    using arg_cong [OF pos, of length] by simp
  show "map fst ics = [0..<length ics]" by (simp add: assms(2))
  have "map (ck_position \<circ> snd) ics = map ck_position (sorted_chunks fid db)"
    by (simp add: assms(2) flip: map_map)
  then show "map (ck_position \<circ> snd) ics = map int [0..<length ics]" using pos len by (simp add: assms(2))
  show "length B \<le> length ics * n" using chunks_cover [OF n] len by (simp add: assms(2))
qed

definition slice_of :: "string \<Rightarrow> (nat \<times> nat) option \<Rightarrow> string" where
  "slice_of B wanted = (case wanted of None \<Rightarrow> B | Some (start, end) \<Rightarrow> take (end + 1 - start) (drop start B))"

lemma streamed_slice:
  assumes stored: "stored_as env storage B n fid db" and bounds: "start \<le> stop" "stop < length B"
    and cands: "cands = concat (map (\<lambda>c. map (\<lambda>(position, tid). (position, tid, sc_id c))
      (list_chunks_with_replica_for_channel fid (sc_id c) db)) channels)"
    and run: "stream_chunks env storage cands n (start div n) (stop div n)
       (zip [0..<length (sorted_chunks fid db)] (sorted_chunks fid db)) start (Suc stop - start) s = (Inr (body, broken), t)"
  shows "prefix body (take (Suc stop - start) (drop start B)) \<and>
     (broken = None \<longrightarrow> body = take (Suc stop - start) (drop start B))"
proof -
  note ics = numbered_chunks [OF stored refl]
  have n: "0 < n" using stored by (simp add: stored_as_def)
  show ?thesis
    by (rule stream_exact [OF _ n refl refl bounds(2), where i = 0, OF _ _ _ _ _ _ run])
       (use ics candidates_hold [OF stored cands] in auto)
qed

lemma em_bind_InrE:
  assumes "em_bind m f s = (Inr b, t)"
  obtains a u where "m s = (Inr a, u)" "f a u = (Inr b, t)"
  using assms by (auto elim: em_bindE)

text \<open>A download of a file that is not empty is the streaming of a part of it.\<close>

lemma download_file_serves:
  assumes quiet: "quiet env" and size: "file_size_of file = m" "0 < m"
    and wanted: "parse_bytes_range header m = Inr wanted"
    and start: "(start, stop) = (case wanted of None \<Rightarrow> (0, m - 1) | Some r \<Rightarrow> r)"
  obtains headers where "start \<le> stop" "stop < m" "(''content-length'', show_nat (Suc stop - start)) \<in> set headers"
    "download_file env storage path file q header s =
       serve_bytes env storage file (sorted_chunks (f_id file) (sv_files s)) start stop
         (case wanted of None \<Rightarrow> 200 | Some _ \<Rightarrow> 206) headers (s\<lparr>sv_steps := Suc (sv_steps s)\<rparr>)"
proof -
  have bounds: "start \<le> stop" "stop < m"
    using wanted start size(2) by (auto split: option.splits dest: range_bounds)
  then have whole: "min stop (sat_sub m 1) = stop" by (auto simp: sat_sub_def)
  let ?filename = "case path_file_name path of None \<Rightarrow> ''unnamed.bin'' | Some n \<Rightarrow> n"
  let ?ct = "en_mime env ?filename"
  let ?d = "content_disposition_value (if q \<in> {Some ''1'', Some ''true'', Some ''yes''} \<or> is_inline_previewable ?ct
    then ''inline'' else ''attachment'') ?filename"
  let ?headers = "content_headers ?ct ?d (stop - start + 1) @
     (case wanted of None \<Rightarrow> [] | Some _ \<Rightarrow> [(''content-range'',
        ''bytes '' @ show_nat start @ ''-'' @ show_nat stop @ ''/'' @ show_nat m)]) @ user_content_headers (is_active_content ?ct)"
  have sat: "sat_sub m 1 = m - 1" by (simp add: sat_sub_def)
  have "download_file env storage path file q header s =
       serve_bytes env storage file (sorted_chunks (f_id file) (sv_files s)) start stop
         (case wanted of None \<Rightarrow> 200 | Some _ \<Rightarrow> 206) ?headers (s\<lparr>sv_steps := Suc (sv_steps s)\<rparr>)"
    using size(2) whole bounds unfolding download_file_def em_bind_def db_read_run [OF quiet] Let_def size wanted
    by (simp only: prod.case sum.case fst_conv snd_conv sat start [symmetric] if_False not_less) simp
  moreover have "(''content-length'', show_nat (Suc stop - start)) \<in> set ?headers"
    using bounds by (simp add: content_headers_def Suc_diff_le)
  ultimately show thesis using bounds that by blast
qed

lemma serve_bytes_parts:
  assumes quiet: "quiet env" and files: "sv_files s = db"
    and run: "serve_bytes env storage file chunks start stop status headers s = (Inr rsp, t)"
  obtains channels :: "channel_row list" and v cands u where
    "http (ordered_active_channels env storage) s = (Inr channels, v)" "channels \<noteq> []"
    "http (resolve_chunk_candidates env (f_id file) channels) v = (Inr cands, u)"
    "cands = concat (map (\<lambda>c. map (\<lambda>(position, tid). (position, tid, sc_id c))
         (list_chunks_with_replica_for_channel (f_id file) (sc_id c) db)) channels)"
    "stream_chunks env storage cands (chunk_size_of env file)
       (start div chunk_size_of env file) (stop div chunk_size_of env file)
       (zip [0..<length chunks] chunks) start (stop - start + 1) u = (Inr (rsp_body rsp, rsp_cut rsp), t)"
    "rsp_status rsp = status" "rsp_headers rsp = headers"
proof -
  from run obtain channels v where ch: "http (ordered_active_channels env storage) s = (Inr channels, v)"
      and ne: "channels \<noteq> []"
      and tail: "em_bind (http (resolve_chunk_candidates env (f_id file) channels)) (\<lambda>cands.
         let chunk_size = chunk_size_of env file
         in em_bind (stream_chunks env storage cands chunk_size (start div chunk_size) (stop div chunk_size)
              (zip [0..<length chunks] chunks) start (stop - start + 1)) (\<lambda>(body, cut).
            em_return \<lparr>rsp_status = status, rsp_headers = headers, rsp_body = body, rsp_cut = cut\<rparr>)) v = (Inr rsp, t)"
    unfolding serve_bytes_def by (auto simp: em_throw_def elim!: em_bindE split: if_splits)
  have v: "sv_files v = db"
    using ch ordered_active_channels_run [OF quiet] files by (auto simp: http_def em_map_err_def split: prod.splits)
  let ?stream = "\<lambda>cands. stream_chunks env storage cands (chunk_size_of env file) (start div chunk_size_of env file)
     (stop div chunk_size_of env file) (zip [0..<length chunks] chunks) start (stop - start + 1)"
  let ?rest = "\<lambda>cands. em_bind (?stream cands) (\<lambda>(body, cut).
     em_return \<lparr>rsp_status = status, rsp_headers = headers, rsp_body = body, rsp_cut = cut\<rparr>)"
  obtain cands u where cands: "http (resolve_chunk_candidates env (f_id file) channels) v = (Inr cands, u)"
      and rest: "?rest cands u = (Inr rsp, t)"
    using tail [unfolded Let_def] by (rule em_bind_InrE) (rule that)
  obtain p w where p: "?stream cands u = (Inr p, w)"
      and "(case p of (body, e) \<Rightarrow> (em_return \<lparr>rsp_status = status, rsp_headers = headers, rsp_body = body, rsp_cut = e\<rparr> :: response http)) w = (Inr rsp, t)"
    using rest by (rule em_bind_InrE) (rule that)
  then have "w = t" "rsp = \<lparr>rsp_status = status, rsp_headers = headers, rsp_body = fst p, rsp_cut = snd p\<rparr>"
    by (auto simp: em_return_def split: prod.splits)
  then have "?stream cands u = (Inr (rsp_body rsp, rsp_cut rsp), t)" "rsp_status rsp = status" "rsp_headers rsp = headers"
    using p by simp_all
  moreover have "cands = concat (map (\<lambda>c. map (\<lambda>(position, tid). (position, tid, sc_id c))
         (list_chunks_with_replica_for_channel (f_id file) (sc_id c) db)) channels)"
    using cands resolve_chunk_candidates_run [OF quiet, of "f_id file" channels v] v
    by (auto simp: http_def em_map_err_def split: prod.splits)
  ultimately show thesis using that [OF ch ne cands] by blast
qed

lemma download_serves:
  assumes quiet: "quiet env" and stored: "stored_as env storage B n (f_id file) (sv_files s)"
    and size: "f_size file = int (length B)" "chunk_size_of env file = n"
    and wanted: "parse_bytes_range header (length B) = Inr wanted"
    and run: "download_file env storage path file q header s = (Inr rsp, t)"
  shows "prefix (rsp_body rsp) (slice_of B wanted) \<and> (rsp_cut rsp = None \<longrightarrow> rsp_body rsp = slice_of B wanted) \<and>
     (''content-length'', show_nat (length (slice_of B wanted))) \<in> set (rsp_headers rsp)"
proof (cases "B = []")
  case True
  then have "wanted = None" using range_empty wanted by simp
  then show ?thesis using run True size(1) wanted
    by (auto simp: download_file_def em_bind_def db_read_run [OF quiet] file_size_of_def em_return_def Let_def slice_of_def content_headers_def)
next
  case False
  obtain start stop where start: "(start, stop) = (case wanted of None \<Rightarrow> (0, length B - 1) | Some r \<Rightarrow> r)" by (metis surj_pair)
  have m: "file_size_of file = length B" "0 < length B" using size False by (simp_all add: file_size_of_def)
  obtain headers where bounds: "start \<le> stop" "stop < length B"
      and len: "(''content-length'', show_nat (Suc stop - start)) \<in> set headers"
      and serve: "download_file env storage path file q header s =
       serve_bytes env storage file (sorted_chunks (f_id file) (sv_files s)) start stop
         (case wanted of None \<Rightarrow> 200 | Some _ \<Rightarrow> 206) headers (s\<lparr>sv_steps := Suc (sv_steps s)\<rparr>)"
    using download_file_serves [OF quiet m wanted start] .
  have slice: "slice_of B wanted = take (Suc stop - start) (drop start B)"
    using start bounds by (auto simp: slice_of_def split: option.splits)
  have same: "sv_files (s\<lparr>sv_steps := Suc (sv_steps s)\<rparr>) = sv_files s" by simp
  obtain channels :: "channel_row list" and v cands u where
      cands: "cands = concat (map (\<lambda>c. map (\<lambda>(position, tid). (position, tid, sc_id c))
         (list_chunks_with_replica_for_channel (f_id file) (sc_id c) (sv_files s))) channels)"
    and stream: "stream_chunks env storage cands (chunk_size_of env file)
       (start div chunk_size_of env file) (stop div chunk_size_of env file)
       (zip [0..<length (sorted_chunks (f_id file) (sv_files s))] (sorted_chunks (f_id file) (sv_files s)))
       start (stop - start + 1) u = (Inr (rsp_body rsp, rsp_cut rsp), t)" and headers: "rsp_headers rsp = headers"
    by (rule serve_bytes_parts [OF quiet same run [unfolded serve]]) (rule that)
  have one: "stop - start + 1 = Suc stop - start" using bounds by simp
  show ?thesis
    using streamed_slice [OF stored bounds cands stream [unfolded size(2) one]] len bounds by (simp add: slice headers)
qed

text \<open>
  C2. A download serves the right bytes: for a file stored chunk by chunk, whatever each attempt to
  fetch a chunk answers and whichever channel answers it, the body sent is the beginning of the
  part that was asked for, all of it unless an error cuts it off, under a content length that
  tells the two apart.
\<close>

theorem download_serves_the_range:
  assumes quiet: "quiet env" and stored: "stored_as env storage B n (f_id file) (sv_files s)"
    and size: "f_size file = int (length B)" "chunk_size_of env file = n"
    and wanted: "parse_bytes_range header (length B) = Inr wanted"
    and run: "download_file env storage path file q header s = (Inr rsp, t)"
  shows "prefix (rsp_body rsp) (slice_of B wanted) \<and> (rsp_cut rsp = None \<longrightarrow> rsp_body rsp = slice_of B wanted) \<and>
     (''content-length'', show_nat (length (slice_of B wanted))) \<in> set (rsp_headers rsp)"
  using assms by (rule download_serves)

section \<open>The file in memory and the file on the wire\<close>

text \<open>What the candidates of a chunk answer when Telegram's answers do not depend on the moment.\<close>

fun pick :: "(string \<Rightarrow> 'a sarca_result) \<Rightarrow> (string \<times> uuid) list \<Rightarrow> sarca_error \<Rightarrow> 'a sarca_result" where
  "pick ask [] e = Inl e"
| "pick ask ((tid, _) # cands) e = (case ask tid of Inr a \<Rightarrow> Inr a | Inl e' \<Rightarrow> pick ask cands e')"

lemma note_dead_run: "\<exists>u. (note_dead env e channel :: unit srv) s = (Inr (), u)"
  by (auto simp: note_dead_def em_when_def em_return_def db_run_def atomically_def Let_def)

lemma first_answer_pick:
  assumes "\<And>k. ask k = ask' "
  shows "fst (first_answer env ask cands e s) = pick ask' cands e"
proof (induction cands arbitrary: e s)
  case (Cons c cands)
  obtain tid channel where c: "c = (tid, channel)" by (cases c)
  show ?case
  proof (cases "ask' tid")
    case (Inl e')
    obtain u where "(note_dead env e' channel :: unit srv) (s\<lparr>sv_steps := Suc (sv_steps s)\<rparr>) = (Inr (), u)" using note_dead_run by blast
    then show ?thesis using Inl Cons by (simp add: c em_bind_def em_then_def em_attempt_def remote_def assms)
  next
    case (Inr a)
    then show ?thesis by (simp add: c em_bind_def em_attempt_def remote_def em_return_def assms)
  qed
qed (simp add: em_throw_def)

definition chunk_had :: "server_env \<Rightarrow> uuid \<Rightarrow> chunk_candidates \<Rightarrow> chunk_row \<Rightarrow> string sarca_result" where
  "chunk_had env storage cands chunk =
     pick (\<lambda>tid. en_fetch env 0 tid storage) (candidates_at cands (ck_position chunk)) no_replica"

lemma ensure_had:
  assumes "\<And>k. en_fetch env k = en_fetch env 0"
  shows "fst (ensure_chunk_cached env storage (candidates_at cands (ck_position chunk)) s) = chunk_had env storage cands chunk"
  unfolding ensure_chunk_cached_def chunk_had_def by (rule first_answer_pick) (metis assms)

lemma chunk_tail:
  assumes "0 < (n :: nat)"
  shows "take (min n (length B - i * n)) (chunk_of B n i) = chunk_of B n i" "chunk_of B n i @ drop (Suc i * n) B = drop (i * n) B"
proof -
  show "take (min n (length B - i * n)) (chunk_of B n i) = chunk_of B n i"
    by (simp add: chunk_of_def min_def)
  have "drop (Suc i * n) B = drop n (drop (i * n) B)" by (simp add: add.commute)
  then show "chunk_of B n i @ drop (Suc i * n) B = drop (i * n) B" unfolding chunk_of_def by (metis append_take_drop_id)
qed

lemma gather_exact:
  assumes fetch: "\<And>position tid channel k c. (tid, channel) \<in> set (candidates_at cands position) \<Longrightarrow>
        en_fetch env k tid storage = Inr c \<Longrightarrow> c = chunk_of B n (nat position)"
    and same: "\<And>k. en_fetch env k = en_fetch env 0" and n: "0 < n"
  shows "map fst ics = [i..<i + length ics] \<Longrightarrow> map (ck_position \<circ> snd) ics = map int [i..<i + length ics] \<Longrightarrow>
     length B \<le> (i + length ics) * n \<Longrightarrow>
     ((\<exists>b. fst (gather_chunks env storage cands n (length B) ics s) = Inr b) \<longleftrightarrow>
        (\<forall>ic \<in> set ics. \<not> isl (chunk_had env storage cands (snd ic)))) \<and>
     (\<forall>b. fst (gather_chunks env storage cands n (length B) ics s) = Inr b \<longrightarrow> b = drop (i * n) B)"
proof (induction ics arbitrary: i s)
  case (Cons ic ics)
  obtain idx chunk where ic: "ic = (idx, chunk)" by (cases ic)
  have upt: "[i..<i + length (ic # ics)] = i # [Suc i..<Suc i + length ics]" by (simp add: upt_rec)
  have idx: "idx = i" "ck_position chunk = int i"
    and rest: "map fst ics = [Suc i..<Suc i + length ics]" "map (ck_position \<circ> snd) ics = map int [Suc i..<Suc i + length ics]"
      "length B \<le> (Suc i + length ics) * n"
    using Cons.prems unfolding upt by (simp_all add: ic comp_def algebra_simps del: upt_Suc upt_rec_numeral)
  obtain r u where ensure: "ensure_chunk_cached env storage (candidates_at cands (ck_position chunk)) s = (r, u)" by fastforce
  have had: "chunk_had env storage cands chunk = r" using ensure_had [OF same, of storage cands chunk s] ensure by simp
  note ensured = ensure [unfolded idx(2)]
  show ?case
  proof (cases r)
    case (Inl e)
    then show ?thesis by (simp add: ic idx em_bind_def ensured had)
  next
    case (Inr content)
    obtain tid channel k where "(tid, channel) \<in> set (candidates_at cands (ck_position chunk))" "en_fetch env k tid storage = Inr content"
      using ensure Inr unfolding ensure_chunk_cached_def by (blast dest: first_answer_from)
    then have content: "content = chunk_of B n i" using fetch idx(2) by fastforce
    obtain r' v where tail: "gather_chunks env storage cands n (length B) ics u = (r', v)" by fastforce
    have all: "gather_chunks env storage cands n (length B) (ic # ics) s =
        (case r' of Inl e \<Rightarrow> (Inl e, v) | Inr b \<Rightarrow> (Inr (chunk_of B n i @ b), v))"
      using chunk_tail(1) [OF n, of B i]
      by (simp add: ic idx em_bind_def ensured Inr Let_def tail sat_sub_def content em_return_def split: sum.splits)
    note IH = Cons.IH [OF rest, of u, unfolded tail fst_conv]
    show ?thesis
    proof (cases r')
      case (Inl e)
      then show ?thesis using IH all by (auto simp: ic)
    next
      case (Inr b)
      then show ?thesis using IH all chunk_tail(2) [OF n, of B i] had \<open>r = Inr content\<close> by (auto simp: ic)
    qed
  qed
qed (simp add: em_return_def)

lemma stream_unbroken:
  assumes fetch: "\<And>position tid channel k c. (tid, channel) \<in> set (candidates_at cands position) \<Longrightarrow>
        en_fetch env k tid storage = Inr c \<Longrightarrow> c = chunk_of B n (nat position)"
    and same: "\<And>k. en_fetch env k = en_fetch env 0" and n: "0 < n" and hi: "hi = (length B - 1) div n"
  shows "map fst ics = [i..<i + length ics] \<Longrightarrow> map (ck_position \<circ> snd) ics = map int [i..<i + length ics] \<Longrightarrow>
     (i + length ics) * n < length B + n \<Longrightarrow>
     stream_chunks env storage cands n 0 hi ics (i * n) (length B - i * n) s = (Inr (body, broken), t) \<Longrightarrow>
     broken = None \<longleftrightarrow> (\<forall>ic \<in> set ics. \<not> isl (chunk_had env storage cands (snd ic)))"
proof (induction ics arbitrary: i s body broken t)
  case Nil
  then show ?case by (simp add: em_return_def)
next
  case (Cons ic ics)
  obtain idx chunk where ic: "ic = (idx, chunk)" by (cases ic)
  have upt: "[i..<i + length (ic # ics)] = i # [Suc i..<Suc i + length ics]" by (simp add: upt_rec)
  have idx: "idx = i" "ck_position chunk = int i"
    and rest: "map fst ics = [Suc i..<Suc i + length ics]" "map (ck_position \<circ> snd) ics = map int [Suc i..<Suc i + length ics]"
      "(Suc i + length ics) * n < length B + n"
    using Cons.prems(1-3) unfolding upt by (simp_all add: ic comp_def algebra_simps del: upt_Suc upt_rec_numeral)
  have "i * n \<le> (i + length ics) * n" by (intro mult_le_mono1) simp
  moreover have "(i + length ics) * n < length B" using rest(3) by simp
  ultimately have inside: "i * n < length B" by (rule le_less_trans)
  then have visit: "\<not> (hi < i \<or> length B - i * n = 0)"
    using chunk_index(2) [OF n refl hi, of i] by auto
  obtain r u where ensure: "ensure_chunk_cached env storage (candidates_at cands (ck_position chunk)) s = (r, u)" by fastforce
  have had: "chunk_had env storage cands chunk = r" using ensure_had [OF same, of storage cands chunk s] ensure by simp
  note ensured = ensure [unfolded idx(2)]
  show ?case
  proof (cases r)
    case (Inl e)
    then show ?thesis using Cons.prems(4) visit had by (auto simp: ic idx ensured)
  next
    case (Inr content)
    obtain tid channel k where "(tid, channel) \<in> set (candidates_at cands (ck_position chunk))" "en_fetch env k tid storage = Inr content"
      using ensure Inr unfolding ensure_chunk_cached_def by (blast dest: first_answer_from)
    then have content: "content = chunk_of B n i" using fetch idx(2) by fastforce
    let ?piece = "take (length B - i * n) (drop (sat_sub (i * n) (i * n)) content)"
    have long: "length ?piece = min n (length B - i * n)" by (simp add: content chunk_of_def sat_sub_def)
    have later: "stream_chunks env storage cands n 0 hi ics (i * n + min n (length B - i * n)) (length B - i * n - min n (length B - i * n)) u =
        stream_chunks env storage cands n 0 hi ics (Suc i * n) (length B - Suc i * n) u"
    proof (cases "n \<le> length B - i * n")
      case False
      then have "length B - Suc i * n = 0" "length B - i * n - min n (length B - i * n) = 0" by auto
      moreover have "stream_chunks env storage cands n 0 hi xs c 0 u = stream_chunks env storage cands n 0 hi xs d 0 u" for xs c d
        by (induction xs) auto
      ultimately show ?thesis by metis
    qed (simp add: add.commute)
    obtain body' where "stream_chunks env storage cands n 0 hi ics (Suc i * n) (length B - Suc i * n) u = (Inr (body', broken), t)"
      using Cons.prems(4) visit Inr long unfolding ic later [symmetric]
      by (auto simp: idx ensured Let_def em_return_def elim!: em_bindE)
    then show ?thesis using Cons.IH [OF rest] had Inr by (simp add: ic)
  qed
qed

lemma assemble_parts:
  assumes quiet: "quiet env" and "0 < file_size_of file"
    and ch: "http (ordered_active_channels env storage) (s\<lparr>sv_steps := Suc (sv_steps s)\<rparr>) = (Inr channels, v)" "channels \<noteq> []"
    and cands: "http (resolve_chunk_candidates env (f_id file) channels) v = (Inr cands, u)"
  shows "assemble_file_bytes env storage file s =
     http (gather_chunks env storage cands (chunk_size_of env file) (file_size_of file)
       (zip [0..<length (sorted_chunks (f_id file) (sv_files s))] (sorted_chunks (f_id file) (sv_files s)))) u"
  using assms by (simp add: assemble_file_bytes_def em_bind_def db_read_run Let_def)

text \<open>
  C22. The two ways to read a file agree: when Telegram's answers do not depend on the moment, the
  whole file is had in memory exactly when a download of all of it is not cut off, and then the
  bytes are the same.
\<close>

theorem assembled_equals_downloaded:
  assumes quiet: "quiet env" and stored: "stored_as env storage B n (f_id file) (sv_files s)"
    and size: "f_size file = int (length B)" "chunk_size_of env file = n"
    and same: "\<And>k. en_fetch env k = en_fetch env 0"
    and run: "download_file env storage path file q None s = (Inr rsp, t)"
  shows "(\<not> isl (fst (assemble_file_bytes env storage file s)) \<longleftrightarrow> rsp_cut rsp = None) \<and>
     (\<forall>b. fst (assemble_file_bytes env storage file s) = Inr b \<longrightarrow> rsp_body rsp = b)"
proof (cases "B = []")
    case True
    then show ?thesis using run size(1)
      by (auto simp: download_file_def assemble_file_bytes_def em_bind_def db_read_run [OF quiet] file_size_of_def em_return_def
          Let_def parse_bytes_range_def)
  next
    case False
    have m: "file_size_of file = length B" "0 < length B" using size False by (simp_all add: file_size_of_def)
    have n: "0 < n" using stored by (simp add: stored_as_def)
    have all: "parse_bytes_range None (length B) = Inr None" by (simp add: parse_bytes_range_def)
    have start: "(0, length B - 1) = (case None of None \<Rightarrow> (0, length B - 1) | Some r \<Rightarrow> r)" by simp
    let ?s = "s\<lparr>sv_steps := Suc (sv_steps s)\<rparr>"
    let ?ics = "zip [0..<length (sorted_chunks (f_id file) (sv_files s))] (sorted_chunks (f_id file) (sv_files s))"
    obtain headers status where serve: "download_file env storage path file q None s =
         serve_bytes env storage file (sorted_chunks (f_id file) (sv_files s)) 0 (length B - 1)
           status headers ?s"
      by (rule download_file_serves [OF quiet m all start, of storage path q s]) (rule that)
    have files: "sv_files ?s = sv_files s" by simp
    obtain channels :: "channel_row list" and v cands u where
        ch: "http (ordered_active_channels env storage) ?s = (Inr channels, v)" "channels \<noteq> []"
      and res: "http (resolve_chunk_candidates env (f_id file) channels) v = (Inr cands, u)"
      and cands: "cands = concat (map (\<lambda>c. map (\<lambda>(position, tid). (position, tid, sc_id c))
         (list_chunks_with_replica_for_channel (f_id file) (sc_id c) (sv_files s))) channels)"
      and stream: "stream_chunks env storage cands (chunk_size_of env file)
         (0 div chunk_size_of env file) ((length B - 1) div chunk_size_of env file)
         ?ics 0 (length B - 1 - 0 + 1) u = (Inr (rsp_body rsp, rsp_cut rsp), t)"
      by (rule serve_bytes_parts [OF quiet files run [unfolded serve]]) (rule that)
    note fetch = candidates_hold [OF stored cands]
    note ics = numbered_chunks [OF stored refl]
    have len: "length ?ics = (length B + n - 1) div n"
      using arg_cong [of _ _ length, OF conjunct1 [OF conjunct2 [OF stored [unfolded stored_as_def]]]] by simp
    have "(length B + n - 1) div n * n \<le> length B + n - 1" by simp
    then have short: "length ?ics * n < length B + n" unfolding len using n m(2) by linarith
    have whole: "length B - 1 - 0 + 1 = length B" "0 div n = 0" using m(2) by simp_all
    have unbroken: "rsp_cut rsp = None \<longleftrightarrow> (\<forall>ic \<in> set ?ics. \<not> isl (chunk_had env storage cands (snd ic)))"
      by (rule stream_unbroken [OF fetch same n refl, where i = 0])
         (use ics(1,2) short stream [unfolded size(2) whole] in auto)
    have body: "rsp_cut rsp = None \<Longrightarrow> rsp_body rsp = B"
      using streamed_slice [OF stored _ _ cands, of 0 "length B - 1" u "rsp_body rsp" "rsp_cut rsp" t]
        stream [unfolded size(2)] m(2) by simp
    have gather: "(\<exists>b. fst (gather_chunks env storage cands n (length B) ?ics u) = Inr b) \<longleftrightarrow>
          (\<forall>ic \<in> set ?ics. \<not> isl (chunk_had env storage cands (snd ic)))"
      "\<And>b. fst (gather_chunks env storage cands n (length B) ?ics u) = Inr b \<Longrightarrow> b = B"
      using gather_exact [OF fetch same n, where ics = ?ics and i = 0 and s = u] ics by auto
    have "assemble_file_bytes env storage file s = http (gather_chunks env storage cands n (length B) ?ics) u"
      using assemble_parts [OF quiet _ ch res] m size(2) by simp
    then have "fst (assemble_file_bytes env storage file s) =
        map_sum http_err id (fst (gather_chunks env storage cands n (length B) ?ics u))"
      by (simp add: http_def em_map_err_def split: prod.splits)
    then show ?thesis
      using gather unbroken body by (cases "fst (gather_chunks env storage cands n (length B) ?ics u)") auto
qed

section \<open>A stored file\<close>

definition telegram_env :: server_env where
  "telegram_env = quiet_env\<lparr>en_fetch := (\<lambda>_ tid _. if tid = ''tg'' then Inr ''abcd'' else if tid = ''th'' then Inr ''ef'' else Inl Unknown)\<rparr>"

definition stored_file :: file_row where
  "stored_file = (plain_file ''f'' ''st'' ''a.txt'')\<lparr>f_size := 6, f_chunk_size := Some 4\<rparr>"

definition file_server :: server where
  "file_server = two_storages\<lparr>sv_files := (sv_files two_storages)\<lparr>fd_files := [stored_file],
     fd_chunks := [\<lparr>ck_id = ''l'', ck_file = ''f'', ck_position = 1\<rparr>, \<lparr>ck_id = ''k'', ck_file = ''f'', ck_position = 0\<rparr>],
     fd_replicas := [new_uploaded ''r'' ''k'' ''c'' ''lost'' 7, new_uploaded ''s'' ''k'' ''d'' ''tg'' 8,
       new_uploaded ''u'' ''l'' ''c'' ''th'' 9]\<rparr>\<rparr>"

lemma quiet_telegram: "quiet telegram_env"
  by (simp add: quiet_def telegram_env_def quiet_env_def)

lemma file_server_stores: "stored_as telegram_env ''st'' ''abcdef'' 4 ''f'' (sv_files file_server)"
proof -
  have pos: "map ck_position (sorted_chunks ''f'' (sv_files file_server)) = map int [0..<(length ''abcdef'' + 4 - 1) div 4]"
    by code_simp
  have copies: "(p, tid) \<in> {(0, ''lost''), (0, ''tg''), (1, ''th'')}"
    if "(p, tid) \<in> set (list_chunks_with_replica_for_channel ''f'' channel (sv_files file_server))" for channel p tid
    using that by (auto simp: list_chunks_with_replica_for_channel_def file_server_def new_uploaded_def map_filter_simps
        split: if_splits)
  have "c = chunk_of ''abcdef'' 4 (nat p)"
    if "(p, tid) \<in> {(0, ''lost''), (0, ''tg''), (1, ''th'')}" "en_fetch telegram_env k tid ''st'' = Inr c" for p tid k c
    using that by (auto simp: telegram_env_def chunk_of_def)
  note right = this
  show ?thesis
    unfolding stored_as_def
  proof (intro conjI allI impI)
    fix channel position tid k c
    assume "(position, tid) \<in> set (list_chunks_with_replica_for_channel ''f'' channel (sv_files file_server))"
      and "en_fetch telegram_env k tid ''st'' = Inr c"
    then show "c = chunk_of ''abcdef'' 4 (nat position)" by (intro right copies)
  qed (simp, rule pos)
qed

lemma stored_file_size: "f_size stored_file = int (length ''abcdef'')" "chunk_size_of telegram_env stored_file = 4" "f_id stored_file = ''f''"
  by (simp_all add: stored_file_def chunk_size_of_def plain_file_def)

lemma range_2_4: "parse_bytes_range (Some ''bytes=2-4'') (length ''abcdef'') = Inr (Some (2, 4))"
proof -
  have parts: "strip_prefix ''bytes='' (trim ''bytes=2-4'') = Some ''2-4''" "split_once CHR ''-'' ''2-4'' = Some (''2'', ''4'')"
    by code_simp+
  have "list_all is_digit ''2'' \<and> list_all is_digit ''4'' \<and> digits_val 0 ''2'' = 2 \<and> digits_val 0 ''4'' = 4" by code_simp
  then have "parse_unsigned u64_max ''2'' = Some 2" "parse_unsigned u64_max ''4'' = Some 4"
    by (simp_all add: parse_unsigned_def u64_max_def)
  then show ?thesis by (simp add: parse_bytes_range_def parts)
qed

text \<open>The first copy of the first chunk is lost; the range crosses the border of the chunks.\<close>

theorem download_serves_the_range_witness:
  "\<exists>rsp t. download_file telegram_env ''st'' ''a.txt'' stored_file None (Some ''bytes=2-4'') file_server = (Inr rsp, t) \<and>
     rsp_body rsp = ''cde'' \<and> prefix (rsp_body rsp) (slice_of ''abcdef'' (Some (2, 4)))"
proof -
  let ?run = "download_file telegram_env ''st'' ''a.txt'' stored_file None (Some ''bytes=2-4'') file_server"
  have size: "file_size_of stored_file = length ''abcdef''" "0 < length ''abcdef''" by (simp_all add: file_size_of_def stored_file_def)
  have ends: "(2, 4) = (case Some (2, 4) of None \<Rightarrow> (0, length ''abcdef'' - 1) | Some r \<Rightarrow> r)" by simp
  obtain headers status where serve: "?run = serve_bytes telegram_env ''st'' stored_file
      (sorted_chunks (f_id stored_file) (sv_files file_server)) 2 4 status headers (file_server\<lparr>sv_steps := Suc (sv_steps file_server)\<rparr>)"
    by (rule download_file_serves [OF quiet_telegram size range_2_4 ends, of "''st''" "''a.txt''" None file_server]) (rule that)
  have "map_sum (\<lambda>_. ()) rsp_body (fst (serve_bytes telegram_env ''st'' stored_file
      (sorted_chunks (f_id stored_file) (sv_files file_server)) 2 4 status headers (file_server\<lparr>sv_steps := Suc (sv_steps file_server)\<rparr>))) = Inr ''cde''"
    by code_simp
  then obtain rsp where rsp: "fst ?run = Inr rsp" "rsp_body rsp = ''cde''" unfolding serve [symmetric] by (cases "fst ?run") auto
  then have run: "?run = (Inr rsp, snd ?run)" by (metis prod.collapse)
  have "prefix (rsp_body rsp) (slice_of ''abcdef'' (Some (2, 4)))"
    using download_serves_the_range [OF quiet_telegram _ stored_file_size(1,2) range_2_4 run] file_server_stores stored_file_size(3)
    by simp
  then show ?thesis using run rsp by metis
qed

theorem assembled_equals_downloaded_witness:
  "\<exists>rsp t. download_file telegram_env ''st'' ''a.txt'' stored_file None None file_server = (Inr rsp, t) \<and>
     rsp_body rsp = ''abcdef'' \<and> fst (assemble_file_bytes telegram_env ''st'' stored_file file_server) = Inr (rsp_body rsp)"
proof -
  let ?run = "download_file telegram_env ''st'' ''a.txt'' stored_file None None file_server"
  have size: "file_size_of stored_file = length ''abcdef''" "0 < length ''abcdef''" by (simp_all add: file_size_of_def stored_file_def)
  have all: "parse_bytes_range None (length ''abcdef'') = Inr None" by (simp add: parse_bytes_range_def)
  have ends: "(0, 5) = (case None of None \<Rightarrow> (0, length ''abcdef'' - 1) | Some r \<Rightarrow> r)" by simp
  obtain headers status where serve: "?run = serve_bytes telegram_env ''st'' stored_file
      (sorted_chunks (f_id stored_file) (sv_files file_server)) 0 5 status headers (file_server\<lparr>sv_steps := Suc (sv_steps file_server)\<rparr>)"
    by (rule download_file_serves [OF quiet_telegram size all ends, of "''st''" "''a.txt''" None file_server]) (rule that)
  have "map_sum (\<lambda>_. ()) rsp_body (fst (serve_bytes telegram_env ''st'' stored_file
      (sorted_chunks (f_id stored_file) (sv_files file_server)) 0 5 status headers (file_server\<lparr>sv_steps := Suc (sv_steps file_server)\<rparr>))) = Inr ''abcdef''"
    by code_simp
  then obtain rsp where rsp: "fst ?run = Inr rsp" "rsp_body rsp = ''abcdef''" unfolding serve [symmetric] by (cases "fst ?run") auto
  then have run: "?run = (Inr rsp, snd ?run)" by (metis prod.collapse)
  have same: "en_fetch telegram_env k = en_fetch telegram_env 0" for k by (simp add: telegram_env_def)
  obtain b where b: "fst (assemble_file_bytes telegram_env ''st'' stored_file file_server) = Inr b"
  proof -
    have "\<not> isl (fst (assemble_file_bytes telegram_env ''st'' stored_file file_server))" by code_simp
    then show thesis using that by (metis sum.collapse(2))
  qed
  have "rsp_body rsp = b"
    using assembled_equals_downloaded [OF quiet_telegram _ stored_file_size(1,2) same run] file_server_stores stored_file_size(3) b
    by simp
  then show ?thesis using run rsp b by metis
qed

section \<open>Names that stay where they belong\<close>

lemma ascii_name_plain: "list_all (\<lambda>c. let n = (of_char c :: nat) in 32 \<le> n \<and> n \<le> 126 \<and> c \<noteq> CHR 0x22 \<and> c \<noteq> CHR 0x5C) (ascii_name filename)"
proof -
  have "list_all (\<lambda>c. let n = (of_char c :: nat) in 32 \<le> n \<and> n \<le> 126 \<and> c \<noteq> CHR 0x22 \<and> c \<noteq> CHR 0x5C) (concat (map ascii_char filename))"
    by (induction filename) (auto simp: ascii_char_def Let_def)
  then show ?thesis by (auto simp: ascii_name_def Let_def)
qed

lemma hex_upper_plain: "n < 16 \<Longrightarrow> is_alnum (hex_upper n)"
  by (auto simp: hex_upper_def is_alnum_def Let_def)

lemma alnum_plain: "is_alnum c \<Longrightarrow> 32 \<le> (of_char c :: nat) \<and> (of_char c :: nat) \<le> 126 \<and> c \<noteq> CHR 0x22"
  by (auto simp: is_alnum_def Let_def)

lemma percent_encode_plain:
  "list_all (\<lambda>c. 32 \<le> (of_char c :: nat) \<and> (of_char c :: nat) \<le> 126 \<and> c \<noteq> CHR 0x22) (percent_encode s)"
proof (induction s)
  case (Cons c s)
  have "(of_char c :: nat) div 16 < 16" using nat_of_char_less_256 [of c] by (simp add: div_less_iff_less_mult)
  then have "is_alnum (hex_upper ((of_char c :: nat) div 16))" "is_alnum (hex_upper ((of_char c :: nat) mod 16))"
    by (simp_all add: hex_upper_plain)
  then show ?case using Cons alnum_plain by (auto simp: percent_encode_def)
qed (simp add: percent_encode_def)

text \<open>
  A file name cannot break out of its header: whatever bytes the name has, the
  \<open>Content-Disposition\<close> of a download is printable ASCII with exactly the two quotes around the
  fallback name.
\<close>

theorem disposition_header_safe:
  "list_all (\<lambda>c. 32 \<le> (of_char c :: nat) \<and> (of_char c :: nat) \<le> 126)
      (content_disposition_value (if want_inline then ''inline'' else ''attachment'') filename) \<and>
   length (filter (\<lambda>c. c = CHR 0x22) (content_disposition_value (if want_inline then ''inline'' else ''attachment'') filename)) = 2"
proof -
  let ?d = "if want_inline then ''inline'' else ''attachment''"
  let ?v = "?d @ ''; filename='' @ [CHR 0x22] @ ascii_name filename @ [CHR 0x22] @
              ''; filename*=UTF-8'' @ [CHR 0x27, CHR 0x27] @ percent_encode filename"
  have name: "list_all (\<lambda>c. 32 \<le> (of_char c :: nat) \<and> (of_char c :: nat) \<le> 126) (ascii_name filename)"
      "filter (\<lambda>c. c = CHR 0x22) (ascii_name filename) = []"
    using ascii_name_plain [of filename] by (auto simp: list_all_iff Let_def filter_empty_conv)
  have enc: "list_all (\<lambda>c. 32 \<le> (of_char c :: nat) \<and> (of_char c :: nat) \<le> 126) (percent_encode filename)"
      "filter (\<lambda>c. c = CHR 0x22) (percent_encode filename) = []"
    using percent_encode_plain [of filename] by (auto simp: list_all_iff filter_empty_conv)
  have plain: "list_all (\<lambda>c. 32 \<le> (of_char c :: nat) \<and> (of_char c :: nat) \<le> 126) ?v" using name enc by simp
  then have "header_chars ?v" unfolding header_chars_def Let_def list_all_iff by fastforce
  then have "content_disposition_value ?d filename = ?v" by (simp add: content_disposition_value_def)
  then show ?thesis using plain name(2) enc(2) by simp
qed

text \<open>No entry of a folder's archive leads out of the directory it is unpacked in.\<close>

lemma zip_entries_stay_inside:
  "zip_entries env storage root channels files s = (Inr entries, t) \<Longrightarrow> (name, content) \<in> set entries \<Longrightarrow>
     name \<noteq> [] \<and> \<not> starts_with ''/'' name \<and> ''..'' \<notin> set (split_on CHR ''/'' name)"
proof (induction files arbitrary: s entries t)
  case (Cons x files)
  show ?case
  proof (cases "zip_entry_name root x")
    case None
    then show ?thesis using Cons by simp
  next
    case (Some n)
    have n: "n \<noteq> [] \<and> \<not> starts_with ''/'' n \<and> ''..'' \<notin> set (split_on CHR ''/'' n)"
      using Some by (auto simp: zip_entry_name_def Let_def list_ex_iff split: if_splits option.splits)
    obtain content' rest u v where entries: "entries = (n, content') # rest"
        and rest: "zip_entries env storage root channels files u = (Inr rest, v)"
      using Cons.prems(1) Some by (auto simp: em_return_def elim!: em_bindE)
    show ?thesis using Cons.IH [OF rest] Cons.prems(2) n entries by auto
  qed
qed (simp add: em_return_def)

lemma strip_prefix_set: "strip_prefix p s = Some r \<Longrightarrow> set r \<subseteq> set s"
  by (induction p s rule: strip_prefix.induct) (auto split: if_splits)

lemma strip_any_set: "strip_any ps s = Some r \<Longrightarrow> set r \<subseteq> set s"
  by (induction ps) (auto split: option.splits dest: strip_prefix_set)

lemma strip_all_set: "set (strip_all ps s) \<subseteq> set s"
proof (induction ps s rule: strip_all.induct)
  case (1 ps s)
  show ?case
    by (subst strip_all.simps) (use 1 in \<open>auto split: option.splits dest: strip_any_set\<close>)
qed

lemma trim_set: "set (trim s) \<subseteq> set s"
  using strip_all_set [of ws_chars s] strip_all_set [of "map rev ws_chars" "rev (strip_all ws_chars s)"]
  by (auto simp: trim_def trim_start_def trim_end_def)

lemma split_either_pieces: "p \<in> set (split_either s) \<Longrightarrow> CHR ''/'' \<notin> set p"
  by (induction s arbitrary: p rule: split_either.induct) (auto split: if_splits list.splits)

lemma split_either_nonempty: "split_either s \<noteq> []"
  by (cases s) (auto split: list.splits)

definition clean_segment :: "string \<Rightarrow> bool" where
  "clean_segment p \<longleftrightarrow> p \<noteq> [] \<and> p \<noteq> ''.'' \<and> p \<noteq> ''..'' \<and> CHR ''/'' \<notin> set p"

lemma parent_parts_clean:
  "parent_parts ps = Inr qs \<Longrightarrow> (\<And>p. p \<in> set ps \<Longrightarrow> CHR ''/'' \<notin> set p) \<Longrightarrow> q \<in> set qs \<Longrightarrow> clean_segment q"
proof (induction ps arbitrary: qs)
  case (Cons p ps)
  have "CHR ''/'' \<notin> set (trim p)" using Cons.prems(2) [of p] trim_set [of p] by auto
  then show ?case using Cons by (auto simp: Let_def clean_segment_def res_bind_def split: if_splits sum.splits)
qed simp

text \<open>
  An upload lands inside the folder it names: the path made of a parent folder and a file name,
  if there is one, is a file's path all of whose segments are ordinary names, and the last of
  them is the name's own base.
\<close>

theorem constructed_path_clean:
  assumes "construct_path parent filename = Inr path"
  shows "path \<noteq> [] \<and> \<not> is_folder_path path \<and> list_all clean_segment (split_on CHR ''/'' path) \<and>
     last (split_on CHR ''/'' path) = file_basename filename"
proof -
  obtain parts where parts: "parent_parts (split_either parent) = Inr parts"
    using assms by (auto simp: construct_path_def normalize_parent_def res_bind_def split: sum.splits)
  let ?n = "file_basename filename"
  have clean: "clean_segment q" if "q \<in> set parts" for q
    using parent_parts_clean [OF parts _ that] split_either_pieces by blast
  have n: "?n \<noteq> []" "?n \<noteq> ''.''" "?n \<noteq> ''..''" and "\<not> ends_with ''/'' path"
    and path: "path = (if join_with CHR ''/'' parts = [] then ?n else join_with CHR ''/'' parts @ ''/'' @ ?n)"
    using assms parts by (auto simp: construct_path_def normalize_parent_def res_bind_def Let_def split: if_splits)
  have "CHR ''/'' \<notin> set (last (split_either (trim filename)))"
    by (rule split_either_pieces [OF last_in_set [OF split_either_nonempty]])
  then have base: "clean_segment ?n"
    using n trim_set [of "last (split_either (trim filename))"] by (auto simp: clean_segment_def file_basename_def)
  have "path = join_with CHR ''/'' (parts @ [?n])"
  proof (cases "parts = []")
    case False
    then have "join_with CHR ''/'' parts \<noteq> []"
      using clean by (cases parts; cases "tl parts") (auto simp: clean_segment_def)
    moreover have "join_with c (xs @ [y]) = join_with c xs @ c # y" if "xs \<noteq> []" for c xs and y :: string
      using that by (induction c xs rule: join_with.induct) (auto simp: neq_Nil_conv)
    ultimately show ?thesis using path False by simp
  qed (simp add: path)
  then have segs: "split_on CHR ''/'' path = parts @ [?n]"
    using split_join [of "parts @ [?n]" "CHR ''/''"] clean base by (auto simp: clean_segment_def)
  show ?thesis
    using n path segs clean base \<open>\<not> ends_with ''/'' path\<close>
    by (auto simp: list_all_iff is_folder_path_def ends_with_def strip_suffix_def)
qed

theorem constructed_path_clean_witness:
  "construct_path '' docs/./a/b '' ''x/y.txt '' = Inr ''docs/a/b/y.txt'' \<and>
   list_all clean_segment (split_on CHR ''/'' ''docs/a/b/y.txt'')"
proof -
  have run: "construct_path '' docs/./a/b '' ''x/y.txt '' = Inr ''docs/a/b/y.txt''" by code_simp
  show ?thesis using run constructed_path_clean [OF run] by blast
qed

end
