(* ===== verification/StorageManager.thy ===== *)
theory StorageManager
  imports Downloads "HOL-Library.Multiset"
begin

text \<open>
  Relaying an upload to Telegram (src/sarca/src/services/storage_manager.rs): which chunks of the
  spooled file are still missing, sending and recording them, asking for copies, the thumbnail and
  the preview, and the mark that makes the file visible. Chunks are sent together and accepted in
  the order \<open>en_completion\<close> gives; each is recorded when it has been accepted, and the first error
  ends the attempt. Progress reports, the preview cache on disk and the removal of the spooled file
  are not part of the state; what the image codecs make of a file is part of the environment.
\<close>

section \<open>What is left to send\<close>

definition plan_count :: "nat \<Rightarrow> nat \<Rightarrow> nat" where
  "plan_count bytes chunk_size = (bytes + chunk_size - 1) div chunk_size"

definition remaining_chunk_plan :: "nat \<Rightarrow> nat \<Rightarrow> nat set \<Rightarrow> (nat \<times> nat \<times> nat) list \<times> nat" where
  "remaining_chunk_plan bytes chunk_size stored =
     (let chunk_size = max 1 chunk_size;
          all = filter (\<lambda>(position, offset, len). \<not> (bytes \<le> offset \<or> len = 0))
            (map (\<lambda>position. (position, position * chunk_size, min chunk_size (bytes - position * chunk_size)))
              [0..<plan_count bytes chunk_size])
      in (filter (\<lambda>(position, _). position \<notin> stored) all,
          sum_list (map (\<lambda>(_, _, len). len) (filter (\<lambda>(position, _). position \<in> stored) all))))"

section \<open>The channel to send to\<close>

definition primary_of :: "channel_row list \<Rightarrow> int \<Rightarrow> channel_row option" where
  "primary_of active primary = (case find (\<lambda>c. sc_position c = primary) active of
     Some c \<Rightarrow> Some c
   | None \<Rightarrow> (case active of [] \<Rightarrow> None | c # _ \<Rightarrow> Some c))"

definition resolve_primary_channel :: "server_env \<Rightarrow> uuid \<Rightarrow> int \<Rightarrow> (channel_row \<times> channel_row list) srv" where
  "resolve_primary_channel env storage primary =
     em_bind (db_read env (list_by_storage storage)) (\<lambda>channels.
       let active = filter is_active channels
       in case primary_of active primary of
            None \<Rightarrow> em_throw NoActiveChannel
          | Some c \<Rightarrow> em_then (em_when (sc_position c \<noteq> primary)
                (atomically env (\<lambda>_ _ s. (Inr (), set_primary_position storage (sc_position c) s))))
              (em_return (c, active)))"

definition storage_of_file :: "server_env \<Rightarrow> uuid \<Rightarrow> storage_row srv" where
  "storage_of_file env fid = atomically env (\<lambda>_ _ s. (storage_by_file_id fid s, s))"

section \<open>One chunk\<close>

text \<open>A position is an \<open>i16\<close>: one that does not fit is written as the largest.\<close>

definition upload_chunk_from_file ::
  "server_env \<Rightarrow> uuid \<Rightarrow> channel_row \<Rightarrow> uuid \<Rightarrow> nat \<Rightarrow> string \<Rightarrow> uuid srv" where
  "upload_chunk_from_file env storage target fid position part =
     em_bind (remote (\<lambda>n. en_send env n part (sc_chat target) storage)) (\<lambda>(tid, message).
       db_run env (\<lambda>_ ids db.
         let (r, db') = create_chunk_with_replica \<lparr>ck_id = ids 0, ck_file = fid, ck_position = min 32767 (int position)\<rparr>
               (new_uploaded (ids 1) (ids 0) (sc_id target) tid message) db
         in (map_sum id (\<lambda>_. ids 0) r, db')))"

definition mark_relayed :: "uuid \<Rightarrow> nat \<Rightarrow> unit srv" where
  "mark_relayed fid len = em_modify (\<lambda>s. s\<lparr>sv_relays := relayed fid len (sv_relays s)\<rparr>)"

definition relay_chunk ::
  "server_env \<Rightarrow> uuid \<Rightarrow> channel_row list \<Rightarrow> uuid \<Rightarrow> string \<Rightarrow> nat \<times> nat \<times> nat \<Rightarrow> uuid srv" where
  "relay_chunk env storage channels fid content = (\<lambda>(position, offset, len).
     em_bind (upload_chunk_from_file env storage (channels ! (position mod length channels)) fid position
         (take len (drop offset content))) (\<lambda>i.
       em_then (mark_relayed fid len) (em_return i)))"

section \<open>Thumbnail and preview\<close>

datatype thumb_kind = ImageKind | VideoKind | PdfKind

definition ffmpeg_image_extensions :: "string list" where
  "ffmpeg_image_extensions = [''heic'', ''heif'', ''avif'']"

definition path_extension :: "string \<Rightarrow> string option" where
  "path_extension path = (case path_file_name path of
     None \<Rightarrow> None
   | Some name \<Rightarrow> (case rsplit_once CHR ''.'' name of
       None \<Rightarrow> None
     | Some (stem, ext) \<Rightarrow> if stem = [] then None else Some ext))"

definition detect_kind :: "string \<Rightarrow> thumb_kind option" where
  "detect_kind path = (case path_extension path of
     None \<Rightarrow> None
   | Some e \<Rightarrow>
       (let ext = to_ascii_lowercase e
        in if ext \<in> set [''jpg'', ''jpeg'', ''png'', ''gif'', ''webp'', ''bmp''] then Some ImageKind
           else if ext \<in> set ffmpeg_image_extensions then Some ImageKind
           else if ext \<in> set [''mp4'', ''mkv'', ''webm'', ''mov'', ''avi'', ''m4v''] then Some VideoKind
           else if ext = ''pdf'' then Some PdfKind else None))"

definition is_preview_image :: "string \<Rightarrow> bool" where
  "is_preview_image path \<longleftrightarrow> detect_kind path = Some ImageKind"

datatype preview_source = Ready string | NeedsGeneration | Skip

definition resolve_preview_bytes :: "string option \<Rightarrow> bool \<Rightarrow> preview_source" where
  "resolve_preview_bytes precomputed is_image = (case precomputed of
     Some bytes \<Rightarrow> Ready bytes
   | None \<Rightarrow> if is_image then NeedsGeneration else Skip)"

definition u64_max_bytes :: nat where "u64_max_bytes = 2 ^ 64 - 1"

definition maybe_upload_thumb ::
  "server_env \<Rightarrow> file_row \<Rightarrow> uuid \<Rightarrow> int \<Rightarrow> string \<Rightarrow> string option \<Rightarrow> string option srv" where
  "maybe_upload_thumb env file storage chat content client_thumb =
     (let made = (case client_thumb of
            Some thumb \<Rightarrow> Inr (Some (thumb, None))
          | None \<Rightarrow> en_thumbnail env content (f_path file)
              (case f_chunk_size file of Some n \<Rightarrow> if 0 \<le> n then nat n else u64_max_bytes | None \<Rightarrow> u64_max_bytes))
      in case made of
           Inl _ \<Rightarrow> em_return None
         | Inr None \<Rightarrow> em_return None
         | Inr (Some (thumb, preview)) \<Rightarrow>
             em_bind (remote (\<lambda>n. en_send env n thumb chat storage)) (\<lambda>(tid, message).
             em_then (db_run env (\<lambda>now _ db. set_thumb (f_id file) tid message now db))
               (em_return preview)))"

text \<open>A preview of seven tenths of the original or more is not worth a document.\<close>

definition store_preview_document ::
  "server_env \<Rightarrow> uuid \<Rightarrow> nat \<Rightarrow> uuid \<Rightarrow> int \<Rightarrow> string \<Rightarrow> unit srv" where
  "store_preview_document env fid original_size storage chat jpeg =
     (if original_size * 7 \<le> length jpeg * 10 then em_return ()
      else em_bind (remote (\<lambda>n. en_send env n jpeg chat storage)) (\<lambda>(tid, message).
        em_then (db_run env (\<lambda>now _ db. set_preview fid tid message now db)) (em_return ())))"

definition maybe_upload_preview ::
  "server_env \<Rightarrow> file_row \<Rightarrow> uuid \<Rightarrow> int \<Rightarrow> string \<Rightarrow> string option \<Rightarrow> unit srv" where
  "maybe_upload_preview env file storage chat content precomputed =
     (case (case resolve_preview_bytes precomputed (is_preview_image (f_path file)) of
          Ready bytes \<Rightarrow> Some bytes
        | Skip \<Rightarrow> None
        | NeedsGeneration \<Rightarrow> (case en_preview env content of Inr bytes \<Rightarrow> Some bytes | Inl _ \<Rightarrow> None)) of
        None \<Rightarrow> em_return ()
      | Some jpeg \<Rightarrow> store_preview_document env (f_id file) (file_size_of file) storage chat jpeg)"

definition backfill_thumb :: "server_env \<Rightarrow> uuid \<Rightarrow> string \<Rightarrow> unit srv" where
  "backfill_thumb env fid jpeg =
     em_bind (em_attempt (
       em_bind (storage_of_file env fid) (\<lambda>storage.
       em_bind (resolve_primary_channel env (so_id storage) (so_primary storage)) (\<lambda>(primary, _).
       em_bind (remote (\<lambda>n. en_send env n jpeg (sc_chat primary) (so_id storage))) (\<lambda>(tid, message).
         db_run env (\<lambda>now _ db. set_thumb fid tid message now db)))))) (\<lambda>_. em_return ())"

definition backfill_preview :: "server_env \<Rightarrow> uuid \<Rightarrow> string \<Rightarrow> unit srv" where
  "backfill_preview env fid jpeg =
     em_bind (em_attempt (
       em_bind (db_try env (get_by_id fid)) (\<lambda>file.
       em_bind (storage_of_file env fid) (\<lambda>storage.
       em_bind (resolve_primary_channel env (so_id storage) (so_primary storage)) (\<lambda>(primary, _).
         store_preview_document env fid (file_size_of file) (so_id storage) (sc_chat primary) jpeg))))) (\<lambda>_. em_return ())"

section \<open>The upload\<close>

record upload_data =
  ud_file :: uuid
  ud_content :: string
  ud_size :: int
  ud_chunk_size :: nat
  ud_thumb :: "string option"

definition pending_copies :: "(nat \<Rightarrow> uuid) \<Rightarrow> uuid list \<Rightarrow> channel_row list \<Rightarrow> replica_row list" where
  "pending_copies ids chunks channels =
     map (\<lambda>(k, (chunk, channel)). new_pending (ids k) chunk (sc_id channel))
       (zip [0..<length (List.product chunks channels)] (List.product chunks channels))"

text \<open>Both derived documents are best effort: their errors are logged.\<close>

definition upload_derived :: "server_env \<Rightarrow> upload_data \<Rightarrow> uuid \<Rightarrow> int \<Rightarrow> unit srv" where
  "upload_derived env d storage chat =
     em_bind (em_attempt (db_try env (get_by_id (ud_file d)))) (\<lambda>found. case found of
       Inl _ \<Rightarrow> em_return ()
     | Inr file \<Rightarrow>
         em_bind (em_attempt (maybe_upload_thumb env file storage chat (ud_content d) (ud_thumb d))) (\<lambda>derived.
         em_then (em_attempt (maybe_upload_preview env file storage chat (ud_content d)
             (case derived of Inr preview \<Rightarrow> preview | Inl _ \<Rightarrow> None)))
           (em_return ())))"

text \<open>After the last chunk: a pending copy of every chunk in every channel, the derived documents, the mark.\<close>

definition upload_finish :: "server_env \<Rightarrow> upload_data \<Rightarrow> uuid \<Rightarrow> channel_row \<Rightarrow> channel_row list \<Rightarrow> uuid list \<Rightarrow> unit srv" where
  "upload_finish env d storage primary channels chunks =
     em_then (db_run env (\<lambda>_ ids db. insert_batch (pending_copies ids chunks channels) db))
    (em_then (upload_derived env d storage (sc_chat primary))
    (em_then (db_run env (\<lambda>now _ db. set_as_uploaded (ud_file d) now db)) (em_return ())))"

text \<open>The chunks that are not stored yet, given the positions and ids of those that are.\<close>

definition upload_relay ::
  "server_env \<Rightarrow> upload_data \<Rightarrow> uuid \<Rightarrow> channel_row \<Rightarrow> channel_row list \<Rightarrow> (int \<times> uuid) list \<Rightarrow> unit srv" where
  "upload_relay env d storage primary channels stored =
     (let (plan, resumed) = remaining_chunk_plan (nat (max 0 (ud_size d))) (max 1 (ud_chunk_size d))
           (nat ` set (filter (\<lambda>p. 0 \<le> p) (map fst stored)))
      in em_then (mark_relayed (ud_file d) resumed)
        (em_bind (em_gets (\<lambda>s. en_completion env (sv_steps s) plan)) (\<lambda>accepted.
         em_bind (em_map (relay_chunk env storage channels (ud_file d) (ud_content d)) accepted) (\<lambda>sent.
           upload_finish env d storage primary channels (map snd stored @ sent)))))"

definition upload :: "server_env \<Rightarrow> upload_data \<Rightarrow> unit srv" where
  "upload env d =
     em_bind (storage_of_file env (ud_file d)) (\<lambda>storage.
     em_bind (resolve_primary_channel env (so_id storage) (so_primary storage)) (\<lambda>(primary, active).
     em_bind (db_read env (list_stored_chunk_positions (ud_file d))) (\<lambda>stored.
       upload_relay env d (so_id storage) primary (primary # filter (\<lambda>c. sc_id c \<noteq> sc_id primary) active) stored)))"

section \<open>What the statements leave alone\<close>

lemma update_row_tables:
  assumes "update_row f now i db = Inr db'"
  shows "fd_chunks db' = fd_chunks db" and "fd_replicas db' = fd_replicas db"
    and "\<forall>r \<in> set (fd_files db'). r \<in> set (fd_files db) \<or> (\<exists>old \<in> set (fd_files db). r = files_touch_updated_at old (f old) now)"
  using assms
  by (auto simp: update_row_def Let_def files_sync_event_update_def row_event_def put_file_def dest: row_get_SomeD
      split: option.splits if_splits)

lemma run_update_tables:
  assumes "run_update err P f now db = (r, db')"
  shows "fd_chunks db' = fd_chunks db" and "fd_replicas db' = fd_replicas db"
proof -
  have "update_rows f now is db = Inr d \<Longrightarrow> fd_chunks d = fd_chunks db \<and> fd_replicas d = fd_replicas db" for "is" d db
    by (induction "is" arbitrary: db) (auto simp: res_bind_def update_row_tables split: sum.splits)
  then show "fd_chunks db' = fd_chunks db" "fd_replicas db' = fd_replicas db"
    using assms by (auto simp: run_update_def update_where_def Let_def res_bind_def split: sum.splits)
qed

text \<open>A property of the rows of one file that an update keeps.\<close>

lemma run_update_rows:
  assumes "run_update err P f now db = (r, db')" and "\<forall>x \<in> set (fd_files db). Q x"
    and keep: "\<And>x. Q x \<Longrightarrow> Q (files_touch_updated_at x (f x) now)"
  shows "\<forall>x \<in> set (fd_files db'). Q x"
proof -
  have "\<forall>x \<in> set (fd_files d). Q x" if "update_rows f now is db = Inr d" "\<forall>x \<in> set (fd_files db). Q x" for "is" d db
    using that
  proof (induction "is" arbitrary: db)
    case (Cons i "is")
    then obtain e where "update_row f now i db = Inr e" "update_rows f now is e = Inr d"
      by (auto simp: res_bind_def split: sum.splits)
    moreover from this(1) have "\<forall>x \<in> set (fd_files e). Q x"
      using update_row_tables(3) Cons.prems(2) keep by blast
    ultimately show ?case using Cons.IH by blast
  qed simp
  then show ?thesis
    using assms(1,2) by (auto simp: run_update_def update_where_def Let_def res_bind_def split: sum.splits)
qed

lemma create_chunk_with_replica_ok:
  assumes "create_chunk_with_replica k r db = (Inr (), db')"
  shows "db' = db\<lparr>fd_chunks := fd_chunks db @ [k], fd_replicas := fd_replicas db @ [r]\<rparr>"
    and "\<forall>c \<in> set (fd_chunks db). ck_id c \<noteq> ck_id k \<and> \<not> (ck_file c = ck_file k \<and> ck_position c = ck_position k)"
  using assms by (auto simp: create_chunk_with_replica_def list_ex_iff split: option.splits if_splits)

lemma create_chunk_with_replica_refused:
  "create_chunk_with_replica k r db = (Inl e, db') \<Longrightarrow> db' = db"
  by (auto simp: create_chunk_with_replica_def split: option.splits if_splits)

lemma insert_ignore_rows:
  "insert_ignore rs db = Some out \<Longrightarrow> \<exists>new. out = fd_replicas db @ new \<and> set new \<subseteq> set rs \<and>
     rp_chunk ` set new \<subseteq> ck_id ` set (fd_chunks db)"
proof (induction rs db rule: insert_ignore.induct)
  case (2 r rs db)
  show ?case
  proof (cases "list_ex (\<lambda>x. rp_id x = rp_id r \<or> rp_chunk x = rp_chunk r \<and> rp_channel x = rp_channel r) (fd_replicas db)")
    case False
    then have fk: "rp_chunk r \<in> ck_id ` set (fd_chunks db)" "rp_channel r \<in> sc_id ` set (fd_channels db)"
      and rest: "insert_ignore rs (db\<lparr>fd_replicas := fd_replicas db @ [r]\<rparr>) = Some out"
      using "2.prems" by (auto split: if_splits)
    obtain new where "out = (fd_replicas db @ [r]) @ new" "set new \<subseteq> set rs" "rp_chunk ` set new \<subseteq> ck_id ` set (fd_chunks db)"
      using "2.IH"(2) [OF False _ rest] fk by auto
    then show ?thesis using fk by (intro exI [of _ "r # new"]) auto
  next
    case True
    then obtain new where "out = fd_replicas db @ new" "set new \<subseteq> set rs" "rp_chunk ` set new \<subseteq> ck_id ` set (fd_chunks db)"
      using 2 by auto
    then show ?thesis by (intro exI [of _ new]) auto
  qed
qed (auto intro: exI [of _ "[]"])

section \<open>A partial upload\<close>

text \<open>
  What an attempt may leave behind of a file with content \<open>B\<close> in chunks of \<open>n\<close> bytes: every chunk
  has its own position within the file and a document, and whatever document it has is the part of
  \<open>B\<close> at its position. The row of the file says its size and the size of its chunks.
\<close>

definition own_chunks :: "uuid \<Rightarrow> files_db \<Rightarrow> chunk_row list" where
  "own_chunks fid db = filter (\<lambda>c. ck_file c = fid) (fd_chunks db)"

definition holds_part :: "server_env \<Rightarrow> string \<Rightarrow> nat \<Rightarrow> int \<Rightarrow> replica_row \<Rightarrow> bool" where
  "holds_part env B n position r \<longleftrightarrow> (rp_status r = ''uploaded'' \<longrightarrow> (\<forall>tid. rp_file_id r = Some tid \<longrightarrow>
     (\<forall>st k x. en_fetch env k tid st = Inr x \<longrightarrow> x = chunk_of B n (nat position))))"

definition described :: "uuid \<Rightarrow> string \<Rightarrow> nat \<Rightarrow> file_row \<Rightarrow> bool" where
  "described fid B n r \<longleftrightarrow> (f_id r = fid \<longrightarrow> f_size r = int (length B) \<and> f_chunk_size r = Some (int n))"

definition parts_ok :: "server_env \<Rightarrow> string \<Rightarrow> nat \<Rightarrow> uuid \<Rightarrow> files_db \<Rightarrow> bool" where
  "parts_ok env B n fid db \<longleftrightarrow>
     distinct (map ck_position (own_chunks fid db)) \<and>
     (\<forall>c \<in> set (own_chunks fid db). 0 \<le> ck_position c \<and> ck_position c < int (plan_count (length B) n) \<and> stored_chunk db c \<and>
        (\<forall>r \<in> set (fd_replicas db). rp_chunk r = ck_id c \<longrightarrow> holds_part env B n (ck_position c) r)) \<and>
     rp_chunk ` set (fd_replicas db) \<subseteq> ck_id ` set (fd_chunks db) \<and>
     (\<forall>r \<in> set (fd_files db). described fid B n r)"

definition sent_positions :: "uuid \<Rightarrow> files_db \<Rightarrow> int set" where
  "sent_positions fid db = ck_position ` set (own_chunks fid db)"

text \<open>One state after another: the parts stay sound and none is lost.\<close>

definition parts_kept :: "server_env \<Rightarrow> string \<Rightarrow> nat \<Rightarrow> uuid \<Rightarrow> server \<Rightarrow> server \<Rightarrow> bool" where
  "parts_kept env B n fid s t \<longleftrightarrow> (parts_ok env B n fid (sv_files s) \<longrightarrow>
     parts_ok env B n fid (sv_files t) \<and> sent_positions fid (sv_files s) \<subseteq> sent_positions fid (sv_files t))"

lemma parts_kept_preorder: "step_preorder (parts_kept env B n fid)"
  by unfold_locales (auto simp: parts_kept_def)

lemma parts_kept_files: "sv_files t = sv_files s \<Longrightarrow> parts_kept env B n fid s t"
  by (simp add: parts_kept_def)

text \<open>An edit of a row that leaves it where it is and of the size it is.\<close>

definition content_edit :: "(file_row \<Rightarrow> file_row) \<Rightarrow> bool" where
  "content_edit f \<longleftrightarrow> (\<forall>x. f_id (f x) = f_id x \<and> f_path (f x) = f_path x \<and> f_storage (f x) = f_storage x \<and>
     f_deleted (f x) = f_deleted x \<and> f_size (f x) = f_size x \<and> f_chunk_size (f x) = f_chunk_size x)"

lemma parts_kept_update:
  assumes "run_update err P f now (sv_files s) = (r, db')"
    and edit: "content_edit f"
  shows "parts_kept env B n fid s (s\<lparr>sv_files := db'\<rparr>)"
proof -
  have "described fid B n x \<Longrightarrow> described fid B n (files_touch_updated_at x (f x) now)" for x
    using edit by (simp add: content_edit_def described_def files_touch_updated_at_def)
  then have "\<forall>x \<in> set (fd_files (sv_files s)). described fid B n x \<Longrightarrow> \<forall>x \<in> set (fd_files db'). described fid B n x"
    using run_update_rows [OF assms(1), of "described fid B n"] by blast
  then show ?thesis
    using run_update_tables [OF assms(1)]
    by (auto simp: parts_kept_def parts_ok_def own_chunks_def stored_chunk_def sent_positions_def)
qed

lemma parts_kept_pending:
  assumes "insert_batch rs (sv_files s) = (r, db')" and "\<forall>x \<in> set rs. rp_status x = replica_status_pending"
  shows "parts_kept env B n fid s (s\<lparr>sv_files := db'\<rparr>)"
proof (cases "insert_ignore rs (sv_files s)")
  case None
  then show ?thesis using assms(1) by (simp add: insert_batch_def parts_kept_def)
next
  case (Some out)
  obtain new where new: "out = fd_replicas (sv_files s) @ new" "set new \<subseteq> set rs"
      "rp_chunk ` set new \<subseteq> ck_id ` set (fd_chunks (sv_files s))"
    using insert_ignore_rows [OF Some] by blast
  have db': "db' = (sv_files s)\<lparr>fd_replicas := fd_replicas (sv_files s) @ new\<rparr>"
    using assms(1) Some new(1) by (simp add: insert_batch_def)
  have "rp_status x = ''pending''" if "x \<in> set new" for x
    using that new(2) assms(2) by (auto simp: replica_status_pending_def)
  then have "holds_part env B n p x" if "x \<in> set new" for p x using that by (simp add: holds_part_def)
  then show ?thesis
    using new(3) unfolding db'
    by (auto simp: parts_kept_def parts_ok_def own_chunks_def stored_chunk_def sent_positions_def)
qed

text \<open>A document is what was sent under its id.\<close>

definition keeps_documents :: "server_env \<Rightarrow> bool" where
  "keeps_documents env \<longleftrightarrow> (\<forall>k b chat st tid message. en_send env k b chat st = Inr (tid, message) \<longrightarrow>
     (\<forall>k' st' x. en_fetch env k' tid st' = Inr x \<longrightarrow> x = b))"

lemma parts_kept_chunk:
  assumes "create_chunk_with_replica \<lparr>ck_id = i, ck_file = fid, ck_position = int p\<rparr>
      (new_uploaded j i channel tid message) (sv_files s) = (r, db')"
    and p: "p < plan_count (length B) n"
    and doc: "\<And>st k x. en_fetch env k tid st = Inr x \<Longrightarrow> x = chunk_of B n p"
  shows "parts_kept env B n fid s (s\<lparr>sv_files := db'\<rparr>)"
proof (cases r)
  case (Inl e)
  show ?thesis using create_chunk_with_replica_refused [OF assms(1) [unfolded Inl]] by (simp add: parts_kept_def)
next
  case (Inr u)
  let ?db = "sv_files s"
  have "r = Inr ()" using Inr by simp
  note made = create_chunk_with_replica_ok [OF assms(1) [unfolded this]]
  show ?thesis unfolding parts_kept_def
  proof (intro impI conjI)
    assume ok: "parts_ok env B n fid ?db"
    have none: "rp_chunk r' \<noteq> i" if "r' \<in> set (fd_replicas ?db)" for r'
      using that ok made(2) by (force simp: parts_ok_def)
    have "holds_part env B n (int p) (new_uploaded j i channel tid message)"
      using doc by (simp add: holds_part_def new_uploaded_def)
    then show "parts_ok env B n fid (sv_files (s\<lparr>sv_files := db'\<rparr>))"
      using ok made(2) none p unfolding made(1)
      by (auto simp: parts_ok_def own_chunks_def stored_chunk_def new_uploaded_def replica_status_uploaded_def)
    show "sent_positions fid ?db \<subseteq> sent_positions fid (sv_files (s\<lparr>sv_files := db'\<rparr>))"
      unfolding made(1) by (auto simp: sent_positions_def own_chunks_def)
  qed
qed

section \<open>What every step of an upload keeps\<close>

lemma keeps_atomically:
  assumes "step_preorder K" "\<And>k s. K s (en_meanwhile env k s)" "\<And>s m. K s (s\<lparr>sv_steps := m\<rparr>)"
    and "\<And>now ids s r t. f now ids s = (r, t) \<Longrightarrow> K s t"
  shows "em_keeps K (atomically env f)"
proof (rule em_keepsI)
  fix s r t assume run: "atomically env f s = (r, t)"
  obtain r' u where f: "f (en_now env (sv_steps s)) (en_ids env (sv_steps s)) (en_meanwhile env (sv_steps s) s) = (r', u)"
    by fastforce
  then have "t = u\<lparr>sv_steps := Suc (sv_steps s)\<rparr>" using run by (simp add: atomically_def Let_def)
  then show "K s t" using assms(2) assms(4) [OF f] assms(3) step_preorder.trans [OF assms(1)] by metis
qed

lemma keeps_db_run:
  assumes "step_preorder K" "\<And>k s. K s (en_meanwhile env k s)" "\<And>s t. sv_files t = sv_files s \<Longrightarrow> K s t"
    and "\<And>now ids s r db. f now ids (sv_files s) = (r, db) \<Longrightarrow> K s (s\<lparr>sv_files := db\<rparr>)"
  shows "em_keeps K (db_run env f)"
  unfolding db_run_def by (rule keeps_atomically) (use assms in \<open>auto split: prod.splits\<close>)

text \<open>
  A relation between states is kept by an upload when it is kept by other requests, by what does
  not touch the file tables, by edits of rows that leave the size alone, by pending copies and by
  the chunks of the plan.
\<close>

definition plan_item :: "nat \<Rightarrow> nat \<Rightarrow> nat \<times> nat \<times> nat \<Rightarrow> bool" where
  "plan_item bytes n = (\<lambda>(position, offset, len). position < plan_count bytes n \<and> offset = position * n \<and>
     len = min n (bytes - offset))"

definition relay_keeps :: "server_env \<Rightarrow> upload_data \<Rightarrow> (server \<Rightarrow> server \<Rightarrow> bool) \<Rightarrow> bool" where
  "relay_keeps env d K \<longleftrightarrow> step_preorder K \<and> (\<forall>k s. K s (en_meanwhile env k s)) \<and>
     (\<forall>s t. sv_files t = sv_files s \<longrightarrow> K s t) \<and>
     (\<forall>P f now s r db. run_update unknown_error P f now (sv_files s) = (r, db) \<longrightarrow>
        content_edit f \<longrightarrow>
        K s (s\<lparr>sv_files := db\<rparr>)) \<and>
     (\<forall>rs s r db. insert_batch rs (sv_files s) = (r, db) \<longrightarrow> (\<forall>x \<in> set rs. rp_status x = replica_status_pending) \<longrightarrow>
        K s (s\<lparr>sv_files := db\<rparr>)) \<and>
     (\<forall>storage channels x. plan_item (nat (max 0 (ud_size d))) (max 1 (ud_chunk_size d)) x \<longrightarrow>
        em_keeps K (relay_chunk env storage channels (ud_file d) (ud_content d) x))"

lemma pending_copies_pending: "\<forall>x \<in> set (pending_copies ids chunks channels). rp_status x = replica_status_pending"
  by (auto simp: pending_copies_def new_pending_def)

lemma plan_items:
  assumes "remaining_chunk_plan bytes n stored = (plan, resumed)" "0 < n"
  shows "set plan = {(p, p * n, min n (bytes - p * n)) | p. p < plan_count bytes n \<and> p \<notin> stored}"
    and "x \<in> set plan \<Longrightarrow> plan_item bytes n x"
proof -
  have n: "max 1 n = n" using assms(2) by simp
  have "p * n < bytes" if "p < plan_count bytes n" for p
  proof -
    have "(p + 1) * n \<le> bytes + n - 1"
      using that assms(2) by (metis plan_count_def less_eq_div_iff_mult_less_eq Suc_eq_plus1 Suc_leI)
    then show ?thesis using assms(2) by simp
  qed
  then show "set plan = {(p, p * n, min n (bytes - p * n)) | p. p < plan_count bytes n \<and> p \<notin> stored}"
    using assms by (force simp: remaining_chunk_plan_def Let_def n)
  then show "x \<in> set plan \<Longrightarrow> plan_item bytes n x" by (auto simp: plan_item_def)
qed

lemma relay_keeps_parts:
  assumes "relay_keeps env d K"
  shows "em_keeps K (upload_derived env d storage chat)"
    and "em_keeps K (upload_finish env d storage primary channels chunks)"
    and "em_keeps K (storage_of_file env fid)"
    and "em_keeps K (resolve_primary_channel env storage position)"
    and "em_keeps K (db_read env q)" and "em_keeps K (mark_relayed fid len)"
proof -
  have pre: "step_preorder K" and others: "\<And>k s. K s (en_meanwhile env k s)"
    and files: "\<And>s t. sv_files t = sv_files s \<Longrightarrow> K s t"
    using assms by (auto simp: relay_keeps_def)
  have edits: "K s (s\<lparr>sv_files := db\<rparr>)" if "run_update unknown_error P f now (sv_files s) = (r, db)"
      "content_edit f" for P f now s r db
    using assms that unfolding relay_keeps_def by blast
  have pending: "K s (s\<lparr>sv_files := db\<rparr>)" if "insert_batch rs (sv_files s) = (r, db)"
      "\<forall>x \<in> set rs. rp_status x = replica_status_pending" for rs s r db
    using assms that unfolding relay_keeps_def by blast
  note keeps = step_preorder.keeps [OF pre]
  have atomic: "em_keeps K (atomically env f)" if "\<And>now ids s r t. f now ids s = (r, t) \<Longrightarrow> sv_files t = sv_files s"
    for f :: "int \<Rightarrow> (nat \<Rightarrow> uuid) \<Rightarrow> server \<Rightarrow> ('e, 'x) result \<times> server"
    by (rule keeps_atomically) (use pre others files that in auto)
  have rem: "em_keeps K (remote f)" for f :: "nat \<Rightarrow> sarca_error + 'x"
    by (rule em_keepsI) (auto simp: remote_def intro: files)
  have tries: "em_keeps K (db_try env q)" for q :: "files_db \<Rightarrow> (sarca_error, 'x) result"
    unfolding db_try_def by (rule atomic) simp
  have thumb: "em_keeps K (db_run env (\<lambda>now _ db. set_thumb i tid m now db))" for i tid m
    by (rule keeps_db_run) (use pre others files in \<open>auto simp: set_thumb_def content_edit_def intro: edits\<close>)
  have preview: "em_keeps K (db_run env (\<lambda>now _ db. set_preview i tid m now db))" for i tid m
    by (rule keeps_db_run) (use pre others files in \<open>auto simp: set_preview_def content_edit_def intro: edits\<close>)
  have uploaded: "em_keeps K (db_run env (\<lambda>now _ db. set_as_uploaded i now db))" for i
    by (rule keeps_db_run) (use pre others files in \<open>auto simp: set_as_uploaded_def content_edit_def intro: edits\<close>)
  have batch: "em_keeps K (db_run env (\<lambda>_ ids db. insert_batch (pending_copies ids chunks channels) db))"
    by (rule keeps_db_run) (use pre others files pending_copies_pending in \<open>auto intro: pending\<close>)
  have mthumb: "em_keeps K (maybe_upload_thumb env row storage chat content thumb)" for row storage chat content thumb
    unfolding maybe_upload_thumb_def Let_def
    by (intro keeps rem thumb | simp split: prod.split option.split sum.split)+
  have mpreview: "em_keeps K (maybe_upload_preview env row storage chat content given)" for row storage chat content given
    unfolding maybe_upload_preview_def store_preview_document_def
    by (intro keeps rem preview | simp split: prod.split)+
  have derived: "em_keeps K (upload_derived env d storage chat)" for storage chat
    unfolding upload_derived_def by (intro keeps tries mthumb mpreview)
  then show "em_keeps K (upload_derived env d storage chat)" .
  show "em_keeps K (upload_finish env d storage primary channels chunks)"
    unfolding upload_finish_def by (intro keeps batch derived uploaded)
  show "em_keeps K (storage_of_file env fid)"
    unfolding storage_of_file_def by (rule atomic) simp
  have read: "em_keeps K (db_read env q)" for q :: "files_db \<Rightarrow> 'x"
    unfolding db_read_def by (rule atomic) simp
  show "em_keeps K (db_read env q)" unfolding db_read_def by (rule atomic) simp
  show "em_keeps K (resolve_primary_channel env storage position)"
    unfolding resolve_primary_channel_def Let_def
    by (intro keeps read atomic) (simp add: set_primary_position_def set_storage_def)
  show "em_keeps K (mark_relayed fid len)"
    by (rule em_keepsI) (auto simp: mark_relayed_def em_modify_def intro: files)
qed

lemma relay_keeps_relay:
  assumes keeps: "relay_keeps env d K" and order: "\<And>k plan. set (en_completion env k plan) = set plan"
  shows "em_keeps K (upload_relay env d storage primary channels stored)"
proof (rule em_keepsI)
  fix s :: server and r t
  assume run: "upload_relay env d storage primary channels stored s = (r, t)"
  have pre: "step_preorder K" using keeps by (simp add: relay_keeps_def)
  note walk = step_preorder.keeps [OF pre] and parts = relay_keeps_parts [OF keeps]
  obtain plan resumed where plan: "remaining_chunk_plan (nat (max 0 (ud_size d))) (max 1 (ud_chunk_size d))
       (nat ` set (filter (\<lambda>p. 0 \<le> p) (map fst stored))) = (plan, resumed)" by fastforce
  obtain u where u: "mark_relayed (ud_file d) resumed s = (Inr (), u)" by (simp add: mark_relayed_def em_modify_def)
  let ?rest = "em_bind (em_map (relay_chunk env storage channels (ud_file d) (ud_content d))
       (en_completion env (sv_steps u) plan)) (\<lambda>sent. upload_finish env d storage primary channels (map snd stored @ sent))"
  have "x \<in> set (en_completion env (sv_steps u) plan) \<Longrightarrow> plan_item (nat (max 0 (ud_size d))) (max 1 (ud_chunk_size d)) x" for x
    using plan_items(2) [OF plan] order by simp
  then have "em_keeps K ?rest" using keeps by (intro walk parts) (auto simp: relay_keeps_def)
  moreover have "?rest u = (r, t)"
    using run unfolding upload_relay_def Let_def plan by (simp add: em_then_Inr u em_bind_gets)
  ultimately show "K s t"
    using step_preorder.trans [OF pre] em_keepsD [OF parts(6) u] em_keepsD by metis
qed

lemma relay_keeps_upload:
  assumes keeps: "relay_keeps env d K" and order: "\<And>k plan. set (en_completion env k plan) = set plan"
  shows "em_keeps K (upload env d)"
proof -
  have pre: "step_preorder K" using keeps by (simp add: relay_keeps_def)
  show ?thesis unfolding upload_def
    by (intro step_preorder.keeps [OF pre] relay_keeps_parts [OF keeps] relay_keeps_relay [OF keeps order])
qed

lemma relay_chunkE:
  assumes "relay_chunk env storage channels fid content (position, offset, len) s = (r, t)"
  obtains (refused) e where "en_send env (sv_steps s) (take len (drop offset content)) (sc_chat (channels ! (position mod length channels))) storage = Inl e"
      "r = Inl e" "t = s\<lparr>sv_steps := Suc (sv_steps s)\<rparr>"
    | (sent) tid message r' db where
      "en_send env (sv_steps s) (take len (drop offset content)) (sc_chat (channels ! (position mod length channels))) storage = Inr (tid, message)"
      "create_chunk_with_replica \<lparr>ck_id = en_ids env (Suc (sv_steps s)) 0, ck_file = fid, ck_position = min 32767 (int position)\<rparr>
         (new_uploaded (en_ids env (Suc (sv_steps s)) 1) (en_ids env (Suc (sv_steps s)) 0)
           (sc_id (channels ! (position mod length channels))) tid message)
         (sv_files (en_meanwhile env (Suc (sv_steps s)) (s\<lparr>sv_steps := Suc (sv_steps s)\<rparr>))) = (r', db)"
      "isl r \<longleftrightarrow> isl r'"
      "sv_files t = db"
proof (cases "en_send env (sv_steps s) (take len (drop offset content)) (sc_chat (channels ! (position mod length channels))) storage")
  case (Inl e)
  show thesis by (rule refused [OF Inl])
    (use assms Inl in \<open>auto simp: relay_chunk_def upload_chunk_from_file_def em_bind_def remote_def\<close>)
next
  case (Inr out)
  obtain tid message where out: "out = (tid, message)" by (cases out)
  let ?n = "Suc (sv_steps s)"
  obtain r' db where made: "create_chunk_with_replica \<lparr>ck_id = en_ids env ?n 0, ck_file = fid, ck_position = min 32767 (int position)\<rparr>
         (new_uploaded (en_ids env ?n 1) (en_ids env ?n 0) (sc_id (channels ! (position mod length channels))) tid message)
         (sv_files (en_meanwhile env ?n (s\<lparr>sv_steps := ?n\<rparr>))) = (r', db)"
    by fastforce
  show thesis
    by (rule sent [OF Inr [unfolded out] made])
      (use assms Inr out made in \<open>auto simp: relay_chunk_def upload_chunk_from_file_def em_bind_def em_then_def remote_def
         db_run_def atomically_def Let_def mark_relayed_def em_modify_def em_return_def isl_map_sum split: sum.splits\<close>)
qed

text \<open>The stages of an upload that reaches its chunks.\<close>

lemma upload_relay_InrE:
  assumes "upload_relay env d storage primary channels stored s = (Inr (), t)"
  obtains plan resumed v sent w where
    "remaining_chunk_plan (nat (max 0 (ud_size d))) (max 1 (ud_chunk_size d))
       (nat ` set (filter (\<lambda>p. 0 \<le> p) (map fst stored))) = (plan, resumed)"
    "mark_relayed (ud_file d) resumed s = (Inr (), v)"
    "em_map (relay_chunk env storage channels (ud_file d) (ud_content d)) (en_completion env (sv_steps v) plan) v = (Inr sent, w)"
    "upload_finish env d storage primary channels (map snd stored @ sent) w = (Inr (), t)"
proof -
  obtain plan resumed where plan: "remaining_chunk_plan (nat (max 0 (ud_size d))) (max 1 (ud_chunk_size d))
       (nat ` set (filter (\<lambda>p. 0 \<le> p) (map fst stored))) = (plan, resumed)" by fastforce
  obtain v where v: "mark_relayed (ud_file d) resumed s = (Inr (), v)" by (simp add: mark_relayed_def em_modify_def)
  have "em_bind (em_map (relay_chunk env storage channels (ud_file d) (ud_content d)) (en_completion env (sv_steps v) plan))
     (\<lambda>sent. upload_finish env d storage primary channels (map snd stored @ sent)) v = (Inr (), t)"
    using assms unfolding upload_relay_def Let_def plan by (simp add: em_then_Inr v em_bind_gets)
  then show thesis using that [OF plan v] by (elim em_bindE) simp_all
qed

lemma upload_InrE:
  assumes run: "upload env d s = (Inr (), t)" and keeps: "relay_keeps env d K"
  obtains u v storage primary channels where "K s u" "sv_files v = sv_files u"
    "upload_relay env d storage primary channels (list_stored_chunk_positions (ud_file d) (sv_files u)) v = (Inr (), t)"
proof -
  have pre: "step_preorder K" and others: "\<And>k s. K s (en_meanwhile env k s)"
    using keeps by (auto simp: relay_keeps_def)
  note parts = relay_keeps_parts [OF keeps] and trans = step_preorder.trans [OF pre]
  obtain storage s1 where s1: "storage_of_file env (ud_file d) s = (Inr storage, s1)"
    and run1: "em_bind (resolve_primary_channel env (so_id storage) (so_primary storage)) (\<lambda>(primary, active).
       em_bind (db_read env (list_stored_chunk_positions (ud_file d)))
         (upload_relay env d (so_id storage) primary (primary # filter (\<lambda>c. sc_id c \<noteq> sc_id primary) active))) s1 = (Inr (), t)"
    using run unfolding upload_def by (rule em_bindE) simp_all
  obtain primary active s2 where s2: "resolve_primary_channel env (so_id storage) (so_primary storage) s1 = (Inr (primary, active), s2)"
    and run2: "em_bind (db_read env (list_stored_chunk_positions (ud_file d)))
         (upload_relay env d (so_id storage) primary (primary # filter (\<lambda>c. sc_id c \<noteq> sc_id primary) active)) s2 = (Inr (), t)"
    using run1 by (rule em_bindE) (auto split: prod.splits)
  define u where "u = en_meanwhile env (sv_steps s2) s2"
  have k: "K s u" unfolding u_def
    by (rule trans [OF em_keepsD [OF parts(3) s1] trans [OF em_keepsD [OF parts(4) s2] others]])
  have rest: "upload_relay env d (so_id storage) primary (primary # filter (\<lambda>c. sc_id c \<noteq> sc_id primary) active)
      (list_stored_chunk_positions (ud_file d) (sv_files u)) (u\<lparr>sv_steps := Suc (sv_steps s2)\<rparr>) = (Inr (), t)"
    using run2 by (simp add: em_bind_def db_read_def atomically_def Let_def u_def)
  show thesis by (rule that [OF k _ rest]) simp
qed

section \<open>An upload stores the file or leaves it to be resumed\<close>

text \<open>The upload is of \<open>B\<close>, in at most as many chunks as there are positions.\<close>

definition uploads :: "upload_data \<Rightarrow> string \<Rightarrow> nat \<Rightarrow> bool" where
  "uploads d B n \<longleftrightarrow> ud_content d = B \<and> ud_size d = int (length B) \<and> ud_chunk_size d = n \<and> 0 < n \<and>
     plan_count (length B) n \<le> 32768"

lemma plan_part: "take (min n (length B - p * n)) (drop (p * n) B) = chunk_of B n p"
  by (simp add: chunk_of_def min_def)

lemma relay_chunk_kept:
  assumes documents: "keeps_documents env" and d: "uploads d B n" and item: "plan_item (length B) n x"
    and others: "\<And>k s. parts_kept env B n fid s (en_meanwhile env k s)"
  shows "em_keeps (parts_kept env B n fid) (relay_chunk env storage channels fid B x)"
proof (rule em_keepsI)
  fix s :: server and r t
  obtain p off l where x: "x = (p, off, l)" by (cases x)
  have p: "p < plan_count (length B) n" "min 32767 (int p) = int p" and part: "take l (drop off B) = chunk_of B n p"
    using item d plan_part by (auto simp: x plan_item_def uploads_def)
  note trans = step_preorder.trans [OF parts_kept_preorder]
  assume "relay_chunk env storage channels fid B x s = (r, t)"
  then show "parts_kept env B n fid s t" unfolding x
  proof (cases rule: relay_chunkE)
    case (refused e)
    then show ?thesis by (simp add: parts_kept_files)
  next
    case (sent tid message r' db)
    let ?u = "en_meanwhile env (Suc (sv_steps s)) (s\<lparr>sv_steps := Suc (sv_steps s)\<rparr>)"
    have doc: "en_fetch env k tid st = Inr y \<Longrightarrow> y = chunk_of B n p" for k st y
      using documents [unfolded keeps_documents_def, rule_format, OF sent(1)] by (simp add: part)
    have "parts_kept env B n fid ?u (?u\<lparr>sv_files := db\<rparr>)"
      using sent(2) doc p by (intro parts_kept_chunk) auto
    then show ?thesis
      using trans [OF trans [OF parts_kept_files others]] trans [OF _ parts_kept_files] sent(4)
      by (metis (no_types, lifting) server.select_convs(1) server.simps(1) server.surjective server.update_convs(1) server.update_convs(15))
  qed
qed

lemma relay_chunk_stores:
  assumes "relay_chunk env storage channels fid content (p, off, l) s = (Inr i, t)" "p < 32768"
  shows "int p \<in> sent_positions fid (sv_files t)"
  using assms(1)
proof (cases rule: relay_chunkE)
  case (sent tid message r' db)
  then have "r' = Inr ()" by (cases r') auto
  then show ?thesis
    using create_chunk_with_replica_ok(1) [OF sent(2) [unfolded \<open>r' = Inr ()\<close>]] sent(4) assms(2)
    by (auto simp: sent_positions_def own_chunks_def)
qed simp

lemma parts_relay_keeps:
  assumes "keeps_documents env" "uploads d B n" "\<And>k s. parts_kept env B n (ud_file d) s (en_meanwhile env k s)"
  shows "relay_keeps env d (parts_kept env B n (ud_file d))"
proof -
  have "nat (max 0 (ud_size d)) = length B" "max 1 (ud_chunk_size d) = n" "ud_content d = B"
    using assms(2) by (auto simp: uploads_def)
  then show ?thesis
    using assms relay_chunk_kept [OF assms(1,2) _ assms(3)] parts_kept_update parts_kept_pending
    by (auto simp: relay_keeps_def parts_kept_preorder parts_kept_files)
qed

lemma relayed_positions:
  assumes run: "em_map (relay_chunk env storage channels fid B) xs s = (Inr sent, t)"
    and kept: "\<And>x. x \<in> set xs \<Longrightarrow> em_keeps (parts_kept env B n fid) (relay_chunk env storage channels fid B x)"
    and ok: "parts_ok env B n fid (sv_files s)" and small: "\<And>p off l. (p, off, l) \<in> set xs \<Longrightarrow> p < 32768"
  shows "int ` fst ` set xs \<subseteq> sent_positions fid (sv_files t)"
  using assms
proof (induction xs arbitrary: s sent)
  case (Cons x xs)
  obtain p off l where x: "x = (p, off, l)" by (cases x)
  obtain i u sent' where first: "relay_chunk env storage channels fid B x s = (Inr i, u)"
    and rest: "em_map (relay_chunk env storage channels fid B) xs u = (Inr sent', t)"
    using Cons.prems(1) by (auto simp: em_return_def elim!: em_bindE)
  have ok: "parts_ok env B n fid (sv_files u)"
    using em_keepsD [OF Cons.prems(2) first] Cons.prems(3) by (simp add: parts_kept_def)
  have kept: "em_keeps (parts_kept env B n fid) (em_map (relay_chunk env storage channels fid B) xs)"
    using Cons.prems(2) by (intro step_preorder.keeps [OF parts_kept_preorder]) simp
  then have "sent_positions fid (sv_files u) \<subseteq> sent_positions fid (sv_files t)"
    using em_keepsD [OF kept rest] ok by (auto simp: parts_kept_def)
  moreover have "int p \<in> sent_positions fid (sv_files u)"
    using relay_chunk_stores [OF first [unfolded x]] Cons.prems(4) [of p off l] by (simp add: x)
  moreover have "int ` fst ` set xs \<subseteq> sent_positions fid (sv_files t)"
    by (rule Cons.IH [OF rest _ ok]) (meson Cons.prems(2,4) list.set_intros(2))+
  ultimately show ?case by (auto simp: x)
qed simp

lemma sorted_positions:
  assumes "distinct (map key xs)" "key ` set xs = int ` {0..<m}"
  shows "map key (sort_key key xs) = map int [0..<m]"
proof -
  have "sorted (map key (sort_key key xs))" by simp
  moreover have "distinct (map key (sort_key key xs))"
    using assms(1) by (metis distinct_map distinct_sort set_sort)
  moreover have "sorted (map int [0..<m])" by (simp add: sorted_iff_nth_mono)
  moreover have "distinct (map int [0..<m])" by (simp add: distinct_map)
  ultimately show ?thesis using assms(2) by (intro sorted_distinct_set_unique) auto
qed

lemma parts_complete_stored:
  assumes ok: "parts_ok env B n fid db" and all: "int ` {0..<plan_count (length B) n} \<subseteq> sent_positions fid db" and n: "0 < n"
  shows "stored_as env storage B n fid db"
  unfolding stored_as_def
proof (intro conjI allI impI n)
  have own: "sorted_chunks fid db = sort_key ck_position (own_chunks fid db)"
    by (simp add: sorted_chunks_def list_chunks_of_file_def own_chunks_def)
  have "ck_position c \<in> int ` {0..<plan_count (length B) n}" if "c \<in> set (own_chunks fid db)" for c
    using ok that by (intro image_eqI [of _ _ "nat (ck_position c)"]) (auto simp: parts_ok_def)
  then have "ck_position ` set (own_chunks fid db) = int ` {0..<plan_count (length B) n}"
    using all unfolding sent_positions_def by blast
  moreover have "distinct (map ck_position (own_chunks fid db))" using ok by (simp add: parts_ok_def)
  ultimately show "map ck_position (sorted_chunks fid db) = map int [0..<(length B + n - 1) div n]"
    unfolding own plan_count_def [symmetric] by (rule sorted_positions [rotated])
next
  fix channel position tid k x
  assume "(position, tid) \<in> set (list_chunks_with_replica_for_channel fid channel db)" "en_fetch env k tid storage = Inr x"
  moreover from this(1) obtain c r where "c \<in> set (own_chunks fid db)" "r \<in> set (fd_replicas db)" "rp_chunk r = ck_id c"
      "rp_status r = ''uploaded''" "rp_file_id r = Some tid" "position = ck_position c"
    by (auto simp: list_chunks_with_replica_for_channel_def own_chunks_def List.map_filter_def split: if_splits)
  ultimately show "x = chunk_of B n (nat position)" using ok by (auto simp: parts_ok_def holds_part_def)
qed

lemma set_as_uploaded_marks:
  assumes "set_as_uploaded fid now db = (Inr k, db')"
  shows "\<forall>x \<in> set (fd_files db'). f_id x = fid \<longrightarrow> f_uploaded x"
proof -
  let ?f = "\<lambda>r. r\<lparr>f_uploaded := True\<rparr>" and ?Q = "\<lambda>x. f_id x = fid \<longrightarrow> f_uploaded x"
  have kept: "\<forall>x \<in> set (fd_files e). ?Q x" if "update_rows ?f now is d = Inr e" "\<forall>x \<in> set (fd_files d). ?Q x" for "is" d e
    using that
  proof (induction "is" arbitrary: d)
    case (Cons i "is")
    then obtain c where "update_row ?f now i d = Inr c" "update_rows ?f now is c = Inr e"
      by (auto simp: res_bind_def split: sum.splits)
    moreover from this(1) have "\<forall>x \<in> set (fd_files c). ?Q x"
      using update_row_tables(3) Cons.prems(2) by (fastforce simp: files_touch_updated_at_def)
    ultimately show ?case using Cons.IH by blast
  qed simp
  have first: "\<forall>x \<in> set (fd_files e). ?Q x" if "update_row ?f now fid d = Inr e" for d e
  proof (cases "row_get f_id fid (fd_files d)")
    case None
    then have "e = d" using that by (simp add: update_row_def)
    then show ?thesis using None by (auto simp: row_get_None_iff)
  next
    case (Some old)
    then have "f_id old = fid" using row_get_SomeD by fastforce
    then show ?thesis
      using that Some by (auto simp: update_row_def Let_def put_file_def files_touch_updated_at_def split: if_splits)
  qed
  define "is" where "is = map f_id (filter (\<lambda>r. f_id r = fid) (fd_files db))"
  have "is": "set is = {fid} \<inter> f_id ` set (fd_files db)" "update_rows ?f now is db = Inr db'"
    using assms by (auto simp: is_def set_as_uploaded_def run_update_def update_where_def Let_def res_bind_def split: sum.splits)
  show ?thesis
  proof (cases "is")
    case Nil
    then show ?thesis using "is" by auto
  next
    case (Cons i rest)
    then have "i = fid" using "is"(1) by auto
    then obtain e where "update_row ?f now fid db = Inr e" "update_rows ?f now rest e = Inr db'"
      using "is"(2) Cons by (auto simp: res_bind_def split: sum.splits)
    then show ?thesis using first kept by blast
  qed
qed

definition permutes :: "server_env \<Rightarrow> bool" where
  "permutes env \<longleftrightarrow> (\<forall>k plan. mset (en_completion env k plan) = mset plan)"

lemma permutes_set: "permutes env \<Longrightarrow> set (en_completion env k plan) = set plan"
  by (metis permutes_def set_mset_mset)

lemma stored_positions:
  assumes "parts_ok env B n fid db"
  shows "int ` nat ` set (filter (\<lambda>p. 0 \<le> p) (map fst (list_stored_chunk_positions fid db))) = sent_positions fid db"
proof -
  have "filter (\<lambda>c. ck_file c = fid \<and> stored_chunk db c) (fd_chunks db) = own_chunks fid db"
    using assms unfolding own_chunks_def parts_ok_def by (intro filter_cong) auto
  then have "set (map fst (list_stored_chunk_positions fid db)) = sent_positions fid db"
    by (simp add: list_stored_chunk_positions_def sent_positions_def image_image)
  moreover have "0 \<le> p" if "p \<in> sent_positions fid db" for p
    using assms that by (auto simp: parts_ok_def sent_positions_def)
  ultimately show ?thesis by (force simp: image_image)
qed

lemma upload_finish_marks:
  assumes "upload_finish env d storage primary channels chunks s = (Inr (), t)"
  shows "\<forall>x \<in> set (fd_files (sv_files t)). f_id x = ud_file d \<longrightarrow> f_uploaded x"
proof -
  obtain u where "em_then (db_run env (\<lambda>now _ db. set_as_uploaded (ud_file d) now db)) (em_return ()) u = (Inr (), t)"
    using assms unfolding upload_finish_def by (blast elim: em_thenE)
  then obtain k where "db_run env (\<lambda>now _ db. set_as_uploaded (ud_file d) now db) u = (Inr k, t)"
    by (auto elim!: em_thenE em_returnE)
  then obtain now db where "set_as_uploaded (ud_file d) now db = (Inr k, sv_files t)"
    by (auto simp: db_run_def atomically_def Let_def split: prod.splits)
  then show ?thesis by (rule set_as_uploaded_marks)
qed

lemma upload_completes:
  assumes documents: "keeps_documents env" and order: "permutes env" and d: "uploads d B n"
    and others: "\<And>k s. parts_kept env B n (ud_file d) s (en_meanwhile env k s)"
    and ok: "parts_ok env B n (ud_file d) (sv_files s)" and run: "upload env d s = (Inr (), t)"
  shows "int ` {0..<plan_count (length B) n} \<subseteq> sent_positions (ud_file d) (sv_files t)"
    and "\<forall>x \<in> set (fd_files (sv_files t)). f_id x = ud_file d \<longrightarrow> f_uploaded x"
proof -
  let ?fid = "ud_file d" and ?K = "parts_kept env B n (ud_file d)"
  have fields: "nat (max 0 (ud_size d)) = length B" "max 1 (ud_chunk_size d) = n" "ud_content d = B"
    using d by (auto simp: uploads_def)
  note keeps = parts_relay_keeps [OF documents d others]
  obtain u v storage primary channels where u: "?K s u" and v: "sv_files v = sv_files u"
    and relay: "upload_relay env d storage primary channels (list_stored_chunk_positions ?fid (sv_files u)) v = (Inr (), t)"
    using upload_InrE [OF run keeps] by blast
  obtain plan resumed v' sent w where
      plan: "remaining_chunk_plan (length B) n
         (nat ` set (filter (\<lambda>p. 0 \<le> p) (map fst (list_stored_chunk_positions ?fid (sv_files u))))) = (plan, resumed)"
    and mark: "mark_relayed ?fid resumed v = (Inr (), v')"
    and map: "em_map (relay_chunk env storage channels ?fid B) (en_completion env (sv_steps v') plan) v' = (Inr sent, w)"
    and finish: "upload_finish env d storage primary channels (map snd (list_stored_chunk_positions ?fid (sv_files u)) @ sent) w = (Inr (), t)"
    using upload_relay_InrE [OF relay] unfolding fields by blast
  have okv: "parts_ok env B n ?fid (sv_files v')" and same: "sv_files v' = sv_files u"
    using u ok v mark by (auto simp: parts_kept_def mark_relayed_def em_modify_def)
  note items = plan_items [OF plan] and acc = permutes_set [OF order]
  have "0 < n" using d by (simp add: uploads_def)
  have chunk: "em_keeps ?K (relay_chunk env storage channels ?fid B x)" if "x \<in> set (en_completion env (sv_steps v') plan)" for x
    by (rule relay_chunk_kept [OF documents d _ others]) (use that items(2) \<open>0 < n\<close> acc in auto)
  have small: "p < 32768" if "(p, off, l) \<in> set (en_completion env (sv_steps v') plan)" for p off l
    using that items(2) [OF \<open>0 < n\<close>, of "(p, off, l)"] d by (simp add: acc plan_item_def uploads_def)
  have relayed: "int ` fst ` set plan \<subseteq> sent_positions ?fid (sv_files w)"
    using relayed_positions [OF map chunk okv small] by (simp add: acc)
  have "em_keeps ?K (em_map (relay_chunk env storage channels ?fid B) (en_completion env (sv_steps v') plan))"
    using chunk by (intro step_preorder.keeps [OF parts_kept_preorder])
  then have "?K v' w" using map by (rule em_keepsD)
  moreover have "?K w t" by (rule em_keepsD [OF relay_keeps_parts(2) [OF keeps] finish])
  ultimately have grow: "sent_positions ?fid (sv_files u) \<subseteq> sent_positions ?fid (sv_files t)"
      "sent_positions ?fid (sv_files w) \<subseteq> sent_positions ?fid (sv_files t)"
    using okv same by (auto simp: parts_kept_def)
  define stored where "stored = nat ` set (filter (\<lambda>p. 0 \<le> p) (map fst (list_stored_chunk_positions ?fid (sv_files u))))"
  have stored: "int ` stored = sent_positions ?fid (sv_files u)"
    using stored_positions okv unfolding stored_def same by blast
  have planned: "int p \<in> int ` fst ` set plan" if "p < plan_count (length B) n" "p \<notin> stored" for p
    using that unfolding items(1) [OF \<open>0 < n\<close>, folded stored_def] by (force simp: image_iff)
  show "int ` {0..<plan_count (length B) n} \<subseteq> sent_positions ?fid (sv_files t)"
  proof
    fix q assume "q \<in> int ` {0..<plan_count (length B) n}"
    then obtain p where p: "q = int p" "p < plan_count (length B) n" by auto
    show "q \<in> sent_positions ?fid (sv_files t)"
    proof (cases "p \<in> stored")
      case True
      then show ?thesis using stored grow(1) p(1) by blast
    next
      case False
      then show ?thesis using planned [OF p(2)] relayed grow(2) p(1) by blast
    qed
  qed
  show "\<forall>x \<in> set (fd_files (sv_files t)). f_id x = ?fid \<longrightarrow> f_uploaded x"
    using finish by (rule upload_finish_marks)
qed


text \<open>
  C7. What was uploaded is what is downloaded: after an upload of \<open>B\<close> has succeeded, a download of
  the file answers \<open>B\<close>, or the beginning of it when an error cuts the body off.
\<close>

theorem upload_download_roundtrip:
  assumes quiet: "quiet env" and documents: "keeps_documents env" and order: "permutes env" and d: "uploads d B n"
    and ok: "parts_ok env B n (ud_file d) (sv_files s)" and up: "upload env d s = (Inr (), t)"
    and found: "get_file_by_path path storage (sv_files t) = Inr row" "f_id row = ud_file d"
    and down: "download_file env storage path row q None t = (Inr rsp, u)"
  shows "prefix (rsp_body rsp) B \<and> (rsp_cut rsp = None \<longrightarrow> rsp_body rsp = B)"
proof -
  have others: "parts_kept env B n (ud_file d) s (en_meanwhile env k s)" for k s
    using quiet by (simp add: parts_kept_files)
  have "parts_kept env B n (ud_file d) s t"
    using em_keepsD [OF relay_keeps_upload [OF parts_relay_keeps [OF documents d others] permutes_set [OF order]] up] .
  then have kept: "parts_ok env B n (ud_file d) (sv_files t)" using ok by (simp add: parts_kept_def)
  have n: "0 < n" using d by (simp add: uploads_def)
  have stored: "stored_as env storage B n (f_id row) (sv_files t)"
    unfolding found(2) by (rule parts_complete_stored [OF kept upload_completes(1) [OF documents order d others ok up] n])
  have "row \<in> set (fd_files (sv_files t))"
    using found(1) by (auto simp: get_file_by_path_def live_row_def find_Some_iff split: option.splits)
  then have "described (ud_file d) B n row" using kept by (simp add: parts_ok_def)
  then have size: "f_size row = int (length B)" "chunk_size_of env row = n"
    using found(2) n by (simp_all add: described_def chunk_size_of_def)
  have wanted: "parse_bytes_range None (length B) = Inr None" by (simp add: parse_bytes_range_def)
  show ?thesis using download_serves [OF quiet stored size wanted down] by (simp add: slice_of_def)
qed

text \<open>
  A Telegram whose document ids are the documents themselves, and an attempt that resumes: of the
  three chunks of a file the second is stored.
\<close>

definition echo_env :: server_env where
  "echo_env = quiet_env\<lparr>en_send := (\<lambda>_ b _ _. Inr (b, 1)), en_fetch := (\<lambda>_ tid _. Inr tid),
     en_completion := (\<lambda>_ plan. rev plan), en_ids := (\<lambda>n i. ''n'' @ show_nat n @ ''.'' @ show_nat i)\<rparr>"

definition resumed_upload :: upload_data where
  "resumed_upload = \<lparr>ud_file = ''f'', ud_content = ''abcde'', ud_size = 5, ud_chunk_size = 2, ud_thumb = None\<rparr>"

definition partial_server :: server where
  "partial_server = two_storages\<lparr>sv_files := (sv_files two_storages)\<lparr>
     fd_files := [(plain_file ''f'' ''st'' ''a.txt'')\<lparr>f_size := 5, f_chunk_size := Some 2, f_uploaded := False\<rparr>],
     fd_chunks := [\<lparr>ck_id = ''k'', ck_file = ''f'', ck_position = 1\<rparr>],
     fd_replicas := [new_uploaded ''r'' ''k'' ''c'' ''cd'' 7],
     fd_storages := [''st'', ''su'']\<rparr>\<rparr>"

lemma echo_facts:
  "quiet echo_env" "keeps_documents echo_env" "permutes echo_env" "uploads resumed_upload ''abcde'' 2"
  by (simp_all add: quiet_def echo_env_def quiet_env_def keeps_documents_def permutes_def uploads_def
      resumed_upload_def plan_count_def)

lemma partial_parts: "parts_ok echo_env ''abcde'' 2 (ud_file resumed_upload) (sv_files partial_server)"
  by (simp add: parts_ok_def own_chunks_def partial_server_def two_storages_def put_storages_def resumed_upload_def stored_chunk_def
      new_uploaded_def replica_status_uploaded_def holds_part_def echo_env_def quiet_env_def chunk_of_def
      plan_count_def described_def plain_file_def)

definition resumed_run :: "(sarca_error + unit) \<times> server" where
  "resumed_run = upload echo_env resumed_upload partial_server"

lemma resumed_run_ok: "fst resumed_run = Inr ()"
  by code_simp

lemma resumed_run_result: "upload echo_env resumed_upload partial_server = (Inr (), snd resumed_run)"
  using resumed_run_ok by (simp add: resumed_run_def prod_eq_iff)


theorem upload_download_roundtrip_witness:
  "\<exists>row rsp u. get_file_by_path ''a.txt'' ''st'' (sv_files (snd resumed_run)) = Inr row \<and>
     download_file echo_env ''st'' ''a.txt'' row None None (snd resumed_run) = (Inr rsp, u) \<and>
     rsp_cut rsp = None \<and> rsp_body rsp = ''abcde''"
proof -
  have "case resumed_run of (_, t) \<Rightarrow> (case get_file_by_path ''a.txt'' ''st'' (sv_files t) of
      Inr row \<Rightarrow> f_id row = ud_file resumed_upload \<and> (case download_file echo_env ''st'' ''a.txt'' row None None t of
        (Inr rsp, _) \<Rightarrow> rsp_cut rsp = None | _ \<Rightarrow> False) | _ \<Rightarrow> False)"
    by code_simp
  then have both: "case get_file_by_path ''a.txt'' ''st'' (sv_files (snd resumed_run)) of
      Inr row \<Rightarrow> f_id row = ud_file resumed_upload \<and> (case download_file echo_env ''st'' ''a.txt'' row None None (snd resumed_run) of
        (Inr rsp, _) \<Rightarrow> rsp_cut rsp = None | _ \<Rightarrow> False) | _ \<Rightarrow> False"
    by (simp add: case_prod_beta)
  then obtain row where row: "get_file_by_path ''a.txt'' ''st'' (sv_files (snd resumed_run)) = Inr row" "f_id row = ud_file resumed_upload"
    by (auto split: sum.splits)
  obtain r u where run: "download_file echo_env ''st'' ''a.txt'' row None None (snd resumed_run) = (r, u)" by fastforce
  then obtain rsp where "r = Inr rsp" "rsp_cut rsp = None" using both row by (auto split: sum.splits)
  then show ?thesis
    using upload_download_roundtrip [OF echo_facts partial_parts resumed_run_result row] row run by blast
qed

section \<open>A position without a copy\<close>

text \<open>
  A chunk whose copies are gone, with the channel that held them: its row still occupies the
  position, so the position is sent again and cannot be recorded.
\<close>

definition position_lost :: "uuid \<Rightarrow> int \<Rightarrow> files_db \<Rightarrow> bool" where
  "position_lost fid p db \<longleftrightarrow> p \<in> sent_positions fid db \<and>
     (\<forall>c \<in> set (own_chunks fid db). ck_position c = p \<longrightarrow> \<not> stored_chunk db c) \<and>
     rp_chunk ` set (fd_replicas db) \<subseteq> ck_id ` set (fd_chunks db)"

definition loss_kept :: "uuid \<Rightarrow> int \<Rightarrow> server \<Rightarrow> server \<Rightarrow> bool" where
  "loss_kept fid p s t \<longleftrightarrow> (position_lost fid p (sv_files s) \<longrightarrow> position_lost fid p (sv_files t))"

lemma loss_kept_preorder: "step_preorder (loss_kept fid p)"
  by unfold_locales (auto simp: loss_kept_def)

lemma loss_kept_files: "sv_files t = sv_files s \<Longrightarrow> loss_kept fid p s t"
  by (simp add: loss_kept_def)

lemma loss_kept_tables:
  "fd_chunks db' = fd_chunks (sv_files s) \<Longrightarrow> fd_replicas db' = fd_replicas (sv_files s) \<Longrightarrow>
     loss_kept fid p s (s\<lparr>sv_files := db'\<rparr>)"
  by (auto simp: loss_kept_def position_lost_def own_chunks_def sent_positions_def stored_chunk_def)

lemma loss_kept_pending:
  assumes "insert_batch rs (sv_files s) = (r, db')" and "\<forall>x \<in> set rs. rp_status x = replica_status_pending"
  shows "loss_kept fid p s (s\<lparr>sv_files := db'\<rparr>)"
proof (cases "insert_ignore rs (sv_files s)")
  case None
  then show ?thesis using assms(1) by (simp add: insert_batch_def loss_kept_def)
next
  case (Some out)
  obtain new where new: "out = fd_replicas (sv_files s) @ new" "set new \<subseteq> set rs"
      "rp_chunk ` set new \<subseteq> ck_id ` set (fd_chunks (sv_files s))"
    using insert_ignore_rows [OF Some] by blast
  have db': "db' = (sv_files s)\<lparr>fd_replicas := fd_replicas (sv_files s) @ new\<rparr>"
    using assms(1) Some new(1) by (simp add: insert_batch_def)
  have "rp_status x = ''pending''" if "x \<in> set new" for x
    using that new(2) assms(2) by (auto simp: replica_status_pending_def)
  then have "stored_chunk db' c = stored_chunk (sv_files s) c" for c
    unfolding db' by (auto simp: stored_chunk_def list_ex_iff)
  then show ?thesis
    using new(3) by (auto simp: loss_kept_def position_lost_def own_chunks_def sent_positions_def db')
qed

lemma create_loses_nothing:
  assumes "create_chunk_with_replica \<lparr>ck_id = i, ck_file = fid, ck_position = q\<rparr> (new_uploaded j i channel tid message) db = (r, db')"
    and lost: "position_lost fid p db"
  shows "position_lost fid p db'" and "q = p \<Longrightarrow> isl r"
proof -
  have "position_lost fid p db' \<and> (q = p \<longrightarrow> isl r)"
  proof (cases r)
    case (Inl e)
    then show ?thesis using create_chunk_with_replica_refused [OF assms(1) [unfolded Inl]] lost by simp
  next
    case (Inr u)
    then have "r = Inr ()" by simp
    note made = create_chunk_with_replica_ok [OF assms(1) [unfolded this]]
    have "q \<noteq> p" using made(2) lost by (auto simp: position_lost_def sent_positions_def own_chunks_def)
    then show ?thesis
      using made(2) lost unfolding made(1)
      by (auto simp: position_lost_def sent_positions_def own_chunks_def stored_chunk_def new_uploaded_def list_ex_iff)
  qed
  then show "position_lost fid p db'" "q = p \<Longrightarrow> isl r" by simp_all
qed

lemma relay_chunk_loss:
  assumes run: "relay_chunk env storage channels fid content x s = (r, t)"
    and others: "\<And>k s. loss_kept fid p s (en_meanwhile env k s)"
  shows "loss_kept fid p s t"
    and "position_lost fid p (sv_files s) \<Longrightarrow> min 32767 (int (fst x)) = p \<Longrightarrow> isl r"
proof -
  obtain q off l where x: "x = (q, off, l)" by (cases x)
  have "loss_kept fid p s t \<and> (position_lost fid p (sv_files s) \<longrightarrow> min 32767 (int q) = p \<longrightarrow> isl r)"
    using run [unfolded x]
  proof (cases rule: relay_chunkE)
    case (refused e)
    then show ?thesis by (simp add: loss_kept_files)
  next
    case (sent tid message r' db)
    let ?u = "en_meanwhile env (Suc (sv_steps s)) (s\<lparr>sv_steps := Suc (sv_steps s)\<rparr>)"
    have u: "position_lost fid p (sv_files s) \<Longrightarrow> position_lost fid p (sv_files ?u)"
      using others [of "s\<lparr>sv_steps := Suc (sv_steps s)\<rparr>" "Suc (sv_steps s)"] by (simp add: loss_kept_def)
    show ?thesis using create_loses_nothing [OF sent(2)] u sent(3,4) by (auto simp: loss_kept_def)
  qed
  then show "loss_kept fid p s t" "position_lost fid p (sv_files s) \<Longrightarrow> min 32767 (int (fst x)) = p \<Longrightarrow> isl r"
    by (simp_all add: x)
qed

lemma loss_relay_keeps:
  assumes "\<And>k s. loss_kept (ud_file d) p s (en_meanwhile env k s)"
  shows "relay_keeps env d (loss_kept (ud_file d) p)"
proof -
  have "em_keeps (loss_kept (ud_file d) p) (relay_chunk env storage channels (ud_file d) (ud_content d) x)" for storage channels x
    by (rule em_keepsI) (rule relay_chunk_loss(1) [OF _ assms])
  moreover have "loss_kept (ud_file d) p s (s\<lparr>sv_files := db\<rparr>)" if "run_update err P f now (sv_files s) = (r, db)" for err P f now s r db
    by (rule loss_kept_tables [OF run_update_tables [OF that]])
  ultimately show ?thesis
    using assms loss_kept_pending by (auto simp: relay_keeps_def loss_kept_preorder loss_kept_files)
qed

lemma relay_stops_at_lost:
  assumes "x \<in> set xs" "min 32767 (int (fst x)) = p" "position_lost fid p (sv_files s)"
    and others: "\<And>k s. loss_kept fid p s (en_meanwhile env k s)"
  shows "isl (fst (em_map (relay_chunk env storage channels fid content) xs s))"
  using assms(1,3)
proof (induction xs arbitrary: s)
  case (Cons y ys)
  obtain r u where first: "relay_chunk env storage channels fid content y s = (r, u)" by fastforce
  note loss = relay_chunk_loss [OF first others]
  show ?case
  proof (cases r)
    case (Inl e)
    then show ?thesis using first by (simp add: em_bind_def)
  next
    case (Inr i)
    then have "y \<noteq> x" using loss(2) Cons.prems(2) assms(2) by auto
    then have "x \<in> set ys" using Cons.prems(1) by simp
    then have "isl (fst (em_map (relay_chunk env storage channels fid content) ys u))"
      using Cons.IH loss(1) Cons.prems(2) by (simp add: loss_kept_def)
    then show ?thesis using first Inr by (auto simp: em_bind_def split: prod.splits sum.splits)
  qed
qed simp

text \<open>
  C37. A channel removed in the middle of an upload blocks it for good: when a position of the file
  has a chunk but no copy of it is left, no attempt to resume succeeds, whatever Telegram answers.
\<close>

theorem lost_position_blocks_resume:
  assumes order: "permutes env" and others: "\<And>k s. loss_kept (ud_file d) (int p) s (en_meanwhile env k s)"
    and p: "p < plan_count (nat (max 0 (ud_size d))) (max 1 (ud_chunk_size d))" "p < 32768"
    and lost: "position_lost (ud_file d) (int p) (sv_files s)"
  shows "isl (fst (upload env d s))"
proof (rule ccontr)
  assume "\<not> isl (fst (upload env d s))"
  then obtain t where run: "upload env d s = (Inr (), t)" by (cases "upload env d s"; cases "fst (upload env d s)") auto
  let ?fid = "ud_file d" and ?bytes = "nat (max 0 (ud_size d))" and ?n = "max 1 (ud_chunk_size d)"
  obtain u v storage primary channels where u: "loss_kept ?fid (int p) s u" and v: "sv_files v = sv_files u"
    and relay: "upload_relay env d storage primary channels (list_stored_chunk_positions ?fid (sv_files u)) v = (Inr (), t)"
    using upload_InrE [OF run loss_relay_keeps [OF others]] by blast
  obtain plan resumed v' sent w where
      plan: "remaining_chunk_plan ?bytes ?n
         (nat ` set (filter (\<lambda>p. 0 \<le> p) (map fst (list_stored_chunk_positions ?fid (sv_files u))))) = (plan, resumed)"
    and mark: "mark_relayed ?fid resumed v = (Inr (), v')"
    and map: "em_map (relay_chunk env storage channels ?fid (ud_content d)) (en_completion env (sv_steps v') plan) v' = (Inr sent, w)"
    by (rule upload_relay_InrE [OF relay]) (rule that)
  have lost': "position_lost ?fid (int p) (sv_files u)" using u lost by (simp add: loss_kept_def)
  then have unlisted: "int p \<notin> set (map fst (list_stored_chunk_positions ?fid (sv_files u)))"
    by (auto simp: list_stored_chunk_positions_def position_lost_def own_chunks_def)
  have "p \<notin> nat ` set (filter (\<lambda>p. 0 \<le> p) (map fst (list_stored_chunk_positions ?fid (sv_files u))))"
  proof
    assume "p \<in> nat ` set (filter (\<lambda>p. 0 \<le> p) (map fst (list_stored_chunk_positions ?fid (sv_files u))))"
    then obtain q where "q \<in> set (map fst (list_stored_chunk_positions ?fid (sv_files u)))" "0 \<le> q" "p = nat q"
      unfolding set_filter by blast
    then show False using unlisted by simp
  qed
  moreover have "0 < ?n" by simp
  ultimately have "(p, p * ?n, min ?n (?bytes - p * ?n)) \<in> set (en_completion env (sv_steps v') plan)"
    unfolding permutes_set [OF order] plan_items(1) [OF plan \<open>0 < ?n\<close>] using p(1) by blast
  moreover have "sv_files v' = sv_files u" using mark v by (auto simp: mark_relayed_def em_modify_def)
  ultimately have "isl (fst (em_map (relay_chunk env storage channels ?fid (ud_content d)) (en_completion env (sv_steps v') plan) v'))"
    using relay_stops_at_lost [OF _ _ _ others] lost' p(2) by fastforce
  then show False using map by simp
qed

theorem lost_position_blocks_resume_witness:
  "isl (fst (upload echo_env resumed_upload
     (partial_server\<lparr>sv_files := delete_channel ''c'' (sv_files partial_server)\<rparr>)))"
proof (rule lost_position_blocks_resume [where p = 1])
  show "permutes echo_env" by (rule echo_facts)
  show "loss_kept (ud_file resumed_upload) (int 1) s (en_meanwhile echo_env k s)" for k s
    using echo_facts(1) by (simp add: loss_kept_files)
  show "1 < plan_count (nat (max 0 (ud_size resumed_upload))) (max 1 (ud_chunk_size resumed_upload))"
    by code_simp
  show "position_lost (ud_file resumed_upload) (int 1)
     (sv_files (partial_server\<lparr>sv_files := delete_channel ''c'' (sv_files partial_server)\<rparr>))"
    by (auto simp: position_lost_def sent_positions_def own_chunks_def stored_chunk_def resumed_upload_def partial_server_def
        two_storages_def put_storages_def delete_channel_def new_uploaded_def row_del_def)
qed simp

end
