(* ===== verification/FilesService.thy ===== *)
theory FilesService
  imports Trash StorageManager
begin

text \<open>
  The file service (src/sarca/src/services/files.rs): folders, uploads with their retries and new
  versions, deletion, renaming, moving and copying. The relay of an upload is run by the storage
  manager; the service waits for its answer, so the two are one sequence here. A request that is
  cancelled and a manager that shuts down are not modelled. \<open>stamp\<close> is the text of an instant in
  the name of a replaced version, \<open>guess\<close> the type guessed from a file name; both are library calls.
\<close>

section \<open>Paths\<close>

definition validate_path :: "string \<Rightarrow> bool" where
  "validate_path path \<longleftrightarrow> \<not> starts_with ''/'' path \<and> \<not> contains_str ''//'' path \<and>
     \<not> list_ex (\<lambda>seg. seg = ''..'' \<or> seg = ''.'') (split_on CHR ''/'' path)"

definition validate_filepath :: "string \<Rightarrow> bool" where
  "validate_filepath path \<longleftrightarrow> validate_path path \<and> \<not> is_folder_path path"

definition path_in_folder :: "string \<Rightarrow> string \<Rightarrow> string" where
  "path_in_folder path dest_folder =
     (let name = last (split_on CHR ''/'' (trim_end_matches CHR ''/'' path));
          new_path = (if dest_folder = [] then name else dest_folder @ ''/'' @ name)
      in if is_folder_path path then new_path @ ''/'' else new_path)"

definition rename_with_new_name :: "string \<Rightarrow> string \<Rightarrow> string sarca_result" where
  "rename_with_new_name old_path new_name =
     (if new_name = [] \<or> CHR ''/'' \<in> set new_name then Inl InvalidFolderName
      else (let parent = path_parent (trim_end_matches CHR ''/'' old_path);
                new_path = (if parent = [] then new_name else parent @ ''/'' @ new_name)
            in Inr (if is_folder_path old_path then new_path @ ''/'' else new_path)))"

text \<open>The name is split at its first dot after its first character.\<close>

definition retired_version_path :: "string \<Rightarrow> string \<Rightarrow> string" where
  "retired_version_path path at =
     (let (folder, name) = (case rsplit_once CHR ''/'' path of None \<Rightarrow> ([], path) | Some (f, n) \<Rightarrow> (f, n));
          (stem, suffix) = (case name of
              [] \<Rightarrow> ([], [])
            | c # cs \<Rightarrow> (c # takeWhile (\<lambda>x. x \<noteq> CHR ''.'') cs, dropWhile (\<lambda>x. x \<noteq> CHR ''.'') cs));
          marked = stem @ '' (replaced '' @ at @ '')'' @ suffix
      in if folder = [] then marked else folder @ ''/'' @ marked)"

definition resumable :: "file_row \<Rightarrow> int \<Rightarrow> bool" where
  "resumable existing incoming_size \<longleftrightarrow> \<not> f_uploaded existing \<and> f_deleted existing = None \<and>
     \<not> is_folder_path (f_path existing) \<and> f_size existing = incoming_size \<and>
     (case f_chunk_size existing of Some n \<Rightarrow> 0 < n | None \<Rightarrow> False)"

section \<open>Folders\<close>

definition service_create_folder :: "server_env \<Rightarrow> uuid \<Rightarrow> string \<Rightarrow> string \<Rightarrow> uuid \<Rightarrow> unit srv" where
  "service_create_folder env storage parent_path folder_name user =
     em_then (require_access env user storage AW)
     (if \<not> validate_filepath parent_path then em_throw InvalidPath
      else if CHR ''/'' \<in> set folder_name then em_throw InvalidFolderName
      else (let path = (if parent_path = [] then folder_name @ ''/'' else parent_path @ ''/'' @ folder_name @ ''/'')
            in em_then (db_run env (\<lambda>now ids db. FilesRepo.create_folder (ids 0) now (new_in_file path 0 storage) db))
                 (em_return ())))"

section \<open>Uploads\<close>

definition check_storage_workers :: "server_env \<Rightarrow> uuid \<Rightarrow> unit srv" where
  "check_storage_workers env storage =
     em_bind (atomically env (\<lambda>_ _ s. (Inr (storage_has_any storage (sv_workers s)), s))) (\<lambda>any.
       if any then em_return () else em_throw StorageDoesNotHaveWorkers)"

definition ensure_upload_allowed :: "server_env \<Rightarrow> uuid \<Rightarrow> uuid \<Rightarrow> unit srv" where
  "ensure_upload_allowed env storage user =
     em_then (require_access env user storage AW) (check_storage_workers env storage)"

definition relay_in_flight :: "server_env \<Rightarrow> uuid \<Rightarrow> bool srv" where
  "relay_in_flight env fid = atomically env (\<lambda>_ _ s. (Inr (ledger_contains fid (sv_relays s)), s))"

text \<open>Ninety seconds of polling ten times a second; the result is whether the relay ended in time.\<close>

fun wait_relay :: "nat \<Rightarrow> server_env \<Rightarrow> uuid \<Rightarrow> bool srv" where
  "wait_relay 0 env fid = em_return False"
| "wait_relay (Suc polls) env fid =
     em_bind (relay_in_flight env fid) (\<lambda>running. if running then wait_relay polls env fid else em_return True)"

definition duplicate_relay_polls :: nat where "duplicate_relay_polls = 900"

text \<open>\<open>RelayGuard\<close>: the entry of the ledger lives as long as the relay, however it ends.\<close>

definition with_relay :: "uuid \<Rightarrow> nat \<Rightarrow> 'a srv \<Rightarrow> 'a srv" where
  "with_relay fid bytes m = (\<lambda>s. case m (s\<lparr>sv_relays := relay_start fid bytes (sv_relays s)\<rparr>) of
     (r, t) \<Rightarrow> (r, t\<lparr>sv_relays := relay_end fid (sv_relays t)\<rparr>))"

definition relay_or_clean_up :: "server_env \<Rightarrow> upload_data \<Rightarrow> unit srv" where
  "relay_or_clean_up env d =
     em_bind (em_attempt (em_then (upload env d)
         (em_then (db_run env (\<lambda>now _ db. set_as_uploaded (ud_file d) now db)) (em_return ())))) (\<lambda>outcome.
     case outcome of
       Inr _ \<Rightarrow> em_return ()
     | Inl e \<Rightarrow>
         em_bind (db_read env (list_stored_chunk_positions (ud_file d))) (\<lambda>stored.
         em_then (if stored = [] then em_attempt (purge_file_ids env [ud_file d]) else em_return (Inr ()))
           (em_throw e)))"

definition upload_from_path :: "server_env \<Rightarrow> file_row \<Rightarrow> string \<Rightarrow> int \<Rightarrow> string option \<Rightarrow> unit srv" where
  "upload_from_path env row content file_size client_thumb =
     with_relay (f_id row) (nat (max 0 file_size))
       (case f_chunk_size row of
          Some n \<Rightarrow> if 0 < n
            then relay_or_clean_up env \<lparr>ud_file = f_id row, ud_content = content, ud_size = file_size,
                   ud_chunk_size = nat n, ud_thumb = client_thumb\<rparr>
            else em_throw Unknown
        | None \<Rightarrow> em_throw Unknown)"

text \<open>
  The same bytes offered again: done when they are stored, refused while their relay runs on, and
  otherwise resumed or, when the row does not fit, purged. The result says whether that settled it.
\<close>

definition offered_again :: "server_env \<Rightarrow> file_row \<Rightarrow> string \<Rightarrow> int \<Rightarrow> string option \<Rightarrow> bool srv" where
  "offered_again env existing content file_size client_thumb =
     em_bind (relay_in_flight env (f_id existing)) (\<lambda>running.
     em_bind (if \<not> running then em_return False
       else em_bind (wait_relay duplicate_relay_polls env (f_id existing)) (\<lambda>finished.
         if \<not> finished then em_throw UploadAlreadyInProgress
         else em_bind (em_attempt (db_try env (get_by_id (f_id existing)))) (\<lambda>found.
           em_return (case found of Inr row \<Rightarrow> f_uploaded row | Inl _ \<Rightarrow> False)))) (\<lambda>settled.
     if settled then em_return True
     else if resumable existing file_size
     then em_then (upload_from_path env existing content file_size client_thumb) (em_return True)
     else em_then (em_attempt (purge_file_ids env [f_id existing])) (em_return False)))"

definition same_content :: "server_env \<Rightarrow> in_file \<Rightarrow> string \<Rightarrow> int \<Rightarrow> string option \<Rightarrow> bool srv" where
  "same_content env incoming content file_size client_thumb = (case if_hash incoming of
     None \<Rightarrow> em_return False
   | Some hash \<Rightarrow>
       em_bind (em_attempt (db_try env (get_file_by_path (if_path incoming) (if_storage incoming)))) (\<lambda>found.
       case found of
         Inl _ \<Rightarrow> em_return False
       | Inr existing \<Rightarrow>
           if f_hash existing \<noteq> Some hash then em_return False
           else if f_uploaded existing then em_return True
           else offered_again env existing content file_size client_thumb))"

text \<open>A new version takes the place of the row at its path, which goes into the trash.\<close>

definition new_version ::
  "server_env \<Rightarrow> (int \<Rightarrow> string) \<Rightarrow> in_file \<Rightarrow> string \<Rightarrow> int \<Rightarrow> string option \<Rightarrow> bool srv" where
  "new_version env stamp incoming content file_size client_thumb =
     em_bind (em_attempt (db_try env (get_file_by_path (if_path incoming) (if_storage incoming)))) (\<lambda>found.
     case found of
       Inl _ \<Rightarrow> em_return False
     | Inr existing \<Rightarrow>
         em_bind (relay_in_flight env (f_id existing)) (\<lambda>running.
         if running then em_throw UploadAlreadyInProgress
         else em_bind (db_run env (\<lambda>now ids db.
             replace_content (f_id existing) (f_hash existing) (retired_version_path (f_path existing) (stamp now))
               incoming (ids 0) now db)) (\<lambda>row.
           em_then (invalidate_media_cache (f_storage row) (f_path row))
           (em_then (upload_from_path env row content file_size client_thumb) (em_return True)))))"

definition upload_anyway ::
  "server_env \<Rightarrow> (int \<Rightarrow> string) \<Rightarrow> in_file \<Rightarrow> string \<Rightarrow> int \<Rightarrow> uuid \<Rightarrow> string option \<Rightarrow> bool \<Rightarrow> unit srv" where
  "upload_anyway env stamp incoming content file_size user client_thumb replace =
     em_then (require_access env user (if_storage incoming) AW)
    (em_then (check_storage_workers env (if_storage incoming))
    (em_bind (same_content env incoming content file_size client_thumb) (\<lambda>settled.
     if settled then em_return ()
     else em_bind (if replace then new_version env stamp incoming content file_size client_thumb else em_return False) (\<lambda>replaced.
       if replaced then em_return ()
       else em_bind (atomically env (\<lambda>now ids s.
           let (r, db) = create_file_anyway (\<lambda>_ db. sv_files (en_meanwhile env (sv_steps s) (s\<lparr>sv_files := db\<rparr>)))
                 ids now incoming (sv_files s)
           in (r, s\<lparr>sv_files := db\<rparr>))) (\<lambda>row.
         upload_from_path env row content file_size client_thumb)))))"

section \<open>Reading\<close>

definition service_list_dir :: "server_env \<Rightarrow> uuid \<Rightarrow> string \<Rightarrow> uuid \<Rightarrow> fs_element list srv" where
  "service_list_dir env storage path user =
     em_then (require_access env user storage AR) (db_read env (list_dir storage path))"

definition service_search :: "server_env \<Rightarrow> uuid \<Rightarrow> string \<Rightarrow> string \<Rightarrow> uuid \<Rightarrow> (string \<times> bool) list srv" where
  "service_search env storage path search_path user =
     em_then (require_access env user storage AR) (db_read env (search search_path path storage))"

record file_info =
  fi_path :: string
  fi_name :: string
  fi_size :: int
  fi_is_file :: bool
  fi_has_thumb :: bool
  fi_is_uploaded :: bool
  fi_is_relaying :: bool
  fi_content_type :: "string option"
  fi_deleted_at :: "int option"
  fi_added_at :: "int option"
  fi_created_at :: "int option"
  fi_modified_at :: "int option"
  fi_content_hash :: "string option"

definition file_row_info :: "(string \<Rightarrow> string option) \<Rightarrow> file_row \<Rightarrow> bool \<Rightarrow> file_info" where
  "file_row_info guess row relaying =
     (let name = (case path_file_name (f_path row) of Some n \<Rightarrow> n | None \<Rightarrow> f_path row)
      in \<lparr>fi_path = f_path row, fi_name = name, fi_size = f_size row, fi_is_file = True,
          fi_has_thumb = f_thumb row \<noteq> None, fi_is_uploaded = f_uploaded row, fi_is_relaying = relaying,
          fi_content_type = guess name, fi_deleted_at = f_deleted row, fi_added_at = Some (f_created row),
          fi_created_at = f_source_created row, fi_modified_at = f_source_mtime row, fi_content_hash = f_hash row\<rparr>)"

definition folder_info :: "server_env \<Rightarrow> uuid \<Rightarrow> string \<Rightarrow> file_info srv" where
  "folder_info env storage path =
     (let folder_path = (if path = [] then [] else if is_folder_path path then path else path @ ''/'')
      in em_bind (if folder_path = [] then em_return None
           else em_bind (em_attempt (db_try env (get_file_by_path folder_path storage))) (\<lambda>r.
             em_return (case r of Inr row \<Rightarrow> Some row | Inl _ \<Rightarrow> None))) (\<lambda>marker.
         em_bind (db_read env (sum_uploaded_size_under storage folder_path)) (\<lambda>bytes.
         let bare = trim_end_matches CHR ''/'' folder_path
         in em_return \<lparr>fi_path = bare, fi_name = (if folder_path = [] then ''/'' else last (split_on CHR ''/'' bare)),
              fi_size = bytes, fi_is_file = False, fi_has_thumb = False,
              fi_is_uploaded = (case marker of None \<Rightarrow> True | Some m \<Rightarrow> f_uploaded m), fi_is_relaying = False,
              fi_content_type = None, fi_deleted_at = Option.bind marker f_deleted,
              fi_added_at = map_option f_created marker, fi_created_at = Option.bind marker f_source_created,
              fi_modified_at = Option.bind marker f_source_mtime, fi_content_hash = Option.bind marker f_hash\<rparr>)))"

definition info :: "server_env \<Rightarrow> (string \<Rightarrow> string option) \<Rightarrow> uuid \<Rightarrow> string \<Rightarrow> uuid \<Rightarrow> file_info srv" where
  "info env guess storage path0 user =
     em_then (require_access env user storage AR)
     (let path = trim_start_matches CHR ''/'' path0
      in if contains_str ''//'' path \<or> contains_str ''..'' path then em_throw InvalidPath
         else if path = [] \<or> is_folder_path path then folder_info env storage path
         else em_bind (em_attempt (db_try env (get_file_by_path path storage))) (\<lambda>found. case found of
             Inl _ \<Rightarrow> folder_info env storage path
           | Inr row \<Rightarrow>
               em_bind (if f_uploaded row then em_return False else relay_in_flight env (f_id row)) (\<lambda>relaying.
                 em_return (file_row_info guess row relaying))))"

section \<open>Deleting, renaming, moving, copying\<close>

definition service_delete :: "server_env \<Rightarrow> string \<Rightarrow> uuid \<Rightarrow> uuid \<Rightarrow> unit srv" where
  "service_delete env path storage user =
     em_then (require_access env user storage AW)
     (if \<not> validate_path path then em_throw InvalidPath
      else em_bind (db_run env (\<lambda>now ids db. FilesRepo.delete path storage (ids 0) now db)) (\<lambda>target.
        em_then (invalidate_media_cache storage target)
          (shares_run env (\<lambda>_ ls. snd (delete_for_target storage target ls)))))"

definition service_rewrite_share_paths :: "server_env \<Rightarrow> uuid \<Rightarrow> string \<Rightarrow> string \<Rightarrow> unit srv" where
  "service_rewrite_share_paths env storage old_path new_path =
     shares_run env (\<lambda>_ ls. rewrite_share_paths storage old_path new_path ls)"

definition service_rename :: "server_env \<Rightarrow> uuid \<Rightarrow> string \<Rightarrow> string \<Rightarrow> uuid \<Rightarrow> unit srv" where
  "service_rename env storage old_path new_path user =
     em_then (require_access env user storage AW)
     (if \<not> validate_path old_path \<or> \<not> validate_path new_path then em_throw InvalidPath
      else if is_folder_path old_path \<noteq> is_folder_path new_path then em_throw InvalidPath
      else em_then (db_run env (\<lambda>now _ db. update_path old_path new_path storage now db))
             (service_rewrite_share_paths env storage old_path new_path))"

definition resolve_dest_conflict ::
  "server_env \<Rightarrow> uuid \<Rightarrow> string \<Rightarrow> string \<Rightarrow> string option \<Rightarrow> string srv" where
  "resolve_dest_conflict env storage source dest on_conflict =
     em_bind (live_conflict_at env storage dest) (\<lambda>conflict.
     if \<not> conflict then em_return dest
     else if dest = source \<or> is_folder_path source \<and> starts_with source dest \<or> is_folder_path dest \<and> starts_with dest source
     then db_try env (next_available_live_path dest storage)
     else (case on_conflict of
         None \<Rightarrow> em_throw TrashPathConflict
       | Some answer \<Rightarrow>
           if answer = ''replace'' then
             em_bind (db_read env (list_live_ids_at_path storage dest)) (\<lambda>live_ids.
             em_then (purge_file_ids env live_ids)
            (em_then (invalidate_media_cache storage dest) (em_return dest)))
           else if answer = ''rename'' then db_try env (next_available_live_path dest storage)
           else em_throw InvalidPath))"

definition ensure_parents :: "server_env \<Rightarrow> uuid \<Rightarrow> string \<Rightarrow> unit srv" where
  "ensure_parents env storage path = db_run env (\<lambda>now ids db. ensure_live_parent_folders path storage ids now db)"

text \<open>What moving and copying check first: the source's row and where it would go.\<close>

definition source_and_dest :: "server_env \<Rightarrow> uuid \<Rightarrow> string \<Rightarrow> string \<Rightarrow> (string \<times> string) srv" where
  "source_and_dest env storage path destination_folder =
     (if \<not> validate_path path \<or> path = [] then em_throw InvalidPath
      else (let dest = trim_end_matches CHR ''/'' destination_folder
            in if dest \<noteq> [] \<and> \<not> validate_path dest then em_throw InvalidPath
               else em_bind (db_try env (canonicalize_live_path storage path)) (\<lambda>source.
                 let new_path = path_in_folder source dest
                 in if \<not> validate_path new_path then em_throw InvalidPath else em_return (source, new_path))))"

definition move_to :: "server_env \<Rightarrow> uuid \<Rightarrow> string \<Rightarrow> string \<Rightarrow> string option \<Rightarrow> uuid \<Rightarrow> unit srv" where
  "move_to env storage path destination_folder on_conflict user =
     em_then (require_access env user storage AW)
    (em_bind (source_and_dest env storage path destination_folder) (\<lambda>(source, wanted).
     if source = wanted then em_return ()
     else if is_folder_path source \<and> starts_with source wanted then em_throw InvalidPath
     else em_bind (resolve_dest_conflict env storage source wanted on_conflict) (\<lambda>new_path.
       em_then (ensure_parents env storage new_path)
      (em_then (db_run env (\<lambda>now _ db. update_path source new_path storage now db))
         (service_rewrite_share_paths env storage source new_path)))))"

text \<open>The chunks under new ids, and for each copy of a chunk the same document under a new id.\<close>

definition cloned_chunks :: "(nat \<Rightarrow> uuid) \<Rightarrow> uuid \<Rightarrow> chunk_row list \<Rightarrow> chunk_row list" where
  "cloned_chunks ids fid chunks =
     map (\<lambda>(k, c). \<lparr>ck_id = ids k, ck_file = fid, ck_position = ck_position c\<rparr>) (zip [0..<length chunks] chunks)"

definition cloned_replicas :: "(nat \<Rightarrow> uuid) \<Rightarrow> (uuid \<times> uuid) list \<Rightarrow> replica_row list \<Rightarrow> replica_row list" where
  "cloned_replicas ids id_map replicas =
     List.map_filter (\<lambda>(k, r). map_option (\<lambda>c. r\<lparr>rp_id := ids k, rp_chunk := c\<rparr>) (map_of (rev id_map) (rp_chunk r)))
       (zip [0..<length replicas] replicas)"

definition clone_one_row :: "server_env \<Rightarrow> file_row \<Rightarrow> string \<Rightarrow> unit srv" where
  "clone_one_row env source dest_path =
     em_bind (db_run env (\<lambda>now ids db. insert_cloned_file (ids 0) now source dest_path db)) (\<lambda>new_row.
     if is_folder_path dest_path \<or> is_folder_path (f_path source) then em_return ()
     else em_bind (db_read env (list_chunks_of_file (f_id source))) (\<lambda>chunks.
       if chunks = [] then em_return ()
       else em_bind (db_run env (\<lambda>_ ids db.
           let new_chunks = cloned_chunks ids (f_id new_row) chunks; (r, db') = create_chunks_batch new_chunks db
           in (map_sum id (\<lambda>_. zip (map ck_id chunks) (map ck_id new_chunks)) r, db'))) (\<lambda>id_map.
         em_bind (db_read env (list_for_file (f_id source))) (\<lambda>replicas.
           if replicas = [] then em_return ()
           else db_run env (\<lambda>_ ids db. insert_batch (cloned_replicas ids id_map replicas) db)))))"

definition copy_tree :: "server_env \<Rightarrow> uuid \<Rightarrow> string \<Rightarrow> string \<Rightarrow> file_row list \<Rightarrow> unit srv" where
  "copy_tree env storage source dest_root rows =
     em_then (if list_ex (\<lambda>r. f_path r = source) rows then em_return ()
        else em_then (db_run env (\<lambda>now ids db. FilesRepo.create_folder (ids 0) now (new_in_file dest_root 0 storage) db))
               (em_return ()))
       (em_each (\<lambda>row.
          let relative = (case strip_prefix source (f_path row) of Some p \<Rightarrow> p | None \<Rightarrow> f_path row);
              new_path = dest_root @ relative
          in em_then (ensure_parents env storage new_path) (clone_one_row env row new_path)) rows)"

definition copy_to :: "server_env \<Rightarrow> uuid \<Rightarrow> string \<Rightarrow> string \<Rightarrow> string option \<Rightarrow> uuid \<Rightarrow> unit srv" where
  "copy_to env storage path destination_folder on_conflict user =
     em_then (require_access env user storage AW)
    (em_bind (source_and_dest env storage path destination_folder) (\<lambda>(source, wanted).
     em_bind (resolve_dest_conflict env storage source wanted on_conflict) (\<lambda>dest_root.
     em_then (ensure_parents env storage dest_root)
     (if is_folder_path source then
        em_bind (db_read env (list_live_under storage source)) (\<lambda>rows.
          if rows = [] then em_throw (DoesNotExist ''file'') else copy_tree env storage source dest_root rows)
      else em_bind (db_try env (get_file_by_path source storage)) (\<lambda>row.
          clone_one_row env row dest_root)))))"

section \<open>The same bytes again\<close>

text \<open>
  Offering a stored file again changes nothing: a client that was cut off and sends the same
  bytes to the same path is told that all is done, and no second file appears.
\<close>

theorem stored_file_is_not_stored_twice:
  assumes quiet: "quiet env" and may: "check_access user (if_storage incoming) AW (sv_acc s) = Inr ()"
    and bot: "storage_has_any (if_storage incoming) (sv_workers s)"
    and found: "get_file_by_path (if_path incoming) (if_storage incoming) (sv_files s) = Inr existing"
    and same: "if_hash incoming = Some hash" "f_hash existing = Some hash" and stored: "f_uploaded existing"
  shows "upload_anyway env stamp incoming content file_size user thumb replace s = (Inr (), s\<lparr>sv_steps := sv_steps s + 3\<rparr>)"
proof -
  have access: "require_access env user (if_storage incoming) AW s = (Inr (), s\<lparr>sv_steps := Suc (sv_steps s)\<rparr>)"
    by (simp add: require_access_run [OF quiet] may)
  have workers: "check_storage_workers env (if_storage incoming) u = (Inr (), u\<lparr>sv_steps := Suc (sv_steps u)\<rparr>)"
    if "sv_workers u = sv_workers s" for u
    using bot that by (simp add: check_storage_workers_def em_bind_def atomically_run [OF quiet] em_return_def)
  have settled: "same_content env incoming content file_size thumb u = (Inr True, u\<lparr>sv_steps := Suc (sv_steps u)\<rparr>)"
    if "sv_files u = sv_files s" for u
    using found same stored that
    by (simp add: same_content_def em_bind_def em_attempt_def db_try_run [OF quiet] em_return_def)
  show ?thesis
    by (simp add: upload_anyway_def em_then_def em_bind_def access workers settled em_return_def)
qed

definition stored_incoming :: in_file where
  "stored_incoming = (new_in_file ''a.jpg'' 1 ''st'')\<lparr>if_hash := Some ''h'', if_chunk_size := Some 4\<rparr>"

definition hashed_server :: server where
  "hashed_server = two_storages\<lparr>sv_files := (sv_files two_storages)\<lparr>
     fd_files := [(plain_file ''f'' ''st'' ''a.jpg'')\<lparr>f_hash := Some ''h''\<rparr>]\<rparr>\<rparr>"

theorem stored_file_is_not_stored_twice_witness:
  "upload_anyway quiet_env (\<lambda>_. ''now'') stored_incoming ''x'' 1 ''ada'' None True hashed_server =
     (Inr (), hashed_server\<lparr>sv_steps := sv_steps hashed_server + 3\<rparr>)"
proof (rule stored_file_is_not_stored_twice [OF quiet_quiet_env])
  show "check_access ''ada'' (if_storage stored_incoming) AW (sv_acc hashed_server) = Inr ()" by code_simp
  show "storage_has_any (if_storage stored_incoming) (sv_workers hashed_server)" by code_simp
  show "get_file_by_path (if_path stored_incoming) (if_storage stored_incoming) (sv_files hashed_server) =
      Inr ((plain_file ''f'' ''st'' ''a.jpg'')\<lparr>f_hash := Some ''h''\<rparr>)" by code_simp
qed (simp_all add: stored_incoming_def plain_file_def)

section \<open>Paths the service lets in\<close>

lemma dotdot_invalid: "\<not> validate_path (''../'')" "\<not> validate_path (p @ ''/../'')"
proof -
  show "\<not> validate_path (''../'')" by (simp add: validate_path_def)
  have "''..'' \<in> set (split_on CHR ''/'' (p @ CHR ''/'' # ''../''))"
    by (simp add: split_on_append_any)
  then show "\<not> validate_path (p @ ''/../'')" unfolding validate_path_def list_ex_iff by fastforce
qed

text \<open>
  A folder may be called \<open>..\<close>: renaming, moving and copying refuse a path with such a segment,
  because every client maps it onto its own file system, but creating a folder checks only its
  parent.
\<close>

theorem folder_named_dotdot:
  assumes quiet: "quiet env" and may: "check_access user storage AW (sv_acc s) = Inr ()"
    and parent: "validate_filepath parent" and known: "storage \<in> set (fd_storages (sv_files s))"
    and free: "live_row storage (if parent = [] then ''../'' else parent @ ''/../'') (sv_files s) = None"
  shows "\<exists>t. service_create_folder env storage parent ''..'' user s = (Inr (), t) \<and>
     (\<exists>r \<in> set (fd_files (sv_files t)). f_storage r = storage \<and> is_live r \<and> \<not> validate_path (f_path r))"
proof -
  let ?path = "if parent = [] then ''../'' else parent @ ''/../''"
  let ?u = "s\<lparr>sv_steps := Suc (sv_steps s)\<rparr>"
  let ?r = "new_file_row (en_ids env (sv_steps ?u) 0) (en_now env (sv_steps ?u)) ?path True (new_in_file ?path 0 storage)"
  have r: "f_storage ?r = storage" "f_path ?r = ?path" "is_live ?r"
    by (simp_all add: new_file_row_def new_in_file_def is_live_def)
  obtain db where db: "FilesRepo.create_folder (en_ids env (sv_steps ?u) 0) (en_now env (sv_steps ?u)) (new_in_file ?path 0 storage) (sv_files s) = (Inr ?r, db)"
      "?r \<in> set (fd_files db)"
    using free known r
    by (auto simp: FilesRepo.create_folder_def create_file_row_def insert_row_def Let_def new_in_file_def
        files_sync_event_insert_def row_event_def)
  have "\<not> validate_path (f_path ?r)" unfolding r(2) using dotdot_invalid by simp
  then have "\<exists>x \<in> set (fd_files db). f_storage x = storage \<and> is_live x \<and> \<not> validate_path (f_path x)"
    using db(2) r by (intro bexI [of _ ?r]) simp_all
  moreover have "service_create_folder env storage parent ''..'' user s = (Inr (), ?u\<lparr>sv_files := db, sv_steps := Suc (sv_steps ?u)\<rparr>)"
    using db(1) parent
    by (simp add: service_create_folder_def em_then_def em_bind_def require_access_run [OF quiet] may db_run_run [OF quiet] Let_def
        em_return_def split: if_splits)
  ultimately show ?thesis by - (intro exI conjI, assumption, simp)
qed

theorem folder_named_dotdot_witness:
  "\<exists>t. service_create_folder quiet_env ''st'' ''docs'' ''..'' ''ada''
      (two_storages\<lparr>sv_files := (sv_files two_storages)\<lparr>fd_storages := [''st'']\<rparr>\<rparr>) = (Inr (), t) \<and>
     (\<exists>r \<in> set (fd_files (sv_files t)). f_storage r = ''st'' \<and> is_live r \<and> \<not> validate_path (f_path r))"
  by (rule folder_named_dotdot [OF quiet_quiet_env]) code_simp+

section \<open>Moving with replacement\<close>

definition nested_server :: server where
  "nested_server = two_storages\<lparr>sv_files := (sv_files two_storages)\<lparr>
     fd_files := [plain_file ''m'' ''st'' ''notes/'', plain_file ''f'' ''st'' ''notes/notes'', plain_file ''g'' ''st'' ''notes/b.txt''], fd_storages := [''st'']\<rparr>\<rparr>"


section \<open>Copies\<close>

lemma insert_chunks_rows:
  "insert_chunks ks db = Some db' \<Longrightarrow> db' = db\<lparr>fd_chunks := fd_chunks db @ ks\<rparr> \<and>
     (\<forall>k \<in> set ks. ck_id k \<notin> ck_id ` set (fd_chunks db)) \<and> distinct (map ck_id ks)"
proof (induction ks arbitrary: db)
  case (Cons k ks)
  have fresh: "ck_id k \<notin> ck_id ` set (fd_chunks db)" and rest: "insert_chunks ks (db\<lparr>fd_chunks := fd_chunks db @ [k]\<rparr>) = Some db'"
    using Cons.prems by (auto simp: list_ex_iff split: if_splits)
  from Cons.IH [OF rest] show ?case using fresh by auto
qed simp

lemma cloned_chunks_map:
  "map ck_position (cloned_chunks ids fid chunks) = map ck_position chunks"
  "k \<in> set (cloned_chunks ids fid chunks) \<Longrightarrow> ck_file k = fid"
proof -
  have "map ck_position (map (\<lambda>(k, c). \<lparr>ck_id = ids k, ck_file = fid, ck_position = ck_position c\<rparr>) (zip xs chunks)) = map ck_position chunks"
    if "length xs = length chunks" for xs
    using that by (induction xs chunks rule: list_induct2) auto
  then show "map ck_position (cloned_chunks ids fid chunks) = map ck_position chunks"
    unfolding cloned_chunks_def by simp
  show "k \<in> set (cloned_chunks ids fid chunks) \<Longrightarrow> ck_file k = fid"
    by (auto simp: cloned_chunks_def)
qed

text \<open>A new id of a chunk belongs to a chunk of the copy at the position of the old one.\<close>

lemma cloned_id:
  assumes "map_of (rev (zip (map ck_id chunks) (map ck_id (cloned_chunks ids fid chunks)))) old = Some new"
  shows "\<exists>c \<in> set chunks. \<exists>k \<in> set (cloned_chunks ids fid chunks). ck_id c = old \<and> ck_id k = new \<and> ck_position k = ck_position c"
proof -
  have "(old, new) \<in> set (zip (map ck_id chunks) (map ck_id (cloned_chunks ids fid chunks)))"
    using map_of_SomeD [OF assms] by simp
  then obtain i where i: "i < length chunks" "ck_id (chunks ! i) = old" "ck_id (cloned_chunks ids fid chunks ! i) = new"
    by (auto simp: in_set_zip cloned_chunks_def)
  moreover have "ck_position (cloned_chunks ids fid chunks ! i) = ck_position (chunks ! i)" using i(1) by (simp add: cloned_chunks_def)
  moreover have "length (cloned_chunks ids fid chunks) = length chunks" by (simp add: cloned_chunks_def)
  ultimately show ?thesis by (metis nth_mem)
qed

lemma insert_cloned_file_ok:
  assumes "insert_cloned_file i now source dest db = (Inr r, db')"
  shows "f_id r = i" "f_path r = dest" "f_storage r = f_storage source" "f_size r = f_size source" "f_chunk_size r = f_chunk_size source"
    "f_uploaded r = f_uploaded source" "is_live r" "r \<in> set (fd_files db')"
    "fd_chunks db' = fd_chunks db" "fd_replicas db' = fd_replicas db"
  using assms
  by (auto simp: insert_cloned_file_def Let_def insert_row_def files_sync_event_insert_def row_event_def is_live_def
      split: sum.splits sql_error.splits if_splits)

text \<open>What the copies of the chunks may be.\<close>

lemma cloned_replica:
  assumes "r \<in> set (cloned_replicas ids id_map replicas)"
  shows "\<exists>old \<in> set replicas. map_of (rev id_map) (rp_chunk old) = Some (rp_chunk r) \<and> rp_status r = rp_status old \<and>
     rp_file_id r = rp_file_id old \<and> rp_channel r = rp_channel old"
  using assms by (auto simp: cloned_replicas_def List.map_filter_def in_set_zip) (metis nth_mem)

definition copies_known :: "files_db \<Rightarrow> bool" where
  "copies_known db \<longleftrightarrow> rp_chunk ` set (fd_replicas db) \<subseteq> ck_id ` set (fd_chunks db)"

text \<open>The tables after the copy: the chunks of the copy and some of the copied replicas are new.\<close>

lemma cloned_stored:
  assumes stored: "stored_as env storage B n src db" and known: "copies_known db"
    and fresh: "\<forall>c \<in> set (fd_chunks db). ck_file c \<noteq> fid"
    and chunks: "fd_chunks db' = fd_chunks db @ cloned_chunks ids fid (list_chunks_of_file src db)"
    and ids: "\<forall>k \<in> set (cloned_chunks ids fid (list_chunks_of_file src db)). ck_id k \<notin> ck_id ` set (fd_chunks db)"
      "distinct (map ck_id (cloned_chunks ids fid (list_chunks_of_file src db)))"
    and replicas: "fd_replicas db' = fd_replicas db @ new"
    and new: "set new \<subseteq> set (cloned_replicas ids' (zip (map ck_id (list_chunks_of_file src db))
        (map ck_id (cloned_chunks ids fid (list_chunks_of_file src db)))) (list_for_file src db))"
  shows "stored_as env storage B n fid db'"
  unfolding stored_as_def
proof (intro conjI allI impI)
  let ?chunks = "list_chunks_of_file src db" and ?clones = "cloned_chunks ids fid (list_chunks_of_file src db)"
  show "0 < n" using stored by (simp add: stored_as_def)
  have own: "list_chunks_of_file fid db' = ?clones"
    using fresh cloned_chunks_map(2) by (auto simp: list_chunks_of_file_def chunks filter_empty_conv intro!: filter_True)
  have sorted: "map ck_position (sort_key ck_position xs) = sort (map ck_position xs)" for xs :: "chunk_row list"
    by (rule properties_for_sort [symmetric]) simp_all
  have "map ck_position (sorted_chunks fid db') = map ck_position (sorted_chunks src db)"
    unfolding sorted_chunks_def own sorted cloned_chunks_map(1) ..
  then show "map ck_position (sorted_chunks fid db') = map int [0..<(length B + n - 1) div n]"
    using stored by (simp add: stored_as_def)
next
  let ?chunks = "list_chunks_of_file src db" and ?clones = "cloned_chunks ids fid (list_chunks_of_file src db)"
  fix channel position tid k x
  assume "(position, tid) \<in> set (list_chunks_with_replica_for_channel fid channel db')" and fetch: "en_fetch env k tid storage = Inr x"
  then obtain c r where c: "c \<in> set (fd_chunks db')" "ck_file c = fid" "position = ck_position c"
    and r: "r \<in> set (fd_replicas db')" "rp_chunk r = ck_id c" "rp_channel r = channel" "rp_status r = ''uploaded''" "rp_file_id r = Some tid"
    by (auto simp: list_chunks_with_replica_for_channel_def List.map_filter_def split: if_splits)
  have c': "c \<in> set ?clones" using c fresh by (auto simp: chunks)
  then have "r \<notin> set (fd_replicas db)" using r(2) ids(1) known unfolding copies_known_def by (metis image_eqI subsetD)
  then have "r \<in> set (cloned_replicas ids' (zip (map ck_id ?chunks) (map ck_id ?clones)) (list_for_file src db))"
    using r(1) new by (auto simp: replicas)
  from cloned_replica [OF this] obtain old where old: "old \<in> set (list_for_file src db)"
      "map_of (rev (zip (map ck_id ?chunks) (map ck_id ?clones))) (rp_chunk old) = Some (ck_id c)"
      "rp_status old = ''uploaded''" "rp_file_id old = Some tid" "rp_channel old = channel"
    using r by auto
  obtain o' k' where k': "o' \<in> set ?chunks" "k' \<in> set ?clones" "ck_id o' = rp_chunk old" "ck_id k' = ck_id c" "ck_position k' = ck_position o'"
    using cloned_id [OF old(2)] by blast
  have "(ck_position o', tid) \<in> set (list_chunks_with_replica_for_channel src channel db)"
    using k'(1,3) old by (force simp: list_chunks_with_replica_for_channel_def list_chunks_of_file_def list_for_file_def List.map_filter_def)
  then have "x = chunk_of B n (nat (ck_position o'))" using stored fetch unfolding stored_as_def by blast
  moreover have "k' = c" using ids(2) k'(2,4) c' by (auto simp: distinct_map dest: inj_onD)
  ultimately show "x = chunk_of B n (nat position)" using k'(5) c(3) by simp
qed

text \<open>The run of a copy when nobody else is served, as what it does to the tables.\<close>

lemma clone_one_row_tables:
  assumes quiet: "quiet env" and run: "clone_one_row env source dest s = (Inr (), t)"
    and plain: "\<not> is_folder_path dest" "\<not> is_folder_path (f_path source)"
    and fresh: "\<forall>c \<in> set (fd_chunks (sv_files s)). ck_file c \<noteq> en_ids env (sv_steps s) 0"
  obtains row ids ids' new where "row \<in> set (fd_files (sv_files t))" "f_id row = en_ids env (sv_steps s) 0" "f_path row = dest"
    "f_storage row = f_storage source" "f_size row = f_size source" "f_chunk_size row = f_chunk_size source"
    "f_uploaded row = f_uploaded source" "is_live row"
    "fd_chunks (sv_files t) = fd_chunks (sv_files s) @ cloned_chunks ids (f_id row) (list_chunks_of_file (f_id source) (sv_files s))"
    "\<forall>k \<in> set (cloned_chunks ids (f_id row) (list_chunks_of_file (f_id source) (sv_files s))). ck_id k \<notin> ck_id ` set (fd_chunks (sv_files s))"
    "distinct (map ck_id (cloned_chunks ids (f_id row) (list_chunks_of_file (f_id source) (sv_files s))))"
    "fd_replicas (sv_files t) = fd_replicas (sv_files s) @ new"
    "set new \<subseteq> set (cloned_replicas ids' (zip (map ck_id (list_chunks_of_file (f_id source) (sv_files s)))
       (map ck_id (cloned_chunks ids (f_id row) (list_chunks_of_file (f_id source) (sv_files s))))) (list_for_file (f_id source) (sv_files s)))"
proof -
  let ?db = "sv_files s" and ?src = "f_id source" and ?fid = "en_ids env (sv_steps s) 0"
  let ?chunks = "list_chunks_of_file ?src ?db"
  obtain row db1 where row: "insert_cloned_file ?fid (en_now env (sv_steps s)) source dest ?db = (Inr row, db1)"
    using run by (cases "insert_cloned_file ?fid (en_now env (sv_steps s)) source dest ?db"; cases "fst (insert_cloned_file ?fid (en_now env (sv_steps s)) source dest ?db)")
      (auto simp: clone_one_row_def em_bind_def db_run_run [OF quiet])
  note r = insert_cloned_file_ok [OF row]
  have same: "list_chunks_of_file ?src db1 = ?chunks" by (simp add: list_chunks_of_file_def r)
  show thesis
  proof (cases "?chunks = []")
    case True
    then have "sv_files t = db1"
      using run row plain same by (auto simp: clone_one_row_def em_bind_def db_run_run [OF quiet] db_read_run [OF quiet] em_return_def)
    then show thesis using that [of row "\<lambda>_. []" "[]" "\<lambda>_. []"] r True by (simp add: cloned_chunks_def)
  next
    case False
    define ids where "ids = en_ids env (Suc (Suc (sv_steps s)))"
    let ?clones = "cloned_chunks ids (f_id row) ?chunks"
    obtain db2 where db2: "insert_chunks ?clones db1 = Some db2"
      using run row plain same False
      by (cases "insert_chunks ?clones db1")
        (auto simp: clone_one_row_def em_bind_def db_run_run [OF quiet] db_read_run [OF quiet] Let_def create_chunks_batch_def ids_def r(1))
    note made = insert_chunks_rows [OF db2]
    have src: "?src \<noteq> f_id row" using False fresh r(1) by (force simp: list_chunks_of_file_def filter_empty_conv)
    have none: "filter (\<lambda>k. ck_file k = ?src) ?clones = []"
      using cloned_chunks_map(2) src by (auto simp: filter_empty_conv)
    have copies: "list_for_file ?src db2 = list_for_file ?src ?db"
      using made by (simp add: list_for_file_def r(9,10) none)
    define ids' where "ids' = en_ids env (sv_steps s + 4)"
    let ?new = "cloned_replicas ids' (zip (map ck_id ?chunks) (map ck_id ?clones)) (list_for_file ?src ?db)"
    obtain new where new: "sv_files t = db2\<lparr>fd_replicas := fd_replicas db2 @ new\<rparr>" "set new \<subseteq> set ?new"
    proof (cases "list_for_file ?src ?db = []")
      case True
      then have "sv_files t = db2"
        using run row plain same False db2 copies
        by (auto simp: clone_one_row_def em_bind_def db_run_run [OF quiet] db_read_run [OF quiet] Let_def create_chunks_batch_def
            ids_def r(1) em_return_def)
      then show thesis using that [of "[]"] by simp
    next
      case some: False
      obtain out where out: "insert_ignore ?new db2 = Some out" "sv_files t = db2\<lparr>fd_replicas := out\<rparr>"
        using run row plain same False db2 copies some
        by (cases "insert_ignore ?new db2")
          (auto simp: clone_one_row_def em_bind_def db_run_run [OF quiet] db_read_run [OF quiet] Let_def create_chunks_batch_def
            ids_def ids'_def r(1) insert_batch_def eval_nat_numeral)
      then show thesis using that insert_ignore_rows [OF out(1)] by auto
    qed
    have row': "row \<in> set (fd_files (sv_files t))" using r(8) made new(1) by simp
    show thesis
      by (rule that [OF row' r(1-7) _ _ _ _ new(2)]) (use made new(1) in \<open>simp_all add: r(1) r(9,10)\<close>)
  qed
qed


definition copying_env :: server_env where
  "copying_env = telegram_env\<lparr>en_ids := (\<lambda>n i. ''n'' @ show_nat n @ ''.'' @ show_nat i)\<rparr>"

lemma quiet_copying: "quiet copying_env"
  by (simp add: quiet_def copying_env_def telegram_env_def quiet_env_def)


section \<open>An accepted upload\<close>

lemma join_with_snoc: "join_with c (xs @ [a @ b]) = join_with c (xs @ [a]) @ b"
proof (induction xs)
  case (Cons x xs)
  then show ?case by (cases xs) auto
qed simp

lemma split_stem_append: "split_stem path = (stem, suf) \<Longrightarrow> stem @ suf = path"
proof -
  assume split: "split_stem path = (stem, suf)"
  let ?segs = "split_on CHR ''/'' path"
  have segs: "butlast ?segs @ [last ?segs] = ?segs" by simp
  show "stem @ suf = path"
  proof (cases "CHR ''.'' \<in> set (last ?segs)")
    case True
    let ?stem = "takeWhile (\<lambda>x. x \<noteq> CHR ''.'') (last ?segs)" and ?rest = "tl (dropWhile (\<lambda>x. x \<noteq> CHR ''.'') (last ?segs))"
    have at_dot: "xs = takeWhile (\<lambda>x. x \<noteq> c) xs @ c # tl (dropWhile (\<lambda>x. x \<noteq> c) xs)" if "c \<in> set xs" for c :: char and xs
      using that by (induction xs) auto
    have "last ?segs = ?stem @ CHR ''.'' # ?rest" using at_dot [OF True] .
    then have "join_with CHR ''/'' (butlast ?segs @ [?stem]) @ CHR ''.'' # ?rest = join_with CHR ''/'' (butlast ?segs @ [last ?segs])"
      using join_with_snoc [of "CHR ''/''" "butlast ?segs" ?stem "CHR ''.'' # ?rest"] by simp
    also have "\<dots> = path" unfolding segs by simp
    finally have "join_with CHR ''/'' (butlast ?segs @ [?stem]) @ CHR ''.'' # ?rest = path" .
    then show ?thesis using split True by (auto simp: split_stem_def Let_def split_once_def)
  next
    case False
    then show ?thesis using split segs by (auto simp: split_stem_def Let_def split_once_def)
  qed
qed

text \<open>At a free path the row is made at that path.\<close>

lemma create_at_free_path:
  assumes free: "live_row (if_storage incoming) (if_path incoming) db = None"
    and made: "create_file_anyway (\<lambda>_ db. db) ids now incoming db = (Inr row, db')"
  shows "row = new_file_row (ids 19) now (if_path incoming) False incoming" and "fd_files db' = fd_files db @ [row]"
    and "fd_chunks db' = fd_chunks db" and "fd_replicas db' = fd_replicas db"
proof -
  obtain stem suf where split: "split_stem (if_path incoming) = (stem, suf)" by fastforce
  note path = split_stem_append [OF split]
  have "if_path incoming \<notin> set (duplicate_candidates stem suf (if_storage incoming) db)"
    using free by (auto simp: duplicate_candidates_def live_row_def find_None_iff row_live_def)
  then have pick: "pick_duplicate_path stem suf (duplicate_candidates stem suf (if_storage incoming) db) = if_path incoming"
    by (simp add: pick_duplicate_path_def path list_ex_iff)
  let ?r = "new_file_row (ids 19) now (if_path incoming) False incoming"
  have r: "f_storage ?r = if_storage incoming" "f_path ?r = if_path incoming" by (simp_all add: new_file_row_def)
  have twenty: "max_attempts = Suc 19" by (simp add: max_attempts_def)
  have insert: "insert_row ?r now db = (if if_storage incoming \<in> set (fd_storages db)
      then Inr (files_sync_event_insert ?r now (db\<lparr>fd_files := fd_files db @ [?r]\<rparr>)) else Inl FkViolation)"
    using free by (simp add: insert_row_def r)
  have "row = ?r \<and> db' = files_sync_event_insert ?r now (db\<lparr>fd_files := fd_files db @ [?r]\<rparr>)"
    using made [unfolded create_file_anyway_def twenty create_attempts.simps]
    by (auto simp: split pick insert Let_def split: if_splits)
  then show "row = ?r" "fd_files db' = fd_files db @ [row]" "fd_chunks db' = fd_chunks db" "fd_replicas db' = fd_replicas db"
    by (auto simp: files_sync_event_insert_def row_event_def)
qed

text \<open>Where a row is, and that an upload leaves it there.\<close>

definition row_place :: "uuid \<Rightarrow> files_db \<Rightarrow> (string \<times> uuid \<times> int option) option" where
  "row_place i db = map_option (\<lambda>r. (f_path r, f_storage r, f_deleted r)) (row_get f_id i (fd_files db))"

lemma update_row_place:
  assumes "update_row f now j db = Inr db'" and edit: "content_edit f"
  shows "row_place i db' = row_place i db"
proof (cases "row_get f_id j (fd_files db)")
  case None
  then show ?thesis using assms(1) by (simp add: update_row_def)
next
  case (Some old)
  define new where "new = files_touch_updated_at old (f old) now"
  have new: "f_id new = j" "f_path new = f_path old" "f_storage new = f_storage old" "f_deleted new = f_deleted old"
    using edit row_get_SomeD [OF Some] by (simp_all add: new_def files_touch_updated_at_def content_edit_def)
  have files: "fd_files db' = fd_files (put_file new db)"
    using assms(1) by (auto simp: update_row_def Some Let_def new_def files_sync_event_update_def row_event_def split: if_splits)
  show ?thesis
  proof (cases "i = j")
    case True
    have "row_get f_id j (map (\<lambda>x. if f_id x = f_id new then new else x) rows) = Some new"
      if "row_get f_id j rows = Some old" for rows
      using that new(1) by (induction rows) (auto split: if_splits)
    then show ?thesis using Some new by (simp add: row_place_def files fd_files_put True)
  next
    case False
    then show ?thesis using row_get_put_file [of i new db] new(1) unfolding row_place_def files by simp
  qed
qed

lemma run_update_place:
  assumes "run_update err P f now db = (r, db')" and edit: "content_edit f"
  shows "row_place i db' = row_place i db"
proof -
  have "row_place i d = row_place i e" if "update_rows f now is e = Inr d" for "is" d e
    using that by (induction "is" arbitrary: e) (auto simp: res_bind_def update_row_place [OF _ edit] split: sum.splits)
  then show ?thesis
    using assms(1) by (auto simp: run_update_def update_where_def Let_def res_bind_def split: sum.splits)
qed

lemma place_relay_keeps:
  assumes quiet: "quiet env"
  shows "relay_keeps env d (\<lambda>s t. row_place i (sv_files s) = row_place i (sv_files t))"
proof -
  have batch: "row_place i db = row_place i db'" if "insert_batch rs db = (r, db')" for rs db r db'
    using that by (auto simp: insert_batch_def row_place_def split: option.splits)
  have chunk: "row_place i (sv_files s) = row_place i (sv_files t)"
    if "relay_chunk env storage channels fid content x s = (r, t)" for storage channels fid content x s r t
    using that
  proof (cases x)
    case (fields p off l)
    show ?thesis using that [unfolded fields]
    proof (cases rule: relay_chunkE)
      case (sent tid message r' db)
      then show ?thesis using quiet create_chunk_with_replica_ok(1) create_chunk_with_replica_refused
        by (cases r') (fastforce simp: row_place_def)+
    qed simp
  qed
  show ?thesis
    unfolding relay_keeps_def
    using quiet batch run_update_place by (auto simp: step_preorder_view em_keeps_def intro: chunk prod.collapse) (metis chunk prod.collapse)
qed

text \<open>An upload to a free path makes the row, and what is left is the relay and the last mark.\<close>

lemma relay_or_clean_upE:
  assumes "relay_or_clean_up env d s = (Inr (), t)"
  obtains v k where "upload env d s = (Inr (), v)" "db_run env (\<lambda>now _ db. set_as_uploaded (ud_file d) now db) v = (Inr k, t)"
  using assms by (auto simp: relay_or_clean_up_def em_attempt_def em_return_def em_throw_def elim!: em_bindE em_thenE split: prod.splits sum.splits)

lemma upload_from_pathE:
  assumes quiet: "quiet env" and chunk_size: "f_chunk_size row = Some (int n)" "0 < n"
    and run: "upload_from_path env row B bytes thumb s = (Inr (), t)"
  obtains v k where
    "upload env \<lparr>ud_file = f_id row, ud_content = B, ud_size = bytes, ud_chunk_size = n, ud_thumb = thumb\<rparr>
       (s\<lparr>sv_relays := relay_start (f_id row) (nat (max 0 bytes)) (sv_relays s)\<rparr>) = (Inr (), v)"
    "set_as_uploaded (f_id row) (en_now env (sv_steps v)) (sv_files v) = (Inr k, sv_files t)"
proof -
  let ?d = "\<lparr>ud_file = f_id row, ud_content = B, ud_size = bytes, ud_chunk_size = n, ud_thumb = thumb\<rparr>"
  let ?s = "s\<lparr>sv_relays := relay_start (f_id row) (nat (max 0 bytes)) (sv_relays s)\<rparr>"
  obtain w where relay: "relay_or_clean_up env ?d ?s = (Inr (), w)" "sv_files t = sv_files w"
    using run chunk_size by (auto simp: upload_from_path_def with_relay_def split: prod.splits)
  from relay(1) show thesis
  proof (rule relay_or_clean_upE)
    fix v k assume "upload env ?d ?s = (Inr (), v)"
      and "db_run env (\<lambda>now _ db. set_as_uploaded (ud_file ?d) now db) v = (Inr k, w)"
    then show thesis using that [of v k] relay(2) by (auto simp: db_run_run [OF quiet] split: prod.splits)
  qed
qed

lemma accepted_uploadE:
  assumes quiet: "quiet env" and free: "live_row (if_storage incoming) (if_path incoming) (sv_files s) = None"
    and chunk_size: "if_chunk_size incoming = Some (int n)" "0 < n"
    and run: "upload_anyway env stamp incoming B bytes user thumb replace s = (Inr (), t)"
  obtains m row u v k where "row = new_file_row (en_ids env m 19) (en_now env m) (if_path incoming) False incoming"
    "fd_files (sv_files u) = fd_files (sv_files s) @ [row]"
    "fd_chunks (sv_files u) = fd_chunks (sv_files s)" "fd_replicas (sv_files u) = fd_replicas (sv_files s)"
    "upload env \<lparr>ud_file = f_id row, ud_content = B, ud_size = bytes, ud_chunk_size = n, ud_thumb = thumb\<rparr> u = (Inr (), v)"
    "set_as_uploaded (f_id row) (en_now env (sv_steps v)) (sv_files v) = (Inr k, sv_files t)"
proof -
  have none: "get_file_by_path (if_path incoming) (if_storage incoming) (sv_files s) = Inl (DoesNotExist ''such file'')"
    by (simp add: get_file_by_path_def free)
  let ?with = "\<lambda>m. s\<lparr>sv_steps := m\<rparr>"
  have same: "\<exists>m'. same_content env incoming B bytes thumb (?with m) = (Inr False, ?with m')" for m
    by (auto simp: same_content_def em_bind_def em_attempt_def db_try_run [OF quiet] none em_return_def split: option.splits)
  have new: "\<exists>m'. (if replace then new_version env stamp incoming B bytes thumb else em_return False) (?with m) = (Inr False, ?with m')" for m
    by (auto simp: new_version_def em_bind_def em_attempt_def db_try_run [OF quiet] none em_return_def)
  let ?make = "atomically env (\<lambda>now ids s. let (r, db) = create_file_anyway (\<lambda>_ db. sv_files (en_meanwhile env (sv_steps s) (s\<lparr>sv_files := db\<rparr>)))
                 ids now incoming (sv_files s) in (r, s\<lparr>sv_files := db\<rparr>))"
  obtain m where "em_bind ?make (\<lambda>row. upload_from_path env row B bytes thumb) (?with m) = (Inr (), t)"
  proof -
    have first: "require_access env user (if_storage incoming) AW s = (x, ?with (Suc (sv_steps s)))
        \<Longrightarrow> check_storage_workers env (if_storage incoming) (?with (Suc (sv_steps s))) = (Inr y, z) \<Longrightarrow> z = ?with (Suc (Suc (sv_steps s)))" for x y z
      by (auto simp: check_storage_workers_def em_bind_def atomically_run [OF quiet] em_return_def em_throw_def split: if_splits)
    obtain m1 where same1: "same_content env incoming B bytes thumb (?with (Suc (Suc (sv_steps s)))) = (Inr False, ?with m1)" using same by blast
    obtain m2 where new1: "(if replace then new_version env stamp incoming B bytes thumb else em_return False) (?with m1) = (Inr False, ?with m2)"
      using new by blast
    obtain y z where checks: "require_access env user (if_storage incoming) AW s = (Inr y, ?with (Suc (sv_steps s)))"
        "check_storage_workers env (if_storage incoming) (?with (Suc (sv_steps s))) = (Inr z, ?with (Suc (Suc (sv_steps s))))"
      using run first unfolding upload_anyway_def
      by (auto simp: require_access_run [OF quiet] elim!: em_thenE)
    have "em_bind ?make (\<lambda>row. upload_from_path env row B bytes thumb) (?with m2) = (Inr (), t)"
      using run by (simp only: upload_anyway_def em_then_def em_bind_def checks same1 new1 prod.case sum.case if_False)
    then show thesis by (rule that)
  qed
  then obtain row u where make: "?make (?with m) = (Inr row, u)" and relay: "upload_from_path env row B bytes thumb u = (Inr (), t)"
    by (auto elim: em_bindE)
  obtain db where db: "create_file_anyway (\<lambda>_ db. db) (en_ids env m) (en_now env m) incoming (sv_files s) = (Inr row, db)" "sv_files u = db"
    using make quiet by (auto simp: atomically_run [OF quiet] split: prod.splits)
  note made = create_at_free_path [OF free db(1)]
  have "f_chunk_size row = Some (int n)" using made(1) chunk_size(1) by (simp add: new_file_row_def)
  from quiet this chunk_size(2) relay show thesis
  proof (rule upload_from_pathE)
    let ?u = "u\<lparr>sv_relays := relay_start (f_id row) (nat (max 0 bytes)) (sv_relays u)\<rparr>"
    fix v k assume up: "upload env \<lparr>ud_file = f_id row, ud_content = B, ud_size = bytes, ud_chunk_size = n, ud_thumb = thumb\<rparr> ?u = (Inr (), v)"
      and mark: "set_as_uploaded (f_id row) (en_now env (sv_steps v)) (sv_files v) = (Inr k, sv_files t)"
    show thesis by (rule that [OF made(1) _ _ _ up mark]) (simp_all add: db(2) made(2-4))
  qed
qed


definition fresh_upload :: in_file where
  "fresh_upload = (new_in_file ''b.txt'' 5 ''st'')\<lparr>if_chunk_size := Some 2\<rparr>"

definition accepted_run :: "(sarca_error + unit) \<times> server" where
  "accepted_run = upload_anyway echo_env (\<lambda>_. ''now'') fresh_upload ''abcde'' 5 ''ada'' None True partial_server"


end
