(* ===== verification/SendGate.thy ===== *)
theory SendGate
  imports Prelude "HOL-Library.Multiset"
begin

text \<open>
  The gate in front of every message that is sent to Telegram (\<open>SendPermit\<close> in
  common/telegram_api/bot_api.rs): a fair semaphore per bot and chat, of which a sender takes one
  slot, or every slot when the chat has been flooded lately; the time of the last success and
  the end of the flood window pace the sends. Times are milliseconds on the monotonic clock.
\<close>

section \<open>Pacing\<close>

definition min_send_gap_default :: nat where "min_send_gap_default = 50"
definition min_send_gap_after_flood_default :: nat where "min_send_gap_after_flood_default = 3000"
definition send_concurrency_default :: nat where "send_concurrency_default = 3"
definition flood_pacing_window :: nat where "flood_pacing_window = 300000"
definition post_flood_extra_cooldown_default :: nat where "post_flood_extra_cooldown_default = 7000"

text \<open>What the environment variables override; \<open>None\<close> for one that is unset or no number.\<close>

record pacing =
  pc_test :: "nat option"
  pc_gap :: "nat option"
  pc_slots :: "nat option"

definition send_concurrency :: "pacing \<Rightarrow> nat" where
  "send_concurrency c = (let n = (case pc_slots c of Some n \<Rightarrow> n | None \<Rightarrow> send_concurrency_default) in max 1 (min 16 n))"

definition min_send_gap :: "pacing \<Rightarrow> nat" where
  "min_send_gap c = (case pc_test c of Some n \<Rightarrow> n | None \<Rightarrow> (case pc_gap c of Some n \<Rightarrow> n | None \<Rightarrow> min_send_gap_default))"

definition min_send_gap_after_flood :: "pacing \<Rightarrow> nat" where
  "min_send_gap_after_flood c = (case pc_test c of Some n \<Rightarrow> n | None \<Rightarrow> min_send_gap_after_flood_default)"

definition post_flood_extra_cooldown :: "pacing \<Rightarrow> nat" where
  "post_flood_extra_cooldown c = (case pc_test c of Some n \<Rightarrow> n | None \<Rightarrow> post_flood_extra_cooldown_default)"

text \<open>One gate; the slots of its semaphore are accounted for below.\<close>

record send_gate =
  sg_last_ok :: "nat option"
  sg_flood_until :: "nat option"

definition new_gate :: send_gate where
  "new_gate = \<lparr>sg_last_ok = None, sg_flood_until = None\<rparr>"

definition in_flood :: "nat \<Rightarrow> send_gate \<Rightarrow> bool" where
  "in_flood now g = (case sg_flood_until g of None \<Rightarrow> False | Some t \<Rightarrow> now < t)"

definition slots_wanted :: "pacing \<Rightarrow> nat \<Rightarrow> send_gate \<Rightarrow> nat" where
  "slots_wanted c now g = (if in_flood now g then send_concurrency c else 1)"

definition send_gap :: "pacing \<Rightarrow> nat \<Rightarrow> send_gate \<Rightarrow> nat" where
  "send_gap c now g = (if in_flood now g then min_send_gap_after_flood c else min_send_gap c)"

definition pace_sleep :: "pacing \<Rightarrow> nat \<Rightarrow> send_gate \<Rightarrow> nat" where
  "pace_sleep c now g = (case sg_last_ok g of None \<Rightarrow> 0 | Some t \<Rightarrow> send_gap c now g - (now - t))"

definition mark_ok :: "nat \<Rightarrow> send_gate \<Rightarrow> send_gate" where
  "mark_ok now g = g\<lparr>sg_last_ok := Some now\<rparr>"

definition note_flood :: "nat \<Rightarrow> send_gate \<Rightarrow> send_gate" where
  "note_flood now g = g\<lparr>sg_flood_until := Some (now + flood_pacing_window)\<rparr>"

section \<open>Callers at one gate\<close>

text \<open>
  A caller waits with the number of slots it wants, holds them until the time it may send at,
  sends, and waits out a flood; \<open>Flooded w\<close> ends at \<open>w\<close> and keeps the slots.
\<close>

datatype phase = Paced nat | Sending | Flooded nat

record gate_state =
  gs_now :: nat
  gs_gate :: send_gate
  gs_queue :: "(nat \<times> nat) list"
  gs_held :: "(nat \<times> nat \<times> phase) list"

definition held_slots :: "(nat \<times> nat \<times> phase) list \<Rightarrow> nat" where
  "held_slots held = sum_list (map (fst \<circ> snd) held)"

definition callers :: "gate_state \<Rightarrow> nat list" where
  "callers s = map fst (gs_queue s) @ map fst (gs_held s)"

definition set_phase :: "nat \<Rightarrow> phase \<Rightarrow> (nat \<times> nat \<times> phase) list \<Rightarrow> (nat \<times> nat \<times> phase) list" where
  "set_phase i p held = map (\<lambda>(j, k, q). if j = i then (j, k, p) else (j, k, q)) held"

definition drop_caller :: "nat \<Rightarrow> (nat \<times> 'a) list \<Rightarrow> (nat \<times> 'a) list" where
  "drop_caller i xs = filter (\<lambda>x. fst x \<noteq> i) xs"

datatype gate_event =
    Pass nat
  | Arrive nat
  | Grant
  | Send nat
  | Again nat nat
  | FloodAnswer nat nat
  | FloodNoted nat
  | Sent nat
  | Leave nat

text \<open>
  What one event does, \<open>None\<close> where it cannot happen: time passes; a caller looks at the flood
  window and queues; the first in the queue gets its slots and the time to send at; a caller sends,
  sends again after an error, is told of a flood, has waited it out, succeeds, or gives up.
\<close>

fun gate_do :: "pacing \<Rightarrow> gate_event \<Rightarrow> gate_state \<Rightarrow> gate_state option" where
  "gate_do c (Pass d) s = Some (s\<lparr>gs_now := gs_now s + d\<rparr>)"
| "gate_do c (Arrive i) s =
     (if i \<in> set (callers s) then None
      else Some (s\<lparr>gs_queue := gs_queue s @ [(i, slots_wanted c (gs_now s) (gs_gate s))]\<rparr>))"
| "gate_do c Grant s = (case gs_queue s of
     [] \<Rightarrow> None
   | (i, k) # q \<Rightarrow>
       if held_slots (gs_held s) + k \<le> send_concurrency c
       then Some (s\<lparr>gs_queue := q, gs_held := gs_held s @ [(i, k, Paced (gs_now s + pace_sleep c (gs_now s) (gs_gate s)))]\<rparr>)
       else None)"
| "gate_do c (Send i) s = (case map_of (gs_held s) i of
     Some (k, Paced r) \<Rightarrow> if r \<le> gs_now s then Some (s\<lparr>gs_held := set_phase i Sending (gs_held s)\<rparr>) else None
   | _ \<Rightarrow> None)"
| "gate_do c (Again i backoff) s = (case map_of (gs_held s) i of
     Some (k, Sending) \<Rightarrow> Some (s\<lparr>gs_held := set_phase i (Paced (gs_now s + backoff)) (gs_held s)\<rparr>)
   | _ \<Rightarrow> None)"
| "gate_do c (FloodAnswer i wait) s = (case map_of (gs_held s) i of
     Some (k, Sending) \<Rightarrow> Some (s\<lparr>gs_held := set_phase i (Flooded (gs_now s + wait)) (gs_held s)\<rparr>)
   | _ \<Rightarrow> None)"
| "gate_do c (FloodNoted i) s = (case map_of (gs_held s) i of
     Some (k, Flooded w) \<Rightarrow>
       if w \<le> gs_now s
       then Some (s\<lparr>gs_gate := note_flood (gs_now s) (gs_gate s),
         gs_held := set_phase i (Paced (gs_now s + post_flood_extra_cooldown c)) (gs_held s)\<rparr>)
       else None
   | _ \<Rightarrow> None)"
| "gate_do c (Sent i) s = (case map_of (gs_held s) i of
     Some (k, Sending) \<Rightarrow> Some (s\<lparr>gs_gate := mark_ok (gs_now s) (gs_gate s), gs_held := drop_caller i (gs_held s)\<rparr>)
   | _ \<Rightarrow> None)"
| "gate_do c (Leave i) s = Some (s\<lparr>gs_queue := drop_caller i (gs_queue s), gs_held := drop_caller i (gs_held s)\<rparr>)"

definition idle_gate :: "nat \<Rightarrow> gate_state" where
  "idle_gate now = \<lparr>gs_now = now, gs_gate = new_gate, gs_queue = [], gs_held = []\<rparr>"

inductive gate_reach :: "pacing \<Rightarrow> gate_state \<Rightarrow> bool" for c where
  start: "gate_reach c (idle_gate now)"
| step: "gate_reach c s \<Longrightarrow> gate_do c e s = Some t \<Longrightarrow> gate_reach c t"

fun gate_run :: "pacing \<Rightarrow> gate_event list \<Rightarrow> gate_state \<Rightarrow> gate_state option" where
  "gate_run c [] s = Some s"
| "gate_run c (e # es) s = Option.bind (gate_do c e s) (gate_run c es)"

lemma gate_run_reach: "gate_reach c s \<Longrightarrow> gate_run c es s = Some t \<Longrightarrow> gate_reach c t"
  by (induction es arbitrary: s) (auto simp: bind_eq_Some_conv intro: gate_reach.step)

section \<open>What the gate keeps\<close>

text \<open>
  Nobody is there twice, everybody wants one slot or all of them, the slots are not given out
  twice, and whoever holds all of them sends no sooner than the least gap after the last success.
\<close>

definition least_gap :: "pacing \<Rightarrow> nat" where
  "least_gap c = min (min_send_gap c) (min_send_gap_after_flood c)"

definition phase_from :: "nat \<Rightarrow> phase \<Rightarrow> nat" where
  "phase_from now p = (case p of Paced r \<Rightarrow> r | Sending \<Rightarrow> now | Flooded w \<Rightarrow> now)"

definition gate_inv :: "pacing \<Rightarrow> gate_state \<Rightarrow> bool" where
  "gate_inv c s \<longleftrightarrow> distinct (callers s) \<and>
     (\<forall>(i, k) \<in> set (gs_queue s). k \<in> {1, send_concurrency c}) \<and>
     (\<forall>(i, k, p) \<in> set (gs_held s). k \<in> {1, send_concurrency c}) \<and>
     held_slots (gs_held s) \<le> send_concurrency c \<and>
     (\<forall>t. sg_last_ok (gs_gate s) = Some t \<longrightarrow> t \<le> gs_now s \<and>
        (\<forall>(i, k, p) \<in> set (gs_held s). k = send_concurrency c \<longrightarrow> t + least_gap c \<le> phase_from (gs_now s) p))"

lemma send_concurrency_bounds: "1 \<le> send_concurrency c" "send_concurrency c \<le> 16"
  by (simp_all add: send_concurrency_def Let_def)

lemma held_slots_simps [simp]:
  "held_slots [] = 0" "held_slots ((i, k, p) # held) = k + held_slots held"
  "held_slots (xs @ ys) = held_slots xs + held_slots ys"
  by (simp_all add: held_slots_def)

lemma held_slots_set_phase [simp]: "held_slots (set_phase i p held) = held_slots held"
  by (induction held) (auto simp: held_slots_def set_phase_def)

lemma map_fst_set_phase [simp]: "map fst (set_phase i p held) = map fst held"
  by (induction held) (auto simp: set_phase_def)

lemma set_phase_simps:
  "set_phase i p [] = []"
  "set_phase i p ((j, k, q) # held) = (if j = i then (j, k, p) else (j, k, q)) # set_phase i p held"
  by (simp_all add: set_phase_def)

lemma set_phase_members:
  "(j, k, q) \<in> set (set_phase i p held) \<longleftrightarrow>
     (if j = i then q = p \<and> (\<exists>q'. (i, k, q') \<in> set held) else (j, k, q) \<in> set held)"
proof (induction held)
  case (Cons h held)
  then show ?case by (cases h) (auto simp: set_phase_simps)
qed (simp add: set_phase_simps)

lemma held_slots_drop: "held_slots (drop_caller i held) \<le> held_slots held"
  by (induction held) (auto simp: drop_caller_def)

lemma held_slots_two:
  assumes "distinct (map fst held)" "(i, k, p) \<in> set held" "(j, l, q) \<in> set held" "i \<noteq> j"
  shows "k + l \<le> held_slots held"
proof -
  have one: "k \<le> held_slots h" if "(i, k, p) \<in> set h" for i k p and h :: "(nat \<times> nat \<times> phase) list"
    using that by (induction h) auto
  show ?thesis using assms by (induction held) (use one in \<open>fastforce+\<close>)
qed

text \<open>Whoever holds all the slots is alone.\<close>

lemma gate_inv_alone:
  assumes "gate_inv c s" "(i, send_concurrency c, p) \<in> set (gs_held s)" "(j, k, q) \<in> set (gs_held s)"
  shows "j = i"
proof (rule ccontr)
  assume "j \<noteq> i"
  moreover have "distinct (map fst (gs_held s))" "k \<in> {1, send_concurrency c}" "held_slots (gs_held s) \<le> send_concurrency c"
    using assms by (auto simp: gate_inv_def callers_def)
  ultimately show False
    using held_slots_two [OF _ assms(2,3)] send_concurrency_bounds(1) [of c] by fastforce
qed

lemma callers_set_phase [simp]: "callers (s\<lparr>gs_held := set_phase i p (gs_held s)\<rparr>) = callers s"
  by (simp add: callers_def)

lemma distinct_drop: "distinct (map fst xs) \<Longrightarrow> distinct (map fst (drop_caller i xs))"
  by (simp add: drop_caller_def distinct_map_filter)

lemma drop_caller_members: "x \<in> set (drop_caller i xs) \<longleftrightarrow> x \<in> set xs \<and> fst x \<noteq> i"
  by (auto simp: drop_caller_def)

lemma gate_inv_phase:
  assumes inv: "gate_inv c s" and at: "map_of (gs_held s) i = Some (k, q)"
    and later: "\<And>t. t + least_gap c \<le> phase_from (gs_now s) q \<Longrightarrow> t + least_gap c \<le> phase_from (gs_now s) p"
    and same: "sg_last_ok g = sg_last_ok (gs_gate s)"
  shows "gate_inv c (s\<lparr>gs_gate := g, gs_held := set_phase i p (gs_held s)\<rparr>)"
proof -
  have "(i, k, q) \<in> set (gs_held s)" using at by (rule map_of_SomeD)
  moreover have "q' = q" if "(i, k', q') \<in> set (gs_held s)" for k' q'
    using that at inv by (simp add: gate_inv_def callers_def)
  ultimately have members: "\<exists>q'. (j, l, q') \<in> set (gs_held s) \<and> (x = q' \<or> x = p \<and> q' = q)"
    if "(j, l, x) \<in> set (set_phase i p (gs_held s))" for j l x
    using that unfolding set_phase_members by (metis)
  have "\<forall>(j, l, x) \<in> set (set_phase i p (gs_held s)). l \<in> {1, send_concurrency c}"
    using members inv by (fastforce simp: gate_inv_def)
  moreover have "t + least_gap c \<le> phase_from (gs_now s) x"
    if "sg_last_ok (gs_gate s) = Some t" "(j, send_concurrency c, x) \<in> set (set_phase i p (gs_held s))" for t j x
    using members [OF that(2)] inv later that(1) by (fastforce simp: gate_inv_def)
  ultimately show ?thesis using inv by (simp add: gate_inv_def callers_def same) blast
qed

lemma distinct_callers_arrive:
  "i \<notin> set (callers s) \<Longrightarrow> distinct (callers s) \<Longrightarrow> distinct (callers (s\<lparr>gs_queue := gs_queue s @ [(i, k)]\<rparr>))"
  by (rule mset_eq_imp_distinct_iff [THEN iffD2, of _ "i # callers s"]) (simp_all add: callers_def)

lemma distinct_callers_grant:
  "gs_queue s = (i, k) # q \<Longrightarrow> distinct (callers s) \<Longrightarrow> distinct (callers (s\<lparr>gs_queue := q, gs_held := gs_held s @ [(i, k, p)]\<rparr>))"
  by (rule mset_eq_imp_distinct_iff [THEN iffD2, of _ "callers s"]) (simp_all add: callers_def)

lemma distinct_callers_drop:
  "distinct (callers s) \<Longrightarrow> distinct (callers (s\<lparr>gs_held := drop_caller i (gs_held s)\<rparr>))"
  "distinct (callers s) \<Longrightarrow> distinct (callers (s\<lparr>gs_queue := drop_caller i (gs_queue s), gs_held := drop_caller i (gs_held s)\<rparr>))"
  by (auto simp: callers_def drop_caller_def distinct_map_filter)

lemma callers_gate [simp]: "callers (s\<lparr>gs_gate := g\<rparr>) = callers s" "callers (s\<lparr>gs_now := n\<rparr>) = callers s"
  by (simp_all add: callers_def)

lemma gate_inv_step:
  assumes inv: "gate_inv c s" and step: "gate_do c e s = Some t"
  shows "gate_inv c t"
proof (cases e)
  case (Pass d)
  then have t: "t = s\<lparr>gs_now := gs_now s + d\<rparr>" using step by simp
  have "phase_from (gs_now s) p \<le> phase_from (gs_now s + d) p" for p
    by (cases p) (simp_all add: phase_from_def)
  then have "x + least_gap c \<le> phase_from (gs_now s + d) p" if "x + least_gap c \<le> phase_from (gs_now s) p" for x p
    using that le_trans by blast
  then show ?thesis using inv unfolding t by (simp add: gate_inv_def callers_def split_beta) (metis trans_le_add1)
next
  case (Arrive i)
  then have new: "i \<notin> set (callers s)" and t: "t = s\<lparr>gs_queue := gs_queue s @ [(i, slots_wanted c (gs_now s) (gs_gate s))]\<rparr>"
    using step by (auto split: if_splits)
  show ?thesis using inv distinct_callers_arrive [OF new] unfolding t by (simp add: gate_inv_def slots_wanted_def)
next
  case Grant
  then obtain i k q where queue: "gs_queue s = (i, k) # q" and room: "held_slots (gs_held s) + k \<le> send_concurrency c"
    and t: "t = s\<lparr>gs_queue := q, gs_held := gs_held s @ [(i, k, Paced (gs_now s + pace_sleep c (gs_now s) (gs_gate s)))]\<rparr>"
    using step by (auto split: list.splits if_splits)
  have "x + least_gap c \<le> gs_now s + pace_sleep c (gs_now s) (gs_gate s)" if "sg_last_ok (gs_gate s) = Some x" "x \<le> gs_now s" for x
    using that by (auto simp: pace_sleep_def send_gap_def least_gap_def)
  then show ?thesis using inv queue room distinct_callers_grant [OF queue] unfolding t by (auto simp: gate_inv_def phase_from_def)
next
  case (Send i)
  then obtain k r where at: "map_of (gs_held s) i = Some (k, Paced r)" and r: "r \<le> gs_now s"
    and t: "t = s\<lparr>gs_held := set_phase i Sending (gs_held s)\<rparr>"
    using step by (auto split: option.splits phase.splits if_splits)
  show ?thesis using gate_inv_phase [OF inv at, of Sending "gs_gate s"] r by (simp add: t phase_from_def)
next
  case (Again i backoff)
  then obtain k where at: "map_of (gs_held s) i = Some (k, Sending)"
    and t: "t = s\<lparr>gs_held := set_phase i (Paced (gs_now s + backoff)) (gs_held s)\<rparr>"
    using step by (auto split: option.splits phase.splits if_splits)
  show ?thesis using gate_inv_phase [OF inv at, of _ "gs_gate s"] by (simp add: t phase_from_def)
next
  case (FloodAnswer i wait)
  then obtain k where at: "map_of (gs_held s) i = Some (k, Sending)"
    and t: "t = s\<lparr>gs_held := set_phase i (Flooded (gs_now s + wait)) (gs_held s)\<rparr>"
    using step by (auto split: option.splits phase.splits if_splits)
  show ?thesis using gate_inv_phase [OF inv at, of _ "gs_gate s"] by (simp add: t phase_from_def)
next
  case (FloodNoted i)
  then obtain k w where at: "map_of (gs_held s) i = Some (k, Flooded w)"
    and t: "t = s\<lparr>gs_gate := note_flood (gs_now s) (gs_gate s),
       gs_held := set_phase i (Paced (gs_now s + post_flood_extra_cooldown c)) (gs_held s)\<rparr>"
    using step by (auto split: option.splits phase.splits if_splits)
  show ?thesis using gate_inv_phase [OF inv at, of _ "note_flood (gs_now s) (gs_gate s)"]
    by (simp add: t phase_from_def note_flood_def)
next
  case (Sent i)
  then obtain k where at: "map_of (gs_held s) i = Some (k, Sending)"
    and t: "t = s\<lparr>gs_gate := mark_ok (gs_now s) (gs_gate s), gs_held := drop_caller i (gs_held s)\<rparr>"
    using step by (auto split: option.splits phase.splits)
  have "(i, k, Sending) \<in> set (gs_held s)" using at by (rule map_of_SomeD)
  then have none: "j = i" if "(j, send_concurrency c, q) \<in> set (gs_held s)" for j q
    using gate_inv_alone [OF inv that] by blast
  have "distinct (callers t)" using inv distinct_callers_drop(1) [of s i] by (simp add: t gate_inv_def callers_def)
  then show ?thesis using inv none held_slots_drop [of i "gs_held s"] unfolding t
    by (auto simp: gate_inv_def drop_caller_members mark_ok_def dest!: none)
next
  case (Leave i)
  then have t: "t = s\<lparr>gs_queue := drop_caller i (gs_queue s), gs_held := drop_caller i (gs_held s)\<rparr>" using step by simp
  show ?thesis using inv held_slots_drop [of i "gs_held s"] distinct_callers_drop(2) [of s i] unfolding t
    by (auto simp: gate_inv_def drop_caller_members)
qed

lemma gate_inv_idle: "gate_inv c (idle_gate now)"
  by (simp add: gate_inv_def idle_gate_def callers_def new_gate_def)

lemma gate_reach_inv: "gate_reach c s \<Longrightarrow> gate_inv c s"
  by (induction rule: gate_reach.induct) (rule gate_inv_idle, rule gate_inv_step)

section \<open>Who sends, and when\<close>

text \<open>The number of slots a caller asked for when it came stays with it.\<close>

definition asked :: "nat \<Rightarrow> nat \<Rightarrow> gate_state \<Rightarrow> bool" where
  "asked i n s \<longleftrightarrow> (\<forall>k. (i, k) \<in> set (gs_queue s) \<longrightarrow> k = n) \<and> (\<forall>k p. (i, k, p) \<in> set (gs_held s) \<longrightarrow> k = n)"

lemma asked_do: "asked i n s \<Longrightarrow> gate_do c e s = Some t \<Longrightarrow> e \<noteq> Arrive i \<Longrightarrow> asked i n t"
  by (cases e) (auto simp: asked_def set_phase_members drop_caller_members split: if_splits option.splits list.splits phase.splits, blast+)

lemma asked_run: "asked i n s \<Longrightarrow> gate_run c es s = Some t \<Longrightarrow> Arrive i \<notin> set es \<Longrightarrow> asked i n t"
  by (induction es arbitrary: s) (auto simp: bind_eq_Some_conv dest: asked_do)

lemma senders_fit:
  assumes "gate_reach c s"
  shows "length (gs_held s) \<le> send_concurrency c"
proof -
  have "length held \<le> held_slots held" if "\<forall>(i, k, p) \<in> set held. 1 \<le> k" for held
    using that by (induction held) auto
  moreover have "\<forall>(i, k, p) \<in> set (gs_held s). 1 \<le> k"
    using gate_reach_inv [OF assms] send_concurrency_bounds(1) [of c] by (fastforce simp: gate_inv_def)
  ultimately show ?thesis using gate_reach_inv [OF assms] by (fastforce simp: gate_inv_def)
qed

text \<open>
  C4. A caller that comes while its chat is in a flood window sends alone: as long as it holds its
  slots nobody else holds any, and every send of it starts at least the least gap after the last
  success in that chat. There are never more callers at it than the configured number.
\<close>

theorem flooded_caller_sends_alone:
  assumes reach: "gate_reach c s" and flood: "in_flood (gs_now s) (gs_gate s)"
    and arrive: "gate_do c (Arrive i) s = Some s1" and run: "gate_run c es s1 = Some u" and once: "Arrive i \<notin> set es"
  shows "length (gs_held u) \<le> send_concurrency c \<and>
    (\<forall>k p. (i, k, p) \<in> set (gs_held u) \<longrightarrow> gs_held u = [(i, k, p)] \<and>
      (\<forall>x v. sg_last_ok (gs_gate u) = Some x \<longrightarrow> gate_do c (Send i) u = Some v \<longrightarrow> x + least_gap c \<le> gs_now v))"
proof -
  have u: "gate_reach c u" using gate_reach.step [OF reach arrive] run by (rule gate_run_reach)
  note inv = gate_reach_inv [OF u]
  have "asked i (send_concurrency c) s1"
    using arrive flood by (force simp: asked_def callers_def slots_wanted_def split: if_splits)
  then have "asked i (send_concurrency c) u" using run once by (rule asked_run)
  then have slots: "k = send_concurrency c" if "(i, k, p) \<in> set (gs_held u)" for k p
    using that unfolding asked_def by blast
  have alone: "gs_held u = [(i, k, p)]" if at: "(i, k, p) \<in> set (gs_held u)" for k p
  proof -
    have "fst x = i" if "x \<in> set (gs_held u)" for x
      using gate_inv_alone [OF inv, of i p "fst x" "fst (snd x)" "snd (snd x)"] at slots [OF at] that by simp
    then have "length (gs_held u) \<le> 1"
      using inv by (cases "gs_held u"; cases "tl (gs_held u)") (auto simp: gate_inv_def callers_def)
    then show ?thesis using at by (cases "gs_held u") auto
  qed
  have gap: "x + least_gap c \<le> gs_now v"
    if at: "(i, k, p) \<in> set (gs_held u)" and last: "sg_last_ok (gs_gate u) = Some x" and send: "gate_do c (Send i) u = Some v" for k p x v
  proof -
    obtain r where "p = Paced r" "r \<le> gs_now u" "gs_now v = gs_now u"
      using send alone [OF at] by (auto split: phase.splits if_splits)
    moreover have "x + least_gap c \<le> phase_from (gs_now u) p"
      using inv last at slots [OF at] by (fastforce simp: gate_inv_def)
    ultimately show ?thesis by (simp add: phase_from_def)
  qed
  show ?thesis using senders_fit [OF u] alone gap by blast
qed

definition default_pacing :: pacing where
  "default_pacing = \<lparr>pc_test = None, pc_gap = None, pc_slots = None\<rparr>"

text \<open>A flood, told to the first caller; the second comes into the window and waits for the first.\<close>

definition told_events :: "gate_event list" where
  "told_events = [Arrive 1, Grant, Send 1, FloodAnswer 1 1000, Pass 1000, FloodNoted 1]"

definition after_events :: "gate_event list" where
  "after_events = [Pass 7000, Send 1, Sent 1, Grant, Pass 3000]"

lemmas gate_eval = default_pacing_def idle_gate_def callers_def slots_wanted_def in_flood_def new_gate_def
  send_concurrency_def send_concurrency_default_def pace_sleep_def set_phase_def note_flood_def flood_pacing_window_def
  post_flood_extra_cooldown_def post_flood_extra_cooldown_default_def told_events_def after_events_def
  mark_ok_def drop_caller_def send_gap_def min_send_gap_after_flood_def min_send_gap_after_flood_default_def
  least_gap_def min_send_gap_def min_send_gap_default_def

lemma told_run:
  "gate_run default_pacing told_events (idle_gate 0) = Some \<lparr>gs_now = 1000,
     gs_gate = \<lparr>sg_last_ok = None, sg_flood_until = Some 301000\<rparr>, gs_queue = [], gs_held = [(1, 1, Paced 8000)]\<rparr>"
  by (simp add: gate_eval)

lemma after_run:
  "gate_run default_pacing after_events \<lparr>gs_now = 1000, gs_gate = \<lparr>sg_last_ok = None, sg_flood_until = Some 301000\<rparr>,
       gs_queue = [(2, 3)], gs_held = [(1, 1, Paced 8000)]\<rparr> = Some \<lparr>gs_now = 11000,
     gs_gate = \<lparr>sg_last_ok = Some 8000, sg_flood_until = Some 301000\<rparr>, gs_queue = [], gs_held = [(2, 3, Paced 11000)]\<rparr>"
  by (simp add: gate_eval)

theorem flooded_caller_sends_alone_witness:
  "\<exists>s s1 u v. gate_run default_pacing told_events (idle_gate 0) = Some s \<and> gate_do default_pacing (Arrive 2) s = Some s1 \<and>
     gate_run default_pacing after_events s1 = Some u \<and> gs_held u = [(2, 3, Paced 11000)] \<and>
     gate_do default_pacing (Send 2) u = Some v \<and> 8000 + 50 \<le> gs_now v"
proof -
  let ?s = "\<lparr>gs_now = 1000, gs_gate = \<lparr>sg_last_ok = None, sg_flood_until = Some 301000\<rparr>, gs_queue = [], gs_held = [(1, 1, Paced 8000)]\<rparr>"
  have s1: "gate_do default_pacing (Arrive 2) ?s = Some (?s\<lparr>gs_queue := [(2, 3)]\<rparr>)" by (simp add: gate_eval)
  have u: "gate_run default_pacing after_events (?s\<lparr>gs_queue := [(2, 3)]\<rparr>) = Some \<lparr>gs_now = 11000,
      gs_gate = \<lparr>sg_last_ok = Some 8000, sg_flood_until = Some 301000\<rparr>, gs_queue = [], gs_held = [(2, 3, Paced 11000)]\<rparr>"
    using after_run by simp
  have flood: "in_flood (gs_now ?s) (gs_gate ?s)" and once: "Arrive 2 \<notin> set after_events" by (simp_all add: gate_eval)
  show ?thesis
    using flooded_caller_sends_alone [OF gate_run_reach [OF gate_reach.start told_run] flood s1 u once] told_run s1 u
    by (simp add: gate_eval)
qed

text \<open>The first in the queue gets its slots once the others are gone.\<close>

lemma gate_not_stuck:
  assumes "gate_reach c s" "gs_queue s \<noteq> []" "gs_held s = []"
  shows "\<exists>t. gate_do c Grant s = Some t"
proof -
  obtain i k q where queue: "gs_queue s = (i, k) # q" using assms(2) by (cases "gs_queue s") auto
  then have "k \<le> send_concurrency c"
    using gate_reach_inv [OF assms(1)] send_concurrency_bounds(1) [of c] by (auto simp: gate_inv_def)
  then show ?thesis using queue assms(3) by simp
qed


end
