(* ===== verification/TelegramApi.thy ===== *)
theory TelegramApi
  imports ServerErrors EngineMonad SendGate
begin

text \<open>
  The client of Telegram's bot interface (common/telegram_api/bot_api.rs): requests are repeated
  after network errors, server errors and flood waits, messages are sent through the gate of
  their chat, and the answers become file ids, message numbers and bytes. What the network
  answers and how long everything takes is an argument; times are milliseconds.
\<close>

section \<open>The network and what others do meanwhile\<close>

text \<open>An answer with its status, and its body when that could be read; or no answer.\<close>

datatype http_answer = Answer nat "string option" | NoAnswer

record http_request =
  hr_url :: string
  hr_form :: "(string \<times> string) list"

record telegram =
  tg_now :: nat
  tg_calls :: nat
  tg_log :: "(nat \<times> http_request \<times> http_answer) list"
  tg_gates :: "string \<Rightarrow> send_gate option"

record telegram_env =
  te_base :: string
  te_token :: "nat \<Rightarrow> string \<Rightarrow> nat option \<Rightarrow> string sarca_result"
  te_answer :: "nat \<Rightarrow> http_request \<Rightarrow> http_answer"
  te_received :: "nat \<Rightarrow> string"
  te_latency :: "nat \<Rightarrow> nat"
  te_late :: "nat \<Rightarrow> nat"
  te_jitter :: "nat \<Rightarrow> nat"
  te_pacing :: pacing
  te_slot_wait :: "nat \<Rightarrow> nat"
  te_others :: "nat \<Rightarrow> string \<Rightarrow> send_gate \<Rightarrow> send_gate"
  te_status_text :: "nat \<Rightarrow> string"
  te_sent :: "string \<Rightarrow> (string \<times> int) option"
  te_copied :: "string \<Rightarrow> int option"
  te_file_path :: "string \<Rightarrow> string option"
  te_chat :: "string \<Rightarrow> (string option \<times> string option \<times> string option) option"

type_synonym 'a tg = "(telegram, sarca_error, 'a) em"

text \<open>A sleep ends at its time or later.\<close>

definition sleep :: "telegram_env \<Rightarrow> nat \<Rightarrow> unit tg" where
  "sleep env d = em_modify (\<lambda>s. s\<lparr>tg_now := tg_now s + d + te_late env (tg_calls s)\<rparr>)"

definition http_call :: "telegram_env \<Rightarrow> http_request \<Rightarrow> http_answer tg" where
  "http_call env q = (\<lambda>s.
     let n = tg_calls s; a = te_answer env n q
     in (Inr a, s\<lparr>tg_calls := Suc n, tg_log := tg_log s @ [(tg_now s, q, a)], tg_now := tg_now s + te_latency env n\<rparr>))"

definition http_success :: "nat \<Rightarrow> bool" where "http_success status \<longleftrightarrow> 200 \<le> status \<and> status < 300"
definition http_client_error :: "nat \<Rightarrow> bool" where "http_client_error status \<longleftrightarrow> 400 \<le> status \<and> status < 500"
definition http_server_error :: "nat \<Rightarrow> bool" where "http_server_error status \<longleftrightarrow> 500 \<le> status \<and> status < 600"

section \<open>Flood waits\<close>

definition max_attempts :: nat where "max_attempts = 5"
definition base_backoff_ms :: nat where "base_backoff_ms = 200"
definition max_flood_wait_secs :: nat where "max_flood_wait_secs = 900"

text \<open>What follows the first occurrence of a text.\<close>

fun text_after :: "string \<Rightarrow> string \<Rightarrow> string option" where
  "text_after p s = (case strip_prefix p s of
     Some rest \<Rightarrow> Some rest
   | None \<Rightarrow> (case s of [] \<Rightarrow> None | _ # cs \<Rightarrow> text_after p cs))"

declare text_after.simps [simp del]

definition first_number :: "string \<Rightarrow> nat option" where
  "first_number s = parse_unsigned u64_max (takeWhile is_digit (dropWhile (\<lambda>c. \<not> is_digit c) s))"

definition number_after :: "string \<Rightarrow> string \<Rightarrow> nat option" where
  "number_after p s = (case text_after p s of None \<Rightarrow> None
     | Some rest \<Rightarrow> map_option (\<lambda>n. max 1 (min max_flood_wait_secs n)) (first_number rest))"

definition retry_after_key :: string where "retry_after_key = ''\"retry_after\"''"

definition flood_wait_secs :: "nat \<Rightarrow> string \<Rightarrow> nat option" where
  "flood_wait_secs status body =
     (let lower = to_ascii_lowercase body in
      if \<not> (status = 429 \<or> contains_str ''too many requests'' lower \<or> contains_str ''retry after'' lower
          \<or> contains_str retry_after_key lower)
      then None
      else case number_after retry_after_key lower of
        Some n \<Rightarrow> Some n
      | None \<Rightarrow> (case number_after ''retry after'' lower of Some n \<Rightarrow> Some n | None \<Rightarrow> Some 8))"

definition flood_sleep_duration :: "nat \<Rightarrow> nat \<Rightarrow> nat" where
  "flood_sleep_duration nanos wait_secs =
     (let jitter_cap = max 100 (min 2000 (sat_mul_u64 wait_secs 100)) in wait_secs * 1000 + nanos mod jitter_cap)"

definition server_backoff_ms :: "nat \<Rightarrow> nat" where
  "server_backoff_ms attempt = min 30000 (sat_mul_u64 base_backoff_ms (min u64_max (2 ^ attempt)))"

section \<open>Gates\<close>

definition gate_of :: "string \<Rightarrow> telegram \<Rightarrow> send_gate" where
  "gate_of key s = (case tg_gates s key of Some g \<Rightarrow> g | None \<Rightarrow> new_gate)"

definition set_gate :: "string \<Rightarrow> send_gate \<Rightarrow> telegram \<Rightarrow> telegram" where
  "set_gate key g s = s\<lparr>tg_gates := (tg_gates s)(key \<mapsto> g)\<rparr>"

definition gate_key :: "string \<Rightarrow> int \<Rightarrow> string" where
  "gate_key token chat = token @ '':'' @ show_int chat"

text \<open>The wait for the slots, in which the other callers at the gate may succeed or be flooded.\<close>

definition acquire_permit :: "telegram_env \<Rightarrow> string \<Rightarrow> unit tg" where
  "acquire_permit env key =
     em_then (em_modify (\<lambda>s. let n = tg_calls s; g = te_others env n key (gate_of key s)
         in set_gate key g (s\<lparr>tg_now := tg_now s + te_slot_wait env n\<rparr>)))
       (em_bind (em_gets (\<lambda>s. pace_sleep (te_pacing env) (tg_now s) (gate_of key s))) (\<lambda>d.
         if d = 0 then em_return () else sleep env d))"

definition permit_mark_ok :: "string \<Rightarrow> unit tg" where
  "permit_mark_ok key = em_modify (\<lambda>s. set_gate key (mark_ok (tg_now s) (gate_of key s)) s)"

definition honor_flood_wait :: "telegram_env \<Rightarrow> string option \<Rightarrow> nat \<Rightarrow> unit tg" where
  "honor_flood_wait env permit wait_secs =
     em_bind (em_gets (\<lambda>s. flood_sleep_duration (te_jitter env (tg_calls s)) wait_secs)) (\<lambda>d.
     em_then (sleep env d)
    (em_then (case permit of None \<Rightarrow> em_return ()
        | Some key \<Rightarrow> em_modify (\<lambda>s. set_gate key (note_flood (tg_now s) (gate_of key s)) s))
       (sleep env (post_flood_extra_cooldown (te_pacing env)))))"

section \<open>Repeating a request\<close>

text \<open>
  One request until it succeeds or fails for good. Flood waits have no limit in the code, so the
  loop has fuel; \<open>None\<close> is the loop that still goes on. \<open>tries\<close> counts the other failures.
\<close>

definition body_text :: "string option \<Rightarrow> string" where
  "body_text b = (case b of Some x \<Rightarrow> x | None \<Rightarrow> [])"

definition failed_status :: "telegram_env \<Rightarrow> nat \<Rightarrow> string \<Rightarrow> sarca_error" where
  "failed_status env status body = TelegramAPIError (te_status_text env status @ '': '' @ body)"

definition backs_off :: "telegram_env \<Rightarrow> nat \<Rightarrow> unit tg" where
  "backs_off env tries = sleep env (server_backoff_ms tries)"

fun retry_loop ::
  "nat \<Rightarrow> telegram_env \<Rightarrow> string option \<Rightarrow> (nat \<Rightarrow> http_request option) \<Rightarrow> nat \<Rightarrow> (nat \<times> string option) option tg" where
  "retry_loop 0 env permit q tries = em_return None"
| "retry_loop (Suc fuel) env permit q tries =
     em_bind (em_gets (\<lambda>s. q (tg_calls s))) (\<lambda>form. case form of
       None \<Rightarrow> em_throw Unknown
     | Some r \<Rightarrow> em_bind (http_call env r) (\<lambda>a. case a of
         Answer status body \<Rightarrow>
           if http_success status then em_return (Some (status, body))
           else (case flood_wait_secs status (body_text body) of
             Some wait \<Rightarrow> em_then (honor_flood_wait env permit wait) (retry_loop fuel env permit q tries)
           | None \<Rightarrow>
               if http_server_error status \<and> Suc tries < max_attempts
               then em_then (backs_off env tries) (retry_loop fuel env permit q (Suc tries))
               else em_throw (failed_status env status (body_text body)))
       | NoAnswer \<Rightarrow>
           if Suc tries < max_attempts
           then em_then (backs_off env tries) (retry_loop fuel env permit q (Suc tries))
           else em_throw Unknown))"

definition send_with_retries :: "nat \<Rightarrow> telegram_env \<Rightarrow> string option \<Rightarrow> http_request \<Rightarrow> (nat \<times> string option) option tg" where
  "send_with_retries fuel env permit q = retry_loop fuel env permit (\<lambda>_. Some q) 0"

text \<open>
  A part of a file is read anew for every attempt; \<open>content\<close> is the file at the time of a call,
  \<open>None\<close> when it cannot be opened.
\<close>

record upload_part =
  up_offset :: nat
  up_len :: nat
  up_chat :: int
  up_storage :: string

definition build_upload_part_form :: "string \<Rightarrow> string \<Rightarrow> upload_part \<Rightarrow> http_request" where
  "build_upload_part_form url content p =
     \<lparr>hr_url = url, hr_form = [(''chat_id'', show_int (up_chat p)), (''document'', take (up_len p) (drop (up_offset p) content))]\<rparr>"

definition send_upload_part_with_retries ::
  "nat \<Rightarrow> telegram_env \<Rightarrow> string \<Rightarrow> string \<Rightarrow> (nat \<Rightarrow> string option) \<Rightarrow> upload_part \<Rightarrow> (nat \<times> string option) option tg" where
  "send_upload_part_with_retries fuel env key url content p =
     retry_loop fuel env (Some key) (\<lambda>n. map_option (\<lambda>c. build_upload_part_form url c p) (content n)) 0"

section \<open>The calls\<close>

definition build_url :: "string \<Rightarrow> string \<Rightarrow> string \<Rightarrow> string \<Rightarrow> string" where
  "build_url base pre relative token = base @ ''/'' @ pre @ ''bot'' @ token @ ''/'' @ relative"

text \<open>\<open>str::find\<close>: what comes before the first occurrence.\<close>

fun text_before :: "string \<Rightarrow> string \<Rightarrow> string option" where
  "text_before p s = (if starts_with p s then Some []
     else (case s of [] \<Rightarrow> None | c # cs \<Rightarrow> map_option ((#) c) (text_before p cs)))"

declare text_before.simps [simp del]

definition mask_url :: "string \<Rightarrow> string" where
  "mask_url url = (case text_before ''/bot'' url of
     None \<Rightarrow> url
   | Some start \<Rightarrow>
       (let rest = drop (length start + 4) url
        in case text_before ''/'' rest of
             None \<Rightarrow> url
           | Some token \<Rightarrow> start @ ''/bot***'' @ drop (length token) rest))"

definition get_tg_token :: "telegram_env \<Rightarrow> string \<Rightarrow> nat option \<Rightarrow> string tg" where
  "get_tg_token env storage deadline = (\<lambda>s. (te_token env (tg_calls s) storage deadline, s))"

text \<open>The answer to a call that got through: its body as the given schema reads it.\<close>

definition decode :: "(string \<Rightarrow> 'a option) \<Rightarrow> string option \<Rightarrow> 'a tg" where
  "decode schema body = (case Option.bind body schema of None \<Rightarrow> em_throw Unknown | Some x \<Rightarrow> em_return x)"

definition on_reply :: "telegram_env \<Rightarrow> (nat \<times> string option) option \<Rightarrow> (string option \<Rightarrow> 'a tg) \<Rightarrow> 'a option tg" where
  "on_reply env reply k = (case reply of
     None \<Rightarrow> em_return None
   | Some (status, body) \<Rightarrow>
       if \<not> http_success status then em_throw (failed_status env status (body_text body))
       else em_bind (k body) (\<lambda>x. em_return (Some x)))"

definition when_done :: "'a option \<Rightarrow> unit tg \<Rightarrow> unit tg" where
  "when_done r m = (case r of None \<Rightarrow> em_return () | Some _ \<Rightarrow> m)"

definition tg_upload :: "nat \<Rightarrow> telegram_env \<Rightarrow> string \<Rightarrow> int \<Rightarrow> string \<Rightarrow> (string \<times> int) option tg" where
  "tg_upload fuel env content chat storage =
     em_bind (get_tg_token env storage None) (\<lambda>token.
     let url = build_url (te_base env) [] ''sendDocument'' token; key = gate_key token chat
     in em_then (acquire_permit env key)
       (em_bind (send_with_retries fuel env (Some key)
           \<lparr>hr_url = url, hr_form = [(''chat_id'', show_int chat), (''document'', content)]\<rparr>) (\<lambda>reply.
        em_then (when_done reply (permit_mark_ok key)) (on_reply env reply (decode (te_sent env))))))"

definition upload_file_part :: "nat \<Rightarrow> telegram_env \<Rightarrow> (nat \<Rightarrow> string option) \<Rightarrow> upload_part \<Rightarrow> (string \<times> int) option tg" where
  "upload_file_part fuel env content p =
     em_bind (get_tg_token env (up_storage p) None) (\<lambda>token.
     let url = build_url (te_base env) [] ''sendDocument'' token; key = gate_key token (up_chat p)
     in em_then (acquire_permit env key)
       (em_bind (send_upload_part_with_retries fuel env key url content p) (\<lambda>reply.
        em_then (when_done reply (permit_mark_ok key)) (on_reply env reply (decode (te_sent env))))))"

definition download_impl :: "nat \<Rightarrow> telegram_env \<Rightarrow> string \<Rightarrow> string \<Rightarrow> nat option \<Rightarrow> string option tg" where
  "download_impl fuel env fid storage deadline =
     em_bind (get_tg_token env storage deadline) (\<lambda>token.
     em_bind (send_with_retries fuel env None
         \<lparr>hr_url = build_url (te_base env) [] ''getFile'' token, hr_form = [(''file_id'', fid)]\<rparr>) (\<lambda>reply.
     em_bind (on_reply env reply (decode (te_file_path env))) (\<lambda>path. case path of
       None \<Rightarrow> em_return None
     | Some path \<Rightarrow>
         em_bind (send_with_retries fuel env None
             \<lparr>hr_url = build_url (te_base env) ''file/'' path token, hr_form = []\<rparr>) (\<lambda>reply.
           on_reply env reply (decode Some)))))"

definition tg_download :: "nat \<Rightarrow> telegram_env \<Rightarrow> string \<Rightarrow> string \<Rightarrow> string option tg" where
  "tg_download fuel env fid storage = download_impl fuel env fid storage None"

definition download_before :: "nat \<Rightarrow> telegram_env \<Rightarrow> string \<Rightarrow> string \<Rightarrow> nat \<Rightarrow> string option tg" where
  "download_before fuel env fid storage deadline = download_impl fuel env fid storage (Some deadline)"

text \<open>A stream is opened without retries; what arrives of it may end in an error.\<close>

definition error_for_status :: "telegram_env \<Rightarrow> http_answer \<Rightarrow> string option tg" where
  "error_for_status env a = (case a of
     NoAnswer \<Rightarrow> em_throw Unknown
   | Answer status body \<Rightarrow>
       if http_client_error status then em_throw (TelegramAPIError (te_status_text env status))
       else if http_server_error status then em_throw Unknown
       else em_return body)"

definition download_stream :: "telegram_env \<Rightarrow> string \<Rightarrow> string \<Rightarrow> (string \<times> sarca_error option) tg" where
  "download_stream env fid storage =
     em_bind (get_tg_token env storage None) (\<lambda>token.
     em_bind (http_call env \<lparr>hr_url = build_url (te_base env) [] ''getFile'' token, hr_form = [(''file_id'', fid)]\<rparr>) (\<lambda>a.
     em_bind (error_for_status env a) (\<lambda>body.
     em_bind (decode (te_file_path env) body) (\<lambda>path.
     em_bind (http_call env \<lparr>hr_url = build_url (te_base env) ''file/'' path token, hr_form = []\<rparr>) (\<lambda>a.
     em_bind (error_for_status env a) (\<lambda>body. case body of
       Some b \<Rightarrow> em_return (b, None)
     | None \<Rightarrow> em_gets (\<lambda>s. (te_received env (tg_calls s), Some Unknown))))))))"

definition tg_get_chat :: "nat \<Rightarrow> telegram_env \<Rightarrow> int \<Rightarrow> string \<Rightarrow> string option tg" where
  "tg_get_chat fuel env chat storage =
     em_bind (get_tg_token env storage None) (\<lambda>token.
     em_bind (send_with_retries fuel env None
         \<lparr>hr_url = build_url (te_base env) [] ''getChat'' token, hr_form = [(''chat_id'', show_int chat)]\<rparr>) (\<lambda>reply.
       on_reply env reply (\<lambda>body. em_bind (decode (te_chat env) body) (\<lambda>(title, username, first_name).
         em_return (case title of Some x \<Rightarrow> x | None \<Rightarrow> (case username of Some x \<Rightarrow> x | None \<Rightarrow>
           (case first_name of Some x \<Rightarrow> x | None \<Rightarrow> show_int chat)))))))"

definition copy_message :: "nat \<Rightarrow> telegram_env \<Rightarrow> int \<Rightarrow> int \<Rightarrow> int \<Rightarrow> string \<Rightarrow> string \<Rightarrow> (string \<times> int) option tg" where
  "copy_message fuel env from_chat message to_chat fid storage =
     em_bind (get_tg_token env storage None) (\<lambda>token.
     let url = build_url (te_base env) [] ''copyMessage'' token; key = gate_key token to_chat
     in em_then (acquire_permit env key)
       (em_bind (send_with_retries fuel env (Some key)
           \<lparr>hr_url = url, hr_form = [(''chat_id'', show_int to_chat), (''from_chat_id'', show_int from_chat), (''message_id'', show_int message)]\<rparr>) (\<lambda>reply.
        em_then (when_done reply (permit_mark_ok key))
          (on_reply env reply (\<lambda>body. em_bind (decode (te_copied env) body) (\<lambda>i. em_return (fid, i)))))))"

definition is_soft_delete_error :: "string \<Rightarrow> bool" where
  "is_soft_delete_error e =
     (let lower = to_ascii_lowercase e
      in list_ex (\<lambda>marker. contains_str marker lower)
           [''message to delete not found'', ''message can't be deleted'', ''message_id_invalid''])"

definition delete_message_with_token :: "nat \<Rightarrow> telegram_env \<Rightarrow> int \<Rightarrow> int \<Rightarrow> string \<Rightarrow> unit option tg" where
  "delete_message_with_token fuel env chat message token =
     (let url = build_url (te_base env) [] ''deleteMessage'' token; key = gate_key token chat
      in em_then (acquire_permit env key)
        (em_bind (em_attempt (send_with_retries fuel env (Some key)
            \<lparr>hr_url = url, hr_form = [(''chat_id'', show_int chat), (''message_id'', show_int message)]\<rparr>)) (\<lambda>outcome. case outcome of
           Inr None \<Rightarrow> em_return None
         | Inr (Some _) \<Rightarrow> em_then (permit_mark_ok key) (em_return (Some ()))
         | Inl e \<Rightarrow> if is_soft_delete_error (error_text e) then em_return (Some ()) else em_throw e)))"

definition delete_message :: "nat \<Rightarrow> telegram_env \<Rightarrow> int \<Rightarrow> int \<Rightarrow> string \<Rightarrow> unit option tg" where
  "delete_message fuel env chat message storage =
     em_bind (get_tg_token env storage None) (\<lambda>token. delete_message_with_token fuel env chat message token)"

section \<open>Attempts are counted and spaced\<close>

definition flood_answer :: "http_answer \<Rightarrow> nat option" where
  "flood_answer a = (case a of
     NoAnswer \<Rightarrow> None
   | Answer status body \<Rightarrow> if http_success status then None else flood_wait_secs status (body_text body))"

definition success_answer :: "http_answer \<Rightarrow> bool" where
  "success_answer a = (case a of NoAnswer \<Rightarrow> False | Answer status _ \<Rightarrow> http_success status)"

text \<open>What an answer asks for before the next attempt, after \<open>tries\<close> other failures.\<close>

definition pause_after :: "pacing \<Rightarrow> nat \<Rightarrow> http_answer \<Rightarrow> nat" where
  "pause_after c tries a = (case flood_answer a of
     Some w \<Rightarrow> w * 1000 + post_flood_extra_cooldown c
   | None \<Rightarrow> server_backoff_ms tries)"

fun spaced :: "pacing \<Rightarrow> nat \<Rightarrow> (nat \<times> http_request \<times> http_answer) list \<Rightarrow> bool" where
  "spaced c tries ((t, _, a) # (u, q, b) # xs) \<longleftrightarrow> \<not> success_answer a \<and> t + pause_after c tries a \<le> u \<and>
     spaced c (if flood_answer a = None then Suc tries else tries) ((u, q, b) # xs)"
| "spaced c tries _ \<longleftrightarrow> True"

definition hard_failures :: "(nat \<times> http_request \<times> http_answer) list \<Rightarrow> nat" where
  "hard_failures xs = length (filter (\<lambda>(_, _, a). \<not> success_answer a \<and> flood_answer a = None) xs)"

lemma hard_failures_simps [simp]:
  "hard_failures [] = 0"
  "hard_failures ((t, q, a) # xs) = (if \<not> success_answer a \<and> flood_answer a = None then Suc (hard_failures xs) else hard_failures xs)"
  by (simp_all add: hard_failures_def)

lemma sleep_run [simp]: "sleep env d s = (Inr (), s\<lparr>tg_now := tg_now s + d + te_late env (tg_calls s)\<rparr>)"
  by (simp add: sleep_def)

lemma honor_flood_wait_run:
  "\<exists>u. honor_flood_wait env permit w s = (Inr (), u) \<and> tg_log u = tg_log s \<and> tg_calls u = tg_calls s \<and>
     tg_now s + w * 1000 + post_flood_extra_cooldown (te_pacing env) \<le> tg_now u"
  by (auto simp: honor_flood_wait_def em_then_def em_bind_def em_gets_def flood_sleep_duration_def Let_def set_gate_def split: option.splits)

definition final_error :: "telegram_env \<Rightarrow> http_answer \<Rightarrow> sarca_error" where
  "final_error env a = (case a of NoAnswer \<Rightarrow> Unknown | Answer status body \<Rightarrow> failed_status env status (body_text body))"

text \<open>One turn of the loop: it ends, or it goes on later with one more entry in the log.\<close>

definition retry_state :: "telegram_env \<Rightarrow> http_request \<Rightarrow> telegram \<Rightarrow> telegram" where
  "retry_state env q s = s\<lparr>tg_calls := Suc (tg_calls s), tg_log := tg_log s @ [(tg_now s, q, te_answer env (tg_calls s) q)],
     tg_now := tg_now s + te_latency env (tg_calls s)\<rparr>"

lemma retry_loop_turn:
  assumes run: "retry_loop (Suc fuel) env permit form tries s = (r, t)" and q: "form (tg_calls s) = Some q"
  defines "a \<equiv> te_answer env (tg_calls s) q"
  obtains (ok) status body where "a = Answer status body" "http_success status" "r = Inr (Some (status, body))" "t = retry_state env q s"
  | (stop) "\<not> success_answer a" "flood_answer a = None" "r = Inl (final_error env a)" "t = retry_state env q s"
  | (again) u tries' where "\<not> success_answer a" "tries' = (if flood_answer a = None then Suc tries else tries)"
      "flood_answer a = None \<longrightarrow> Suc tries < max_attempts"
      "tg_log u = tg_log (retry_state env q s)" "tg_calls u = Suc (tg_calls s)"
      "tg_now s + pause_after (te_pacing env) tries a \<le> tg_now u" "retry_loop fuel env permit form tries' u = (r, t)"
proof -
  have call: "http_call env q s = (Inr a, retry_state env q s)"
    by (simp add: http_call_def Let_def retry_state_def a_def)
  show thesis
  proof (cases a)
    case NoAnswer
    then show thesis
      using run q call stop again [of "Suc tries" "(retry_state env q s)\<lparr>tg_now := tg_now (retry_state env q s) + server_backoff_ms tries + te_late env (tg_calls (retry_state env q s))\<rparr>"]
      by (auto simp: em_bind_def em_then_def backs_off_def flood_answer_def success_answer_def pause_after_def retry_state_def final_error_def split: if_splits)
  next
    case (Answer status body)
    show thesis
    proof (cases "http_success status")
      case True
      then show thesis using run q call Answer ok by (auto simp: em_bind_def)
    next
      case failed: False
      show thesis
      proof (cases "flood_wait_secs status (body_text body)")
        case None
        then show thesis
          using run q call Answer failed stop
            again [of "Suc tries" "(retry_state env q s)\<lparr>tg_now := tg_now (retry_state env q s) + server_backoff_ms tries + te_late env (tg_calls (retry_state env q s))\<rparr>"]
          by (auto simp: em_bind_def em_then_def backs_off_def flood_answer_def success_answer_def pause_after_def retry_state_def final_error_def split: if_splits)
      next
        case (Some w)
        obtain u where "honor_flood_wait env permit w (retry_state env q s) = (Inr (), u)" "tg_log u = tg_log (retry_state env q s)"
            "tg_calls u = tg_calls (retry_state env q s)"
            "tg_now (retry_state env q s) + w * 1000 + post_flood_extra_cooldown (te_pacing env) \<le> tg_now u"
          using honor_flood_wait_run by blast
        then show thesis
          using run q call Answer failed Some again [of tries u]
          by (auto simp: em_bind_def em_then_def flood_answer_def success_answer_def pause_after_def retry_state_def)
      qed
    qed
  qed
qed

lemma retry_loop_log:
  assumes "retry_loop fuel env permit form tries s = (r, t)" "\<And>n. form n \<noteq> None" "tries < max_attempts"
  obtains xs where "tg_log t = tg_log s @ xs" "spaced (te_pacing env) tries xs" "tries + hard_failures xs \<le> max_attempts"
    "\<And>x xs'. xs = x # xs' \<Longrightarrow> fst x = tg_now s" "\<And>x. x \<in> set xs \<Longrightarrow> \<exists>n. form n = Some (fst (snd x))"
    "\<And>status body. r = Inr (Some (status, body)) \<Longrightarrow> xs \<noteq> [] \<and> snd (snd (last xs)) = Answer status body \<and> http_success status"
    "\<And>e. r = Inl e \<Longrightarrow> xs \<noteq> [] \<and> \<not> success_answer (snd (snd (last xs))) \<and> e = final_error env (snd (snd (last xs)))"
  using assms(1,3)
proof (induction fuel arbitrary: tries s thesis)
  case 0
  then show ?case by (auto intro: "0.prems"(1) [of "[]"])
next
  case (Suc fuel)
  obtain q where q: "form (tg_calls s) = Some q" using assms(2) by blast
  define a where "a = te_answer env (tg_calls s) q"
  have log: "tg_log (retry_state env q s) = tg_log s @ [(tg_now s, q, a)]" by (simp add: retry_state_def a_def)
  have one: ?case if "t = retry_state env q s" "success_answer a \<or> flood_answer a = None"
      "\<And>status body. r = Inr (Some (status, body)) \<Longrightarrow> a = Answer status body \<and> http_success status" "\<And>e. r = Inl e \<Longrightarrow> \<not> success_answer a \<and> e = final_error env a"
    using that Suc.prems(3) log q
    by (intro Suc.prems(1) [of "[(tg_now s, q, a)]"]) (auto simp: Suc_le_eq)
  from Suc.prems(2) q show ?case
  proof (cases rule: retry_loop_turn)
    case (ok status body)
    then show ?thesis by (intro one) (auto simp: a_def success_answer_def)
  next
    case stop
    then show ?thesis by (intro one) (auto simp: a_def)
  next
    case (again u tries')
    have less: "tries' < max_attempts" using again(2,3) Suc.prems(3) by auto
    show ?thesis
    proof (rule Suc.IH [OF _ again(7) less])
      fix xs assume xs: "tg_log t = tg_log u @ xs" "spaced (te_pacing env) tries' xs" "tries' + hard_failures xs \<le> max_attempts"
        "\<And>x xs'. xs = x # xs' \<Longrightarrow> fst x = tg_now u" "\<And>x. x \<in> set xs \<Longrightarrow> \<exists>n. form n = Some (fst (snd x))"
        "\<And>status body. r = Inr (Some (status, body)) \<Longrightarrow> xs \<noteq> [] \<and> snd (snd (last xs)) = Answer status body \<and> http_success status"
        "\<And>e. r = Inl e \<Longrightarrow> xs \<noteq> [] \<and> \<not> success_answer (snd (snd (last xs))) \<and> e = final_error env (snd (snd (last xs)))"
      show ?thesis
      proof (rule Suc.prems(1) [of "(tg_now s, q, a) # xs"])
        show "tg_log t = tg_log s @ (tg_now s, q, a) # xs" using xs(1) again(4) log by simp
        show "spaced (te_pacing env) tries ((tg_now s, q, a) # xs)"
          using xs(2,4) again(1,2,6) by (cases xs) (auto simp: a_def)
        show "tries + hard_failures ((tg_now s, q, a) # xs) \<le> max_attempts"
          using xs(3) again(1,2) by (auto simp: a_def split: if_splits)
        show "\<exists>n. form n = Some (fst (snd x))" if "x \<in> set ((tg_now s, q, a) # xs)" for x
          using that q xs(5) [of x] by auto
      qed (use xs(6,7) in auto)
    qed
  qed
qed

section \<open>Being told to wait\<close>

lemma strip_prefix_none_before:
  assumes "\<not> contains_str p (c # x @ butlast p)"
  shows "strip_prefix p (c # x @ p @ y) = None"
proof (rule ccontr)
  assume "strip_prefix p (c # x @ p @ y) \<noteq> None"
  then obtain r where r: "c # x @ p @ y = p @ r" by (auto simp: strip_prefix_Some_iff)
  have len: "length p \<le> length (c # x @ butlast p)" by simp
  obtain D where D: "c # x @ p @ y = (c # x @ butlast p) @ D"
    by (cases "p = []") (auto simp: append_butlast_last_id [symmetric] intro: that [of "last p # y"])
  have "take (length p) (c # x @ butlast p) = take (length p) (c # x @ p @ y)"
    unfolding D take_append using len by simp
  then have "take (length p) (c # x @ butlast p) = p" using r by simp
  then have "starts_with p (c # x @ butlast p)"
    unfolding starts_with_iff by (metis append_take_drop_id)
  then show False using assms by simp
qed

lemma contains_str_tail: "contains_str p s \<Longrightarrow> contains_str p (c # s)"
  by simp

lemma text_after_first: "\<not> contains_str p (x @ butlast p) \<Longrightarrow> text_after p (x @ p @ y) = Some y"
proof (induction x)
  case Nil
  have "strip_prefix p (p @ y) = Some y" by (simp add: strip_prefix_Some_iff)
  then show ?case by (simp add: text_after.simps)
next
  case (Cons c x)
  then show ?case
    using strip_prefix_none_before [of p c x y] by (subst text_after.simps) (auto dest: contains_str_tail)
qed

lemma contains_str_inside: "contains_str p (x @ p @ y)"
proof (induction x)
  case Nil
  have "starts_with p (p @ y)" by (auto simp: starts_with_iff)
  then show ?case by (cases "p @ y") auto
qed simp

lemma first_number_digits:
  assumes "n \<le> u64_max" "\<not> is_digit c" "rest = [] \<or> \<not> is_digit (hd rest)"
  shows "first_number (c # show_nat n @ rest) = Some n"
proof -
  have d: "show_nat n \<noteq> []" "list_all is_digit (show_nat n)" "digits_val 0 (show_nat n) = n" using show_nat_digits [of n] by auto
  then have "dropWhile (\<lambda>c. \<not> is_digit c) (show_nat n @ rest) = show_nat n @ rest"
    by (cases "show_nat n") auto
  moreover have "takeWhile is_digit (show_nat n @ rest) = show_nat n"
    using d(2) assms(3) by (cases rest) (auto simp: list_all_iff takeWhile_append2)
  moreover have "parse_unsigned u64_max (show_nat n) = Some n"
  proof -
    have "hd (show_nat n) \<noteq> CHR ''+''" using d by (cases "show_nat n") (auto simp: is_digit_def)
    then show ?thesis using d assms(1) by (cases "show_nat n") (auto simp: parse_unsigned_def Let_def)
  qed
  ultimately show ?thesis using assms(2) by (simp add: first_number_def)
qed

lemma to_ascii_lowercase_append: "to_ascii_lowercase (x @ y) = to_ascii_lowercase x @ to_ascii_lowercase y"
  by (simp add: to_ascii_lowercase_def)

lemma ascii_lower_digit: "is_digit c \<Longrightarrow> ascii_lower c = c"
  by (simp add: is_digit_def ascii_lower_def Let_def)

lemma ascii_lower_no_digit: "is_digit (ascii_lower c) = is_digit c"
  by (auto simp: is_digit_def ascii_lower_def Let_def of_char_char_of)

lemma lowercase_digits: "list_all is_digit s \<Longrightarrow> to_ascii_lowercase s = s"
  by (induction s) (auto simp: to_ascii_lowercase_def ascii_lower_digit)

lemma retry_after_wait:
  assumes "n \<le> u64_max" and "rest = [] \<or> \<not> is_digit (hd rest)"
    and "\<not> contains_str retry_after_key (to_ascii_lowercase start @ butlast retry_after_key)"
  shows "flood_wait_secs status (start @ retry_after_key @ '':'' @ show_nat n @ rest) = Some (max 1 (min max_flood_wait_secs n))"
proof -
  let ?start = "to_ascii_lowercase start" and ?rest = "to_ascii_lowercase rest"
  have key: "to_ascii_lowercase retry_after_key = retry_after_key" "to_ascii_lowercase '':'' = '':''"
    by (simp_all add: to_ascii_lowercase_def retry_after_key_def ascii_lower_def)
  have digits: "to_ascii_lowercase (show_nat n) = show_nat n" using show_nat_digits [of n] by (intro lowercase_digits) simp
  have lower: "to_ascii_lowercase (start @ retry_after_key @ '':'' @ show_nat n @ rest) = ?start @ retry_after_key @ (CHR '':'' # show_nat n @ ?rest)"
    unfolding to_ascii_lowercase_append key digits by simp
  have "?rest = [] \<or> \<not> is_digit (hd ?rest)"
    using assms(2) by (cases rest) (auto simp: to_ascii_lowercase_def ascii_lower_no_digit)
  then have "first_number (CHR '':'' # show_nat n @ ?rest) = Some n"
    by (intro first_number_digits [OF assms(1)]) (simp_all add: is_digit_def)
  then have "number_after retry_after_key (?start @ retry_after_key @ (CHR '':'' # show_nat n @ ?rest)) = Some (max 1 (min max_flood_wait_secs n))"
    unfolding number_after_def text_after_first [OF assms(3)] by simp
  then show ?thesis
    unfolding flood_wait_secs_def Let_def lower using contains_str_inside by simp
qed

text \<open>
  Telegram is given the time it asks for: an answer that is no success and whose first
  \<open>"retry_after"\<close> stands before the number \<open>n\<close> is waited on for \<open>n\<close> seconds, at least one and at
  most fifteen minutes, whatever its status is.
\<close>

theorem retry_after_is_honoured:
  assumes "n \<le> u64_max" and "rest = [] \<or> \<not> is_digit (hd rest)"
    and "\<not> contains_str retry_after_key (to_ascii_lowercase start @ butlast retry_after_key)"
  shows "flood_wait_secs status (start @ retry_after_key @ '':'' @ show_nat n @ rest) = Some (max 1 (min max_flood_wait_secs n))"
  using assms by (rule retry_after_wait)

theorem retry_after_is_honoured_witness:
  "flood_wait_secs 400 (''{'' @ retry_after_key @ '':'' @ show_nat 42 @ ''}'') = Some 42"
proof -
  have "\<not> contains_str retry_after_key (to_ascii_lowercase ''{'' @ butlast retry_after_key)" by code_simp
  from retry_after_is_honoured [OF _ _ this, of 42 "''}''" 400] show ?thesis
    by (simp add: u64_max_def is_digit_def max_flood_wait_secs_def)
qed

lemma flood_wait_bounds: "flood_wait_secs status body = Some w \<Longrightarrow> 1 \<le> w \<and> w \<le> max_flood_wait_secs"
  by (auto simp: flood_wait_secs_def number_after_def Let_def max_flood_wait_secs_def split: if_splits option.splits)

text \<open>
  C5. A request is tried at most five times without being told to wait, and never sooner than it
  was told: after a flood the next attempt starts the whole \<open>retry_after\<close> and the cool-down later,
  after another failure its back-off later. What is answered is the last answer, and it is a
  success; an error is only given after a failed attempt.
\<close>

theorem retries_are_counted_and_spaced:
  assumes "send_with_retries fuel env permit q s = (r, t)"
  shows "\<exists>xs. tg_log t = tg_log s @ xs \<and> (\<forall>x \<in> set xs. fst (snd x) = q) \<and> hard_failures xs \<le> max_attempts \<and>
     spaced (te_pacing env) 0 xs \<and>
     (\<forall>status body. r = Inr (Some (status, body)) \<longrightarrow> http_success status \<and> xs \<noteq> [] \<and> snd (snd (last xs)) = Answer status body) \<and>
     (\<forall>e. r = Inl e \<longrightarrow> xs \<noteq> [] \<and> \<not> success_answer (snd (snd (last xs))))"
  using assms [unfolded send_with_retries_def]
proof (rule retry_loop_log)
  show "0 < max_attempts" by (simp add: max_attempts_def)
qed (simp, intro exI conjI, assumption, auto)

text \<open>
  A network that floods once for two seconds, fails once, and then answers; nothing else happens.
\<close>

definition flood_body :: string where
  "flood_body = ''{'' @ retry_after_key @ '':'' @ show_nat 2 @ ''}''"

definition moody_answer :: "nat \<Rightarrow> http_request \<Rightarrow> http_answer" where
  "moody_answer n q = (if n = 0 then Answer 429 (Some flood_body) else if n = 1 then Answer 502 (Some ''bad'')
     else Answer 200 (Some ''doc''))"

definition moody_env :: telegram_env where
  "moody_env = \<lparr>te_base = ''https://t'', te_token = (\<lambda>_ _ _. Inr ''1:a''), te_answer = moody_answer, te_received = (\<lambda>_. []),
     te_latency = (\<lambda>_. 0), te_late = (\<lambda>_. 0), te_jitter = (\<lambda>_. 0), te_pacing = \<lparr>pc_test = Some 3, pc_gap = None, pc_slots = None\<rparr>,
     te_slot_wait = (\<lambda>_. 0), te_others = (\<lambda>_ _ g. g), te_status_text = show_nat, te_sent = (\<lambda>b. Some (b, 7)),
     te_copied = (\<lambda>_. Some 8), te_file_path = Some, te_chat = (\<lambda>_. None)\<rparr>"

definition calm_telegram :: telegram where
  "calm_telegram = \<lparr>tg_now = 0, tg_calls = 0, tg_log = [], tg_gates = (\<lambda>_. None)\<rparr>"

definition some_request :: http_request where
  "some_request = \<lparr>hr_url = ''u'', hr_form = []\<rparr>"

lemma moody_waits: "flood_wait_secs 429 flood_body = Some 2" "flood_wait_secs 502 ''bad'' = None"
proof -
  have first: "\<not> contains_str retry_after_key (to_ascii_lowercase ''{'' @ butlast retry_after_key)" by code_simp
  from retry_after_wait [OF _ _ this, of 2 "''}''" 429]
  show "flood_wait_secs 429 flood_body = Some 2"
    unfolding flood_body_def by (simp add: u64_max_def is_digit_def max_flood_wait_secs_def)
  show "flood_wait_secs 502 ''bad'' = None" by code_simp
qed

lemma moody_run:
  "\<exists>t. send_with_retries (Suc (Suc (Suc 0))) moody_env None some_request calm_telegram = (Inr (Some (200, Some ''doc'')), t) \<and>
     map fst (tg_log t) = [0, 2003, 2203]"
  by (simp add: send_with_retries_def moody_env_def calm_telegram_def em_bind_def em_then_def http_call_def Let_def
      moody_answer_def http_success_def http_server_error_def body_text_def moody_waits honor_flood_wait_def max_attempts_def
      backs_off_def server_backoff_ms_def flood_sleep_duration_def post_flood_extra_cooldown_def base_backoff_ms_def sat_mul_u64_def u64_max_def)

theorem retries_are_counted_and_spaced_witness:
  "\<exists>t xs. send_with_retries (Suc (Suc (Suc 0))) moody_env None some_request calm_telegram = (Inr (Some (200, Some ''doc'')), t) \<and>
     tg_log t = xs \<and> length xs = 3 \<and> hard_failures xs \<le> 5 \<and> spaced (te_pacing moody_env) 0 xs"
proof -
  obtain t where t: "send_with_retries (Suc (Suc (Suc 0))) moody_env None some_request calm_telegram = (Inr (Some (200, Some ''doc'')), t)"
      "map fst (tg_log t) = [0, 2003, 2203]"
    by (rule exE [OF moody_run]) (elim conjE, rule that)
  have len: "length (tg_log t) = 3" using arg_cong [OF t(2), of length] by simp
  from retries_are_counted_and_spaced [OF t(1)] obtain xs where xs: "tg_log t = tg_log calm_telegram @ xs"
      "hard_failures xs \<le> max_attempts" "spaced (te_pacing moody_env) 0 xs"
    by blast
  then have "tg_log t = xs" by (simp add: calm_telegram_def)
  then show ?thesis using t(1) len xs(2,3) by (intro exI [of _ t] exI [of _ xs]) (simp add: max_attempts_def)
qed

lemma retry_loop_ends:
  assumes calm: "\<And>n q. m \<le> n \<Longrightarrow> flood_answer (te_answer env n q) = None" and form: "\<And>n. form n \<noteq> None"
    and fuel: "(m - tg_calls s) + (max_attempts - tries) \<le> fuel" and tries: "tries < max_attempts"
    and run: "retry_loop fuel env permit form tries s = (r, t)"
  shows "r \<noteq> Inr None"
  using fuel tries run
proof (induction fuel arbitrary: tries s)
  case (Suc fuel)
  obtain q where q: "form (tg_calls s) = Some q" using form by blast
  from Suc.prems(3) q show ?case
  proof (cases rule: retry_loop_turn)
    case (again u tries')
    have "(m - tg_calls u) + (max_attempts - tries') \<le> fuel"
    proof (cases "flood_answer (te_answer env (tg_calls s) q) = None")
      case True
      then show ?thesis using again(2,5) Suc.prems(1,2) by simp
    next
      case False
      then have "tg_calls s < m" using calm [of "tg_calls s" q] by (meson not_le)
      then show ?thesis using again(2,5) Suc.prems(1,2) False by simp
    qed
    then show ?thesis using Suc.IH [OF _ _ again(7)] again(2,3) Suc.prems(2) by auto
  qed auto
qed simp

text \<open>
  C6. However long Telegram floods, the request ends when it stops: if no answer from the
  \<open>m\<close>-th call on asks to wait, the loop ends after at most five more turns.
\<close>

theorem sending_ends_when_floods_do:
  assumes calm: "\<And>n q. m \<le> n \<Longrightarrow> flood_answer (te_answer env n q) = None" and fuel: "(m - tg_calls s) + max_attempts \<le> fuel"
  shows "fst (send_with_retries fuel env permit q s) \<noteq> Inr None"
proof (cases "send_with_retries fuel env permit q s")
  case (Pair r t)
  have "0 < max_attempts" by (simp add: max_attempts_def)
  from retry_loop_ends [OF calm _ _ this Pair [unfolded send_with_retries_def]] fuel show ?thesis
    by (simp add: Pair)
qed

theorem sending_ends_when_floods_do_witness:
  "fst (send_with_retries 6 moody_env None some_request calm_telegram) \<noteq> Inr None"
proof (rule sending_ends_when_floods_do)
  show "flood_answer (te_answer moody_env n q) = None" if "1 \<le> n" for n q
    using that moody_waits(2) by (simp add: moody_env_def moody_answer_def flood_answer_def http_success_def body_text_def)
  show "1 - tg_calls calm_telegram + max_attempts \<le> 6" by (simp add: calm_telegram_def max_attempts_def)
qed

section \<open>Messages\<close>

lemma acquire_permit_run:
  "\<exists>u. acquire_permit env key s = (Inr (), u) \<and> tg_log u = tg_log s \<and> tg_calls u = tg_calls s \<and> tg_now s \<le> tg_now u"
  by (auto simp: acquire_permit_def em_then_def em_bind_def em_gets_def em_modify_def Let_def set_gate_def)

lemma decode_run: "decode schema body s = (Inr x, t) \<longleftrightarrow> t = s \<and> Option.bind body schema = Some x"
  by (auto simp: decode_def split: option.splits)

text \<open>
  C3. A chunk counts as sent only on Telegram's word: the file id and the message number are those
  of a success that answered a \<open>sendDocument\<close> to the chat, whose document was the part of the
  file, and the gate of the chat remembers when.
\<close>

theorem sent_part_is_acknowledged:
  assumes spool: "\<And>n. content n = Some B"
    and run: "upload_file_part fuel env content p s = (Inr (Some (fid, message)), t)"
  shows "\<exists>token time status body. te_token env (tg_calls s) (up_storage p) None = Inr token \<and>
     last (tg_log t) = (time, \<lparr>hr_url = build_url (te_base env) [] ''sendDocument'' token,
        hr_form = [(''chat_id'', show_int (up_chat p)), (''document'', take (up_len p) (drop (up_offset p) B))]\<rparr>, Answer status (Some body)) \<and>
     http_success status \<and> te_sent env body = Some (fid, message) \<and>
     sg_last_ok (gate_of (gate_key token (up_chat p)) t) = Some (tg_now t)"
proof -
  obtain token where token: "te_token env (tg_calls s) (up_storage p) None = Inr token"
    using run by (cases "te_token env (tg_calls s) (up_storage p) None") (auto simp: upload_file_part_def get_tg_token_def em_bind_def)
  let ?url = "build_url (te_base env) [] ''sendDocument'' token" and ?key = "gate_key token (up_chat p)"
  let ?q = "build_upload_part_form ?url B p"
  obtain u where u: "acquire_permit env ?key s = (Inr (), u)" using acquire_permit_run by blast
  obtain reply v where v: "send_upload_part_with_retries fuel env ?key ?url content p u = (Inr reply, v)"
    and rest: "em_then (when_done reply (permit_mark_ok ?key)) (on_reply env reply (decode (te_sent env))) v = (Inr (Some (fid, message)), t)"
    using run token u by (auto simp: upload_file_part_def get_tg_token_def em_bind_def em_then_def Let_def split: sum.splits prod.splits)
  obtain status body where reply: "reply = Some (status, body)"
    using rest by (cases reply) (auto simp: when_done_def on_reply_def em_then_def em_bind_def)
  have "on_reply env reply (decode (te_sent env)) (set_gate ?key (mark_ok (tg_now v) (gate_of ?key v)) v) = (Inr (Some (fid, message)), t)"
    using rest by (simp add: reply when_done_def permit_mark_ok_def em_then_def em_bind_def)
  then have fin: "http_success status" "Option.bind body (te_sent env) = Some (fid, message)"
      "t = set_gate ?key (mark_ok (tg_now v) (gate_of ?key v)) v"
    by (auto simp: reply on_reply_def em_bind_def decode_run split: if_splits prod.splits sum.splits)
  have form: "map_option (\<lambda>c. build_upload_part_form ?url c p) (content n) = Some ?q" for n by (simp add: spool)
  have "0 < max_attempts" by (simp add: max_attempts_def)
  from v [unfolded send_upload_part_with_retries_def form] _ this
  obtain xs where xs: "tg_log v = tg_log u @ xs" "\<And>x. x \<in> set xs \<Longrightarrow> fst (snd x) = ?q" "xs \<noteq> []" "snd (snd (last xs)) = Answer status body"
    by (rule retry_loop_log) (auto simp: reply)
  obtain time q a where last: "last xs = (time, q, a)" by (cases "last xs")
  then have "q = ?q" "a = Answer status body" using xs(2) [OF last_in_set [OF xs(3)]] xs(4) by auto
  then have "last (tg_log t) = (time, ?q, Answer status body)" using xs(1,3) last by (simp add: fin(3) set_gate_def)
  moreover obtain b where "body = Some b" "te_sent env b = Some (fid, message)" using fin(2) by (cases body) auto
  moreover have "sg_last_ok (gate_of ?key t) = Some (tg_now t)" by (simp add: fin(3) gate_of_def set_gate_def mark_ok_def)
  ultimately show ?thesis using token fin(1) by (auto simp: build_upload_part_form_def)
qed

definition some_part :: upload_part where
  "some_part = \<lparr>up_offset = 2, up_len = 2, up_chat = 70, up_storage = ''st''\<rparr>"

lemmas moody_eval = moody_env_def calm_telegram_def em_bind_def em_then_def http_call_def Let_def moody_answer_def
  http_success_def http_server_error_def body_text_def moody_waits honor_flood_wait_def max_attempts_def backs_off_def
  server_backoff_ms_def flood_sleep_duration_def post_flood_extra_cooldown_def base_backoff_ms_def sat_mul_u64_def u64_max_def

lemma part_run:
  "\<exists>t. upload_file_part (Suc (Suc (Suc 0))) moody_env (\<lambda>_. Some ''abcdef'') some_part calm_telegram = (Inr (Some (''doc'', 7)), t)"
  by (simp add: upload_file_part_def get_tg_token_def acquire_permit_def send_upload_part_with_retries_def on_reply_def decode_def
      when_done_def permit_mark_ok_def em_gets_def em_modify_def set_gate_def gate_of_def new_gate_def pace_sleep_def moody_eval)

theorem sent_part_is_acknowledged_witness:
  "\<exists>t token time status body. upload_file_part (Suc (Suc (Suc 0))) moody_env (\<lambda>_. Some ''abcdef'') some_part calm_telegram = (Inr (Some (''doc'', 7)), t) \<and>
     last (tg_log t) = (time, \<lparr>hr_url = build_url ''https://t'' [] ''sendDocument'' token,
       hr_form = [(''chat_id'', show_int 70), (''document'', ''cd'')]\<rparr>, Answer status (Some body))"
proof -
  obtain t where t: "upload_file_part (Suc (Suc (Suc 0))) moody_env (\<lambda>_. Some ''abcdef'') some_part calm_telegram = (Inr (Some (''doc'', 7)), t)"
    by (rule exE [OF part_run]) (rule that)
  have part: "te_base moody_env = ''https://t''" "up_chat some_part = 70"
      "take (up_len some_part) (drop (up_offset some_part) ''abcdef'') = ''cd''"
    by (simp_all add: moody_env_def some_part_def)
  show ?thesis using sent_part_is_acknowledged [OF refl t] unfolding part using t by blast
qed

text \<open>
  A deletion reports success only on Telegram's word: the last answer to a \<open>deleteMessage\<close> of
  this message was a success, or its status and body say that the message is not there or cannot
  be deleted.
\<close>

theorem deletion_is_confirmed:
  assumes run: "delete_message_with_token fuel env chat message token s = (Inr (Some ()), t)"
  shows "\<exists>time a. last (tg_log t) = (time, \<lparr>hr_url = build_url (te_base env) [] ''deleteMessage'' token,
        hr_form = [(''chat_id'', show_int chat), (''message_id'', show_int message)]\<rparr>, a) \<and>
     (success_answer a \<or> is_soft_delete_error (error_text (final_error env a)))"
proof -
  let ?key = "gate_key token chat"
  let ?q = "\<lparr>hr_url = build_url (te_base env) [] ''deleteMessage'' token,
      hr_form = [(''chat_id'', show_int chat), (''message_id'', show_int message)]\<rparr>"
  obtain u where u: "acquire_permit env ?key s = (Inr (), u)" using acquire_permit_run by blast
  obtain r v where v: "send_with_retries fuel env (Some ?key) ?q u = (r, v)" by fastforce
  have fin: "tg_log t = tg_log v" "r \<noteq> Inr None" "\<And>e. r = Inl e \<Longrightarrow> is_soft_delete_error (error_text e)"
    using run u v by (auto simp: delete_message_with_token_def Let_def em_then_def em_bind_def em_attempt_def permit_mark_ok_def
        set_gate_def split: sum.splits option.splits if_splits)
  have "0 < max_attempts" by (simp add: max_attempts_def)
  from v [unfolded send_with_retries_def] _ this
  obtain xs where xs: "tg_log v = tg_log u @ xs" "\<And>x. x \<in> set xs \<Longrightarrow> fst (snd x) = ?q"
    "\<And>status body. r = Inr (Some (status, body)) \<Longrightarrow> xs \<noteq> [] \<and> snd (snd (last xs)) = Answer status body \<and> http_success status"
    "\<And>e. r = Inl e \<Longrightarrow> xs \<noteq> [] \<and> \<not> success_answer (snd (snd (last xs))) \<and> e = final_error env (snd (snd (last xs)))"
    by (rule retry_loop_log) auto
  have some: "xs \<noteq> []" and word: "success_answer (snd (snd (last xs))) \<or> is_soft_delete_error (error_text (final_error env (snd (snd (last xs)))))"
    using fin(2,3) xs(3,4) by (cases r; cases "projr r"; auto simp: success_answer_def)+
  have "fst (snd (last xs)) = ?q" using xs(2) last_in_set [OF some] by blast
  then show ?thesis using some word by (cases "last xs") (auto simp: fin(1) xs(1))
qed

definition gone_env :: telegram_env where
  "gone_env = moody_env\<lparr>te_answer := (\<lambda>_ _. Answer 400 (Some ''MESSAGE_ID_INVALID''))\<rparr>"

lemma gone_message:
  "flood_wait_secs 400 ''MESSAGE_ID_INVALID'' = None"
  "is_soft_delete_error (error_text (TelegramAPIError (show_nat 400 @ '': '' @ ''MESSAGE_ID_INVALID'')))"
  by code_simp+

theorem deletion_is_confirmed_witness:
  "\<exists>t time a. delete_message_with_token (Suc 0) gone_env 70 9 ''1:a'' calm_telegram = (Inr (Some ()), t) \<and>
     snd (last (tg_log t)) = (\<lparr>hr_url = build_url ''https://t'' [] ''deleteMessage'' ''1:a'',
       hr_form = [(''chat_id'', show_int 70), (''message_id'', show_int 9)]\<rparr>, a)"
proof -
  have soft: "is_soft_delete_error (error_text (failed_status gone_env 400 ''MESSAGE_ID_INVALID''))"
    using gone_message(2) by (simp add: failed_status_def gone_env_def moody_env_def)
  have base: "te_base gone_env = ''https://t''" by (simp add: gone_env_def moody_env_def)
  have "\<exists>t. delete_message_with_token (Suc 0) gone_env 70 9 ''1:a'' calm_telegram = (Inr (Some ()), t)"
    using soft gone_message(1)
    by (simp add: delete_message_with_token_def send_with_retries_def acquire_permit_def em_gets_def em_modify_def set_gate_def
        gate_of_def new_gate_def pace_sleep_def em_attempt_def gone_env_def moody_eval em_throw_def em_return_def)
  then obtain t where t: "delete_message_with_token (Suc 0) gone_env 70 9 ''1:a'' calm_telegram = (Inr (Some ()), t)" by (rule exE)
  show ?thesis using deletion_is_confirmed [OF t] t unfolding base by (metis snd_conv)
qed

section \<open>Tokens in the log\<close>

lemma text_before_first: "\<not> contains_str p (x @ butlast p) \<Longrightarrow> text_before p (x @ p @ y) = Some x"
proof (induction x)
  case Nil
  have "starts_with p (p @ y)" by (auto simp: starts_with_iff)
  then show ?case by (simp add: text_before.simps)
next
  case (Cons c x)
  then have "\<not> starts_with p (c # x @ p @ y)"
    using strip_prefix_none_before [of p c x y] by (simp add: starts_with_def)
  then show ?case
    using Cons by (subst text_before.simps) (auto dest: contains_str_tail)
qed

text \<open>
  The token of a bot does not get into the log, provided the configured address has no \<open>/bot\<close> of
  its own: then the mask hits that one, and the token behind it is printed.
\<close>

lemma mask_hides_token:
  assumes "\<not> contains_str ''/bot'' (base @ ''/bo'')" "CHR ''/'' \<notin> set token"
  shows "mask_url (build_url base [] rel token) = base @ ''/bot***/'' @ rel"
proof -
  have before: "text_before ''/bot'' (base @ ''/bot'' @ (token @ ''/'' @ rel)) = Some base"
    by (rule text_before_first) (use assms(1) in simp)
  have url: "build_url base [] rel token = base @ ''/bot'' @ (token @ ''/'' @ rel)" by (simp add: build_url_def)
  have "text_before ''/'' (token @ ''/'' @ rel) = Some token"
  proof (rule text_before_first)
    show "\<not> contains_str ''/'' (token @ butlast ''/'')"
      using assms(2) by (induction token) (auto simp: starts_with_iff)
  qed
  then show ?thesis unfolding mask_url_def url before by (simp add: Let_def)
qed

lemma mask_leaks_token:
  "mask_url (build_url ''https://h/botapi'' [] ''sendDocument'' ''1:secret'') = ''https://h/bot***/bot1:secret/sendDocument''"
  by code_simp

end
