(* ===== verification/TokenClient.thy ===== *)
theory TokenClient
  imports ServerErrors EngineMonad
begin

text \<open>
  The client of the set-up assistant (common/telegram_api/token_client.rs with the answers of
  common/telegram_api/schemas.rs): it has the token of a bot that no storage knows yet, and finds
  the channels the bot may post to. Every call may be answered differently from the one before.
\<close>

section \<open>What Telegram answers\<close>

record chat_schema =
  cs_id :: int
  cs_title :: "string option"
  cs_username :: "string option"
  cs_first_name :: "string option"
  cs_type :: "string option"

record message_schema =
  ms_chat :: chat_schema
  ms_forward_from :: "chat_schema option"
  ms_origin :: "(string option \<times> chat_schema option) option"

record update_schema =
  us_id :: int
  us_post :: "message_schema option"
  us_member :: "(chat_schema \<times> string option) option"
  us_message :: "message_schema option"

record detected_chat =
  dc_id :: int
  dc_title :: string

definition chat_title :: "chat_schema \<Rightarrow> string" where
  "chat_title c = (case cs_title c of Some x \<Rightarrow> x | None \<Rightarrow> (case cs_username c of Some x \<Rightarrow> x | None \<Rightarrow>
     (case cs_first_name c of Some x \<Rightarrow> x | None \<Rightarrow> show_int (cs_id c))))"

definition push_detected :: "detected_chat list \<Rightarrow> chat_schema \<Rightarrow> detected_chat list" where
  "push_detected out c = (if list_ex (\<lambda>d. dc_id d = cs_id c) out then out
     else out @ [\<lparr>dc_id = cs_id c, dc_title = chat_title c\<rparr>])"

definition push_when :: "bool \<Rightarrow> chat_schema \<Rightarrow> detected_chat list \<Rightarrow> detected_chat list" where
  "push_when b c out = (if b then push_detected out c else out)"

text \<open>
  A channel post, a promotion (or one without its status), a message in a group, and what a
  message was forwarded from.
\<close>

definition member_counts :: "string option \<Rightarrow> bool" where
  "member_counts status = (case status of None \<Rightarrow> True | Some x \<Rightarrow> x \<in> {''administrator'', ''creator''})"

definition chats_from_update :: "update_schema \<Rightarrow> detected_chat list \<Rightarrow> detected_chat list" where
  "chats_from_update u out =
     (let out = (case us_post u of None \<Rightarrow> out | Some m \<Rightarrow> push_detected out (ms_chat m));
          out = (case us_member u of None \<Rightarrow> out | Some (c, status) \<Rightarrow> push_when (member_counts status) c out)
      in case us_message u of
           None \<Rightarrow> out
         | Some m \<Rightarrow>
             (let t = (case cs_type (ms_chat m) of Some t \<Rightarrow> t | None \<Rightarrow> []);
                  out = push_when (t \<in> {''group'', ''supergroup'', ''channel''}) (ms_chat m) out;
                  out = (case ms_forward_from m of None \<Rightarrow> out
                         | Some c \<Rightarrow> push_when (cs_type c = Some ''channel'' \<or> cs_id c < 0) c out)
              in case ms_origin m of
                   Some (kind, Some c) \<Rightarrow> push_when (kind = Some ''channel'' \<or> cs_type c = Some ''channel'' \<or> cs_id c < 0) c out
                 | _ \<Rightarrow> out))"

definition chats_from_updates :: "update_schema list \<Rightarrow> detected_chat list" where
  "chats_from_updates us = fold chats_from_update us []"

section \<open>The calls\<close>

text \<open>
  An answer with its status and text, or none. The state is the number of calls made so far; the
  parser of each answer gives its error text.
\<close>

datatype bot_reply = BotReply nat string | NoReply

record token_env =
  ke_base :: string
  ke_token :: string
  ke_reply :: "nat \<Rightarrow> string \<Rightarrow> (string \<times> string) list \<Rightarrow> bot_reply"
  ke_status_text :: "nat \<Rightarrow> string"
  ke_me :: "string \<Rightarrow> (string, int \<times> string option \<times> string option) result"
  ke_updates :: "string \<Rightarrow> (string, update_schema list) result"
  ke_chat :: "string \<Rightarrow> (string option \<times> string option \<times> string option) option"
  ke_member :: "string \<Rightarrow> (string, string) result"

type_synonym 'a bot = "(nat, sarca_error, 'a) em"

definition new_token_env :: "string \<Rightarrow> string \<Rightarrow> token_env \<Rightarrow> token_env" where
  "new_token_env base token env = env\<lparr>ke_base := trim_end_matches CHR ''/'' base, ke_token := trim token\<rparr>"

definition bot_url :: "token_env \<Rightarrow> string \<Rightarrow> string" where
  "bot_url env method = ke_base env @ ''/bot'' @ ke_token env @ ''/'' @ method"

definition bot_call :: "token_env \<Rightarrow> string \<Rightarrow> (string \<times> string) list \<Rightarrow> (nat \<times> string) bot" where
  "bot_call env method form = (\<lambda>n. case ke_reply env n (bot_url env method) form of
     NoReply \<Rightarrow> (Inl Unknown, Suc n) | BotReply status body \<Rightarrow> (Inr (status, body), Suc n))"

definition ok_status :: "nat \<Rightarrow> bool" where "ok_status status \<longleftrightarrow> 200 \<le> status \<and> status < 300"

definition token_get_me :: "token_env \<Rightarrow> (int \<times> string) bot" where
  "token_get_me env =
     em_bind (bot_call env ''getMe'' []) (\<lambda>(status, body).
     if \<not> ok_status status then em_throw (TelegramAPIError (''Invalid bot token ('' @ ke_status_text env status @ '')''))
     else (case ke_me env body of
       Inl e \<Rightarrow> em_throw (TelegramAPIError (''getMe parse error: '' @ e))
     | Inr (i, username, first_name) \<Rightarrow>
         em_return (i, case username of
             Some (c # cs) \<Rightarrow> c # cs
           | _ \<Rightarrow> (case first_name of Some x \<Rightarrow> x | None \<Rightarrow> ''bot_'' @ show_int i))))"

definition delete_webhook :: "token_env \<Rightarrow> unit bot" where
  "delete_webhook env =
     em_bind (bot_call env ''deleteWebhook'' [(''drop_pending_updates'', ''false'')]) (\<lambda>(status, body).
     if \<not> ok_status status then em_throw (TelegramAPIError (''deleteWebhook failed ('' @ ke_status_text env status @ '')''))
     else em_return ())"

definition allowed_updates :: string where
  "allowed_updates = ''[\"message\",\"edited_message\",\"channel_post\",\"edited_channel_post\",\"my_chat_member\",\"chat_member\"]''"

definition updates_form :: "int option \<Rightarrow> nat \<Rightarrow> (string \<times> string) list" where
  "updates_form offset timeout = [(''timeout'', show_nat timeout), (''limit'', ''100''), (''allowed_updates'', allowed_updates)]
     @ (case offset of None \<Rightarrow> [] | Some i \<Rightarrow> [(''offset'', show_int i)])"

text \<open>One page; a 409 is tried once more. The next offset is past every update of the page.\<close>

definition read_page :: "token_env \<Rightarrow> nat \<times> string \<Rightarrow> (detected_chat list \<times> int option) bot" where
  "read_page env = (\<lambda>(status, body).
     if \<not> ok_status status then em_throw (TelegramAPIError (''getUpdates failed ('' @ ke_status_text env status @ ''): '' @ body @
         (if status = 409 then '' Another program (or a second Sarca / Bot API client) is already '' @
            ''polling this bot with getUpdates '' @ em_dash @ '' stop it and try again.'' else [])))
     else (case ke_updates env body of
       Inl e \<Rightarrow> em_throw (TelegramAPIError (''getUpdates parse error: '' @ e))
     | Inr [] \<Rightarrow> em_return ([], None)
     | Inr us \<Rightarrow> em_return (chats_from_updates us, Some (Max (us_id ` set us) + 1))))"

definition get_updates_page :: "token_env \<Rightarrow> int option \<Rightarrow> nat \<Rightarrow> (detected_chat list \<times> int option) bot" where
  "get_updates_page env offset timeout =
     em_bind (bot_call env ''getUpdates'' (updates_form offset timeout)) (\<lambda>reply.
     if fst reply = 409 then em_bind (bot_call env ''getUpdates'' (updates_form offset timeout)) (read_page env)
     else read_page env reply)"

text \<open>\<open>seen\<close> is what \<open>all\<close> holds already.\<close>

definition add_chats :: "detected_chat list \<Rightarrow> detected_chat list \<Rightarrow> detected_chat list" where
  "add_chats news acc = fold (\<lambda>c acc. if list_ex (\<lambda>d. dc_id d = dc_id c) acc then acc else acc @ [c]) news acc"

fun drain_pages :: "nat \<Rightarrow> token_env \<Rightarrow> detected_chat list \<Rightarrow> int option \<Rightarrow> detected_chat list bot" where
  "drain_pages 0 env acc offset = em_return acc"
| "drain_pages (Suc pages) env acc offset =
     em_bind (get_updates_page env offset 0) (\<lambda>(chats, next).
       case next of None \<Rightarrow> em_return (add_chats chats acc)
       | Some i \<Rightarrow> drain_pages pages env (add_chats chats acc) (Some i))"

definition drain_update_chats :: "token_env \<Rightarrow> detected_chat list bot" where
  "drain_update_chats env = drain_pages 20 env [] None"

text \<open>The pages after a long poll, which have no limit: \<open>None\<close> when the fuel runs out.\<close>

fun poll_pages :: "nat \<Rightarrow> token_env \<Rightarrow> detected_chat list \<Rightarrow> int option \<Rightarrow> detected_chat list option bot" where
  "poll_pages fuel env acc None = em_return (Some acc)"
| "poll_pages 0 env acc (Some i) = em_return None"
| "poll_pages (Suc fuel) env acc (Some i) =
     em_bind (get_updates_page env (Some i) 0) (\<lambda>(news, next). poll_pages fuel env (add_chats news acc) next)"

definition get_updates :: "nat \<Rightarrow> token_env \<Rightarrow> detected_chat list option bot" where
  "get_updates fuel env =
     em_bind (drain_update_chats env) (\<lambda>drained.
     if drained \<noteq> [] then em_return (Some drained)
     else em_bind (get_updates_page env None 2) (\<lambda>(first, next).
       if first = [] then em_return (Some []) else poll_pages fuel env first next))"

definition token_get_chat :: "token_env \<Rightarrow> int \<Rightarrow> string bot" where
  "token_get_chat env chat =
     em_bind (bot_call env ''getChat'' [(''chat_id'', show_int chat)]) (\<lambda>(status, body).
     if \<not> ok_status status then em_throw (TelegramAPIError (''getChat failed ('' @ ke_status_text env status @ ''): '' @ body))
     else (case ke_chat env body of
       None \<Rightarrow> em_throw Unknown
     | Some (title, username, first_name) \<Rightarrow> em_return (chat_title \<lparr>cs_id = chat, cs_title = title, cs_username = username,
           cs_first_name = first_name, cs_type = None\<rparr>)))"

definition get_chat_member_status :: "token_env \<Rightarrow> int \<Rightarrow> int \<Rightarrow> string bot" where
  "get_chat_member_status env chat user =
     em_bind (bot_call env ''getChatMember'' [(''chat_id'', show_int chat), (''user_id'', show_int user)]) (\<lambda>(status, body).
     if \<not> ok_status status then em_throw (TelegramAPIError (''getChatMember failed ('' @ ke_status_text env status @ ''): '' @ body))
     else (case ke_member env body of
       Inl e \<Rightarrow> em_throw (TelegramAPIError (''getChatMember parse error: '' @ e))
     | Inr x \<Rightarrow> em_return x))"

section \<open>Finding the channels\<close>

datatype admin_class = Admin string | NotAdmin | UnknownClass

definition classify_admin_chat :: "token_env \<Rightarrow> int \<Rightarrow> int \<Rightarrow> string option \<Rightarrow> admin_class bot" where
  "classify_admin_chat env chat bot_id fallback =
     em_bind (em_attempt (token_get_chat env chat)) (\<lambda>r.
     let title = (case r of Inr t \<Rightarrow> t | Inl _ \<Rightarrow> (case fallback of Some t \<Rightarrow> t | None \<Rightarrow> show_int chat))
     in em_bind (em_attempt (get_chat_member_status env chat bot_id)) (\<lambda>r.
       em_return (case r of
         Inr status \<Rightarrow> if status \<in> {''administrator'', ''creator''} then Admin title else NotAdmin
       | Inl _ \<Rightarrow> UnknownClass)))"

text \<open>
  What the search knows: the channels found, the chats it has looked at, and the labels of those
  that belong to a storage already; \<open>Inl\<close> is an answer given at once.
\<close>

record discovery =
  di_found :: "(int \<times> string) list"
  di_seen :: "int list"
  di_skipped :: "string list"
  di_non_admin :: bool

fun probe_chats :: "token_env \<Rightarrow> int \<Rightarrow> int list \<Rightarrow> int list \<Rightarrow> discovery \<Rightarrow> (string + discovery) bot" where
  "probe_chats env me exclude [] d = em_return (Inr d)"
| "probe_chats env me exclude (c # cs) d =
     (if 0 \<le> c \<or> c \<in> set (di_seen d) then probe_chats env me exclude cs d
      else (let d = d\<lparr>di_seen := di_seen d @ [c]\<rparr>
        in if c \<in> set exclude then probe_chats env me exclude cs (d\<lparr>di_skipped := di_skipped d @ [show_int c]\<rparr>)
           else em_bind (classify_admin_chat env c me None) (\<lambda>k. case k of
             Admin title \<Rightarrow> probe_chats env me exclude cs (d\<lparr>di_found := di_found d @ [(c, title)]\<rparr>)
           | NotAdmin \<Rightarrow> em_return (Inl (''Bot is in chat '' @ show_int c @
               '' but is not an admin. Give it admin rights with Post messages and Delete messages.''))
           | UnknownClass \<Rightarrow> em_return (Inl (''Cannot access chat '' @ show_int c @
               ''. Add the bot as an admin there, or check the id.'')))))"

fun review_chats :: "token_env \<Rightarrow> int \<Rightarrow> int list \<Rightarrow> detected_chat list \<Rightarrow> discovery \<Rightarrow> discovery bot" where
  "review_chats env me exclude [] d = em_return d"
| "review_chats env me exclude (c # cs) d =
     (if dc_id c \<in> set (di_seen d) then review_chats env me exclude cs d
      else (let d = d\<lparr>di_seen := di_seen d @ [dc_id c]\<rparr>
        in if dc_id c \<in> set exclude then review_chats env me exclude cs (d\<lparr>di_skipped := di_skipped d @ [dc_title c]\<rparr>)
           else if 0 \<le> dc_id c then review_chats env me exclude cs d
           else em_bind (classify_admin_chat env (dc_id c) me (Some (dc_title c))) (\<lambda>k. case k of
             Admin title \<Rightarrow> review_chats env me exclude cs (d\<lparr>di_found := di_found d @ [(dc_id c, title)]\<rparr>)
           | _ \<Rightarrow> review_chats env me exclude cs (d\<lparr>di_non_admin := True\<rparr>))))"

text \<open>Joined by a comma and a blank.\<close>

fun comma_list :: "string list \<Rightarrow> string" where
  "comma_list [] = []"
| "comma_list [x] = x"
| "comma_list (x # y # xs) = x @ '', '' @ comma_list (y # xs)"

definition discovery_hint :: "discovery \<Rightarrow> string option" where
  "discovery_hint d =
     (if di_found d \<noteq> [] then None
      else if di_skipped d \<noteq> [] then Some (''Seen channel(s) already linked to another storage: '' @ comma_list (di_skipped d) @
        ''. Use a different channel, or open the existing storage instead of creating a new one.'')
      else if di_non_admin d then Some (''Bot was added to a channel but does not have admin rights. Make it an admin with '' @
        ''Post messages and Delete messages.'')
      else None)"

definition discover_admin_chats ::
  "nat \<Rightarrow> token_env \<Rightarrow> int list \<Rightarrow> int list \<Rightarrow> ((int \<times> string) list \<times> string option) option bot" where
  "discover_admin_chats fuel env exclude probe =
     em_bind (token_get_me env) (\<lambda>(me, _).
     em_bind (probe_chats env me exclude probe \<lparr>di_found = [], di_seen = [], di_skipped = [], di_non_admin = False\<rparr>) (\<lambda>r. case r of
       Inl hint \<Rightarrow> em_return (Some ([], Some hint))
     | Inr d \<Rightarrow>
         em_bind (if di_found d = [] then get_updates fuel env else em_bind (drain_update_chats env) (\<lambda>cs. em_return (Some cs))) (\<lambda>chats.
           case chats of
             None \<Rightarrow> em_return None
           | Some chats \<Rightarrow> em_bind (review_chats env me exclude chats d) (\<lambda>d. em_return (Some (di_found d, discovery_hint d))))))"

section \<open>What is found\<close>

text \<open>
  What Telegram has confirmed by the \<open>n\<close>-th call: the bot \<open>me\<close> administers the chat.
\<close>

definition confirmed_admin :: "token_env \<Rightarrow> int \<Rightarrow> nat \<Rightarrow> int \<Rightarrow> bool" where
  "confirmed_admin env me n chat \<longleftrightarrow> (\<exists>k < n. \<exists>status body member.
     ke_reply env k (bot_url env ''getChatMember'') [(''chat_id'', show_int chat), (''user_id'', show_int me)] = BotReply status body \<and>
     ok_status status \<and> ke_member env body = Inr member \<and> member \<in> {''administrator'', ''creator''})"

lemma confirmed_admin_mono: "confirmed_admin env me n chat \<Longrightarrow> n \<le> m \<Longrightarrow> confirmed_admin env me m chat"
  by (auto simp: confirmed_admin_def dest: less_le_trans)

lemma bot_call_run: "bot_call env method form n = (r, m) \<Longrightarrow> m = Suc n"
  by (auto simp: bot_call_def split: bot_reply.splits)

lemma token_get_chat_run: "token_get_chat env chat n = (r, m) \<Longrightarrow> m = Suc n"
  by (auto simp: token_get_chat_def em_bind_def dest!: bot_call_run split: prod.splits sum.splits if_splits option.splits)

lemma classify_Admin:
  assumes "classify_admin_chat env chat me fallback n = (Inr k, m)"
  shows "n \<le> m" and "k = Admin title \<Longrightarrow> confirmed_admin env me m chat"
proof -
  obtain r where r: "token_get_chat env chat n = (r, Suc n)"
    using token_get_chat_run by (metis surj_pair)
  obtain q where q: "get_chat_member_status env chat me (Suc n) = (q, Suc (Suc n))"
    by (cases "get_chat_member_status env chat me (Suc n)")
      (auto simp: get_chat_member_status_def em_bind_def dest!: bot_call_run split: prod.splits sum.splits if_splits)
  have m: "m = Suc (Suc n)"
    using assms r q by (auto simp: classify_admin_chat_def em_bind_def em_attempt_def Let_def)
  then show "n \<le> m" by simp
  show "confirmed_admin env me m chat" if adm: "k = Admin title"
  proof -
    obtain member where "q = Inr member" "member \<in> {''administrator'', ''creator''}"
      using assms r q adm by (auto simp: classify_admin_chat_def em_bind_def em_attempt_def Let_def split: sum.splits if_splits)
    then show ?thesis
      using q m by (auto simp: get_chat_member_status_def em_bind_def bot_call_def confirmed_admin_def
          split: prod.splits sum.splits if_splits bot_reply.splits)
  qed
qed

text \<open>What holds of the search all along.\<close>

definition discovery_ok :: "token_env \<Rightarrow> int \<Rightarrow> int list \<Rightarrow> nat \<Rightarrow> discovery \<Rightarrow> bool" where
  "discovery_ok env me exclude n d \<longleftrightarrow> distinct (map fst (di_found d)) \<and> fst ` set (di_found d) \<subseteq> set (di_seen d) \<and>
     (\<forall>(c, t) \<in> set (di_found d). c < 0 \<and> c \<notin> set exclude \<and> confirmed_admin env me n c)"

lemma discovery_ok_mono: "discovery_ok env me exclude n d \<Longrightarrow> n \<le> m \<Longrightarrow> discovery_ok env me exclude m d"
  by (auto simp: discovery_ok_def dest: confirmed_admin_mono)

lemma discovery_ok_aside:
  "discovery_ok env me exclude n d \<Longrightarrow> discovery_ok env me exclude n (d\<lparr>di_seen := di_seen d @ [c]\<rparr>)"
  "discovery_ok env me exclude n d \<Longrightarrow> discovery_ok env me exclude n (d\<lparr>di_skipped := s\<rparr>)"
  "discovery_ok env me exclude n d \<Longrightarrow> discovery_ok env me exclude n (d\<lparr>di_non_admin := b\<rparr>)"
  by (auto simp: discovery_ok_def)

lemma discovery_ok_found:
  assumes "discovery_ok env me exclude n d" "c \<notin> set (di_seen d)" "c < 0" "c \<notin> set exclude" "confirmed_admin env me m c" "n \<le> m"
  shows "discovery_ok env me exclude m (d\<lparr>di_seen := di_seen d @ [c], di_found := di_found d @ [(c, t)]\<rparr>)"
  using assms by (auto simp: discovery_ok_def dest: confirmed_admin_mono)

lemma probe_chats_ok:
  assumes "probe_chats env me exclude cs d n = (Inr (Inr d'), m)" "discovery_ok env me exclude n d"
  shows "discovery_ok env me exclude m d'"
  using assms
proof (induction cs arbitrary: d n)
  case (Cons c cs)
  show ?case
  proof (cases "0 \<le> c \<or> c \<in> set (di_seen d) \<or> c \<in> set exclude")
    case True
    then show ?thesis using Cons.prems by (auto simp: Let_def intro: discovery_ok_aside Cons.IH split: if_splits)
  next
    case False
    then obtain title k where "classify_admin_chat env c me None n = (Inr (Admin title), k)"
        "probe_chats env me exclude cs (d\<lparr>di_seen := di_seen d @ [c], di_found := di_found d @ [(c, title)]\<rparr>) k = (Inr (Inr d'), m)"
      using Cons.prems(1) by (auto simp: Let_def em_bind_def split: prod.splits sum.splits admin_class.splits)
    then show ?thesis
      using classify_Admin discovery_ok_found [OF Cons.prems(2)] False Cons.IH by (metis not_le)
  qed
qed simp

lemma review_chats_ok:
  assumes "review_chats env me exclude cs d n = (Inr d', m)" "discovery_ok env me exclude n d"
  shows "discovery_ok env me exclude m d'"
  using assms
proof (induction cs arbitrary: d n)
  case (Cons c cs)
  show ?case
  proof (cases "0 \<le> dc_id c \<or> dc_id c \<in> set (di_seen d) \<or> dc_id c \<in> set exclude")
    case True
    then show ?thesis using Cons.prems by (auto simp: Let_def intro: discovery_ok_aside Cons.IH split: if_splits)
  next
    case False
    let ?d = "d\<lparr>di_seen := di_seen d @ [dc_id c]\<rparr>"
    obtain k l where k: "classify_admin_chat env (dc_id c) me (Some (dc_title c)) n = (Inr k, l)"
      and rest: "review_chats env me exclude cs (case k of Admin title \<Rightarrow> ?d\<lparr>di_found := di_found d @ [(dc_id c, title)]\<rparr>
          | _ \<Rightarrow> ?d\<lparr>di_non_admin := True\<rparr>) l = (Inr d', m)"
      using Cons.prems(1) False by (auto simp: Let_def em_bind_def split: prod.splits sum.splits admin_class.splits)
    have "discovery_ok env me exclude l ?d"
      using discovery_ok_mono [OF Cons.prems(2) classify_Admin(1) [OF k]] by (rule discovery_ok_aside)
    then have "discovery_ok env me exclude l (case k of Admin title \<Rightarrow> ?d\<lparr>di_found := di_found d @ [(dc_id c, title)]\<rparr>
          | _ \<Rightarrow> ?d\<lparr>di_non_admin := True\<rparr>)"
      using discovery_ok_found [OF Cons.prems(2), of "dc_id c" l] classify_Admin [OF k] False
      by (cases k) (auto intro: discovery_ok_aside)
    then show ?thesis using rest by (intro Cons.IH)
  qed
qed simp

text \<open>The number of calls only grows.\<close>

interpretation calls: step_preorder "(\<le>) :: nat \<Rightarrow> nat \<Rightarrow> bool"
  by unfold_locales auto

lemma bot_call_keeps: "em_keeps (\<le>) (bot_call env method form)"
  by (rule em_keepsI) (auto dest: bot_call_run)

lemma read_page_keeps: "em_keeps (\<le>) (read_page env reply)"
  by (rule em_keepsI) (auto simp: read_page_def split: prod.splits if_splits sum.splits list.splits)

lemma get_updates_page_keeps: "em_keeps (\<le>) (get_updates_page env offset timeout)"
  unfolding get_updates_page_def
  by (intro calls.keeps bot_call_keeps) (auto intro: calls.keeps bot_call_keeps read_page_keeps)

lemma drain_pages_keeps: "em_keeps (\<le>) (drain_pages pages env acc offset)"
  by (induction pages arbitrary: acc offset)
    (auto intro!: calls.keeps get_updates_page_keeps split: option.splits)

lemma poll_pages_keeps: "em_keeps (\<le>) (poll_pages fuel env acc offset)"
proof (induction fuel arbitrary: acc offset)
  case 0
  show ?case by (cases offset) (auto simp: em_keeps_def)
next
  case (Suc fuel)
  then show ?case by (cases offset) (auto simp: em_keeps_def em_bind_def split: prod.splits sum.splits
      dest: em_keepsD [OF get_updates_page_keeps] intro: le_trans)
qed

lemma get_updates_keeps: "em_keeps (\<le>) (get_updates fuel env)"
  unfolding get_updates_def drain_update_chats_def
  by (auto intro!: calls.keeps drain_pages_keeps get_updates_page_keeps poll_pages_keeps)


definition wizard_env :: token_env where
  "wizard_env = \<lparr>ke_base = ''https://t'', ke_token = ''5:a'', ke_reply = (\<lambda>n _ _. BotReply 200 (show_nat n)), ke_status_text = show_nat,
     ke_me = (\<lambda>_. Inr (5, Some ''bot'', None)),
     ke_updates = (\<lambda>body. Inr (if body = ''1'' then [\<lparr>us_id = 3, us_post = Some \<lparr>ms_chat = \<lparr>cs_id = - 100, cs_title = Some ''Data'',
         cs_username = None, cs_first_name = None, cs_type = Some ''channel''\<rparr>, ms_forward_from = None, ms_origin = None\<rparr>,
         us_member = None, us_message = None\<rparr>] else [])),
     ke_chat = (\<lambda>_. Some (Some ''Data'', None, None)), ke_member = (\<lambda>_. Inr ''administrator'')\<rparr>"


text \<open>Draining the backlog takes at most twenty pages of two calls.\<close>

lemma get_updates_page_calls: "get_updates_page env offset timeout n = (r, m) \<Longrightarrow> m \<le> n + 2"
  by (auto simp: get_updates_page_def read_page_def em_bind_def dest!: bot_call_run
      split: prod.splits sum.splits if_splits list.splits)

lemma drain_calls_bounded: "drain_pages pages env acc offset n = (r, m) \<Longrightarrow> m \<le> n + 2 * pages"
proof (induction pages arbitrary: acc offset n)
  case (Suc pages)
  show ?case
  proof (cases "get_updates_page env offset 0 n")
    case (Pair p l)
    then have l: "l \<le> n + 2" by (rule get_updates_page_calls)
    show ?thesis
    proof (cases p)
      case (Inl e)
      then show ?thesis using Suc.prems Pair l by (simp add: em_bind_def)
    next
      case (Inr page)
      then show ?thesis using Suc.prems Pair l Suc.IH
        by (cases page) (fastforce simp: em_bind_def split: option.splits)
    qed
  qed
qed simp

end
