(* ===== verification/WebDav.thy ===== *)
theory WebDav
  imports ServerErrors SyncTypes
begin

text \<open>
  The read side of WebDAV that an import needs (src/sarca/src/services/import/webdav.rs) and the
  paths imported files get (services/import/mod.rs: \<open>join_target\<close>, \<open>normalize_target\<close>). A listing is
  the list of events quick-xml reads from the body: elements by their local name, texts, and what
  a character or entity reference stands for, nothing when it is unknown. The parser is a machine
  over these events. The date parser, the URL parser and the HTTP client are parameters.
\<close>

section \<open>Errors\<close>

text \<open>A \<open>WebDavError\<close> is its text.\<close>

definition auth_rejected :: string where
  "auth_rejected = ''the server rejected the username or password (for Nextcloud with '' @
     ''two-factor sign-in, use an app password)''"

definition is_auth :: "string \<Rightarrow> bool" where
  "is_auth e \<longleftrightarrow> e = auth_rejected"

datatype transport_failure = DavTimeout | DavConnect | DavNetwork string

fun dav_transport_error :: "transport_failure \<Rightarrow> string" where
  "dav_transport_error DavTimeout = ''the server did not answer in time''"
| "dav_transport_error DavConnect = ''could not connect to the server''"
| "dav_transport_error (DavNetwork described) = ''network error: '' @ described"

definition not_a_folder :: string where
  "not_a_folder = ''this address is not a WebDAV folder '' @ em_dash @ '' check the URL''"

text \<open>\<open>shown\<close> is how the HTTP library prints a status.\<close>

definition dav_status_error :: "(nat \<Rightarrow> string) \<Rightarrow> nat \<Rightarrow> string" where
  "dav_status_error shown status =
     (if status = 401 then auth_rejected
      else if status = 403 then ''the server refused access to this folder''
      else if status = 404 then ''this folder does not exist on the server''
      else if status = 405 then not_a_folder
      else ''the server answered '' @ shown status)"

definition status_is_success :: "nat \<Rightarrow> bool" where
  "status_is_success status \<longleftrightarrow> 200 \<le> status \<and> status < 300"

section \<open>The multistatus parser\<close>

datatype xml_event =
    XStart string
  | XEmpty string
  | XText string
  | XCData string
  | XRef "string option"
  | XEnd string
  | XOther

record raw_entry =
  re_href :: string
  re_dir :: bool
  re_size :: nat
  re_mtime :: "int option"

definition default_raw :: raw_entry where
  "default_raw = \<lparr>re_href = [], re_dir = False, re_size = 0, re_mtime = None\<rparr>"

datatype dav_field = FHref | FSize | FMtime | FStatus

record dav_parser =
  dp_entries :: "raw_entry list"
  dp_current :: "raw_entry option"
  dp_pending :: raw_entry
  dp_ok :: bool
  dp_field :: "dav_field option"
  dp_text :: string

definition dav_start :: dav_parser where
  "dav_start = \<lparr>dp_entries = [], dp_current = None, dp_pending = default_raw, dp_ok = True,
     dp_field = None, dp_text = []\<rparr>"

text \<open>\<open>value.split_whitespace().nth(1)\<close>, where a value without a second word gives the empty text.\<close>

fun until_space :: "string \<Rightarrow> string" where
  "until_space [] = []"
| "until_space (c # cs) = (if strip_any ws_chars (c # cs) = None then c # until_space cs else [])"

definition second_word :: "string \<Rightarrow> string" where
  "second_word s = (let t = trim_start s in until_space (trim_start (drop (length (until_space t)) t)))"

definition field_of :: "string \<Rightarrow> dav_field option" where
  "field_of name =
     (if name = ''href'' then Some FHref else if name = ''getcontentlength'' then Some FSize
      else if name = ''getlastmodified'' then Some FMtime else if name = ''status'' then Some FStatus
      else None)"

definition on_start :: "string \<Rightarrow> dav_parser \<Rightarrow> dav_parser" where
  "on_start name p =
     (if name = ''response'' then p\<lparr>dp_current := Some default_raw\<rparr>
      else if name = ''propstat'' then p\<lparr>dp_pending := default_raw, dp_ok := True\<rparr>
      else if name = ''collection'' then p\<lparr>dp_pending := (dp_pending p)\<lparr>re_dir := True\<rparr>\<rparr>
      else case field_of name of
          None \<Rightarrow> p
        | Some f \<Rightarrow> p\<lparr>dp_field := Some f, dp_text := []\<rparr>)"

definition close_field :: "(string \<Rightarrow> int option) \<Rightarrow> dav_parser \<Rightarrow> dav_parser" where
  "close_field rfc2822 p =
     (let v = trim (dp_text p);
          q = (case dp_field p of
              None \<Rightarrow> p
            | Some FHref \<Rightarrow> p\<lparr>dp_current := map_option (\<lambda>e. e\<lparr>re_href := v\<rparr>) (dp_current p)\<rparr>
            | Some FSize \<Rightarrow> p\<lparr>dp_pending := (dp_pending p)\<lparr>re_size :=
                  (case parse_unsigned u64_max v of None \<Rightarrow> 0 | Some n \<Rightarrow> n)\<rparr>\<rparr>
            | Some FMtime \<Rightarrow> p\<lparr>dp_pending := (dp_pending p)\<lparr>re_mtime := rfc2822 v\<rparr>\<rparr>
            | Some FStatus \<Rightarrow> p\<lparr>dp_ok := (second_word v = ''200'')\<rparr>)
      in q\<lparr>dp_field := None, dp_text := []\<rparr>)"

definition apply_pending :: "raw_entry \<Rightarrow> raw_entry \<Rightarrow> raw_entry" where
  "apply_pending q e = e\<lparr>re_dir := re_dir e \<or> re_dir q,
     re_size := (if 0 < re_size q then re_size q else re_size e),
     re_mtime := (if re_mtime q \<noteq> None then re_mtime q else re_mtime e)\<rparr>"

definition on_end :: "(string \<Rightarrow> int option) \<Rightarrow> string \<Rightarrow> dav_parser \<Rightarrow> dav_parser" where
  "on_end rfc2822 name p =
     (if field_of name \<noteq> None then close_field rfc2822 p
      else if name = ''propstat'' \<and> dp_ok p
        then p\<lparr>dp_current := map_option (apply_pending (dp_pending p)) (dp_current p)\<rparr>
      else if name = ''response''
        then (case dp_current p of
            None \<Rightarrow> p
          | Some e \<Rightarrow> p\<lparr>dp_current := None,
              dp_entries := (if re_href e = [] then dp_entries p else dp_entries p @ [e])\<rparr>)
      else p)"

definition add_text :: "string \<Rightarrow> dav_parser \<Rightarrow> dav_parser" where
  "add_text t p = (if dp_field p = None then p else p\<lparr>dp_text := dp_text p @ t\<rparr>)"

fun on_event :: "(string \<Rightarrow> int option) \<Rightarrow> xml_event \<Rightarrow> dav_parser \<Rightarrow> dav_parser" where
  "on_event rfc2822 (XStart name) p = on_start name p"
| "on_event rfc2822 (XEmpty name) p =
     (if name = ''collection'' then p\<lparr>dp_pending := (dp_pending p)\<lparr>re_dir := True\<rparr>\<rparr> else p)"
| "on_event rfc2822 (XText t) p = add_text t p"
| "on_event rfc2822 (XCData t) p = add_text t p"
| "on_event rfc2822 (XRef r) p = (case r of None \<Rightarrow> p | Some t \<Rightarrow> add_text t p)"
| "on_event rfc2822 (XEnd name) p = on_end rfc2822 name p"
| "on_event rfc2822 XOther p = p"

text \<open>The events read from the body, and the error the reader stopped with, if it did.\<close>

definition parse_multistatus ::
  "(string \<Rightarrow> int option) \<Rightarrow> xml_event list \<times> string option \<Rightarrow> (string, raw_entry list) result" where
  "parse_multistatus rfc2822 body = (case body of
     (events, Some e) \<Rightarrow> Inl (''the server sent a listing that is not valid XML: '' @ e)
   | (events, None) \<Rightarrow> Inr (dp_entries (fold (on_event rfc2822) events dav_start)))"

section \<open>Listing a folder and opening a file\<close>

record dav_entry =
  de_path :: string
  de_dir :: bool
  de_size :: nat
  de_mtime :: "int option"

definition bad_segment :: "string \<Rightarrow> bool" where
  "bad_segment seg \<longleftrightarrow> seg = [] \<or> seg = ''.'' \<or> seg = ''..''"

text \<open>
  \<open>href_path\<close> is the decoded path of an href joined to the URL that was listed, nothing when it
  is no URL; \<open>root_path\<close> and \<open>listed_dir\<close> are the decoded paths of the root and of the folder.
\<close>

definition entry_of_raw :: "(string \<Rightarrow> string option) \<Rightarrow> string \<Rightarrow> string \<Rightarrow> raw_entry \<Rightarrow> dav_entry option" where
  "entry_of_raw href_path root_path listed_dir raw = (case href_path (re_href raw) of
     None \<Rightarrow> None
   | Some path \<Rightarrow>
       if trim_end_matches (CHR ''/'') path = trim_end_matches (CHR ''/'') listed_dir then None
       else (case strip_prefix root_path path of
         None \<Rightarrow> None
       | Some below \<Rightarrow>
           let rel = trim_matches (CHR ''/'') below
           in if rel = [] \<or> list_ex bad_segment (split_on (CHR ''/'') rel) then None
              else Some \<lparr>de_path = rel, de_dir = re_dir raw, de_size = re_size raw, de_mtime = re_mtime raw\<rparr>))"

definition listing_of :: "(string \<Rightarrow> string option) \<Rightarrow> string \<Rightarrow> string \<Rightarrow> raw_entry list \<Rightarrow> dav_entry list" where
  "listing_of href_path root_path listed_dir raws = List.map_filter (entry_of_raw href_path root_path listed_dir) raws"

text \<open>The answer to PROPFIND: a status, and the events of the body or why it broke off.\<close>

definition dav_list ::
  "(nat \<Rightarrow> string) \<Rightarrow> (string \<Rightarrow> int option) \<Rightarrow> (string \<Rightarrow> string option) \<Rightarrow> string \<Rightarrow> string \<Rightarrow>
   (transport_failure, nat \<times> (transport_failure, xml_event list \<times> string option) result) result \<Rightarrow>
   (string, dav_entry list) result" where
  "dav_list shown rfc2822 href_path root_path listed_dir answer = (case answer of
     Inl e \<Rightarrow> Inl (dav_transport_error e)
   | Inr (status, body) \<Rightarrow>
       if status \<noteq> 207
       then Inl (if status_is_success status then not_a_folder else dav_status_error shown status)
       else (case body of
         Inl e \<Rightarrow> Inl (dav_transport_error e)
       | Inr b \<Rightarrow> (case parse_multistatus rfc2822 b of
           Inl e \<Rightarrow> Inl e
         | Inr raws \<Rightarrow> Inr (listing_of href_path root_path listed_dir raws))))"

definition dav_get :: "(nat \<Rightarrow> string) \<Rightarrow> (transport_failure, nat \<times> 'a) result \<Rightarrow> (string, 'a) result" where
  "dav_get shown answer = (case answer of
     Inl e \<Rightarrow> Inl (dav_transport_error e)
   | Inr (status, body) \<Rightarrow> if status_is_success status then Inr body else Inl (dav_status_error shown status))"

section \<open>Where imported files go\<close>

text \<open>\<open>split(['/', '\\'])\<close>.\<close>

definition split_slashes :: "string \<Rightarrow> string list" where
  "split_slashes s = split_on (CHR ''/'') (map (\<lambda>c. if c = CHR 0x5C then CHR ''/'' else c) s)"

fun join_parts :: "string list \<Rightarrow> string list \<Rightarrow> string list option" where
  "join_parts parts [] = Some parts"
| "join_parts parts (raw # rest) =
     (let segment = trim raw
      in if segment = [] then join_parts parts rest
         else if segment = ''.'' \<or> segment = ''..'' then None
         else join_parts (parts @ [segment]) rest)"

definition join_target :: "string \<Rightarrow> string \<Rightarrow> string option" where
  "join_target target rel = (case join_parts [] (split_slashes target @ split_on (CHR ''/'') rel) of
     None \<Rightarrow> None
   | Some parts \<Rightarrow> if parts = [] then None else Some (join_with (CHR ''/'') parts))"

fun target_parts :: "string list \<Rightarrow> string list \<Rightarrow> string list sarca_result" where
  "target_parts parts [] = Inr parts"
| "target_parts parts (raw # rest) =
     (let segment = trim raw
      in if segment = [] \<or> segment = ''.'' then target_parts parts rest
         else if segment = ''..'' then Inl InvalidPath
         else target_parts (parts @ [segment]) rest)"

definition normalize_target :: "string \<Rightarrow> string sarca_result" where
  "normalize_target raw = (case target_parts [] (split_slashes raw) of
     Inl e \<Rightarrow> Inl e
   | Inr parts \<Rightarrow> Inr (join_with (CHR ''/'') parts))"

section \<open>Trimming twice\<close>

lemma strip_any_None_iff: "strip_any ps s = None \<longleftrightarrow> (\<forall>p\<in>set ps. \<not> starts_with p s)"
  by (induction ps) (auto simp: starts_with_def split: option.splits)

lemma strip_any_shorter: "[] \<notin> set ps \<Longrightarrow> strip_any ps s = Some r \<Longrightarrow> length r < length s"
  by (induction ps) (auto simp: strip_prefix_Some_iff split: option.splits)

lemma strip_all_done: "[] \<notin> set ps \<Longrightarrow> strip_any ps (strip_all ps s) = None"
proof (induction ps s rule: strip_all.induct)
  case (1 ps s)
  then show ?case
    using strip_any_shorter [of ps s] by (subst strip_all.simps) (auto split: option.splits)
qed

lemma strip_all_fixed: "strip_any ps s = None \<Longrightarrow> strip_all ps s = s"
  by (subst strip_all.simps) simp

lemma strip_any_rest: "strip_any ps s = Some r \<Longrightarrow> \<exists>u. s = u @ r"
  by (induction ps) (auto simp: strip_prefix_Some_iff split: option.splits)

lemma strip_all_rest: "\<exists>u. s = u @ strip_all ps s"
proof (induction ps s rule: strip_all.induct)
  case (1 ps s)
  show ?case
  proof (cases "strip_any ps s")
    case None
    then show ?thesis by (simp add: strip_all_fixed)
  next
    case (Some r)
    then obtain u where u: "s = u @ r" using strip_any_rest by blast
    show ?thesis
    proof (cases "length r < length s")
      case True
      then obtain v where "r = v @ strip_all ps r" using 1 [OF Some] by blast
      then have "s = (u @ v) @ strip_all ps r" using u by simp
      then show ?thesis using Some True by (subst strip_all.simps) auto
    next
      case False
      then show ?thesis using Some by (subst strip_all.simps) auto
    qed
  qed
qed

lemma trim_idem: "trim (trim s) = trim s"
proof -
  let ?a = "trim_start s" and ?ws = "map rev ws_chars"
  have nw: "[] \<notin> set ws_chars" "[] \<notin> set ?ws" by (auto simp: ws_chars_def)
  obtain u where "rev ?a = u @ strip_all ?ws (rev ?a)" using strip_all_rest by blast
  then have a: "?a = trim_end ?a @ rev u"
    by (metis rev_append rev_rev_ident trim_end_def)
  have "strip_any ws_chars ?a = None" using nw(1) by (simp add: trim_start_def strip_all_done)
  then have "strip_any ws_chars (trim_end ?a) = None"
    unfolding strip_any_None_iff starts_with_iff by (metis a append_assoc)
  then have 1: "trim_start (trim s) = trim s" by (simp add: trim_start_def trim_def strip_all_fixed)
  have "strip_any ?ws (rev (trim s)) = None"
    using nw(2) by (simp add: trim_def trim_end_def strip_all_done)
  then have "trim_end (trim s) = trim s" by (simp add: trim_end_def strip_all_fixed)
  then show ?thesis using 1 by (simp add: trim_def [of "trim s"])
qed

lemma trim_part: "\<exists>u v. s = u @ trim s @ v"
proof -
  obtain u where u: "s = u @ trim_start s" using strip_all_rest by (metis trim_start_def)
  obtain v where "rev (trim_start s) = v @ strip_all (map rev ws_chars) (rev (trim_start s))"
    using strip_all_rest by blast
  then have "trim_start s = trim s @ rev v" by (metis rev_append rev_rev_ident trim_end_def trim_def)
  then show ?thesis using u by metis
qed

lemma trim_chars: "set (trim s) \<subseteq> set s"
  using trim_part [of s] by (metis Un_iff set_append subsetI)

section \<open>Imported files stay in their folder\<close>

definition kept_parts :: "string list \<Rightarrow> string list" where
  "kept_parts raws = filter (\<lambda>s. s \<noteq> []) (map trim raws)"

lemma join_parts_iff:
  "join_parts parts raws = Some ps \<longleftrightarrow> list_all (\<lambda>s. \<not> bad_segment s) (kept_parts raws) \<and> ps = parts @ kept_parts raws"
  by (induction parts raws rule: join_parts.induct) (auto simp: kept_parts_def bad_segment_def Let_def)

lemma target_parts_trimmed:
  "target_parts parts raws = Inr ps \<Longrightarrow> \<exists>more. ps = parts @ more \<and> set more \<subseteq> set (map trim raws) \<and> list_all (\<lambda>s. \<not> bad_segment s) more"
proof (induction parts raws rule: target_parts.induct)
  case (2 parts raw rest)
  let ?t = "trim raw"
  show ?case
  proof (cases "?t = [] \<or> ?t = ''.''")
    case True
    then have "target_parts parts rest = Inr ps" using 2(3) by (auto simp: Let_def)
    then show ?thesis using 2(1) [OF refl True] by auto
  next
    case False
    then have nd: "?t \<noteq> ''..''" and "target_parts (parts @ [?t]) rest = Inr ps" using 2(3) by (auto simp: Let_def split: if_splits)
    then obtain more where m: "ps = (parts @ [?t]) @ more" "set more \<subseteq> set (map trim rest)" "list_all (\<lambda>s. \<not> bad_segment s) more"
      using 2(2) [OF refl False] by blast
    show ?thesis using m False nd by (intro exI [of _ "?t # more"]) (auto simp: bad_segment_def)
  qed
qed simp

lemma split_slashes_pieces: "w \<in> set (split_slashes s) \<Longrightarrow> CHR ''/'' \<notin> set w \<and> CHR 0x5C \<notin> set w"
proof -
  have sub: "v \<in> set (split_on c t) \<Longrightarrow> set v \<subseteq> set t" for v c t
  proof (induction t arbitrary: v)
    case (Cons x xs)
    then show ?case by (cases "split_on c xs") (fastforce split: if_splits)+
  qed simp
  assume w: "w \<in> set (split_slashes s)"
  then have "CHR ''/'' \<notin> set w" unfolding split_slashes_def by (rule split_on_pieces)
  moreover have "set w \<subseteq> set (map (\<lambda>c. if c = CHR 0x5C then CHR ''/'' else c) s)"
    using w unfolding split_slashes_def by (rule sub)
  ultimately show ?thesis by auto
qed

text \<open>A folder as \<open>normalize_target\<close> leaves it is split into the same parts again.\<close>

definition clean_part :: "string \<Rightarrow> bool" where
  "clean_part s \<longleftrightarrow> \<not> bad_segment s \<and> trim s = s \<and> CHR ''/'' \<notin> set s"

lemma join_with_chars: "c \<in> set (join_with d ws) \<Longrightarrow> c = d \<or> (\<exists>w\<in>set ws. c \<in> set w)"
  by (induction d ws rule: join_with.induct) auto

lemma normalize_target_parts:
  assumes "normalize_target raw = Inr t"
  shows "\<exists>ps. t = join_with (CHR ''/'') ps \<and> list_all clean_part ps \<and> kept_parts (split_slashes t) = ps"
proof -
  obtain ps where tp: "target_parts [] (split_slashes raw) = Inr ps" and t: "t = join_with (CHR ''/'') ps"
    using assms by (auto simp: normalize_target_def split: sum.splits)
  have ps: "set ps \<subseteq> set (map trim (split_slashes raw))" "list_all (\<lambda>s. \<not> bad_segment s) ps"
    using target_parts_trimmed [OF tp] by auto
  have clean: "clean_part s \<and> CHR 0x5C \<notin> set s" if s: "s \<in> set ps" for s
  proof -
    have "s \<in> trim ` set (split_slashes raw)" using ps(1) s by auto
    then obtain w where w: "w \<in> set (split_slashes raw)" "s = trim w" by (rule imageE) (rule that)
    then show ?thesis using split_slashes_pieces [OF w(1)] trim_chars [of w] ps(2) s trim_idem [of w]
      by (auto simp: clean_part_def list_all_iff)
  qed
  have "CHR 0x5C \<notin> set t" using clean join_with_chars [of "CHR 0x5C" "CHR ''/''" ps] t by auto
  then have "map (\<lambda>c. if c = CHR 0x5C then CHR ''/'' else c) t = t" by (intro map_idI) auto
  then have same: "split_slashes t = split_on (CHR ''/'') t" by (simp only: split_slashes_def)
  have "kept_parts (split_slashes t) = ps"
  proof (cases "ps = []")
    case True
    then show ?thesis using same t by (simp add: kept_parts_def trim_def trim_start_def trim_end_def strip_all.simps ws_chars_def)
  next
    case False
    have "split_on (CHR ''/'') t = ps" unfolding t using False clean by (intro split_join) (auto simp: clean_part_def)
    moreover have "map trim ps = ps" using clean by (intro map_idI) (auto simp: clean_part_def)
    moreover have "filter (\<lambda>s. s \<noteq> []) ps = ps" using clean by (intro filter_True) (auto simp: clean_part_def bad_segment_def)
    ultimately show ?thesis using same by (simp add: kept_parts_def)
  qed
  then show ?thesis using t clean by (auto simp: list_all_iff)
qed

lemma join_with_append: "xs \<noteq> [] \<Longrightarrow> ys \<noteq> [] \<Longrightarrow> join_with c (xs @ ys) = join_with c xs @ c # join_with c ys"
proof (induction c xs rule: join_with.induct)
  case (2 c w)
  then show ?case by (cases ys) auto
qed auto

text \<open>
  C0. However an entry of the source is named, the file it becomes lies in the folder the import
  was given: its path continues the normalised target, and none of its segments is empty, a dot or
  two dots, so it cannot climb out of it or be read as a folder.
\<close>

theorem imported_paths_confined:
  assumes "normalize_target raw = Inr t" "join_target t rel = Some p"
  shows "(\<forall>seg\<in>set (split_on (CHR ''/'') p). \<not> bad_segment seg) \<and> (t = [] \<or> p = t \<or> (\<exists>q. p = t @ CHR ''/'' # q))"
proof -
  obtain ps where ps: "t = join_with (CHR ''/'') ps" "list_all clean_part ps" "kept_parts (split_slashes t) = ps"
    using normalize_target_parts [OF assms(1)] by blast
  let ?rs = "kept_parts (split_on (CHR ''/'') rel)"
  have p: "p = join_with (CHR ''/'') (ps @ ?rs)" "ps @ ?rs \<noteq> []" "list_all (\<lambda>s. \<not> bad_segment s) (ps @ ?rs)"
  proof -
    have "join_parts [] (split_slashes t @ split_on (CHR ''/'') rel) = Some parts \<Longrightarrow> parts = ps @ ?rs \<and> list_all (\<lambda>s. \<not> bad_segment s) (ps @ ?rs)" for parts
      using ps(3) unfolding join_parts_iff by (simp add: kept_parts_def)
    then show "p = join_with (CHR ''/'') (ps @ ?rs)" "ps @ ?rs \<noteq> []" "list_all (\<lambda>s. \<not> bad_segment s) (ps @ ?rs)"
      using assms(2) unfolding join_target_def by (auto split: option.splits if_splits)
  qed
  have "CHR ''/'' \<notin> set s" if "s \<in> set (ps @ ?rs)" for s
    using that ps(2) trim_chars split_on_pieces by (fastforce simp: list_all_iff clean_part_def kept_parts_def)
  then have "split_on (CHR ''/'') p = ps @ ?rs" unfolding p(1) using p(2) by (intro split_join) auto
  moreover have "t = [] \<or> p = t \<or> (\<exists>q. p = t @ CHR ''/'' # q)"
    using p(1) ps(1) join_with_append [of ps ?rs] by (cases "ps = []"; cases "?rs = []") auto
  ultimately show ?thesis using p(3) by (simp add: list_all_iff)
qed

theorem imported_paths_confined_witness:
  "normalize_target '' /Imports//Cloud/ '' = Inr ''Imports/Cloud'' \<and>
   join_target ''Imports/Cloud'' ''a/ b.jpg'' = Some ''Imports/Cloud/a/b.jpg'' \<and>
   join_target ''Imports/Cloud'' ''a/../b'' = None \<and> \<not> bad_segment ''b.jpg''"
proof -
  have n: "normalize_target '' /Imports//Cloud/ '' = Inr ''Imports/Cloud''" by code_simp
  have j: "join_target ''Imports/Cloud'' ''a/ b.jpg'' = Some ''Imports/Cloud/a/b.jpg''" by code_simp
  have "join_target ''Imports/Cloud'' ''a/../b'' = None" by code_simp
  then show ?thesis using n j imported_paths_confined [OF n j] by (simp add: bad_segment_def)
qed

text \<open>Two files of the source whose names differ in outer blanks get the same path.\<close>

lemma join_target_forgets_blanks:
  "join_target ''Photos'' ''a.jpg'' = Some ''Photos/a.jpg'' \<and> join_target ''Photos'' '' a.jpg'' = Some ''Photos/a.jpg''"
  by code_simp

text \<open>What a listing yields lies under the root, and its path is the one below it.\<close>

lemma listing_below_root:
  assumes "e \<in> set (listing_of href_path root_path listed_dir raws)"
  shows "\<exists>raw below. raw \<in> set raws \<and> href_path (re_href raw) = Some (root_path @ below) \<and>
     de_path e = trim_matches (CHR ''/'') below \<and> (\<forall>seg\<in>set (split_on (CHR ''/'') (de_path e)). \<not> bad_segment seg)"
proof -
  obtain raw where raw: "raw \<in> set raws" "entry_of_raw href_path root_path listed_dir raw = Some e"
    using assms unfolding listing_of_def by (auto simp: List.map_filter_def)
  then show ?thesis
    by (intro exI [of _ raw]) (auto simp: entry_of_raw_def Let_def strip_prefix_Some_iff list_ex_iff split: option.splits if_splits)
qed

section \<open>Reading back what a server says\<close>

text \<open>
  A response as the servers named in the source write it: the href, a propstat of the properties
  found, and one of those that are not there, whose values do not count.
\<close>

definition element :: "string \<Rightarrow> xml_event list \<Rightarrow> xml_event list" where
  "element name content = XStart name # content @ [XEnd name]"

definition render_response :: "raw_entry \<Rightarrow> string option \<Rightarrow> string \<Rightarrow> xml_event list" where
  "render_response e date junk = element ''response'' (element ''href'' [XText (re_href e)] @
     element ''propstat'' (element ''prop''
         (element ''resourcetype'' (if re_dir e then [XEmpty ''collection''] else []) @
          element ''getcontentlength'' [XText (show_nat (re_size e))] @
          (case date of None \<Rightarrow> [] | Some d \<Rightarrow> element ''getlastmodified'' [XText d])) @
       element ''status'' [XText ''HTTP/1.1 200 OK'']) @
     element ''propstat'' (element ''prop'' (element ''getcontentlength'' [XText junk]) @
       element ''status'' [XText ''HTTP/1.1 404 Not Found'']))"

definition renderable :: "(string \<Rightarrow> int option) \<Rightarrow> raw_entry \<Rightarrow> string option \<Rightarrow> bool" where
  "renderable rfc2822 e date \<longleftrightarrow> re_href e \<noteq> [] \<and> trim (re_href e) = re_href e \<and> re_size e \<le> u64_max \<and>
     re_mtime e = Option.bind date (\<lambda>d. rfc2822 (trim d))"

lemma blanks_are_no_digits:
  "list_all (\<lambda>w. w \<noteq> [] \<and> \<not> is_digit (hd w)) ws_chars" "list_all (\<lambda>w. w \<noteq> [] \<and> \<not> is_digit (hd w)) (map rev ws_chars)"
  by code_simp+

lemma digits_have_no_blank:
  assumes "list_all is_digit s" "list_all (\<lambda>w. w \<noteq> [] \<and> \<not> is_digit (hd w)) ps"
  shows "strip_all ps s = s"
proof -
  have "\<not> starts_with w s" if "w \<in> set ps" for w
  proof
    assume "starts_with w s"
    then obtain r where "s = w @ r" by (auto simp: starts_with_iff)
    moreover have "w \<noteq> []" "\<not> is_digit (hd w)" using assms(2) that by (auto simp: list_all_iff)
    ultimately show False using assms(1) by (cases w) auto
  qed
  then show ?thesis by (intro strip_all_fixed) (simp add: strip_any_None_iff)
qed

lemma trim_digits: "list_all is_digit s \<Longrightarrow> trim s = s"
  using digits_have_no_blank [OF _ blanks_are_no_digits(1), of s] digits_have_no_blank [OF _ blanks_are_no_digits(2), of "rev s"]
  by (simp add: trim_def trim_start_def trim_end_def list_all_iff)

lemma status_words:
  "second_word (trim ''HTTP/1.1 200 OK'') = ''200''" "second_word (trim ''HTTP/1.1 404 Not Found'') \<noteq> ''200''"
  by code_simp+

lemma parse_size [simp]: "n \<le> u64_max \<Longrightarrow> parse_unsigned u64_max (trim (show_nat n)) = Some n"
  using show_nat_digits [of n] by (simp add: trim_digits parse_show_nat)

text \<open>The parser between two responses.\<close>

definition at_rest :: "dav_parser \<Rightarrow> bool" where
  "at_rest p \<longleftrightarrow> dp_current p = None \<and> dp_field p = None"

lemmas parser_step = on_start_def on_end_def close_field_def add_text_def Let_def

lemma field_names:
  "field_of ''href'' = Some FHref" "field_of ''getcontentlength'' = Some FSize"
  "field_of ''getlastmodified'' = Some FMtime" "field_of ''status'' = Some FStatus"
  "field_of ''response'' = None" "field_of ''propstat'' = None" "field_of ''prop'' = None"
  "field_of ''resourcetype'' = None" "field_of ''multistatus'' = None"
  by (simp_all add: field_of_def)

lemma element_run [simp]:
  "fold (on_event rfc2822) (element name content) p = on_end rfc2822 name (fold (on_event rfc2822) content (on_start name p))"
  by (simp add: element_def)

lemma href_run: "fold (on_event rfc2822) (element ''href'' [XText v]) p =
    p\<lparr>dp_current := map_option (\<lambda>e. e\<lparr>re_href := trim v\<rparr>) (dp_current p), dp_field := None, dp_text := []\<rparr>"
  by (simp add: parser_step field_names)

lemma status_run: "fold (on_event rfc2822) (element ''status'' [XText v]) p =
    p\<lparr>dp_ok := (second_word (trim v) = ''200''), dp_field := None, dp_text := []\<rparr>"
  by (simp add: parser_step field_names)

lemma size_run: "fold (on_event rfc2822) (element ''getcontentlength'' [XText v]) p =
    p\<lparr>dp_pending := (dp_pending p)\<lparr>re_size := (case parse_unsigned u64_max (trim v) of None \<Rightarrow> 0 | Some n \<Rightarrow> n)\<rparr>,
      dp_field := None, dp_text := []\<rparr>"
  by (simp add: parser_step field_names)

lemma mtime_run: "fold (on_event rfc2822) (element ''getlastmodified'' [XText v]) p =
    p\<lparr>dp_pending := (dp_pending p)\<lparr>re_mtime := rfc2822 (trim v)\<rparr>, dp_field := None, dp_text := []\<rparr>"
  by (simp add: parser_step field_names)

lemma type_run: "fold (on_event rfc2822) (element ''resourcetype'' (if d then [XEmpty ''collection''] else [])) p =
    p\<lparr>dp_pending := (dp_pending p)\<lparr>re_dir := re_dir (dp_pending p) \<or> d\<rparr>\<rparr>"
  by (simp add: parser_step field_names)

lemma prop_run: "fold (on_event rfc2822) (element ''prop'' c) p = fold (on_event rfc2822) c p"
  by (simp add: parser_step field_names)

lemma propstat_run: "fold (on_event rfc2822) (element ''propstat'' c) p =
    (let q = fold (on_event rfc2822) c (p\<lparr>dp_pending := default_raw, dp_ok := True\<rparr>)
     in if dp_ok q then q\<lparr>dp_current := map_option (apply_pending (dp_pending q)) (dp_current q)\<rparr> else q)"
  by (simp add: parser_step field_names)

lemma response_run: "fold (on_event rfc2822) (element ''response'' c) p =
    (let q = fold (on_event rfc2822) c (p\<lparr>dp_current := Some default_raw\<rparr>)
     in case dp_current q of None \<Rightarrow> q
        | Some e \<Rightarrow> q\<lparr>dp_current := None, dp_entries := (if re_href e = [] then dp_entries q else dp_entries q @ [e])\<rparr>)"
  by (simp add: parser_step field_names)

lemmas element_runs = href_run status_run size_run mtime_run type_run prop_run propstat_run response_run

lemma render_one:
  assumes r: "renderable rfc2822 e date" and p: "at_rest p"
  shows "at_rest (fold (on_event rfc2822) (render_response e date junk) p) \<and>
    dp_entries (fold (on_event rfc2822) (render_response e date junk) p) = dp_entries p @ [e]"
  using r p status_words
  by (cases date)
    (simp_all del: element_run add: render_response_def element_runs renderable_def at_rest_def default_raw_def apply_pending_def Let_def)

definition render_listing :: "(raw_entry \<times> string option \<times> string) list \<Rightarrow> xml_event list" where
  "render_listing es = element ''multistatus'' (concat (map (\<lambda>(e, date, junk). render_response e date junk) es))"

lemma render_many:
  "(\<forall>(e, date, junk)\<in>set es. renderable rfc2822 e date) \<Longrightarrow> at_rest p \<Longrightarrow>
   at_rest (fold (on_event rfc2822) (concat (map (\<lambda>(e, date, junk). render_response e date junk) es)) p) \<and>
   dp_entries (fold (on_event rfc2822) (concat (map (\<lambda>(e, date, junk). render_response e date junk) es)) p) = dp_entries p @ map fst es"
proof (induction es arbitrary: p)
  case (Cons x es)
  obtain e date junk where x: "x = (e, date, junk)" by (cases x)
  then have "renderable rfc2822 e date" using Cons.prems(1) by simp
  then show ?case using render_one [of rfc2822 e date p junk] Cons x by auto
qed simp

text \<open>C0. A listing is read back as it was written, its missing properties left out.\<close>

theorem listing_read_back:
  assumes "\<forall>(e, date, junk)\<in>set es. renderable rfc2822 e date"
  shows "parse_multistatus rfc2822 (render_listing es, None) = Inr (map fst es)"
proof -
  have start: "at_rest (on_start ''multistatus'' dav_start)" "dp_entries (on_start ''multistatus'' dav_start) = []"
    by (simp_all add: at_rest_def parser_step field_names dav_start_def)
  let ?body = "fold (on_event rfc2822) (concat (map (\<lambda>(e, date, junk). render_response e date junk) es)) (on_start ''multistatus'' dav_start)"
  have "dp_entries ?body = map fst es" using render_many [OF assms start(1)] start(2) by simp
  then show ?thesis by (simp add: parse_multistatus_def render_listing_def on_end_def field_names)
qed

theorem listing_read_back_witness:
  "parse_multistatus (\<lambda>d. if d = ''today'' then Some 7 else None)
     (render_listing [(\<lparr>re_href = ''/dav/a'', re_dir = False, re_size = 12, re_mtime = Some 7\<rparr>, Some ''today'', ''99''),
        (\<lparr>re_href = ''/dav/b/'', re_dir = True, re_size = 0, re_mtime = None\<rparr>, None, '''')], None)
   = Inr [\<lparr>re_href = ''/dav/a'', re_dir = False, re_size = 12, re_mtime = Some 7\<rparr>,
          \<lparr>re_href = ''/dav/b/'', re_dir = True, re_size = 0, re_mtime = None\<rparr>]"
proof -
  have t: "trim ''/dav/a'' = ''/dav/a''" "trim ''/dav/b/'' = ''/dav/b/''" "trim ''today'' = ''today''" by code_simp+
  show ?thesis by (subst listing_read_back) (simp_all add: renderable_def t u64_max_def)
qed

end
